(* ===== verification/Prelude.thy ===== *)
theory Prelude
  imports Main "HOL-Library.List_Lexorder" "HOL-Library.Char_ord" "HOL-Library.Product_Lexorder"
begin

text \<open>
  Shared vocabulary of the development: results of Python code that may raise, the string
  methods the sources use, dictionaries as association lists in insertion order, and the
  three interfaces (locales) that several components share.

  Strings are sequences of bytes (\<open>char list\<close>); the code's identifiers, paths and command
  outputs are ASCII, where bytes and code points agree.  \<open>sorted\<close> on strings is the
  lexicographic order of \<open>HOL-Library.List_Lexorder\<close> over the character codes, as in Python.
\<close>

named_theorems str_simps \<open>facts on the string helpers\<close>
named_theorems table_simps \<open>facts on keyed row tables\<close>
named_theorems plan_simps \<open>facts on plans\<close>

section \<open>Exceptions as values\<close>

datatype exc = ValueError string | TypeError string | RuntimeError string | OSError string | KeyError string
  | AssertionError string | ControllerError string "int option" | BootstrapPending string | BootstrapRejected string
  | HTTPException int string | IntegrityError string

type_synonym 'a res = "exc + 'a"

definition rbind :: "'a res \<Rightarrow> ('a \<Rightarrow> 'b res) \<Rightarrow> 'b res" where
  "rbind r f = (case r of Inl e \<Rightarrow> Inl e | Inr x \<Rightarrow> f x)"

lemma rbind_simps [simp]: "rbind (Inl e) f = Inl e" "rbind (Inr x) f = f x"
  by (simp_all add: rbind_def)

lemma rbind_Inr_iff: "rbind r f = Inr y \<longleftrightarrow> (\<exists>x. r = Inr x \<and> f x = Inr y)"
  by (cases r) auto

definition raise_if :: "bool \<Rightarrow> exc \<Rightarrow> unit res" where
  "raise_if b e = (if b then Inl e else Inr ())"

lemma raise_if_simps [simp]:
  "raise_if b e = Inr u \<longleftrightarrow> \<not> b"
  "raise_if False e = Inr ()" "raise_if True e = Inl e"
  by (auto simp: raise_if_def)

text \<open>A validator as the sequence of its guarded \<open>raise\<close> statements, then its result.\<close>

fun checks :: "(bool \<times> exc) list \<Rightarrow> 'a \<Rightarrow> 'a res" where
  "checks [] x = Inr x"
| "checks ((b, e) # cs) x = (if b then Inl e else checks cs x)"

lemma checks_Inr: "checks cs x = Inr y \<longleftrightarrow> y = x \<and> list_all (\<lambda>c. \<not> fst c) cs"
  by (induction cs) (auto split: if_splits)

text \<open>A loop that may raise, threading an accumulator.\<close>

fun rfold :: "('s \<Rightarrow> 'a \<Rightarrow> 's res) \<Rightarrow> 's \<Rightarrow> 'a list \<Rightarrow> 's res" where
  "rfold f s [] = Inr s"
| "rfold f s (x # xs) = rbind (f s x) (\<lambda>s'. rfold f s' xs)"

lemma rfold_append: "rfold f s (xs @ ys) = rbind (rfold f s xs) (\<lambda>s'. rfold f s' ys)"
proof (induction xs arbitrary: s)
  case (Cons x xs)
  then show ?case by (cases "f s x") simp_all
qed simp

lemma rfold_inv:
  assumes "rfold f s xs = Inr s'" "P s"
    and "\<And>s x t. x \<in> set xs \<Longrightarrow> P s \<Longrightarrow> f s x = Inr t \<Longrightarrow> P t"
  shows "P s'"
  using assms
proof (induction xs arbitrary: s)
  case (Cons x xs)
  obtain t where t: "f s x = Inr t" "rfold f t xs = Inr s'"
    using Cons.prems(1) by (auto simp: rbind_Inr_iff)
  have Pt: "P t" using Cons.prems(3) [OF list.set_intros(1) Cons.prems(2) t(1)] .
  show ?case
    by (rule Cons.IH [OF t(2) Pt]) (rule Cons.prems(3) [OF list.set_intros(2)])
qed simp

lemma find_append: "find P (xs @ ys) = (case find P xs of None \<Rightarrow> find P ys | Some x \<Rightarrow> Some x)"
  by (induction xs) auto

section \<open>String methods\<close>

definition starts_with :: "string \<Rightarrow> string \<Rightarrow> bool" where
  "starts_with p s \<longleftrightarrow> take (length p) s = p"

definition ends_with :: "string \<Rightarrow> string \<Rightarrow> bool" where
  "ends_with q s \<longleftrightarrow> length q \<le> length s \<and> drop (length s - length q) s = q"

fun split_on :: "char \<Rightarrow> string \<Rightarrow> string list" where
  "split_on c [] = [[]]"
| "split_on c (x # xs) =
     (if x = c then [] # split_on c xs
      else (case split_on c xs of [] \<Rightarrow> [[x]] | w # ws \<Rightarrow> (x # w) # ws))"

fun join :: "string \<Rightarrow> string list \<Rightarrow> string" where
  "join sep [] = []"
| "join sep [x] = x"
| "join sep (x # y # ys) = x @ sep @ join sep (y # ys)"

definition before_first :: "char \<Rightarrow> string \<Rightarrow> string" where
  "before_first c s = takeWhile (\<lambda>x. x \<noteq> c) s"

definition after_first :: "char \<Rightarrow> string \<Rightarrow> string" where
  "after_first c s = drop 1 (dropWhile (\<lambda>x. x \<noteq> c) s)"

definition strip_by :: "(char \<Rightarrow> bool) \<Rightarrow> string \<Rightarrow> string" where
  "strip_by p s = rev (dropWhile p (rev (dropWhile p s)))"

definition is_space :: "char \<Rightarrow> bool" where
  "is_space c \<longleftrightarrow> (let n = (of_char c :: nat) in (9 \<le> n \<and> n \<le> 13) \<or> (28 \<le> n \<and> n \<le> 32))"

definition is_line_break :: "char \<Rightarrow> bool" where
  "is_line_break c \<longleftrightarrow> (let n = (of_char c :: nat) in (10 \<le> n \<and> n \<le> 13) \<or> (28 \<le> n \<and> n \<le> 30))"

definition is_digit :: "char \<Rightarrow> bool" where
  "is_digit c \<longleftrightarrow> (let n = (of_char c :: nat) in 48 \<le> n \<and> n \<le> 57)"

definition is_upper :: "char \<Rightarrow> bool" where
  "is_upper c \<longleftrightarrow> (let n = (of_char c :: nat) in 65 \<le> n \<and> n \<le> 90)"

definition is_lower :: "char \<Rightarrow> bool" where
  "is_lower c \<longleftrightarrow> (let n = (of_char c :: nat) in 97 \<le> n \<and> n \<le> 122)"

definition is_alnum :: "char \<Rightarrow> bool" where
  "is_alnum c \<longleftrightarrow> is_digit c \<or> is_upper c \<or> is_lower c"

definition lower_char :: "char \<Rightarrow> char" where
  "lower_char c = (if is_upper c then char_of ((of_char c :: nat) + 32) else c)"

definition lower :: "string \<Rightarrow> string" where
  "lower s = map lower_char s"

definition strip :: "string \<Rightarrow> string" where
  "strip s = strip_by is_space s"

definition contains :: "string \<Rightarrow> string \<Rightarrow> bool" where
  "contains sub s \<longleftrightarrow> list_ex (\<lambda>n. starts_with sub (drop n s)) [0..<Suc (length s)]"

definition isdigit :: "string \<Rightarrow> bool" where
  "isdigit s \<longleftrightarrow> s \<noteq> [] \<and> list_all is_digit s"

definition int_of_digits :: "string \<Rightarrow> int" where
  "int_of_digits s = foldl (\<lambda>n c. 10 * n + (of_char c - 48)) 0 s"

text \<open>\<open>repr\<close> of a string without quotes and escapes, as in \<open>f"{value!r}"\<close>.\<close>

definition repr_str :: "string \<Rightarrow> string" where
  "repr_str s = [CHR 0x27] @ s @ [CHR 0x27]"

text \<open>\<open>str.split()\<close> and \<open>str.splitlines()\<close>.\<close>

fun words_aux :: "string \<Rightarrow> string \<Rightarrow> string list" where
  "words_aux acc [] = (if acc = [] then [] else [rev acc])"
| "words_aux acc (c # cs) =
     (if is_space c then (if acc = [] then words_aux [] cs else rev acc # words_aux [] cs)
      else words_aux (c # acc) cs)"

definition words :: "string \<Rightarrow> string list" where
  "words s = words_aux [] s"

fun lines_aux :: "bool \<Rightarrow> string \<Rightarrow> string \<Rightarrow> string list" where
  "lines_aux after_cr acc [] = (if acc = [] then [] else [rev acc])"
| "lines_aux after_cr acc (c # cs) =
     (if after_cr \<and> c = CHR 0x0A then lines_aux False acc cs
      else if is_line_break c then rev acc # lines_aux (c = CHR 0x0D) [] cs
      else lines_aux False (c # acc) cs)"

definition splitlines :: "string \<Rightarrow> string list" where
  "splitlines s = lines_aux False [] s"

text \<open>\<open>str(n)\<close>, digit by digit.\<close>

function digits_of :: "int \<Rightarrow> string" where
  "digits_of n = (if n < 10 then [char_of (48 + n)] else digits_of (n div 10) @ [char_of (48 + n mod 10)])"
  by pat_completeness auto
termination by (relation "measure nat") auto

declare digits_of.simps [simp del]

definition str_int :: "int \<Rightarrow> string" where
  "str_int i = (if i < 0 then ''-'' @ digits_of (- i) else digits_of i)"

text \<open>Printing and reading decimal numbers.\<close>

lemma int_of_digits_snoc: "int_of_digits (xs @ [c]) = 10 * int_of_digits xs + (of_char c - 48)"
  by (simp add: int_of_digits_def)

lemma of_char_digit:
  assumes "0 \<le> d" "d < 10"
  shows "(of_char (char_of (48 + d :: int)) :: int) = 48 + d"
    and "(of_char (char_of (48 + d :: int)) :: nat) = nat (48 + d)"
proof -
  show i: "(of_char (char_of (48 + d :: int)) :: int) = 48 + d" using assms by simp
  have "int (of_char (char_of (48 + d :: int)) :: nat) = 48 + d" using i by (simp only: of_nat_of_char)
  then show "(of_char (char_of (48 + d :: int)) :: nat) = nat (48 + d)" by simp
qed

lemma is_digit_char: "0 \<le> d \<Longrightarrow> d < 10 \<Longrightarrow> is_digit (char_of (48 + d :: int))"
  unfolding is_digit_def of_char_digit(2) Let_def by (simp add: le_nat_iff nat_le_iff)

lemma digits_of_read:
  "0 \<le> n \<Longrightarrow> int_of_digits (digits_of n) = n \<and> list_all is_digit (digits_of n) \<and> digits_of n \<noteq> []"
proof (induction n rule: digits_of.induct)
  case (1 n)
  show ?case
  proof (cases "n < 10")
    case True
    then show ?thesis using 1(2)
      by (subst (1 2 3) digits_of.simps) (simp add: int_of_digits_def of_char_digit(1) is_digit_char del: of_char_of)
  next
    case False
    have "0 \<le> n mod 10" "n mod 10 < 10" by simp_all
    then show ?thesis using 1 False
      by (subst (1 2 3) digits_of.simps)
         (simp add: int_of_digits_snoc of_char_digit(1) is_digit_char pos_imp_zdiv_nonneg_iff del: of_char_of)
  qed
qed

lemma str_int_read:
  "0 \<le> n \<Longrightarrow> int_of_digits (str_int n) = n" "0 \<le> n \<Longrightarrow> isdigit (str_int n)"
  using digits_of_read [of n] by (auto simp: str_int_def isdigit_def)

lemma str_int_chars: "0 \<le> n \<Longrightarrow> \<not> is_digit c \<Longrightarrow> c \<notin> set (str_int n)"
  using str_int_read(2) [of n] by (auto simp: isdigit_def list_all_iff)

lemma hd_digits_of: "0 < n \<Longrightarrow> hd (digits_of n) \<noteq> CHR ''0''"
proof (induction n rule: digits_of.induct)
  case (1 n)
  show ?case
  proof (cases "n < 10")
    case True
    have "(of_char (char_of (48 + n :: int)) :: int) \<noteq> of_char (CHR ''0'')"
      using True 1(2) of_char_digit(1) [of n] by (simp del: of_char_of)
    then show ?thesis using True by (subst digits_of.simps) (auto simp del: of_char_of)
  next
    case False
    have "digits_of (n div 10) \<noteq> []" using digits_of_read [of "n div 10"] False by simp
    then show ?thesis using 1 False by (subst digits_of.simps) (simp add: hd_append pos_imp_zdiv_pos_iff)
  qed
qed

lemma starts_with_iff [str_simps]: "starts_with p s \<longleftrightarrow> (\<exists>t. s = p @ t)"
  unfolding starts_with_def by (metis append_eq_conv_conj append_take_drop_id)

lemma ends_with_iff [str_simps]: "ends_with q s \<longleftrightarrow> (\<exists>t. s = t @ q)"
  unfolding ends_with_def
proof
  assume "length q \<le> length s \<and> drop (length s - length q) s = q"
  then show "\<exists>t. s = t @ q" by (metis append_take_drop_id)
qed auto

lemma starts_with_append [simp]: "starts_with p (p @ t)"
  by (auto simp: starts_with_iff)

lemma ends_with_append [simp]: "ends_with q (t @ q)"
  by (auto simp: ends_with_iff)

lemma split_on_nonempty [simp]: "split_on c s \<noteq> []"
  by (induction s) (auto split: list.splits)

lemma split_on_no_sep: "c \<notin> set s \<Longrightarrow> split_on c s = [s]"
  by (induction s) auto

lemma split_on_parts_free: "w \<in> set (split_on c s) \<Longrightarrow> c \<notin> set w"
  by (induction s arbitrary: w) (auto split: if_splits list.splits)

lemma split_on_append: "c \<notin> set w \<Longrightarrow> split_on c (w @ c # s) = w # split_on c s"
  by (induction w) auto

lemma split_on_join:
  "ws \<noteq> [] \<Longrightarrow> (\<And>w. w \<in> set ws \<Longrightarrow> c \<notin> set w) \<Longrightarrow> split_on c (join [c] ws) = ws"
proof (induction "[c]" ws rule: join.induct)
  case (3 x y ys)
  then show ?case by (simp add: split_on_append)
qed (simp_all add: split_on_no_sep)

lemma join_split_on: "join [c] (split_on c s) = s"
proof (induction s)
  case (Cons x xs)
  then show ?case
    by (cases "split_on c xs"; cases "tl (split_on c xs)") auto
qed simp

section \<open>Sorting\<close>

lemma set_sort_key [simp]: "set (sort_key f xs) = set xs"
  by (rule set_sort)

lemma mset_eq_sort: "sort (xs :: 'a::linorder list) = sort ys \<Longrightarrow> set xs = set ys"
  by (metis set_sort)

section \<open>Dictionaries in insertion order\<close>

text \<open>A Python dict: assignment to a present key keeps its position, a new key goes last.\<close>

fun dput :: "'k \<Rightarrow> 'v \<Rightarrow> ('k \<times> 'v) list \<Rightarrow> ('k \<times> 'v) list" where
  "dput k v [] = [(k, v)]"
| "dput k v ((k', v') # xs) = (if k' = k then (k, v) # xs else (k', v') # dput k v xs)"

definition ddel :: "'k \<Rightarrow> ('k \<times> 'v) list \<Rightarrow> ('k \<times> 'v) list" where
  "ddel k xs = filter (\<lambda>(k', _). k' \<noteq> k) xs"

definition dict_of :: "('k \<times> 'v) list \<Rightarrow> ('k \<times> 'v) list" where
  "dict_of kvs = foldl (\<lambda>d (k, v). dput k v d) [] kvs"

lemma map_of_dput [simp]: "map_of (dput k v xs) = (map_of xs)(k \<mapsto> v)"
  by (induction k v xs rule: dput.induct) auto

lemma keys_dput: "fst ` set (dput k v xs) = insert k (fst ` set xs)"
  by (induction k v xs rule: dput.induct) auto

lemma distinct_dput: "distinct (map fst xs) \<Longrightarrow> distinct (map fst (dput k v xs))"
proof (induction k v xs rule: dput.induct)
  case (2 k v k' v' xs)
  then show ?case using keys_dput [of k v xs] by auto
qed simp

lemma dput_new: "k \<notin> fst ` set xs \<Longrightarrow> dput k v xs = xs @ [(k, v)]"
  by (induction k v xs rule: dput.induct) auto

lemma map_of_ddel [simp]: "map_of (ddel k xs) = (map_of xs)(k := None)"
proof (induction xs)
  case Nil
  show ?case by (simp add: ddel_def fun_eq_iff)
next
  case (Cons a xs)
  then show ?case by (cases a) (auto simp: ddel_def fun_eq_iff)
qed

lemma map_of_foldl_dput:
  "map_of (foldl (\<lambda>d (k, v). dput k v d) d kvs) = map_of (rev kvs @ d)"
  by (induction kvs arbitrary: d) (auto simp: fun_eq_iff map_add_def split: option.splits)

lemma map_of_dict_of: "map_of (dict_of kvs) = map_of (rev kvs)"
  by (simp add: dict_of_def map_of_foldl_dput)

lemma keys_dict_of: "fst ` set (dict_of kvs) = fst ` set kvs"
  by (simp flip: dom_map_of_conv_image_fst add: map_of_dict_of)
     (simp add: dom_map_of_conv_image_fst)

lemma set_dict_of: "set (dict_of kvs) \<subseteq> set kvs"
proof -
  have "set (dput k v d) \<subseteq> insert (k, v) (set d)" for k v and d :: "('a \<times> 'b) list"
    by (induction k v d rule: dput.induct) auto
  then have "set (foldl (\<lambda>d (k, v). dput k v d) d kvs) \<subseteq> set d \<union> set kvs" for d
    by (induction kvs arbitrary: d) (fastforce split: prod.splits)+
  then show ?thesis by (force simp: dict_of_def)
qed

lemma map_of_rev_distinct:
  assumes "distinct (map fst kvs)"
  shows "map_of (rev kvs) = map_of kvs"
proof
  fix k
  have d: "distinct (map fst (rev kvs))" using assms by (simp flip: rev_map)
  show "map_of (rev kvs) k = map_of kvs k"
  proof (cases "map_of kvs k")
    case None
    then have "map_of (rev kvs) k = None" by (simp add: map_of_eq_None_iff)
    then show ?thesis using None by simp
  next
    case (Some v)
    then have "(k, v) \<in> set (rev kvs)" by (simp add: map_of_SomeD)
    then show ?thesis using Some by (simp only: map_of_is_SomeI [OF d])
  qed
qed

lemma map_of_dict_of_distinct: "distinct (map fst kvs) \<Longrightarrow> map_of (dict_of kvs) = map_of kvs"
  by (simp add: map_of_dict_of map_of_rev_distinct)

section \<open>Interfaces\<close>

subsection \<open>Machines with an invariant\<close>

text \<open>A component driven by a sequence of events, with what each event keeps true.\<close>

locale invariant_machine =
  fixes step :: "'s \<Rightarrow> 'e \<Rightarrow> 's"
    and inv :: "'s \<Rightarrow> bool"
  assumes step_inv: "inv s \<Longrightarrow> inv (step s e)"
begin

lemma run_inv: "inv s \<Longrightarrow> inv (foldl step s es)"
  by (induction es arbitrary: s) (auto intro: step_inv)

lemma run_prefix_inv: "inv s \<Longrightarrow> inv (foldl step s (take n es))"
  by (rule run_inv)

end

subsection \<open>Keyed row tables\<close>

text \<open>What the services rely on from a database table with a primary key.\<close>

locale keyed_table =
  fixes get :: "'k \<Rightarrow> 't \<Rightarrow> 'r option"
    and put :: "'r \<Rightarrow> 't \<Rightarrow> 't"
    and del :: "'k \<Rightarrow> 't \<Rightarrow> 't"
    and key :: "'r \<Rightarrow> 'k"
  assumes get_put: "get k (put r t) = (if k = key r then Some r else get k t)"
    and get_del: "get k (del k' t) = (if k = k' then None else get k t)"
begin

lemma get_put_same: "get (key r) (put r t) = Some r"
  by (simp add: get_put)

lemma get_puts_other: "k \<notin> key ` set rs \<Longrightarrow> get k (foldl (\<lambda>t r. put r t) t rs) = get k t"
  by (induction rs arbitrary: t) (auto simp: get_put)

lemma get_replace: "key r = k \<Longrightarrow> get j (put r (del k t)) = (if j = k then Some r else get j t)"
  by (simp add: get_put get_del)

end

text \<open>Tables are lists of rows; the rows are scanned in order, as a query without ORDER BY does.\<close>

definition row_get :: "('r \<Rightarrow> 'k) \<Rightarrow> 'k \<Rightarrow> 'r list \<Rightarrow> 'r option" where
  "row_get key k rs = find (\<lambda>r. key r = k) rs"

fun row_put :: "('r \<Rightarrow> 'k) \<Rightarrow> 'r \<Rightarrow> 'r list \<Rightarrow> 'r list" where
  "row_put key r [] = [r]"
| "row_put key r (x # xs) = (if key x = key r then r # xs else x # row_put key r xs)"

definition row_del :: "('r \<Rightarrow> 'k) \<Rightarrow> 'k \<Rightarrow> 'r list \<Rightarrow> 'r list" where
  "row_del key k rs = filter (\<lambda>r. key r \<noteq> k) rs"

lemma row_get_put [table_simps]:
  "row_get key k (row_put key r rs) = (if k = key r then Some r else row_get key k rs)"
  by (induction key r rs rule: row_put.induct) (auto simp: row_get_def)

lemma row_get_del [table_simps]:
  "row_get key k (row_del key k' rs) = (if k = k' then None else row_get key k rs)"
  by (induction rs) (auto simp: row_get_def row_del_def)

lemma row_get_SomeD: "row_get key k rs = Some r \<Longrightarrow> r \<in> set rs \<and> key r = k"
  by (auto simp: row_get_def find_Some_iff)

lemma row_get_NoneD: "row_get key k rs = None \<Longrightarrow> r \<in> set rs \<Longrightarrow> key r \<noteq> k"
  by (auto simp: row_get_def find_None_iff)

lemma set_row_put: "set (row_put key r rs) \<subseteq> insert r (set rs)"
  by (induction key r rs rule: row_put.induct) auto

lemma row_put_mem [simp]: "r \<in> set (row_put key r rs)"
  by (induction key r rs rule: row_put.induct) auto

lemma keys_row_put: "key ` set (row_put key r rs) = insert (key r) (key ` set rs)"
  by (induction key r rs rule: row_put.induct) (simp_all add: insert_commute)

lemma distinct_row_put:
  "distinct (map key rs) \<Longrightarrow> distinct (map key (row_put key r rs))"
proof (induction key r rs rule: row_put.induct)
  case (2 key r x xs)
  then show ?case using keys_row_put [of key r xs] by auto
qed simp

lemma distinct_row_del: "distinct (map key rs) \<Longrightarrow> distinct (map key (row_del key k rs))"
  by (induction rs) (auto simp: row_del_def)

lemma set_row_del: "set (row_del key k rs) = {r \<in> set rs. key r \<noteq> k}"
  by (auto simp: row_del_def)

end
