(* ===== verification/Effects.thy ===== *)
theory Effects
  imports Prelude
begin

text \<open>
  Code with effects that may raise: a computation takes the state of the world and returns a
  result or an exception together with the state it leaves behind.  What was done before an
  exception stays done.
\<close>

named_theorems eff_intros \<open>closure of preserved predicates under the effect operations\<close>

type_synonym ('s, 'a) eff = "'s \<Rightarrow> 'a res \<times> 's"

definition exc_str :: "exc \<Rightarrow> string" where
  "exc_str e = (case e of ValueError m \<Rightarrow> m | TypeError m \<Rightarrow> m | RuntimeError m \<Rightarrow> m | OSError m \<Rightarrow> m
                | KeyError k \<Rightarrow> repr_str k | AssertionError m \<Rightarrow> m | ControllerError m _ \<Rightarrow> m
                | BootstrapPending m \<Rightarrow> m | BootstrapRejected m \<Rightarrow> m | HTTPException _ m \<Rightarrow> m
                | IntegrityError m \<Rightarrow> m)"

definition ret :: "'a \<Rightarrow> ('s, 'a) eff" where
  "ret x s = (Inr x, s)"

definition lift_res :: "'a res \<Rightarrow> ('s, 'a) eff" where
  "lift_res r s = (r, s)"

definition modify :: "('s \<Rightarrow> 's) \<Rightarrow> ('s, unit) eff" where
  "modify f s = (Inr (), f s)"

definition seq :: "('s, 'a) eff \<Rightarrow> ('a \<Rightarrow> ('s, 'b) eff) \<Rightarrow> ('s, 'b) eff" where
  "seq m f s = (case m s of (Inl e, s') \<Rightarrow> (Inl e, s') | (Inr x, s') \<Rightarrow> f x s')"

definition reading :: "('s \<Rightarrow> ('s, 'a) eff) \<Rightarrow> ('s, 'a) eff" where
  "reading f s = f s s"

text \<open>\<open>try: m except e: h(e)\<close>.\<close>

definition catching :: "('s, 'a) eff \<Rightarrow> (exc \<Rightarrow> ('s, 'a) eff) \<Rightarrow> ('s, 'a) eff" where
  "catching m h s = (case m s of (Inl e, s') \<Rightarrow> h e s' | (Inr x, s') \<Rightarrow> (Inr x, s'))"

fun each :: "('a \<Rightarrow> ('s, unit) eff) \<Rightarrow> 'a list \<Rightarrow> ('s, unit) eff" where
  "each f [] s = (Inr (), s)"
| "each f (x # xs) s = (case f x s of (Inl e, s') \<Rightarrow> (Inl e, s') | (Inr _, s') \<Rightarrow> each f xs s')"

lemma seq_Inr:
  "seq m f s = (Inr y, t) \<longleftrightarrow> (\<exists>x s'. m s = (Inr x, s') \<and> f x s' = (Inr y, t))"
  by (auto simp: seq_def split: prod.splits sum.splits)

lemma seq_cases:
  assumes "seq m f s = (r, t)"
  obtains e where "m s = (Inl e, t)" "r = Inl e"
  | x s' where "m s = (Inr x, s')" "f x s' = (r, t)"
  using assms by (auto simp: seq_def split: prod.splits sum.splits)

lemma eff_simps [simp]:
  "ret x s = (Inr x, s)" "lift_res r s = (r, s)" "modify f s = (Inr (), f s)" "reading g s = g s s"
  by (simp_all add: ret_def lift_res_def modify_def reading_def)

section \<open>Relations between the state before and the state after\<close>

text \<open>\<open>runs R m\<close>: whatever \<open>m\<close> does, returning or raising, it moves along \<open>R\<close>.\<close>

definition runs :: "('s \<Rightarrow> 's \<Rightarrow> bool) \<Rightarrow> ('s, 'a) eff \<Rightarrow> bool" where
  "runs R m \<longleftrightarrow> (\<forall>s. R s (snd (m s)))"

lemma runsI:
  assumes "\<And>s r t. m s = (r, t) \<Longrightarrow> R s t"
  shows "runs R m"
  unfolding runs_def
proof
  fix s
  show "R s (snd (m s))" by (rule assms [of s "fst (m s)"]) simp
qed

lemma runsD: "runs R m \<Longrightarrow> m s = (r, t) \<Longrightarrow> R s t"
  by (metis runs_def snd_conv)

locale step_order =
  fixes R :: "'s \<Rightarrow> 's \<Rightarrow> bool"
  assumes refl: "R s s" and trans: "R s t \<Longrightarrow> R t u \<Longrightarrow> R s u"
begin

lemma runs_ret: "runs R (ret x)"
  by (simp add: runs_def refl)

lemma runs_lift: "runs R (lift_res r)"
  by (simp add: runs_def refl)

lemma runs_reading: "(\<And>s. runs R (g s)) \<Longrightarrow> runs R (reading g)"
  by (simp add: runs_def)

lemma runs_seq:
  assumes "runs R m" "\<And>x. runs R (f x)"
  shows "runs R (seq m f)"
  unfolding runs_def
proof
  fix s
  obtain r t where m: "m s = (r, t)" by fastforce
  show "R s (snd (seq m f s))"
  proof (cases r)
    case (Inl e)
    then show ?thesis using m runsD [OF assms(1) m] by (simp add: seq_def)
  next
    case (Inr x)
    obtain r' u where f: "f x t = (r', u)" by fastforce
    show ?thesis using m Inr f trans [OF runsD [OF assms(1) m] runsD [OF assms(2) f]]
      by (simp add: seq_def)
  qed
qed

lemma runs_each:
  assumes "\<And>x. x \<in> set xs \<Longrightarrow> runs R (f x)"
  shows "runs R (each f xs)"
  using assms
proof (induction xs)
  case Nil
  show ?case by (simp add: runs_def refl)
next
  case (Cons x xs)
  have "each f (x # xs) = seq (f x) (\<lambda>_. each f xs)" by (simp add: fun_eq_iff seq_def)
  then show ?case using Cons by (auto intro: runs_seq)
qed

lemma runs_catching:
  assumes "runs R m" "\<And>e. runs R (h e)"
  shows "runs R (catching m h)"
  unfolding runs_def
proof
  fix s
  obtain r t where m: "m s = (r, t)" by fastforce
  have st: "R s t" using runsD [OF assms(1) m] .
  show "R s (snd (catching m h s))"
  proof (cases r)
    case (Inl e)
    obtain r' u where h: "h e t = (r', u)" by fastforce
    show ?thesis using m Inl h trans [OF st runsD [OF assms(2) h]] by (simp add: catching_def)
  next
    case (Inr x)
    then show ?thesis using m st by (simp add: catching_def)
  qed
qed

lemmas runs_intros = runs_ret runs_lift runs_seq runs_each runs_reading runs_catching

end

end
