(* ===== verification/Ipaddress.thy ===== *)
theory Ipaddress
  imports Prelude
begin

text \<open>
  The part of Python's \<open>ipaddress\<close> module the sources use, as executable functions on
  strings: address, network and interface parsing (\<open>None\<close> is the \<open>ValueError\<close>),
  the textual form, containment and \<open>subnet_of\<close>; and above it the validators of
  \<open>dn42_common/validators/ip.py\<close>.  Addresses are unbounded integers in \<open>{0..<2 ^ bits}\<close>.
\<close>

unbundle bit_operations_syntax

section \<open>Values\<close>

datatype ip_addr = IPv4Address int | IPv6Address int "string option"
datatype ip_net = IPv4Network int nat | IPv6Network int nat

fun addr_version :: "ip_addr \<Rightarrow> nat" where
  "addr_version (IPv4Address _) = 4" | "addr_version (IPv6Address _ _) = 6"

fun addr_int :: "ip_addr \<Rightarrow> int" where
  "addr_int (IPv4Address n) = n" | "addr_int (IPv6Address n _) = n"

fun net_version :: "ip_net \<Rightarrow> nat" where
  "net_version (IPv4Network _ _) = 4" | "net_version (IPv6Network _ _) = 6"

fun net_int :: "ip_net \<Rightarrow> int" where
  "net_int (IPv4Network n _) = n" | "net_int (IPv6Network n _) = n"

fun prefixlen :: "ip_net \<Rightarrow> nat" where
  "prefixlen (IPv4Network _ p) = p" | "prefixlen (IPv6Network _ p) = p"

definition ip_bits :: "nat \<Rightarrow> nat" where
  "ip_bits version = (if version = 4 then 32 else 128)"

text \<open>The address with its host bits cleared, and the last address of a network.\<close>

definition clear_host :: "nat \<Rightarrow> nat \<Rightarrow> int \<Rightarrow> int" where
  "clear_host bits p n = n div 2 ^ (bits - p) * 2 ^ (bits - p)"

definition make_net :: "nat \<Rightarrow> int \<Rightarrow> nat \<Rightarrow> ip_net" where
  "make_net version n p =
     (if version = 4 then IPv4Network (clear_host 32 p n) p else IPv6Network (clear_host 128 p n) p)"

definition broadcast :: "ip_net \<Rightarrow> int" where
  "broadcast net = net_int net + (2 ^ (ip_bits (net_version net) - prefixlen net) - 1)"

text \<open>A network as the module builds it: host bits clear, length and address in range.\<close>

definition wf_net :: "ip_net \<Rightarrow> bool" where
  "wf_net net \<longleftrightarrow>
     (let b = ip_bits (net_version net) in
      prefixlen net \<le> b \<and> 0 \<le> net_int net \<and> net_int net < 2 ^ b \<and> 2 ^ (b - prefixlen net) dvd net_int net)"

definition subnet_of :: "ip_net \<Rightarrow> ip_net \<Rightarrow> bool" where
  "subnet_of a b \<longleftrightarrow> net_int b \<le> net_int a \<and> broadcast a \<le> broadcast b"

definition addr_in_net :: "ip_addr \<Rightarrow> ip_net \<Rightarrow> bool" where
  "addr_in_net a net \<longleftrightarrow>
     addr_version a = net_version net \<and> net_int net \<le> addr_int a \<and> addr_int a \<le> broadcast net"

section \<open>Parsing\<close>

definition parse_octet :: "string \<Rightarrow> int option" where
  "parse_octet s =
     (if \<not> isdigit s \<or> 3 < length s \<or> (s \<noteq> ''0'' \<and> hd s = CHR ''0'') then None
      else let n = int_of_digits s in if 255 < n then None else Some n)"

fun opt_list :: "'a option list \<Rightarrow> 'a list option" where
  "opt_list [] = Some []"
| "opt_list (None # xs) = None"
| "opt_list (Some x # xs) = map_option ((#) x) (opt_list xs)"

definition be_int :: "int \<Rightarrow> int list \<Rightarrow> int" where
  "be_int base ds = foldl (\<lambda>n d. base * n + d) 0 ds"

definition parse_ipv4 :: "string \<Rightarrow> int option" where
  "parse_ipv4 s =
     (let octets = split_on (CHR ''.'') s in
      if length octets \<noteq> 4 then None
      else map_option (be_int 256) (opt_list (map parse_octet octets)))"

definition hex_digit :: "char \<Rightarrow> int option" where
  "hex_digit c =
     (let n = (of_char c :: int) in
      if 48 \<le> n \<and> n \<le> 57 then Some (n - 48)
      else if 97 \<le> n \<and> n \<le> 102 then Some (n - 87)
      else if 65 \<le> n \<and> n \<le> 70 then Some (n - 55) else None)"

definition parse_hextet :: "string \<Rightarrow> int option" where
  "parse_hextet s =
     (if s = [] \<or> 4 < length s then None else map_option (be_int 16) (opt_list (map hex_digit s)))"

definition hex_char :: "int \<Rightarrow> char" where
  "hex_char n = (if n < 10 then char_of (48 + n) else char_of (87 + n))"

function hex_of :: "int \<Rightarrow> string" where
  "hex_of n = (if n < 16 then [hex_char n] else hex_of (n div 16) @ [hex_char (n mod 16)])"
  by pat_completeness auto
termination by (relation "measure nat") auto

declare hex_of.simps [simp del]

text \<open>Positions of the empty parts strictly inside the list: where a \<open>::\<close> was.\<close>

definition inner_empty :: "string list \<Rightarrow> nat list" where
  "inner_empty parts = filter (\<lambda>i. parts ! i = []) [1..<length parts - 1]"

definition parse_v6_parts :: "string list \<Rightarrow> int option" where
  "parse_v6_parts parts =
     (let n = length parts in
      if n < 3 \<or> 9 < n then None
      else case inner_empty parts of
        [] \<Rightarrow>
          (if n \<noteq> 8 then None else map_option (be_int 65536) (opt_list (map parse_hextet parts)))
      | [skip] \<Rightarrow>
          (let hi0 = skip; lo0 = n - skip - 1;
               hi = (if hd parts = [] then hi0 - 1 else hi0);
               lo = (if last parts = [] then lo0 - 1 else lo0) in
           if (hd parts = [] \<and> 0 < hi) \<or> (last parts = [] \<and> 0 < lo) \<or> 8 < hi + lo + 1 then None
           else map_option (be_int 65536)
                  (opt_list (map parse_hextet (take hi parts) @ replicate (8 - (hi + lo)) (Some 0)
                             @ map parse_hextet (drop (n - lo) parts))))
      | _ \<Rightarrow> None)"

definition expand_v4_tail :: "string list \<Rightarrow> string list option" where
  "expand_v4_tail parts =
     (if CHR ''.'' \<in> set (last parts)
      then (case parse_ipv4 (last parts) of
              None \<Rightarrow> None
            | Some n \<Rightarrow> Some (butlast parts @ [hex_of (n div 65536), hex_of (n mod 65536)]))
      else Some parts)"

definition parse_ipv6 :: "string \<Rightarrow> int option" where
  "parse_ipv6 s =
     (let parts = split_on (CHR '':'') s in
      if s = [] \<or> length parts < 3 then None
      else case expand_v4_tail parts of None \<Rightarrow> None | Some ps \<Rightarrow> parse_v6_parts ps)"

definition parse_ipv6_scoped :: "string \<Rightarrow> ip_addr option" where
  "parse_ipv6_scoped s =
     (if CHR ''%'' \<in> set s
      then (let zone = after_first (CHR ''%'') s in
            if zone = [] \<or> CHR ''%'' \<in> set zone then None
            else map_option (\<lambda>n. IPv6Address n (Some zone)) (parse_ipv6 (before_first (CHR ''%'') s)))
      else map_option (\<lambda>n. IPv6Address n None) (parse_ipv6 s))"

definition ip_address :: "string \<Rightarrow> ip_addr option" where
  "ip_address s =
     (if CHR ''/'' \<in> set s then None
      else case parse_ipv4 s of Some n \<Rightarrow> Some (IPv4Address n) | None \<Rightarrow> parse_ipv6_scoped s)"

definition v4_prefix :: "string \<Rightarrow> nat option" where
  "v4_prefix s =
     (if isdigit s then (let p = int_of_digits s in if p \<le> 32 then Some (nat p) else None)
      else case parse_ipv4 s of
        None \<Rightarrow> None
      | Some m \<Rightarrow>
          (case find (\<lambda>p. 2 ^ 32 - 2 ^ (32 - p) = m) [0..<33] of
             Some p \<Rightarrow> Some p
           | None \<Rightarrow> find (\<lambda>p. 2 ^ (32 - p) - 1 = m) [0..<33]))"

definition v6_prefix :: "string \<Rightarrow> nat option" where
  "v6_prefix s =
     (if isdigit s then (let p = int_of_digits s in if p \<le> 128 then Some (nat p) else None) else None)"

text \<open>An interface keeps the host bits: the address and the length of its network.\<close>

definition ip_interface :: "string \<Rightarrow> (ip_addr \<times> nat) option" where
  "ip_interface s =
     (case split_on (CHR ''/'') s of
        [a] \<Rightarrow> map_option (\<lambda>x. (x, ip_bits (addr_version x))) (ip_address a)
      | [a, m] \<Rightarrow>
          (case parse_ipv4 a of
             Some n \<Rightarrow> map_option (Pair (IPv4Address n)) (v4_prefix m)
           | None \<Rightarrow>
               (case parse_ipv6_scoped a of
                  Some x \<Rightarrow> map_option (Pair x) (v6_prefix m)
                | None \<Rightarrow> None))
      | _ \<Rightarrow> None)"

text \<open>\<open>ip_network(s, strict=False)\<close>.\<close>

definition ip_network :: "string \<Rightarrow> ip_net option" where
  "ip_network s =
     map_option (\<lambda>(a, p). make_net (addr_version a) (addr_int a) p) (ip_interface s)"

section \<open>Textual form\<close>

definition str_ipv4 :: "int \<Rightarrow> string" where
  "str_ipv4 n = join ''.'' (map (\<lambda>i. str_int (n div 256 ^ i mod 256)) [3, 2, 1, 0])"

definition hextets :: "int \<Rightarrow> int list" where
  "hextets n = map (\<lambda>i. n div 65536 ^ i mod 65536) [7, 6, 5, 4, 3, 2, 1, 0]"

text \<open>The leftmost longest run of zero hextets, as (length, start).\<close>

fun zero_runs :: "nat \<Rightarrow> int list \<Rightarrow> (nat \<times> nat) list" where
  "zero_runs i [] = []"
| "zero_runs i (h # hs) = (length (takeWhile (\<lambda>x. x = 0) (h # hs)), i) # zero_runs (Suc i) hs"

definition best_run :: "int list \<Rightarrow> nat \<times> nat" where
  "best_run hs = foldl (\<lambda>(l, s) (l', s'). if l < l' then (l', s') else (l, s)) (0, 0) (zero_runs 0 hs)"

definition str_ipv6 :: "int \<Rightarrow> string" where
  "str_ipv6 n =
     (let hs = hextets n; (l, s) = best_run hs in
      if l \<le> 1 then join '':'' (map hex_of hs)
      else join '':'' (map hex_of (take s hs)) @ ''::'' @ join '':'' (map hex_of (drop (s + l) hs)))"

fun str_addr :: "ip_addr \<Rightarrow> string" where
  "str_addr (IPv4Address n) = str_ipv4 n"
| "str_addr (IPv6Address n None) = str_ipv6 n"
| "str_addr (IPv6Address n (Some z)) = str_ipv6 n @ ''%'' @ z"

fun str_net :: "ip_net \<Rightarrow> string" where
  "str_net (IPv4Network n p) = str_ipv4 n @ ''/'' @ str_int (int p)"
| "str_net (IPv6Network n p) = str_ipv6 n @ ''/'' @ str_int (int p)"

definition link_local_net :: ip_net where
  "link_local_net = IPv6Network (0xfe80 * 2 ^ 112) 10"

section \<open>validators/ip.py\<close>

definition validate_ip_address :: "string \<Rightarrow> nat option \<Rightarrow> string res" where
  "validate_ip_address value version =
     (case ip_address value of
        None \<Rightarrow> Inl (ValueError value)
      | Some a \<Rightarrow>
          if version = Some 4 \<and> addr_version a \<noteq> 4 then Inl (ValueError (repr_str value @ '' is not an IPv4 address''))
          else if version = Some 6 \<and> addr_version a \<noteq> 6 then Inl (ValueError (repr_str value @ '' is not an IPv6 address''))
          else Inr (str_addr a))"

definition validate_ip_network :: "string \<Rightarrow> string res" where
  "validate_ip_network value =
     (case ip_network value of None \<Rightarrow> Inl (ValueError value) | Some n \<Rightarrow> Inr (str_net n))"

definition validate_ip_interface :: "string \<Rightarrow> string res" where
  "validate_ip_interface value =
     (case ip_interface value of
        None \<Rightarrow> Inl (ValueError value)
      | Some (a, p) \<Rightarrow> Inr (str_addr a @ ''/'' @ str_int (int p)))"

definition split_ipv6_zone :: "string \<Rightarrow> string \<times> string option" where
  "split_ipv6_zone value =
     (if CHR ''%'' \<in> set value
      then (before_first (CHR ''%'') value, Some (after_first (CHR ''%'') value))
      else (value, None))"

definition validate_ip_address_with_optional_zone :: "string \<Rightarrow> string res" where
  "validate_ip_address_with_optional_zone value =
     (let (address, zone) = split_ipv6_zone value in
      rbind (validate_ip_address address None)
        (\<lambda>_. if zone = Some [] then Inl (ValueError (repr_str value @ '' has empty IPv6 zone identifier''))
             else Inr value))"

definition is_address_in_prefix :: "string \<Rightarrow> string \<Rightarrow> bool" where
  "is_address_in_prefix address prefix =
     (case (ip_address address, ip_network prefix) of
        (Some a, Some n) \<Rightarrow> (if addr_version a \<noteq> net_version n then False else addr_in_net a n)
      | _ \<Rightarrow> False)"

definition addr_is_link_local :: "ip_addr \<Rightarrow> bool" where
  "addr_is_link_local a = (case a of IPv6Address n _ \<Rightarrow> addr_in_net a link_local_net
     | IPv4Address n \<Rightarrow> addr_in_net a (IPv4Network (169 * 2 ^ 24 + 254 * 2 ^ 16) 16))"

definition is_ipv6_link_local :: "string \<Rightarrow> bool" where
  "is_ipv6_link_local value =
     (case ip_address (fst (split_ipv6_zone value)) of
        Some a \<Rightarrow> addr_version a = 6 \<and> addr_is_link_local a
      | None \<Rightarrow> False)"

definition validate_ipv6_link_local_address :: "string \<Rightarrow> bool \<Rightarrow> string res" where
  "validate_ipv6_link_local_address value require_zone =
     (if value = [] then Inl (ValueError ''ipv6 link-local must be a non-empty string'')
      else let (address, zone) = split_ipv6_zone value in
        case ip_address address of
          None \<Rightarrow> Inl (ValueError address)
        | Some a \<Rightarrow>
            if addr_version a \<noteq> 6 \<or> \<not> addr_is_link_local a
            then Inl (ValueError (repr_str value @ '' is not an IPv6 link-local address (fe80::/10)''))
            else if require_zone \<and> (zone = None \<or> zone = Some [])
            then Inl (ValueError (repr_str value @ '' requires a zone identifier''))
            else if zone = Some [] then Inl (ValueError (repr_str value @ '' has empty IPv6 zone identifier''))
            else Inr value)"

section \<open>Facts on networks\<close>

lemma ip_bits_simps [simp]: "ip_bits 4 = 32" "ip_bits 6 = 128"
  by (simp_all add: ip_bits_def)

lemma clear_host_le: "clear_host b p n \<le> n"
proof -
  have "0 \<le> n mod 2 ^ (b - p)" by simp
  then show ?thesis using div_mult_mod_eq [of n "2 ^ (b - p)"] unfolding clear_host_def by linarith
qed

lemma clear_host_nonneg: "0 \<le> n \<Longrightarrow> 0 \<le> clear_host b p n"
  by (simp add: clear_host_def pos_imp_zdiv_nonneg_iff)

lemma clear_host_dvd: "2 ^ (b - p) dvd clear_host b p n"
  by (simp add: clear_host_def)

lemma wf_make_net:
  assumes "version = 4 \<or> version = 6" "0 \<le> n" "n < 2 ^ ip_bits version" "p \<le> ip_bits version"
  shows "wf_net (make_net version n p)"
  using assms clear_host_le [of 32 p n] clear_host_le [of 128 p n]
  by (auto simp: wf_net_def make_net_def ip_bits_def Let_def clear_host_dvd clear_host_nonneg)

text \<open>Containment of prefixes is agreement on the network bits.\<close>

lemma dvd_interval:
  fixes d m n :: int
  assumes "d dvd m" "0 < d"
  shows "(m \<le> n \<and> n \<le> m + (d - 1)) \<longleftrightarrow> n div d * d = m"
proof -
  obtain q where m: "m = d * q" using assms(1) by (auto simp: dvd_def)
  have n: "n = d * (n div d) + n mod d" "0 \<le> n mod d" "n mod d < d" using assms(2) by simp_all
  have "(m \<le> n \<and> n \<le> m + (d - 1)) \<longleftrightarrow> n div d = q"
  proof
    assume h: "m \<le> n \<and> n \<le> m + (d - 1)"
    have "n = d * q + (n - m)" "0 \<le> n - m" "n - m < d" using h m by auto
    then show "n div d = q" by (metis int_div_pos_eq)
  qed (use m n in auto)
  then show ?thesis using m assms(2) by (auto simp: mult.commute)
qed

lemma subnet_of_iff:
  assumes wf: "wf_net a" "wf_net b" and v: "net_version a = net_version b"
    and len: "prefixlen b \<le> prefixlen a"
  shows "subnet_of a b \<longleftrightarrow> clear_host (ip_bits (net_version b)) (prefixlen b) (net_int a) = net_int b"
proof -
  let ?B = "ip_bits (net_version b)"
  let ?d = "2 ^ (?B - prefixlen b) :: int"
  let ?e = "2 ^ (?B - prefixlen a) :: int"
  have ed: "?e dvd ?d" using len by (simp add: le_imp_power_dvd)
  have da: "?e dvd net_int a" and db: "?d dvd net_int b"
    using wf v by (auto simp: wf_net_def Let_def)
  have pos: "0 < ?d" "0 < ?e" by simp_all
  have br: "broadcast a = net_int a + (?e - 1)" "broadcast b = net_int b + (?d - 1)"
    using v by (simp_all add: broadcast_def)
  have "subnet_of a b \<longleftrightarrow> net_int b \<le> net_int a \<and> net_int a \<le> net_int b + (?d - 1)"
  proof
    assume "subnet_of a b"
    then show "net_int b \<le> net_int a \<and> net_int a \<le> net_int b + (?d - 1)"
      using pos unfolding subnet_of_def br by linarith
  next
    assume h: "net_int b \<le> net_int a \<and> net_int a \<le> net_int b + (?d - 1)"
    obtain x where x: "net_int a = ?e * x" using da by (auto simp: dvd_def)
    have "?e dvd net_int b + ?d" using ed db by (meson dvd_add dvd_trans)
    then obtain y where y: "net_int b + ?d = ?e * y" by (auto simp: dvd_def)
    have "?e * x < ?e * y" using h x y by linarith
    then have "x + 1 \<le> y" using pos(2) mult_less_cancel_left_pos by fastforce
    then have "?e * (x + 1) \<le> ?e * y" using pos(2) by (simp add: mult_left_mono)
    then have "net_int a + ?e \<le> net_int b + ?d" using x y by (simp add: distrib_left)
    moreover have "net_int b \<le> net_int a" using h by simp
    ultimately show "subnet_of a b" unfolding subnet_of_def br by linarith
  qed
  also have "\<dots> \<longleftrightarrow> net_int a div ?d * ?d = net_int b"
    by (rule dvd_interval [OF db pos(1)])
  finally show ?thesis by (simp add: clear_host_def)
qed

lemma subnet_of_prefixlen_le:
  assumes "wf_net a" "wf_net b" "net_version a = net_version b" "subnet_of a b"
  shows "prefixlen b \<le> prefixlen a"
proof (rule ccontr)
  assume "\<not> prefixlen b \<le> prefixlen a"
  then have lt: "prefixlen a < prefixlen b" by simp
  let ?B = "ip_bits (net_version b)"
  have "prefixlen b \<le> ?B" using assms(2) by (simp add: wf_net_def Let_def)
  then have "?B - prefixlen b < ?B - prefixlen a" using lt by simp
  then have "(2::int) ^ (?B - prefixlen b) < 2 ^ (?B - prefixlen a)" by simp
  moreover have "net_int b \<le> net_int a \<and> net_int a + (2 ^ (?B - prefixlen a) - 1)
      \<le> net_int b + (2 ^ (?B - prefixlen b) - 1)"
    using assms(3,4) by (simp add: subnet_of_def broadcast_def)
  ultimately show False by linarith
qed

end
