(* ===== verification/File_Plan.thy ===== *)
theory File_Plan
  imports Prelude
begin

text \<open>
  \<open>dn42_runtime\<close>: rendered files, the file plan (create, update, noop, delete) computed from
  the target directory, and its execution.

  A directory is a \<open>file_tree\<close>: its regular files and its subdirectories, keyed by their
  path below the target directory as a list of parts.  Every system call that can raise
  \<open>OSError\<close> asks the argument \<open>fault\<close> first, so that each theorem ranges over all failures.
  The hash is an argument \<open>h\<close>.  Symbolic links are not modelled.
\<close>

type_synonym path = "string list"

record file_tree =
  tree_files :: "(path \<times> string) list"
  tree_dirs :: "path list"

datatype io_op = Mkdir path | Write_Text path | Replace path | Unlink path | Rmdir path

type_synonym io_faults = "io_op \<Rightarrow> string option"

definition no_faults :: io_faults where
  "no_faults op = None"

section \<open>Rendered files\<close>

record rendered_file =
  rf_path :: string
  rf_content :: string

definition posix_parts :: "string \<Rightarrow> string list" where
  "posix_parts s = filter (\<lambda>w. w \<noteq> [] \<and> w \<noteq> ''.'') (split_on (CHR ''/'') s)"

definition validate_relative_path :: "string \<Rightarrow> string res" where
  "validate_relative_path p =
     (if p = [] then Inl (ValueError ''RenderedFile.path must not be empty'')
      else if CHR 0x00 \<in> set p then Inl (ValueError ''RenderedFile.path must not contain NUL characters'')
      else if 2 \<le> length p \<and> p ! 1 = CHR '':'' \<and> (is_upper (p ! 0) \<or> is_lower (p ! 0))
      then Inl (ValueError (''RenderedFile.path must not be absolute: '' @ repr_str p))
      else if starts_with ''/'' p \<or> starts_with [CHR 0x5C] p
      then Inl (ValueError (''RenderedFile.path must not be absolute: '' @ repr_str p))
      else
        let posix = map (\<lambda>c. if c = CHR 0x5C then CHR ''/'' else c) p;
            parts = posix_parts posix in
        if starts_with ''/'' posix
        then Inl (ValueError (''RenderedFile.path must not be absolute: '' @ repr_str p))
        else if ''..'' \<in> set parts
        then Inl (ValueError (''RenderedFile.path must not traverse parents: '' @ repr_str p))
        else if parts = [] then Inl (ValueError (''RenderedFile.path resolved to empty: '' @ repr_str p))
        else Inr (join ''/'' parts))"

definition new_rendered_file :: "string \<Rightarrow> string \<Rightarrow> rendered_file res" where
  "new_rendered_file p content =
     rbind (validate_relative_path p) (\<lambda>q. Inr \<lparr>rf_path = q, rf_content = content\<rparr>)"

section \<open>The directory\<close>

definition is_file :: "file_tree \<Rightarrow> path \<Rightarrow> bool" where
  "is_file t p \<longleftrightarrow> map_of (tree_files t) p \<noteq> None"

definition is_dir :: "file_tree \<Rightarrow> path \<Rightarrow> bool" where
  "is_dir t p \<longleftrightarrow> p = [] \<or> p \<in> set (tree_dirs t)"

definition path_exists :: "file_tree \<Rightarrow> path \<Rightarrow> bool" where
  "path_exists t p \<longleftrightarrow> is_file t p \<or> is_dir t p"

text \<open>\<open>read_text\<close> opens the file in text mode: a carriage return, alone or before a line feed, is read
  as a line feed.  Writing is raw (\<open>newline="\n"\<close>), so a text with a carriage return does not read back
  as it was written.\<close>

primrec newlines_from :: "bool \<Rightarrow> string \<Rightarrow> string" where
  "newlines_from after_cr [] = []"
| "newlines_from after_cr (c # cs) =
     (if c = CHR 0x0D then CHR 0x0A # newlines_from True cs
      else if c = CHR 0x0A \<and> after_cr then newlines_from False cs
      else c # newlines_from False cs)"

definition universal_newlines :: "string \<Rightarrow> string" where
  "universal_newlines c = newlines_from False c"

definition read_text :: "file_tree \<Rightarrow> path \<Rightarrow> string res" where
  "read_text t p =
     (case map_of (tree_files t) p of
        Some c \<Rightarrow> Inr (universal_newlines c)
      | None \<Rightarrow> Inl (OSError (if is_dir t p then ''Is a directory'' else ''No such file or directory'')))"

definition ancestors :: "path \<Rightarrow> path list" where
  "ancestors p = map (\<lambda>n. take n p) [1..<Suc (length p)]"

definition mkdir_parents :: "io_faults \<Rightarrow> file_tree \<Rightarrow> path \<Rightarrow> string + file_tree" where
  "mkdir_parents fault t p =
     (case fault (Mkdir p) of
        Some e \<Rightarrow> Inl e
      | None \<Rightarrow>
          if list_ex (is_file t) (ancestors p) then Inl ''Not a directory''
          else Inr (t\<lparr>tree_dirs := tree_dirs t @ filter (\<lambda>d. \<not> is_dir t d) (ancestors p)\<rparr>))"

definition put_file :: "path \<Rightarrow> string \<Rightarrow> file_tree \<Rightarrow> file_tree" where
  "put_file p c t = t\<lparr>tree_files := dput p c (tree_files t)\<rparr>"

definition drop_file :: "path \<Rightarrow> file_tree \<Rightarrow> file_tree" where
  "drop_file p t = t\<lparr>tree_files := ddel p (tree_files t)\<rparr>"

text \<open>A failing write may leave an empty file behind: the file was opened before.\<close>

definition write_text :: "io_faults \<Rightarrow> file_tree \<Rightarrow> path \<Rightarrow> string \<Rightarrow> file_tree \<times> string option" where
  "write_text fault t p c =
     (if is_dir t p then (t, Some ''Is a directory'')
      else case fault (Write_Text p) of
        Some e \<Rightarrow> (put_file p [] t, Some e)
      | None \<Rightarrow> (put_file p c t, None))"

definition os_replace :: "io_faults \<Rightarrow> file_tree \<Rightarrow> path \<Rightarrow> path \<Rightarrow> string + file_tree" where
  "os_replace fault t source target =
     (case fault (Replace target) of
        Some e \<Rightarrow> Inl e
      | None \<Rightarrow>
          if is_dir t target then Inl ''Is a directory''
          else case map_of (tree_files t) source of
            None \<Rightarrow> Inl ''No such file or directory''
          | Some c \<Rightarrow> Inr (put_file target c (drop_file source t)))"

definition unlink :: "io_faults \<Rightarrow> file_tree \<Rightarrow> path \<Rightarrow> string + file_tree" where
  "unlink fault t p =
     (case fault (Unlink p) of
        Some e \<Rightarrow> Inl e
      | None \<Rightarrow> if is_file t p then Inr (drop_file p t) else Inl ''Is a directory'')"

definition resolve_target :: "path \<Rightarrow> string \<Rightarrow> path res" where
  "resolve_target base relative =
     (let start = (if starts_with ''/'' relative then [] else base);
          candidate = foldl (\<lambda>acc w. if w = [] \<or> w = ''.'' then acc else if w = ''..'' then butlast acc
                                     else acc @ [w]) start (split_on (CHR ''/'') relative) in
      if take (length base) candidate = base then Inr (drop (length base) candidate)
      else Inl (ValueError (''rendered file path '' @ repr_str relative @ '' escapes target dir '')))"

definition tmp_name :: "int \<Rightarrow> string \<Rightarrow> string" where
  "tmp_name pid name = ''.'' @ name @ ''.tmp.'' @ str_int pid"

definition with_name :: "path \<Rightarrow> string \<Rightarrow> path" where
  "with_name p name = butlast p @ [name]"

definition unlink_quietly :: "io_faults \<Rightarrow> file_tree \<Rightarrow> path \<Rightarrow> file_tree" where
  "unlink_quietly fault t p =
     (if path_exists t p then (case unlink fault t p of Inl _ \<Rightarrow> t | Inr t' \<Rightarrow> t') else t)"

text \<open>The base directory itself is not a file: replacing it is an \<open>OSError\<close>.\<close>

definition atomic_write ::
  "io_faults \<Rightarrow> int \<Rightarrow> path \<Rightarrow> file_tree \<Rightarrow> string \<Rightarrow> string \<Rightarrow> file_tree \<times> exc option" where
  "atomic_write fault pid base t relative content =
     (case resolve_target base relative of
        Inl e \<Rightarrow> (t, Some e)
      | Inr p \<Rightarrow>
          if p = [] then (t, Some (OSError ''Is a directory''))
          else case mkdir_parents fault t (butlast p) of
            Inl e \<Rightarrow> (t, Some (OSError e))
          | Inr t1 \<Rightarrow>
              let tmp = with_name p (tmp_name pid (last p)) in
              case write_text fault t1 tmp content of
                (t2, Some e) \<Rightarrow> (unlink_quietly fault t2 tmp, Some (OSError e))
              | (t2, None) \<Rightarrow>
                  (case os_replace fault t2 tmp p of
                     Inl e \<Rightarrow> (unlink_quietly fault t2 tmp, Some (OSError e))
                   | Inr t3 \<Rightarrow> (unlink_quietly fault t3 tmp, None)))"

definition has_child :: "file_tree \<Rightarrow> path \<Rightarrow> bool" where
  "has_child t p \<longleftrightarrow>
     list_ex (\<lambda>q. q \<noteq> [] \<and> butlast q = p) (map fst (tree_files t) @ tree_dirs t)"

function remove_empty_parents :: "io_faults \<Rightarrow> file_tree \<Rightarrow> path \<Rightarrow> file_tree \<times> string option" where
  "remove_empty_parents fault t parent =
     (if parent = [] \<or> \<not> is_dir t parent then (t, None)
      else if has_child t parent then (t, None)
      else case fault (Rmdir parent) of
        Some e \<Rightarrow> (t, Some e)
      | None \<Rightarrow>
          remove_empty_parents fault (t\<lparr>tree_dirs := removeAll parent (tree_dirs t)\<rparr>) (butlast parent))"
  by pat_completeness auto
termination by (relation "measure (\<lambda>(_, _, p). length p)") auto

declare remove_empty_parents.simps [simp del]

definition delete_target :: "io_faults \<Rightarrow> path \<Rightarrow> file_tree \<Rightarrow> string \<Rightarrow> file_tree \<times> exc option" where
  "delete_target fault base t relative =
     (case resolve_target base relative of
        Inl e \<Rightarrow> (t, Some e)
      | Inr p \<Rightarrow>
          (case (if path_exists t p then unlink fault t p else Inr t) of
             Inl e \<Rightarrow> (t, Some (OSError e))
           | Inr t1 \<Rightarrow>
               (case remove_empty_parents fault t1 (butlast p) of
                  (t2, e) \<Rightarrow> (t2, map_option OSError e))))"

section \<open>Planning\<close>

record plan_action =
  pa_action :: string
  pa_path :: string
  pa_desired :: "string option"
  pa_observed :: "string option"

record plan_summary =
  ps_create :: int
  ps_update :: int
  ps_delete :: int
  ps_noop :: int

record file_plan =
  fp_summary :: plan_summary
  fp_actions :: "plan_action list"

definition managed_prefixes_from :: "string list \<Rightarrow> string list" where
  "managed_prefixes_from desired_paths = sort (remdups (map (before_first (CHR ''/'')) desired_paths))"

definition within_managed :: "string \<Rightarrow> string list \<Rightarrow> bool" where
  "within_managed relative prefixes \<longleftrightarrow>
     (let rel_parts = split_on (CHR ''/'') relative in
      list_ex (\<lambda>prefix.
        let prefix_parts = split_on (CHR ''/'') (strip_by (\<lambda>c. c = CHR ''/'') prefix) in
        take (length prefix_parts) rel_parts = prefix_parts) prefixes)"

definition is_tmp_name :: "string \<Rightarrow> bool" where
  "is_tmp_name name \<longleftrightarrow> starts_with ''.'' name \<and> contains ''.tmp.'' name"

definition is_orphan :: "string list \<Rightarrow> string list \<Rightarrow> path \<Rightarrow> bool" where
  "is_orphan desired_paths prefixes p \<longleftrightarrow>
     \<not> is_tmp_name (last p) \<and> join ''/'' p \<notin> set desired_paths \<and> within_managed (join ''/'' p) prefixes"

definition scan_orphans ::
  "(string \<Rightarrow> string) \<Rightarrow> file_tree \<Rightarrow> string list \<Rightarrow> string list \<Rightarrow> (string \<times> string) list" where
  "scan_orphans h t desired_paths prefixes =
     sort (map (\<lambda>(p, c). (join ''/'' p, h (universal_newlines c)))
             (filter (\<lambda>(p, _). is_orphan desired_paths prefixes p) (tree_files t)))"

definition plan_rendered ::
  "(string \<Rightarrow> string) \<Rightarrow> path \<Rightarrow> file_tree option \<Rightarrow> rendered_file \<Rightarrow> plan_action res" where
  "plan_rendered h base target r =
     (let desired = h (rf_content r);
          create = \<lparr>pa_action = ''create'', pa_path = rf_path r, pa_desired = Some desired, pa_observed = None\<rparr> in
      case target of
        None \<Rightarrow> Inr create
      | Some t \<Rightarrow>
          rbind (resolve_target base (rf_path r)) (\<lambda>p.
            if \<not> path_exists t p then Inr create
            else rbind (read_text t p) (\<lambda>observed.
              Inr \<lparr>pa_action = (if h observed = desired then ''noop'' else ''update''),
                   pa_path = rf_path r, pa_desired = Some desired, pa_observed = Some (h observed)\<rparr>)))"

fun res_list :: "'a res list \<Rightarrow> 'a list res" where
  "res_list [] = Inr []"
| "res_list (x # xs) = rbind x (\<lambda>y. rbind (res_list xs) (\<lambda>ys. Inr (y # ys)))"

definition count_actions :: "string \<Rightarrow> plan_action list \<Rightarrow> int" where
  "count_actions a actions = int (length (filter (\<lambda>x. pa_action x = a) actions))"

definition summarise :: "plan_action list \<Rightarrow> plan_summary" where
  "summarise actions =
     \<lparr>ps_create = count_actions ''create'' actions, ps_update = count_actions ''update'' actions,
      ps_delete = count_actions ''delete'' actions, ps_noop = count_actions ''noop'' actions\<rparr>"

definition delete_action :: "string \<times> string \<Rightarrow> plan_action" where
  "delete_action o_h =
     \<lparr>pa_action = ''delete'', pa_path = fst o_h, pa_desired = None, pa_observed = Some (snd o_h)\<rparr>"

definition plan_prefixes :: "rendered_file list \<Rightarrow> string list option \<Rightarrow> string list" where
  "plan_prefixes rendered_files managed =
     (case managed of Some ps \<Rightarrow> ps | None \<Rightarrow> managed_prefixes_from (map rf_path rendered_files))"

definition plan_deletes ::
  "(string \<Rightarrow> string) \<Rightarrow> rendered_file list \<Rightarrow> file_tree option \<Rightarrow> bool \<Rightarrow> string list option \<Rightarrow> plan_action list" where
  "plan_deletes h rendered_files target prune managed =
     (case target of
        Some t \<Rightarrow>
          if prune
          then map delete_action
                 (scan_orphans h t (map rf_path rendered_files) (plan_prefixes rendered_files managed))
          else []
      | None \<Rightarrow> [])"

definition build_file_plan ::
  "(string \<Rightarrow> string) \<Rightarrow> path \<Rightarrow> rendered_file list \<Rightarrow> file_tree option \<Rightarrow> bool \<Rightarrow> string list option \<Rightarrow>
   file_plan res" where
  "build_file_plan h base rendered_files target prune managed =
     rbind (res_list (map (plan_rendered h base target) (sort_key rf_path rendered_files))) (\<lambda>planned.
       let actions = sort_key (\<lambda>a. (pa_path a, pa_action a))
                       (planned @ plan_deletes h rendered_files target prune managed) in
       Inr \<lparr>fp_summary = summarise actions, fp_actions = actions\<rparr>)"

section \<open>Execution\<close>

record applied_file =
  af_action :: string
  af_path :: string
  af_sha256 :: "string option"

record apply_outcome =
  ao_summary :: plan_summary
  ao_applied :: "applied_file list"
  ao_errors :: "string list"
  ao_dry_run :: bool

definition applied_of :: "plan_action \<Rightarrow> applied_file" where
  "applied_of a =
     \<lparr>af_action = pa_action a, af_path = pa_path a,
      af_sha256 = (if pa_action a = ''delete'' then pa_observed a else pa_desired a)\<rparr>"

definition content_by_path :: "rendered_file list \<Rightarrow> string \<Rightarrow> string option" where
  "content_by_path rendered_files p = map_of (dict_of (map (\<lambda>r. (rf_path r, rf_content r)) rendered_files)) p"

text \<open>One action: the directory after it, and what it adds to \<open>applied\<close> or to \<open>errors\<close>
  (\<open>Inr\<close>), or the exception that leaves the loop (\<open>Inl\<close>: anything but \<open>OSError\<close>).\<close>

definition action_error :: "plan_action \<Rightarrow> string \<Rightarrow> string" where
  "action_error a e = pa_action a @ '' '' @ pa_path a @ '': '' @ e"

definition settle :: "plan_action \<Rightarrow> file_tree \<times> exc option \<Rightarrow>
   file_tree \<times> (applied_file list \<times> string list) res" where
  "settle a r =
     (case r of
        (t, None) \<Rightarrow> (t, Inr ([applied_of a], []))
      | (t, Some (OSError e)) \<Rightarrow> (t, Inr ([], [action_error a e]))
      | (t, Some e) \<Rightarrow> (t, Inl e))"

definition execute_action ::
  "io_faults \<Rightarrow> int \<Rightarrow> path \<Rightarrow> rendered_file list \<Rightarrow> bool \<Rightarrow> file_tree \<Rightarrow> plan_action \<Rightarrow>
   file_tree \<times> (applied_file list \<times> string list) res" where
  "execute_action fault pid base rendered_files dry_run t a =
     (if pa_action a = ''noop''
      then (t, Inr ([applied_of a], []))
      else if dry_run
      then (t, Inr ([\<lparr>af_action = pa_action a, af_path = pa_path a, af_sha256 = pa_desired a\<rparr>], []))
      else if pa_action a = ''create'' \<or> pa_action a = ''update''
      then (case content_by_path rendered_files (pa_path a) of
              None \<Rightarrow> (t, Inr ([], [action_error a ''rendered content missing for planned action'']))
            | Some c \<Rightarrow> settle a (atomic_write fault pid base t (pa_path a) c))
      else if pa_action a = ''delete'' then settle a (delete_target fault base t (pa_path a))
      else (t, Inr ([], [])))"

fun execute_actions ::
  "io_faults \<Rightarrow> int \<Rightarrow> path \<Rightarrow> rendered_file list \<Rightarrow> bool \<Rightarrow> file_tree \<Rightarrow> plan_action list \<Rightarrow>
   file_tree \<times> (applied_file list \<times> string list) res" where
  "execute_actions fault pid base rendered_files dry_run t [] = (t, Inr ([], []))"
| "execute_actions fault pid base rendered_files dry_run t (a # as) =
     (case execute_action fault pid base rendered_files dry_run t a of
        (t1, Inl e) \<Rightarrow> (t1, Inl e)
      | (t1, Inr (ap, er)) \<Rightarrow>
          (case execute_actions fault pid base rendered_files dry_run t1 as of
             (t2, Inl e) \<Rightarrow> (t2, Inl e)
           | (t2, Inr (aps, ers)) \<Rightarrow> (t2, Inr (ap @ aps, er @ ers))))"

definition execute_file_plan ::
  "io_faults \<Rightarrow> int \<Rightarrow> path \<Rightarrow> file_plan \<Rightarrow> rendered_file list \<Rightarrow> file_tree \<Rightarrow> bool \<Rightarrow>
   file_tree \<times> apply_outcome res" where
  "execute_file_plan fault pid base plan rendered_files t dry_run =
     (case execute_actions fault pid base rendered_files dry_run t (fp_actions plan) of
        (t', Inl e) \<Rightarrow> (t', Inl e)
      | (t', Inr (ap, er)) \<Rightarrow>
          (t', Inr \<lparr>ao_summary = fp_summary plan, ao_applied = ap, ao_errors = er, ao_dry_run = dry_run\<rparr>))"

definition apply_rendered_files ::
  "(string \<Rightarrow> string) \<Rightarrow> io_faults \<Rightarrow> int \<Rightarrow> path \<Rightarrow> rendered_file list \<Rightarrow> file_tree \<Rightarrow> bool \<Rightarrow> string list option \<Rightarrow>
   bool \<Rightarrow> file_tree \<times> apply_outcome res" where
  "apply_rendered_files h fault pid base rendered_files t prune managed dry_run =
     (case build_file_plan h base rendered_files (Some t) prune managed of
        Inl e \<Rightarrow> (t, Inl e)
      | Inr plan \<Rightarrow> execute_file_plan fault pid base plan rendered_files t dry_run)"

fun write_rendered_files ::
  "io_faults \<Rightarrow> int \<Rightarrow> path \<Rightarrow> rendered_file list \<Rightarrow> file_tree \<Rightarrow> file_tree \<times> exc option" where
  "write_rendered_files fault pid base [] t = (t, None)"
| "write_rendered_files fault pid base (r # rs) t =
     (case atomic_write fault pid base t (rf_path r) (rf_content r) of
        (t1, Some e) \<Rightarrow> (t1, Some e)
      | (t1, None) \<Rightarrow> write_rendered_files fault pid base rs t1)"

section \<open>Paths\<close>

abbreviation parts :: "string \<Rightarrow> path" where
  "parts \<equiv> split_on (CHR ''/'')"

definition wf_part :: "string \<Rightarrow> bool" where
  "wf_part w \<longleftrightarrow> w \<noteq> [] \<and> w \<noteq> ''.'' \<and> w \<noteq> ''..'' \<and> CHR ''/'' \<notin> set w"

definition wf_rel :: "string \<Rightarrow> bool" where
  "wf_rel p \<longleftrightarrow> list_all wf_part (parts p)"

definition wf_tree :: "file_tree \<Rightarrow> bool" where
  "wf_tree t \<longleftrightarrow> distinct (map fst (tree_files t)) \<and>
     list_all (\<lambda>p. p \<noteq> [] \<and> list_all wf_part p) (map fst (tree_files t))"

definition tmp_path :: "int \<Rightarrow> path \<Rightarrow> path" where
  "tmp_path pid p = with_name p (tmp_name pid (last p))"

abbreviation file_at :: "file_tree \<Rightarrow> path \<Rightarrow> string option" where
  "file_at t \<equiv> map_of (tree_files t)"

lemma not_absolute: "wf_rel p \<Longrightarrow> \<not> starts_with ''/'' p"
  by (auto simp: starts_with_iff wf_rel_def wf_part_def)

lemma foldl_wf_parts:
  "list_all wf_part ws \<Longrightarrow>
   foldl (\<lambda>acc w. if w = [] \<or> w = ''.'' then acc else if w = ''..'' then butlast acc else acc @ [w]) acc ws
   = acc @ ws"
  by (induction ws arbitrary: acc) (auto simp: wf_part_def)

lemma resolve_wf: "wf_rel p \<Longrightarrow> resolve_target base p = Inr (parts p)"
  using not_absolute [of p] by (simp add: resolve_target_def wf_rel_def foldl_wf_parts)

lemma parts_join: "p \<noteq> [] \<Longrightarrow> list_all wf_part p \<Longrightarrow> parts (join ''/'' p) = p"
  by (rule split_on_join) (auto simp: list_all_iff wf_part_def)

lemma wf_rel_join: "p \<noteq> [] \<Longrightarrow> list_all wf_part p \<Longrightarrow> wf_rel (join ''/'' p)"
  by (simp add: wf_rel_def parts_join)

lemma parts_inj: "parts p = parts q \<longleftrightarrow> p = q"
  by (metis join_split_on)

lemma validated_wf:
  assumes "validate_relative_path p = Inr q"
  shows "wf_rel q"
proof -
  let ?ps = "posix_parts (map (\<lambda>c. if c = CHR 0x5C then CHR ''/'' else c) p)"
  have q: "q = join ''/'' ?ps" "?ps \<noteq> []" "''..'' \<notin> set ?ps"
    using assms by (auto simp: validate_relative_path_def Let_def split: if_splits)
  have "list_all wf_part ?ps"
    using q(3) by (auto simp: list_all_iff wf_part_def posix_parts_def dest: split_on_parts_free)
  then show ?thesis using q(1,2) wf_rel_join by simp
qed

lemma contains_mid: "contains m (a @ m @ b)"
proof -
  have "starts_with m (drop (length a) (a @ m @ b))" "length a < Suc (length (a @ m @ b))" by simp_all
  then show ?thesis unfolding contains_def list_ex_iff set_upt by (metis atLeastLessThan_iff zero_le)
qed

lemma tmp_name_is_tmp: "is_tmp_name (tmp_name pid n)"
  using contains_mid [of "''.tmp.''" "CHR ''.'' # n" "str_int pid"]
  by (simp add: is_tmp_name_def tmp_name_def starts_with_def)

lemma last_tmp_path: "is_tmp_name (last (tmp_path pid p))"
  by (simp add: tmp_path_def with_name_def tmp_name_is_tmp)

lemma tmp_path_neq: "p \<noteq> [] \<Longrightarrow> tmp_path pid p \<noteq> p"
proof
  assume "p \<noteq> []" "tmp_path pid p = p"
  then have "tmp_name pid (last p) = last p" by (metis last_snoc tmp_path_def with_name_def)
  then have "length (tmp_name pid (last p)) = length (last p)" by simp
  then show False by (simp add: tmp_name_def)
qed

section \<open>What one action does to the files\<close>

lemma file_at_put [simp]: "file_at (put_file p c t) = (file_at t)(p \<mapsto> c)"
  by (simp add: put_file_def)

lemma file_at_drop [simp]: "file_at (drop_file p t) = (file_at t)(p := None)"
  by (simp add: drop_file_def)

lemma mkdir_parents_files: "mkdir_parents fault t p = Inr t' \<Longrightarrow> file_at t' = file_at t"
  by (auto simp: mkdir_parents_def split: option.splits if_splits)

lemma unlink_files: "unlink fault t p = Inr t' \<Longrightarrow> file_at t' = (file_at t)(p := None)"
  by (auto simp: unlink_def split: option.splits if_splits)

lemma unlink_quietly_frame: "q \<noteq> p \<Longrightarrow> file_at (unlink_quietly fault t p) q = file_at t q"
  by (auto simp: unlink_quietly_def unlink_files split: sum.splits)

lemma remove_empty_parents_files [simp]:
  "tree_files (fst (remove_empty_parents fault t p)) = tree_files t"
proof (induction fault t p rule: remove_empty_parents.induct)
  case (1 fault t p)
  show ?case
    by (subst remove_empty_parents.simps) (auto split: option.splits dest: 1 [rotated 2])
qed

lemma remove_empty_parents_at: "remove_empty_parents fault t p = (t', r) \<Longrightarrow> file_at t' = file_at t"
  by (metis fst_conv remove_empty_parents_files)

lemma write_text_frame: "q \<noteq> p \<Longrightarrow> file_at (fst (write_text fault t p c)) q = file_at t q"
  by (auto simp: write_text_def split: option.splits)

lemma write_text_ok: "write_text fault t p c = (t', None) \<Longrightarrow> file_at t' = (file_at t)(p \<mapsto> c)"
  by (auto simp: write_text_def split: option.splits if_splits)

lemma os_replace_files:
  "os_replace fault t s p = Inr t' \<Longrightarrow> \<exists>c. file_at t s = Some c \<and> file_at t' = (file_at t)(s := None, p \<mapsto> c)"
  by (auto simp: os_replace_def split: option.splits if_splits)

text \<open>The write as one case distinction: nothing happened to the target, or it holds the content.\<close>

lemma atomic_write_cases:
  assumes "resolve_target base rel = Inr p"
  obtains
    (failed) t' e where "atomic_write fault pid base t rel c = (t', Some e)"
      "\<And>q. q \<noteq> tmp_path pid p \<Longrightarrow> file_at t' q = file_at t q"
  | (written) t' where "atomic_write fault pid base t rel c = (t', None)" "p \<noteq> []"
      "file_at t' p = Some c" "\<And>q. q \<noteq> p \<Longrightarrow> q \<noteq> tmp_path pid p \<Longrightarrow> file_at t' q = file_at t q"
proof (cases "p = []")
  case True
  then show thesis using assms by (intro failed [of t]) (auto simp: atomic_write_def)
next
  case p: False
  let ?tmp = "tmp_path pid p"
  show thesis
  proof (cases "mkdir_parents fault t (butlast p)")
    case (Inl e)
    then show thesis using assms p by (intro failed [of t]) (auto simp: atomic_write_def)
  next
    case (Inr t1)
    note m = mkdir_parents_files [OF Inr]
    obtain t2 r where w: "write_text fault t1 ?tmp c = (t2, r)" by fastforce
    have f2: "q \<noteq> ?tmp \<Longrightarrow> file_at t2 q = file_at t q" for q
      using write_text_frame [of q ?tmp fault t1 c] w m by simp
    show thesis
    proof (cases r)
      case (Some e)
      then show thesis using assms p Inr w f2
        by (intro failed [of "unlink_quietly fault t2 ?tmp"])
           (auto simp: atomic_write_def tmp_path_def [symmetric] unlink_quietly_frame)
    next
      case None
      note f2' = write_text_ok [OF w [unfolded None]]
      show thesis
      proof (cases "os_replace fault t2 ?tmp p")
        case (Inl e)
        then show thesis using assms p Inr w None f2
          by (intro failed [of "unlink_quietly fault t2 ?tmp"])
             (auto simp: atomic_write_def tmp_path_def [symmetric] unlink_quietly_frame)
      next
        case i3: (Inr t3)
        have f3: "file_at t3 = (file_at t2)(?tmp := None, p \<mapsto> c)"
          using os_replace_files [OF i3] f2' by auto
        show thesis using assms p Inr w None i3 f3 f2 tmp_path_neq [OF p]
            unlink_quietly_frame [OF tmp_path_neq [OF p, symmetric], of fault t3 pid]
          by (intro written [of "unlink_quietly fault t3 ?tmp"])
             (auto simp: atomic_write_def tmp_path_def [symmetric] unlink_quietly_frame)
      qed
    qed
  qed
qed

lemma delete_target_cases:
  assumes "resolve_target base rel = Inr p"
  obtains t' r where "delete_target fault base t rel = (t', r)"
    "\<And>q. q \<noteq> p \<Longrightarrow> file_at t' q = file_at t q" "r = None \<Longrightarrow> file_at t' p = None"
    "\<And>e. r = Some e \<Longrightarrow> \<exists>m. e = OSError m"
proof -
  obtain t' r where d: "delete_target fault base t rel = (t', r)" by fastforce
  have "(\<forall>q. q \<noteq> p \<longrightarrow> file_at t' q = file_at t q) \<and> (r = None \<longrightarrow> file_at t' p = None)
        \<and> (\<forall>e. r = Some e \<longrightarrow> (\<exists>m. e = OSError m))"
  proof (cases "path_exists t p")
    case False
    then show ?thesis using d assms
      by (auto simp: delete_target_def path_exists_def is_file_def remove_empty_parents_at split: prod.splits)
  next
    case True
    show ?thesis
    proof (cases "unlink fault t p")
      case (Inl e)
      then show ?thesis using d assms True by (auto simp: delete_target_def)
    next
      case (Inr t1)
      then show ?thesis using d assms True unlink_files [OF Inr]
        by (auto simp: delete_target_def remove_empty_parents_at split: prod.splits)
    qed
  qed
  then show thesis using d that by blast
qed

section \<open>Lists of actions\<close>

text \<open>Actions as a plan contains them: relative paths, known verbs.\<close>

definition wf_action :: "plan_action \<Rightarrow> bool" where
  "wf_action a \<longleftrightarrow> wf_rel (pa_path a) \<and> pa_action a \<in> {''create'', ''update'', ''noop'', ''delete''}"

definition touches :: "int \<Rightarrow> plan_action \<Rightarrow> path set" where
  "touches pid a =
     (if pa_action a = ''noop'' then {}
      else if pa_action a = ''delete'' then {parts (pa_path a)}
      else {parts (pa_path a), tmp_path pid (parts (pa_path a))})"

lemma execute_action_frame:
  assumes "wf_action a" "q \<notin> touches pid a"
  shows "file_at (fst (execute_action fault pid base rs dry t a)) q = file_at t q"
proof -
  have r: "resolve_target base (pa_path a) = Inr (parts (pa_path a))"
    using assms(1) by (simp add: wf_action_def resolve_wf)
  have q: "pa_action a = ''delete'' \<Longrightarrow> q \<noteq> parts (pa_path a)"
    "pa_action a = ''create'' \<or> pa_action a = ''update'' \<Longrightarrow>
       q \<noteq> parts (pa_path a) \<and> q \<noteq> tmp_path pid (parts (pa_path a))"
    using assms(2) by (auto simp: touches_def split: if_splits)
  have w: "file_at (fst (atomic_write fault pid base t (pa_path a) c)) q = file_at t q"
    if "pa_action a = ''create'' \<or> pa_action a = ''update''" for c
    using q(2) [OF that] by (cases rule: atomic_write_cases [OF r, of fault pid t c]) auto
  have d: "file_at (fst (delete_target fault base t (pa_path a))) q = file_at t q"
    if "pa_action a = ''delete''"
    using q(1) [OF that] by (cases rule: delete_target_cases [OF r, of fault t]) auto
  have s: "fst (settle a x) = fst x" for x
    by (cases x) (auto simp: settle_def split: option.splits exc.splits)
  show ?thesis using w d
    by (auto simp: execute_action_def s split: option.splits)
qed

lemma execute_actions_frame:
  "list_all wf_action as \<Longrightarrow> (\<And>a. a \<in> set as \<Longrightarrow> q \<notin> touches pid a) \<Longrightarrow>
   file_at (fst (execute_actions fault pid base rs dry t as)) q = file_at t q"
proof (induction as arbitrary: t)
  case (Cons a as)
  obtain t1 r where e: "execute_action fault pid base rs dry t a = (t1, r)" by fastforce
  have "file_at t1 q = file_at t q"
    using execute_action_frame [of a q pid fault base rs dry t] Cons.prems e by simp
  moreover have "file_at (fst (execute_actions fault pid base rs dry t1 as)) q = file_at t1 q"
    using Cons.IH Cons.prems by simp
  ultimately show ?case using e by (auto split: sum.splits prod.splits)
qed simp

lemma execute_action_ok:
  assumes "wf_action a" "execute_action fault pid base rs False t a = (t', Inr (ap, []))"
  shows "ap = [applied_of a]"
    and "pa_action a = ''delete'' \<Longrightarrow> file_at t' (parts (pa_path a)) = None"
    and "pa_action a = ''create'' \<or> pa_action a = ''update'' \<Longrightarrow>
           \<exists>c. content_by_path rs (pa_path a) = Some c \<and> file_at t' (parts (pa_path a)) = Some c"
proof -
  have r: "resolve_target base (pa_path a) = Inr (parts (pa_path a))"
    using assms(1) by (simp add: wf_action_def resolve_wf)
  have s: "settle a x = (t', Inr (ap, [])) \<longleftrightarrow> x = (t', None) \<and> ap = [applied_of a]" for x
    by (cases x) (auto simp: settle_def split: option.splits exc.splits)
  have w: "file_at t' (parts (pa_path a)) = Some c"
    if "atomic_write fault pid base t (pa_path a) c = (t', None)" for c
    using that by (cases rule: atomic_write_cases [OF r, of fault pid t c]) auto
  have d: "file_at t' (parts (pa_path a)) = None"
    if "delete_target fault base t (pa_path a) = (t', None)"
    using that by (cases rule: delete_target_cases [OF r, of fault t]) auto
  show "ap = [applied_of a]"
    using assms by (auto simp: execute_action_def wf_action_def s split: if_splits option.splits)
  show "file_at t' (parts (pa_path a)) = None" if "pa_action a = ''delete''"
    using assms(2) that d by (simp add: execute_action_def s)
  show "\<exists>c. content_by_path rs (pa_path a) = Some c \<and> file_at t' (parts (pa_path a)) = Some c"
    if "pa_action a = ''create'' \<or> pa_action a = ''update''"
    using assms(2) that w by (auto simp: execute_action_def s split: option.splits)
qed

lemma execute_actions_ConsD:
  assumes "execute_actions fault pid base rs dry t (a # as) = (t', Inr (ap, []))"
  obtains t1 ap1 ap2 where "execute_action fault pid base rs dry t a = (t1, Inr (ap1, []))"
    "execute_actions fault pid base rs dry t1 as = (t', Inr (ap2, []))" "ap = ap1 @ ap2"
  using assms by (auto split: prod.splits sum.splits)

text \<open>A run without errors did every action, provided no action's scratch file is another's target.\<close>

lemma execute_actions_ok:
  assumes "execute_actions fault pid base rs False t as = (t', Inr (ap, []))"
    and "list_all wf_action as" "distinct (map pa_path as)"
    and "\<And>a b. a \<in> set as \<Longrightarrow> b \<in> set as \<Longrightarrow> tmp_path pid (parts (pa_path a)) \<noteq> parts (pa_path b)"
  shows "ap = map applied_of as \<and>
    (\<forall>a\<in>set as.
       (pa_action a = ''delete'' \<longrightarrow> file_at t' (parts (pa_path a)) = None) \<and>
       (pa_action a = ''create'' \<or> pa_action a = ''update'' \<longrightarrow>
          (\<exists>c. content_by_path rs (pa_path a) = Some c \<and> file_at t' (parts (pa_path a)) = Some c)) \<and>
       (pa_action a = ''noop'' \<longrightarrow> file_at t' (parts (pa_path a)) = file_at t (parts (pa_path a))))"
  using assms
proof (induction as arbitrary: t ap)
  case (Cons a as)
  obtain t1 ap1 ap2 where e: "execute_action fault pid base rs False t a = (t1, Inr (ap1, []))"
    and rest: "execute_actions fault pid base rs False t1 as = (t', Inr (ap2, []))" and ap: "ap = ap1 @ ap2"
    by (rule execute_actions_ConsD [OF Cons.prems(1)])
  have wf: "wf_action a" "list_all wf_action as" using Cons.prems(2) by simp_all
  have other: "parts (pa_path a) \<noteq> parts (pa_path b)" if "b \<in> set as" for b
    using Cons.prems(3) that by (auto simp: parts_inj)
  have keep: "file_at t' (parts (pa_path a)) = file_at t1 (parts (pa_path a))"
  proof -
    have "parts (pa_path a) \<notin> touches pid b" if "b \<in> set as" for b
      using other [OF that] Cons.prems(4) [of b a] that by (auto simp: touches_def)
    then show ?thesis
      using execute_actions_frame [OF wf(2), of "parts (pa_path a)" pid fault base rs False t1] rest by simp
  qed
  have before: "file_at t1 (parts (pa_path b)) = file_at t (parts (pa_path b))" if "b \<in> set as" for b
    using execute_action_frame [OF wf(1), of "parts (pa_path b)" pid fault base rs False t] e
      other [OF that] Cons.prems(4) [of a b] that by (auto simp: touches_def)
  have self: "pa_action a = ''noop'' \<Longrightarrow> t1 = t"
    using e by (simp add: execute_action_def)
  note ih = Cons.IH [OF rest wf(2)]
  show ?case
    using ih Cons.prems(3,4) execute_action_ok [OF wf(1) e] keep before self ap by auto
qed simp

section \<open>The actions of a plan\<close>

lemma res_list_Inr: "res_list xs = Inr ys \<longleftrightarrow> xs = map Inr ys"
  by (induction xs arbitrary: ys) (auto simp: rbind_Inr_iff Cons_eq_map_conv)

lemma plan_rendered_path: "plan_rendered h base tgt r = Inr a \<Longrightarrow> pa_path a = rf_path r"
  by (auto simp: plan_rendered_def Let_def rbind_Inr_iff split: option.splits if_splits)

lemma plan_rendered_verb:
  "plan_rendered h base tgt r = Inr a \<Longrightarrow> pa_action a \<in> {''create'', ''update'', ''noop''}"
  by (auto simp: plan_rendered_def Let_def rbind_Inr_iff split: option.splits if_splits)

lemma build_file_planE:
  assumes "build_file_plan h base rs tgt prune managed = Inr plan"
  obtains planned where
    "map (plan_rendered h base tgt) (sort_key rf_path rs) = map Inr planned"
    "fp_actions plan = sort_key (\<lambda>a. (pa_path a, pa_action a)) (planned @ plan_deletes h rs tgt prune managed)"
    "fp_summary plan = summarise (fp_actions plan)"
    "map pa_path planned = map rf_path (sort_key rf_path rs)"
proof -
  obtain planned where p: "res_list (map (plan_rendered h base tgt) (sort_key rf_path rs)) = Inr planned"
    "fp_actions plan = sort_key (\<lambda>a. (pa_path a, pa_action a)) (planned @ plan_deletes h rs tgt prune managed)"
    "fp_summary plan = summarise (fp_actions plan)"
    using assms by (auto simp: build_file_plan_def rbind_Inr_iff Let_def)
  have m: "map (plan_rendered h base tgt) (sort_key rf_path rs) = map Inr planned"
    using p(1) by (simp add: res_list_Inr)
  have "map pa_path ys = map rf_path xs" if "map (plan_rendered h base tgt) xs = map Inr ys" for xs ys
    using that by (induction xs arbitrary: ys) (auto simp: Cons_eq_map_conv dest: plan_rendered_path)
  then show thesis using that p m by blast
qed

lemma planned_iff:
  assumes "map (plan_rendered h base tgt) (sort_key rf_path rs) = map Inr planned"
  shows "a \<in> set planned \<longleftrightarrow> (\<exists>r\<in>set rs. plan_rendered h base tgt r = Inr a)"
proof -
  have "set (map (plan_rendered h base tgt) (sort_key rf_path rs)) = Inr ` set planned"
    by (simp only: assms set_map)
  then have "plan_rendered h base tgt ` set rs = Inr ` set planned" by simp
  then show ?thesis by (metis (no_types, opaque_lifting) Inr_inject image_iff)
qed

lemma delete_iff:
  assumes "wf_tree t"
  shows "a \<in> set (plan_deletes h rs (Some t) True managed) \<longleftrightarrow>
    (\<exists>p c. file_at t p = Some c \<and> is_orphan (map rf_path rs) (plan_prefixes rs managed) p
           \<and> a = delete_action (join ''/'' p, h (universal_newlines c)))"
  using assms by (auto simp: plan_deletes_def scan_orphans_def wf_tree_def split: prod.splits)

section \<open>Properties\<close>

definition plannable :: "rendered_file list \<Rightarrow> bool" where
  "plannable rs \<longleftrightarrow> distinct (map rf_path rs) \<and>
     list_all (\<lambda>r. wf_rel (rf_path r) \<and> \<not> is_tmp_name (last (parts (rf_path r)))) rs"

lemma content_by_path_distinct:
  "distinct (map rf_path rs) \<Longrightarrow> r \<in> set rs \<Longrightarrow> content_by_path rs (rf_path r) = Some (rf_content r)"
  by (auto simp: content_by_path_def map_of_dict_of comp_def simp flip: rev_map intro!: map_of_is_SomeI)

lemma wf_tree_key:
  assumes "wf_tree t" "(q, c) \<in> set (tree_files t)"
  shows "q \<noteq> [] \<and> list_all wf_part q"
proof -
  have "fst (q, c) \<in> fst ` set (tree_files t)" using assms(2) by (rule imageI)
  moreover have "\<forall>p\<in>fst ` set (tree_files t). p \<noteq> [] \<and> list_all wf_part p"
    using assms(1) unfolding wf_tree_def list_all_iff [of _ "map fst (tree_files t)"] set_map by blast
  ultimately show ?thesis by (metis fst_conv)
qed

lemma distinct_map_sort_key: "distinct (map f (sort_key k xs)) \<longleftrightarrow> distinct (map f xs)"
  by (simp add: distinct_map)

lemma plan_wf:
  assumes "wf_tree t" "plannable rs"
    and "build_file_plan h base rs (Some t) prune managed = Inr plan"
  shows "list_all wf_action (fp_actions plan)" "distinct (map pa_path (fp_actions plan))"
    and "a \<in> set (fp_actions plan) \<Longrightarrow> \<not> is_tmp_name (last (parts (pa_path a)))"
proof -
  obtain planned where p: "map (plan_rendered h base (Some t)) (sort_key rf_path rs) = map Inr planned"
    "fp_actions plan = sort_key (\<lambda>a. (pa_path a, pa_action a)) (planned @ plan_deletes h rs (Some t) prune managed)"
    "fp_summary plan = summarise (fp_actions plan)"
    "map pa_path planned = map rf_path (sort_key rf_path rs)"
    by (rule build_file_planE [OF assms(3)])
  let ?D = "plan_deletes h rs (Some t) prune managed"
  note keys = wf_tree_key [OF assms(1)]
  have D: "\<exists>q. q \<noteq> [] \<and> list_all wf_part q \<and> pa_path a = join ''/'' q \<and> pa_action a = ''delete''
             \<and> \<not> is_tmp_name (last q) \<and> join ''/'' q \<notin> rf_path ` set rs" if a: "a \<in> set ?D" for a
  proof -
    obtain q c where "(q, c) \<in> set (tree_files t)" "a = delete_action (join ''/'' q, h (universal_newlines c))"
      "is_orphan (map rf_path rs) (plan_prefixes rs managed) q"
      using a by (auto simp: plan_deletes_def scan_orphans_def split: if_splits)
    then show ?thesis using keys [of q c] by (intro exI [of _ q]) (simp add: delete_action_def is_orphan_def)
  qed
  have P: "\<exists>r\<in>set rs. pa_path a = rf_path r \<and> pa_action a \<in> {''create'', ''update'', ''noop''}"
    if "a \<in> set planned" for a
    using that planned_iff [OF p(1)] plan_rendered_path plan_rendered_verb by blast
  have rs: "wf_rel (rf_path r) \<and> \<not> is_tmp_name (last (parts (rf_path r)))" if "r \<in> set rs" for r
    using assms(2) that by (auto simp: plannable_def list_all_iff)
  show "list_all wf_action (fp_actions plan)"
    using P D rs wf_rel_join by (fastforce simp: p(2) list_all_iff wf_action_def)
  have "distinct (map pa_path planned)"
    using assms(2) p(4) by (simp add: distinct_map plannable_def)
  moreover have "distinct (map pa_path ?D)"
  proof -
    let ?os = "filter (\<lambda>(p, _). is_orphan (map rf_path rs) (plan_prefixes rs managed) p) (tree_files t)"
    have k: "q \<noteq> [] \<and> list_all wf_part q" if "q \<in> fst ` set ?os" for q
      using that keys by auto
    have "inj_on (join ''/'') (fst ` set ?os)"
      by (rule inj_on_inverseI [where g = parts]) (simp add: k parts_join)
    moreover have "distinct (map fst ?os)"
      using assms(1) by (simp add: wf_tree_def distinct_map_filter)
    ultimately have "distinct (map (join ''/'') (map fst ?os))"
      by (subst distinct_map) simp
    moreover have "map fst (map (\<lambda>(p, c). (join ''/'' p, h (universal_newlines c))) xs) = map (join ''/'') (map fst xs)"
      for xs :: "(path \<times> string) list"
      by (induction xs) auto
    ultimately have "distinct (map fst (scan_orphans h t (map rf_path rs) (plan_prefixes rs managed)))"
      unfolding scan_orphans_def distinct_map_sort_key by (simp only:)
    then show ?thesis
      by (auto simp: plan_deletes_def comp_def delete_action_def)
  qed
  moreover have "pa_path ` set planned \<inter> pa_path ` set ?D = {}"
  proof -
    have "pa_path ` set planned \<subseteq> rf_path ` set rs" using P by auto
    moreover have "pa_path ` set ?D \<inter> rf_path ` set rs = {}"
    proof (intro equals0I)
      fix x assume "x \<in> pa_path ` set ?D \<inter> rf_path ` set rs"
      then obtain a where "a \<in> set ?D" "pa_path a \<in> rf_path ` set rs" by auto
      then show False using D [of a] by auto
    qed
    ultimately show ?thesis by blast
  qed
  ultimately show "distinct (map pa_path (fp_actions plan))"
    by (auto simp: p(2) distinct_map inj_on_Un)
  show "\<not> is_tmp_name (last (parts (pa_path a)))" if "a \<in> set (fp_actions plan)"
    using that P D rs parts_join by (fastforce simp: p(2))
qed

lemma plan_noop_content:
  assumes "wf_rel (rf_path r)" "plan_rendered h base (Some t) r = Inr a" "pa_action a = ''noop''"
  shows "\<exists>c. file_at t (parts (rf_path r)) = Some c \<and> h (universal_newlines c) = h (rf_content r)"
  using assms
  by (auto simp: plan_rendered_def Let_def rbind_Inr_iff resolve_wf read_text_def split: if_splits option.splits)

lemma plan_of_present:
  assumes "wf_rel (rf_path r)" "file_at t (parts (rf_path r)) = Some c"
  shows "\<exists>a. plan_rendered h base (Some t) r = Inr a \<and> pa_path a = rf_path r
    \<and> pa_action a = (if h (universal_newlines c) = h (rf_content r) then ''noop'' else ''update'')"
  using assms by (simp add: plan_rendered_def Let_def resolve_wf read_text_def path_exists_def is_file_def)

definition rewritten_again :: "(string \<Rightarrow> string) \<Rightarrow> rendered_file list \<Rightarrow> plan_action \<Rightarrow> bool" where
  "rewritten_again h rs a \<longleftrightarrow> pa_action a = ''update'' \<and>
     (\<exists>r\<in>set rs. pa_path a = rf_path r \<and> h (universal_newlines (rf_content r)) \<noteq> h (rf_content r))"

lemma newlines_from_plain: "CHR 0x0D \<notin> set c \<Longrightarrow> newlines_from False c = c"
  by (induction c) auto

lemma universal_newlines_plain [simp]: "CHR 0x0D \<notin> set c \<Longrightarrow> universal_newlines c = c"
  by (simp add: universal_newlines_def newlines_from_plain)

lemma read_back_has_no_cr: "CHR 0x0D \<notin> set (universal_newlines c)"
proof -
  have "CHR 0x0D \<notin> set (newlines_from b c)" for b by (induction c arbitrary: b) auto
  then show ?thesis by (simp add: universal_newlines_def)
qed

lemma file_plan_settles:
  assumes "wf_tree t" "plannable rs"
    and "build_file_plan h base rs (Some t) True managed = Inr plan"
    and "execute_file_plan fault pid base plan rs t False = (t', Inr out)" "ao_errors out = []"
  shows "(\<forall>r\<in>set rs. \<exists>c. file_at t' (parts (rf_path r)) = Some c
            \<and> (c = rf_content r \<or> h (universal_newlines c) = h (rf_content r))) \<and>
    scan_orphans h t' (map rf_path rs) (plan_prefixes rs managed) = [] \<and>
    (\<exists>plan'. build_file_plan h base rs (Some t') True managed = Inr plan' \<and>
             list_all (\<lambda>a. pa_action a = ''noop'' \<or> rewritten_again h rs a) (fp_actions plan'))"
proof -
  note wf = plan_wf [OF assms(1-3)]
  obtain ap where run: "execute_actions fault pid base rs False t (fp_actions plan) = (t', Inr (ap, []))"
    using assms(4,5) by (auto simp: execute_file_plan_def split: prod.splits sum.splits)
  have "tmp_path pid (parts (pa_path a)) \<noteq> parts (pa_path b)" if "b \<in> set (fp_actions plan)" for a b
    using wf(3) [OF that] last_tmp_path by metis
  note ran = conjunct2 [OF execute_actions_ok [OF run wf(1,2) this]]
  obtain planned where p: "map (plan_rendered h base (Some t)) (sort_key rf_path rs) = map Inr planned"
    "fp_actions plan = sort_key (\<lambda>a. (pa_path a, pa_action a)) (planned @ plan_deletes h rs (Some t) True managed)"
    "fp_summary plan = summarise (fp_actions plan)"
    "map pa_path planned = map rf_path (sort_key rf_path rs)"
    by (rule build_file_planE [OF assms(3)])
  have rs: "wf_rel (rf_path r)" if "r \<in> set rs" for r
    using assms(2) that by (auto simp: plannable_def list_all_iff)
  have content: "\<exists>c. file_at t' (parts (rf_path r)) = Some c
      \<and> (c = rf_content r \<or> h (universal_newlines c) = h (rf_content r))" if r: "r \<in> set rs" for r
  proof -
    have "plan_rendered h base (Some t) r \<in> set (map Inr planned)"
      using r by (simp flip: p(1))
    then obtain a where a: "plan_rendered h base (Some t) r = Inr a" "a \<in> set planned" by auto
    have mem: "a \<in> set (fp_actions plan)" using a(2) by (simp add: p(2))
    have c: "content_by_path rs (pa_path a) = Some (rf_content r)"
      using content_by_path_distinct [of rs r] assms(2) r plan_rendered_path [OF a(1)]
      by (simp add: plannable_def)
    note at = bspec [OF ran mem, unfolded plan_rendered_path [OF a(1)]]
    show ?thesis
    proof (cases "pa_action a = ''noop''")
      case True
      then show ?thesis using plan_noop_content [OF rs [OF r] a(1)] at by auto
    next
      case False
      then have "file_at t' (parts (rf_path r)) = Some (rf_content r)"
        using plan_rendered_verb [OF a(1)] at c plan_rendered_path [OF a(1)] by auto
      then show ?thesis by blast
    qed
  qed
  have no_orphan: "\<not> is_orphan (map rf_path rs) (plan_prefixes rs managed) q" if q: "file_at t' q = Some c" for q c
  proof
    assume o: "is_orphan (map rf_path rs) (plan_prefixes rs managed) q"
    have "\<exists>a\<in>set (fp_actions plan). q \<in> touches pid a \<or> (q = parts (pa_path a) \<and> pa_action a = ''delete'')"
    proof (cases "file_at t q")
      case None
      then show ?thesis
        using execute_actions_frame [OF wf(1), of q pid fault base rs False t] run q by fastforce
    next
      case (Some c')
      then have "delete_action (join ''/'' q, h (universal_newlines c')) \<in> set (fp_actions plan)"
        using o delete_iff [OF assms(1), of _ h rs managed] by (auto simp: p(2))
      moreover have "q \<noteq> [] \<and> list_all wf_part q"
        using wf_tree_key [OF assms(1) map_of_SomeD [OF Some]] .
      ultimately show ?thesis using parts_join [of q]
        by (intro bexI [of _ "delete_action (join ''/'' q, h (universal_newlines c'))"]) (simp_all add: delete_action_def)
    qed
    then obtain a where a: "a \<in> set (fp_actions plan)" "q = parts (pa_path a) \<or> q = tmp_path pid (parts (pa_path a))"
      by (auto simp: touches_def split: if_splits)
    then have qa: "q = parts (pa_path a)" using o last_tmp_path by (auto simp: is_orphan_def)
    then have "pa_path a \<notin> rf_path ` set rs" using o by (simp add: is_orphan_def join_split_on)
    then have "pa_action a = ''delete''"
      using a(1) planned_iff [OF p(1)] plan_rendered_path
      by (fastforce simp: p(2) plan_deletes_def delete_action_def)
    then show False using ran a(1) q qa by auto
  qed
  have orphans: "scan_orphans h t' (map rf_path rs) (plan_prefixes rs managed) = []"
  proof -
    have "\<not> is_orphan (map rf_path rs) (plan_prefixes rs managed) q" if "(q, c) \<in> set (tree_files t')" for q c
      using weak_map_of_SomeI [OF that] no_orphan by auto
    then have "filter (\<lambda>(p, _). is_orphan (map rf_path rs) (plan_prefixes rs managed) p) (tree_files t') = []"
      by (auto simp: filter_empty_conv)
    then show ?thesis by (simp add: scan_orphans_def)
  qed
  let ?ok = "\<lambda>a. pa_action a = ''noop'' \<or> rewritten_again h rs a"
  have again: "\<exists>a. plan_rendered h base (Some t') r = Inr a \<and> ?ok a" if r: "r \<in> set rs" for r
  proof -
    obtain c where c: "file_at t' (parts (rf_path r)) = Some c"
      "c = rf_content r \<or> h (universal_newlines c) = h (rf_content r)" using content [OF r] by blast
    obtain a where a: "plan_rendered h base (Some t') r = Inr a" "pa_path a = rf_path r"
      "pa_action a = (if h (universal_newlines c) = h (rf_content r) then ''noop'' else ''update'')"
      using plan_of_present [OF rs [OF r] c(1), of h base] by blast
    then have "?ok a" using c(2) r by (auto simp: rewritten_again_def)
    then show ?thesis using a(1) by blast
  qed
  then have all_ok: "\<exists>ys. map (plan_rendered h base (Some t')) xs = map Inr ys \<and> list_all ?ok ys"
    if "set xs \<subseteq> set rs" for xs
    using that
  proof (induction xs)
    case (Cons x xs)
    obtain ys where "map (plan_rendered h base (Some t')) xs = map Inr ys" "list_all ?ok ys"
      using Cons by auto
    moreover obtain a where "plan_rendered h base (Some t') x = Inr a" "?ok a"
      using Cons.prems again [of x] by auto
    ultimately show ?case by (intro exI [of _ "a # ys"]) simp
  qed simp
  obtain ys where ys: "map (plan_rendered h base (Some t')) (sort_key rf_path rs) = map Inr ys"
    "list_all ?ok ys" using all_ok [of "sort_key rf_path rs"] by auto
  have "\<exists>plan'. build_file_plan h base rs (Some t') True managed = Inr plan' \<and>
      list_all ?ok (fp_actions plan')"
    using ys orphans
    by (auto simp: build_file_plan_def Let_def plan_deletes_def list_all_iff
        res_list_Inr [THEN iffD2, OF refl])
  then show ?thesis using content orphans by blast
qed

lemma file_plan_settles_plain:
  assumes "wf_tree t" "plannable rs"
    and "build_file_plan h base rs (Some t) True managed = Inr plan"
    and "execute_file_plan fault pid base plan rs t False = (t', Inr out)" "ao_errors out = []"
    and "\<forall>r\<in>set rs. universal_newlines (rf_content r) = rf_content r"
  shows "\<exists>plan'. build_file_plan h base rs (Some t') True managed = Inr plan' \<and>
             list_all (\<lambda>a. pa_action a = ''noop'') (fp_actions plan')"
proof -
  obtain plan' where p: "build_file_plan h base rs (Some t') True managed = Inr plan'"
    "list_all (\<lambda>a. pa_action a = ''noop'' \<or> rewritten_again h rs a) (fp_actions plan')"
    using file_plan_settles [OF assms(1-5)] by blast
  have "\<not> rewritten_again h rs a" for a using assms(6) by (auto simp: rewritten_again_def)
  then show ?thesis using p by auto
qed

text \<open>A rendered text with a carriage return never settles: its file reads back with a line feed, so
  the plan after a clean run updates it again.\<close>

lemma carriage_return_rewritten_again:
  "let rs = [\<lparr>rf_path = ''bird/a.conf'', rf_content = [CHR ''x'', CHR 0x0D, CHR 0x0A]\<rparr>];
       t = \<lparr>tree_files = [([''bird'', ''a.conf''], [CHR ''x'', CHR 0x0D, CHR 0x0A])], tree_dirs = [[''bird'']]\<rparr> in
   map_option (map pa_action \<circ> fp_actions)
     (case build_file_plan (\<lambda>x. x) [''srv''] rs (Some t) True None of Inr p \<Rightarrow> Some p | Inl _ \<Rightarrow> None)
   = Some [''update'']"
  by code_simp

text \<open>C1: applying a pruned plan converges, as far as text files can be compared.  When the run
  reports no error (whatever system calls could have failed), every rendered file is on disk, with its
  rendered content or with a content that reads back to the rendered hash; no orphan is left in the
  managed prefixes; and planning again yields only \<open>noop\<close> actions, except an \<open>update\<close> of a rendered
  file whose own content does not read back to its own hash.  Reading turns carriage returns into line
  feeds and writing does not, so such a content has a carriage return in it: it is written again on
  every run, and a content that differs from the rendered one only in the form of its line ends
  counts as equal to it.\<close>

theorem file_plan_converges:
  assumes "wf_tree t" "plannable rs"
    and "build_file_plan h base rs (Some t) True managed = Inr plan"
    and "execute_file_plan fault pid base plan rs t False = (t', Inr out)" "ao_errors out = []"
  shows "(\<forall>r\<in>set rs. \<exists>c. file_at t' (parts (rf_path r)) = Some c
            \<and> (c = rf_content r \<or> h (universal_newlines c) = h (rf_content r))) \<and>
    scan_orphans h t' (map rf_path rs) (plan_prefixes rs managed) = [] \<and>
    (\<exists>plan'. build_file_plan h base rs (Some t') True managed = Inr plan' \<and>
             list_all (\<lambda>a. pa_action a = ''noop'' \<or> rewritten_again h rs a) (fp_actions plan'))"
  by (rule file_plan_settles [OF assms])

definition example_tree :: file_tree where
  "example_tree =
     \<lparr>tree_files = [([''bird'', ''peers'', ''old.conf''], ''old''), ([''bird'', ''bird.conf''], ''v1''),
                    ([''notes.txt''], ''mine'')],
      tree_dirs = [[''bird''], [''bird'', ''peers'']]\<rparr>"

definition example_rendered :: "rendered_file list" where
  "example_rendered =
     [\<lparr>rf_path = ''wireguard/wg-a.conf'', rf_content = ''wg''\<rparr>, \<lparr>rf_path = ''bird/bird.conf'', rf_content = ''v2''\<rparr>]"

definition example_plan :: file_plan where
  "example_plan =
     (case build_file_plan (\<lambda>x. x) [''srv''] example_rendered (Some example_tree) True None of
        Inr p \<Rightarrow> p | Inl _ \<Rightarrow> \<lparr>fp_summary = summarise [], fp_actions = []\<rparr>)"

definition example_run :: "file_tree \<times> apply_outcome res" where
  "example_run = execute_file_plan no_faults 7 [''srv''] example_plan example_rendered example_tree False"

definition example_outcome :: apply_outcome where
  "example_outcome =
     \<lparr>ao_summary = \<lparr>ps_create = 1, ps_update = 1, ps_delete = 1, ps_noop = 0\<rparr>,
      ao_applied = [\<lparr>af_action = ''update'', af_path = ''bird/bird.conf'', af_sha256 = Some ''v2''\<rparr>,
                    \<lparr>af_action = ''delete'', af_path = ''bird/peers/old.conf'', af_sha256 = Some ''old''\<rparr>,
                    \<lparr>af_action = ''create'', af_path = ''wireguard/wg-a.conf'', af_sha256 = Some ''wg''\<rparr>],
      ao_errors = [], ao_dry_run = False\<rparr>"

definition example_after :: file_tree where
  "example_after =
     \<lparr>tree_files = [([''bird'', ''bird.conf''], ''v2''), ([''notes.txt''], ''mine''), ([''wireguard'', ''wg-a.conf''], ''wg'')],
      tree_dirs = [[''bird''], [''wireguard'']]\<rparr>"

lemma example_facts:
  "wf_tree example_tree" "plannable example_rendered"
  "build_file_plan (\<lambda>x. x) [''srv''] example_rendered (Some example_tree) True None = Inr example_plan"
  "execute_file_plan no_faults 7 [''srv''] example_plan example_rendered example_tree False
   = (example_after, Inr example_outcome)"
  "ao_errors example_outcome = []"
  by code_simp+

theorem file_plan_converges_witness:
  "scan_orphans (\<lambda>x. x) example_after (map rf_path example_rendered) (plan_prefixes example_rendered None) = []"
  using file_plan_converges [OF example_facts] by blast

lemma plan_paths:
  assumes "build_file_plan h base rs (Some t) prune managed = Inr plan" "a \<in> set (fp_actions plan)"
  shows "(pa_action a = ''delete'' \<and> prune \<and>
           (\<exists>q c. (q, c) \<in> set (tree_files t) \<and> pa_path a = join ''/'' q
                \<and> within_managed (join ''/'' q) (plan_prefixes rs managed)))
         \<or> (pa_action a \<in> {''create'', ''update'', ''noop''} \<and> (\<exists>r\<in>set rs. pa_path a = rf_path r))"
proof -
  obtain planned where p: "map (plan_rendered h base (Some t)) (sort_key rf_path rs) = map Inr planned"
    "fp_actions plan = sort_key (\<lambda>a. (pa_path a, pa_action a)) (planned @ plan_deletes h rs (Some t) prune managed)"
    "fp_summary plan = summarise (fp_actions plan)"
    "map pa_path planned = map rf_path (sort_key rf_path rs)"
    by (rule build_file_planE [OF assms(1)])
  have "a \<in> set planned \<or> a \<in> set (plan_deletes h rs (Some t) prune managed)"
    using assms(2) by (simp add: p(2))
  then show ?thesis
  proof
    assume "a \<in> set planned"
    then show ?thesis using planned_iff [OF p(1)] plan_rendered_path plan_rendered_verb by blast
  next
    assume "a \<in> set (plan_deletes h rs (Some t) prune managed)"
    then show ?thesis
      by (fastforce simp: plan_deletes_def scan_orphans_def delete_action_def is_orphan_def split: if_splits)
  qed
qed

text \<open>C25: files outside the plan are never touched, whatever fails.  A path that is neither
  rendered, nor (when pruning) inside the managed prefixes, nor the scratch name of a rendered file
  keeps its content, also when a system call fails in the middle of the run.\<close>

theorem unmanaged_files_untouched:
  assumes "wf_tree t" "plannable rs"
    and "parts q \<notin> (\<lambda>r. parts (rf_path r)) ` set rs" "parts q \<notin> (\<lambda>r. tmp_path pid (parts (rf_path r))) ` set rs"
    and "\<not> (prune \<and> within_managed q (plan_prefixes rs managed))"
  shows "file_at (fst (apply_rendered_files h fault pid base rs t prune managed dry)) (parts q) = file_at t (parts q)"
proof (cases "build_file_plan h base rs (Some t) prune managed")
  case (Inl e)
  then show ?thesis by (simp add: apply_rendered_files_def)
next
  case (Inr plan)
  have "parts q \<notin> touches pid a" if a: "a \<in> set (fp_actions plan)" for a
    using plan_paths [OF Inr a]
  proof
    assume "pa_action a = ''delete'' \<and> prune \<and>
      (\<exists>k c. (k, c) \<in> set (tree_files t) \<and> pa_path a = join ''/'' k
           \<and> within_managed (join ''/'' k) (plan_prefixes rs managed))"
    then have "pa_action a = ''delete''" "pa_path a \<noteq> q" using assms(5) by auto
    then show ?thesis by (simp add: touches_def parts_inj)
  next
    assume "pa_action a \<in> {''create'', ''update'', ''noop''} \<and> (\<exists>r\<in>set rs. pa_path a = rf_path r)"
    then obtain r where "r \<in> set rs" "pa_path a = rf_path r" by auto
    then show ?thesis using assms(3,4) by (auto simp: touches_def)
  qed
  then have "file_at (fst (execute_actions fault pid base rs dry t (fp_actions plan))) (parts q) = file_at t (parts q)"
    by (rule execute_actions_frame [OF plan_wf(1) [OF assms(1,2) Inr]])
  then show ?thesis
    by (auto simp: apply_rendered_files_def execute_file_plan_def Inr split: prod.splits sum.splits)
qed

theorem unmanaged_files_untouched_witness:
  "file_at (fst (apply_rendered_files (\<lambda>x. x) (\<lambda>op. if op = Unlink [''bird'', ''peers'', ''old.conf''] then Some ''EBUSY'' else None)
       7 [''srv''] example_rendered example_tree True None False)) (parts ''notes.txt'')
   = file_at example_tree (parts ''notes.txt'')"
  by (rule unmanaged_files_untouched) code_simp+

text \<open>A dry run of any plan leaves the directory as it is and reports every action of the plan
  in order, without an error.\<close>

theorem dry_run_reports_only:
  "execute_file_plan fault pid base plan rs t True =
     (t, Inr \<lparr>ao_summary = fp_summary plan,
              ao_applied = map (\<lambda>a. \<lparr>af_action = pa_action a, af_path = pa_path a, af_sha256 = pa_desired a\<rparr>)
                             (fp_actions plan),
              ao_errors = [], ao_dry_run = True\<rparr>)"
proof -
  have "execute_actions fault pid base rs True t as =
      (t, Inr (map (\<lambda>a. \<lparr>af_action = pa_action a, af_path = pa_path a, af_sha256 = pa_desired a\<rparr>) as, []))" for as
    by (induction as) (auto simp: execute_action_def applied_of_def)
  then show ?thesis by (simp add: execute_file_plan_def)
qed

text \<open>A path accepted by \<open>RenderedFile\<close> stays inside the target directory: it resolves, against
  any base, to its own parts below the base, none of which is empty, a dot or a parent step.\<close>

theorem rendered_path_confined:
  assumes "new_rendered_file p content = Inr r"
  shows "resolve_target base (rf_path r) = Inr (parts (rf_path r)) \<and> list_all wf_part (parts (rf_path r))
         \<and> rf_content r = content"
  using assms validated_wf [of p]
  by (auto simp: new_rendered_file_def rbind_Inr_iff resolve_wf wf_rel_def [symmetric])

theorem rendered_path_confined_witness:
  "resolve_target [''srv'', ''rendered''] ''wg/a.conf'' = Inr [''wg'', ''a.conf'']"
  using rendered_path_confined [of "''./wg//a.conf''" "''x''" "\<lparr>rf_path = ''wg/a.conf'', rf_content = ''x''\<rparr>"
      "[''srv'', ''rendered'']"]
  by (simp add: new_rendered_file_def validate_relative_path_def posix_parts_def starts_with_def is_upper_def
      is_lower_def Let_def)

text \<open>The normal form is not always accepted again: the drive-letter test looks at the raw text only.\<close>

lemma drive_letter_slips_through:
  "validate_relative_path ''./C:/x'' = Inr ''C:/x''" "\<exists>e. validate_relative_path ''C:/x'' = Inl e"
  by (code_simp, simp add: validate_relative_path_def is_upper_def)

text \<open>C26: the write is atomic.  Under every failure of a system call, after \<open>_atomic_write\<close> the target
  holds either exactly what it held before (and an error is returned) or exactly the new content (and
  no error is), and no other file but the scratch file changed.\<close>

theorem atomic_write_all_or_nothing:
  assumes "wf_rel rel"
  shows "(case atomic_write fault pid base t rel c of
            (t', Some e) \<Rightarrow> file_at t' (parts rel) = file_at t (parts rel)
          | (t', None) \<Rightarrow> file_at t' (parts rel) = Some c)
    \<and> (\<forall>q. q \<noteq> parts rel \<and> q \<noteq> tmp_path pid (parts rel) \<longrightarrow>
           file_at (fst (atomic_write fault pid base t rel c)) q = file_at t q)"
proof -
  have neq: "parts rel \<noteq> tmp_path pid (parts rel)" using tmp_path_neq [of "parts rel" pid] by simp
  show ?thesis
    by (rule atomic_write_cases [OF resolve_wf [OF assms, of base], where fault = fault and pid = pid and t = t and c = c]) (auto simp: neq)
qed

theorem atomic_write_all_or_nothing_witness:
  "file_at (fst (atomic_write (\<lambda>op. if op = Replace [''bird'', ''bird.conf''] then Some ''EIO'' else None) 7
     [''srv''] example_tree ''bird/bird.conf'' ''v2'')) [''notes.txt''] = Some ''mine''"
  using atomic_write_all_or_nothing [where rel = "''bird/bird.conf''" and c = "''v2''" and t = example_tree
      and fault = "\<lambda>op. if op = Replace [''bird'', ''bird.conf''] then Some ''EIO'' else None"
      and pid = 7 and base = "[''srv'']"]
  by (simp add: wf_rel_def wf_part_def example_tree_def tmp_path_def with_name_def)

end
