(* ===== verification/Validators.thy ===== *)
theory Validators
  imports Ipaddress
begin

text \<open>
  \<open>dn42_common/validators\<close>: the DN42 address space, domain names, WireGuard keys and
  endpoints, and AS numbers; with the round trip of IPv4 networks through their textual form, on
  which the address-space checks rely (they print a network and parse it again).
\<close>

section \<open>validators/dn42\_space.py\<close>

definition v4net :: "int \<Rightarrow> int \<Rightarrow> int \<Rightarrow> int \<Rightarrow> nat \<Rightarrow> ip_net" where
  "v4net a b c d p = IPv4Network (((a * 256 + b) * 256 + c) * 256 + d) p"

definition DN42_IPV4_SPACE :: ip_net where
  "DN42_IPV4_SPACE = v4net 172 20 0 0 14"

definition DN42_IPV6_SPACE :: ip_net where
  "DN42_IPV6_SPACE = IPv6Network (0xfd * 2 ^ 120) 8"

definition DN42_ANYCAST_IPV4_PREFIXES :: "ip_net list" where
  "DN42_ANYCAST_IPV4_PREFIXES =
     [v4net 172 20 0 0 24, v4net 172 21 0 0 24, v4net 172 22 0 0 24, v4net 172 23 0 0 24]"

definition DN42_ANYCAST_IPV6_SPACE :: ip_net where
  "DN42_ANYCAST_IPV6_SPACE = IPv6Network (0xfd420d420d42 * 2 ^ 80) 48"

definition DN42_TRANSFER_IPV4_PREFIXES :: "ip_net list" where
  "DN42_TRANSFER_IPV4_PREFIXES = [v4net 172 20 240 0 20, v4net 172 22 240 0 20]"

definition DN42_CLOSED_IPV4_PREFIXES :: "ip_net list" where
  "DN42_CLOSED_IPV4_PREFIXES = [v4net 172 23 16 0 21]"

definition DN42_RESERVED_IPV4_PREFIXES :: "ip_net list" where
  "DN42_RESERVED_IPV4_PREFIXES = [v4net 172 21 0 0 18, v4net 172 21 128 0 17, v4net 172 22 192 0 18]"

definition network_inside :: "ip_net \<Rightarrow> ip_net \<Rightarrow> bool" where
  "network_inside network supernet \<longleftrightarrow>
     net_version network = net_version supernet \<and> subnet_of network supernet"

definition matches_any :: "string \<Rightarrow> ip_net list \<Rightarrow> bool" where
  "matches_any value prefixes =
     (case ip_network value of None \<Rightarrow> False | Some net \<Rightarrow> list_ex (network_inside net) prefixes)"

definition is_dn42_ipv4_address :: "string \<Rightarrow> bool" where
  "is_dn42_ipv4_address value =
     (case ip_address value of None \<Rightarrow> False
      | Some a \<Rightarrow> addr_version a = 4 \<and> addr_in_net a DN42_IPV4_SPACE)"

definition is_dn42_ipv6_address :: "string \<Rightarrow> bool" where
  "is_dn42_ipv6_address value =
     (case ip_address value of None \<Rightarrow> False
      | Some a \<Rightarrow> addr_version a = 6 \<and> addr_in_net a DN42_IPV6_SPACE)"

definition is_dn42_address :: "string \<Rightarrow> bool" where
  "is_dn42_address value \<longleftrightarrow> is_dn42_ipv4_address value \<or> is_dn42_ipv6_address value"

definition is_dn42_ipv4_network :: "string \<Rightarrow> bool" where
  "is_dn42_ipv4_network value =
     (case ip_network value of None \<Rightarrow> False
      | Some net \<Rightarrow> net_version net = 4 \<and> network_inside net DN42_IPV4_SPACE)"

definition is_dn42_ipv6_network :: "string \<Rightarrow> bool" where
  "is_dn42_ipv6_network value =
     (case ip_network value of None \<Rightarrow> False
      | Some net \<Rightarrow> net_version net = 6 \<and> network_inside net DN42_IPV6_SPACE)"

definition is_dn42_network :: "string \<Rightarrow> bool" where
  "is_dn42_network value \<longleftrightarrow> is_dn42_ipv4_network value \<or> is_dn42_ipv6_network value"

definition is_dn42_anycast_address :: "string \<Rightarrow> bool" where
  "is_dn42_anycast_address value =
     (case ip_address value of None \<Rightarrow> False
      | Some a \<Rightarrow> if addr_version a = 4 then list_ex (addr_in_net a) DN42_ANYCAST_IPV4_PREFIXES
                  else addr_in_net a DN42_ANYCAST_IPV6_SPACE)"

definition is_dn42_anycast_network :: "string \<Rightarrow> bool" where
  "is_dn42_anycast_network value \<longleftrightarrow>
     (if matches_any value DN42_ANYCAST_IPV4_PREFIXES then True else matches_any value [DN42_ANYCAST_IPV6_SPACE])"

definition is_dn42_transfer_network :: "string \<Rightarrow> bool" where
  "is_dn42_transfer_network value \<longleftrightarrow> matches_any value DN42_TRANSFER_IPV4_PREFIXES"

definition is_dn42_closed_network :: "string \<Rightarrow> bool" where
  "is_dn42_closed_network value \<longleftrightarrow> matches_any value DN42_CLOSED_IPV4_PREFIXES"

definition is_dn42_reserved_network :: "string \<Rightarrow> bool" where
  "is_dn42_reserved_network value \<longleftrightarrow> matches_any value DN42_RESERVED_IPV4_PREFIXES"

definition validate_dn42_ipv4_network :: "string \<Rightarrow> bool \<Rightarrow> bool \<Rightarrow> string res" where
  "validate_dn42_ipv4_network value allow_anycast allow_transfer =
     (case ip_network value of
        None \<Rightarrow> Inl (ValueError value)
      | Some network \<Rightarrow>
          checks
            [(net_version network \<noteq> 4, ValueError (repr_str value @ '' is not an IPv4 network'')),
             (\<not> network_inside network DN42_IPV4_SPACE,
              ValueError (repr_str value @ '' is outside dn42 IPv4 space '' @ str_net DN42_IPV4_SPACE)),
             (is_dn42_closed_network (str_net network),
              ValueError (repr_str value @ '' is in a dn42 closed allocation range'')),
             (is_dn42_reserved_network (str_net network),
              ValueError (repr_str value @ '' is in a dn42 reserved-for-future range'')),
             (\<not> allow_anycast \<and> is_dn42_anycast_network (str_net network),
              ValueError (repr_str value @ '' is in a dn42 anycast range'')),
             (\<not> allow_transfer \<and> is_dn42_transfer_network (str_net network),
              ValueError (repr_str value @ '' is in a dn42 transfer-network range''))]
            (str_net network))"

definition validate_dn42_ipv6_network :: "string \<Rightarrow> bool \<Rightarrow> string res" where
  "validate_dn42_ipv6_network value allow_anycast =
     (case ip_network value of
        None \<Rightarrow> Inl (ValueError value)
      | Some network \<Rightarrow>
          checks
            [(net_version network \<noteq> 6, ValueError (repr_str value @ '' is not an IPv6 network'')),
             (\<not> network_inside network DN42_IPV6_SPACE,
              ValueError (repr_str value @ '' is outside dn42 IPv6 space '' @ str_net DN42_IPV6_SPACE)),
             (\<not> allow_anycast \<and> is_dn42_anycast_network (str_net network),
              ValueError (repr_str value @ '' is in the dn42 anycast range''))]
            (str_net network))"

section \<open>validators/asn.py\<close>

definition validate_asn :: "int \<Rightarrow> int res" where
  "validate_asn value =
     (if value < 1 \<or> 4294967295 < value
      then Inl (ValueError (''asn '' @ str_int value @ '' out of range [1, 4294967295]'')) else Inr value)"

definition is_private_asn :: "int \<Rightarrow> bool" where
  "is_private_asn value \<longleftrightarrow>
     (64512 \<le> value \<and> value \<le> 65534) \<or> (4200000000 \<le> value \<and> value \<le> 4294967294)"

section \<open>validators/domain.py\<close>

definition label_ok :: "bool \<Rightarrow> bool \<Rightarrow> string \<Rightarrow> bool" where
  "label_ok allow_underscore allow_slash label \<longleftrightarrow>
     (let edge = (\<lambda>c. is_alnum c \<or> (allow_underscore \<and> c = CHR ''_''));
          inner = (\<lambda>c. edge c \<or> c = CHR ''-'' \<or> (allow_slash \<and> c = CHR ''/'')) in
      label \<noteq> [] \<and> edge (hd label) \<and> edge (last label) \<and> length label \<le> 63 \<and> list_all inner label)"

definition validate_domain_name :: "string \<Rightarrow> bool \<Rightarrow> bool \<Rightarrow> bool \<Rightarrow> bool \<Rightarrow> string res" where
  "validate_domain_name value allow_trailing_dot allow_underscore allow_slash require_multi_label =
     (if value = [] then Inl (ValueError ''domain must be a non-empty string'')
      else
        let had_trailing_dot = ends_with ''.'' value;
            candidate = (if had_trailing_dot then butlast value else value);
            labels = split_on (CHR ''.'') candidate in
        checks
          ([(had_trailing_dot \<and> \<not> allow_trailing_dot, ValueError (repr_str value @ '' must not end with dot'')),
            (candidate = [], ValueError (repr_str value @ '' has no labels'')),
            (253 < length candidate,
             ValueError (''domain length '' @ str_int (int (length candidate)) @ '' exceeds RFC 1035 limit (253)'')),
            (require_multi_label \<and> length labels < 2,
             ValueError (repr_str value @ '' must contain at least two labels''))]
           @ map (\<lambda>label. (\<not> label_ok allow_underscore allow_slash label,
               ValueError (if label = [] then repr_str value @ '' has an empty label''
                           else repr_str value @ '' contains invalid label '' @ repr_str label))) labels)
          value)"

definition validate_hostname :: "string \<Rightarrow> string res" where
  "validate_hostname value =
     (if CHR ''.'' \<in> set value then Inl (ValueError (repr_str value @ '' must not contain a dot''))
      else validate_domain_name value False False False False)"

definition is_domain_name :: "string \<Rightarrow> bool" where
  "is_domain_name value =
     (case validate_domain_name value True False False True of Inl _ \<Rightarrow> False | Inr _ \<Rightarrow> True)"

definition rstrip_dots :: "string \<Rightarrow> string" where
  "rstrip_dots s = rev (dropWhile (\<lambda>c. c = CHR ''.'') (rev s))"

definition is_dn42_zone :: "string \<Rightarrow> bool" where
  "is_dn42_zone value \<longleftrightarrow>
     is_domain_name value \<and>
     (let candidate = lower (rstrip_dots value); parts = split_on (CHR ''.'') candidate in
      last parts \<in> set [''dn42'', ''neo''] \<or> ends_with ''in-addr.arpa'' candidate
      \<or> ends_with ''ip6.arpa'' candidate)"

section \<open>validators/wireguard.py\<close>

definition is_base64_char :: "char \<Rightarrow> bool" where
  "is_base64_char c \<longleftrightarrow> is_alnum c \<or> c = CHR ''+'' \<or> c = CHR ''/''"

text \<open>Four characters decode to three bytes, less one for each padding character.\<close>

definition base64_length :: "string \<Rightarrow> nat" where
  "base64_length s = 3 * (length s div 4) - length (filter (\<lambda>c. c = CHR ''='') s)"

definition validate_wireguard_key :: "string \<Rightarrow> string res" where
  "validate_wireguard_key value =
     checks
       [(length value \<noteq> 44, ValueError ''wireguard key must be exactly 44 characters of base64''),
        (\<not> (list_all is_base64_char (butlast value) \<and> last value = CHR ''=''),
         ValueError ''wireguard key contains characters outside base64 alphabet''),
        (base64_length value \<noteq> 32, ValueError ''wireguard key does not decode to 32 bytes'')] value"

definition is_wireguard_key :: "string \<Rightarrow> bool" where
  "is_wireguard_key value = (case validate_wireguard_key value of Inl _ \<Rightarrow> False | Inr _ \<Rightarrow> True)"

definition is_endpoint_v6_char :: "char \<Rightarrow> bool" where
  "is_endpoint_v6_char c \<longleftrightarrow> hex_digit c \<noteq> None \<or> c = CHR '':'' \<or> c = CHR ''%'' \<or> c = CHR ''.''"

definition is_endpoint_host_char :: "char \<Rightarrow> bool" where
  "is_endpoint_host_char c \<longleftrightarrow> is_alnum c \<or> c = CHR ''.'' \<or> c = CHR ''_'' \<or> c = CHR ''-''"

text \<open>\<open>(\d{1,5})$\<close>: in a Python pattern \<open>$\<close> also matches before a final newline.\<close>

definition endpoint_port :: "string \<Rightarrow> int option" where
  "endpoint_port s =
     (let digits = (if s \<noteq> [] \<and> last s = CHR 0x0A then butlast s else s) in
      if isdigit digits \<and> length digits \<le> 5 then Some (int_of_digits digits) else None)"

definition match_endpoint :: "string \<Rightarrow> int option" where
  "match_endpoint s =
     (if starts_with ''['' s
      then let host = takeWhile is_endpoint_v6_char (tl s); rest = dropWhile is_endpoint_v6_char (tl s) in
           if host \<noteq> [] \<and> starts_with '']:'' rest then endpoint_port (drop 2 rest) else None
      else let host = takeWhile is_endpoint_host_char s; rest = dropWhile is_endpoint_host_char s in
           if host \<noteq> [] \<and> starts_with '':'' rest then endpoint_port (drop 1 rest) else None)"

definition validate_wireguard_endpoint :: "string \<Rightarrow> string res" where
  "validate_wireguard_endpoint value =
     (if value = [] then Inl (ValueError ''wireguard endpoint must be a non-empty string'')
      else case match_endpoint value of
        None \<Rightarrow> Inl (ValueError (repr_str value @ '' is not a valid wireguard endpoint''))
      | Some port \<Rightarrow>
          if \<not> (1 \<le> port \<and> port \<le> 65535)
          then Inl (ValueError (''wireguard endpoint port '' @ str_int port @ '' out of range''))
          else Inr value)"

text \<open>A trailing newline passes the endpoint pattern.\<close>

lemma endpoint_accepts_trailing_newline:
  "validate_wireguard_endpoint (''peer.dn42:51820'' @ [CHR 0x0A]) = Inr (''peer.dn42:51820'' @ [CHR 0x0A])"
  by code_simp

section \<open>Round trip of IPv4 networks\<close>

lemma octet_roundtrip:
  assumes "0 \<le> n" "n < 256"
  shows "parse_octet (str_int n) = Some n" "CHR ''.'' \<notin> set (str_int n)" "CHR ''/'' \<notin> set (str_int n)"
proof -
  have len: "length (str_int n) \<le> 3"
    using assms by (simp add: str_int_def digits_of.simps [of n] digits_of.simps [of "n div 10"]
        digits_of.simps [of "n div 10 div 10"])
  have "str_int n = ''0'' \<or> hd (str_int n) \<noteq> CHR ''0''"
    using hd_digits_of [of n] assms by (cases "n = 0") (auto simp: str_int_def digits_of.simps [of 0])
  then show "parse_octet (str_int n) = Some n"
    using len str_int_read [of n] assms by (auto simp: parse_octet_def Let_def)
  show "CHR ''.'' \<notin> set (str_int n)" "CHR ''/'' \<notin> set (str_int n)"
    by (rule str_int_chars; simp add: assms is_digit_def)+
qed

lemma v4_prefix_roundtrip:
  assumes "p \<le> 32"
  shows "v4_prefix (str_int (int p)) = Some p" "CHR ''/'' \<notin> set (str_int (int p))"
  using assms str_int_read [of "int p"] str_int_chars [of "int p" "CHR ''/''"]
  by (auto simp: v4_prefix_def Let_def is_digit_def)

lemma str_ipv4_octets:
  "str_ipv4 n = join ''.'' [str_int (n div 16777216 mod 256), str_int (n div 65536 mod 256),
                            str_int (n div 256 mod 256), str_int (n mod 256)]"
  by (simp add: str_ipv4_def)

lemma octets_value:
  fixes n :: int
  assumes "0 \<le> n" "n < 2 ^ 32"
  shows "256 * (256 * (256 * (n div 16777216 mod 256) + n div 65536 mod 256) + n div 256 mod 256) + n mod 256 = n"
proof -
  have d: "n div 65536 = n div 256 div 256" "n div 16777216 = n div 256 div 256 div 256"
    by (simp_all flip: zdiv_zmult2_eq)
  have "n div 16777216 \<le> 4294967295 div 16777216" using assms by (intro zdiv_mono1) auto
  then have "n div 16777216 < 256" by simp
  then have "n div 16777216 mod 256 = n div 16777216" using assms by (simp add: pos_imp_zdiv_nonneg_iff)
  moreover define a b c r0 r1 r2 where v: "a = n div 256" "b = a div 256" "c = b div 256"
    "r0 = n mod 256" "r1 = a mod 256" "r2 = b mod 256"
  have e: "a * 256 + r0 = n" "b * 256 + r1 = a" "c * 256 + r2 = b" unfolding v by simp_all
  have "256 * (256 * (256 * c + r2) + r1) + r0 = n"
    unfolding e(1) [symmetric] e(2) [symmetric] e(3) [symmetric] by (simp add: algebra_simps)
  ultimately show ?thesis unfolding d v by (simp only:)
qed

lemma octet_list_roundtrip:
  assumes "\<And>x. x \<in> set os \<Longrightarrow> 0 \<le> x \<and> x < 256" "os \<noteq> []"
  shows "map parse_octet (split_on (CHR ''.'') (join ''.'' (map str_int os))) = map Some os"
proof -
  have "split_on (CHR ''.'') (join ''.'' (map str_int os)) = map str_int os"
    using assms octet_roundtrip(2) by (intro split_on_join) auto
  then show ?thesis using assms(1) octet_roundtrip(1) by simp
qed

lemma opt_list_Some: "opt_list (map Some xs) = Some xs"
  by (induction xs) simp_all

lemma parse_str_ipv4:
  assumes "0 \<le> n" "n < 2 ^ 32"
  shows "parse_ipv4 (str_ipv4 n) = Some n"
proof -
  define os where "os = [n div 16777216 mod 256, n div 65536 mod 256, n div 256 mod 256, n mod 256]"
  have bound: "0 \<le> x \<and> x < 256" if "x \<in> set os" for x using that unfolding os_def by auto
  have s: "str_ipv4 n = join ''.'' (map str_int os)" unfolding str_ipv4_octets os_def by (simp only: list.map)
  have ne: "os \<noteq> []" "length os = 4" by (simp_all add: os_def)
  have m: "map parse_octet (split_on (CHR ''.'') (str_ipv4 n)) = map Some os"
    unfolding s by (rule octet_list_roundtrip [OF bound ne(1)])
  then have "length (split_on (CHR ''.'') (str_ipv4 n)) = 4" using ne(2) by (metis length_map)
  then have "parse_ipv4 (str_ipv4 n) = Some (be_int 256 os)"
    unfolding parse_ipv4_def Let_def m opt_list_Some by (simp only: option.map) simp
  moreover have "be_int 256 os = n"
    by (simp only: os_def be_int_def foldl.simps mult_zero_right add_0 octets_value [OF assms])
  ultimately show ?thesis by (simp only:)
qed

lemma slash_not_in_str_ipv4: "CHR ''/'' \<notin> set (str_ipv4 n)"
  unfolding str_ipv4_octets by (simp add: octet_roundtrip(3))

lemma ipv4_network_wf_roundtrip:
  assumes "wf_net (IPv4Network n p)"
  shows "ip_network (str_net (IPv4Network n p)) = Some (IPv4Network n p)"
proof -
  have wf: "0 \<le> n" "n < 2 ^ 32" "p \<le> 32" "2 ^ (32 - p) dvd n"
    using assms by (auto simp: wf_net_def)
  have "split_on (CHR ''/'') (str_net (IPv4Network n p)) = [str_ipv4 n, str_int (int p)]"
    using slash_not_in_str_ipv4 v4_prefix_roundtrip(2) [OF wf(3)]
    by (simp add: split_on_append split_on_no_sep)
  then have "ip_interface (str_net (IPv4Network n p)) = Some (IPv4Address n, p)"
    by (simp add: ip_interface_def parse_str_ipv4 [OF wf(1,2)] v4_prefix_roundtrip(1) [OF wf(3)] del: str_net.simps)
  then show ?thesis
    using wf(4) by (simp add: ip_network_def make_net_def clear_host_def del: str_net.simps)
qed

text \<open>IPv4 networks survive printing.  Every network the library can hold, host bits clear and
  in range, is read back from its textual form as itself.\<close>

theorem ipv4_network_roundtrip:
  assumes "wf_net (IPv4Network n p)"
  shows "ip_network (str_net (IPv4Network n p)) = Some (IPv4Network n p)"
  by (rule ipv4_network_wf_roundtrip [OF assms])

theorem ipv4_network_roundtrip_witness:
  "ip_network (str_net (v4net 172 20 240 0 20)) = Some (v4net 172 20 240 0 20)"
  unfolding v4net_def by (rule ipv4_network_roundtrip) (simp add: wf_net_def)

section \<open>Accepted DN42 prefixes\<close>

lemma int_of_digits_nonneg: "list_all is_digit s \<Longrightarrow> 0 \<le> int_of_digits s"
proof (induction s rule: rev_induct)
  case (snoc c s)
  have "48 \<le> (of_char c :: nat)" using snoc.prems by (simp add: is_digit_def Let_def)
  then have "48 \<le> (of_char c :: int)" by (metis of_nat_le_iff of_nat_numeral of_nat_of_char)
  then show ?case using snoc by (simp add: int_of_digits_snoc)
qed (simp add: int_of_digits_def)

lemma parse_octet_range: "parse_octet s = Some n \<Longrightarrow> 0 \<le> n \<and> n < 256"
  by (auto simp: parse_octet_def Let_def isdigit_def int_of_digits_nonneg split: if_splits)

lemma opt_list_SomeD: "opt_list xs = Some ys \<Longrightarrow> xs = map Some ys"
  by (induction xs arbitrary: ys rule: opt_list.induct) auto

lemma parse_ipv4_range:
  assumes "parse_ipv4 s = Some n"
  shows "0 \<le> n \<and> n < 2 ^ 32"
proof -
  obtain os where os: "opt_list (map parse_octet (split_on (CHR ''.'') s)) = Some os" "n = be_int 256 os"
    "length (split_on (CHR ''.'') s) = 4"
    using assms by (auto simp: parse_ipv4_def Let_def split: if_splits)
  have m: "map parse_octet (split_on (CHR ''.'') s) = map Some os" using opt_list_SomeD [OF os(1)] .
  then have "length os = 4" using os(3) by (metis length_map)
  then obtain a b c d where abcd: "os = [a, b, c, d]"
    by (auto simp: numeral_eq_Suc length_Suc_conv)
  have "0 \<le> x \<and> x < 256" if "x \<in> set os" for x
  proof -
    have "Some x \<in> set (map parse_octet (split_on (CHR ''.'') s))" using that by (simp add: m)
    then show ?thesis using parse_octet_range by auto
  qed
  then have "0 \<le> a \<and> a < 256" "0 \<le> b \<and> b < 256" "0 \<le> c \<and> c < 256" "0 \<le> d \<and> d < 256"
    by (simp_all add: abcd)
  then show ?thesis by (simp add: os(2) abcd be_int_def)
qed

lemma v4_prefix_le: "v4_prefix s = Some p \<Longrightarrow> p \<le> 32"
  by (auto simp: v4_prefix_def Let_def find_Some_iff split: if_splits option.splits)

lemma ip_network_v4_wf:
  assumes "ip_network s = Some net" "net_version net = 4"
  shows "wf_net net \<and> (\<exists>n p. net = IPv4Network n p)"
proof -
  obtain a p where i: "ip_interface s = Some (a, p)" "net = make_net (addr_version a) (addr_int a) p"
    using assms(1) by (auto simp: ip_network_def)
  have "addr_version a = 4" using assms(2) i(2) by (simp add: make_net_def split: if_splits)
  then obtain n where a: "a = IPv4Address n" by (cases a) auto
  have "(0 \<le> n \<and> n < 2 ^ 32) \<and> p \<le> 32"
    using i(1) a parse_ipv4_range v4_prefix_le
    by (auto simp: ip_interface_def ip_address_def parse_ipv6_scoped_def Let_def
        split: list.splits option.splits if_splits)
  then show ?thesis using i(2) a wf_make_net [of 4 n p] by (simp add: make_net_def)
qed

text \<open>An accepted IPv4 prefix obeys the DN42 policy.  The returned text denotes a network inside
  172.20.0.0/14 that lies in no closed and no reserved block (nor, when they are disallowed, in an anycast
  or transfer block), and validating the returned text again returns it unchanged.\<close>

theorem dn42_prefix_policy:
  assumes "validate_dn42_ipv4_network value anycast transfer = Inr out"
  shows "(\<exists>net. ip_network out = Some net \<and> out = str_net net \<and> network_inside net DN42_IPV4_SPACE \<and>
      \<not> list_ex (network_inside net) (DN42_CLOSED_IPV4_PREFIXES @ DN42_RESERVED_IPV4_PREFIXES) \<and>
      (\<not> anycast \<longrightarrow> \<not> list_ex (network_inside net) DN42_ANYCAST_IPV4_PREFIXES) \<and>
      (\<not> transfer \<longrightarrow> \<not> list_ex (network_inside net) DN42_TRANSFER_IPV4_PREFIXES))
    \<and> validate_dn42_ipv4_network out anycast transfer = Inr out"
proof -
  obtain net where n: "ip_network value = Some net"
    using assms by (auto simp: validate_dn42_ipv4_network_def split: option.splits)
  have c: "out = str_net net" "net_version net = 4" "network_inside net DN42_IPV4_SPACE"
    "\<not> is_dn42_closed_network (str_net net)" "\<not> is_dn42_reserved_network (str_net net)"
    "\<not> (\<not> anycast \<and> is_dn42_anycast_network (str_net net))"
    "\<not> (\<not> transfer \<and> is_dn42_transfer_network (str_net net))"
    using assms unfolding validate_dn42_ipv4_network_def n option.case checks_Inr list.pred_inject fst_conv
    by auto
  have again: "ip_network out = Some net"
    using ip_network_v4_wf [OF n c(2)] ipv4_network_wf_roundtrip c(1) by auto
  have "validate_dn42_ipv4_network out anycast transfer = Inr out"
    unfolding validate_dn42_ipv4_network_def again option.case checks_Inr list.pred_inject fst_conv
    using c by simp
  then show ?thesis
    using again c
    by (auto simp: is_dn42_closed_network_def is_dn42_reserved_network_def is_dn42_anycast_network_def
        is_dn42_transfer_network_def matches_any_def split: if_splits)
qed

theorem dn42_prefix_policy_witness:
  "validate_dn42_ipv4_network ''172.22.129.0/27'' False False = Inr ''172.22.129.0/27''"
proof -
  have "validate_dn42_ipv4_network ''172.22.129.5/27'' False False = Inr ''172.22.129.0/27''" by code_simp
  from dn42_prefix_policy [OF this] show ?thesis by blast
qed

text \<open>A prefix that covers closed and reserved blocks without lying inside one is accepted.\<close>

lemma covering_prefix_accepted:
  "validate_dn42_ipv4_network ''172.20.0.0/14'' True True = Inr ''172.20.0.0/14''"
  "network_inside (v4net 172 23 16 0 21) (v4net 172 20 0 0 14)"
  by code_simp+

end
