(* ===== verification/Runtime_Schema.thy ===== *)
theory Runtime_Schema
  imports Ipaddress
begin

text \<open>
  \<open>dn42_schemas/enums.py\<close> and \<open>dn42_schemas/runtime.py\<close>: the enumerations, the runtime
  service specification with its validators, and the role defaults.

  A Pydantic model is a record; its validators are functions into \<open>'a res\<close> whose branches
  follow the code.  A validator that rejects gives \<open>Inl (ValueError message)\<close>; where the
  message joins a set the model joins the sorted list, as the code does.
\<close>

section \<open>Enumerations\<close>

datatype interface_kind = DUMMY | WIREGUARD | UNDERLAY

datatype service_role = ROUTER_NETNS | WG_GATEWAY | BIRD_ROUTER | RPKI_CACHE | DNS | DEBUG_SHELL

datatype apply_status = SUCCEEDED | FAILED | DEGRADED | SKIPPED

datatype bootstrap_status = ACCEPTED | PENDING_APPROVAL | REJECTED

datatype resource_status = RUNNING | STOPPED | MISSING | RS_DEGRADED | RS_UNKNOWN

datatype drift_severity = INFO | WARNING | CRITICAL

datatype node_health = NH_OK | NH_DEGRADED | NH_STALE | NH_DOWN | NH_UNKNOWN

datatype observation_status = NOT_OBSERVED | UNAVAILABLE | OBSERVED

fun role_value :: "service_role \<Rightarrow> string" where
  "role_value ROUTER_NETNS = ''router-netns''"
| "role_value WG_GATEWAY = ''wg-gateway''"
| "role_value BIRD_ROUTER = ''bird-router''"
| "role_value RPKI_CACHE = ''rpki-cache''"
| "role_value DNS = ''dns''"
| "role_value DEBUG_SHELL = ''debug-shell''"

fun resource_status_value :: "resource_status \<Rightarrow> string" where
  "resource_status_value RUNNING = ''running''"
| "resource_status_value STOPPED = ''stopped''"
| "resource_status_value MISSING = ''missing''"
| "resource_status_value RS_DEGRADED = ''degraded''"
| "resource_status_value RS_UNKNOWN = ''unknown''"

fun apply_status_value :: "apply_status \<Rightarrow> string" where
  "apply_status_value SUCCEEDED = ''succeeded''"
| "apply_status_value FAILED = ''failed''"
| "apply_status_value DEGRADED = ''degraded''"
| "apply_status_value SKIPPED = ''skipped''"

fun severity_value :: "drift_severity \<Rightarrow> string" where
  "severity_value INFO = ''info''"
| "severity_value WARNING = ''warning''"
| "severity_value CRITICAL = ''critical''"

text \<open>Severities are ordered as alarm thresholds.\<close>

fun severity_rank :: "drift_severity \<Rightarrow> nat" where
  "severity_rank INFO = 0" | "severity_rank WARNING = 1" | "severity_rank CRITICAL = 2"

lemma severity_rank_inj: "severity_rank a = severity_rank b \<longleftrightarrow> a = b"
  by (cases a; cases b) auto

instantiation drift_severity :: linorder
begin

definition less_eq_drift_severity :: "drift_severity \<Rightarrow> drift_severity \<Rightarrow> bool" where
  "less_eq_drift_severity a b \<longleftrightarrow> severity_rank a \<le> severity_rank b"

definition less_drift_severity :: "drift_severity \<Rightarrow> drift_severity \<Rightarrow> bool" where
  "less_drift_severity a b \<longleftrightarrow> severity_rank a < severity_rank b"

instance
  by standard (auto simp: less_eq_drift_severity_def less_drift_severity_def severity_rank_inj)

end

lemma CRITICAL_max: "s \<le> CRITICAL"
  by (cases s) (auto simp: less_eq_drift_severity_def)

section \<open>Specifications\<close>

record volume_mount =
  vm_source :: string
  vm_target :: string
  vm_readonly :: bool

record health_check =
  hc_test :: "string list"
  hc_interval_seconds :: int
  hc_timeout_seconds :: int
  hc_retries :: int
  hc_start_period_seconds :: int

record build_spec =
  bs_target :: "string option"
  bs_args :: "(string \<times> string) list"

record port_publish =
  pp_container_port :: int
  pp_container_port_end :: "int option"
  pp_host_port :: "int option"
  pp_host_port_end :: "int option"
  pp_protocol :: string
  pp_host_ip :: "string option"

record runtime_service =
  svc_name :: string
  svc_role :: service_role
  svc_image :: "string option"
  svc_build :: "build_spec option"
  svc_ipv4_address :: "string option"
  svc_command :: "string list"
  svc_environment :: "(string \<times> string) list"
  svc_ports :: "port_publish list"
  svc_network_mode :: "string option"
  svc_cap_add :: "string list"
  svc_devices :: "string list"
  svc_sysctls :: "(string \<times> string) list"
  svc_volumes :: "volume_mount list"
  svc_depends_on :: "string list"
  svc_healthcheck :: "health_check option"
  svc_enabled :: bool

record underlay_network =
  ul_name :: string
  ul_subnet :: string
  ul_gateway :: string
  ul_ipv6_subnet :: "string option"
  ul_ipv6_gateway :: "string option"

record wg_port_range =
  wr_start :: int
  wr_end :: int
  wr_host_start :: "int option"
  wr_host_ip :: "string option"

record rpki_spec =
  rpki_enabled :: bool
  rpki_cache_url :: string
  rpki_listen_host :: string
  rpki_listen_port :: int

record router_dockerfile =
  rd_base_image :: string
  rd_debian_mirror :: string

record router_runtime =
  rt_project_name :: "string option"
  rt_underlay :: underlay_network
  rt_rpki :: rpki_spec
  rt_router_dockerfile :: router_dockerfile
  rt_wireguard_port_range :: "wg_port_range option"
  rt_services :: "runtime_service list"

text \<open>Truthiness of an optional string: \<open>None\<close> and the empty string are false.\<close>

definition truthy :: "string option \<Rightarrow> bool" where
  "truthy x \<longleftrightarrow> x \<noteq> None \<and> x \<noteq> Some []"

lemma truthy_simps [simp]: "\<not> truthy None" "truthy (Some s) \<longleftrightarrow> s \<noteq> []"
  by (simp_all add: truthy_def)

definition port_ok :: "int \<Rightarrow> bool" where
  "port_ok n \<longleftrightarrow> 1 \<le> n \<and> n \<le> 65535"

definition opt_ok :: "('a \<Rightarrow> bool) \<Rightarrow> 'a option \<Rightarrow> bool" where
  "opt_ok p x \<longleftrightarrow> (case x of None \<Rightarrow> True | Some y \<Rightarrow> p y)"

lemma opt_ok_simps [simp]: "opt_ok p None" "opt_ok p (Some y) = p y"
  by (simp_all add: opt_ok_def)

section \<open>Published ports\<close>

definition validate_protocol :: "string \<Rightarrow> string res" where
  "validate_protocol value =
     (let normalized = lower (strip value) in
      if normalized \<notin> set [''tcp'', ''udp'', ''sctp'']
      then Inl (ValueError ''port protocol must be tcp, udp, or sctp'') else Inr normalized)"

text \<open>\<open>_ \<or> 0\<close> on an optional port.\<close>

definition or_zero :: "int option \<Rightarrow> int" where
  "or_zero x = (case x of Some n \<Rightarrow> n | None \<Rightarrow> 0)"

definition default_host_end :: "port_publish \<Rightarrow> port_publish" where
  "default_host_end p =
     (case (pp_host_port p, pp_host_port_end p, pp_container_port_end p) of
        (Some hp, None, Some ce) \<Rightarrow> p\<lparr>pp_host_port_end := Some (hp + (ce - pp_container_port p))\<rparr>
      | _ \<Rightarrow> p)"

definition validate_ranges :: "port_publish \<Rightarrow> port_publish res" where
  "validate_ranges p =
     (let q = default_host_end p; lt = (\<lambda>x n. case x of Some e \<Rightarrow> e < n | None \<Rightarrow> False) in
      checks
        [(lt (pp_container_port_end p) (pp_container_port p),
          ValueError ''container_port_end must be greater than or equal to container_port''),
         (pp_host_port_end p \<noteq> None \<and> pp_host_port p = None,
          ValueError ''host_port_end requires host_port''),
         (\<not> opt_ok (\<lambda>e. e \<le> 65535) (pp_host_port_end q),
          ValueError ''host_port_end must be less than or equal to 65535''),
         (lt (pp_host_port_end q) (or_zero (pp_host_port q)),
          ValueError ''host_port_end must be greater than or equal to host_port''),
         (case (pp_container_port_end q, pp_host_port_end q, pp_host_port q) of
            (Some ce, Some he, Some hp) \<Rightarrow> ce - pp_container_port q \<noteq> he - hp
          | _ \<Rightarrow> False,
          ValueError ''host and container port ranges must have the same size'')] q)"

definition validate_host_ip :: "string option \<Rightarrow> string option res" where
  "validate_host_ip v =
     (case v of
        Some s \<Rightarrow> if ip_address s = None then Inl (ValueError s) else Inr v
      | None \<Rightarrow> Inr None)"

text \<open>Construction: the \<open>Field\<close> bounds and the field validators, then the model validator.\<close>

definition new_port_publish :: "port_publish \<Rightarrow> port_publish res" where
  "new_port_publish p =
     rbind (validate_protocol (pp_protocol p)) (\<lambda>proto.
     rbind (validate_host_ip (pp_host_ip p)) (\<lambda>_.
     rbind (checks
       [(\<not> port_ok (pp_container_port p), ValueError ''container_port''),
        (\<not> opt_ok port_ok (pp_container_port_end p), ValueError ''container_port_end''),
        (\<not> opt_ok port_ok (pp_host_port p), ValueError ''host_port''),
        (\<not> opt_ok port_ok (pp_host_port_end p), ValueError ''host_port_end'')] (p\<lparr>pp_protocol := proto\<rparr>))
      validate_ranges))"

definition published_host_ports :: "port_publish \<Rightarrow> int list" where
  "published_host_ports p =
     (case pp_host_port p of
        None \<Rightarrow> []
      | Some hp \<Rightarrow> [hp .. (case pp_host_port_end p of Some e \<Rightarrow> e | None \<Rightarrow> hp)])"

definition render_port_publish :: "port_publish \<Rightarrow> string" where
  "render_port_publish p =
     (let range = (\<lambda>a e. case e of
            Some b \<Rightarrow> if b \<noteq> a then str_int a @ ''-'' @ str_int b else str_int a
          | None \<Rightarrow> str_int a);
          prefix0 = (case pp_host_port p of Some hp \<Rightarrow> range hp (pp_host_port_end p) @ '':'' | None \<Rightarrow> []);
          prefix = (case pp_host_ip p of Some ip \<Rightarrow> ip @ '':'' @ prefix0 | None \<Rightarrow> prefix0);
          container = range (pp_container_port p) (pp_container_port_end p) in
      if pp_protocol p \<noteq> ''tcp'' then prefix @ container @ ''/'' @ pp_protocol p else prefix @ container)"

section \<open>Networks and port ranges\<close>

definition validate_underlay :: "underlay_network \<Rightarrow> underlay_network res" where
  "validate_underlay u =
     checks
       [(ip_network (ul_subnet u) = None, ValueError (ul_subnet u)),
        (\<not> opt_ok (\<lambda>s. ip_network s \<noteq> None) (ul_ipv6_subnet u), ValueError ''ipv6_subnet''),
        (\<not> opt_ok (\<lambda>s. ip_address s \<noteq> None) (ul_ipv6_gateway u), ValueError ''ipv6_gateway''),
        (truthy (ul_ipv6_subnet u) \<and> \<not> truthy (ul_ipv6_gateway u),
         ValueError ''ipv6_gateway is required when ipv6_subnet is set'')] u"

definition validate_wg_port_range :: "wg_port_range \<Rightarrow> wg_port_range res" where
  "validate_wg_port_range w =
     checks
       [(\<not> port_ok (wr_start w), ValueError ''start''), (\<not> port_ok (wr_end w), ValueError ''end''),
        (\<not> opt_ok port_ok (wr_host_start w), ValueError ''host_start''),
        (\<not> opt_ok (\<lambda>s. ip_address s \<noteq> None) (wr_host_ip w), ValueError ''host_ip''),
        (wr_end w < wr_start w,
         ValueError ''wireguard port range end must be greater than or equal to start''),
        (\<not> opt_ok (\<lambda>h. h + (wr_end w - wr_start w) \<le> 65535) (wr_host_start w),
         ValueError ''wireguard host port range exceeds 65535'')] w"

definition effective_host_start :: "wg_port_range \<Rightarrow> int" where
  "effective_host_start w =
     (case wr_host_start w of Some h \<Rightarrow> if h = 0 then wr_start w else h | None \<Rightarrow> wr_start w)"

definition effective_host_end :: "wg_port_range \<Rightarrow> int" where
  "effective_host_end w = effective_host_start w + (wr_end w - wr_start w)"

definition port_range_contains :: "wg_port_range \<Rightarrow> int \<Rightarrow> bool" where
  "port_range_contains w port \<longleftrightarrow> wr_start w \<le> port \<and> port \<le> wr_end w"

definition validate_project_name :: "string option \<Rightarrow> string option res" where
  "validate_project_name v =
     (case v of
        None \<Rightarrow> Inr None
      | Some value \<Rightarrow>
          let normalized = strip value; head_ok = (\<lambda>c. is_lower c \<or> is_digit c) in
          if normalized \<noteq> [] \<and> head_ok (hd normalized)
             \<and> list_all (\<lambda>c. head_ok c \<or> c = CHR ''_'' \<or> c = CHR ''-'') (tl normalized)
          then Inr (Some normalized)
          else Inl (ValueError ''project_name must contain only lowercase letters, digits, underscores, and hyphens''))"

section \<open>Role defaults\<close>

fun role_default_cap_add :: "service_role \<Rightarrow> string list" where
  "role_default_cap_add ROUTER_NETNS = [''NET_ADMIN'', ''NET_RAW'']"
| "role_default_cap_add WG_GATEWAY = [''NET_ADMIN'', ''NET_RAW'']"
| "role_default_cap_add BIRD_ROUTER = [''NET_ADMIN'', ''NET_RAW'']"
| "role_default_cap_add DEBUG_SHELL = [''NET_ADMIN'', ''NET_RAW'']"
| "role_default_cap_add _ = []"

fun role_default_sysctls :: "service_role \<Rightarrow> (string \<times> string) list" where
  "role_default_sysctls ROUTER_NETNS =
     [(''net.ipv4.conf.all.rp_filter'', ''0''), (''net.ipv4.conf.default.rp_filter'', ''0''),
      (''net.ipv4.ip_forward'', ''1''), (''net.ipv6.conf.all.forwarding'', ''1''),
      (''net.ipv6.conf.default.forwarding'', ''1'')]"
| "role_default_sysctls _ = []"

definition resolve_service_cap_add :: "runtime_service \<Rightarrow> string list" where
  "resolve_service_cap_add s =
     (if svc_cap_add s \<noteq> [] then svc_cap_add s else role_default_cap_add (svc_role s))"

definition resolve_service_sysctls :: "runtime_service \<Rightarrow> (string \<times> string) list" where
  "resolve_service_sysctls s =
     (if svc_sysctls s \<noteq> [] then svc_sysctls s else role_default_sysctls (svc_role s))"

definition role_default_healthcheck :: "service_role \<Rightarrow> router_runtime \<Rightarrow> health_check option" where
  "role_default_healthcheck role runtime =
     (if role = RPKI_CACHE \<and> rpki_enabled (rt_rpki runtime)
      then Some \<lparr>hc_test = [''CMD-SHELL'', ''nc -z 127.0.0.1 '' @ str_int (rpki_listen_port (rt_rpki runtime))],
                 hc_interval_seconds = 30, hc_timeout_seconds = 5, hc_retries = 5,
                 hc_start_period_seconds = 20\<rparr>
      else if role = BIRD_ROUTER
      then Some \<lparr>hc_test = [''CMD-SHELL'', ''birdc show status >/dev/null 2>&1''],
                 hc_interval_seconds = 30, hc_timeout_seconds = 5, hc_retries = 3,
                 hc_start_period_seconds = 60\<rparr>
      else None)"

definition resolve_service_healthcheck :: "router_runtime \<Rightarrow> runtime_service \<Rightarrow> health_check option" where
  "resolve_service_healthcheck runtime s =
     (case svc_healthcheck s of Some h \<Rightarrow> Some h | None \<Rightarrow> role_default_healthcheck (svc_role s) runtime)"

text \<open>\<open>ipaddress.ip_address\<close> on an integer: IPv4 below \<open>2 ^ 32\<close>.\<close>

definition ip_address_of_int :: "int \<Rightarrow> ip_addr option" where
  "ip_address_of_int n =
     (if n < 0 \<or> 2 ^ 128 \<le> n then None
      else if n < 2 ^ 32 then Some (IPv4Address n) else Some (IPv6Address n None))"

text \<open>\<open>None\<close> of the outer option is the \<open>ValueError\<close> of an unparsable address.\<close>

definition resolve_service_ipv4 :: "router_runtime \<Rightarrow> runtime_service \<Rightarrow> string option res" where
  "resolve_service_ipv4 runtime s =
     (case svc_ipv4_address s of
        Some a \<Rightarrow> Inr (Some a)
      | None \<Rightarrow>
          if svc_role s = RPKI_CACHE \<and> rpki_enabled (rt_rpki runtime)
          then Inr (Some (rpki_listen_host (rt_rpki runtime)))
          else if svc_role s = ROUTER_NETNS
          then (case (ip_network (ul_subnet (rt_underlay runtime)), ip_address (ul_gateway (rt_underlay runtime))) of
                  (Some network, Some gateway) \<Rightarrow>
                    (case ip_address_of_int (addr_int gateway + 1) of
                       Some candidate \<Rightarrow>
                         Inr (if addr_in_net candidate network then Some (str_addr candidate) else None)
                     | None \<Rightarrow> Inl (ValueError ''address out of range''))
                | _ \<Rightarrow> Inl (ValueError ''invalid underlay''))
          else Inr None)"

section \<open>The service list\<close>

definition network_mode_service :: "string option \<Rightarrow> string option" where
  "network_mode_service m =
     (case m of
        Some s \<Rightarrow> if starts_with ''service:'' s then Some (drop (length ''service:'') s) else None
      | None \<Rightarrow> None)"

definition required_volume_targets :: "service_role \<Rightarrow> string list" where
  "required_volume_targets role =
     (if role = WG_GATEWAY then [''/opt/dn42/scripts'', ''/etc/wireguard'']
      else if role = BIRD_ROUTER then [''/opt/dn42/scripts'', ''/etc/bird''] else [])"

text \<open>No role has a required writable volume, so the last loop of the code has no iteration.\<close>

definition validate_role_requirements :: "runtime_service \<Rightarrow> unit res" where
  "validate_role_requirements s =
     checks
       ([(svc_role s \<in> set [WG_GATEWAY, BIRD_ROUTER] \<and> svc_command s = [],
          ValueError (''runtime service '' @ svc_name s @ '' role '' @ role_value (svc_role s) @ '' requires command''))]
        @ map (\<lambda>proto.
            (svc_role s = DNS \<and> \<not> truthy (svc_network_mode s)
               \<and> (53, proto) \<notin> set (map (\<lambda>p. (pp_container_port p, pp_protocol p)) (svc_ports s)),
             ValueError (''runtime service '' @ svc_name s @ '' role dns must publish container port 53/'' @ proto)))
            [''udp'', ''tcp'']
        @ map (\<lambda>target.
            (target \<notin> set (map vm_target (svc_volumes s)),
             ValueError (''runtime service '' @ svc_name s @ '' role '' @ role_value (svc_role s)
                         @ '' requires volume target '' @ target)))
            (required_volume_targets (svc_role s))) ()"

type_synonym port_key = "string option \<times> int \<times> string"

definition claim_port ::
  "string \<Rightarrow> port_publish \<Rightarrow> (port_key \<times> string) list \<Rightarrow> int \<Rightarrow> (port_key \<times> string) list res" where
  "claim_port name p assigned host_port =
     (let key = (pp_host_ip p, host_port, pp_protocol p) in
      case map_of assigned key of
        Some other \<Rightarrow> Inl (ValueError (''runtime services '' @ other @ '' and '' @ name @ '' share published port ''
                                       @ render_port_publish p))
      | None \<Rightarrow> Inr (dput key name assigned))"

definition claim_service_ports ::
  "(port_key \<times> string) list \<Rightarrow> runtime_service \<Rightarrow> (port_key \<times> string) list res" where
  "claim_service_ports assigned s =
     (if truthy (svc_network_mode s) \<and> svc_ports s \<noteq> []
      then Inl (ValueError (''runtime service '' @ svc_name s @ '' must not publish ports when using network_mode''))
      else rfold (\<lambda>as p. rfold (claim_port (svc_name s) p) as (published_host_ports p)) assigned (svc_ports s))"

definition validate_service_ports :: "runtime_service list \<Rightarrow> unit res" where
  "validate_service_ports services = rbind (rfold claim_service_ports [] services) (\<lambda>_. Inr ())"

definition claim_address ::
  "router_runtime \<Rightarrow> ip_net \<Rightarrow> ip_addr \<Rightarrow> (string \<times> string) list \<Rightarrow> runtime_service \<Rightarrow> (string \<times> string) list res" where
  "claim_address runtime network gateway assigned s =
     (if truthy (svc_network_mode s) \<and> truthy (svc_ipv4_address s)
      then Inl (ValueError (''runtime service '' @ svc_name s @ '' must not set ipv4_address when using network_mode''))
      else rbind (validate_role_requirements s) (\<lambda>_.
           rbind (resolve_service_ipv4 runtime s) (\<lambda>resolved.
             case resolved of
               None \<Rightarrow> Inr assigned
             | Some a \<Rightarrow>
                 (case ip_address a of
                    None \<Rightarrow> Inl (ValueError a)
                  | Some parsed \<Rightarrow>
                      checks
                        [(\<not> addr_in_net parsed network,
                          ValueError (''runtime service '' @ svc_name s @ '' ipv4_address must belong to underlay subnet'')),
                         (parsed = gateway,
                          ValueError (''runtime service '' @ svc_name s @ '' ipv4_address must not equal underlay gateway'')),
                         (a \<in> fst ` set assigned,
                          ValueError (''runtime services share ipv4_address '' @ a))]
                        (dput a (svc_name s) assigned)))))"

definition enabled_services :: "router_runtime \<Rightarrow> runtime_service list" where
  "enabled_services runtime = filter svc_enabled (rt_services runtime)"

definition service_list_checks :: "router_runtime \<Rightarrow> (bool \<times> exc) list" where
  "service_list_checks runtime =
     (let enabled = enabled_services runtime;
          names = map svc_name (rt_services runtime);
          missing = sort (map role_value (filter (\<lambda>r. r \<notin> set (map svc_role enabled))
                            [ROUTER_NETNS, WG_GATEWAY, BIRD_ROUTER]));
          known = map svc_name enabled;
          missing_deps = sort (filter (\<lambda>d. d \<notin> set known) (concat (map svc_depends_on enabled)));
          targets = map (\<lambda>s. network_mode_service (svc_network_mode s)) enabled;
          missing_nets = sort (map the (filter (\<lambda>t. truthy t \<and> the t \<notin> set known) targets)) in
      [(length names \<noteq> length (remdups names), ValueError ''runtime service names must be unique''),
       (missing \<noteq> [], ValueError (''missing required runtime service roles: '' @ join '', '' missing)),
       (missing_deps \<noteq> [], ValueError (''runtime services depend on unknown services: '' @ join '', '' missing_deps)),
       (missing_nets \<noteq> [],
        ValueError (''runtime services use unknown network_mode services: '' @ join '', '' missing_nets))])"

definition validate_services :: "router_runtime \<Rightarrow> router_runtime res" where
  "validate_services runtime =
     rbind (checks (service_list_checks runtime) ()) (\<lambda>_.
       case (ip_network (ul_subnet (rt_underlay runtime)), ip_address (ul_gateway (rt_underlay runtime))) of
         (Some network, Some gateway) \<Rightarrow>
           rbind (rfold (claim_address runtime network gateway) [] (enabled_services runtime)) (\<lambda>_.
           rbind (validate_service_ports (enabled_services runtime)) (\<lambda>_. Inr runtime))
       | _ \<Rightarrow> Inl (ValueError ''invalid underlay''))"

section \<open>What a validated runtime guarantees\<close>

definition service_port_keys :: "runtime_service \<Rightarrow> port_key list" where
  "service_port_keys s =
     concat (map (\<lambda>p. map (\<lambda>hp. (pp_host_ip p, hp, pp_protocol p)) (published_host_ports p)) (svc_ports s))"

text \<open>A claiming loop extends the table by exactly the keys it goes through, all of them new.\<close>

definition claims_exactly :: "('k \<times> string) list res \<Rightarrow> ('k \<times> string) list \<Rightarrow> 'k list \<Rightarrow> bool" where
  "claims_exactly r as ks \<longleftrightarrow>
     (\<forall>as'. r = Inr as' \<longrightarrow> map fst as' = map fst as @ ks \<and> (distinct (map fst as) \<longrightarrow> distinct (map fst as')))"

lemma claims_exactly_rfold:
  assumes "\<And>as x. x \<in> set xs \<Longrightarrow> claims_exactly (f as x) as (g x)"
  shows "claims_exactly (rfold f as xs) as (concat (map g xs))"
  using assms
proof (induction xs arbitrary: as)
  case (Cons x xs)
  show ?case unfolding claims_exactly_def
  proof (intro allI impI)
    fix as' assume r: "rfold f as (x # xs) = Inr as'"
    then obtain t where t: "f as x = Inr t" "rfold f t xs = Inr as'"
      by (auto simp: rbind_Inr_iff)
    have h1: "map fst t = map fst as @ g x" "distinct (map fst as) \<Longrightarrow> distinct (map fst t)"
      using Cons.prems [OF list.set_intros(1), of as] t(1) unfolding claims_exactly_def by blast+
    have "claims_exactly (rfold f t xs) t (concat (map g xs))"
      by (rule Cons.IH) (rule Cons.prems, simp)
    then have h2: "map fst as' = map fst t @ concat (map g xs)" "distinct (map fst t) \<Longrightarrow> distinct (map fst as')"
      using t(2) unfolding claims_exactly_def by blast+
    show "map fst as' = map fst as @ concat (map g (x # xs))
        \<and> (distinct (map fst as) \<longrightarrow> distinct (map fst as'))"
      using h1(2) h2(2) by (simp only: h2(1) h1(1) append_assoc list.map concat.simps) blast
  qed
qed (auto simp: claims_exactly_def)

lemma claims_exactly_Nil: "claims_exactly (Inr as) [] ks \<Longrightarrow> map fst as = ks \<and> distinct (map fst as)"
  by (auto simp: claims_exactly_def)

lemma claim_port_exactly:
  "claims_exactly (claim_port n p as hp) as [(pp_host_ip p, hp, pp_protocol p)]"
  by (auto simp: claims_exactly_def claim_port_def Let_def dput_new map_of_eq_None_iff split: option.splits)

lemma claim_service_ports_exactly: "claims_exactly (claim_service_ports as s) as (service_port_keys s)"
proof -
  have one: "claims_exactly (rfold (claim_port (svc_name s) p) as (published_host_ports p)) as
      (map (\<lambda>hp. (pp_host_ip p, hp, pp_protocol p)) (published_host_ports p))" for p as
  proof -
    have "claims_exactly (rfold (claim_port (svc_name s) p) as (published_host_ports p)) as
        (concat (map (\<lambda>hp. [(pp_host_ip p, hp, pp_protocol p)]) (published_host_ports p)))"
      by (rule claims_exactly_rfold) (rule claim_port_exactly)
    then show ?thesis by (simp only: concat_map_singleton)
  qed
  have all: "claims_exactly
      (rfold (\<lambda>as p. rfold (claim_port (svc_name s) p) as (published_host_ports p)) as (svc_ports s))
      as (service_port_keys s)"
    unfolding service_port_keys_def by (rule claims_exactly_rfold) (rule one)
  show ?thesis
  proof (cases "truthy (svc_network_mode s) \<and> svc_ports s \<noteq> []")
    case True
    then show ?thesis by (simp add: claim_service_ports_def claims_exactly_def)
  next
    case False
    then have "claim_service_ports as s =
        rfold (\<lambda>as p. rfold (claim_port (svc_name s) p) as (published_host_ports p)) as (svc_ports s)"
      by (simp only: claim_service_ports_def if_False)
    then show ?thesis using all by (simp only:)
  qed
qed

definition service_address :: "router_runtime \<Rightarrow> runtime_service \<Rightarrow> string list" where
  "service_address runtime s =
     (case resolve_service_ipv4 runtime s of Inr (Some a) \<Rightarrow> [a] | _ \<Rightarrow> [])"

lemma claim_addressE:
  assumes "claim_address runtime net gw as s = Inr as'"
  obtains (unaddressed) "validate_role_requirements s = Inr ()"
      "\<not> (truthy (svc_network_mode s) \<and> truthy (svc_ipv4_address s))"
      "resolve_service_ipv4 runtime s = Inr None" "as' = as"
  | (addressed) a x where "validate_role_requirements s = Inr ()"
      "\<not> (truthy (svc_network_mode s) \<and> truthy (svc_ipv4_address s))"
      "resolve_service_ipv4 runtime s = Inr (Some a)" "ip_address a = Some x" "addr_in_net x net" "x \<noteq> gw"
      "a \<notin> fst ` set as" "as' = dput a (svc_name s) as"
proof -
  have nm: "\<not> (truthy (svc_network_mode s) \<and> truthy (svc_ipv4_address s))"
    using assms by (auto simp: claim_address_def)
  have rr: "validate_role_requirements s = Inr ()"
    using assms nm by (auto simp: claim_address_def rbind_Inr_iff)
  show thesis
  proof (cases "resolve_service_ipv4 runtime s")
    case (Inl e)
    then show thesis using assms nm rr by (simp add: claim_address_def split: if_splits)
  next
    case (Inr r)
    show thesis
    proof (cases r)
      case None
      then show thesis using assms nm rr Inr unaddressed by (simp add: claim_address_def split: if_splits)
    next
      case (Some a)
      then obtain x where x: "ip_address a = Some x"
        using assms nm rr Inr by (auto simp: claim_address_def split: if_splits option.splits)
      have "addr_in_net x net \<and> x \<noteq> gw \<and> a \<notin> fst ` set as \<and> as' = dput a (svc_name s) as"
        using assms nm rr Inr Some x by (simp add: claim_address_def checks_Inr split: if_splits)
      then show thesis using addressed nm rr Inr Some x by blast
    qed
  qed
qed

lemma claim_address_exactly:
  "claims_exactly (claim_address runtime net gw as s) as (service_address runtime s)"
  unfolding claims_exactly_def
proof (intro allI impI)
  fix as' assume "claim_address runtime net gw as s = Inr as'"
  then show "map fst as' = map fst as @ service_address runtime s \<and>
      (distinct (map fst as) \<longrightarrow> distinct (map fst as'))"
    by (cases rule: claim_addressE) (simp_all add: service_address_def dput_new)
qed

lemma claim_address_ok:
  assumes "claim_address runtime net gw as s = Inr as'"
  shows "validate_role_requirements s = Inr ()"
    and "\<not> (truthy (svc_network_mode s) \<and> truthy (svc_ipv4_address s))"
    and "a \<in> set (service_address runtime s) \<Longrightarrow>
           \<exists>x. ip_address a = Some x \<and> addr_in_net x net \<and> x \<noteq> gw"
  using assms by (auto simp: service_address_def elim!: claim_addressE)

lemma rfold_all:
  assumes "rfold f s xs = Inr s'" "x \<in> set xs"
  shows "\<exists>a b. f a x = Inr b"
  using assms
proof (induction xs arbitrary: s)
  case (Cons y ys)
  then show ?case by (cases "y = x") (auto simp: rbind_Inr_iff)
qed simp

lemma role_requirements_volumes:
  "validate_role_requirements s = Inr () \<Longrightarrow>
   set (required_volume_targets (svc_role s)) \<subseteq> vm_target ` set (svc_volumes s)"
  unfolding validate_role_requirements_def checks_Inr list_all_append list.pred_map comp_def fst_conv
  by (auto simp: list_all_iff)

definition runtime_sound :: "router_runtime \<Rightarrow> bool" where
  "runtime_sound runtime \<longleftrightarrow>
     (let enabled = enabled_services runtime; known = set (map svc_name enabled) in
      distinct (map svc_name (rt_services runtime)) \<and>
      {ROUTER_NETNS, WG_GATEWAY, BIRD_ROUTER} \<subseteq> set (map svc_role enabled) \<and>
      (\<forall>s\<in>set enabled.
         set (svc_depends_on s) \<subseteq> known \<and>
         (\<forall>t. network_mode_service (svc_network_mode s) = Some t \<and> t \<noteq> [] \<longrightarrow> t \<in> known) \<and>
         (truthy (svc_network_mode s) \<longrightarrow> \<not> truthy (svc_ipv4_address s) \<and> svc_ports s = []) \<and>
         set (required_volume_targets (svc_role s)) \<subseteq> vm_target ` set (svc_volumes s)) \<and>
      distinct (concat (map (service_address runtime) enabled)) \<and>
      (\<exists>network gateway. ip_network (ul_subnet (rt_underlay runtime)) = Some network \<and>
         ip_address (ul_gateway (rt_underlay runtime)) = Some gateway \<and>
         (\<forall>a\<in>set (concat (map (service_address runtime) enabled)).
            \<exists>x. ip_address a = Some x \<and> addr_in_net x network \<and> x \<noteq> gateway)) \<and>
      distinct (concat (map service_port_keys enabled)))"

lemma sort_Nil_iff: "sort xs = [] \<longleftrightarrow> xs = []"
  by (metis set_empty set_sort)

lemma validate_services_parts:
  assumes "validate_services runtime = Inr runtime'"
  defines "enabled \<equiv> enabled_services runtime"
  obtains network gateway as ps where "runtime' = runtime"
    "distinct (map svc_name (rt_services runtime))"
    "{ROUTER_NETNS, WG_GATEWAY, BIRD_ROUTER} \<subseteq> svc_role ` set enabled"
    "\<forall>s\<in>set enabled. set (svc_depends_on s) \<subseteq> svc_name ` set enabled"
    "\<forall>s\<in>set enabled. \<forall>t. network_mode_service (svc_network_mode s) = Some t \<and> t \<noteq> [] \<longrightarrow>
       t \<in> svc_name ` set enabled"
    "ip_network (ul_subnet (rt_underlay runtime)) = Some network"
    "ip_address (ul_gateway (rt_underlay runtime)) = Some gateway"
    "rfold (claim_address runtime network gateway) [] enabled = Inr as"
    "rfold claim_service_ports [] enabled = Inr ps"
proof -
  have "checks (service_list_checks runtime) () = Inr ()"
    using assms(1) by (auto simp: validate_services_def rbind_Inr_iff)
  then have e: "distinct (map svc_name (rt_services runtime))"
    "filter (\<lambda>r. r \<notin> set (map svc_role enabled)) [ROUTER_NETNS, WG_GATEWAY, BIRD_ROUTER] = []"
    "filter (\<lambda>d. d \<notin> set (map svc_name enabled)) (concat (map svc_depends_on enabled)) = []"
    "filter (\<lambda>t. truthy t \<and> the t \<notin> set (map svc_name enabled))
       (map (\<lambda>s. network_mode_service (svc_network_mode s)) enabled) = []"
    unfolding service_list_checks_def Let_def checks_Inr list.pred_inject fst_conv not_not sort_Nil_iff
      map_is_Nil_conv enabled_def remdups_id_iff_distinct [symmetric] length_remdups_eq [symmetric]
    by metis+
  have "\<exists>network gateway as ps. runtime' = runtime \<and>
    ip_network (ul_subnet (rt_underlay runtime)) = Some network \<and>
    ip_address (ul_gateway (rt_underlay runtime)) = Some gateway \<and>
    rfold (claim_address runtime network gateway) [] enabled = Inr as \<and>
    rfold claim_service_ports [] enabled = Inr ps"
    using assms(1)
    by (auto simp: validate_services_def validate_service_ports_def rbind_Inr_iff enabled_def
        split: option.splits)
  then obtain network gateway as ps where r0: "runtime' = runtime"
    and r: "ip_network (ul_subnet (rt_underlay runtime)) = Some network"
    "ip_address (ul_gateway (rt_underlay runtime)) = Some gateway"
    "rfold (claim_address runtime network gateway) [] enabled = Inr as"
    "rfold claim_service_ports [] enabled = Inr ps" by blast
  show thesis
  proof (rule that [OF r0 e(1) _ _ _ r])
    show "{ROUTER_NETNS, WG_GATEWAY, BIRD_ROUTER} \<subseteq> svc_role ` set enabled"
      using e(2) unfolding filter_empty_conv by simp
    show "\<forall>s\<in>set enabled. set (svc_depends_on s) \<subseteq> svc_name ` set enabled"
      using e(3) unfolding filter_empty_conv by auto
    show "\<forall>s\<in>set enabled. \<forall>t. network_mode_service (svc_network_mode s) = Some t \<and> t \<noteq> [] \<longrightarrow>
        t \<in> svc_name ` set enabled"
      using e(4) unfolding filter_empty_conv by fastforce
  qed
qed

text \<open>C27: an accepted runtime is sound.  Service names are unique, the three required roles are
  enabled, every dependency and every shared network namespace names an enabled service, a service in
  another's namespace has neither address nor ports, the mandatory mounts are there, the resolved
  underlay addresses are pairwise different members of the subnet other than the gateway, and no triple of host
  address, port and protocol is published twice.  (The host addresses are compared as they are written: an unset one and
  0.0.0.0 count as different, so the same port can still be taken twice on the host.)\<close>

theorem validated_runtime_sound:
  assumes "validate_services runtime = Inr runtime'"
  shows "runtime' = runtime \<and> runtime_sound runtime"
proof -
  let ?E = "enabled_services runtime"
  obtain network gateway as ps where v: "runtime' = runtime"
    "distinct (map svc_name (rt_services runtime))"
    "{ROUTER_NETNS, WG_GATEWAY, BIRD_ROUTER} \<subseteq> svc_role ` set ?E"
    "\<forall>s\<in>set ?E. set (svc_depends_on s) \<subseteq> svc_name ` set ?E"
    "\<forall>s\<in>set ?E. \<forall>t. network_mode_service (svc_network_mode s) = Some t \<and> t \<noteq> [] \<longrightarrow>
       t \<in> svc_name ` set ?E"
    "ip_network (ul_subnet (rt_underlay runtime)) = Some network"
    "ip_address (ul_gateway (rt_underlay runtime)) = Some gateway"
    "rfold (claim_address runtime network gateway) [] ?E = Inr as"
    "rfold claim_service_ports [] ?E = Inr ps"
    by (rule validate_services_parts [OF assms])
  have "claims_exactly (rfold (claim_address runtime network gateway) [] ?E) [] (concat (map (service_address runtime) ?E))"
    by (rule claims_exactly_rfold) (rule claim_address_exactly)
  then have addr: "map fst as = concat (map (service_address runtime) ?E)" "distinct (map fst as)"
    unfolding v(8) by (blast dest: claims_exactly_Nil)+
  have "claims_exactly (rfold claim_service_ports [] ?E) [] (concat (map service_port_keys ?E))"
    by (rule claims_exactly_rfold) (rule claim_service_ports_exactly)
  then have ports: "map fst ps = concat (map service_port_keys ?E)" "distinct (map fst ps)"
    unfolding v(9) by (blast dest: claims_exactly_Nil)+
  have svc: "(truthy (svc_network_mode s) \<longrightarrow> \<not> truthy (svc_ipv4_address s) \<and> svc_ports s = [])"
    "set (required_volume_targets (svc_role s)) \<subseteq> vm_target ` set (svc_volumes s)"
    "a \<in> set (service_address runtime s) \<Longrightarrow> \<exists>x. ip_address a = Some x \<and> addr_in_net x network \<and> x \<noteq> gateway"
    if s: "s \<in> set ?E" for s a
  proof -
    obtain x y where c: "claim_address runtime network gateway x s = Inr y"
      using rfold_all [OF v(8) s] by blast
    obtain x' y' where c': "claim_service_ports x' s = Inr y'"
      using rfold_all [OF v(9) s] by blast
    show "truthy (svc_network_mode s) \<longrightarrow> \<not> truthy (svc_ipv4_address s) \<and> svc_ports s = []"
      using claim_address_ok(2) [OF c] c' by (auto simp: claim_service_ports_def split: if_splits)
    show "set (required_volume_targets (svc_role s)) \<subseteq> vm_target ` set (svc_volumes s)"
      by (rule role_requirements_volumes [OF claim_address_ok(1) [OF c]])
    show "a \<in> set (service_address runtime s) \<Longrightarrow> \<exists>x. ip_address a = Some x \<and> addr_in_net x network \<and> x \<noteq> gateway"
      using claim_address_ok(3) [OF c] .
  qed
  have each: "set (svc_depends_on s) \<subseteq> set (map svc_name ?E) \<and>
      (\<forall>t. network_mode_service (svc_network_mode s) = Some t \<and> t \<noteq> [] \<longrightarrow> t \<in> set (map svc_name ?E)) \<and>
      (truthy (svc_network_mode s) \<longrightarrow> \<not> truthy (svc_ipv4_address s) \<and> svc_ports s = []) \<and>
      set (required_volume_targets (svc_role s)) \<subseteq> vm_target ` set (svc_volumes s)" if s: "s \<in> set ?E" for s
    using v(4,5) s svc(1,2) [OF s] unfolding set_map by blast
  have addresses: "\<forall>a\<in>set (concat (map (service_address runtime) ?E)).
      \<exists>x. ip_address a = Some x \<and> addr_in_net x network \<and> x \<noteq> gateway"
  proof
    fix a assume "a \<in> set (concat (map (service_address runtime) ?E))"
    then obtain s where "s \<in> set ?E" "a \<in> set (service_address runtime s)" by auto
    then show "\<exists>x. ip_address a = Some x \<and> addr_in_net x network \<and> x \<noteq> gateway" by (rule svc(3))
  qed
  have "runtime_sound runtime"
    unfolding runtime_sound_def Let_def
  proof (intro conjI)
    show "distinct (map svc_name (rt_services runtime))" by (rule v(2))
    show "{ROUTER_NETNS, WG_GATEWAY, BIRD_ROUTER} \<subseteq> set (map svc_role ?E)" using v(3) by simp
    show "\<exists>network gateway. ip_network (ul_subnet (rt_underlay runtime)) = Some network \<and>
        ip_address (ul_gateway (rt_underlay runtime)) = Some gateway \<and>
        (\<forall>a\<in>set (concat (map (service_address runtime) ?E)).
           \<exists>x. ip_address a = Some x \<and> addr_in_net x network \<and> x \<noteq> gateway)"
      using v(6,7) addresses by blast
    show "\<forall>s\<in>set ?E. set (svc_depends_on s) \<subseteq> set (map svc_name ?E) \<and>
        (\<forall>t. network_mode_service (svc_network_mode s) = Some t \<and> t \<noteq> [] \<longrightarrow> t \<in> set (map svc_name ?E)) \<and>
        (truthy (svc_network_mode s) \<longrightarrow> \<not> truthy (svc_ipv4_address s) \<and> svc_ports s = []) \<and>
        set (required_volume_targets (svc_role s)) \<subseteq> vm_target ` set (svc_volumes s)"
      using each by blast
    show "distinct (concat (map (service_address runtime) ?E))" using addr by simp
    show "distinct (concat (map service_port_keys ?E))" using ports by simp
  qed
  then show ?thesis using v(1) by simp
qed

definition example_service :: "string \<Rightarrow> service_role \<Rightarrow> string list \<Rightarrow> runtime_service" where
  "example_service name role targets =
     \<lparr>svc_name = name, svc_role = role, svc_image = Some ''router'', svc_build = None, svc_ipv4_address = None,
      svc_command = [''sh'', ''/start.sh''], svc_environment = [], svc_ports = [],
      svc_network_mode = (if role = ROUTER_NETNS then None else Some ''service:netns''),
      svc_cap_add = [], svc_devices = [], svc_sysctls = [],
      svc_volumes = map (\<lambda>t. \<lparr>vm_source = ''wireguard'', vm_target = t, vm_readonly = True\<rparr>) targets,
      svc_depends_on = (if role = ROUTER_NETNS then [] else [''netns'']), svc_healthcheck = None,
      svc_enabled = True\<rparr>"

definition example_runtime :: router_runtime where
  "example_runtime =
     \<lparr>rt_project_name = None,
      rt_underlay = \<lparr>ul_name = ''underlay'', ul_subnet = ''10.254.42.0/24'', ul_gateway = ''10.254.42.1'',
                     ul_ipv6_subnet = None, ul_ipv6_gateway = None\<rparr>,
      rt_rpki = \<lparr>rpki_enabled = True, rpki_cache_url = ''https'', rpki_listen_host = ''10.254.42.3'',
                 rpki_listen_port = 8282\<rparr>,
      rt_router_dockerfile = \<lparr>rd_base_image = ''debian'', rd_debian_mirror = ''deb''\<rparr>,
      rt_wireguard_port_range = None,
      rt_services =
        [(example_service ''netns'' ROUTER_NETNS [])
           \<lparr>svc_ports := [\<lparr>pp_container_port = 20000, pp_container_port_end = Some 20003,
                           pp_host_port = Some 20000, pp_host_port_end = Some 20003,
                           pp_protocol = ''udp'', pp_host_ip = None\<rparr>]\<rparr>,
         example_service ''wg'' WG_GATEWAY [''/opt/dn42/scripts'', ''/etc/wireguard''],
         example_service ''bird'' BIRD_ROUTER [''/opt/dn42/scripts'', ''/etc/bird''],
         (example_service ''rpki'' RPKI_CACHE []) \<lparr>svc_network_mode := None\<rparr>]\<rparr>"

lemma example_runtime_accepted: "validate_services example_runtime = Inr example_runtime"
  by code_simp

theorem validated_runtime_sound_witness:
  "distinct (concat (map (service_address example_runtime) (enabled_services example_runtime)))"
  using validated_runtime_sound [OF example_runtime_accepted] unfolding runtime_sound_def Let_def by blast

text \<open>The same port on the host, once on every address by leaving it out and once by writing 0.0.0.0, is accepted.\<close>

definition one_udp_port :: "string option \<Rightarrow> port_publish" where
  "one_udp_port host_ip =
     \<lparr>pp_container_port = 20000, pp_container_port_end = None, pp_host_port = Some 20000, pp_host_port_end = None,
      pp_protocol = ''udp'', pp_host_ip = host_ip\<rparr>"

definition twice_published :: router_runtime where
  "twice_published = example_runtime\<lparr>rt_services :=
     map (\<lambda>s. if svc_name s = ''netns'' then s\<lparr>svc_ports := [one_udp_port None, one_udp_port (Some ''0.0.0.0'')]\<rparr> else s)
       (rt_services example_runtime)\<rparr>"

lemma twice_published_accepted: "validate_services twice_published = Inr twice_published"
  by code_simp

end
