(* ===== verification/Desired_State.thy ===== *)
theory Desired_State
  imports Runtime_Schema Validators
begin

text \<open>
  \<open>dn42_schemas\<close>: \<open>network.py\<close>, \<open>routing.py\<close>, \<open>dns.py\<close> and \<open>desired_state.py\<close>.  The node, interface,
  session, DNS and topology specifications with their validators, and the desired state with its
  cross-reference checks and its four normalisations (published WireGuard ports, BIRD control socket,
  managed CoreDNS service, managed anycast interface).
\<close>

section \<open>network.py\<close>

record node_spec =
  nd_node_id :: string
  nd_site :: string
  nd_region :: int
  nd_asn :: int
  nd_router_id :: string
  nd_ipv4_prefixes :: "string list"
  nd_ipv6_prefixes :: "string list"
  nd_loopback_ipv4 :: "string option"
  nd_loopback_ipv6 :: "string option"
  nd_link_local :: "string option"

record wireguard_peer =
  wp_public_key :: string
  wp_preshared_key_ref :: "string option"
  wp_endpoint :: "string option"
  wp_allowed_ips :: "string list"
  wp_persistent_keepalive_seconds :: "int option"

record interface_spec =
  if_name :: string
  if_kind :: interface_kind
  if_mtu :: "int option"
  if_addresses :: "string list"
  if_peer_routes :: "string list"
  if_listen_port :: "int option"
  if_private_key_ref :: "string option"
  if_wireguard_peer :: "wireguard_peer option"

text \<open>The exception a validator raises, if any, as a guarded statement of \<open>checks\<close>.\<close>

definition raises :: "'a res \<Rightarrow> bool \<times> exc" where
  "raises r = (case r of Inl e \<Rightarrow> (True, e) | Inr _ \<Rightarrow> (False, ValueError []))"

definition raises_opt :: "('a \<Rightarrow> 'b res) \<Rightarrow> 'a option \<Rightarrow> bool \<times> exc" where
  "raises_opt f x = (case x of None \<Rightarrow> (False, ValueError []) | Some y \<Rightarrow> raises (f y))"

definition address_in_any_prefix :: "string \<Rightarrow> string list \<Rightarrow> bool" where
  "address_in_any_prefix address prefixes \<longleftrightarrow> list_ex (is_address_in_prefix address) prefixes"

definition validate_node :: "node_spec \<Rightarrow> node_spec res" where
  "validate_node n =
     (let any_ip = (\<lambda>s. validate_ip_address s None) in
      checks
       ([(nd_asn n < 1, ValueError ''asn''), raises (any_ip (nd_router_id n))]
        @ map (\<lambda>p. raises (validate_dn42_ipv4_network p True True)) (nd_ipv4_prefixes n)
        @ map (\<lambda>p. raises (validate_dn42_ipv6_network p True)) (nd_ipv6_prefixes n)
        @ [raises_opt any_ip (nd_loopback_ipv4 n), raises_opt any_ip (nd_loopback_ipv6 n),
           raises_opt (\<lambda>s. validate_ipv6_link_local_address s False) (nd_link_local n),
           (truthy (nd_loopback_ipv4 n) \<and> \<not> address_in_any_prefix (the (nd_loopback_ipv4 n)) (nd_ipv4_prefixes n),
            ValueError ''loopback_ipv4 must belong to one of ipv4_prefixes''),
           (truthy (nd_loopback_ipv6 n) \<and> \<not> address_in_any_prefix (the (nd_loopback_ipv6 n)) (nd_ipv6_prefixes n),
            ValueError ''loopback_ipv6 must belong to one of ipv6_prefixes'')]) n)"

definition validate_wireguard_peer :: "wireguard_peer \<Rightarrow> wireguard_peer res" where
  "validate_wireguard_peer w =
     checks
       ([raises (validate_wireguard_key (wp_public_key w)),
         raises_opt validate_wireguard_endpoint (wp_endpoint w)]
        @ map (\<lambda>p. raises (validate_ip_network p)) (wp_allowed_ips w)
        @ [(\<not> opt_ok (\<lambda>n. 1 \<le> n) (wp_persistent_keepalive_seconds w), ValueError ''persistent_keepalive_seconds'')]) w"

definition validate_interface :: "interface_spec \<Rightarrow> interface_spec res" where
  "validate_interface i =
     checks
       ([(15 < length (if_name i),
          ValueError ''interface name must be 15 characters or fewer for Linux compatibility''),
         (\<not> opt_ok (\<lambda>m. 576 \<le> m \<and> m \<le> 9000) (if_mtu i), ValueError ''mtu'')]
        @ map (\<lambda>a. raises (validate_ip_interface a)) (if_addresses i)
        @ map (\<lambda>r. raises (validate_ip_network r)) (if_peer_routes i)
        @ [(\<not> opt_ok port_ok (if_listen_port i), ValueError ''listen_port''),
           raises_opt validate_wireguard_peer (if_wireguard_peer i),
           (if_kind i = WIREGUARD \<and> \<not> truthy (if_private_key_ref i),
            ValueError ''wireguard interfaces require private_key_ref''),
           (if_kind i = WIREGUARD \<and> if_wireguard_peer i = None,
            ValueError ''wireguard interfaces require wireguard_peer''),
           (if_kind i \<noteq> WIREGUARD \<and> if_wireguard_peer i \<noteq> None,
            ValueError ''wireguard_peer is only valid on wireguard interfaces'')]) i"

section \<open>routing.py\<close>

datatype address_family = IPV4 | IPV6 | MP_BGP

record bfd_spec =
  bfd_enabled :: bool
  bfd_interval_ms :: int
  bfd_multiplier :: int

record bgp_session =
  bgp_name :: string
  bgp_remote_asn :: int
  bgp_neighbor :: string
  bgp_source_address :: string
  bgp_address_family :: address_family
  bgp_interface :: "string option"
  bgp_policy :: string
  bgp_import_mode :: string
  bgp_export_mode :: string
  bgp_protocol_suffix :: string
  bgp_extended_next_hop :: bool
  bgp_bfd :: "bfd_spec option"
  bgp_route_reflector_client :: bool
  bgp_import_limit :: "int option"
  bgp_import_limit_action :: "string option"
  bgp_local_pref :: "int option"
  bgp_link_latency :: "int option"
  bgp_enabled :: bool

definition validate_neighbor :: "bgp_session \<Rightarrow> bgp_session res" where
  "validate_neighbor s =
     (let (address, zone) = split_ipv6_zone (bgp_neighbor s) in
      checks
        [raises (validate_ip_address address None),
         (zone \<noteq> None \<and> truthy (bgp_interface s) \<and> bgp_interface s \<noteq> zone,
          ValueError ''neighbor zone and interface must match''),
         (is_ipv6_link_local address \<and> zone = None \<and> \<not> truthy (bgp_interface s),
          ValueError ''IPv6 link-local neighbor requires either a zone suffix or an explicit interface field'')] s)"

definition validate_bgp_session :: "bgp_session \<Rightarrow> bgp_session res" where
  "validate_bgp_session s =
     (let u32 = (\<lambda>n. 0 \<le> n \<and> n \<le> 4294967295) in
      rbind (checks
        [(bgp_remote_asn s < 1, ValueError ''remote_asn''),
         raises (validate_ip_address (bgp_source_address s) None),
         (\<not> opt_ok (\<lambda>b. 50 \<le> bfd_interval_ms b \<and> 1 \<le> bfd_multiplier b) (bgp_bfd s), ValueError ''bfd''),
         (\<not> opt_ok (\<lambda>n. 1 \<le> n) (bgp_import_limit s), ValueError ''import_limit''),
         (\<not> opt_ok (\<lambda>a. a \<in> set [''block'', ''restart'', ''disable'', ''warn'']) (bgp_import_limit_action s),
          ValueError ''import_limit_action''),
         (\<not> opt_ok u32 (bgp_local_pref s), ValueError ''local_pref''),
         (\<not> opt_ok (\<lambda>n. 1 \<le> n \<and> n \<le> 9) (bgp_link_latency s), ValueError ''link_latency'')] s) validate_neighbor)"

definition is_internal :: "bgp_session \<Rightarrow> int \<Rightarrow> bool" where
  "is_internal s own_asn \<longleftrightarrow> bgp_remote_asn s = own_asn \<or> bgp_policy s = ''internal''"

record bird_host =
  bh_ownip :: string
  bh_ownip6 :: string
  bh_ibgp_rr_upstreams :: "string list"

record igp_adjacency =
  ia_node :: string
  ia_cost :: "int option"
  ia_interface :: "string option"
  ia_iface_type :: string

record dummy_interface =
  di_ifname :: string
  di_track_service :: bool

record internal_topology =
  it_routers :: "string list"
  it_private_nodes :: "string list"
  it_hosts :: "(string \<times> bird_host) list"
  it_igp_adjacencies :: "igp_adjacency list"
  it_full_mesh_ibgp :: bool
  it_ospf_v2 :: bool
  it_ospf_v3 :: bool

definition validate_topology_hosts :: "internal_topology \<Rightarrow> internal_topology res" where
  "validate_topology_hosts t =
     (let unknown = (\<lambda>ns. sort (filter (\<lambda>n. n \<notin> fst ` set (it_hosts t)) ns));
          missing_routers = unknown (remdups (it_routers t));
          missing_private = unknown (remdups (it_private_nodes t));
          missing_adjacencies = unknown (map ia_node (it_igp_adjacencies t)) in
      checks
        [(missing_routers \<noteq> [],
          ValueError (''internal topology routers missing hostvars: '' @ join '', '' missing_routers)),
         (missing_private \<noteq> [],
          ValueError (''internal topology private nodes missing hostvars: '' @ join '', '' missing_private)),
         (missing_adjacencies \<noteq> [],
          ValueError (''internal topology IGP adjacencies missing hostvars: '' @ join '', '' missing_adjacencies))] t)"

definition validate_rejected_asns :: "int list \<Rightarrow> int list res" where
  "validate_rejected_asns asns =
     checks (map (\<lambda>a. (a < 1 \<or> 4294967295 < a, ValueError ''rejected_asns must contain valid ASNs'')) asns) asns"

record bird2_config =
  b2_region :: "int option"
  b2_internal_topology :: "internal_topology option"
  b2_rejected_asns :: "int list"
  b2_import_limit :: int
  b2_disable_ebgp :: bool
  b2_export_ownnets :: bool
  b2_dummy_interfaces :: "(string \<times> dummy_interface) list"
  b2_stub_ifnames :: "string list"
  b2_static_routes4 :: "string list"
  b2_static_routes6 :: "string list"
  b2_route_local_pref :: "(string \<times> int) list"

definition validate_static_routes :: "string list \<Rightarrow> string list res" where
  "validate_static_routes routes =
     checks (map (\<lambda>r. case words r of
                        [] \<Rightarrow> (True, ValueError ''list index out of range'')
                      | w # _ \<Rightarrow> raises (validate_ip_network w)) routes) routes"

section \<open>dns.py\<close>

record dns_record =
  dr_name :: string
  dr_type :: string
  dr_value :: string
  dr_ttl :: "int option"

record dns_zone =
  dz_zone :: string
  dz_records_ref :: string
  dz_primary_ns :: "string option"
  dz_admin_email :: "string option"
  dz_soa :: "int list"
  dz_default_ttl :: int
  dz_records :: "dns_record list"

record dns_forward =
  df_zone :: string
  df_upstreams :: "string list"

record dns_spec =
  dns_enabled :: bool
  dns_bind_addresses :: "string list"
  dns_cache_ttl_seconds :: int
  dns_zones :: "dns_zone list"
  dns_forwards :: "dns_forward list"

definition upper_char :: "char \<Rightarrow> char" where
  "upper_char c = (if is_lower c then char_of ((of_char c :: nat) - 32) else c)"

definition validate_record_type :: "string \<Rightarrow> string res" where
  "validate_record_type value =
     (let normalized = map upper_char (strip value) in
      if normalized \<notin> set [''A'', ''AAAA'', ''CNAME'', ''NS'', ''PTR'', ''TXT'', ''MX'', ''SRV'', ''CAA'']
      then Inl (ValueError (''unsupported DNS record type: '' @ value)) else Inr normalized)"

definition int32_ok :: "int \<Rightarrow> bool" where
  "int32_ok n \<longleftrightarrow> 0 \<le> n \<and> n \<le> 2147483647"

definition validate_zone :: "dns_zone \<Rightarrow> dns_zone res" where
  "validate_zone z =
     checks
       [raises (validate_domain_name (dz_zone z) True False True False),
        (\<not> list_all int32_ok (dz_default_ttl z # dz_soa z), ValueError ''timer''),
        (dz_records z \<noteq> [] \<and> \<not> (truthy (dz_primary_ns z) \<and> truthy (dz_admin_email z)),
         ValueError ''inline DNS records require both primary_ns and admin_email for the SOA record'')] z"

definition validate_forward :: "dns_forward \<Rightarrow> dns_forward res" where
  "validate_forward f =
     checks (raises (validate_domain_name (df_zone f) True False False False)
             # map (\<lambda>u. raises (validate_ip_address u None)) (df_upstreams f)) f"

definition validate_dns :: "dns_spec \<Rightarrow> dns_spec res" where
  "validate_dns d =
     checks (map (\<lambda>a. raises (validate_ip_address a None)) (dns_bind_addresses d)
             @ [(\<not> int32_ok (dns_cache_ttl_seconds d), ValueError ''cache_ttl_seconds'')]
             @ map (\<lambda>z. raises (validate_zone z)) (dns_zones d)
             @ map (\<lambda>f. raises (validate_forward f)) (dns_forwards d)) d"

section \<open>desired\_state.py\<close>

record desired_state =
  ds_generation :: int
  ds_node :: node_spec
  ds_runtime :: router_runtime
  ds_bird :: bird2_config
  ds_interfaces :: "interface_spec list"
  ds_bgp_sessions :: "bgp_session list"
  ds_dns :: "dns_spec option"

definition BIRD_CONTROL_SOCKET_TARGET :: string where
  "BIRD_CONTROL_SOCKET_TARGET = ''/run/bird''"

definition DNS_ANYCAST_INTERFACE :: string where
  "DNS_ANYCAST_INTERFACE = ''dns-anycast''"

definition set_services :: "runtime_service list \<Rightarrow> desired_state \<Rightarrow> desired_state" where
  "set_services ss s = s\<lparr>ds_runtime := (ds_runtime s)\<lparr>rt_services := ss\<rparr>\<rparr>"

text \<open>\<open>RouterRuntimeSpec.model_validate\<close> of already validated services: the model validator runs again.\<close>

definition replace_services :: "runtime_service list \<Rightarrow> desired_state \<Rightarrow> desired_state res" where
  "replace_services ss s =
     rbind (validate_services (rt_services_update (\<lambda>_. ss) (ds_runtime s))) (\<lambda>_. Inr (set_services ss s))"

subsection \<open>Published WireGuard ports\<close>

type_synonym publish_key =
  "string option \<times> int option \<times> int option \<times> int \<times> int option \<times> string"

definition port_publish_key :: "port_publish \<Rightarrow> publish_key" where
  "port_publish_key p =
     (pp_host_ip p, pp_host_port p, pp_host_port_end p, pp_container_port p, pp_container_port_end p, pp_protocol p)"

definition publish_sort_key :: "port_publish \<Rightarrow> string \<times> int \<times> int \<times> int \<times> int \<times> string" where
  "publish_sort_key p =
     (let host = or_zero (pp_host_port p) in
      (case pp_host_ip p of Some ip \<Rightarrow> ip | None \<Rightarrow> [], host,
       (case pp_host_port_end p of Some e \<Rightarrow> if e = 0 then host else e | None \<Rightarrow> host),
       pp_container_port p,
       (case pp_container_port_end p of Some e \<Rightarrow> if e = 0 then pp_container_port p else e
        | None \<Rightarrow> pp_container_port p),
       pp_protocol p))"

definition wireguard_ports :: "interface_spec list \<Rightarrow> (int \<times> string) list" where
  "wireguard_ports ifs =
     concat (map (\<lambda>i. case if_listen_port i of
                        Some p \<Rightarrow> if if_kind i = WIREGUARD then [(p, if_name i)] else []
                      | None \<Rightarrow> []) ifs)"

text \<open>First come first served: the table of listen ports and the list of duplicates.\<close>

fun collect_ports :: "(int \<times> string) list \<Rightarrow> (int \<times> string) list \<Rightarrow> string list \<Rightarrow> (int \<times> string) list \<times> string list" where
  "collect_ports [] table dups = (table, dups)"
| "collect_ports ((port, name) # rest) table dups =
     (case map_of table port of
        Some existing \<Rightarrow>
          collect_ports rest table (dups @ [str_int port @ '' ('' @ existing @ '', '' @ name @ '')''])
      | None \<Rightarrow> collect_ports rest (table @ [(port, name)]) dups)"

definition managed_port :: "wg_port_range \<Rightarrow> port_publish" where
  "managed_port r =
     \<lparr>pp_container_port = wr_start r, pp_container_port_end = Some (wr_end r),
      pp_host_port = Some (effective_host_start r), pp_host_port_end = Some (effective_host_end r),
      pp_protocol = ''udp'', pp_host_ip = wr_host_ip r\<rparr>"

definition publishes :: "port_publish \<Rightarrow> runtime_service \<Rightarrow> bool" where
  "publishes p s \<longleftrightarrow> port_publish_key p \<in> set (map port_publish_key (svc_ports s))"

definition publish_on :: "port_publish \<Rightarrow> runtime_service \<Rightarrow> runtime_service" where
  "publish_on p s =
     (if svc_role s \<noteq> ROUTER_NETNS \<or> publishes p s then s
      else s\<lparr>svc_ports := sort_key publish_sort_key (svc_ports s @ [p])\<rparr>)"

definition normalize_wireguard_port_publish_runtime :: "desired_state \<Rightarrow> desired_state res" where
  "normalize_wireguard_port_publish_runtime s =
     (let (table, dups) = collect_ports (wireguard_ports (ds_interfaces s)) [] [] in
      if dups \<noteq> []
      then Inl (ValueError (''wireguard listen_port must be unique per node: '' @ join '', '' (sort dups)))
      else if table = [] then Inr s
      else case rt_wireguard_port_range (ds_runtime s) of
        None \<Rightarrow> Inr s
      | Some r \<Rightarrow>
          let outside = filter (\<lambda>(port, _). \<not> port_range_contains r port) table in
          if outside \<noteq> []
          then Inl (ValueError (''wireguard listen_port must be inside runtime.wireguard_port_range ''
                    @ str_int (wr_start r) @ ''-'' @ str_int (wr_end r) @ '': ''
                    @ join '', '' (sort (map (\<lambda>(port, name). name @ ''='' @ str_int port) outside))))
          else rbind (new_port_publish (managed_port r)) (\<lambda>p.
            let services = rt_services (ds_runtime s) in
            if list_all (\<lambda>x. svc_role x = ROUTER_NETNS \<longrightarrow> publishes p x) services then Inr s
            else replace_services (map (publish_on p) services) s))"

subsection \<open>BIRD control socket\<close>

definition normalize_bird_control_socket :: "desired_state \<Rightarrow> desired_state res" where
  "normalize_bird_control_socket s =
     (let services = rt_services (ds_runtime s) in
      case find (\<lambda>x. svc_role x = BIRD_ROUTER) services of
        None \<Rightarrow> Inr s
      | Some bird \<Rightarrow>
          (case find (\<lambda>m. vm_target m = BIRD_CONTROL_SOCKET_TARGET) (svc_volumes bird) of
             Some m \<Rightarrow>
               if vm_readonly m
               then Inl (ValueError (''bird-router '' @ BIRD_CONTROL_SOCKET_TARGET
                                     @ '' control socket mount must be writable''))
               else Inr s
           | None \<Rightarrow>
               replace_services
                 (map (\<lambda>x. if svc_name x = svc_name bird
                           then x\<lparr>svc_volumes := svc_volumes x @
                                  [\<lparr>vm_source = ''runtime/bird-run'', vm_target = BIRD_CONTROL_SOCKET_TARGET,
                                    vm_readonly = False\<rparr>]\<rparr>
                           else x) services) s))"

subsection \<open>The managed CoreDNS service\<close>

definition dns_service :: "string \<Rightarrow> string list \<Rightarrow> runtime_service" where
  "dns_service netns depends =
     \<lparr>svc_name = ''dn42-dns'', svc_role = DNS, svc_image = Some ''coredns/coredns:1.12.1'', svc_build = None,
      svc_ipv4_address = None, svc_command = [''-conf'', ''/etc/coredns/Corefile''], svc_environment = [],
      svc_ports = [], svc_network_mode = Some (''service:'' @ netns), svc_cap_add = [], svc_devices = [],
      svc_sysctls = [],
      svc_volumes = [\<lparr>vm_source = ''coredns'', vm_target = ''/etc/coredns'', vm_readonly = True\<rparr>],
      svc_depends_on = depends, svc_healthcheck = None, svc_enabled = True\<rparr>"

definition dns_active :: "desired_state \<Rightarrow> bool" where
  "dns_active s = (case ds_dns s of None \<Rightarrow> False | Some d \<Rightarrow> dns_enabled d)"

definition normalize_dns_runtime :: "desired_state \<Rightarrow> desired_state res" where
  "normalize_dns_runtime s =
     (let services = rt_services (ds_runtime s);
          has_dns = list_ex (\<lambda>x. svc_role x = DNS) services in
      if \<not> dns_active s
      then (if \<not> has_dns then Inr s else replace_services (filter (\<lambda>x. svc_role x \<noteq> DNS) services) s)
      else if has_dns then Inr s
      else case find (\<lambda>x. svc_role x = ROUTER_NETNS) services of
        None \<Rightarrow> Inr s
      | Some netns \<Rightarrow>
          let depends = svc_name netns #
                (case find (\<lambda>x. svc_role x = WG_GATEWAY) services of Some wg \<Rightarrow> [svc_name wg] | None \<Rightarrow> []) in
          replace_services (services @ [dns_service (svc_name netns) depends]) s)"

subsection \<open>The managed anycast interface\<close>

definition host_cidr :: "string \<Rightarrow> string res" where
  "host_cidr address =
     (if CHR ''/'' \<in> set address then Inr address
      else case ip_address address of
        None \<Rightarrow> Inl (ValueError address)
      | Some a \<Rightarrow> Inr (address @ ''/'' @ str_int (int (ip_bits (addr_version a)))))"

fun rmap :: "('a \<Rightarrow> 'b res) \<Rightarrow> 'a list \<Rightarrow> 'b list res" where
  "rmap f [] = Inr []"
| "rmap f (x # xs) = rbind (f x) (\<lambda>y. rbind (rmap f xs) (\<lambda>ys. Inr (y # ys)))"

definition anycast_interface :: "string list \<Rightarrow> interface_spec" where
  "anycast_interface addresses =
     \<lparr>if_name = DNS_ANYCAST_INTERFACE, if_kind = DUMMY, if_mtu = None, if_addresses = addresses,
      if_peer_routes = [], if_listen_port = None, if_private_key_ref = None, if_wireguard_peer = None\<rparr>"

definition anycast_addresses :: "desired_state \<Rightarrow> string list" where
  "anycast_addresses s =
     (case ds_dns s of None \<Rightarrow> [] | Some d \<Rightarrow> if dns_enabled d then dns_bind_addresses d else [])"

definition normalize_dns_anycast :: "desired_state \<Rightarrow> desired_state res" where
  "normalize_dns_anycast s =
     (let enabled = anycast_addresses s \<noteq> [];
          interfaces = filter (\<lambda>i. if_name i \<noteq> DNS_ANYCAST_INTERFACE) (ds_interfaces s);
          dummies = filter (\<lambda>(n, _). n \<noteq> DNS_ANYCAST_INTERFACE) (b2_dummy_interfaces (ds_bird s));
          dummies' = (if enabled
                      then dummies @ [(DNS_ANYCAST_INTERFACE,
                             \<lparr>di_ifname = DNS_ANYCAST_INTERFACE, di_track_service = True\<rparr>)]
                      else dummies) in
      rbind (if enabled
             then rbind (rmap host_cidr (anycast_addresses s)) (\<lambda>cidrs.
                  rbind (validate_interface (anycast_interface cidrs)) (\<lambda>i. Inr (interfaces @ [i])))
             else Inr interfaces)
        (\<lambda>interfaces'.
           Inr (s\<lparr>ds_interfaces := interfaces',
                  ds_bird := (if set dummies' = set (b2_dummy_interfaces (ds_bird s)) then ds_bird s
                              else (ds_bird s)\<lparr>b2_dummy_interfaces := dummies'\<rparr>)\<rparr>)))"

subsection \<open>References\<close>

definition interface_asns :: "desired_state \<Rightarrow> string \<Rightarrow> int list" where
  "interface_asns s i =
     remdups (map bgp_remote_asn
       (filter (\<lambda>b. bgp_interface b = Some i \<and> bgp_enabled b \<and> \<not> is_internal b (nd_asn (ds_node s)))
          (ds_bgp_sessions s)))"

definition reference_checks :: "desired_state \<Rightarrow> (bool \<times> exc) list" where
  "reference_checks s =
     (let interface_names = map if_name (ds_interfaces s);
          session_names = map bgp_name (ds_bgp_sessions s);
          used = map the (filter truthy (map bgp_interface (ds_bgp_sessions s)));
          missing = sort (filter (\<lambda>i. i \<notin> set interface_names) used);
          invalid = sort (filter (\<lambda>i. 1 < length (interface_asns s i)) (remdups used)) in
      [(\<not> distinct interface_names, ValueError ''interface names must be unique''),
       (\<not> distinct session_names, ValueError ''BGP session names must be unique''),
       (missing \<noteq> [], ValueError (''BGP sessions reference missing interfaces: '' @ join '', '' missing)),
       (invalid \<noteq> [],
        ValueError (''wireguard interfaces must not carry multiple remote ASNs: '' @ join '', '' invalid)),
       (case b2_internal_topology (ds_bird s) of
          None \<Rightarrow> False
        | Some t \<Rightarrow> nd_node_id (ds_node s) \<notin> set (it_routers t @ it_private_nodes t),
        ValueError ''internal topology must include the current node'')])"

definition validate_references :: "desired_state \<Rightarrow> desired_state res" where
  "validate_references s =
     rbind (checks (reference_checks s) s) (\<lambda>s.
     rbind (normalize_wireguard_port_publish_runtime s) (\<lambda>s.
     rbind (normalize_bird_control_socket s) (\<lambda>s.
     rbind (normalize_dns_runtime s) normalize_dns_anycast)))"

section \<open>The normalisations, one at a time\<close>

lemma find_map: "(\<And>x. P (f x) = P x) \<Longrightarrow> find P (map f xs) = map_option f (find P xs)"
  by (induction xs) auto

lemma find_filter: "(\<And>x. P x \<Longrightarrow> Q x) \<Longrightarrow> find P (filter Q xs) = find P xs"
  by (induction xs) auto

lemma find_snoc: "\<not> P y \<Longrightarrow> find P (xs @ [y]) = find P xs"
  by (induction xs) auto

lemma find_snoc_new: "find P xs = None \<Longrightarrow> P y \<Longrightarrow> find P (xs @ [y]) = Some y"
  by (induction xs) (auto split: if_splits)

lemma collect_ports_dups: "dups \<noteq> [] \<Longrightarrow> snd (collect_ports xs table dups) \<noteq> []"
  by (induction xs table dups rule: collect_ports.induct) (auto split: option.splits)

lemma collect_ports_ok:
  "collect_ports xs table [] = (t, []) \<longleftrightarrow>
   t = table @ xs \<and> distinct (map fst xs) \<and> fst ` set xs \<inter> fst ` set table = {}"
proof (induction xs arbitrary: table)
  case (Cons x xs)
  obtain port name where x: "x = (port, name)" by (cases x)
  show ?case
  proof (cases "map_of table port")
    case None
    then have "port \<notin> fst ` set table" by (simp add: map_of_eq_None_iff)
    then show ?thesis using Cons None x by auto
  next
    case (Some e)
    then have "port \<in> fst ` set table" by (metis map_of_eq_None_iff option.distinct(1))
    moreover have "snd (collect_ports xs table [str_int port @ '' ('' @ e @ '', '' @ name @ '')'']) \<noteq> []"
      by (rule collect_ports_dups) simp
    ultimately show ?thesis using Some x by auto
  qed
qed auto

definition ports_ok :: "desired_state \<Rightarrow> bool" where
  "ports_ok s \<longleftrightarrow>
     distinct (map fst (wireguard_ports (ds_interfaces s))) \<and>
     (wireguard_ports (ds_interfaces s) = [] \<or> rt_wireguard_port_range (ds_runtime s) = None \<or>
      (\<exists>r p. rt_wireguard_port_range (ds_runtime s) = Some r \<and>
         (\<forall>x\<in>set (wireguard_ports (ds_interfaces s)). port_range_contains r (fst x)) \<and>
         new_port_publish (managed_port r) = Inr p \<and>
         (\<forall>x\<in>set (rt_services (ds_runtime s)). svc_role x = ROUTER_NETNS \<longrightarrow> publishes p x)))"

definition socket_ok :: "desired_state \<Rightarrow> bool" where
  "socket_ok s \<longleftrightarrow>
     (case find (\<lambda>x. svc_role x = BIRD_ROUTER) (rt_services (ds_runtime s)) of
        None \<Rightarrow> True
      | Some bird \<Rightarrow>
          (case find (\<lambda>m. vm_target m = BIRD_CONTROL_SOCKET_TARGET) (svc_volumes bird) of
             Some m \<Rightarrow> \<not> vm_readonly m | None \<Rightarrow> False))"

definition dns_ok :: "desired_state \<Rightarrow> bool" where
  "dns_ok s \<longleftrightarrow>
     (let services = rt_services (ds_runtime s); has_dns = list_ex (\<lambda>x. svc_role x = DNS) services in
      if dns_active s then has_dns \<or> find (\<lambda>x. svc_role x = ROUTER_NETNS) services = None else \<not> has_dns)"

lemma replace_services_Inr: "replace_services ss s = Inr s' \<Longrightarrow> s' = set_services ss s"
  by (auto simp: replace_services_def rbind_Inr_iff)

lemma set_services_simps [simp]:
  "ds_generation (set_services ss s) = ds_generation s" "ds_node (set_services ss s) = ds_node s"
  "ds_bird (set_services ss s) = ds_bird s" "ds_interfaces (set_services ss s) = ds_interfaces s"
  "ds_bgp_sessions (set_services ss s) = ds_bgp_sessions s" "ds_dns (set_services ss s) = ds_dns s"
  "rt_services (ds_runtime (set_services ss s)) = ss"
  "rt_wireguard_port_range (ds_runtime (set_services ss s)) = rt_wireguard_port_range (ds_runtime s)"
  "dns_active (set_services ss s) = dns_active s" "anycast_addresses (set_services ss s) = anycast_addresses s"
  by (simp_all add: set_services_def dns_active_def anycast_addresses_def)

text \<open>What each step leaves of the state: the service list changes, nothing else.\<close>

definition only_services :: "desired_state \<Rightarrow> desired_state \<Rightarrow> bool" where
  "only_services s s' \<longleftrightarrow> (\<exists>ss. s' = set_services ss s)"

lemma set_services_same: "set_services (rt_services (ds_runtime s)) s = s"
  by (simp add: set_services_def)

lemma publish_on_simps [simp]:
  "svc_role (publish_on p x) = svc_role x" "svc_name (publish_on p x) = svc_name x"
  "svc_volumes (publish_on p x) = svc_volumes x"
  by (simp_all add: publish_on_def)

lemma publishes_publish_on: "svc_role x = ROUTER_NETNS \<Longrightarrow> publishes p (publish_on p x)"
  by (auto simp: publish_on_def publishes_def)

lemma ports_step:
  assumes "normalize_wireguard_port_publish_runtime s = Inr s'"
  shows "ports_ok s' \<and> only_services s s'"
proof -
  obtain table dups where c: "collect_ports (wireguard_ports (ds_interfaces s)) [] [] = (table, dups)" by fastforce
  have "dups = []"
  proof (rule ccontr)
    assume "dups \<noteq> []"
    then show False using assms by (simp add: normalize_wireguard_port_publish_runtime_def c)
  qed
  then have t: "table = wireguard_ports (ds_interfaces s)" "distinct (map fst (wireguard_ports (ds_interfaces s)))"
    using c collect_ports_ok [of "wireguard_ports (ds_interfaces s)" "[]" table] by auto
  note n = assms [unfolded normalize_wireguard_port_publish_runtime_def c prod.case \<open>dups = []\<close> t(1)]
  have same: "only_services s s" unfolding only_services_def by (metis set_services_same)
  show ?thesis
  proof (cases "wireguard_ports (ds_interfaces s) = [] \<or> rt_wireguard_port_range (ds_runtime s) = None")
    case True
    then have "s' = s" using n by (cases "wireguard_ports (ds_interfaces s) = []") auto
    then show ?thesis using True t same by (auto simp: ports_ok_def)
  next
    case False
    then obtain r where r: "rt_wireguard_port_range (ds_runtime s) = Some r" by auto
    have out: "filter (\<lambda>(port, _). \<not> port_range_contains r port) (wireguard_ports (ds_interfaces s)) = []"
      using n False r by (auto simp: Let_def split: if_splits)
    obtain p where p: "new_port_publish (managed_port r) = Inr p"
      "(if list_all (\<lambda>x. svc_role x = ROUTER_NETNS \<longrightarrow> publishes p x) (rt_services (ds_runtime s)) then Inr s
        else replace_services (map (publish_on p) (rt_services (ds_runtime s))) s) = Inr s'"
      using n False r out by (auto simp: Let_def rbind_Inr_iff)
    have inr: "\<forall>x\<in>set (wireguard_ports (ds_interfaces s)). port_range_contains r (fst x)"
      using out by (auto simp: filter_empty_conv)
    show ?thesis
    proof (cases "list_all (\<lambda>x. svc_role x = ROUTER_NETNS \<longrightarrow> publishes p x) (rt_services (ds_runtime s))")
      case True
      then have "s' = s" using p(2) by simp
      then show ?thesis using True t r p(1) inr same by (auto simp: ports_ok_def list_all_iff)
    next
      case False
      then have s': "s' = set_services (map (publish_on p) (rt_services (ds_runtime s))) s"
        using p(2) replace_services_Inr by simp
      show ?thesis unfolding s'
        using t r p(1) inr publishes_publish_on by (auto simp: ports_ok_def only_services_def)
    qed
  qed
qed

lemma ports_stable: "ports_ok s \<Longrightarrow> normalize_wireguard_port_publish_runtime s = Inr s"
proof -
  assume ok: "ports_ok s"
  let ?w = "wireguard_ports (ds_interfaces s)"
  have "collect_ports ?w [] [] = (?w, [])" using ok collect_ports_ok [of ?w "[]" ?w] by (simp add: ports_ok_def)
  moreover have "filter (\<lambda>(port, _). \<not> port_range_contains r port) ?w = []"
    if "\<forall>x\<in>set ?w. port_range_contains r (fst x)" for r
    using that by (auto simp: filter_empty_conv)
  ultimately show ?thesis
    using ok
    by (auto simp: normalize_wireguard_port_publish_runtime_def ports_ok_def Let_def list_all_iff
        split: option.splits)
qed

lemma socket_step:
  assumes "normalize_bird_control_socket s = Inr s'"
  shows "socket_ok s' \<and> only_services s s' \<and> (ports_ok s \<longrightarrow> ports_ok s')"
proof -
  let ?bird = "\<lambda>x. svc_role x = BIRD_ROUTER" and ?sock = "\<lambda>m. vm_target m = BIRD_CONTROL_SOCKET_TARGET"
  let ?ss = "rt_services (ds_runtime s)"
  have same: "only_services s s" unfolding only_services_def by (metis set_services_same)
  show ?thesis
  proof (cases "find ?bird ?ss")
    case None
    then show ?thesis using assms same by (auto simp: normalize_bird_control_socket_def socket_ok_def Let_def)
  next
    case (Some bird)
    show ?thesis
    proof (cases "find ?sock (svc_volumes bird)")
      case (Some m)
      then show ?thesis using assms same \<open>find ?bird ?ss = Some bird\<close>
        by (auto simp: normalize_bird_control_socket_def socket_ok_def Let_def split: if_splits)
    next
      case None
      define g where "g = (\<lambda>x::runtime_service. if svc_name x = svc_name bird
        then x\<lparr>svc_volumes := svc_volumes x @
                 [\<lparr>vm_source = ''runtime/bird-run'', vm_target = BIRD_CONTROL_SOCKET_TARGET, vm_readonly = False\<rparr>]\<rparr>
        else x)"
      have g: "svc_role (g x) = svc_role x" "publishes p (g x) = publishes p x" for x p
        by (simp_all add: g_def publishes_def)
      have s': "s' = set_services (map g ?ss) s"
        using assms \<open>find ?bird ?ss = Some bird\<close> None replace_services_Inr
        by (simp add: normalize_bird_control_socket_def Let_def g_def)
      have "find ?bird (map g ?ss) = Some (g bird)"
        using \<open>find ?bird ?ss = Some bird\<close> by (simp add: find_map g)
      moreover have "find ?sock (svc_volumes (g bird)) =
          Some \<lparr>vm_source = ''runtime/bird-run'', vm_target = BIRD_CONTROL_SOCKET_TARGET, vm_readonly = False\<rparr>"
        using None by (simp add: g_def find_snoc_new)
      ultimately have "socket_ok s'" by (simp add: s' socket_ok_def)
      moreover have "ports_ok s \<longrightarrow> ports_ok s'" by (auto simp: s' ports_ok_def g)
      ultimately show ?thesis using s' by (auto simp: only_services_def)
    qed
  qed
qed

lemma socket_stable: "socket_ok s \<Longrightarrow> normalize_bird_control_socket s = Inr s"
  by (auto simp: normalize_bird_control_socket_def socket_ok_def Let_def split: option.splits)

lemma dns_step:
  assumes "normalize_dns_runtime s = Inr s'"
  shows "dns_ok s' \<and> only_services s s' \<and> (ports_ok s \<longrightarrow> ports_ok s') \<and> (socket_ok s \<longrightarrow> socket_ok s')"
proof -
  let ?ss = "rt_services (ds_runtime s)"
  let ?netns = "find (\<lambda>x. svc_role x = ROUTER_NETNS) ?ss"
  have same: "only_services s s" unfolding only_services_def by (metis set_services_same)
  consider (keep) "s' = s" "dns_ok s"
    | (drop) "s' = set_services (filter (\<lambda>x. svc_role x \<noteq> DNS) ?ss) s" "\<not> dns_active s"
    | (add) d where "s' = set_services (?ss @ [d]) s" "svc_role d = DNS" "dns_active s"
  proof (cases "dns_active s")
    case False
    show thesis
    proof (cases "list_ex (\<lambda>x. svc_role x = DNS) ?ss")
      case True
      then show thesis using drop assms False replace_services_Inr by (simp add: normalize_dns_runtime_def Let_def)
    next
      case no: False
      then show thesis using keep assms False by (simp add: normalize_dns_runtime_def dns_ok_def Let_def)
    qed
  next
    case True
    show thesis
    proof (cases "list_ex (\<lambda>x. svc_role x = DNS) ?ss \<or> ?netns = None")
      case yes: True
      then show thesis using keep assms True
        by (auto simp: normalize_dns_runtime_def dns_ok_def Let_def split: if_splits)
    next
      case no: False
      then obtain netns where n: "?netns = Some netns" by auto
      define d where "d = dns_service (svc_name netns) (svc_name netns #
        (case find (\<lambda>x. svc_role x = WG_GATEWAY) ?ss of Some wg \<Rightarrow> [svc_name wg] | None \<Rightarrow> []))"
      have "replace_services (?ss @ [d]) s = Inr s'"
        using no n assms True by (simp add: normalize_dns_runtime_def Let_def d_def)
      moreover have "svc_role d = DNS" by (simp add: d_def dns_service_def)
      ultimately show thesis using add True replace_services_Inr by blast
    qed
  qed
  then show ?thesis
  proof cases
    case keep
    then show ?thesis using same by simp
  next
    case drop
    have "find (\<lambda>x. svc_role x = BIRD_ROUTER) (filter (\<lambda>x. svc_role x \<noteq> DNS) ?ss) =
        find (\<lambda>x. svc_role x = BIRD_ROUTER) ?ss" by (rule find_filter) auto
    then show ?thesis using drop
      by (auto simp: dns_ok_def only_services_def ports_ok_def socket_ok_def Let_def list_ex_iff)
  next
    case add
    have "find (\<lambda>x. svc_role x = BIRD_ROUTER) (?ss @ [d]) = find (\<lambda>x. svc_role x = BIRD_ROUTER) ?ss"
      using add(2) by (intro find_snoc) simp
    then show ?thesis using add
      by (auto simp: dns_ok_def only_services_def ports_ok_def socket_ok_def Let_def)
  qed
qed

lemma dns_stable: "dns_ok s \<Longrightarrow> normalize_dns_runtime s = Inr s"
  by (auto simp: normalize_dns_runtime_def dns_ok_def Let_def split: if_splits)

lemma rmap_Inr_same: "rmap f xs = Inr ys \<Longrightarrow> rmap f xs = Inr ys" .

definition anycast_of :: "desired_state \<Rightarrow> interface_spec list res" where
  "anycast_of s =
     (if anycast_addresses s \<noteq> []
      then rbind (rmap host_cidr (anycast_addresses s)) (\<lambda>cidrs.
           rbind (validate_interface (anycast_interface cidrs)) (\<lambda>i. Inr [i]))
      else Inr [])"

definition other_interfaces :: "desired_state \<Rightarrow> interface_spec list" where
  "other_interfaces s = filter (\<lambda>i. if_name i \<noteq> DNS_ANYCAST_INTERFACE) (ds_interfaces s)"

definition managed_dummies :: "desired_state \<Rightarrow> (string \<times> dummy_interface) list" where
  "managed_dummies s =
     filter (\<lambda>(n, _). n \<noteq> DNS_ANYCAST_INTERFACE) (b2_dummy_interfaces (ds_bird s)) @
     (if anycast_addresses s \<noteq> []
      then [(DNS_ANYCAST_INTERFACE, \<lparr>di_ifname = DNS_ANYCAST_INTERFACE, di_track_service = True\<rparr>)] else [])"

lemma normalize_dns_anycast_alt:
  "normalize_dns_anycast s =
     rbind (anycast_of s) (\<lambda>is.
       Inr (s\<lparr>ds_interfaces := other_interfaces s @ is,
              ds_bird := (if set (managed_dummies s) = set (b2_dummy_interfaces (ds_bird s)) then ds_bird s
                          else (ds_bird s)\<lparr>b2_dummy_interfaces := managed_dummies s\<rparr>)\<rparr>))"
  by (cases "rmap host_cidr (anycast_addresses s)")
     (auto simp: normalize_dns_anycast_def anycast_of_def other_interfaces_def managed_dummies_def Let_def rbind_def
        split: sum.splits)

lemma validate_interface_Inr: "validate_interface i = Inr j \<Longrightarrow> j = i"
  unfolding validate_interface_def checks_Inr by blast

lemma anycast_of_Inr:
  assumes "anycast_of s = Inr is"
  shows "list_all (\<lambda>i. if_name i = DNS_ANYCAST_INTERFACE \<and> if_kind i = DUMMY) is \<and> length is \<le> 1 \<and>
         (is = [] \<longleftrightarrow> anycast_addresses s = [])"
  using assms by (auto simp: anycast_of_def rbind_Inr_iff anycast_interface_def dest!: validate_interface_Inr split: if_splits)

lemma anycast_step:
  assumes "normalize_dns_anycast s = Inr s'"
  shows "ds_runtime s' = ds_runtime s \<and> ds_dns s' = ds_dns s \<and> ds_node s' = ds_node s \<and>
    ds_bgp_sessions s' = ds_bgp_sessions s \<and>
    b2_internal_topology (ds_bird s') = b2_internal_topology (ds_bird s) \<and>
    anycast_addresses s' = anycast_addresses s \<and>
    (\<exists>is. anycast_of s = Inr is \<and> ds_interfaces s' = other_interfaces s @ is)"
  using assms by (auto simp: normalize_dns_anycast_alt rbind_Inr_iff anycast_addresses_def)

lemma anycast_idem:
  assumes "normalize_dns_anycast s = Inr s'"
  shows "normalize_dns_anycast s' = Inr s'"
proof -
  obtain is' where i: "anycast_of s = Inr is'"
    "s' = s\<lparr>ds_interfaces := other_interfaces s @ is',
            ds_bird := (if set (managed_dummies s) = set (b2_dummy_interfaces (ds_bird s)) then ds_bird s
                        else (ds_bird s)\<lparr>b2_dummy_interfaces := managed_dummies s\<rparr>)\<rparr>"
    using assms by (auto simp: normalize_dns_anycast_alt rbind_Inr_iff)
  have addr: "anycast_addresses s' = anycast_addresses s" by (simp add: i(2) anycast_addresses_def)
  have of: "anycast_of s' = Inr is'" using i(1) unfolding anycast_of_def addr .
  have others: "other_interfaces s' = other_interfaces s"
    using anycast_of_Inr [OF i(1)]
    by (auto simp: i(2) other_interfaces_def list_all_iff filter_empty_conv)
  have dummies: "set (managed_dummies s') = set (b2_dummy_interfaces (ds_bird s'))"
    using addr by (auto simp: i(2) managed_dummies_def)
  show ?thesis
    unfolding normalize_dns_anycast_alt of others
    using dummies by (simp add: i(2))
qed

lemma ports_ok_anycast:
  assumes "ports_ok s" "normalize_dns_anycast s = Inr s'"
  shows "ports_ok s'"
proof -
  obtain is' where i: "anycast_of s = Inr is'" "ds_interfaces s' = other_interfaces s @ is'" "ds_runtime s' = ds_runtime s"
    using anycast_step [OF assms(2)] by auto
  have none: "wireguard_ports is' = []"
    using anycast_of_Inr [OF i(1)]
    by (cases is') (auto simp: wireguard_ports_def list_all_iff split: option.splits)
  have app: "wireguard_ports (xs @ ys) = wireguard_ports xs @ wireguard_ports ys" for xs ys
    by (simp add: wireguard_ports_def)
  have sub: "set (wireguard_ports (filter Q xs)) \<subseteq> set (wireguard_ports xs)" for Q xs
    by (auto simp: wireguard_ports_def)
  have d: "distinct (map fst (wireguard_ports (filter Q xs)))" if "distinct (map fst (wireguard_ports xs))" for Q xs
    using that
  proof (induction xs)
    case (Cons x xs)
    have c: "wireguard_ports (x # ys) = wireguard_ports [x] @ wireguard_ports ys" for ys
      by (simp add: wireguard_ports_def)
    show ?case
      using Cons sub [of Q xs] by (auto simp: c [of xs] c [of "filter Q xs"])
  qed (simp add: wireguard_ports_def)
  show ?thesis
    using assms(1) d [of "ds_interfaces s" "\<lambda>i. if_name i \<noteq> DNS_ANYCAST_INTERFACE"]
      sub [of "\<lambda>i. if_name i \<noteq> DNS_ANYCAST_INTERFACE" "ds_interfaces s"]
    by (fastforce simp: ports_ok_def i(2,3) app none other_interfaces_def)
qed

section \<open>Normalisation is idempotent\<close>

lemma only_services_simps:
  assumes "only_services s s'"
  shows "ds_node s' = ds_node s" "ds_bird s' = ds_bird s" "ds_interfaces s' = ds_interfaces s"
    "ds_bgp_sessions s' = ds_bgp_sessions s" "ds_dns s' = ds_dns s" "anycast_addresses s' = anycast_addresses s"
  using assms by (auto simp: only_services_def)

lemma validate_references_steps:
  assumes "validate_references s = Inr s'"
  obtains s1 where "checks (reference_checks s) s = Inr s" "ports_ok s1" "socket_ok s1" "dns_ok s1"
    "only_services s s1" "normalize_dns_anycast s1 = Inr s'"
proof -
  obtain a b c where n: "checks (reference_checks s) s = Inr s"
    "normalize_wireguard_port_publish_runtime s = Inr a" "normalize_bird_control_socket a = Inr b"
    "normalize_dns_runtime b = Inr c" "normalize_dns_anycast c = Inr s'"
    using assms by (auto simp: validate_references_def rbind_Inr_iff checks_Inr)
  have "only_services s c"
    using ports_step [OF n(2)] socket_step [OF n(3)] dns_step [OF n(4)]
    by (auto simp: only_services_def set_services_def)
  then show thesis
    using that n(1,5) ports_step [OF n(2)] socket_step [OF n(3)] dns_step [OF n(4)] by blast
qed

lemma reference_checks_again:
  assumes ok: "checks (reference_checks s) s = Inr s"
    and same: "ds_node s' = ds_node s" "ds_bgp_sessions s' = ds_bgp_sessions s"
      "b2_internal_topology (ds_bird s') = b2_internal_topology (ds_bird s)"
    and ifs: "distinct (map if_name (ds_interfaces s'))"
      "\<And>b i. b \<in> set (ds_bgp_sessions s) \<Longrightarrow> bgp_interface b = Some i \<Longrightarrow> i \<in> if_name ` set (ds_interfaces s) \<Longrightarrow>
         i \<in> if_name ` set (ds_interfaces s')"
  shows "checks (reference_checks s') s' = Inr s'"
proof -
  let ?used = "map the (filter truthy (map bgp_interface (ds_bgp_sessions s)))"
  have c: "distinct (map bgp_name (ds_bgp_sessions s))"
    "filter (\<lambda>i. i \<notin> set (map if_name (ds_interfaces s))) ?used = []"
    "filter (\<lambda>i. 1 < length (interface_asns s i)) (remdups ?used) = []"
    "\<not> (case b2_internal_topology (ds_bird s) of None \<Rightarrow> False
         | Some t \<Rightarrow> nd_node_id (ds_node s) \<notin> set (it_routers t @ it_private_nodes t))"
    using ok unfolding reference_checks_def Let_def checks_Inr list.pred_inject fst_conv not_not sort_Nil_iff
    by blast+
  have asns: "interface_asns s' = interface_asns s" by (rule ext) (simp add: interface_asns_def same)
  have "filter (\<lambda>i. i \<notin> set (map if_name (ds_interfaces s'))) ?used = []"
    unfolding filter_empty_conv
  proof
    fix i assume i: "i \<in> set ?used"
    then obtain b where b: "b \<in> set (ds_bgp_sessions s)" "bgp_interface b = Some i"
      by (auto simp: truthy_def)
    have "i \<in> if_name ` set (ds_interfaces s)" using c(2) i unfolding filter_empty_conv by auto
    then show "\<not> i \<notin> set (map if_name (ds_interfaces s'))" using ifs(2) [OF b] by simp
  qed
  then show ?thesis
    unfolding reference_checks_def Let_def checks_Inr list.pred_inject fst_conv not_not sort_Nil_iff same asns
    using c ifs(1) by simp
qed

text \<open>C28: normalising a desired state twice is normalising it once.  The state an accepted input turns
  into is accepted again and left unchanged, so a state served to an agent and validated there a second
  time gains nothing; sessions may use the managed anycast interface only while DNS provides it.\<close>

theorem normalisation_idempotent:
  assumes "validate_references s = Inr s'"
    and "\<forall>b\<in>set (ds_bgp_sessions s). bgp_interface b = Some DNS_ANYCAST_INTERFACE \<longrightarrow> anycast_addresses s \<noteq> []"
  shows "validate_references s' = Inr s'"
proof -
  obtain s1 where v: "checks (reference_checks s) s = Inr s" "ports_ok s1" "socket_ok s1" "dns_ok s1"
    "only_services s s1" "normalize_dns_anycast s1 = Inr s'"
    by (rule validate_references_steps [OF assms(1)])
  note o = only_services_simps [OF v(5)]
  note a = anycast_step [OF v(6)]
  have rt: "ds_runtime s' = ds_runtime s1" "ds_dns s' = ds_dns s1" using a by auto
  have "ports_ok s'" by (rule ports_ok_anycast [OF v(2,6)])
  moreover have "socket_ok s'" using v(3) by (simp add: socket_ok_def rt)
  moreover have "dns_ok s'" using v(4) by (simp add: dns_ok_def dns_active_def rt)
  moreover have "checks (reference_checks s') s' = Inr s'"
  proof (rule reference_checks_again [OF v(1)])
    obtain is' where i: "anycast_of s1 = Inr is'" "ds_interfaces s' = other_interfaces s1 @ is'" using a by auto
    note k = anycast_of_Inr [OF i(1)]
    have ifs: "distinct (map if_name (ds_interfaces s))"
      using v(1) unfolding reference_checks_def Let_def checks_Inr list.pred_inject by simp
    show "distinct (map if_name (ds_interfaces s'))"
      using ifs k by (cases is') (auto simp: i(2) other_interfaces_def o distinct_map_filter)
    show "j \<in> if_name ` set (ds_interfaces s')"
      if b: "b \<in> set (ds_bgp_sessions s)" "bgp_interface b = Some j" "j \<in> if_name ` set (ds_interfaces s)" for b j
    proof (cases "j = DNS_ANYCAST_INTERFACE")
      case True
      then have "is' \<noteq> []" using assms(2) b k o(6) by auto
      then show ?thesis using k True by (cases is') (auto simp: i(2))
    next
      case False
      then show ?thesis using b(3) by (auto simp: i(2) other_interfaces_def o)
    qed
  qed (use a o in auto)
  ultimately show ?thesis
    using ports_stable socket_stable dns_stable anycast_idem [OF v(6)] by (simp add: validate_references_def)
qed

definition example_state :: desired_state where
  "example_state =
     \<lparr>ds_generation = 4,
      ds_node = \<lparr>nd_node_id = ''hk1'', nd_site = ''hk'', nd_region = 52, nd_asn = 4242421234,
        nd_router_id = ''172.20.1.1'', nd_ipv4_prefixes = [], nd_ipv6_prefixes = [], nd_loopback_ipv4 = None,
        nd_loopback_ipv6 = None, nd_link_local = None\<rparr>,
      ds_runtime = example_runtime
        \<lparr>rt_wireguard_port_range := Some \<lparr>wr_start = 51820, wr_end = 51823, wr_host_start = None, wr_host_ip = None\<rparr>\<rparr>,
      ds_bird = \<lparr>b2_region = None, b2_internal_topology = None, b2_rejected_asns = [], b2_import_limit = 8500,
        b2_disable_ebgp = False, b2_export_ownnets = True, b2_dummy_interfaces = [], b2_stub_ifnames = [],
        b2_static_routes4 = [], b2_static_routes6 = [], b2_route_local_pref = []\<rparr>,
      ds_interfaces =
        [\<lparr>if_name = ''wg-a'', if_kind = WIREGUARD, if_mtu = Some 1420, if_addresses = [], if_peer_routes = [],
          if_listen_port = Some 51821, if_private_key_ref = Some ''secret://wg-a'', if_wireguard_peer = None\<rparr>],
      ds_bgp_sessions = [],
      ds_dns = Some \<lparr>dns_enabled = True, dns_bind_addresses = [''172.20.0.53''], dns_cache_ttl_seconds = 300,
        dns_zones = [], dns_forwards = []\<rparr>\<rparr>"

definition example_normalised :: desired_state where
  "example_normalised = (case validate_references example_state of Inr s \<Rightarrow> s | Inl _ \<Rightarrow> example_state)"

lemma example_state_accepted: "validate_references example_state = Inr example_normalised"
  by code_simp

theorem normalisation_idempotent_witness: "validate_references example_normalised = Inr example_normalised"
  by (rule normalisation_idempotent [OF example_state_accepted]) (simp add: example_state_def)

end
