(* ===== verification/Container_Definition.thy ===== *)
theory Container_Definition
  imports Desired_State
begin

text \<open>
  \<open>dn42_common/naming.py\<close>, \<open>labels.py\<close> and \<open>serialization.py\<close>, and the agent's
  \<open>planner/definition.py\<close>: the container definition whose payload is what the Docker API is
  sent, and whose canonical JSON is hashed into the container's identity.

  Arguments: \<open>sha\<close> is \<open>hashlib.sha256(..).hexdigest()\<close>, \<open>dockerfile\<close> the rendered Dockerfile
  (\<open>render_router_dockerfile\<close>, a template), \<open>on_disk\<close> tells which paths exist, and
  \<open>dir\<close> is the absolute rendered directory as its path parts.
\<close>

section \<open>naming.py\<close>

definition name_char :: "char \<Rightarrow> bool" where
  "name_char c \<longleftrightarrow> is_alnum c \<or> c = CHR ''_'' \<or> c = CHR ''-''"

fun squeeze :: "bool \<Rightarrow> string \<Rightarrow> string" where
  "squeeze inside [] = []"
| "squeeze inside (c # cs) =
     (if name_char c then c # squeeze False cs
      else if inside then squeeze True cs else CHR ''-'' # squeeze True cs)"

definition normalize_identifier :: "string \<Rightarrow> string" where
  "normalize_identifier value = lower (strip_by (\<lambda>c. c = CHR ''-'') (squeeze False value))"

definition node_project_name_of :: "string \<Rightarrow> string option \<Rightarrow> string" where
  "node_project_name_of node_id override =
     (if truthy override then the override else ''dn42-'' @ normalize_identifier node_id)"

definition service_container_name :: "string \<Rightarrow> string \<Rightarrow> string" where
  "service_container_name project service = project @ ''-'' @ normalize_identifier service @ ''-1''"

definition agent_id_for :: "string \<Rightarrow> string" where
  "agent_id_for node_id = node_id @ ''-agent''"

definition node_project_name :: "desired_state \<Rightarrow> string" where
  "node_project_name s = node_project_name_of (nd_node_id (ds_node s)) (rt_project_name (ds_runtime s))"

definition service_container_by_role :: "desired_state \<Rightarrow> service_role \<Rightarrow> string option" where
  "service_container_by_role s role =
     map_option (\<lambda>x. service_container_name (node_project_name s) (svc_name x))
       (find (\<lambda>x. svc_enabled x \<and> svc_role x = role) (rt_services (ds_runtime s)))"

section \<open>labels.py\<close>

definition network_labels :: "(string \<times> string) list" where
  "network_labels = [(''dn42.managed'', ''true'')]"

definition container_labels :: "string \<Rightarrow> string \<Rightarrow> string \<Rightarrow> (string \<times> string) list" where
  "container_labels node_id component config_hash =
     [(''dn42.managed'', ''true''), (''dn42.node_id'', node_id), (''dn42.config_hash'', config_hash),
      (''dn42.component'', component)]"

definition node_id_filter :: "string \<Rightarrow> string list" where
  "node_id_filter node_id = [''dn42.node_id='' @ node_id]"

section \<open>serialization.py\<close>

datatype json = JNull | JBool bool | JInt int | JStr string | JList "json list" | JObj "(string \<times> json) list"

definition hex4 :: "int \<Rightarrow> string" where
  "hex4 n = map (\<lambda>i. hex_char (n div 16 ^ i mod 16)) [3, 2, 1, 0]"

definition json_char :: "char \<Rightarrow> string" where
  "json_char c =
     (let n = (of_char c :: int); bs = CHR 0x5C in
      if c = CHR 0x22 then [bs, CHR 0x22] else if c = bs then [bs, bs]
      else if n = 10 then [bs, CHR ''n''] else if n = 13 then [bs, CHR ''r'']
      else if n = 9 then [bs, CHR ''t''] else if n = 8 then [bs, CHR ''b'']
      else if n = 12 then [bs, CHR ''f'']
      else if n < 32 then bs # CHR ''u'' # hex4 n else [c])"

definition json_string :: "string \<Rightarrow> string" where
  "json_string s = [CHR 0x22] @ concat (map json_char s) @ [CHR 0x22]"

fun canonical_json_dumps :: "json \<Rightarrow> string" where
  "canonical_json_dumps JNull = ''null''"
| "canonical_json_dumps (JBool b) = (if b then ''true'' else ''false'')"
| "canonical_json_dumps (JInt n) = str_int n"
| "canonical_json_dumps (JStr s) = json_string s"
| "canonical_json_dumps (JList xs) = ''['' @ join '','' (map canonical_json_dumps xs) @ '']''"
| "canonical_json_dumps (JObj kvs) =
     [CHR 0x7B] @ join '',''
       (map (\<lambda>(k, v). json_string k @ '':'' @ v)
          (sort_key fst (map (\<lambda>(k, v). (k, canonical_json_dumps v)) kvs))) @ [CHR 0x7D]"

definition canonical_sha256_hex :: "(string \<Rightarrow> string) \<Rightarrow> json \<Rightarrow> string" where
  "canonical_sha256_hex sha obj = sha (canonical_json_dumps obj)"

section \<open>definition.py\<close>

record container_definition =
  cd_node_id :: string
  cd_service_name :: string
  cd_role :: string
  cd_container_name :: string
  cd_network_name :: string
  cd_payload :: "(string \<times> json) list"
  cd_dockerfile :: "string option"
  cd_config_hash :: string

definition payload_hash :: "(string \<Rightarrow> string) \<Rightarrow> (string \<times> json) list \<Rightarrow> string" where
  "payload_hash sha payload = take 16 (canonical_sha256_hex sha (JObj payload))"

definition definition_labels :: "container_definition \<Rightarrow> (string \<times> string) list" where
  "definition_labels d = container_labels (cd_node_id d) (cd_role d) (cd_config_hash d)"

definition diff_payload_keys :: "(string \<times> json) list \<Rightarrow> (string \<times> json) list \<Rightarrow> string list" where
  "diff_payload_keys old new =
     sort (filter (\<lambda>k. map_of old k \<noteq> map_of new k) (remdups (map fst old @ map fst new)))"

definition json_opt :: "('a \<Rightarrow> json) \<Rightarrow> 'a option \<Rightarrow> json" where
  "json_opt f x = (case x of None \<Rightarrow> JNull | Some y \<Rightarrow> f y)"

definition json_dict :: "(string \<times> string) list \<Rightarrow> json" where
  "json_dict kvs = JObj (map (\<lambda>(k, v). (k, JStr v)) (sort kvs))"

definition image_section ::
  "(string \<Rightarrow> string) \<Rightarrow> (router_dockerfile \<Rightarrow> string) \<Rightarrow> desired_state \<Rightarrow> runtime_service \<Rightarrow> string \<Rightarrow>
   (json \<times> string option) res" where
  "image_section sha dockerfile s x project =
     (case svc_build x of
        Some b \<Rightarrow>
          let df = dockerfile (rt_router_dockerfile (ds_runtime s)) in
          Inr (JObj [(''build'', JObj
                 [(''tag'', JStr (project @ ''-'' @ svc_name x @ '':latest'')),
                  (''target'', json_opt JStr (bs_target b)),
                  (''args'', json_dict (bs_args b)),
                  (''dockerfile_sha256'', JStr (sha df))])], Some df)
      | None \<Rightarrow>
          (case svc_image x of
             None \<Rightarrow> Inl (ValueError (''runtime service '' @ svc_name x @ '' is missing image/build configuration''))
           | Some img \<Rightarrow> Inr (JObj [(''ref'', JStr img)], None)))"

text \<open>\<open>str((dir / source).resolve())\<close> and \<open>str(Path(source))\<close> for an absolute source, without symbolic links.\<close>

definition resolve_below :: "string list \<Rightarrow> string \<Rightarrow> string list" where
  "resolve_below dir source =
     foldl (\<lambda>acc w. if w = [] \<or> w = ''.'' then acc else if w = ''..'' then butlast acc else acc @ [w])
       (if starts_with ''/'' source then [] else dir) (split_on (CHR ''/'') source)"

definition path_string :: "string list \<Rightarrow> string" where
  "path_string p = ''/'' @ join ''/'' p"

definition resolve_volume_source :: "(string list \<Rightarrow> bool) \<Rightarrow> string list \<Rightarrow> volume_mount \<Rightarrow> string" where
  "resolve_volume_source on_disk dir mount =
     (let source = vm_source mount; bs = CHR 0x5C in
      if starts_with ''./'' source \<or> starts_with [CHR ''.'', bs] source
      then path_string (resolve_below dir (drop 2 source))
      else if starts_with ''/'' source
      then path_string (filter (\<lambda>w. w \<noteq> [] \<and> w \<noteq> ''.'') (split_on (CHR ''/'') source))
      else if on_disk (resolve_below dir source) then path_string (resolve_below dir source)
      else if CHR ''/'' \<in> set source \<or> bs \<in> set source \<or> starts_with ''.'' source
      then path_string (resolve_below dir source)
      else source)"

definition bind_entries :: "(string list \<Rightarrow> bool) \<Rightarrow> string list \<Rightarrow> volume_mount list \<Rightarrow> json" where
  "bind_entries on_disk dir volumes =
     JList (map (\<lambda>(source, target, mode). JObj [(''source'', JStr source), (''target'', JStr target), (''mode'', JStr mode)])
       (sort_key (\<lambda>(source, target, mode). (source, target))
          (map (\<lambda>m. (resolve_volume_source on_disk dir m, vm_target m, if vm_readonly m then ''ro'' else ''rw'')) volumes)))"

record port_entry =
  pe_host_ip :: "string option"
  pe_host_port :: "int option"
  pe_container_port :: int
  pe_protocol :: string

text \<open>\<open>_ \<or> _\<close> on optional ports.\<close>

definition or_else :: "int option \<Rightarrow> int option \<Rightarrow> int option" where
  "or_else x y = (if x = None \<or> x = Some 0 then y else x)"

definition expand_port :: "port_publish \<Rightarrow> port_entry list" where
  "expand_port p =
     (let container_end = (case or_else (pp_container_port_end p) None of Some e \<Rightarrow> e | None \<Rightarrow> pp_container_port p);
          host_end = or_else (pp_host_port_end p) (pp_host_port p) in
      map (\<lambda>container_port.
            let host_port = map_option (\<lambda>hp. hp + (container_port - pp_container_port p)) (pp_host_port p);
                host_port' = (case (host_port, host_end) of
                                (Some h, Some e) \<Rightarrow> if e < h then None else host_port
                              | _ \<Rightarrow> host_port) in
            \<lparr>pe_host_ip = pp_host_ip p, pe_host_port = host_port', pe_container_port = container_port,
             pe_protocol = pp_protocol p\<rparr>)
          [pp_container_port p .. container_end])"

text \<open>The \<open>seen\<close> set keeps the first entry of each key.\<close>

fun keep_first :: "'a list \<Rightarrow> 'a list \<Rightarrow> 'a list" where
  "keep_first seen [] = []"
| "keep_first seen (x # xs) = (if x \<in> set seen then keep_first seen xs else x # keep_first (x # seen) xs)"

definition port_entry_order :: "port_entry \<Rightarrow> int \<times> string \<times> int \<times> string" where
  "port_entry_order e =
     (pe_container_port e, pe_protocol e, or_zero (pe_host_port e),
      case pe_host_ip e of Some ip \<Rightarrow> ip | None \<Rightarrow> [])"

definition port_entries :: "runtime_service \<Rightarrow> port_entry list" where
  "port_entries x = sort_key port_entry_order (keep_first [] (concat (map expand_port (svc_ports x))))"

definition port_json :: "port_entry \<Rightarrow> json" where
  "port_json e =
     JObj [(''host_ip'', json_opt JStr (pe_host_ip e)), (''host_port'', json_opt JInt (pe_host_port e)),
           (''container_port'', JInt (pe_container_port e)), (''protocol'', JStr (pe_protocol e))]"

definition network_section ::
  "desired_state \<Rightarrow> runtime_service \<Rightarrow> string \<Rightarrow> string \<Rightarrow> string \<Rightarrow> json res" where
  "network_section s x project network_name container_name =
     (case svc_network_mode x of
        Some (c # cs) \<Rightarrow>
          (let mode = c # cs in
           if starts_with ''service:'' mode
           then Inr (JObj [(''mode'', JStr (''container:'' @ service_container_name project (after_first (CHR '':'') mode)))])
           else Inr (JObj [(''mode'', JStr mode)]))
      | _ \<Rightarrow>
          rbind (resolve_service_ipv4 (ds_runtime s) x) (\<lambda>ipv4.
            let ul = rt_underlay (ds_runtime s) in
            Inr (JObj [(''attach'', JObj
              ([(''network'', JStr network_name), (''subnet'', JStr (ul_subnet ul)), (''gateway'', JStr (ul_gateway ul)),
                (''ipv4_address'', json_opt JStr ipv4), (''aliases'', JList [JStr (svc_name x), JStr container_name])]
               @ (if truthy (ul_ipv6_subnet ul)
                  then [(''ipv6_subnet'', json_opt JStr (ul_ipv6_subnet ul)),
                        (''ipv6_gateway'', json_opt JStr (ul_ipv6_gateway ul))] else [])))])))"

definition healthcheck_section :: "desired_state \<Rightarrow> runtime_service \<Rightarrow> json" where
  "healthcheck_section s x =
     json_opt (\<lambda>h. JObj
       [(''test'', JList (map JStr (hc_test h))), (''interval_seconds'', JInt (hc_interval_seconds h)),
        (''timeout_seconds'', JInt (hc_timeout_seconds h)), (''retries'', JInt (hc_retries h)),
        (''start_period_seconds'', JInt (hc_start_period_seconds h))])
       (resolve_service_healthcheck (ds_runtime s) x)"

record build_env =
  be_sha :: "string \<Rightarrow> string"
  be_dockerfile :: "router_dockerfile \<Rightarrow> string"
  be_on_disk :: "string list \<Rightarrow> bool"
  be_dir :: "string list"

definition build_definition ::
  "build_env \<Rightarrow> desired_state \<Rightarrow> runtime_service \<Rightarrow> string \<Rightarrow> string \<Rightarrow> container_definition res" where
  "build_definition env s x project network_name =
     (let container_name = service_container_name project (svc_name x) in
      rbind (image_section (be_sha env) (be_dockerfile env) s x project) (\<lambda>(img, dockerfile).
      rbind (network_section s x project network_name container_name) (\<lambda>network.
        let payload =
          [(''name'', JStr container_name), (''image'', img), (''command'', JList (map JStr (svc_command x))),
           (''environment'', json_dict (svc_environment x)),
           (''binds'', bind_entries (be_on_disk env) (be_dir env) (svc_volumes x)),
           (''ports'', JList (map port_json (port_entries x))), (''network'', network),
           (''cap_add'', JList (map JStr (sort (resolve_service_cap_add x)))),
           (''devices'', JList (map JStr (sort (svc_devices x)))),
           (''sysctls'', json_dict (resolve_service_sysctls x)),
           (''healthcheck'', healthcheck_section s x), (''restart_policy'', JStr ''unless-stopped''),
           (''init'', JBool True)] in
        Inr \<lparr>cd_node_id = nd_node_id (ds_node s), cd_service_name = svc_name x, cd_role = role_value (svc_role x),
             cd_container_name = container_name, cd_network_name = network_name, cd_payload = payload,
             cd_dockerfile = dockerfile, cd_config_hash = payload_hash (be_sha env) payload\<rparr>)))"

definition build_node_definitions :: "build_env \<Rightarrow> desired_state \<Rightarrow> (string \<times> container_definition) list res" where
  "build_node_definitions env s =
     (let project = node_project_name s;
          network_name = project @ ''_'' @ ul_name (rt_underlay (ds_runtime s)) in
      rbind (rmap (\<lambda>x. rbind (build_definition env s x project network_name) (\<lambda>d. Inr (svc_name x, d)))
               (enabled_services (ds_runtime s)))
        (\<lambda>kvs. Inr (dict_of kvs)))"

end
