(* ===== verification/Container_Plan.thy ===== *)
theory Container_Plan
  imports Container_Definition
begin

text \<open>
  The agent's \<open>planner/container_plan.py\<close>: per enabled service create, recreate or keep, the
  propagation of rebuilds along \<open>depends_on\<close> and shared network namespaces, and the removal of managed
  containers that are no longer desired.
\<close>

section \<open>Definitions\<close>

datatype container_action = CREATE | RECREATE | KEEP | REMOVE

record observed_container =
  oc_name :: string
  oc_role :: "service_role option"
  oc_image :: "string option"
  oc_config_hash :: "string option"
  oc_status :: resource_status
  oc_healthy :: "bool option"

record container_step =
  cs_service_name :: "string option"
  cs_container_name :: string
  cs_action :: container_action
  cs_reason :: string
  cs_definition :: "container_definition option"

record container_plan =
  cp_project_name :: string
  cp_steps :: "container_step list"

type_synonym decision = "container_action \<times> string"
type_synonym decisions = "(string \<times> decision) list"

text \<open>A stored definition record: its \<open>config_hash\<close> and, when it is a dictionary, its \<open>payload\<close>.\<close>

record definition_record =
  dr_config_hash :: "string option"
  dr_payload :: "(string \<times> json) list option"

definition desired_hashes :: "container_plan \<Rightarrow> (string \<times> string) list" where
  "desired_hashes plan =
     dict_of (concat (map (\<lambda>st. case cs_definition st of
                              Some d \<Rightarrow> [(cs_container_name st, cd_config_hash d)] | None \<Rightarrow> [])
                        (cp_steps plan)))"

definition show_opt :: "string option \<Rightarrow> string" where
  "show_opt x = (case x of Some s \<Rightarrow> s | None \<Rightarrow> ''None'')"

definition drift_reason ::
  "container_definition \<Rightarrow> observed_container \<Rightarrow> definition_record option \<Rightarrow> string" where
  "drift_reason d existing previous =
     (let plain = ''definition drift (observed='' @ show_opt (oc_config_hash existing) @ '', desired=''
                  @ cd_config_hash d @ '')'' in
      case previous of
        None \<Rightarrow> plain
      | Some r \<Rightarrow>
          (case dr_payload r of
             None \<Rightarrow> plain
           | Some payload \<Rightarrow>
               if dr_config_hash r = oc_config_hash existing
               then let changed = diff_payload_keys payload (cd_payload d) in
                    if changed \<noteq> [] then ''definition changed: '' @ join '', '' changed else plain
               else plain))"

definition decide_action ::
  "container_definition \<Rightarrow> observed_container option \<Rightarrow> definition_record option \<Rightarrow> decision" where
  "decide_action d existing previous =
     (case existing of
        None \<Rightarrow> (CREATE, ''container missing'')
      | Some c \<Rightarrow>
          if oc_config_hash c \<noteq> Some (cd_config_hash d) then (RECREATE, drift_reason d c previous)
          else if oc_status c \<noteq> RUNNING
          then (RECREATE, ''observed status='' @ resource_status_value (oc_status c))
          else if oc_healthy c = Some False
          then (RECREATE, ''running but unhealthy (service liveness probe failing)'')
          else (KEEP, ''definition hash matches''))"

text \<open>The dependencies that have a decision: declared ones and the owner of a shared namespace.\<close>

definition dependencies :: "decisions \<Rightarrow> runtime_service \<Rightarrow> string list" where
  "dependencies ds x =
     filter (\<lambda>d. d \<in> fst ` set ds) (svc_depends_on x) @
     (case svc_network_mode x of
        Some mode \<Rightarrow>
          if starts_with ''service:'' mode
          then (let target = after_first (CHR '':'') mode in if target \<in> fst ` set ds then [target] else [])
          else []
      | None \<Rightarrow> [])"

definition action_of :: "decisions \<Rightarrow> string \<Rightarrow> container_action option" where
  "action_of ds n = map_option fst (map_of ds n)"

definition rebuilding :: "decisions \<Rightarrow> string \<Rightarrow> bool" where
  "rebuilding ds n \<longleftrightarrow> action_of ds n = Some CREATE \<or> action_of ds n = Some RECREATE"

definition rebuilt_deps :: "decisions \<Rightarrow> runtime_service \<Rightarrow> string list" where
  "rebuilt_deps ds x = sort (filter (rebuilding ds) (remdups (dependencies ds x)))"

text \<open>One visit of the inner loop, one sweep over the services, and the outer loop: it sweeps again
  while a sweep changed something.\<close>

definition visit :: "runtime_service \<Rightarrow> decisions \<Rightarrow> decisions" where
  "visit x ds =
     (if action_of ds (svc_name x) = Some KEEP \<and> rebuilt_deps ds x \<noteq> []
      then dput (svc_name x) (RECREATE, ''dependency recreated: '' @ join '', '' (rebuilt_deps ds x)) ds
      else ds)"

definition sweep :: "runtime_service list \<Rightarrow> decisions \<Rightarrow> decisions" where
  "sweep services ds = fold visit services ds"

definition kept :: "decisions \<Rightarrow> nat" where
  "kept ds = length (filter (\<lambda>(_, a, _). a = KEEP) ds)"

lemma kept_dput:
  "action_of ds n = Some KEEP \<Longrightarrow> a \<noteq> KEEP \<Longrightarrow> kept (dput n (a, r) ds) < kept ds"
  by (induction n "(a, r)" ds rule: dput.induct) (auto simp: kept_def action_of_def split: if_splits)

lemma visit_kept: "visit x ds \<noteq> ds \<Longrightarrow> kept (visit x ds) < kept ds"
  by (simp add: visit_def kept_dput split: if_splits)

lemma sweep_kept: "sweep services ds \<noteq> ds \<Longrightarrow> kept (sweep services ds) < kept ds"
proof (induction services arbitrary: ds)
  case (Cons x xs)
  have s: "sweep (x # xs) ds = sweep xs (visit x ds)" by (simp add: sweep_def)
  show ?case
  proof (cases "visit x ds = ds")
    case True
    then show ?thesis using Cons s by simp
  next
    case False
    then have v: "kept (visit x ds) < kept ds" by (rule visit_kept)
    show ?thesis
      using Cons.IH [of "visit x ds"] v s by (cases "sweep xs (visit x ds) = visit x ds") auto
  qed
qed (simp add: sweep_def)

function propagate_dependencies :: "runtime_service list \<Rightarrow> decisions \<Rightarrow> decisions" where
  "propagate_dependencies services ds =
     (let ds' = sweep services ds in if ds' \<noteq> ds then propagate_dependencies services ds' else ds)"
  by pat_completeness auto
termination
  by (relation "measure (\<lambda>(_, ds). kept ds)") (auto intro: sweep_kept)

declare propagate_dependencies.simps [simp del]

definition initial_decisions ::
  "(string \<times> container_definition) list \<Rightarrow> observed_container list \<Rightarrow> (string \<times> definition_record) list \<Rightarrow>
   runtime_service list \<Rightarrow> decisions" where
  "initial_decisions definitions observed previous enabled =
     (let by_name = dict_of (map (\<lambda>c. (oc_name c, c)) observed) in
      dict_of (map (\<lambda>x. let d = the (map_of definitions (svc_name x)) in
        (svc_name x, decide_action d (map_of by_name (cd_container_name d)) (map_of previous (cd_container_name d))))
        enabled))"

definition service_step :: "(string \<times> container_definition) list \<Rightarrow> decisions \<Rightarrow> runtime_service \<Rightarrow> container_step" where
  "service_step definitions ds x =
     (let d = the (map_of definitions (svc_name x)); (a, r) = the (map_of ds (svc_name x)) in
      \<lparr>cs_service_name = Some (svc_name x), cs_container_name = cd_container_name d, cs_action = a,
       cs_reason = r, cs_definition = Some d\<rparr>)"

definition remove_steps :: "(string \<times> container_definition) list \<Rightarrow> observed_container list \<Rightarrow> container_step list" where
  "remove_steps definitions observed =
     map (\<lambda>c. \<lparr>cs_service_name = None, cs_container_name = oc_name c, cs_action = REMOVE,
               cs_reason = ''managed container is no longer desired'', cs_definition = None\<rparr>)
       (filter (\<lambda>c. oc_name c \<notin> (\<lambda>(_, d). cd_container_name d) ` set definitions) observed)"

definition build_container_plan ::
  "build_env \<Rightarrow> desired_state \<Rightarrow> observed_container list \<Rightarrow> (string \<times> definition_record) list \<Rightarrow> container_plan res" where
  "build_container_plan env s observed previous =
     rbind (build_node_definitions env s) (\<lambda>definitions.
       let enabled = enabled_services (ds_runtime s);
           ds = propagate_dependencies enabled (initial_decisions definitions observed previous enabled) in
       Inr \<lparr>cp_project_name = node_project_name s,
            cp_steps = map (service_step definitions ds) enabled @ remove_steps definitions observed\<rparr>)"

section \<open>One visit\<close>

lemma action_of_dput: "action_of (dput k (a, r) ds) n = (if n = k then Some a else action_of ds n)"
  by (simp add: action_of_def)

lemma visit_keys [simp]: "fst ` set (visit x ds) = fst ` set ds"
  by (auto simp: visit_def keys_dput action_of_def dest!: map_of_SomeD intro: rev_image_eqI)

lemma sweep_keys [simp]: "fst ` set (sweep xs ds) = fst ` set ds"
  by (induction xs arbitrary: ds) (simp_all add: sweep_def)

lemma dependencies_cong: "fst ` set ds = fst ` set ds' \<Longrightarrow> dependencies ds x = dependencies ds' x"
  by (simp only: dependencies_def)

lemma visit_action:
  "action_of (visit x ds) n =
     (if n = svc_name x \<and> action_of ds n = Some KEEP \<and> rebuilt_deps ds x \<noteq> [] then Some RECREATE else action_of ds n)"
  by (auto simp: visit_def action_of_dput)

lemma rebuilt_deps_nonempty: "rebuilt_deps ds x \<noteq> [] \<longleftrightarrow> (\<exists>d\<in>set (dependencies ds x). rebuilding ds d)"
  unfolding rebuilt_deps_def sort_Nil_iff filter_empty_conv by auto

lemma fold_visit_fixed:
  assumes "sweep xs ds = ds" "x \<in> set xs"
  shows "visit x ds = ds"
  using assms
proof (induction xs)
  case (Cons y ys)
  have s: "sweep (y # ys) ds = sweep ys (visit y ds)" by (simp add: sweep_def)
  have v: "visit y ds = ds"
  proof (rule ccontr)
    assume "visit y ds \<noteq> ds"
    then have lt: "kept (visit y ds) < kept ds" by (rule visit_kept)
    have "kept (sweep ys (visit y ds)) \<le> kept (visit y ds)"
      using sweep_kept [of ys "visit y ds"] by (cases "sweep ys (visit y ds) = visit y ds") auto
    then show False using lt Cons.prems(1) s by simp
  qed
  then show ?case using Cons s by (cases "x = y") auto
qed simp

section \<open>The propagation loop\<close>

definition dep_edges :: "runtime_service list \<Rightarrow> decisions \<Rightarrow> (string \<times> string) set" where
  "dep_edges services ds = {(svc_name x, d) |x d. x \<in> set services \<and> d \<in> set (dependencies ds x)}"

text \<open>Facts every state of the loop shares with the first one.\<close>

definition grows_from :: "runtime_service list \<Rightarrow> decisions \<Rightarrow> decisions \<Rightarrow> bool" where
  "grows_from services ds ds' \<longleftrightarrow>
     fst ` set ds' = fst ` set ds \<and>
     (\<forall>n. action_of ds' n = action_of ds n \<or>
          (action_of ds n = Some KEEP \<and> action_of ds' n = Some RECREATE \<and>
           (\<exists>m. (n, m) \<in> (dep_edges services ds)\<^sup>+ \<and> rebuilding ds m)))"

lemma grows_from_rebuilding:
  assumes "grows_from services ds ds'" "rebuilding ds' d"
  shows "\<exists>m. (d, m) \<in> (dep_edges services ds)\<^sup>* \<and> rebuilding ds m"
  using assms unfolding grows_from_def rebuilding_def by (metis rtrancl.rtrancl_refl trancl_into_rtrancl)

lemma grows_from_visit:
  assumes g: "grows_from services ds ds'" and x: "x \<in> set services"
  shows "grows_from services ds (visit x ds')"
  unfolding grows_from_def
proof (intro conjI allI)
  show "fst ` set (visit x ds') = fst ` set ds" using g by (simp add: grows_from_def)
  fix n
  show "action_of (visit x ds') n = action_of ds n \<or>
        (action_of ds n = Some KEEP \<and> action_of (visit x ds') n = Some RECREATE \<and>
         (\<exists>m. (n, m) \<in> (dep_edges services ds)\<^sup>+ \<and> rebuilding ds m))"
  proof (cases "n = svc_name x \<and> action_of ds' n = Some KEEP \<and> rebuilt_deps ds' x \<noteq> []")
    case True
    then obtain d where d: "d \<in> set (dependencies ds' x)" "rebuilding ds' d"
      using rebuilt_deps_nonempty by blast
    have "fst ` set ds' = fst ` set ds" using g by (simp add: grows_from_def)
    then have e: "(n, d) \<in> dep_edges services ds"
      using d(1) x True dependencies_cong [of ds' ds x] by (auto simp: dep_edges_def)
    obtain m where m: "(d, m) \<in> (dep_edges services ds)\<^sup>*" "rebuilding ds m"
      using grows_from_rebuilding [OF g d(2)] by blast
    have "action_of ds n = Some KEEP" using g True unfolding grows_from_def
      by (metis container_action.distinct(7) option.inject)
    then show ?thesis using True e m by (auto simp: visit_action intro: rtrancl_into_trancl2)
  next
    case False
    then have "action_of (visit x ds') n = action_of ds' n" by (simp only: visit_action if_False)
    then show ?thesis using g unfolding grows_from_def by metis
  qed
qed

lemma grows_from_sweep:
  assumes "grows_from services ds ds'" "set xs \<subseteq> set services"
  shows "grows_from services ds (sweep xs ds')"
  using assms
proof (induction xs arbitrary: ds')
  case (Cons x xs)
  then show ?case using grows_from_visit [of services ds ds' x] by (simp add: sweep_def)
qed (simp add: sweep_def)

lemma propagate_step:
  "sweep services ds \<noteq> ds \<Longrightarrow>
   propagate_dependencies services ds = propagate_dependencies services (sweep services ds)"
  "sweep services ds = ds \<Longrightarrow> propagate_dependencies services ds = ds"
  by (subst propagate_dependencies.simps, simp add: Let_def)+

lemma propagate_induct:
  assumes "P ds" "\<And>d. P d \<Longrightarrow> P (sweep services d)"
  shows "P (propagate_dependencies services ds) \<and>
         sweep services (propagate_dependencies services ds) = propagate_dependencies services ds"
  using assms(1)
proof (induction "kept ds" arbitrary: ds rule: less_induct)
  case less
  show ?case
  proof (cases "sweep services ds = ds")
    case True
    show ?thesis unfolding propagate_step(2) [OF True] using less.prems True by simp
  next
    case False
    show ?thesis unfolding propagate_step(1) [OF False]
      by (rule less.hyps [OF sweep_kept [OF False] assms(2) [OF less.prems]])
  qed
qed

lemma propagate_grows: "grows_from services ds (propagate_dependencies services ds)"
  using propagate_induct [of "grows_from services ds" ds services] grows_from_sweep [of services ds _ services]
  by (auto simp: grows_from_def)

lemma propagate_closed:
  assumes "x \<in> set services" "action_of (propagate_dependencies services ds) (svc_name x) = Some KEEP"
  shows "\<not> (\<exists>d\<in>set (dependencies ds x). rebuilding (propagate_dependencies services ds) d)"
proof -
  let ?r = "propagate_dependencies services ds"
  have "sweep services ?r = ?r" using propagate_induct [of "\<lambda>_. True" ds services] by simp
  then have "visit x ?r = ?r" using assms(1) fold_visit_fixed by blast
  then have "rebuilt_deps ?r x = []"
    using visit_action [of x ?r "svc_name x"] assms(2) by (auto split: if_splits)
  moreover have "dependencies ?r x = dependencies ds x"
    using propagate_grows [of services ds] by (intro dependencies_cong) (simp add: grows_from_def)
  ultimately show ?thesis using rebuilt_deps_nonempty by metis
qed

text \<open>Decisions as the planner starts with: one for each service, none of them a removal.\<close>

definition decisions_for :: "runtime_service list \<Rightarrow> decisions \<Rightarrow> bool" where
  "decisions_for services ds \<longleftrightarrow>
     fst ` set ds = svc_name ` set services \<and> REMOVE \<notin> (\<lambda>(_, a, _). a) ` set ds"

lemma decisions_for_action: "decisions_for services ds \<Longrightarrow> action_of ds n \<noteq> Some REMOVE"
  by (auto simp: decisions_for_def action_of_def image_iff dest!: map_of_SomeD)

lemma propagate_reaches:
  assumes "decisions_for services ds" "(n, m) \<in> (dep_edges services ds)\<^sup>*" "rebuilding ds m"
  shows "rebuilding (propagate_dependencies services ds) n"
  using assms(2)
proof (induction rule: converse_rtrancl_induct)
  case base
  then show ?case
    using propagate_grows [of services ds] assms(3) unfolding grows_from_def rebuilding_def
    by (metis)
next
  case (step n d)
  obtain x where x: "x \<in> set services" "n = svc_name x" "d \<in> set (dependencies ds x)"
    using step.hyps(1) by (auto simp: dep_edges_def)
  let ?r = "propagate_dependencies services ds"
  have "n \<in> fst ` set ds" using assms(1) x by (auto simp: decisions_for_def)
  then have "n \<in> fst ` set ?r" using propagate_grows [of services ds] by (simp add: grows_from_def)
  then obtain a where a: "action_of ?r n = Some a"
    by (metis action_of_def map_of_eq_None_iff not_None_eq option.simps(9))
  have "a \<noteq> REMOVE"
    using propagate_grows [of services ds] decisions_for_action [OF assms(1)] a unfolding grows_from_def
    by (metis container_action.distinct(9) option.inject)
  moreover have "a \<noteq> KEEP" using propagate_closed [OF x(1), of ds] a x step.IH by auto
  ultimately show ?case using a by (cases a) (auto simp: rebuilding_def)
qed

text \<open>C23: rebuilds spread to exactly the dependents.  The loop ends, and then a service is created or
  recreated if and only if it reaches, along declared dependencies and shared namespaces, a service that
  was to be created or recreated from the start.\<close>

theorem propagation_is_reachability:
  assumes "decisions_for services ds"
  shows "rebuilding (propagate_dependencies services ds) n \<longleftrightarrow>
         (\<exists>m. (n, m) \<in> (dep_edges services ds)\<^sup>* \<and> rebuilding ds m)"
  using grows_from_rebuilding [OF propagate_grows] propagate_reaches [OF assms] by blast

definition example_services :: "runtime_service list" where
  "example_services =
     [example_service ''bird'' BIRD_ROUTER [], example_service ''wg'' WG_GATEWAY [],
      example_service ''netns'' ROUTER_NETNS [], (example_service ''rpki'' RPKI_CACHE [])
        \<lparr>svc_network_mode := None, svc_depends_on := []\<rparr>]"

definition example_decisions :: decisions where
  "example_decisions =
     [(''bird'', KEEP, []), (''wg'', KEEP, []), (''netns'', RECREATE, ''drift''), (''rpki'', KEEP, [])]"

theorem propagation_is_reachability_witness:
  "\<exists>m. (''bird'', m) \<in> (dep_edges example_services example_decisions)\<^sup>* \<and> rebuilding example_decisions m"
proof -
  have "rebuilding (propagate_dependencies example_services example_decisions) ''bird''" by code_simp
  moreover have "decisions_for example_services example_decisions" by code_simp
  ultimately show ?thesis using propagation_is_reachability [of example_services example_decisions "''bird''"] by simp
qed

section \<open>The plan\<close>

definition settled ::
  "(string \<times> container_definition) list \<Rightarrow> observed_container list \<Rightarrow> string \<Rightarrow> bool" where
  "settled definitions observed name \<longleftrightarrow>
     (let d = the (map_of definitions name) in
      case map_of (dict_of (map (\<lambda>c. (oc_name c, c)) observed)) (cd_container_name d) of
        None \<Rightarrow> False
      | Some c \<Rightarrow> oc_config_hash c = Some (cd_config_hash d) \<and> oc_status c = RUNNING \<and> oc_healthy c \<noteq> Some False)"

lemma decide_action_simps:
  "fst (decide_action d e p) \<noteq> REMOVE"
  "fst (decide_action d e p) = CREATE \<longleftrightarrow> e = None"
  "fst (decide_action d e p) = KEEP \<longleftrightarrow>
     (\<exists>c. e = Some c \<and> oc_config_hash c = Some (cd_config_hash d) \<and> oc_status c = RUNNING \<and> oc_healthy c \<noteq> Some False)"
  by (auto simp: decide_action_def split: option.splits)

lemma map_of_keyed:
  "distinct (map k xs) \<Longrightarrow> x \<in> set xs \<Longrightarrow> map_of (map (\<lambda>x. (k x, f x)) xs) (k x) = Some (f x)"
  by (rule map_of_is_SomeI) (auto simp: comp_def)

definition first_decision ::
  "(string \<times> container_definition) list \<Rightarrow> observed_container list \<Rightarrow> (string \<times> definition_record) list \<Rightarrow>
   string \<Rightarrow> decision" where
  "first_decision definitions observed previous name =
     (let d = the (map_of definitions name) in
      decide_action d (map_of (dict_of (map (\<lambda>c. (oc_name c, c)) observed)) (cd_container_name d))
        (map_of previous (cd_container_name d)))"

lemma initial_decisions_alt:
  "initial_decisions definitions observed previous enabled =
   dict_of (map (\<lambda>x. (svc_name x, first_decision definitions observed previous (svc_name x))) enabled)"
  by (simp add: initial_decisions_def first_decision_def Let_def)

lemma initial_action:
  assumes "distinct (map svc_name enabled)" "x \<in> set enabled"
  shows "action_of (initial_decisions definitions observed previous enabled) (svc_name x) =
         Some (fst (first_decision definitions observed previous (svc_name x)))"
proof -
  have d: "distinct (map fst (map (\<lambda>x. (svc_name x, first_decision definitions observed previous (svc_name x))) enabled))"
    using assms(1) by (simp add: comp_def)
  show ?thesis
    unfolding action_of_def initial_decisions_alt map_of_dict_of_distinct [OF d] map_of_keyed [OF assms] by simp
qed

lemma initial_decisions_for: "decisions_for enabled (initial_decisions definitions observed previous enabled)"
proof -
  have "REMOVE \<notin> (\<lambda>(_, a, _). a) ` set (initial_decisions definitions observed previous enabled)"
  proof
    assume "REMOVE \<in> (\<lambda>(_, a, _). a) ` set (initial_decisions definitions observed previous enabled)"
    then obtain n r where m: "(n, REMOVE, r) \<in> set (initial_decisions definitions observed previous enabled)" by auto
    have "(n, REMOVE, r) \<in> set (map (\<lambda>x. (svc_name x, first_decision definitions observed previous (svc_name x))) enabled)"
      by (rule subsetD [OF set_dict_of m [unfolded initial_decisions_alt]])
    then obtain k where f: "first_decision definitions observed previous k = (REMOVE, r)"
      unfolding set_map image_iff by force
    have "fst (first_decision definitions observed previous k) \<noteq> REMOVE"
      unfolding first_decision_def Let_def by (rule decide_action_simps(1))
    then show False using f by simp
  qed
  moreover have "fst ` set (initial_decisions definitions observed previous enabled) = svc_name ` set enabled"
    unfolding initial_decisions_alt keys_dict_of by (simp add: image_image)
  ultimately show ?thesis by (simp only: decisions_for_def simp_thms)
qed

lemma rebuilding_or_keep:
  fixes definitions observed previous
  assumes "distinct (map svc_name enabled)" "x \<in> set enabled"
  defines "ds \<equiv> propagate_dependencies enabled (initial_decisions definitions observed previous enabled)"
  shows "action_of ds (svc_name x) = Some KEEP \<longleftrightarrow> \<not> rebuilding ds (svc_name x)"
    and "action_of ds (svc_name x) \<noteq> None" "action_of ds (svc_name x) \<noteq> Some REMOVE"
proof -
  let ?i = "initial_decisions definitions observed previous enabled"
  have g: "action_of ds (svc_name x) = action_of ?i (svc_name x) \<or> action_of ds (svc_name x) = Some RECREATE"
    using propagate_grows [of enabled ?i] unfolding grows_from_def ds_def by metis
  note i = initial_action [OF assms(1,2), of definitions observed previous]
  have r: "fst (first_decision definitions observed previous (svc_name x)) \<noteq> REMOVE"
    unfolding first_decision_def Let_def by (rule decide_action_simps(1))
  show "action_of ds (svc_name x) = Some KEEP \<longleftrightarrow> \<not> rebuilding ds (svc_name x)"
    "action_of ds (svc_name x) \<noteq> None" "action_of ds (svc_name x) \<noteq> Some REMOVE"
    using g i r
    by (cases "fst (first_decision definitions observed previous (svc_name x))"; auto simp: rebuilding_def)+
qed

text \<open>C2: which containers are kept, rebuilt and removed.  An enabled service keeps its container if and
  only if that container and those of all services it (transitively) depends on run, are not unhealthy and
  carry the hash of their definition; it is created if and only if its container is missing; and exactly the
  observed containers that belong to no enabled service are removed.\<close>

theorem container_plan_exact:
  assumes "distinct (map svc_name (enabled_services (ds_runtime s)))"
    and "build_node_definitions env s = Inr definitions"
    and "build_container_plan env s observed previous = Inr plan"
  defines "enabled \<equiv> enabled_services (ds_runtime s)"
  defines "edges \<equiv> dep_edges enabled (initial_decisions definitions observed previous enabled)"
  shows "(\<forall>x\<in>set enabled. \<exists>st\<in>set (cp_steps plan). cs_service_name st = Some (svc_name x) \<and>
        cs_definition st = Some (the (map_of definitions (svc_name x))) \<and>
        (cs_action st = KEEP \<longleftrightarrow>
           (\<forall>y\<in>set enabled. (svc_name x, svc_name y) \<in> edges\<^sup>* \<longrightarrow> settled definitions observed (svc_name y))) \<and>
        (cs_action st = CREATE \<longleftrightarrow>
           map_of (dict_of (map (\<lambda>c. (oc_name c, c)) observed)) (cd_container_name (the (map_of definitions (svc_name x)))) = None))
    \<and> {cs_container_name st |st. st \<in> set (cp_steps plan) \<and> cs_action st = REMOVE} =
      oc_name ` set observed - cd_container_name ` snd ` set definitions"
proof -
  define i where "i = initial_decisions definitions observed previous enabled"
  define ds where "ds = propagate_dependencies enabled i"
  have steps: "cp_steps plan = map (service_step definitions ds) enabled @ remove_steps definitions observed"
    using assms(2,3) by (auto simp: build_container_plan_def Let_def ds_def i_def enabled_def)
  have dist: "distinct (map svc_name enabled)" using assms(1) by (simp add: enabled_def)
  have act: "action_of ds (svc_name x) = Some (cs_action (service_step definitions ds x))" if x: "x \<in> set enabled" for x
  proof -
    obtain a r where "map_of ds (svc_name x) = Some (a, r)"
      using rebuilding_or_keep(2) [OF dist x, of definitions observed previous]
      unfolding ds_def i_def action_of_def by (cases "map_of ds (svc_name x)") (auto simp: ds_def i_def)
    then show ?thesis by (simp add: action_of_def service_step_def Let_def)
  qed
  have first: "rebuilding i (svc_name y) \<longleftrightarrow> \<not> settled definitions observed (svc_name y)" if "y \<in> set enabled" for y
  proof -
    have "action_of i (svc_name y) = Some (fst (first_decision definitions observed previous (svc_name y)))"
      unfolding i_def by (rule initial_action [OF dist that])
    moreover have "fst (first_decision definitions observed previous (svc_name y)) = KEEP \<longleftrightarrow>
        settled definitions observed (svc_name y)"
      unfolding first_decision_def settled_def Let_def decide_action_simps by (auto split: option.splits)
    moreover have "fst (first_decision definitions observed previous (svc_name y)) \<noteq> REMOVE"
      unfolding first_decision_def Let_def by (rule decide_action_simps(1))
    ultimately show ?thesis
      by (cases "fst (first_decision definitions observed previous (svc_name y))") (auto simp: rebuilding_def)
  qed
  have dom: "\<exists>y\<in>set enabled. m = svc_name y" if "rebuilding i m" for m
  proof -
    have "m \<in> fst ` set i" using that
      by (auto simp: rebuilding_def action_of_def dest!: map_of_SomeD intro: rev_image_eqI)
    then show ?thesis using initial_decisions_for [of enabled definitions observed previous]
      by (auto simp: i_def decisions_for_def)
  qed
  have keep: "cs_action (service_step definitions ds x) = KEEP \<longleftrightarrow>
      (\<forall>y\<in>set enabled. (svc_name x, svc_name y) \<in> edges\<^sup>* \<longrightarrow> settled definitions observed (svc_name y))"
    if x: "x \<in> set enabled" for x
  proof -
    have "cs_action (service_step definitions ds x) = KEEP \<longleftrightarrow> \<not> rebuilding ds (svc_name x)"
      using rebuilding_or_keep(1) [OF dist x, of definitions observed previous] act [OF x] by (simp add: ds_def i_def)
    also have "\<dots> \<longleftrightarrow> \<not> (\<exists>m. (svc_name x, m) \<in> edges\<^sup>* \<and> rebuilding i m)"
      using grows_from_rebuilding [OF propagate_grows, of enabled i]
        propagate_reaches [OF initial_decisions_for [of enabled definitions observed previous]]
      unfolding ds_def edges_def i_def by blast
    finally show ?thesis using dom first by blast
  qed
  have create: "cs_action (service_step definitions ds x) = CREATE \<longleftrightarrow>
      map_of (dict_of (map (\<lambda>c. (oc_name c, c)) observed)) (cd_container_name (the (map_of definitions (svc_name x)))) = None"
    if x: "x \<in> set enabled" for x
  proof -
    have "action_of ds (svc_name x) = action_of i (svc_name x) \<or>
        (action_of i (svc_name x) = Some KEEP \<and> action_of ds (svc_name x) = Some RECREATE)"
      using propagate_grows [of enabled i] unfolding grows_from_def ds_def by metis
    moreover have "action_of i (svc_name x) = Some (fst (first_decision definitions observed previous (svc_name x)))"
      unfolding i_def by (rule initial_action [OF dist x])
    ultimately have "cs_action (service_step definitions ds x) = CREATE \<longleftrightarrow>
        fst (first_decision definitions observed previous (svc_name x)) = CREATE"
      using act [OF x] by auto
    then show ?thesis unfolding first_decision_def Let_def decide_action_simps by simp
  qed
  have none: "cs_action (service_step definitions ds x) \<noteq> REMOVE" if "x \<in> set enabled" for x
    using rebuilding_or_keep(3) [OF dist that, of definitions observed previous] act [OF that] by (auto simp: ds_def i_def)
  have rem: "{cs_container_name st |st. st \<in> set (cp_steps plan) \<and> cs_action st = REMOVE} =
      oc_name ` set observed - cd_container_name ` snd ` set definitions"
  proof -
    have "{st \<in> set (cp_steps plan). cs_action st = REMOVE} = set (remove_steps definitions observed)"
      using none by (auto simp: steps remove_steps_def)
    then have "{cs_container_name st |st. st \<in> set (cp_steps plan) \<and> cs_action st = REMOVE} =
        cs_container_name ` set (remove_steps definitions observed)" by blast
    then show ?thesis by (auto simp: remove_steps_def image_image case_prod_beta)
  qed
  have each: "\<exists>st\<in>set (cp_steps plan). st = service_step definitions ds x" if "x \<in> set enabled" for x
    using that by (auto simp: steps)
  have fields: "cs_service_name (service_step definitions ds x) = Some (svc_name x)"
    "cs_definition (service_step definitions ds x) = Some (the (map_of definitions (svc_name x)))" for x
    by (simp_all add: service_step_def Let_def case_prod_beta)
  show ?thesis
  proof (intro conjI ballI rem)
    fix x assume x: "x \<in> set enabled"
    show "\<exists>st\<in>set (cp_steps plan). cs_service_name st = Some (svc_name x) \<and>
        cs_definition st = Some (the (map_of definitions (svc_name x))) \<and>
        (cs_action st = KEEP \<longleftrightarrow>
           (\<forall>y\<in>set enabled. (svc_name x, svc_name y) \<in> edges\<^sup>* \<longrightarrow> settled definitions observed (svc_name y))) \<and>
        (cs_action st = CREATE \<longleftrightarrow>
           map_of (dict_of (map (\<lambda>c. (oc_name c, c)) observed)) (cd_container_name (the (map_of definitions (svc_name x)))) = None)"
    proof (rule bexI [of _ "service_step definitions ds x"])
      show "service_step definitions ds x \<in> set (cp_steps plan)" using each [OF x] by simp
      show "cs_service_name (service_step definitions ds x) = Some (svc_name x) \<and>
        cs_definition (service_step definitions ds x) = Some (the (map_of definitions (svc_name x))) \<and>
        (cs_action (service_step definitions ds x) = KEEP \<longleftrightarrow>
           (\<forall>y\<in>set enabled. (svc_name x, svc_name y) \<in> edges\<^sup>* \<longrightarrow> settled definitions observed (svc_name y))) \<and>
        (cs_action (service_step definitions ds x) = CREATE \<longleftrightarrow>
           map_of (dict_of (map (\<lambda>c. (oc_name c, c)) observed)) (cd_container_name (the (map_of definitions (svc_name x)))) = None)"
        by (intro conjI fields keep [OF x] create [OF x])
    qed
  qed
qed

definition example_env :: build_env where
  "example_env = \<lparr>be_sha = (\<lambda>x. rev x), be_dockerfile = (\<lambda>_. ''FROM debian''), be_on_disk = (\<lambda>_. False),
                  be_dir = [''srv'', ''rendered'']\<rparr>"

definition example_small_state :: desired_state where
  "example_small_state =
     set_services [(example_service ''sh'' DEBUG_SHELL [])\<lparr>svc_network_mode := Some ''host'', svc_command := []\<rparr>]
       example_state"

definition example_definitions :: "(string \<times> container_definition) list" where
  "example_definitions = (case build_node_definitions example_env example_small_state of Inr d \<Rightarrow> d | Inl _ \<Rightarrow> [])"

definition example_observed :: "observed_container list" where
  "example_observed =
     [\<lparr>oc_name = ''dn42-hk1-sh-1'', oc_role = None, oc_image = None,
       oc_config_hash = Some (cd_config_hash (the (map_of example_definitions ''sh''))),
       oc_status = RUNNING, oc_healthy = None\<rparr>,
      \<lparr>oc_name = ''dn42-hk1-old-1'', oc_role = None, oc_image = None, oc_config_hash = None,
       oc_status = RUNNING, oc_healthy = None\<rparr>]"

definition example_container_plan :: container_plan where
  "example_container_plan =
     (case build_container_plan example_env example_small_state example_observed [] of
        Inr p \<Rightarrow> p | Inl _ \<Rightarrow> \<lparr>cp_project_name = [], cp_steps = []\<rparr>)"

lemma example_plan_facts:
  "distinct (map svc_name (enabled_services (ds_runtime example_small_state)))"
  "build_node_definitions example_env example_small_state = Inr example_definitions"
  "build_container_plan example_env example_small_state example_observed [] = Inr example_container_plan"
  by code_simp+

theorem container_plan_exact_witness:
  "{cs_container_name st |st. st \<in> set (cp_steps example_container_plan) \<and> cs_action st = REMOVE}
   = {''dn42-hk1-old-1''}"
proof -
  have "oc_name ` set example_observed - cd_container_name ` snd ` set example_definitions = {''dn42-hk1-old-1''}"
    by code_simp
  then show ?thesis using container_plan_exact [OF example_plan_facts] by simp
qed

end
