(* ===== verification/Convergence_Plan.thy ===== *)
theory Convergence_Plan
  imports Container_Plan File_Plan
begin

text \<open>
  The agent's \<open>planner/convergence_plan.py\<close>, \<open>planner/reconcile_plan.py\<close> and
  \<open>apply/convergence.py\<close>: which running containers are reloaded in place, derived from the file plan
  and the container plan, and the execution of that plan through \<open>exec\<close> (an argument: the
  return code, stdout and stderr of a command in a container, or the exception it raised).
\<close>

section \<open>Deciding\<close>

datatype convergence_kind = BIRD_RELOAD | WG_SYNC_LOOPBACK | WG_SYNC_INTERFACE | WG_REMOVE_INTERFACE

record convergence_action =
  ca_kind :: convergence_kind
  ca_container :: string
  ca_interface :: "string option"

definition LOOPBACK_NAME :: string where
  "LOOPBACK_NAME = ''dn42-lo''"

definition LOOPBACK_SCRIPT :: string where
  "LOOPBACK_SCRIPT = ''scripts/wg/apply-dn42-lo.sh''"

text \<open>The part of a path between a prefix and a suffix, when it is one non-empty segment.\<close>

definition between :: "string \<Rightarrow> string \<Rightarrow> string \<Rightarrow> string option" where
  "between prefix suffix path =
     (if \<not> starts_with prefix path \<or> \<not> ends_with suffix path then None
      else let name = drop (length prefix) (take (length path - length suffix) path) in
           if name = [] \<or> CHR ''/'' \<in> set name then None else Some name)"

definition wg_conf_interface :: "string \<Rightarrow> string option" where
  "wg_conf_interface path = between ''wireguard/'' ''.conf'' path"

definition apply_script_interface :: "string \<Rightarrow> string option" where
  "apply_script_interface path =
     (case between ''scripts/wg/apply-'' ''.sh'' path of
        Some name \<Rightarrow> if name \<in> set [''dn42-lo'', ''all-wg''] then None else Some name
      | None \<Rightarrow> None)"

definition apply_script_name :: "string \<Rightarrow> string option" where
  "apply_script_name path =
     (case between ''scripts/wg/apply-'' ''.sh'' path of
        Some name \<Rightarrow> if name \<in> set [''all-wg''] then None else Some name
      | None \<Rightarrow> None)"

definition is_write :: "plan_action \<Rightarrow> bool" where
  "is_write a \<longleftrightarrow> pa_action a = ''create'' \<or> pa_action a = ''update''"

definition bird_files_changed :: "plan_action list \<Rightarrow> bool" where
  "bird_files_changed actions \<longleftrightarrow> list_ex (\<lambda>a. starts_with ''bird/'' (pa_path a) \<and> pa_action a \<noteq> ''noop'') actions"

definition loopback_address_changed :: "plan_action list \<Rightarrow> bool" where
  "loopback_address_changed actions \<longleftrightarrow> list_ex (\<lambda>a. pa_path a = LOOPBACK_SCRIPT \<and> is_write a) actions"

definition role_rebuilt :: "container_plan \<Rightarrow> desired_state \<Rightarrow> service_role \<Rightarrow> bool" where
  "role_rebuilt plan s role \<longleftrightarrow>
     (let target = map svc_name (filter (\<lambda>x. svc_role x = role) (enabled_services (ds_runtime s))) in
      list_ex (\<lambda>st. (case cs_service_name st of Some n \<Rightarrow> n \<in> set target | None \<Rightarrow> False)
                   \<and> (cs_action st = CREATE \<or> cs_action st = RECREATE)) (cp_steps plan))"

definition wireguard_interface_names :: "desired_state \<Rightarrow> string list" where
  "wireguard_interface_names s = sort (map if_name (filter (\<lambda>i. if_kind i = WIREGUARD) (ds_interfaces s)))"

definition managed_dummy_interface_names :: "desired_state \<Rightarrow> string list" where
  "managed_dummy_interface_names s =
     sort (map if_name (filter (\<lambda>i. if_kind i = DUMMY \<and> if_name i \<noteq> LOOPBACK_NAME) (ds_interfaces s)))"

definition the_list :: "'a option list \<Rightarrow> 'a list" where
  "the_list xs = concat (map (\<lambda>x. case x of Some y \<Rightarrow> [y] | None \<Rightarrow> []) xs)"

definition changed_dummy_interfaces :: "desired_state \<Rightarrow> plan_action list \<Rightarrow> string list \<times> string list" where
  "changed_dummy_interfaces s actions =
     (let managed = managed_dummy_interface_names s;
          current = managed @ map if_name (ds_interfaces s) @ [LOOPBACK_NAME];
          deletes = filter (\<lambda>a. pa_action a = ''delete'') actions;
          conf_deleted = the_list (map (\<lambda>a. wg_conf_interface (pa_path a)) deletes);
          changed = filter (\<lambda>n. n \<in> set managed)
                      (the_list (map (\<lambda>a. apply_script_name (pa_path a)) (filter is_write actions)));
          removed = filter (\<lambda>n. n \<notin> set current \<and> n \<notin> set conf_deleted)
                      (the_list (map (\<lambda>a. apply_script_name (pa_path a)) deletes)) in
      (sort (remdups changed), sort removed))"

definition changed_wg_interfaces :: "desired_state \<Rightarrow> plan_action list \<Rightarrow> string list \<times> string list" where
  "changed_wg_interfaces s actions =
     (let wg_names = wireguard_interface_names s;
          changed = filter (\<lambda>n. n \<in> set wg_names)
                      (the_list (concat (map (\<lambda>a. [wg_conf_interface (pa_path a), apply_script_interface (pa_path a)])
                                             (filter is_write actions))));
          removed = the_list (map (\<lambda>a. wg_conf_interface (pa_path a)) (filter (\<lambda>a. pa_action a = ''delete'') actions)) in
      (sort (remdups changed), sort removed))"

definition on_interface :: "convergence_kind \<Rightarrow> string \<Rightarrow> string \<Rightarrow> convergence_action" where
  "on_interface kind container i = \<lparr>ca_kind = kind, ca_container = container, ca_interface = Some i\<rparr>"

definition sync_loopback :: "string \<Rightarrow> convergence_action" where
  "sync_loopback container = \<lparr>ca_kind = WG_SYNC_LOOPBACK, ca_container = container, ca_interface = None\<rparr>"

definition bird_actions :: "desired_state \<Rightarrow> container_plan \<Rightarrow> plan_action list \<Rightarrow> convergence_action list" where
  "bird_actions s plan actions =
     (case service_container_by_role s BIRD_ROUTER of
        None \<Rightarrow> []
      | Some bird \<Rightarrow>
          if bird_files_changed actions \<and> \<not> role_rebuilt plan s BIRD_ROUTER
          then [\<lparr>ca_kind = BIRD_RELOAD, ca_container = bird, ca_interface = None\<rparr>] else [])"

definition full_replay :: "desired_state \<Rightarrow> string \<Rightarrow> convergence_action list" where
  "full_replay s wg =
     sync_loopback wg # map (on_interface WG_SYNC_INTERFACE wg)
                          (managed_dummy_interface_names s @ wireguard_interface_names s)"

definition incremental_sync :: "desired_state \<Rightarrow> string \<Rightarrow> plan_action list \<Rightarrow> convergence_action list" where
  "incremental_sync s wg actions =
     (let (dummy_changed, dummy_removed) = changed_dummy_interfaces s actions;
          (changed, removed) = changed_wg_interfaces s actions in
      (if loopback_address_changed actions then [sync_loopback wg] else [])
      @ map (on_interface WG_SYNC_INTERFACE wg) (dummy_changed @ changed)
      @ map (on_interface WG_REMOVE_INTERFACE wg) (removed @ dummy_removed))"

definition build_convergence_plan ::
  "desired_state \<Rightarrow> container_plan \<Rightarrow> plan_action list \<Rightarrow> convergence_action list" where
  "build_convergence_plan s plan actions =
     bird_actions s plan actions @
     (case service_container_by_role s WG_GATEWAY of
        None \<Rightarrow> []
      | Some wg \<Rightarrow>
          if role_rebuilt plan s ROUTER_NETNS \<or> role_rebuilt plan s WG_GATEWAY
          then full_replay s wg else incremental_sync s wg actions)"

section \<open>The whole plan\<close>

record reconcile_plan =
  rp_file_plan :: file_plan
  rp_container_plan :: container_plan
  rp_convergence_plan :: "convergence_action list"

text \<open>\<open>tree\<close> is \<open>None\<close> when the rendered directory does not exist yet.\<close>

definition build_reconcile_plan ::
  "build_env \<Rightarrow> (string \<Rightarrow> string) \<Rightarrow> path \<Rightarrow> desired_state \<Rightarrow> rendered_file list \<Rightarrow> file_tree option \<Rightarrow>
   observed_container list \<Rightarrow> (string \<times> definition_record) list \<Rightarrow> reconcile_plan res" where
  "build_reconcile_plan env h base s files tree observed previous =
     rbind (build_file_plan h base files tree True None) (\<lambda>fp.
     rbind (build_container_plan env s observed previous) (\<lambda>cp.
       Inr \<lparr>rp_file_plan = fp, rp_container_plan = cp,
            rp_convergence_plan = build_convergence_plan s cp (fp_actions fp)\<rparr>))"

section \<open>Executing\<close>

type_synonym exec = "string \<Rightarrow> string list \<Rightarrow> string + (int \<times> string \<times> string)"

record convergence_step =
  cg_target :: string
  cg_command :: "string list"
  cg_returncode :: int
  cg_ok :: bool
  cg_error :: "string option"

text \<open>The code asserts that interface actions carry an interface; the planner always gives one.\<close>

definition action_command :: "convergence_action \<Rightarrow> string \<times> string \<times> string list" where
  "action_command a =
     (let c = ca_container a; i = (case ca_interface a of Some x \<Rightarrow> x | None \<Rightarrow> []) in
      case ca_kind a of
        BIRD_RELOAD \<Rightarrow> (''bird:'' @ c, c, [''birdc'', ''configure''])
      | WG_SYNC_LOOPBACK \<Rightarrow> (''wg:'' @ c @ '':loopback'', c, [''sh'', ''/opt/dn42/scripts/wg/apply-dn42-lo.sh''])
      | WG_SYNC_INTERFACE \<Rightarrow> (''wg:'' @ c @ '':'' @ i, c, [''sh'', ''/opt/dn42/scripts/wg/apply-'' @ i @ ''.sh''])
      | WG_REMOVE_INTERFACE \<Rightarrow> (''wg:'' @ c @ '':'' @ i @ '':remove'', c, [''ip'', ''link'', ''del'', i]))"

definition exec_step :: "exec \<Rightarrow> convergence_action \<Rightarrow> convergence_step" where
  "exec_step ex a =
     (let (target, container, argv) = action_command a in
      case ex container argv of
        Inl e \<Rightarrow> \<lparr>cg_target = target, cg_command = argv, cg_returncode = -1, cg_ok = False, cg_error = Some e\<rparr>
      | Inr (rc, _, stderr) \<Rightarrow>
          \<lparr>cg_target = target, cg_command = argv, cg_returncode = rc, cg_ok = (rc = 0),
           cg_error = (if rc = 0 then None
                       else Some (if strip stderr \<noteq> [] then strip stderr else ''exit '' @ str_int rc))\<rparr>)"

definition execute_convergence_plan ::
  "exec \<Rightarrow> convergence_action list \<Rightarrow> bool \<times> convergence_step list" where
  "execute_convergence_plan ex plan =
     (let steps = map (exec_step ex) plan in (list_all cg_ok steps, steps))"

section \<open>What the plan contains\<close>

lemma set_the_list [simp]: "set (the_list xs) = {y. Some y \<in> set xs}"
  by (force simp: the_list_def split: option.splits)

lemma the_list_empty: "the_list xs = [] \<longleftrightarrow> set xs \<subseteq> {None}"
  by (auto simp: the_list_def split: option.splits)

lemma is_write_noop [simp]: "pa_action a = ''noop'' \<Longrightarrow> \<not> is_write a"
  by (simp add: is_write_def)

lemma noop_incremental:
  assumes "list_all (\<lambda>a. pa_action a = ''noop'') actions"
  shows "incremental_sync s wg actions = []" and "\<not> bird_files_changed actions"
proof -
  have w: "filter is_write actions = []" "filter (\<lambda>a. pa_action a = ''delete'') actions = []"
    using assms by (auto simp: list_all_iff filter_empty_conv is_write_def)
  have l: "\<not> loopback_address_changed actions"
    using assms by (auto simp: loopback_address_changed_def list_all_iff list_ex_iff is_write_def)
  show "incremental_sync s wg actions = []"
    by (simp add: incremental_sync_def changed_dummy_interfaces_def changed_wg_interfaces_def Let_def w l the_list_def)
  show "\<not> bird_files_changed actions"
    using assms by (auto simp: bird_files_changed_def list_all_iff list_ex_iff)
qed

lemma changed_names:
  "n \<in> set (fst (changed_dummy_interfaces s actions)) \<Longrightarrow> \<exists>i\<in>set (ds_interfaces s). if_name i = n \<and> if_kind i = DUMMY"
  "n \<in> set (fst (changed_wg_interfaces s actions)) \<Longrightarrow> \<exists>i\<in>set (ds_interfaces s). if_name i = n \<and> if_kind i = WIREGUARD"
  "n \<in> set (snd (changed_dummy_interfaces s actions)) \<Longrightarrow> n \<notin> if_name ` set (ds_interfaces s)"
  "n \<in> set (snd (changed_wg_interfaces s actions)) \<Longrightarrow>
     \<exists>d\<in>set actions. pa_action d = ''delete'' \<and> wg_conf_interface (pa_path d) = Some n"
  by (auto simp: changed_dummy_interfaces_def changed_wg_interfaces_def Let_def
      managed_dummy_interface_names_def wireguard_interface_names_def intro: sym)

lemma incremental_actions:
  assumes "a \<in> set (incremental_sync s wg actions)"
  obtains (loopback) "ca_kind a = WG_SYNC_LOOPBACK"
  | (sync) n where "ca_kind a = WG_SYNC_INTERFACE" "ca_interface a = Some n"
      "n \<in> set (fst (changed_dummy_interfaces s actions)) \<union> set (fst (changed_wg_interfaces s actions))"
  | (remove) n where "ca_kind a = WG_REMOVE_INTERFACE" "ca_interface a = Some n"
      "n \<in> set (snd (changed_dummy_interfaces s actions)) \<union> set (snd (changed_wg_interfaces s actions))"
  using assms
  by (auto simp: incremental_sync_def on_interface_def sync_loopback_def case_prod_beta split: if_splits)

text \<open>The reload plan matches the container plan.  When the network namespace or the WireGuard
  container is rebuilt the plan is exactly loopback, every dummy and every WireGuard interface of the
  desired state; otherwise no interface of the desired state other than one whose \<open>wireguard/*.conf\<close> file is
  being deleted is removed, and only current interfaces are synchronised.\<close>

theorem convergence_plan_interfaces:
  fixes plan :: container_plan
  assumes "service_container_by_role s WG_GATEWAY = Some wg"
  defines "rebuilt \<equiv> role_rebuilt plan s ROUTER_NETNS \<or> role_rebuilt plan s WG_GATEWAY"
  shows "(rebuilt \<longrightarrow> build_convergence_plan s plan actions = bird_actions s plan actions @ full_replay s wg) \<and>
    (\<not> rebuilt \<longrightarrow>
      (\<forall>a\<in>set (build_convergence_plan s plan actions).
         (ca_kind a = WG_SYNC_INTERFACE \<longrightarrow>
            (\<exists>i\<in>set (ds_interfaces s). ca_interface a = Some (if_name i) \<and> if_kind i \<noteq> UNDERLAY)) \<and>
         (ca_kind a = WG_REMOVE_INTERFACE \<longrightarrow>
            (\<exists>n. ca_interface a = Some n \<and>
               (n \<notin> if_name ` set (ds_interfaces s) \<or>
                (\<exists>d\<in>set actions. pa_action d = ''delete'' \<and> wg_conf_interface (pa_path d) = Some n))))))"
proof (intro conjI impI)
  show "build_convergence_plan s plan actions = bird_actions s plan actions @ full_replay s wg" if rebuilt
    using that assms by (simp add: build_convergence_plan_def)
next
  assume "\<not> rebuilt"
  then have p: "build_convergence_plan s plan actions = bird_actions s plan actions @ incremental_sync s wg actions"
    using assms by (simp add: build_convergence_plan_def)
  have b: "ca_kind a = BIRD_RELOAD" if "a \<in> set (bird_actions s plan actions)" for a
    using that by (auto simp: bird_actions_def split: option.splits if_splits)
  show "\<forall>a\<in>set (build_convergence_plan s plan actions).
         (ca_kind a = WG_SYNC_INTERFACE \<longrightarrow>
            (\<exists>i\<in>set (ds_interfaces s). ca_interface a = Some (if_name i) \<and> if_kind i \<noteq> UNDERLAY)) \<and>
         (ca_kind a = WG_REMOVE_INTERFACE \<longrightarrow>
            (\<exists>n. ca_interface a = Some n \<and>
               (n \<notin> if_name ` set (ds_interfaces s) \<or>
                (\<exists>d\<in>set actions. pa_action d = ''delete'' \<and> wg_conf_interface (pa_path d) = Some n))))"
  proof
    fix a assume "a \<in> set (build_convergence_plan s plan actions)"
    then consider "a \<in> set (bird_actions s plan actions)" | "a \<in> set (incremental_sync s wg actions)"
      by (auto simp: p)
    then show "(ca_kind a = WG_SYNC_INTERFACE \<longrightarrow>
            (\<exists>i\<in>set (ds_interfaces s). ca_interface a = Some (if_name i) \<and> if_kind i \<noteq> UNDERLAY)) \<and>
         (ca_kind a = WG_REMOVE_INTERFACE \<longrightarrow>
            (\<exists>n. ca_interface a = Some n \<and>
               (n \<notin> if_name ` set (ds_interfaces s) \<or>
                (\<exists>d\<in>set actions. pa_action d = ''delete'' \<and> wg_conf_interface (pa_path d) = Some n))))"
    proof cases
      case 1
      then show ?thesis using b by auto
    next
      case 2
      then show ?thesis
      proof (cases rule: incremental_actions)
        case (sync n)
        then show ?thesis using changed_names(1,2) [of n s actions] by fastforce
      next
        case (remove n)
        then show ?thesis using changed_names(3,4) [of n s actions] by auto
      qed simp
    qed
  qed
qed

theorem convergence_plan_interfaces_witness:
  "build_convergence_plan example_state \<lparr>cp_project_name = [], cp_steps =
       [\<lparr>cs_service_name = Some ''netns'', cs_container_name = [], cs_action = RECREATE, cs_reason = [],
         cs_definition = None\<rparr>]\<rparr> [] = full_replay example_state ''dn42-hk1-wg-1''"
proof -
  let ?p = "\<lparr>cp_project_name = [], cp_steps =
       [\<lparr>cs_service_name = Some ''netns'', cs_container_name = [], cs_action = RECREATE, cs_reason = [],
         cs_definition = None\<rparr>]\<rparr>"
  have "service_container_by_role example_state WG_GATEWAY = Some ''dn42-hk1-wg-1''"
    "role_rebuilt ?p example_state ROUTER_NETNS" "bird_actions example_state ?p [] = []"
    by code_simp+
  then show ?thesis using convergence_plan_interfaces [of example_state "''dn42-hk1-wg-1''" ?p "[]"] by simp
qed

end
