(* ===== verification/Docker_Deploy.thy ===== *)
theory Docker_Deploy
  imports Container_Plan Effects
begin

text \<open>
  The agent's \<open>apply/docker_api.py\<close>: the container plan carried out through the Docker Engine API.

  The engine is an argument: a record of the queries the code makes and of \<open>en_call\<close>, which answers
  one changing call with a result (the identifier of a created container) or an exception and the
  world after it.  \<open>dp_calls\<close> records the changing calls in the order in which they were issued.
\<close>

section \<open>The order of the services\<close>

type_synonym pending = "(string \<times> string list) list"

definition ready_names :: "pending \<Rightarrow> string list" where
  "ready_names pending = sort (map fst (filter (\<lambda>(n, deps). deps = []) pending))"

definition drop_ready :: "string list \<Rightarrow> pending \<Rightarrow> pending" where
  "drop_ready ready pending =
     map (\<lambda>(n, deps). (n, filter (\<lambda>d. d \<notin> set ready) deps)) (filter (\<lambda>(n, _). n \<notin> set ready) pending)"

lemma set_ready_names: "set (ready_names pending) = {n. (n, []) \<in> set pending}"
  by (force simp: ready_names_def)

lemma drop_ready_shorter:
  assumes "ready_names pending \<noteq> []"
  shows "length (drop_ready (ready_names pending) pending) < length pending"
proof -
  obtain n where n: "n \<in> set (ready_names pending)" using assms by (cases "ready_names pending") auto
  then have "(n, []) \<in> set pending" by (simp add: set_ready_names)
  then have "length (filter (\<lambda>(n, _). n \<notin> set (ready_names pending)) pending) < length pending"
    using n by (intro length_filter_less) auto
  then show ?thesis by (simp add: drop_ready_def)
qed

function topo_loop :: "pending \<Rightarrow> string list \<Rightarrow> string list res" where
  "topo_loop pending ordered =
     (if pending = [] then Inr ordered
      else let ready = ready_names pending in
           if ready = [] then Inl (ValueError ''runtime service graph contains a dependency cycle'')
           else topo_loop (drop_ready ready pending) (ordered @ ready))"
  by pat_completeness auto
termination
  by (relation "measure (\<lambda>(p, _). length p)") (auto simp: drop_ready_shorter)

declare topo_loop.simps [simp del]

definition pending_of :: "runtime_service list \<Rightarrow> pending" where
  "pending_of services =
     (let names = map svc_name services in
      dict_of (map (\<lambda>x. (svc_name x, filter (\<lambda>d. d \<in> set names) (svc_depends_on x))) services))"

definition topologically_sorted_services :: "desired_state \<Rightarrow> runtime_service list res" where
  "topologically_sorted_services s =
     (let services = enabled_services (ds_runtime s);
          by_name = dict_of (map (\<lambda>x. (svc_name x, x)) services) in
      rbind (topo_loop (pending_of services) []) (\<lambda>names. Inr (map (\<lambda>n. the (map_of by_name n)) names)))"

section \<open>Payload to SDK arguments\<close>

definition item :: "string \<Rightarrow> (string \<times> json) list \<Rightarrow> json res" where
  "item k kvs = (case map_of kvs k of Some v \<Rightarrow> Inr v | None \<Rightarrow> Inl (KeyError k))"

definition get_item :: "string \<Rightarrow> (string \<times> json) list \<Rightarrow> json" where
  "get_item k kvs = (case map_of kvs k of Some v \<Rightarrow> v | None \<Rightarrow> JNull)"

definition as_obj :: "json \<Rightarrow> (string \<times> json) list res" where
  "as_obj j = (case j of JObj kvs \<Rightarrow> Inr kvs | _ \<Rightarrow> Inl (TypeError ''object is not subscriptable''))"

definition as_list :: "json \<Rightarrow> json list res" where
  "as_list j = (case j of JList xs \<Rightarrow> Inr xs | _ \<Rightarrow> Inl (TypeError ''object is not iterable''))"

definition as_int :: "json \<Rightarrow> int res" where
  "as_int j = (case j of JInt n \<Rightarrow> Inr n | _ \<Rightarrow> Inl (TypeError ''an integer is required''))"

definition as_str :: "json \<Rightarrow> string res" where
  "as_str j = (case j of JStr v \<Rightarrow> Inr v | _ \<Rightarrow> Inl (TypeError ''a string is required''))"

definition or_none :: "json \<Rightarrow> json option" where
  "or_none j =
     (if j \<in> {JNull, JBool False, JInt 0, JStr [], JList [], JObj []} then None else Some j)"

definition in_obj :: "json \<Rightarrow> string \<Rightarrow> json res" where
  "in_obj j k = rbind (as_obj j) (item k)"

text \<open>A port entry of the payload, with the fields \<open>port_json\<close> gave it.\<close>

definition read_port :: "json \<Rightarrow> port_entry res" where
  "read_port j =
     rbind (as_obj j) (\<lambda>kvs.
     rbind (item ''host_ip'' kvs) (\<lambda>ip.
     rbind (item ''host_port'' kvs) (\<lambda>hp.
     rbind (rbind (item ''container_port'' kvs) as_int) (\<lambda>cp.
     rbind (rbind (item ''protocol'' kvs) as_str) (\<lambda>proto.
       Inr \<lparr>pe_host_ip = (case ip of JStr v \<Rightarrow> Some v | _ \<Rightarrow> None),
            pe_host_port = (case hp of JInt n \<Rightarrow> Some n | _ \<Rightarrow> None),
            pe_container_port = cp, pe_protocol = proto\<rparr>)))))"

definition read_ports :: "(string \<times> json) list \<Rightarrow> port_entry list res" where
  "read_ports payload = rbind (rbind (item ''ports'' payload) as_list) (rmap read_port)"

text \<open>A host side is a port, or an address with a port.\<close>

type_synonym host_binding = "string option \<times> int"

definition port_key :: "port_entry \<Rightarrow> string" where
  "port_key e = str_int (pe_container_port e) @ ''/'' @ pe_protocol e"

definition port_bindings :: "port_entry list \<Rightarrow> (string \<times> host_binding) list" where
  "port_bindings entries =
     foldl (\<lambda>bindings e.
        case pe_host_port e of
          None \<Rightarrow> bindings
        | Some hp \<Rightarrow> dput (port_key e) (if truthy (pe_host_ip e) then pe_host_ip e else None, hp) bindings)
       [] entries"

definition port_bindings_from_payload :: "(string \<times> json) list \<Rightarrow> (string \<times> host_binding) list res" where
  "port_bindings_from_payload payload = rbind (read_ports payload) (\<lambda>es. Inr (port_bindings es))"

definition exposed_ports_from_payload :: "(string \<times> json) list \<Rightarrow> (int \<times> string) list res" where
  "exposed_ports_from_payload payload =
     rbind (read_ports payload) (\<lambda>es. Inr (keep_first [] (map (\<lambda>e. (pe_container_port e, pe_protocol e)) es)))"

definition bind_of :: "json \<Rightarrow> (string \<times> (string \<times> string)) res" where
  "bind_of j =
     rbind (rbind (in_obj j ''source'') as_str) (\<lambda>source.
     rbind (rbind (in_obj j ''target'') as_str) (\<lambda>target.
     rbind (rbind (in_obj j ''mode'') as_str) (\<lambda>mode. Inr (source, target, mode))))"

definition binds_mapping :: "(string \<times> json) list \<Rightarrow> (string \<times> (string \<times> string)) list res" where
  "binds_mapping payload =
     rbind (rbind (item ''binds'' payload) as_list) (\<lambda>es. rbind (rmap bind_of es) (\<lambda>kvs. Inr (dict_of kvs)))"

record healthcheck_config =
  hk_test :: json
  hk_interval :: int
  hk_timeout :: int
  hk_retries :: json
  hk_start_period :: int

definition healthcheck_config_from_payload :: "(string \<times> json) list \<Rightarrow> healthcheck_config option res" where
  "healthcheck_config_from_payload payload =
     rbind (item ''healthcheck'' payload) (\<lambda>h.
       if h = JNull then Inr None
       else rbind (in_obj h ''test'') (\<lambda>test.
            rbind (rbind (in_obj h ''interval_seconds'') as_int) (\<lambda>interval.
            rbind (rbind (in_obj h ''timeout_seconds'') as_int) (\<lambda>timeout.
            rbind (in_obj h ''retries'') (\<lambda>retries.
            rbind (rbind (in_obj h ''start_period_seconds'') as_int) (\<lambda>start_period.
              Inr (Some \<lparr>hk_test = test, hk_interval = interval * 1000000000, hk_timeout = timeout * 1000000000,
                         hk_retries = retries, hk_start_period = start_period * 1000000000\<rparr>)))))))"

record host_config =
  ho_binds :: "(string \<times> (string \<times> string)) list option"
  ho_port_bindings :: "(string \<times> host_binding) list option"
  ho_network_mode :: json
  ho_cap_add :: "json option"
  ho_devices :: "json option"
  ho_sysctls :: "json option"
  ho_restart_policy :: json
  ho_init :: json

record create_kwargs =
  ck_image :: string
  ck_name :: string
  ck_command :: "json option"
  ck_environment :: "json option"
  ck_host_config :: host_config
  ck_labels :: "(string \<times> string) list"
  ck_volumes :: "json list option"
  ck_ports :: "(int \<times> string) list option"
  ck_healthcheck :: "healthcheck_config option"
  ck_networking :: "(json \<times> json \<times> json) option"

text \<open>\<open>x or None\<close> on a dictionary.\<close>

definition nonempty :: "'a list \<Rightarrow> 'a list option" where
  "nonempty xs = (if xs = [] then None else Some xs)"

definition build_create_kwargs :: "container_definition \<Rightarrow> string \<Rightarrow> create_kwargs res" where
  "build_create_kwargs d image_name =
     (let payload = cd_payload d in
      rbind (port_bindings_from_payload payload) (\<lambda>bindings.
      rbind (rbind (item ''network'' payload) as_obj) (\<lambda>network.
      rbind (binds_mapping payload) (\<lambda>binds.
      rbind (item ''cap_add'' payload) (\<lambda>cap_add.
      rbind (item ''devices'' payload) (\<lambda>devices.
      rbind (item ''sysctls'' payload) (\<lambda>sysctls.
      rbind (item ''restart_policy'' payload) (\<lambda>restart_policy.
      rbind (item ''init'' payload) (\<lambda>init.
      rbind (item ''command'' payload) (\<lambda>command.
      rbind (item ''environment'' payload) (\<lambda>environment.
      rbind (rbind (item ''binds'' payload) as_list) (\<lambda>bind_list.
      rbind (rmap (\<lambda>e. in_obj e ''target'') bind_list) (\<lambda>targets.
      rbind (exposed_ports_from_payload payload) (\<lambda>exposed.
      rbind (healthcheck_config_from_payload payload) (\<lambda>healthcheck.
      rbind (case get_item ''attach'' network of
               JNull \<Rightarrow> Inr None
             | attach \<Rightarrow>
                 rbind (in_obj attach ''ipv4_address'') (\<lambda>ip.
                 rbind (in_obj attach ''aliases'') (\<lambda>aliases.
                 rbind (in_obj attach ''network'') (\<lambda>net. Inr (Some (net, ip, aliases))))))
        (\<lambda>networking.
          Inr \<lparr>ck_image = image_name, ck_name = cd_container_name d, ck_command = or_none command,
               ck_environment = or_none environment,
               ck_host_config = \<lparr>ho_binds = nonempty binds, ho_port_bindings = nonempty bindings,
                 ho_network_mode = get_item ''mode'' network, ho_cap_add = or_none cap_add,
                 ho_devices = or_none devices, ho_sysctls = or_none sysctls,
                 ho_restart_policy = restart_policy, ho_init = init\<rparr>,
               ck_labels = definition_labels d, ck_volumes = nonempty targets,
               ck_ports = (if bindings = [] then None else Some exposed),
               ck_healthcheck = healthcheck, ck_networking = networking\<rparr>))))))))))))))))"

section \<open>The engine\<close>

record ipam_pool =
  ip_subnet :: "string option"
  ip_gateway :: "string option"

text \<open>\<open>networks.list(names=[name])\<close> is the query \<open>en_networks\<close>.  The engine's filter keeps every network
  whose name contains the asked one, so the networks it answers carry a name of their own, and the code
  acts on the first of them, by its identifier, whatever that name is.\<close>

record docker_network =
  nw_id :: string
  nw_name :: string
  nw_config :: "ipam_pool list option"
  nw_containers :: "string option list"

record image_build =
  ib_dockerfile :: string
  ib_tag :: string
  ib_target :: json
  ib_args :: "json option"

datatype docker_call =
    BuildImage image_build
  | PullImage string
  | RemoveContainer string
  | RemoveNetwork string
  | CreateNetwork string "ipam_pool list" bool "(string \<times> string) list"
  | CreateContainer create_kwargs
  | StartContainer string

record 'w engine =
  en_connect :: "'w \<Rightarrow> unit res"
  en_image_present :: "'w \<Rightarrow> string \<Rightarrow> bool"
  en_container_present :: "'w \<Rightarrow> string \<Rightarrow> bool"
  en_networks :: "'w \<Rightarrow> string \<Rightarrow> docker_network list res"
  en_call :: "'w \<Rightarrow> docker_call \<Rightarrow> string res \<times> 'w"

record 'w deploy =
  dp_world :: 'w
  dp_calls :: "docker_call list"
  dp_images :: "(string \<times> string) list"
  dp_removed :: "string list"
  dp_started :: "string list"
  dp_built :: "string list"
  dp_pulled :: "string list"

definition issue :: "'w engine \<Rightarrow> docker_call \<Rightarrow> ('w deploy, string) eff" where
  "issue en c s =
     (let (r, w) = en_call en (dp_world s) c in (r, s\<lparr>dp_world := w, dp_calls := dp_calls s @ [c]\<rparr>))"

section \<open>Images\<close>

datatype image_action = Built | Existing | Pulled

definition prepare_image :: "'w engine \<Rightarrow> container_definition \<Rightarrow> ('w deploy, string \<times> image_action) eff" where
  "prepare_image en d =
     seq (lift_res (rbind (item ''image'' (cd_payload d)) as_obj)) (\<lambda>img.
       if get_item ''build'' img \<noteq> JNull then
         (let build = get_item ''build'' img in
          case cd_dockerfile d of
            None \<Rightarrow> lift_res (Inl (ValueError (''container '' @ cd_container_name d
                      @ '' build definition is missing dockerfile content'')))
          | Some df \<Rightarrow>
              seq (lift_res (rbind (in_obj build ''tag'') as_str)) (\<lambda>tag.
              seq (lift_res (in_obj build ''target'')) (\<lambda>target.
              seq (lift_res (in_obj build ''args'')) (\<lambda>args.
              seq (issue en (BuildImage \<lparr>ib_dockerfile = df, ib_tag = tag, ib_target = target, ib_args = or_none args\<rparr>))
                (\<lambda>_. ret (tag, Built))))))
       else
         seq (lift_res (rbind (item ''ref'' img) as_str)) (\<lambda>ref.
           reading (\<lambda>s. if en_image_present en (dp_world s) ref then ret (ref, Existing)
                        else seq (issue en (PullImage ref)) (\<lambda>_. ret (ref, Pulled)))))"

definition prepare_step :: "'w engine \<Rightarrow> container_step \<Rightarrow> ('w deploy, unit) eff" where
  "prepare_step en st =
     (case cs_definition st of
        None \<Rightarrow> lift_res (Inl (AssertionError []))
      | Some d \<Rightarrow>
          seq (prepare_image en d) (\<lambda>(image_name, action).
            modify (\<lambda>s. let s' = s\<lparr>dp_images := dput (cs_container_name st) image_name (dp_images s)\<rparr> in
              case action of
                Built \<Rightarrow> s'\<lparr>dp_built := dp_built s' @ [image_name]\<rparr>
              | Pulled \<Rightarrow> s'\<lparr>dp_pulled := dp_pulled s' @ [image_name]\<rparr>
              | Existing \<Rightarrow> s')))"

section \<open>The underlay network\<close>

datatype network_action = NetCreate | NetKeep | NetRecreate

definition attached_container_names :: "docker_network \<Rightarrow> string list" where
  "attached_container_names nw =
     remdups (concat (map (\<lambda>n. case n of Some (c # cs) \<Rightarrow> [c # cs] | _ \<Rightarrow> []) (nw_containers nw)))"

definition pool_step ::
  "string \<Rightarrow> string \<Rightarrow> string option \<Rightarrow> string option \<Rightarrow> bool \<times> bool \<Rightarrow> ipam_pool \<Rightarrow> bool \<times> bool" where
  "pool_step subnet gateway subnet6 gateway6 = (\<lambda>(v4, v6) p.
     case ip_subnet p of
       None \<Rightarrow> (v4, v6)
     | Some sub \<Rightarrow>
         if sub = [] then (v4, v6)
         else if CHR '':'' \<in> set sub
         then (v4, v6 \<or> (subnet6 \<noteq> None \<and> Some sub = subnet6 \<and> ip_gateway p = gateway6))
         else (v4 \<or> (sub = subnet \<and> ip_gateway p = Some gateway), v6))"

definition network_matches ::
  "docker_network \<Rightarrow> string \<Rightarrow> string \<Rightarrow> string option \<Rightarrow> string option \<Rightarrow> bool res" where
  "network_matches nw subnet gateway subnet6 gateway6 =
     (case nw_config nw of
        None \<Rightarrow> Inl (TypeError ''object is not iterable'')
      | Some pools \<Rightarrow>
          let (v4, v6) = foldl (pool_step subnet gateway subnet6 gateway6) (False, subnet6 = None) pools in
          Inr (v4 \<and> v6))"

text \<open>The result of the check before any change: the action, or the message that refuses it.\<close>

definition plan_underlay_network ::
  "'w engine \<Rightarrow> string \<Rightarrow> underlay_network \<Rightarrow> string list \<Rightarrow> ('w deploy, string + network_action) eff" where
  "plan_underlay_network en name ul removable =
     reading (\<lambda>s. lift_res (rbind (en_networks en (dp_world s) name) (\<lambda>existing.
       case existing of
         [] \<Rightarrow> Inr (Inr NetCreate)
       | nw # _ \<Rightarrow>
           rbind (network_matches nw (ul_subnet ul) (ul_gateway ul) (ul_ipv6_subnet ul) (ul_ipv6_gateway ul)) (\<lambda>ok.
             if ok then Inr (Inr NetKeep)
             else let blockers = sort (filter (\<lambda>n. n \<notin> set removable) (attached_container_names nw)) in
                  if blockers \<noteq> []
                  then Inr (Inl (''existing network '' @ name @ '' has incompatible IPAM config and ''
                         @ ''endpoints not scheduled for removal this run: '' @ join '', '' blockers))
                  else Inr (Inr NetRecreate)))))"

definition create_network :: "'w engine \<Rightarrow> string \<Rightarrow> underlay_network \<Rightarrow> ('w deploy, unit) eff" where
  "create_network en name ul =
     (let v6 = truthy (ul_ipv6_subnet ul);
          pools = \<lparr>ip_subnet = Some (ul_subnet ul), ip_gateway = Some (ul_gateway ul)\<rparr> #
                  (if v6 then [\<lparr>ip_subnet = ul_ipv6_subnet ul, ip_gateway = ul_ipv6_gateway ul\<rparr>] else []) in
      seq (issue en (CreateNetwork name pools v6 network_labels)) (\<lambda>_. ret ()))"

definition apply_underlay_network_plan ::
  "'w engine \<Rightarrow> network_action \<Rightarrow> string \<Rightarrow> underlay_network \<Rightarrow> ('w deploy, string option) eff" where
  "apply_underlay_network_plan en action name ul =
     (case action of
        NetKeep \<Rightarrow> ret None
      | NetCreate \<Rightarrow> seq (create_network en name ul) (\<lambda>_. ret None)
      | NetRecreate \<Rightarrow>
          reading (\<lambda>s. seq (lift_res (en_networks en (dp_world s) name)) (\<lambda>existing.
            case existing of
              [] \<Rightarrow> seq (create_network en name ul) (\<lambda>_. ret None)
            | nw # _ \<Rightarrow>
                let attached = attached_container_names nw in
                if attached \<noteq> []
                then ret (Some (''cannot recreate network '' @ name @ '': endpoints still ''
                       @ ''attached after container removal: '' @ join '', '' (sort attached)))
                else seq (issue en (RemoveNetwork (nw_id nw))) (\<lambda>_.
                     seq (create_network en name ul) (\<lambda>_. ret None)))))"

section \<open>The deployment\<close>

fun remove_containers :: "'w engine \<Rightarrow> string list \<Rightarrow> string list \<Rightarrow> ('w deploy, string list) eff" where
  "remove_containers en [] removed = ret removed"
| "remove_containers en (name # names) removed =
     reading (\<lambda>s. if en_container_present en (dp_world s) name
                  then seq (issue en (RemoveContainer name)) (\<lambda>_. remove_containers en names (removed @ [name]))
                  else remove_containers en names removed)"

definition remove_and_note :: "'w engine \<Rightarrow> string list \<Rightarrow> ('w deploy, unit) eff" where
  "remove_and_note en names =
     seq (remove_containers en names []) (\<lambda>rs. modify (\<lambda>s. s\<lparr>dp_removed := dp_removed s @ rs\<rparr>))"

definition start_step :: "'w engine \<Rightarrow> container_step \<Rightarrow> ('w deploy, unit) eff" where
  "start_step en st =
     (case cs_definition st of
        None \<Rightarrow> lift_res (Inl (AssertionError []))
      | Some d \<Rightarrow>
          reading (\<lambda>s.
          seq (lift_res (case map_of (dp_images s) (cs_container_name st) of
                           None \<Rightarrow> Inl (KeyError (cs_container_name st)) | Some image_name \<Rightarrow> Inr image_name)) (\<lambda>image_name.
          seq (lift_res (build_create_kwargs d image_name)) (\<lambda>kwargs.
          seq (issue en (CreateContainer kwargs)) (\<lambda>cid.
          seq (issue en (StartContainer cid)) (\<lambda>_.
            modify (\<lambda>s. s\<lparr>dp_started := dp_started s @ [cd_container_name d]\<rparr>)))))))"

definition to_remove :: "container_plan \<Rightarrow> container_step list" where
  "to_remove plan = filter (\<lambda>st. cs_action st = REMOVE) (cp_steps plan)"

definition step_by_service :: "container_plan \<Rightarrow> (string \<times> container_step) list" where
  "step_by_service plan =
     dict_of (concat (map (\<lambda>st. case cs_service_name st of Some (c # cs) \<Rightarrow> [(c # cs, st)] | _ \<Rightarrow> []) (cp_steps plan)))"

definition recreate_steps :: "container_plan \<Rightarrow> runtime_service list \<Rightarrow> container_step list" where
  "recreate_steps plan ordered =
     concat (map (\<lambda>x. case map_of (step_by_service plan) (svc_name x) of
                        Some st \<Rightarrow> if cs_action st = CREATE \<or> cs_action st = RECREATE then [st] else []
                      | None \<Rightarrow> []) ordered)"

text \<open>The body of the \<open>try\<close>: \<open>None\<close> is success, \<open>Some message\<close> one of the two early failures.\<close>

definition deploy_body ::
  "'w engine \<Rightarrow> string \<Rightarrow> underlay_network \<Rightarrow> container_step list \<Rightarrow> container_step list \<Rightarrow> ('w deploy, string option) eff" where
  "deploy_body en network ul orphans recreate =
     seq (each (prepare_step en) recreate) (\<lambda>_.
     seq (plan_underlay_network en network ul (map cs_container_name orphans @ map cs_container_name recreate))
      (\<lambda>plan. case plan of
         Inl message \<Rightarrow> ret (Some message)
       | Inr action \<Rightarrow>
           seq (remove_and_note en (map cs_container_name orphans)) (\<lambda>_.
           seq (remove_and_note en (map cs_container_name (rev recreate))) (\<lambda>_.
           seq (apply_underlay_network_plan en action network ul) (\<lambda>ensured.
             case ensured of
               Some message \<Rightarrow> ret (Some message)
             | None \<Rightarrow> seq (each (start_step en) recreate) (\<lambda>_. ret None))))))"

record deploy_result =
  dr_succeeded :: bool
  dr_project_name :: string
  dr_network :: string
  dr_started :: "string list"
  dr_removed :: "string list"
  dr_built :: "string list"
  dr_pulled :: "string list"
  dr_message :: string

definition deploy_start :: "'w \<Rightarrow> 'w deploy" where
  "deploy_start w = \<lparr>dp_world = w, dp_calls = [], dp_images = [], dp_removed = [], dp_started = [],
                     dp_built = [], dp_pulled = []\<rparr>"

definition deploy_network :: "container_plan \<Rightarrow> desired_state \<Rightarrow> string" where
  "deploy_network plan s = cp_project_name plan @ ''_'' @ ul_name (rt_underlay (ds_runtime s))"

definition deploy :: "'w engine \<Rightarrow> desired_state \<Rightarrow> container_plan \<Rightarrow> 'w \<Rightarrow> (deploy_result \<times> 'w deploy) res" where
  "deploy en s plan w =
     (let ul = rt_underlay (ds_runtime s);
          network = deploy_network plan s in
      rbind (topologically_sorted_services s) (\<lambda>ordered.
      rbind (en_connect en w) (\<lambda>_.
        let (r, t) = deploy_body en network ul (to_remove plan) (recreate_steps plan ordered) (deploy_start w);
            started = (case r of Inr (Some _) \<Rightarrow> [] | _ \<Rightarrow> dp_started t) in
        Inr (\<lparr>dr_succeeded = (r = Inr None), dr_project_name = cp_project_name plan, dr_network = network,
              dr_started = started, dr_removed = dp_removed t, dr_built = dp_built t, dr_pulled = dp_pulled t,
              dr_message = (case r of Inl e \<Rightarrow> exc_str e | Inr (Some m) \<Rightarrow> m | Inr None \<Rightarrow> [])\<rparr>, t))))"

section \<open>The order is topological\<close>

definition precedes :: "'a list \<Rightarrow> 'a \<Rightarrow> 'a \<Rightarrow> bool" where
  "precedes xs a b \<longleftrightarrow> (\<exists>us vs. xs = us @ b # vs \<and> a \<in> set us)"

lemma precedes_prefix: "precedes ys a b \<Longrightarrow> precedes (xs @ ys) a b"
proof -
  assume "precedes ys a b"
  then obtain us vs where "ys = us @ b # vs" "a \<in> set us" by (auto simp: precedes_def)
  then have "xs @ ys = (xs @ us) @ b # vs \<and> a \<in> set (xs @ us)" by simp
  then show ?thesis unfolding precedes_def by blast
qed

lemma precedes_split: "a \<in> set xs \<Longrightarrow> b \<in> set ys \<Longrightarrow> precedes (xs @ ys) a b"
proof -
  assume "a \<in> set xs" "b \<in> set ys"
  then obtain us vs where "ys = us @ b # vs" by (auto simp: in_set_conv_decomp)
  then have "xs @ ys = (xs @ us) @ b # vs \<and> a \<in> set (xs @ us)" using \<open>a \<in> set xs\<close> by simp
  then show ?thesis unfolding precedes_def by blast
qed

definition waits_on :: "pending \<Rightarrow> (string \<times> string) set" where
  "waits_on pending = {(n, d). \<exists>deps. (n, deps) \<in> set pending \<and> d \<in> set deps}"

definition closed_pending :: "pending \<Rightarrow> bool" where
  "closed_pending pending \<longleftrightarrow>
     distinct (map fst pending) \<and> (\<forall>(n, deps)\<in>set pending. set deps \<subseteq> fst ` set pending)"

lemma finite_waits_on: "finite (waits_on pending)"
proof -
  have "waits_on pending = (\<Union>(n, deps)\<in>set pending. Pair n ` set deps)"
    by (auto simp: waits_on_def)
  then show ?thesis by auto
qed

lemma drop_ready_mem:
  "(n, deps) \<in> set (drop_ready ready pending) \<longleftrightarrow>
   n \<notin> set ready \<and> (\<exists>deps'. (n, deps') \<in> set pending \<and> deps = filter (\<lambda>d. d \<notin> set ready) deps')"
  by (force simp: drop_ready_def)

lemma drop_ready_keys: "fst ` set (drop_ready ready pending) = fst ` set pending - set ready"
  by (force simp: drop_ready_def)

lemma drop_ready_closed:
  assumes "closed_pending pending"
  shows "closed_pending (drop_ready ready pending)"
  unfolding closed_pending_def
proof (intro conjI ballI)
  have "map fst (drop_ready ready pending) = map fst (filter (\<lambda>(n, _). n \<notin> set ready) pending)"
    by (simp add: drop_ready_def comp_def split_def)
  then show "distinct (map fst (drop_ready ready pending))"
    using assms by (simp add: closed_pending_def distinct_map_filter)
  fix e assume e: "e \<in> set (drop_ready ready pending)"
  obtain n deps where ed: "e = (n, deps)" by fastforce
  then obtain deps' where d: "(n, deps') \<in> set pending" "deps = filter (\<lambda>d. d \<notin> set ready) deps'"
    using e by (auto simp: drop_ready_mem)
  then have "set deps' \<subseteq> fst ` set pending" using assms by (auto simp: closed_pending_def)
  then show "case e of (n, deps) \<Rightarrow> set deps \<subseteq> fst ` set (drop_ready ready pending)"
    using d(2) ed by (auto simp: drop_ready_keys)
qed

lemma topo_loop_order:
  assumes "topo_loop pending ordered = Inr out" "closed_pending pending"
  shows "\<exists>rest. out = ordered @ rest \<and> distinct rest \<and> set rest = fst ` set pending \<and>
           (\<forall>(n, d)\<in>waits_on pending. precedes rest d n)"
  using assms
proof (induction pending ordered rule: topo_loop.induct)
  case (1 pending ordered)
  let ?r = "ready_names pending"
  show ?case
  proof (cases "pending = []")
    case True
    then show ?thesis using 1(2) by (subst (asm) topo_loop.simps) (simp add: waits_on_def)
  next
    case False
    have r: "?r \<noteq> []" using 1(2) False by (subst (asm) topo_loop.simps) (auto simp: Let_def)
    have step: "topo_loop (drop_ready ?r pending) (ordered @ ?r) = Inr out"
      using 1(2) False r by (subst (asm) topo_loop.simps) (simp add: Let_def)
    obtain rest where rest: "out = (ordered @ ?r) @ rest" "distinct rest"
      "set rest = fst ` set (drop_ready ?r pending)"
      "\<forall>(n, d)\<in>waits_on (drop_ready ?r pending). precedes rest d n"
      using 1(1) [OF False refl r step drop_ready_closed [OF 1(3)]] by (auto simp del: append_assoc)
    have rd: "distinct ?r"
      using 1(3) by (simp add: ready_names_def closed_pending_def distinct_map_filter)
    have rsub: "set ?r \<subseteq> fst ` set pending" by (force simp: set_ready_names)
    have prec: "precedes (?r @ rest) d n" if w: "(n, d) \<in> waits_on pending" for n d
    proof -
      obtain deps where deps: "(n, deps) \<in> set pending" "d \<in> set deps" using w by (auto simp: waits_on_def)
      have "n \<notin> set ?r"
      proof
        assume "n \<in> set ?r"
        then have "(n, []) \<in> set pending" by (simp add: set_ready_names)
        then have "deps = []" using deps(1) 1(3) by (auto simp: closed_pending_def dest: eq_key_imp_eq_value)
        then show False using deps(2) by simp
      qed
      moreover have "n \<in> fst ` set pending" using deps(1) by force
      ultimately have n: "n \<in> set rest" using rest(3) by (simp add: drop_ready_keys)
      show ?thesis
      proof (cases "d \<in> set ?r")
        case True
        then show ?thesis using n by (rule precedes_split)
      next
        case False
        then have "(n, d) \<in> waits_on (drop_ready ?r pending)"
          using deps \<open>n \<notin> set ?r\<close> by (force simp: waits_on_def drop_ready_mem)
        then show ?thesis using rest(4) by (auto intro: precedes_prefix)
      qed
    qed
    have "out = ordered @ (?r @ rest)" "distinct (?r @ rest)" "set (?r @ rest) = fst ` set pending"
      using rest rd rsub by (auto simp: drop_ready_keys)
    then show ?thesis using prec by (intro exI [of _ "?r @ rest"]) auto
  qed
qed

lemma topo_loop_cycle:
  assumes "topo_loop pending ordered = Inl e" "closed_pending pending"
  shows "e = ValueError ''runtime service graph contains a dependency cycle'' \<and> \<not> acyclic (waits_on pending)"
  using assms
proof (induction pending ordered rule: topo_loop.induct)
  case (1 pending ordered)
  let ?r = "ready_names pending"
  have ne: "pending \<noteq> []" using 1(2) by (subst (asm) topo_loop.simps) (auto split: if_splits)
  show ?case
  proof (cases "?r = []")
    case True
    have e: "e = ValueError ''runtime service graph contains a dependency cycle''"
      using 1(2) ne True by (subst (asm) topo_loop.simps) (simp add: Let_def)
    have succ: "\<exists>d\<in>fst ` set pending. (n, d) \<in> waits_on pending" if n: "n \<in> fst ` set pending" for n
    proof -
      obtain deps where deps: "(n, deps) \<in> set pending" using n by force
      have "(n, []) \<notin> set pending" using True set_ready_names [of pending] by auto
      then obtain d where d: "d \<in> set deps" using deps by (cases deps) auto
      then have "d \<in> fst ` set pending" using deps 1(3) by (force simp: closed_pending_def)
      then show ?thesis using deps d by (auto simp: waits_on_def)
    qed
    have "\<not> acyclic (waits_on pending)"
    proof
      assume "acyclic (waits_on pending)"
      then have wf: "wf ((waits_on pending)\<inverse>)" by (rule finite_acyclic_wf_converse [OF finite_waits_on])
      obtain n where "n \<in> fst ` set pending" using ne by (cases pending) auto
      from wfE_min [OF wf this] obtain z where z: "z \<in> fst ` set pending"
        "\<And>y. (y, z) \<in> (waits_on pending)\<inverse> \<Longrightarrow> y \<notin> fst ` set pending" by blast
      show False using succ [OF z(1)] z(2) by auto
    qed
    then show ?thesis using e by simp
  next
    case False
    have step: "topo_loop (drop_ready ?r pending) (ordered @ ?r) = Inl e"
      using 1(2) ne False by (subst (asm) topo_loop.simps) (simp add: Let_def)
    have "waits_on (drop_ready ?r pending) \<subseteq> waits_on pending"
      by (auto simp: waits_on_def drop_ready_mem)
    then show ?thesis
      using 1(1) [OF ne refl False step drop_ready_closed [OF 1(3)]] acyclic_subset by blast
  qed
qed

lemma takeWhile_until: "n \<notin> set us \<Longrightarrow> takeWhile (\<lambda>y. y \<noteq> n) (us @ n # vs) = us"
  by (induction us) auto

lemma ordered_acyclic:
  assumes "distinct xs" "\<forall>(n, d)\<in>r. precedes xs d n"
  shows "acyclic r"
proof -
  define pos where "pos n = length (takeWhile (\<lambda>y. y \<noteq> n) xs)" for n
  have "pos d < pos n" if nd: "(n, d) \<in> r" for n d
  proof -
    obtain us vs where xs: "xs = us @ n # vs" "d \<in> set us" using assms(2) nd by (auto simp: precedes_def)
    have "n \<notin> set us" using assms(1) xs by simp
    then have "pos n = length us" by (simp add: pos_def xs(1) takeWhile_until)
    moreover obtain as bs where us: "us = as @ d # bs" "d \<notin> set as" using xs(2) by (meson split_list_first)
    have "pos d = length as" using takeWhile_until [OF us(2), of "bs @ n # vs"] by (simp add: pos_def xs(1) us(1))
    ultimately show ?thesis by (simp add: us(1))
  qed
  then have "r\<inverse> \<subseteq> measure pos" by auto
  then have "acyclic (r\<inverse>)" using wf_acyclic [OF wf_measure] acyclic_subset by blast
  then show ?thesis by simp
qed

definition service_deps :: "runtime_service list \<Rightarrow> (string \<times> string) set" where
  "service_deps services =
     {(svc_name x, d) |x d. x \<in> set services \<and> d \<in> set (svc_depends_on x) \<and> d \<in> svc_name ` set services}"

lemma pending_of_facts:
  assumes "distinct (map svc_name services)"
  shows "closed_pending (pending_of services)"
    and "fst ` set (pending_of services) = svc_name ` set services"
    and "waits_on (pending_of services) = service_deps services"
proof -
  let ?f = "\<lambda>x. filter (\<lambda>d. d \<in> set (map svc_name services)) (svc_depends_on x)"
  have new: "foldl (\<lambda>d (k, v). dput k v d) d (map (\<lambda>x. (svc_name x, ?f x)) xs) = d @ map (\<lambda>x. (svc_name x, ?f x)) xs"
    if "distinct (map fst d @ map svc_name xs)" for d xs
    using that
  proof (induction xs arbitrary: d)
    case (Cons x xs)
    have "svc_name x \<notin> fst ` set d" using Cons.prems by auto
    then have "dput (svc_name x) (?f x) d = d @ [(svc_name x, ?f x)]" by (rule dput_new)
    then show ?case using Cons.IH [of "d @ [(svc_name x, ?f x)]"] Cons.prems by simp
  qed simp
  have p: "pending_of services = map (\<lambda>x. (svc_name x, ?f x)) services"
    using new [of "[]" services] assms by (simp add: pending_of_def dict_of_def)
  show k: "fst ` set (pending_of services) = svc_name ` set services" by (simp add: p image_image)
  have "map fst (pending_of services) = map svc_name services" by (simp add: p comp_def)
  then show "closed_pending (pending_of services)"
    using assms by (simp add: closed_pending_def k) (auto simp: p)
  show "waits_on (pending_of services) = service_deps services"
    by (auto simp: waits_on_def service_deps_def p)
qed

definition topological :: "runtime_service list \<Rightarrow> runtime_service list res \<Rightarrow> bool" where
  "topological es r \<longleftrightarrow>
     (case r of
        Inl e \<Rightarrow> e = ValueError ''runtime service graph contains a dependency cycle'' \<and> \<not> acyclic (service_deps es)
      | Inr ordered \<Rightarrow> acyclic (service_deps es) \<and> distinct ordered \<and> set ordered = set es \<and>
                       (\<forall>(n, d)\<in>service_deps es. precedes (map svc_name ordered) d n))"

lemma topologically_sorted_ok:
  assumes "distinct (map svc_name (enabled_services (ds_runtime s)))"
  shows "topological (enabled_services (ds_runtime s)) (topologically_sorted_services s)"
proof -
  let ?es = "enabled_services (ds_runtime s)"
  let ?by = "dict_of (map (\<lambda>x. (svc_name x, x)) ?es)"
  let ?pick = "\<lambda>n. the (map_of ?by n)"
  note p = pending_of_facts [OF assms]
  have t: "topologically_sorted_services s =
           rbind (topo_loop (pending_of ?es) []) (\<lambda>names. Inr (map ?pick names))"
    by (simp add: topologically_sorted_services_def Let_def)
  show ?thesis
  proof (cases "topo_loop (pending_of ?es) []")
    case (Inl e)
    then show ?thesis using topo_loop_cycle [OF Inl p(1)] p(3) by (simp add: t topological_def)
  next
    case (Inr names)
    have n: "distinct names" "set names = svc_name ` set ?es" "\<forall>(n, d)\<in>service_deps ?es. precedes names d n"
      using topo_loop_order [OF Inr p(1)] p(2,3) by auto
    have pick: "?pick (svc_name x) = x" if "x \<in> set ?es" for x
    proof -
      have "map_of ?by = map_of (map (\<lambda>x. (svc_name x, x)) ?es)"
        by (rule map_of_dict_of_distinct) (simp add: comp_def assms)
      then show ?thesis using map_of_keyed [OF assms that, of "\<lambda>x. x"] by simp
    qed
    have "map svc_name (map ?pick names) = map (\<lambda>n. n) names"
      unfolding map_map by (rule map_cong [OF refl]) (use n(2) pick in auto)
    then have names: "map svc_name (map ?pick names) = names" by simp
    have "distinct (map ?pick names)" using names n(1) by (metis distinct_map)
    moreover have "set (map ?pick names) = set ?es" using n(2) pick by (force simp: image_image)
    ultimately show ?thesis using n names ordered_acyclic [OF n(1,3)] by (simp add: t Inr topological_def)
  qed
qed

lemma topological_sorted_order:
  assumes "distinct (map svc_name (enabled_services (ds_runtime s)))" "topologically_sorted_services s = Inr ordered"
  shows "\<forall>(n, d)\<in>service_deps (enabled_services (ds_runtime s)). precedes (map svc_name ordered) d n"
  using topologically_sorted_ok [OF assms(1)] assms(2) by (simp add: topological_def)

text \<open>C21: The deployment order.  With distinct service names the loop ends; it raises exactly when the
  enabled services depend on one another in a cycle, and otherwise returns every enabled service once,
  each after all the enabled services it depends on.\<close>

theorem topological_order:
  assumes "distinct (map svc_name (enabled_services (ds_runtime s)))"
  shows "case topologically_sorted_services s of
           Inl e \<Rightarrow> e = ValueError ''runtime service graph contains a dependency cycle'' \<and>
                    \<not> acyclic (service_deps (enabled_services (ds_runtime s)))
         | Inr ordered \<Rightarrow> acyclic (service_deps (enabled_services (ds_runtime s))) \<and> distinct ordered \<and>
                    set ordered = set (enabled_services (ds_runtime s)) \<and>
                    (\<forall>(n, d)\<in>service_deps (enabled_services (ds_runtime s)).
                       precedes (map svc_name ordered) d n)"
  using topologically_sorted_ok [OF assms] unfolding topological_def .

definition example_order_state :: desired_state where
  "example_order_state = set_services
     [(example_service ''b'' BIRD_ROUTER [])\<lparr>svc_depends_on := [''w'']\<rparr>,
      (example_service ''w'' WG_GATEWAY [])\<lparr>svc_depends_on := [''n'']\<rparr>,
      (example_service ''n'' ROUTER_NETNS [])\<lparr>svc_depends_on := []\<rparr>] example_state"

theorem topological_order_witness:
  "case topologically_sorted_services example_order_state of
     Inl _ \<Rightarrow> False | Inr ordered \<Rightarrow> precedes (map svc_name ordered) ''n'' ''w''"
proof -
  have d: "distinct (map svc_name (enabled_services (ds_runtime example_order_state)))" by code_simp
  let ?w = "(example_service ''w'' WG_GATEWAY [])\<lparr>svc_depends_on := [''n'']\<rparr>"
  have "?w \<in> set (enabled_services (ds_runtime example_order_state))"
    "''n'' \<in> svc_name ` set (enabled_services (ds_runtime example_order_state))"
    by (simp_all add: example_order_state_def set_services_def enabled_services_def example_service_def)
  moreover have "svc_name ?w = ''w''" "''n'' \<in> set (svc_depends_on ?w)" by (simp_all add: example_service_def)
  ultimately have "(''w'', ''n'') \<in> service_deps (enabled_services (ds_runtime example_order_state))"
    unfolding service_deps_def mem_Collect_eq by metis
  moreover have "\<not> isl (topologically_sorted_services example_order_state)" by code_simp
  ultimately show ?thesis using topological_order [OF d] by (auto split: sum.splits)
qed

section \<open>The calls of a deployment\<close>

definition extends :: "(docker_call \<Rightarrow> bool) \<Rightarrow> 'w deploy \<Rightarrow> 'w deploy \<Rightarrow> bool" where
  "extends Q s t \<longleftrightarrow> (\<exists>cs. dp_calls t = dp_calls s @ cs \<and> list_all Q cs)"

interpretation calls: step_order "extends Q" for Q
proof
  fix s t u :: "'w deploy"
  show "extends Q s s" by (simp add: extends_def)
  assume "extends Q s t" "extends Q t u"
  then show "extends Q s u" unfolding extends_def by (metis append_assoc list_all_append)
qed

lemma runs_issue: "Q c \<Longrightarrow> runs (extends Q) (issue en c)"
  by (simp add: runs_def issue_def extends_def split: prod.splits)

lemma runs_modify: "(\<And>s. dp_calls (f s) = dp_calls s) \<Longrightarrow> runs (extends Q) (modify f)"
  by (simp add: runs_def extends_def)

lemmas deploy_intros = calls.runs_intros runs_issue runs_modify

fun image_call :: "docker_call \<Rightarrow> bool" where
  "image_call (BuildImage _) = True"
| "image_call (PullImage _) = True"
| "image_call _ = False"

text \<open>The network that goes is the first one the engine listed for the name, and it is empty.\<close>

definition listed_first :: "'w engine \<Rightarrow> string \<Rightarrow> string \<Rightarrow> bool" where
  "listed_first en name i \<longleftrightarrow>
     (\<exists>w nw others. en_networks en w name = Inr (nw # others) \<and> nw_id nw = i \<and> attached_container_names nw = [])"

fun network_call :: "'w engine \<Rightarrow> string \<Rightarrow> docker_call \<Rightarrow> bool" where
  "network_call en name (RemoveNetwork i) \<longleftrightarrow> listed_first en name i"
| "network_call en name (CreateNetwork n _ _ _) \<longleftrightarrow> n = name"
| "network_call en name _ \<longleftrightarrow> False"

fun start_call :: "container_definition set \<Rightarrow> docker_call \<Rightarrow> bool" where
  "start_call ds (CreateContainer k) \<longleftrightarrow> (\<exists>d\<in>ds. \<exists>img. build_create_kwargs d img = Inr k)"
| "start_call ds (StartContainer _) \<longleftrightarrow> True"
| "start_call ds _ \<longleftrightarrow> False"

lemma runs_prepare_image: "runs (extends image_call) (prepare_image en d)"
  unfolding prepare_image_def Let_def by (intro deploy_intros | (auto split: option.splits intro!: deploy_intros))+

lemma runs_prepare_step: "runs (extends image_call) (prepare_step en st)"
  unfolding prepare_step_def
  by (cases "cs_definition st") (auto intro!: deploy_intros runs_prepare_image split: image_action.splits simp: Let_def)

lemma runs_plan_network: "runs (extends Q) (plan_underlay_network en name ul removable)"
  unfolding plan_underlay_network_def by (intro deploy_intros)

lemma runs_create_network: "runs (extends (network_call en name)) (create_network en name ul)"
  unfolding create_network_def Let_def by (intro deploy_intros) simp

lemma seq_lift: "seq (lift_res r) f s = (case r of Inl e \<Rightarrow> (Inl e, s) | Inr x \<Rightarrow> f x s)"
  by (cases r) (simp_all add: seq_def)

lemma runs_apply_network: "runs (extends (network_call en name)) (apply_underlay_network_plan en action name ul)"
proof (cases action)
  case NetRecreate
  have "extends (network_call en name) s (snd (apply_underlay_network_plan en NetRecreate name ul s))" for s
  proof (cases "en_networks en (dp_world s) name")
    case (Inl e)
    then show ?thesis
      by (simp add: apply_underlay_network_plan_def seq_lift extends_def)
  next
    case (Inr existing)
    have create: "runs (extends (network_call en name)) (seq (create_network en name ul) (\<lambda>_. ret (None :: string option)))"
      by (intro deploy_intros runs_create_network)
    show ?thesis
    proof (cases existing)
      case Nil
      then show ?thesis using Inr create
        by (simp add: apply_underlay_network_plan_def seq_lift runs_def)
    next
      case (Cons nw others)
      show ?thesis
      proof (cases "attached_container_names nw = []")
        case True
        have "listed_first en name (nw_id nw)" using Inr Cons True unfolding listed_first_def by blast
        then have "runs (extends (network_call en name))
            (seq (issue en (RemoveNetwork (nw_id nw))) (\<lambda>_. seq (create_network en name ul) (\<lambda>_. ret (None :: string option))))"
          by (intro deploy_intros runs_create_network) simp
        then show ?thesis using Inr Cons True
          by (simp add: apply_underlay_network_plan_def seq_lift runs_def)
      next
        case False
        then show ?thesis using Inr Cons
          by (simp add: apply_underlay_network_plan_def seq_lift extends_def Let_def)
      qed
    qed
  qed
  then show ?thesis by (simp add: NetRecreate runs_def)
qed (auto simp: apply_underlay_network_plan_def intro!: deploy_intros runs_create_network)

lemma runs_remove_containers:
  "runs (extends (\<lambda>c. c \<in> RemoveContainer ` set names)) (remove_containers en names removed)"
proof -
  have "set names \<subseteq> ns \<Longrightarrow> runs (extends (\<lambda>c. c \<in> RemoveContainer ` ns)) (remove_containers en names removed)" for ns
    by (induction names arbitrary: removed) (auto intro!: deploy_intros split: if_splits)
  then show ?thesis by simp
qed

lemma runs_remove_and_note:
  "runs (extends (\<lambda>c. c \<in> RemoveContainer ` set names)) (remove_and_note en names)"
  unfolding remove_and_note_def by (intro deploy_intros runs_remove_containers) simp

lemma runs_create: "(\<And>k. r = Inr k \<Longrightarrow> runs (extends Q) (f k)) \<Longrightarrow> runs (extends Q) (seq (lift_res r) f)"
  by (cases r) (simp_all add: runs_def seq_def extends_def)

lemma runs_start_step:
  "set_option (cs_definition st) \<subseteq> ds \<Longrightarrow> runs (extends (start_call ds)) (start_step en st)"
  unfolding start_step_def
  by (cases "cs_definition st")
     (auto intro!: calls.runs_lift calls.runs_reading runs_create calls.runs_seq runs_issue runs_modify, blast)

text \<open>A run whose calls fall into consecutive groups, one for each of \<open>Qs\<close>; later groups may be empty.\<close>

definition phases :: "(docker_call \<Rightarrow> bool) list \<Rightarrow> 'w deploy \<Rightarrow> 'w deploy \<Rightarrow> bool" where
  "phases Qs s t \<longleftrightarrow> (\<exists>css. dp_calls t = dp_calls s @ concat css \<and> list_all2 list_all Qs css)"

lemma phases_refl: "phases Qs s s"
  unfolding phases_def
  by (rule exI [of _ "map (\<lambda>_. []) Qs"]) (auto simp: list_all2_conv_all_nth)

lemma phases_Cons: "extends Q s t \<Longrightarrow> phases Qs t u \<Longrightarrow> phases (Q # Qs) s u"
proof -
  assume "extends Q s t" "phases Qs t u"
  then obtain cs css where "dp_calls t = dp_calls s @ cs" "list_all Q cs"
    "dp_calls u = dp_calls t @ concat css" "list_all2 list_all Qs css"
    by (auto simp: extends_def phases_def)
  then have "dp_calls u = dp_calls s @ concat (cs # css) \<and> list_all2 list_all (Q # Qs) (cs # css)" by simp
  then show ?thesis unfolding phases_def by blast
qed

lemma phases_ret: "runs (phases Qs) (ret x)"
  by (simp add: runs_def phases_refl)

lemma phases_seq:
  assumes "runs (extends Q) m" "\<And>x. runs (phases Qs) (f x)"
  shows "runs (phases (Q # Qs)) (seq m f)"
  unfolding runs_def
proof
  fix s
  obtain r t where m: "m s = (r, t)" by fastforce
  have e: "extends Q s t" using assms(1) m by (rule runsD)
  show "phases (Q # Qs) s (snd (seq m f s))"
  proof (cases r)
    case (Inl x)
    then show ?thesis using m phases_Cons [OF e phases_refl] by (simp add: seq_def)
  next
    case (Inr x)
    then show ?thesis using m phases_Cons [OF e] assms(2) [of x] by (simp add: seq_def runs_def)
  qed
qed

lemma deploy_body_phases:
  "runs (phases [image_call, \<lambda>_. False,
                 \<lambda>c. c \<in> RemoveContainer ` set (map cs_container_name orphans),
                 \<lambda>c. c \<in> RemoveContainer ` set (map cs_container_name (rev recreate)),
                 network_call en network,
                 start_call (\<Union>st\<in>set recreate. set_option (cs_definition st)),
                 \<lambda>_. False])
     (deploy_body en network ul orphans recreate)"
proof -
  have images: "runs (extends image_call) (each (prepare_step en) recreate)"
    by (intro calls.runs_each runs_prepare_step)
  have starts: "runs (extends (start_call (\<Union>st\<in>set recreate. set_option (cs_definition st))))
                  (each (start_step en) recreate)"
    by (intro calls.runs_each runs_start_step) blast
  note removes = runs_remove_and_note [of "map cs_container_name orphans" en]
    runs_remove_and_note [of "map cs_container_name (rev recreate)" en]
  show ?thesis
    unfolding deploy_body_def
    by (intro phases_seq images starts runs_plan_network)
       (auto simp del: set_map set_rev intro!: phases_seq phases_ret starts removes runs_apply_network
             split: sum.splits option.splits)
qed

lemma recreate_steps_mem:
  "st \<in> set (recreate_steps plan ordered) \<Longrightarrow>
   st \<in> set (cp_steps plan) \<and> (cs_action st = CREATE \<or> cs_action st = RECREATE)"
proof -
  assume "st \<in> set (recreate_steps plan ordered)"
  then obtain n where n: "map_of (step_by_service plan) n = Some st" "cs_action st = CREATE \<or> cs_action st = RECREATE"
    by (auto simp: recreate_steps_def split: option.splits if_splits)
  then have "(n, st) \<in> set (step_by_service plan)" by (simp add: map_of_SomeD)
  then have "(n, st) \<in> set (concat (map (\<lambda>st. case cs_service_name st of Some (c # cs) \<Rightarrow> [(c # cs, st)] | _ \<Rightarrow> [])
                              (cp_steps plan)))"
    using set_dict_of unfolding step_by_service_def by blast
  then show ?thesis using n(2) by (auto split: option.splits list.splits)
qed

lemma deploy_Inr:
  assumes "deploy en s plan w = Inr (res, t)"
  obtains ordered r where "topologically_sorted_services s = Inr ordered"
    "deploy_body en (deploy_network plan s) (rt_underlay (ds_runtime s))
       (to_remove plan) (recreate_steps plan ordered) (deploy_start w) = (r, t)"
    "dr_succeeded res \<longleftrightarrow> r = Inr None"
    "dr_started res = (case r of Inr (Some _) \<Rightarrow> [] | _ \<Rightarrow> dp_started t)" "dr_removed res = dp_removed t"
proof -
  obtain ordered where o: "topologically_sorted_services s = Inr ordered"
    using assms by (auto simp: deploy_def Let_def rbind_Inr_iff)
  obtain r t' where b: "deploy_body en (deploy_network plan s) (rt_underlay (ds_runtime s)) (to_remove plan)
      (recreate_steps plan ordered) (deploy_start w) = (r, t')" by fastforce
  have "t' = t" "dr_succeeded res \<longleftrightarrow> r = Inr None"
    "dr_started res = (case r of Inr (Some _) \<Rightarrow> [] | _ \<Rightarrow> dp_started t')" "dr_removed res = dp_removed t'"
    using assms by (auto simp: deploy_def Let_def rbind_Inr_iff o b)
  then show ?thesis using that [OF o] b by blast
qed

text \<open>C5: A deployment touches what the plan names, in the order images, orphans, old containers, network,
  new containers.  Whatever the engine answers, every call is one of these: building or pulling an image;
  removing a container of a REMOVE step; removing the old container of a CREATE or RECREATE step;
  removing an empty network, the first one the engine lists for the name of the project's underlay
  network, or creating a network of that name; creating a container from the definition of such a step,
  or starting one.  A container that a KEEP step names, and no step of another kind, is never removed.
  The listed network need not be the project's own: the engine matches names by substring
  (\<open>neighbour_network_removed\<close>).\<close>

theorem deploy_call_phases:
  assumes "deploy en s plan w = Inr (res, t)"
  defines "rebuilt \<equiv> {st \<in> set (cp_steps plan). cs_action st = CREATE \<or> cs_action st = RECREATE}"
  shows "(\<exists>imgs orphans olds nets starts.
     dp_calls t = imgs @ orphans @ olds @ nets @ starts \<and> list_all image_call imgs \<and>
     set orphans \<subseteq> RemoveContainer ` {cs_container_name st |st. st \<in> set (cp_steps plan) \<and> cs_action st = REMOVE} \<and>
     set olds \<subseteq> RemoveContainer ` cs_container_name ` rebuilt \<and>
     list_all (network_call en (deploy_network plan s)) nets \<and>
     list_all (start_call {d. \<exists>st\<in>rebuilt. cs_definition st = Some d}) starts) \<and>
   (\<forall>name. (\<forall>st\<in>set (cp_steps plan). cs_container_name st = name \<longrightarrow> cs_action st = KEEP) \<longrightarrow>
      RemoveContainer name \<notin> set (dp_calls t))"
proof -
  obtain ordered r where b:
    "deploy_body en (deploy_network plan s) (rt_underlay (ds_runtime s))
       (to_remove plan) (recreate_steps plan ordered) (deploy_start w) = (r, t)"
    using deploy_Inr [OF assms(1)] by metis
  have sub: "set (recreate_steps plan ordered) \<subseteq> rebuilt"
    using recreate_steps_mem unfolding rebuilt_def by blast
  have mono: "list_all (start_call ds) cs \<Longrightarrow> ds \<subseteq> ds' \<Longrightarrow> list_all (start_call ds') cs" for ds ds' cs
  proof -
    have "start_call ds c \<Longrightarrow> ds \<subseteq> ds' \<Longrightarrow> start_call ds' c" for c by (cases c) auto
    then show "list_all (start_call ds) cs \<Longrightarrow> ds \<subseteq> ds' \<Longrightarrow> list_all (start_call ds') cs"
      by (simp add: list_all_iff)
  qed
  obtain imgs no orphans olds nets starts no' where l:
    "dp_calls t = imgs @ no @ orphans @ olds @ nets @ starts @ no'" "list_all image_call imgs"
    "list_all (\<lambda>_. False) no" "list_all (\<lambda>_. False) no'"
    "list_all (\<lambda>c. c \<in> RemoveContainer ` set (map cs_container_name (to_remove plan))) orphans"
    "list_all (\<lambda>c. c \<in> RemoveContainer ` set (map cs_container_name (rev (recreate_steps plan ordered)))) olds"
    "list_all (network_call en (deploy_network plan s)) nets"
    "list_all (start_call (\<Union>st\<in>set (recreate_steps plan ordered). set_option (cs_definition st))) starts"
    using runsD [OF deploy_body_phases b]
    unfolding phases_def list_all2_Cons1 list_all2_Nil by (auto simp: deploy_start_def)
  have e: "no = []" "no' = []" using l(3,4) by (cases no; simp) (cases no'; use l(4) in simp)
  have "(\<Union>st\<in>set (recreate_steps plan ordered). set_option (cs_definition st)) \<subseteq>
        {d. \<exists>st\<in>rebuilt. cs_definition st = Some d}" using sub by auto
  from mono [OF l(8) this] have st: "list_all (start_call {d. \<exists>st\<in>rebuilt. cs_definition st = Some d}) starts" .
  have or: "set orphans \<subseteq> RemoveContainer ` {cs_container_name st |st. st \<in> set (cp_steps plan) \<and> cs_action st = REMOVE}"
    using l(5) unfolding list_all_iff to_remove_def by fastforce
  have ol: "set olds \<subseteq> RemoveContainer ` cs_container_name ` rebuilt"
    using l(6) sub unfolding list_all_iff by fastforce
  have kept: "RemoveContainer name \<notin> set (dp_calls t)"
    if k: "\<forall>st\<in>set (cp_steps plan). cs_container_name st = name \<longrightarrow> cs_action st = KEEP" for name
  proof -
    have "RemoveContainer name \<notin> set imgs" "RemoveContainer name \<notin> set nets" "RemoveContainer name \<notin> set starts"
      using l(2) l(7) st by (force simp: list_all_iff)+
    moreover have "RemoveContainer name \<notin> set orphans" using or k by force
    moreover have "RemoveContainer name \<notin> set olds" using ol k unfolding rebuilt_def by force
    ultimately show ?thesis by (simp add: l(1) e)
  qed
  show ?thesis
    by (intro conjI exI [of _ imgs] exI [of _ orphans] exI [of _ olds] exI [of _ nets] exI [of _ starts]
          l(2,7) st or ol allI impI kept) (simp_all add: l(1) e)
qed

definition example_network :: docker_network where
  "example_network =
     \<lparr>nw_id = ''e1'', nw_name = ''p_u'', nw_config = Some [\<lparr>ip_subnet = Some ''10.9.0.0/24'', ip_gateway = Some ''10.9.0.1''\<rparr>],
      nw_containers = [Some ''c'', Some ''x'']\<rparr>"

definition example_engine :: "docker_network list \<Rightarrow> nat engine" where
  "example_engine nws =
     \<lparr>en_connect = (\<lambda>_. Inr ()), en_image_present = (\<lambda>_ _. True), en_container_present = (\<lambda>_ _. True),
      en_networks = (\<lambda>_ _. Inr nws), en_call = (\<lambda>w c. (Inr ''id'', Suc w))\<rparr>"

definition example_definition :: container_definition where
  "example_definition =
     \<lparr>cd_node_id = ''n'', cd_service_name = ''sh'', cd_role = ''r'', cd_container_name = ''c'', cd_network_name = ''p_u'',
      cd_payload = [(''image'', JObj [(''ref'', JStr ''i'')]), (''ports'', JList []), (''network'', JObj []),
        (''binds'', JList []), (''cap_add'', JList []), (''devices'', JList []), (''sysctls'', JObj []),
        (''restart_policy'', JNull), (''init'', JNull), (''command'', JList []), (''environment'', JObj []),
        (''healthcheck'', JNull)],
      cd_dockerfile = None, cd_config_hash = ''h''\<rparr>"

definition example_step :: "string \<Rightarrow> container_action \<Rightarrow> container_step" where
  "example_step name a = \<lparr>cs_service_name = (if a = REMOVE then None else Some ''sh''), cs_container_name = name,
     cs_action = a, cs_reason = [], cs_definition = (if a = REMOVE then None else Some example_definition)\<rparr>"

definition example_deploy_plan :: container_plan where
  "example_deploy_plan = \<lparr>cp_project_name = ''p'', cp_steps = [example_step ''c'' RECREATE, example_step ''o'' REMOVE]\<rparr>"

definition example_deploy :: "docker_network list \<Rightarrow> deploy_result \<times> nat deploy" where
  "example_deploy nws =
     (case deploy (example_engine nws) example_small_state example_deploy_plan 0 of
        Inr x \<Rightarrow> x | Inl _ \<Rightarrow> undefined)"

lemma example_order: "topologically_sorted_services example_small_state = Inr (enabled_services (ds_runtime example_small_state))"
  by code_simp

lemma example_deploys: "deploy (example_engine nws) example_small_state example_deploy_plan 0 = Inr (example_deploy nws)"
proof -
  have c: "en_connect (example_engine nws) 0 = Inr ()" by (simp add: example_engine_def)
  have "\<exists>x. deploy (example_engine nws) example_small_state example_deploy_plan 0 = Inr x"
    unfolding deploy_def Let_def example_order c rbind_simps split_def by (rule exI, rule refl)
  then show ?thesis unfolding example_deploy_def by (elim exE) simp
qed

theorem deploy_call_phases_witness:
  "\<exists>imgs orphans olds nets starts.
     dp_calls (snd (example_deploy [])) = imgs @ orphans @ olds @ nets @ starts \<and> set olds \<subseteq> {RemoveContainer ''c''}"
proof -
  have e: "deploy (example_engine []) example_small_state example_deploy_plan 0
           = Inr (fst (example_deploy []), snd (example_deploy []))" by (simp add: example_deploys)
  have "{st \<in> set (cp_steps example_deploy_plan). cs_action st = CREATE \<or> cs_action st = RECREATE}
        = {example_step ''c'' RECREATE}"
    by (auto simp: example_deploy_plan_def example_step_def)
  moreover have "cs_container_name (example_step ''c'' RECREATE) = ''c''" by (simp add: example_step_def)
  ultimately have c: "cs_container_name ` {st \<in> set (cp_steps example_deploy_plan).
      cs_action st = CREATE \<or> cs_action st = RECREATE} = {''c''}" by simp
  show ?thesis using deploy_call_phases [OF e] unfolding c image_insert image_empty by blast
qed

text \<open>With the project \<open>p\<close>, whose underlay network does not exist yet, beside a project \<open>pp\<close> whose stopped
  network has other addresses: the neighbour's network is removed.\<close>

definition neighbour_network :: docker_network where
  "neighbour_network = \<lparr>nw_id = ''f2'', nw_name = ''p'' @ deploy_network example_deploy_plan example_small_state,
     nw_config = Some [\<lparr>ip_subnet = Some ''10.9.0.0/24'', ip_gateway = Some ''10.9.0.1''\<rparr>], nw_containers = []\<rparr>"

lemma neighbour_network_removed:
  "contains (deploy_network example_deploy_plan example_small_state) (nw_name neighbour_network)"
  "nw_name neighbour_network \<noteq> deploy_network example_deploy_plan example_small_state"
  "RemoveNetwork ''f2'' \<in> set (dp_calls (snd (example_deploy [neighbour_network])))"
proof -
  let ?body = "deploy_body (example_engine [neighbour_network]) (deploy_network example_deploy_plan example_small_state)
    (rt_underlay (ds_runtime example_small_state)) (to_remove example_deploy_plan)
    (recreate_steps example_deploy_plan (enabled_services (ds_runtime example_small_state))) (deploy_start 0)"
  have c: "en_connect (example_engine [neighbour_network]) 0 = Inr ()" by (simp add: example_engine_def)
  have "snd (example_deploy [neighbour_network]) = snd ?body"
    unfolding example_deploy_def deploy_def Let_def example_order c rbind_simps split_def by simp
  moreover have "list_ex (\<lambda>c. c = RemoveNetwork ''f2'') (dp_calls (snd ?body))" by code_simp
  ultimately show "RemoveNetwork ''f2'' \<in> set (dp_calls (snd (example_deploy [neighbour_network])))"
    by (auto simp: list_ex_iff)
qed (code_simp, simp add: neighbour_network_def)

text \<open>C22: A network that cannot be rebuilt stops the deployment before any container is touched.  When the
  images are ready and the existing underlay network has other addresses than the state asks for and holds
  an endpoint that this run does not remove, the deployment fails and the engine has received image calls
  only: no container was removed, created or started and the network was not changed.\<close>

theorem preflight_blocks_everything:
  assumes "deploy en s plan w = Inr (res, t)" "topologically_sorted_services s = Inr ordered"
    and "each (prepare_step en) (recreate_steps plan ordered) (deploy_start w) = (Inr (), p)"
    and "en_networks en (dp_world p) (deploy_network plan s) = Inr (nw # others)"
    and "network_matches nw (ul_subnet (rt_underlay (ds_runtime s))) (ul_gateway (rt_underlay (ds_runtime s)))
           (ul_ipv6_subnet (rt_underlay (ds_runtime s))) (ul_ipv6_gateway (rt_underlay (ds_runtime s))) = Inr False"
    and "n \<in> set (attached_container_names nw)"
    and "n \<notin> cs_container_name ` (set (to_remove plan) \<union> set (recreate_steps plan ordered))"
  shows "\<not> dr_succeeded res \<and> t = p \<and> list_all image_call (dp_calls t)"
proof -
  obtain r where b: "deploy_body en (deploy_network plan s) (rt_underlay (ds_runtime s)) (to_remove plan)
      (recreate_steps plan ordered) (deploy_start w) = (r, t)" "dr_succeeded res \<longleftrightarrow> r = Inr None"
    using deploy_Inr [OF assms(1)] assms(2) by (metis Inr_inject)
  let ?removable = "map cs_container_name (to_remove plan) @ map cs_container_name (recreate_steps plan ordered)"
  have "n \<notin> set ?removable" using assms(7) by auto
  then have "sort (filter (\<lambda>n. n \<notin> set ?removable) (attached_container_names nw)) \<noteq> []"
    using assms(6) by (simp only: sort_Nil_iff filter_empty_conv) blast
  then obtain m where "plan_underlay_network en (deploy_network plan s) (rt_underlay (ds_runtime s)) ?removable p
                       = (Inr (Inl m), p)"
    using assms(4,5) by (simp add: plan_underlay_network_def Let_def del: sort_Nil_iff set_append)
  then have "r = Inr (Some m) \<and> t = p"
    using b(1) assms(3) by (simp add: deploy_body_def seq_def)
  moreover have "extends image_call (deploy_start w) p"
    using runsD [OF calls.runs_each [OF runs_prepare_step] assms(3)] by blast
  ultimately show ?thesis using b(2) by (auto simp: extends_def deploy_start_def)
qed

theorem preflight_blocks_everything_witness:
  "\<not> dr_succeeded (fst (example_deploy [example_network])) \<and>
   list_all image_call (dp_calls (snd (example_deploy [example_network])))"
proof -
  let ?en = "example_engine [example_network]"
  let ?ord = "enabled_services (ds_runtime example_small_state)"
  let ?ul = "rt_underlay (ds_runtime example_small_state)"
  have d: "deploy ?en example_small_state example_deploy_plan 0
           = Inr (fst (example_deploy [example_network]), snd (example_deploy [example_network]))"
    by (simp add: example_deploys)
  obtain u p where p: "each (prepare_step ?en) (recreate_steps example_deploy_plan ?ord) (deploy_start 0) = (u, p)"
    by fastforce
  have u: "fst (each (prepare_step ?en) (recreate_steps example_deploy_plan ?ord) (deploy_start 0)) = Inr ()"
    by code_simp
  have n: "en_networks ?en (dp_world p) (deploy_network example_deploy_plan example_small_state) = Inr (example_network # [])"
    by (simp add: example_engine_def)
  have m: "network_matches example_network (ul_subnet ?ul) (ul_gateway ?ul) (ul_ipv6_subnet ?ul) (ul_ipv6_gateway ?ul) = Inr False"
    "''x'' \<in> set (attached_container_names example_network)"
    "''x'' \<notin> cs_container_name ` (set (to_remove example_deploy_plan) \<union> set (recreate_steps example_deploy_plan ?ord))"
    by code_simp+
  show ?thesis using preflight_blocks_everything [OF d example_order _ n m] p u by auto
qed

section \<open>A deployment that succeeds\<close>

fun container_call :: "docker_call \<Rightarrow> bool" where
  "container_call (CreateContainer _) = True"
| "container_call (StartContainer _) = True"
| "container_call _ = False"

definition container_calls :: "'w deploy \<Rightarrow> docker_call list" where
  "container_calls s = filter container_call (dp_calls s)"

text \<open>The container of a step is made: created from the step's definition, and started by the identifier
  the engine answered to its creation.\<close>

definition made :: "'w engine \<Rightarrow> container_step \<Rightarrow> create_kwargs \<times> string \<Rightarrow> bool" where
  "made en st ki \<longleftrightarrow>
     (\<exists>d img. cs_definition st = Some d \<and> build_create_kwargs d img = Inr (fst ki)) \<and>
     (\<exists>w. fst (en_call en w (CreateContainer (fst ki))) = Inr (snd ki)) \<and>
     (\<exists>w i. fst (en_call en w (StartContainer (snd ki))) = Inr i)"

definition create_and_start :: "create_kwargs \<times> string \<Rightarrow> docker_call list" where
  "create_and_start ki = [CreateContainer (fst ki), StartContainer (snd ki)]"

definition step_container :: "container_step \<Rightarrow> string" where
  "step_container st = cd_container_name (the (cs_definition st))"

lemma build_create_kwargs_name: "build_create_kwargs d img = Inr k \<Longrightarrow> ck_name k = cd_container_name d"
  unfolding build_create_kwargs_def Let_def by (elim rbind_Inr_iff [THEN iffD1, elim_format] exE conjE) auto

lemma made_name: "made en st ki \<Longrightarrow> ck_name (fst ki) = step_container st"
  by (auto simp: made_def step_container_def build_create_kwargs_name)

lemma issue_calls:
  "issue en c s = (r, t) \<Longrightarrow> dp_calls t = dp_calls s @ [c] \<and> dp_started t = dp_started s
     \<and> r = fst (en_call en (dp_world s) c)"
  by (auto simp: issue_def split: prod.splits)

lemma start_step_success:
  assumes "start_step en st s = (Inr u, t)"
  shows "dp_started t = dp_started s @ [step_container st] \<and>
         (\<exists>ki. made en st ki \<and> container_calls t = container_calls s @ create_and_start ki)"
proof (cases "cs_definition st")
  case None
  then show ?thesis using assms by (simp add: start_step_def)
next
  case (Some d)
  have c: "step_container st = cd_container_name d" by (simp add: step_container_def Some)
  obtain img k cid i s1 s2 where k: "build_create_kwargs d img = Inr k"
    and i1: "issue en (CreateContainer k) s = (Inr cid, s1)"
    and i2: "issue en (StartContainer cid) s1 = (Inr i, s2)"
    and t: "t = s2\<lparr>dp_started := dp_started s2 @ [cd_container_name d]\<rparr>"
    using assms by (auto simp: start_step_def Some seq_Inr)
  note calls = issue_calls [OF i1] issue_calls [OF i2]
  have "made en st (k, cid)" unfolding made_def using Some k calls by (metis fst_conv snd_conv)
  moreover have "container_calls t = container_calls s @ create_and_start (k, cid)"
    using calls by (simp add: t container_calls_def create_and_start_def)
  ultimately show ?thesis using calls c by (auto simp: t)
qed

lemma start_steps_success:
  "each (start_step en) sts s = (Inr u, t) \<Longrightarrow>
   dp_started t = dp_started s @ map step_container sts \<and>
   (\<exists>kis. list_all2 (made en) sts kis \<and> container_calls t = container_calls s @ concat (map create_and_start kis))"
proof (induction sts arbitrary: s)
  case (Cons st sts)
  obtain v s1 where a: "start_step en st s = (Inr v, s1)" "each (start_step en) sts s1 = (Inr u, t)"
    using Cons.prems by (auto split: prod.splits sum.splits)
  obtain kis where ks: "list_all2 (made en) sts kis"
    "container_calls t = container_calls s1 @ concat (map create_and_start kis)"
    "dp_started t = dp_started s1 @ map step_container sts" using Cons.IH [OF a(2)] by blast
  obtain ki where k: "made en st ki" "container_calls s1 = container_calls s @ create_and_start ki"
    "dp_started s1 = dp_started s @ [step_container st]" using start_step_success [OF a(1)] by blast
  show ?case using ks k by (intro conjI exI [of _ "ki # kis"]) simp_all
qed simp

text \<open>Before the containers are started nothing is created and nothing is in the list of started ones.\<close>

definition quiet :: "'w deploy \<Rightarrow> 'w deploy \<Rightarrow> bool" where
  "quiet s t \<longleftrightarrow> dp_started t = dp_started s \<and> container_calls t = container_calls s"

interpretation quiet: step_order quiet
  by unfold_locales (auto simp: quiet_def)

lemma quiet_issue: "\<not> container_call c \<Longrightarrow> runs quiet (issue en c)"
  by (auto simp: runs_def quiet_def issue_def container_calls_def split: prod.splits)

lemma quiet_modify: "(\<And>s. quiet s (f s)) \<Longrightarrow> runs quiet (modify f)"
  by (simp add: runs_def)

lemmas quiet_intros = quiet.runs_intros quiet_issue quiet_modify

lemma quiet_prepare_step: "runs quiet (prepare_step en st)"
proof -
  have "runs quiet (prepare_image en d)" for d
    unfolding prepare_image_def Let_def
    by (intro quiet_intros | (auto split: option.splits intro!: quiet_intros))+
  then show ?thesis
    unfolding prepare_step_def
    by (cases "cs_definition st")
       (auto intro!: quiet_intros split: image_action.splits simp: Let_def quiet_def container_calls_def)
qed

lemma quiet_network: "runs quiet (apply_underlay_network_plan en action name ul)"
proof -
  have "runs quiet (create_network en name ul)"
    unfolding create_network_def Let_def by (intro quiet_intros) simp
  then show ?thesis
    unfolding apply_underlay_network_plan_def Let_def
    by (cases action) (auto intro!: quiet_intros split: list.splits)
qed

lemma quiet_remove: "runs quiet (remove_and_note en names)"
proof -
  have "runs quiet (remove_containers en names removed)" for removed
    by (induction names arbitrary: removed) (auto intro!: quiet_intros)
  then show ?thesis unfolding remove_and_note_def by (intro quiet_intros) (auto simp: quiet_def container_calls_def)
qed

lemma deploy_body_success:
  assumes "deploy_body en network ul orphans recreate s = (Inr None, t)"
  shows "dp_started t = dp_started s @ map step_container recreate \<and>
         (\<exists>kis. list_all2 (made en) recreate kis \<and>
                container_calls t = container_calls s @ concat (map create_and_start kis))"
proof -
  obtain s1 plan s2 where a: "each (prepare_step en) recreate s = (Inr (), s1)"
    "plan_underlay_network en network ul (map cs_container_name orphans @ map cs_container_name recreate) s1 = (Inr plan, s2)"
    "(case plan of Inl message \<Rightarrow> ret (Some message)
      | Inr action \<Rightarrow>
          seq (remove_and_note en (map cs_container_name orphans)) (\<lambda>_.
          seq (remove_and_note en (map cs_container_name (rev recreate))) (\<lambda>_.
          seq (apply_underlay_network_plan en action network ul) (\<lambda>ensured.
            case ensured of Some message \<Rightarrow> ret (Some message)
            | None \<Rightarrow> seq (each (start_step en) recreate) (\<lambda>_. ret None))))) s2 = (Inr None, t)"
    using assms unfolding deploy_body_def seq_Inr by auto
  obtain action where "plan = Inr action" using a(3) by (cases plan) auto
  then obtain u3 s3 u4 s4 ensured s5 where b: "remove_and_note en (map cs_container_name orphans) s2 = (Inr u3, s3)"
    "remove_and_note en (map cs_container_name (rev recreate)) s3 = (Inr u4, s4)"
    "apply_underlay_network_plan en action network ul s4 = (Inr ensured, s5)"
    "(case ensured of Some message \<Rightarrow> ret (Some message)
      | None \<Rightarrow> seq (each (start_step en) recreate) (\<lambda>_. ret None)) s5 = (Inr None, t)"
    using a(3) by (simp only: seq_Inr sum.case) blast
  have st: "each (start_step en) recreate s5 = (Inr (), t)"
    using b(4) by (cases ensured) (auto simp: seq_Inr)
  have "s2 = s1" using a(2) by (simp add: plan_underlay_network_def)
  then have "quiet s s5"
    using runsD [OF quiet.runs_each [OF quiet_prepare_step] a(1)] runsD [OF quiet_remove b(1)] runsD [OF quiet_remove b(2)] runsD [OF quiet_network b(3)]
    by (auto simp: quiet_def)
  then show ?thesis using start_steps_success [OF st] by (simp add: quiet_def)
qed

lemma precedes_concat:
  assumes "precedes xs a b" "u \<in> set (g a)" "v \<in> set (g b)"
  shows "precedes (concat (map g xs)) u v"
proof -
  obtain us vs where xs: "xs = us @ b # vs" "a \<in> set us" using assms(1) by (auto simp: precedes_def)
  have "u \<in> set (concat (map g us))" using xs(2) assms(2) by auto
  moreover have "v \<in> set (concat (map g (b # vs)))" using assms(3) by auto
  ultimately show ?thesis using precedes_split [of u "concat (map g us)" v "concat (map g (b # vs))"] xs(1) by simp
qed

text \<open>C19: A deployment that succeeds has done all of it, dependencies first.  The calls that create or
  start a container are, for each CREATE or RECREATE step of an enabled service in turn, one creation
  from the step's definition and one start, by the identifier the engine answered to that creation, both
  answered without an exception; the containers reported as started are exactly these; and when a service
  depends on another enabled one and both are rebuilt, the container of the dependency came first.\<close>

theorem deploy_success_complete:
  assumes "deploy en s plan w = Inr (res, t)" "dr_succeeded res"
    and "distinct (map svc_name (enabled_services (ds_runtime s)))"
  shows "\<exists>ordered. topologically_sorted_services s = Inr ordered \<and>
           dr_started res = map step_container (recreate_steps plan ordered) \<and>
           (\<exists>kis. filter container_call (dp_calls t) = concat (map create_and_start kis) \<and>
                  list_all2 (made en) (recreate_steps plan ordered) kis \<and>
                  map (ck_name \<circ> fst) kis = dr_started res) \<and>
           (\<forall>(n, d)\<in>service_deps (enabled_services (ds_runtime s)). \<forall>sn sd.
              map_of (step_by_service plan) n = Some sn \<and> cs_action sn \<in> {CREATE, RECREATE} \<and>
              map_of (step_by_service plan) d = Some sd \<and> cs_action sd \<in> {CREATE, RECREATE} \<longrightarrow>
              precedes (dr_started res) (step_container sd) (step_container sn))"
proof -
  obtain ordered r where o: "topologically_sorted_services s = Inr ordered"
    and b: "deploy_body en (deploy_network plan s) (rt_underlay (ds_runtime s)) (to_remove plan)
      (recreate_steps plan ordered) (deploy_start w) = (r, t)"
    and r: "dr_succeeded res \<longleftrightarrow> r = Inr None"
    and st: "dr_started res = (case r of Inr (Some _) \<Rightarrow> [] | _ \<Rightarrow> dp_started t)"
    using deploy_Inr [OF assms(1)] by metis
  have body: "deploy_body en (deploy_network plan s) (rt_underlay (ds_runtime s)) (to_remove plan)
      (recreate_steps plan ordered) (deploy_start w) = (Inr None, t)" using b r assms(2) by simp
  have started: "dr_started res = map step_container (recreate_steps plan ordered)"
    using deploy_body_success [OF body] r st assms(2) by (simp_all add: deploy_start_def)
  obtain kis where kis: "list_all2 (made en) (recreate_steps plan ordered) kis"
    "filter container_call (dp_calls t) = concat (map create_and_start kis)"
    using deploy_body_success [OF body] by (auto simp: deploy_start_def container_calls_def)
  have names: "map (ck_name \<circ> fst) kis = dr_started res"
    using kis(1) unfolding started by (induction rule: list_all2_induct) (simp_all add: made_name)
  let ?g = "\<lambda>n. case map_of (step_by_service plan) n of
                  Some st \<Rightarrow> if cs_action st = CREATE \<or> cs_action st = RECREATE then [step_container st] else []
                | None \<Rightarrow> []"
  have g: "dr_started res = concat (map ?g (map svc_name ordered))"
    unfolding started recreate_steps_def map_concat map_map
    by (intro arg_cong [of _ _ concat] map_cong refl) (auto split: option.splits)
  have prec: "precedes (map svc_name ordered) d n" if "(n, d) \<in> service_deps (enabled_services (ds_runtime s))" for n d
    using that topological_sorted_order [OF assms(3) o] by blast
  have "precedes (dr_started res) (step_container sd) (step_container sn)"
    if "(n, d) \<in> service_deps (enabled_services (ds_runtime s))"
      "map_of (step_by_service plan) n = Some sn" "cs_action sn \<in> {CREATE, RECREATE}"
      "map_of (step_by_service plan) d = Some sd" "cs_action sd \<in> {CREATE, RECREATE}" for n d sn sd
    unfolding g by (rule precedes_concat [OF prec [OF that(1)]]) (use that in auto)
  then show ?thesis using o started kis names by (intro exI [of _ ordered]) blast
qed

definition example_start_plan :: container_plan where
  "example_start_plan = \<lparr>cp_project_name = ''p'', cp_steps = [example_step ''c'' CREATE]\<rparr>"

theorem deploy_success_complete_witness:
  "\<exists>res t. deploy (example_engine []) example_small_state example_start_plan 0 = Inr (res, t) \<and>
           (\<exists>k i. filter container_call (dp_calls t) = [CreateContainer k, StartContainer i] \<and> ck_name k = ''c'')"
proof -
  let ?en = "example_engine []" and ?ord = "enabled_services (ds_runtime example_small_state)"
  let ?body = "deploy_body ?en (deploy_network example_start_plan example_small_state)
    (rt_underlay (ds_runtime example_small_state)) (to_remove example_start_plan)
    (recreate_steps example_start_plan ?ord) (deploy_start 0)"
  have ok: "fst ?body = Inr None" by code_simp
  have c: "en_connect ?en 0 = Inr ()" by (simp add: example_engine_def)
  obtain res t where d: "deploy ?en example_small_state example_start_plan 0 = Inr (res, t)" "dr_succeeded res"
    unfolding deploy_def Let_def example_order c rbind_simps split_def ok by simp
  have dist: "distinct (map svc_name ?ord)" by code_simp
  have "map step_container (recreate_steps example_start_plan ?ord) = [''c'']" by code_simp
  then have m: "dr_started res = [''c'']" "\<exists>kis. filter container_call (dp_calls t) = concat (map create_and_start kis) \<and>
      map (ck_name \<circ> fst) kis = dr_started res"
    using deploy_success_complete [OF d dist] example_order by auto
  then obtain k i where "filter container_call (dp_calls t) = [CreateContainer k, StartContainer i] \<and> ck_name k = ''c''"
    by (auto simp: create_and_start_def map_eq_Cons_conv)
  then show ?thesis using d(1) by blast
qed

section \<open>The published ports\<close>

lemma read_port_json: "read_port (port_json e) = Inr e"
  by (cases e) (auto simp: read_port_def port_json_def as_obj_def item_def as_int_def as_str_def json_opt_def
        split: option.splits)

lemma rmap_inverse: "(\<And>x. f (g x) = Inr x) \<Longrightarrow> rmap f (map g xs) = Inr xs"
  by (induction xs) auto

lemma build_definition_ports:
  "build_definition env s x project net = Inr d \<Longrightarrow> read_ports (cd_payload d) = Inr (port_entries x)"
  by (auto simp: build_definition_def Let_def rbind_Inr_iff read_ports_def item_def as_list_def
      rmap_inverse [of read_port port_json, OF read_port_json])

definition host_side :: "port_entry \<Rightarrow> host_binding option" where
  "host_side e = map_option (\<lambda>hp. (if truthy (pe_host_ip e) then pe_host_ip e else None, hp)) (pe_host_port e)"

lemma port_bindings_lookup:
  "map_of (port_bindings es) k =
   (case find (\<lambda>e. port_key e = k \<and> pe_host_port e \<noteq> None) (rev es) of Some e \<Rightarrow> host_side e | None \<Rightarrow> None)"
proof (induction es rule: rev_induct)
  case Nil
  show ?case by (simp add: port_bindings_def)
next
  case (snoc e es)
  have "port_bindings (es @ [e]) =
        (case pe_host_port e of None \<Rightarrow> port_bindings es
         | Some hp \<Rightarrow> dput (port_key e) (if truthy (pe_host_ip e) then pe_host_ip e else None, hp) (port_bindings es))"
    by (simp only: port_bindings_def foldl_append foldl_Cons foldl_Nil)
  then show ?case using snoc by (cases "pe_host_port e") (auto simp: host_side_def)
qed

text \<open>From the declared ports to the engine.  The payload of a built definition reads back as the
  service's expanded port entries, and for each container port and protocol the engine is given the host
  side of the last entry that publishes it.\<close>

theorem payload_ports_reach_engine:
  assumes "build_definition env s x project net = Inr d"
  shows "\<exists>bindings. port_bindings_from_payload (cd_payload d) = Inr bindings \<and>
           (\<forall>k. map_of bindings k =
                (case find (\<lambda>e. port_key e = k \<and> pe_host_port e \<noteq> None) (rev (port_entries x)) of
                   Some e \<Rightarrow> host_side e | None \<Rightarrow> None)) \<and>
           exposed_ports_from_payload (cd_payload d) =
             Inr (keep_first [] (map (\<lambda>e. (pe_container_port e, pe_protocol e)) (port_entries x)))"
  using build_definition_ports [OF assms]
  by (simp add: port_bindings_from_payload_def exposed_ports_from_payload_def port_bindings_lookup)

definition example_published :: "string \<Rightarrow> port_entry" where
  "example_published ip = \<lparr>pe_host_ip = Some ip, pe_host_port = Some 53, pe_container_port = 53, pe_protocol = ''udp''\<rparr>"

theorem payload_ports_reach_engine_witness:
  "\<exists>d bindings. build_definition example_env example_small_state
       (hd (enabled_services (ds_runtime example_small_state))) ''p'' ''n'' = Inr d \<and>
     port_bindings_from_payload (cd_payload d) = Inr bindings"
proof -
  let ?x = "hd (enabled_services (ds_runtime example_small_state))"
  let ?b = "build_definition example_env example_small_state ?x ''p'' ''n''"
  obtain d where d: "?b = Inr d"
  proof (cases ?b)
    case (Inl e)
    have "\<not> isl ?b" by code_simp
    then show ?thesis using Inl by simp
  qed auto
  show ?thesis using payload_ports_reach_engine [OF d] d by blast
qed

text \<open>One container port published on two host addresses: only the last one reaches the engine.\<close>

lemma second_publish_replaces_first:
  "port_bindings [example_published ''127.0.0.1'', example_published ''172.20.0.53''] =
   [(''53/udp'', (Some ''172.20.0.53'', 53))]"
  by code_simp

end
