(* ===== verification/Agent_Report.thy ===== *)
theory Agent_Report
  imports Container_Plan
begin

text \<open>
  What the agent observes and reports: \<open>collectors/docker.py\<close> and \<open>collectors/network.py\<close>,
  the parts of \<open>dn42_schemas/agent.py\<close> a reconcile run reports with, and the comparison of desired and
  observed in \<open>health/reconcile.py\<close>.

  The Docker answer is an argument (a list of raw containers, or none when Docker cannot be asked),
  as are command outputs and the clock.
\<close>

section \<open>Containers (\<open>collectors/docker.py\<close>)\<close>

text \<open>The attributes of a container as Docker gives them; \<open>raw_health\<close> is the \<open>Health\<close> section's
  \<open>Status\<close>, when there is such a section.\<close>

record raw_container =
  raw_attr_name :: string
  raw_name :: string
  raw_labels :: "(string \<times> string) list"
  raw_image :: "string option"
  raw_status :: "string option"
  raw_health :: "string option option"

definition or_empty :: "string option \<Rightarrow> string" where
  "or_empty x = (case x of Some v \<Rightarrow> v | None \<Rightarrow> [])"

definition parse_status :: "string option \<Rightarrow> resource_status" where
  "parse_status status =
     (let raw = lower (or_empty status) in
      if raw \<in> set [''running'', ''healthy''] then RUNNING
      else if raw \<in> set [''exited'', ''dead'', ''created''] then STOPPED
      else if raw \<in> set [''restarting'', ''paused'', ''removing''] then RS_DEGRADED
      else RS_UNKNOWN)"

definition all_roles :: "service_role list" where
  "all_roles = [ROUTER_NETNS, WG_GATEWAY, BIRD_ROUTER, RPKI_CACHE, DNS, DEBUG_SHELL]"

definition parse_role :: "string option \<Rightarrow> service_role option" where
  "parse_role value = (case value of None \<Rightarrow> None | Some v \<Rightarrow> find (\<lambda>r. role_value r = v) all_roles)"

definition parse_health :: "string option option \<Rightarrow> bool option" where
  "parse_health health =
     (case health of
        None \<Rightarrow> None
      | Some st \<Rightarrow>
          let status = lower (or_empty st) in
          if status = ''healthy'' then Some True
          else if status \<in> set [''unhealthy'', ''starting''] then Some False
          else None)"

record observed_project =
  op_project_name :: string
  op_containers :: "observed_container list"

definition observe_container :: "raw_container \<Rightarrow> observed_container" where
  "observe_container c =
     (let n = dropWhile (\<lambda>x. x = CHR ''/'') (raw_attr_name c) in
      \<lparr>oc_name = (if n = [] then raw_name c else n), oc_role = parse_role (map_of (raw_labels c) ''dn42.component''),
       oc_image = raw_image c, oc_config_hash = map_of (raw_labels c) ''dn42.config_hash'',
       oc_status = parse_status (raw_status c), oc_healthy = parse_health (raw_health c)\<rparr>)"

definition observe_project :: "(string list \<Rightarrow> raw_container list option) \<Rightarrow> desired_state \<Rightarrow> observed_project" where
  "observe_project list_containers s =
     (case list_containers (node_id_filter (nd_node_id (ds_node s))) of
        None \<Rightarrow> \<lparr>op_project_name = node_project_name s, op_containers = []\<rparr>
      | Some cs \<Rightarrow> \<lparr>op_project_name = node_project_name s, op_containers = map observe_container cs\<rparr>)"

section \<open>Tunnels and routing protocols (\<open>collectors/network.py\<close>)\<close>

record observed_peer =
  wp_public_key :: string
  wp_endpoint :: "string option"
  wp_last_handshake :: "int option"
  wp_rx :: int
  wp_tx :: int

record observed_wg =
  wo_name :: string
  wo_listen_port :: "int option"
  wo_peer_count :: int
  wo_status :: resource_status
  wo_peers :: "observed_peer list"

record observed_bgp =
  bo_name :: string
  bo_session :: "string option"
  bo_state :: string
  bo_info :: "string option"

text \<open>\<open>int(value)\<close>: an optional sign and digits, which single underscores may separate.\<close>

definition safe_int :: "string \<Rightarrow> int option" where
  "safe_int value =
     (let v = strip value;
          (sign, digits) = (case v of
             c # cs \<Rightarrow> if c = CHR ''-'' then (- 1, cs) else if c = CHR ''+'' then (1, cs) else (1, v)
           | [] \<Rightarrow> (1, v));
          groups = split_on (CHR ''_'') digits in
      if list_all isdigit groups then Some (sign * int_of_digits (concat groups)) else None)"

definition parse_peer :: "int \<Rightarrow> string list \<Rightarrow> observed_peer" where
  "parse_peer now cols =
     (let endpoint = strip (cols ! 3);
          age = (case safe_int (strip (cols ! 5)) of
                   Some h \<Rightarrow> if h > 0 then Some (max 0 (now - h)) else None | None \<Rightarrow> None) in
      \<lparr>wp_public_key = strip (cols ! 1),
       wp_endpoint = (if endpoint = [] \<or> endpoint = ''(none)'' then None else Some endpoint),
       wp_last_handshake = age, wp_rx = or_zero (safe_int (strip (cols ! 6))),
       wp_tx = or_zero (safe_int (strip (cols ! 7)))\<rparr>)"

text \<open>The loop over the lines: per interface, in order of first appearance, the port and the peers.\<close>

type_synonym wg_table = "(string \<times> (int option \<times> observed_peer list)) list"

definition wg_step :: "int \<Rightarrow> wg_table \<Rightarrow> string list \<Rightarrow> wg_table" where
  "wg_step now table cols =
     (let interface = strip (hd cols) in
      if interface = [] then table
      else let table' = (if map_of table interface = None then dput interface (None, []) table else table);
               (port, peers) = the (map_of table' interface) in
           if length cols = 5
           then dput interface (case safe_int (strip (cols ! 3)) of
                                  Some p \<Rightarrow> if p = 0 then None else Some p | None \<Rightarrow> None, peers) table'
           else if 8 \<le> length cols then dput interface (port, peers @ [parse_peer now cols]) table'
           else table')"

definition wg_lines :: "string \<Rightarrow> string list list" where
  "wg_lines output = map (split_on (CHR 0x09)) (filter (\<lambda>line. strip line \<noteq> []) (splitlines output))"

definition parse_wg_dump :: "int \<Rightarrow> string \<Rightarrow> observed_wg list" where
  "parse_wg_dump now output =
     map (\<lambda>(name, port, peers).
        \<lparr>wo_name = name, wo_listen_port = port, wo_peer_count = int (length peers), wo_status = RUNNING, wo_peers = peers\<rparr>)
       (foldl (wg_step now) [] (wg_lines output))"

definition observe_wireguard :: "(unit \<Rightarrow> string option) option \<Rightarrow> int \<Rightarrow> observation_status \<times> observed_wg list" where
  "observe_wireguard observer now =
     (case observer of
        None \<Rightarrow> (NOT_OBSERVED, [])
      | Some run \<Rightarrow> (case run () of None \<Rightarrow> (UNAVAILABLE, []) | Some output \<Rightarrow> (OBSERVED, parse_wg_dump now output)))"

definition bgp_info_states :: "string list" where
  "bgp_info_states = [''established'', ''active'', ''connect'', ''opensent'', ''openconfirm'', ''idle'', ''passive'', ''close'']"

definition extract_info :: "string list \<Rightarrow> string option" where
  "extract_info tail = find (\<lambda>t. lower t \<in> set bgp_info_states) (rev tail)"

definition parse_protocol :: "(string \<times> string) list \<Rightarrow> string \<Rightarrow> observed_bgp list" where
  "parse_protocol name_to_session line =
     (let cols = words line in
      if length cols < 4 \<or> lower (cols ! 1) \<noteq> ''bgp'' then []
      else let name = cols ! 0; info = extract_info (drop 4 cols) in
           [\<lparr>bo_name = name,
             bo_session = Some (case map_of name_to_session name of Some s \<Rightarrow> s | None \<Rightarrow> name),
             bo_state = (case info of Some i \<Rightarrow> i | None \<Rightarrow> cols ! 3), bo_info = info\<rparr>])"

definition parse_protocols :: "(string \<times> string) list \<Rightarrow> string \<Rightarrow> observed_bgp list" where
  "parse_protocols name_to_session output =
     concat (map (parse_protocol name_to_session) (filter (\<lambda>line. strip line \<noteq> []) (splitlines output)))"

definition observe_bgp ::
  "((unit \<Rightarrow> string option) \<times> (string \<times> string) list) option \<Rightarrow> observation_status \<times> observed_bgp list" where
  "observe_bgp observer =
     (case observer of
        None \<Rightarrow> (NOT_OBSERVED, [])
      | Some (run, name_to_session) \<Rightarrow>
          (case run () of None \<Rightarrow> (UNAVAILABLE, []) | Some output \<Rightarrow> (OBSERVED, parse_protocols name_to_session output)))"

text \<open>\<open>container_output_runner\<close> (\<open>core/exec.py\<close>) over an \<open>exec\<close> that returns or raises.\<close>

definition container_output_runner ::
  "(string \<Rightarrow> string list \<Rightarrow> (int \<times> string \<times> string) res) \<Rightarrow> string \<Rightarrow> string list \<Rightarrow> unit \<Rightarrow> string option" where
  "container_output_runner run container argv = (\<lambda>_.
     case run container argv of
       Inl _ \<Rightarrow> None
     | Inr (returncode, stdout, _) \<Rightarrow> if returncode = 0 then Some stdout else None)"

section \<open>The snapshot and the report\<close>

record runtime_snapshot =
  rs_node_id :: string
  rs_generation :: "int option"
  rs_containers :: "observed_container list"
  rs_wireguard :: "observed_wg list"
  rs_bgp :: "observed_bgp list"
  rs_wg_status :: observation_status
  rs_bgp_status :: observation_status

definition build_runtime_snapshot ::
  "desired_state \<Rightarrow> int option \<Rightarrow> observed_project \<Rightarrow> observation_status \<times> observed_wg list \<Rightarrow>
   observation_status \<times> observed_bgp list \<Rightarrow> runtime_snapshot" where
  "build_runtime_snapshot s applied observed wg bgp =
     \<lparr>rs_node_id = nd_node_id (ds_node s), rs_generation = applied, rs_containers = op_containers observed,
      rs_wireguard = snd wg, rs_bgp = snd bgp, rs_wg_status = fst wg, rs_bgp_status = fst bgp\<rparr>"

record drift_item =
  di_component :: string
  di_name :: string
  di_severity :: drift_severity
  di_message :: string
  di_desired :: "string option"
  di_observed :: "string option"

record reconciliation_report =
  rr_node_id :: string
  rr_desired_generation :: int
  rr_observed_generation :: "int option"
  rr_status :: apply_status
  rr_drift :: "drift_item list"

definition drift :: "string \<Rightarrow> string \<Rightarrow> drift_severity \<Rightarrow> string \<Rightarrow> string \<Rightarrow> string \<Rightarrow> drift_item" where
  "drift component name severity message desired observed =
     \<lparr>di_component = component, di_name = name, di_severity = severity, di_message = message,
      di_desired = Some desired, di_observed = Some observed\<rparr>"

definition observed_by_name :: "observed_container list \<Rightarrow> (string \<times> observed_container) list" where
  "observed_by_name cs = dict_of (map (\<lambda>c. (oc_name c, c)) cs)"

definition container_drift :: "(string \<times> string) list \<Rightarrow> (string \<times> observed_container) list \<Rightarrow> string \<Rightarrow> drift_item list" where
  "container_drift hashes by_name name =
     (case map_of by_name name of
        None \<Rightarrow> [drift ''container'' name CRITICAL ''container is missing'' ''running'' ''missing'']
      | Some c \<Rightarrow>
          if oc_status c \<noteq> RUNNING
          then [drift ''container'' name CRITICAL
                  (''container is not running (observed='' @ resource_status_value (oc_status c) @ '')'')
                  ''running'' (resource_status_value (oc_status c))]
          else case map_of hashes name of
                 None \<Rightarrow> []
               | Some h \<Rightarrow>
                   if oc_config_hash c \<noteq> Some h
                   then [drift ''container'' name WARNING ''container config hash differs from desired'' h
                           (if truthy (oc_config_hash c) then or_empty (oc_config_hash c) else ''missing'')]
                   else [])"

definition expected_containers :: "desired_state \<Rightarrow> string list" where
  "expected_containers s =
     map (\<lambda>x. service_container_name (node_project_name s) (svc_name x)) (enabled_services (ds_runtime s))"

definition collect_container_drift ::
  "desired_state \<Rightarrow> runtime_snapshot \<Rightarrow> (string \<times> string) list \<Rightarrow> drift_item list" where
  "collect_container_drift s snap hashes =
     concat (map (container_drift hashes (observed_by_name (rs_containers snap))) (expected_containers s)) @
     map (\<lambda>c. drift ''container'' (oc_name c) WARNING ''unmanaged container carries dn42 labels'' ''absent''
                (resource_status_value (oc_status c)))
       (filter (\<lambda>c. oc_name c \<notin> set (expected_containers s)) (rs_containers snap))"

text \<open>The end of the two messages for a dimension that could not be observed, in UTF-8.\<close>

definition UNCONFIRMED :: string where
  "UNCONFIRMED = map char_of
     [32, 231, 138, 182, 230, 128, 129, 230, 151, 160, 230, 179, 149, 233, 135, 135, 233, 155, 134, 239, 188, 136,
      229, 174, 185, 229, 153, 168, 229, 134, 133, 229, 145, 189, 228, 187, 164, 229, 164, 177, 232, 180, 165, 239,
      188, 137, 239, 188, 140, 229, 129, 165, 229, 186, 183, 230, 156, 170, 231, 161, 174, 232, 174, 164 :: nat]"

definition expected_wireguard_interfaces :: "desired_state \<Rightarrow> interface_spec list" where
  "expected_wireguard_interfaces s = filter (\<lambda>i. if_kind i = WIREGUARD) (ds_interfaces s)"

definition show_port :: "int option \<Rightarrow> string" where
  "show_port p = (case p of Some n \<Rightarrow> str_int n | None \<Rightarrow> ''None'')"

definition interface_drift :: "(string \<times> observed_wg) list \<Rightarrow> interface_spec \<Rightarrow> drift_item list" where
  "interface_drift by_name i =
     (case map_of by_name (if_name i) of
        None \<Rightarrow> [drift ''wireguard'' (if_name i) CRITICAL ''wireguard interface is missing'' ''present'' ''missing'']
      | Some w \<Rightarrow>
          (if if_listen_port i \<noteq> None \<and> wo_listen_port w \<noteq> if_listen_port i
           then [drift ''wireguard'' (if_name i) WARNING ''wireguard listen port differs from desired''
                   (show_port (if_listen_port i)) (show_port (wo_listen_port w))] else []) @
          (if wo_peer_count w = 0
           then [drift ''wireguard'' (if_name i) WARNING ''wireguard interface has no active peers'' ''>=1'' ''0'']
           else []))"

definition wg_by_name :: "observed_wg list \<Rightarrow> (string \<times> observed_wg) list" where
  "wg_by_name ws = dict_of (map (\<lambda>w. (wo_name w, w)) ws)"

definition collect_wireguard_drift :: "desired_state \<Rightarrow> runtime_snapshot \<Rightarrow> drift_item list" where
  "collect_wireguard_drift s snap =
     (let expected = expected_wireguard_interfaces s in
      case rs_wg_status snap of
        NOT_OBSERVED \<Rightarrow> []
      | UNAVAILABLE \<Rightarrow>
          if expected = [] then []
          else [drift ''wireguard'' ''*'' WARNING (''wireguard'' @ UNCONFIRMED) ''observed'' ''unavailable'']
      | OBSERVED \<Rightarrow> concat (map (interface_drift (wg_by_name (rs_wireguard snap))) expected))"

definition bgp_by_session :: "observed_bgp list \<Rightarrow> (string \<times> observed_bgp) list" where
  "bgp_by_session ps = dict_of (concat (map (\<lambda>p. case bo_session p of Some n \<Rightarrow> [(n, p)] | None \<Rightarrow> []) ps))"

definition session_drift :: "(string \<times> observed_bgp) list \<Rightarrow> bgp_session \<Rightarrow> drift_item list" where
  "session_drift by_session x =
     (case map_of by_session (bgp_name x) of
        None \<Rightarrow> []
      | Some p \<Rightarrow>
          if lower (strip (bo_state p)) \<noteq> ''established''
          then [drift ''bgp'' (bgp_name x) WARNING ''bgp session is not established'' ''Established'' (bo_state p)]
          else [])"

definition collect_bgp_drift :: "desired_state \<Rightarrow> runtime_snapshot \<Rightarrow> drift_item list" where
  "collect_bgp_drift s snap =
     (let enabled = filter bgp_enabled (ds_bgp_sessions s) in
      case rs_bgp_status snap of
        NOT_OBSERVED \<Rightarrow> []
      | UNAVAILABLE \<Rightarrow>
          if enabled = [] then []
          else [drift ''bgp'' ''*'' WARNING (''bgp'' @ UNCONFIRMED) ''observed'' ''unavailable'']
      | OBSERVED \<Rightarrow> concat (map (session_drift (bgp_by_session (rs_bgp snap))) enabled))"

definition build_reconciliation_report ::
  "desired_state \<Rightarrow> runtime_snapshot \<Rightarrow> apply_status \<Rightarrow> (string \<times> string) list \<Rightarrow> reconciliation_report" where
  "build_reconciliation_report s snap status hashes =
     (let ds = collect_container_drift s snap hashes @ collect_wireguard_drift s snap @ collect_bgp_drift s snap;
          final = (if list_ex (\<lambda>d. di_severity d = CRITICAL) ds \<and> status \<in> {SUCCEEDED, SKIPPED} then DEGRADED else status) in
      \<lparr>rr_node_id = nd_node_id (ds_node s), rr_desired_generation = ds_generation s,
       rr_observed_generation = rs_generation snap, rr_status = final, rr_drift = ds\<rparr>)"

section \<open>When the report is clean, and when it degrades\<close>

lemma drift_simps [simp]: "di_severity (drift c n v m d ob) = v" "di_component (drift c n v m d ob) = c"
  by (simp_all add: drift_def)

definition container_up :: "runtime_snapshot \<Rightarrow> string \<Rightarrow> bool" where
  "container_up snap name \<longleftrightarrow>
     (\<exists>c. map_of (observed_by_name (rs_containers snap)) name = Some c \<and> oc_status c = RUNNING)"

definition interface_up :: "runtime_snapshot \<Rightarrow> string \<Rightarrow> bool" where
  "interface_up snap name \<longleftrightarrow> map_of (wg_by_name (rs_wireguard snap)) name \<noteq> None"

lemma container_drift_critical:
  "(\<exists>d\<in>set (container_drift hashes by_name name). di_severity d = CRITICAL) \<longleftrightarrow>
   \<not> (\<exists>c. map_of by_name name = Some c \<and> oc_status c = RUNNING)"
  by (auto simp: container_drift_def split: option.splits)

lemma interface_drift_critical:
  "(\<exists>d\<in>set (interface_drift by_name i). di_severity d = CRITICAL) \<longleftrightarrow> map_of by_name (if_name i) = None"
  by (auto simp: interface_drift_def split: option.splits)

lemma session_drift_critical: "d \<in> set (session_drift by_session x) \<Longrightarrow> di_severity d \<noteq> CRITICAL"
  by (auto simp: session_drift_def split: option.splits if_splits)

lemma critical_drift_iff:
  "list_ex (\<lambda>d. di_severity d = CRITICAL)
     (collect_container_drift s snap hashes @ collect_wireguard_drift s snap @ collect_bgp_drift s snap) \<longleftrightarrow>
   (\<exists>n\<in>set (expected_containers s). \<not> container_up snap n) \<or>
   (rs_wg_status snap = OBSERVED \<and> (\<exists>i\<in>set (expected_wireguard_interfaces s). \<not> interface_up snap (if_name i)))"
proof -
  have c: "(\<exists>d\<in>set (collect_container_drift s snap hashes). di_severity d = CRITICAL) \<longleftrightarrow>
           (\<exists>n\<in>set (expected_containers s). \<not> container_up snap n)"
    unfolding collect_container_drift_def container_up_def container_drift_critical [of hashes, symmetric]
    by (auto simp: Bex_def)
  have w: "(\<exists>d\<in>set (collect_wireguard_drift s snap). di_severity d = CRITICAL) \<longleftrightarrow>
           rs_wg_status snap = OBSERVED \<and> (\<exists>i\<in>set (expected_wireguard_interfaces s). \<not> interface_up snap (if_name i))"
  proof (cases "rs_wg_status snap")
    case OBSERVED
    have "(\<exists>d\<in>set (collect_wireguard_drift s snap). di_severity d = CRITICAL) \<longleftrightarrow>
          (\<exists>i\<in>set (expected_wireguard_interfaces s).
             \<exists>d\<in>set (interface_drift (wg_by_name (rs_wireguard snap)) i). di_severity d = CRITICAL)"
      by (simp add: collect_wireguard_drift_def OBSERVED)
    then show ?thesis by (simp add: interface_drift_critical interface_up_def OBSERVED)
  qed (simp_all add: collect_wireguard_drift_def)
  have b: "\<not> (\<exists>d\<in>set (collect_bgp_drift s snap). di_severity d = CRITICAL)"
    by (cases "rs_bgp_status snap") (auto simp: collect_bgp_drift_def dest: session_drift_critical)
  show ?thesis using c w b by (auto simp: list_ex_iff)
qed

text \<open>C29: The reported status.  A run that succeeded or was skipped is reported as DEGRADED exactly when an
  enabled service's container is missing or not running, or tunnels were observed and an expected one is
  missing; in every other case the status of the run is reported unchanged.  (Containers that could not be listed are
  missing: a failed observation of the project degrades the report.)\<close>

theorem report_status_exact:
  "rr_status (build_reconciliation_report s snap status hashes) =
     (if (status = SUCCEEDED \<or> status = SKIPPED) \<and>
         ((\<exists>n\<in>set (expected_containers s). \<not> container_up snap n) \<or>
          (rs_wg_status snap = OBSERVED \<and>
             (\<exists>i\<in>set (expected_wireguard_interfaces s). \<not> interface_up snap (if_name i))))
      then DEGRADED else status)"
  unfolding build_reconciliation_report_def Let_def critical_drift_iff by auto

text \<open>A clean report.  The report has no drift exactly when every enabled service's container runs with
  the planned hash, no other managed container exists, the tunnels were collected (unless none is expected
  or no observer was there), each expected one is present with its port and a peer, and no observed
  enabled session is down, the collection having worked when there are such sessions.\<close>

theorem clean_report_exact:
  "rr_drift (build_reconciliation_report s snap status hashes) = [] \<longleftrightarrow>
   (\<forall>n\<in>set (expected_containers s). \<exists>c. map_of (observed_by_name (rs_containers snap)) n = Some c \<and>
      oc_status c = RUNNING \<and> (\<forall>h. map_of hashes n = Some h \<longrightarrow> oc_config_hash c = Some h)) \<and>
   oc_name ` set (rs_containers snap) \<subseteq> set (expected_containers s) \<and>
   (rs_wg_status snap = UNAVAILABLE \<longrightarrow> expected_wireguard_interfaces s = []) \<and>
   (rs_wg_status snap = OBSERVED \<longrightarrow>
      (\<forall>i\<in>set (expected_wireguard_interfaces s). \<exists>w. map_of (wg_by_name (rs_wireguard snap)) (if_name i) = Some w \<and>
         (if_listen_port i = None \<or> wo_listen_port w = if_listen_port i) \<and> wo_peer_count w \<noteq> 0)) \<and>
   (rs_bgp_status snap = UNAVAILABLE \<longrightarrow> filter bgp_enabled (ds_bgp_sessions s) = []) \<and>
   (rs_bgp_status snap = OBSERVED \<longrightarrow>
      (\<forall>x\<in>set (ds_bgp_sessions s). \<forall>p. bgp_enabled x \<longrightarrow>
         map_of (bgp_by_session (rs_bgp snap)) (bgp_name x) = Some p \<longrightarrow> lower (strip (bo_state p)) = ''established''))"
proof -
  have c: "container_drift hashes by_name n = [] \<longleftrightarrow>
      (\<exists>c. map_of by_name n = Some c \<and> oc_status c = RUNNING \<and> (\<forall>h. map_of hashes n = Some h \<longrightarrow> oc_config_hash c = Some h))"
    for by_name n by (auto simp: container_drift_def split: option.splits)
  have i: "interface_drift by_name i = [] \<longleftrightarrow>
      (\<exists>w. map_of by_name (if_name i) = Some w \<and> (if_listen_port i = None \<or> wo_listen_port w = if_listen_port i) \<and>
           wo_peer_count w \<noteq> 0)" for by_name i
    by (auto simp: interface_drift_def split: option.splits)
  have b: "session_drift by_session x = [] \<longleftrightarrow>
      (\<forall>p. map_of by_session (bgp_name x) = Some p \<longrightarrow> lower (strip (bo_state p)) = ''established'')" for by_session x
    by (auto simp: session_drift_def split: option.splits)
  have C: "collect_container_drift s snap hashes = [] \<longleftrightarrow>
      (\<forall>n\<in>set (expected_containers s). container_drift hashes (observed_by_name (rs_containers snap)) n = []) \<and>
      oc_name ` set (rs_containers snap) \<subseteq> set (expected_containers s)"
    by (auto simp: collect_container_drift_def filter_empty_conv)
  have W: "collect_wireguard_drift s snap = [] \<longleftrightarrow>
      (rs_wg_status snap = UNAVAILABLE \<longrightarrow> expected_wireguard_interfaces s = []) \<and>
      (rs_wg_status snap = OBSERVED \<longrightarrow>
        (\<forall>i\<in>set (expected_wireguard_interfaces s). interface_drift (wg_by_name (rs_wireguard snap)) i = []))"
    by (cases "rs_wg_status snap") (auto simp: collect_wireguard_drift_def)
  have B: "collect_bgp_drift s snap = [] \<longleftrightarrow>
      (rs_bgp_status snap = UNAVAILABLE \<longrightarrow> filter bgp_enabled (ds_bgp_sessions s) = []) \<and>
      (rs_bgp_status snap = OBSERVED \<longrightarrow>
        (\<forall>x\<in>set (ds_bgp_sessions s). bgp_enabled x \<longrightarrow> session_drift (bgp_by_session (rs_bgp snap)) x = []))"
    by (cases "rs_bgp_status snap") (auto simp: collect_bgp_drift_def)
  show ?thesis
    unfolding build_reconciliation_report_def Let_def reconciliation_report.select_convs append_is_Nil_conv
      C W B c i b by blast
qed

definition example_snapshot :: "observation_status \<Rightarrow> runtime_snapshot" where
  "example_snapshot st =
     \<lparr>rs_node_id = ''hk1'', rs_generation = None, rs_containers = [], rs_wireguard = [], rs_bgp = [],
      rs_wg_status = st, rs_bgp_status = NOT_OBSERVED\<rparr>"

lemma example_expected: "expected_containers example_small_state = [''dn42-hk1-sh-1'']"
  by code_simp

lemma example_not_up: "\<not> container_up (example_snapshot st) n"
  by (simp add: container_up_def example_snapshot_def observed_by_name_def dict_of_def)

theorem report_status_exact_witness:
  "rr_status (build_reconciliation_report example_small_state (example_snapshot NOT_OBSERVED) SUCCEEDED []) = DEGRADED"
  unfolding report_status_exact example_expected by (simp add: example_not_up)

theorem clean_report_exact_witness:
  "rr_drift (build_reconciliation_report example_small_state (example_snapshot UNAVAILABLE) SUCCEEDED []) \<noteq> []"
  unfolding clean_report_exact example_expected
  by (simp add: example_snapshot_def observed_by_name_def dict_of_def)

section \<open>The tunnel dump, line by line\<close>

definition line_name :: "string list \<Rightarrow> string" where
  "line_name cols = strip (hd cols)"

definition dump_port :: "string list \<Rightarrow> int option" where
  "dump_port cols = (case safe_int (strip (cols ! 3)) of Some p \<Rightarrow> if p = 0 then None else Some p | None \<Rightarrow> None)"

definition own_port :: "string list list \<Rightarrow> string \<Rightarrow> int option" where
  "own_port ls name =
     (let own = filter (\<lambda>cols. line_name cols = name \<and> length cols = 5) ls in
      if own = [] then None else dump_port (last own))"

definition own_peers :: "int \<Rightarrow> string list list \<Rightarrow> string \<Rightarrow> observed_peer list" where
  "own_peers now ls name = map (parse_peer now) (filter (\<lambda>cols. line_name cols = name \<and> 8 \<le> length cols) ls)"

lemma own_snoc:
  "own_port (ls @ [cols]) name =
     (if line_name cols = name \<and> length cols = 5
      then dump_port cols else own_port ls name)"
  "own_peers now (ls @ [cols]) name =
     own_peers now ls name @ (if line_name cols = name \<and> 8 \<le> length cols then [parse_peer now cols] else [])"
  by (auto simp: own_port_def own_peers_def)

lemma own_absent:
  "name \<notin> line_name ` set ls \<Longrightarrow> own_port ls name = None \<and> own_peers now ls name = []"
proof (induction ls rule: rev_induct)
  case Nil
  show ?case by (simp add: own_port_def own_peers_def)
qed (auto simp: own_snoc)

lemma wg_table_lookup:
  "map_of (foldl (wg_step now) [] ls) name =
     (if name \<noteq> [] \<and> name \<in> line_name ` set ls then Some (own_port ls name, own_peers now ls name) else None)"
proof (induction ls arbitrary: name rule: rev_induct)
  case (snoc cols ls)
  let ?t = "foldl (wg_step now) [] ls" and ?n = "line_name cols"
  show ?case
  proof (cases "?n = []")
    case True
    then have "wg_step now ?t cols = ?t" by (simp add: wg_step_def line_name_def)
    then show ?thesis using snoc [of name] True by (auto simp: own_snoc)
  next
    case False
    define t' where "t' = (if map_of ?t ?n = None then dput ?n (None, []) ?t else ?t)"
    have t'n: "map_of t' ?n = Some (own_port ls ?n, own_peers now ls ?n)"
      using snoc [of ?n] False own_absent [of ?n ls now] by (auto simp: t'_def)
    have t'o: "map_of t' m = map_of ?t m" if "m \<noteq> ?n" for m using that by (simp add: t'_def)
    have step: "wg_step now ?t cols =
        (if length cols = 5
         then dput ?n (dump_port cols, own_peers now ls ?n) t'
         else if 8 \<le> length cols then dput ?n (own_port ls ?n, own_peers now ls ?n @ [parse_peer now cols]) t'
         else t')"
      using False t'n unfolding wg_step_def Let_def line_name_def [symmetric] t'_def [symmetric] dump_port_def by simp
    show ?thesis
    proof (cases "name = ?n")
      case True
      then show ?thesis using False t'n by (simp add: step own_snoc)
    next
      case other: False
      then show ?thesis using False t'o [OF other] snoc [of name] by (auto simp: step own_snoc)
    qed
  qed
qed simp

lemma wg_table_distinct: "distinct (map fst (foldl (wg_step now) [] ls))"
proof (induction ls rule: rev_induct)
  case (snoc cols ls)
  then show ?case by (auto simp: wg_step_def Let_def intro!: distinct_dput split: prod.splits)
qed simp

text \<open>The tunnel observer groups the dump.  Whatever the command printed, each interface named by a
  line appears once, with the port of its last own line (none when it is 0 or unreadable) and with one
  peer for each of its peer lines, in their order.\<close>

theorem wg_dump_grouped:
  "distinct (map wo_name (parse_wg_dump now output)) \<and>
   wo_name ` set (parse_wg_dump now output) = line_name ` set (wg_lines output) - {[]} \<and>
   (\<forall>w\<in>set (parse_wg_dump now output).
      wo_listen_port w = own_port (wg_lines output) (wo_name w) \<and>
      wo_peers w = own_peers now (wg_lines output) (wo_name w) \<and> wo_peer_count w = int (length (wo_peers w)))"
proof -
  let ?t = "foldl (wg_step now) [] (wg_lines output)"
  have p: "parse_wg_dump now output = map (\<lambda>(n, port, peers).
      \<lparr>wo_name = n, wo_listen_port = port, wo_peer_count = int (length peers), wo_status = RUNNING, wo_peers = peers\<rparr>) ?t"
    by (simp add: parse_wg_dump_def)
  have n: "map wo_name (parse_wg_dump now output) = map fst ?t"
    unfolding p map_map by (rule map_cong [OF refl]) (simp split: prod.splits)
  have k: "fst ` set ?t = line_name ` set (wg_lines output) - {[]}"
    unfolding dom_map_of_conv_image_fst [symmetric] by (auto simp: dom_def wg_table_lookup)
  have s: "wo_name ` set (parse_wg_dump now output) = fst ` set ?t"
    using arg_cong [OF n, of set] by simp
  have "wo_listen_port w = own_port (wg_lines output) (wo_name w) \<and>
      wo_peers w = own_peers now (wg_lines output) (wo_name w) \<and> wo_peer_count w = int (length (wo_peers w))"
    if "w \<in> set (parse_wg_dump now output)" for w
  proof -
    have "w \<in> (\<lambda>(n, port, peers). \<lparr>wo_name = n, wo_listen_port = port, wo_peer_count = int (length peers),
        wo_status = RUNNING, wo_peers = peers\<rparr>) ` set ?t"
      using that by (simp only: p set_map)
    then obtain e where e: "e \<in> set ?t" "w = (\<lambda>(n, port, peers).
      \<lparr>wo_name = n, wo_listen_port = port, wo_peer_count = int (length peers), wo_status = RUNNING, wo_peers = peers\<rparr>) e"
      by blast
    obtain m port peers where m: "e = (m, port, peers)" by (cases e)
    have "map_of ?t m = Some (port, peers)" using e(1) wg_table_distinct m by simp
    then show ?thesis using e(2) m by (simp add: wg_table_lookup split: if_splits)
  qed
  then show ?thesis using wg_table_distinct s k by (simp add: n)
qed

theorem wg_dump_grouped_witness: "wo_name ` set (parse_wg_dump 100 ''a'') = {''a''}"
proof -
  have "line_name ` set (wg_lines ''a'') - {[]} = {''a''}"
    by (simp add: wg_lines_def splitlines_def is_line_break_def line_name_def strip_def strip_by_def is_space_def)
  then show ?thesis unfolding wg_dump_grouped [THEN conjunct2, THEN conjunct1] .
qed

end
