(* ===== verification/Agent_Session.thy ===== *)
theory Agent_Session
  imports Agent_Report Effects
begin

text \<open>
  The agent's identity and its session with the control server: \<open>core/identity.py\<close>, \<open>session.py\<close> and
  the registration call of \<open>client/controller.py\<close>.

  \<open>ag_world\<close> is everything outside the agent's own state.  The control server is an argument: the
  answer to a registration request and, for an authenticated call, a computation on the world that is
  given the bearer token.
\<close>

section \<open>Registration answers\<close>

record registration =
  ar_status :: bootstrap_status
  ar_node_id :: "string option"
  ar_agent_id :: "string option"
  ar_agent_token :: "string option"
  ar_generation :: "int option"
  ar_message :: "string option"

definition validate_accepted_response :: "registration \<Rightarrow> registration res" where
  "validate_accepted_response r =
     (if ar_status r = ACCEPTED
      then let missing = map fst (filter snd
                 [(''node_id'', ar_node_id r = None), (''agent_id'', ar_agent_id r = None),
                  (''agent_token'', ar_agent_token r = None),
                  (''desired_state_generation'', ar_generation r = None)]) in
           if missing \<noteq> [] then Inl (ValueError (''accepted registration is missing: '' @ join '', '' missing))
           else Inr r
      else Inr r)"

section \<open>State\<close>

record identity =
  id_node :: "string option"
  id_agent :: "string option"
  id_token :: "string option"
  id_generation :: "int option"
  id_last_status :: "string option"

definition empty_identity :: identity where
  "empty_identity = \<lparr>id_node = None, id_agent = None, id_token = None, id_generation = None, id_last_status = None\<rparr>"

text \<open>\<open>ag_nodes\<close> are the directories below \<open>nodes/\<close>, \<open>ag_files\<close> the \<open>identity.json\<close> in them.\<close>

record 'w agent =
  ag_world :: 'w
  ag_nodes :: "string list"
  ag_files :: "(string \<times> identity) list"
  ag_cached :: "identity option"
  ag_ack :: "registration option"

record agent_config =
  cfg_requested_node_id :: "string option"
  cfg_enrollment_token :: "string option"

record 'w controller =
  co_register :: "string \<Rightarrow> string \<Rightarrow> ('w, registration) eff"

definition load_identity :: "('w, 'z) agent_scheme \<Rightarrow> string \<Rightarrow> identity" where
  "load_identity s n = (case map_of (ag_files s) n of Some i \<Rightarrow> i | None \<Rightarrow> empty_identity)"

definition save_identity :: "identity \<Rightarrow> string \<Rightarrow> ('w, 'z) agent_scheme \<Rightarrow> ('w, 'z) agent_scheme" where
  "save_identity i n s =
     s\<lparr>ag_files := dput n i (ag_files s),
       ag_nodes := (if n \<in> set (ag_nodes s) then ag_nodes s else ag_nodes s @ [n])\<rparr>"

definition on_world :: "('w, 'a) eff \<Rightarrow> (('w, 'z) agent_scheme, 'a) eff" where
  "on_world m s = (case m (ag_world s) of (r, w) \<Rightarrow> (r, s\<lparr>ag_world := w\<rparr>))"

section \<open>The session\<close>

definition detect_node_id :: "('w, 'z) agent_scheme \<Rightarrow> string option" where
  "detect_node_id s = (case ag_nodes s of [n] \<Rightarrow> Some n | _ \<Rightarrow> None)"

definition require_node_id :: "agent_config \<Rightarrow> ('w, 'z) agent_scheme \<Rightarrow> string res" where
  "require_node_id cfg s =
     (case (if truthy (cfg_requested_node_id cfg) then cfg_requested_node_id cfg else detect_node_id s) of
        Some n \<Rightarrow> Inr n
      | None \<Rightarrow> Inl (ControllerError ''requested_node_id'' None))"

text \<open>\<open>ControllerClient.register\<close>: the server's answer, with pending and rejected as exceptions.\<close>

definition client_register :: "'w controller \<Rightarrow> string \<Rightarrow> string \<Rightarrow> ('w, registration) eff" where
  "client_register c token node_id =
     seq (co_register c token node_id) (\<lambda>r.
     seq (lift_res (validate_accepted_response r)) (\<lambda>r.
       case ar_status r of
         PENDING_APPROVAL \<Rightarrow> lift_res (Inl (BootstrapPending
           (if truthy (ar_message r) then or_empty (ar_message r) else ''registration is pending approval'')))
       | REJECTED \<Rightarrow> lift_res (Inl (BootstrapRejected
           (if truthy (ar_message r) then or_empty (ar_message r) else ''registration was rejected'')))
       | ACCEPTED \<Rightarrow> ret r))"

definition session_load :: "agent_config \<Rightarrow> (('w, 'z) agent_scheme, identity) eff" where
  "session_load cfg =
     reading (\<lambda>s. case ag_cached s of
        Some i \<Rightarrow> ret i
      | None \<Rightarrow>
          seq (lift_res (require_node_id cfg s)) (\<lambda>n.
          seq (modify (\<lambda>s. s\<lparr>ag_cached := Some (load_identity s n)\<rparr>)) (\<lambda>_. ret (load_identity s n))))"

definition session_register :: "agent_config \<Rightarrow> 'w controller \<Rightarrow> (('w, 'z) agent_scheme, identity) eff" where
  "session_register cfg c =
     reading (\<lambda>s.
     seq (lift_res (require_node_id cfg s)) (\<lambda>n.
     seq (on_world (client_register c (or_empty (cfg_enrollment_token cfg)) n)) (\<lambda>r.
     seq (modify (\<lambda>s. s\<lparr>ag_ack := Some r\<rparr>)) (\<lambda>_.
       let i = \<lparr>id_node = ar_node_id r, id_agent = ar_agent_id r, id_token = ar_agent_token r,
                id_generation = None, id_last_status = None\<rparr> in
       case ar_node_id r of
         None \<Rightarrow> lift_res (Inl (AssertionError []))
       | Some node \<Rightarrow>
           seq (modify (\<lambda>s. (save_identity i node s)\<lparr>ag_cached := Some i\<rparr>)) (\<lambda>_. ret i)))))"

definition session_ensure :: "agent_config \<Rightarrow> 'w controller \<Rightarrow> (('w, 'z) agent_scheme, identity) eff" where
  "session_ensure cfg c =
     seq (session_load cfg) (\<lambda>i. if id_token i \<noteq> None then ret i else session_register cfg c)"

definition session_invalidate :: "agent_config \<Rightarrow> (('w, 'z) agent_scheme, unit) eff" where
  "session_invalidate cfg =
     seq (session_load cfg) (\<lambda>i.
       if id_token i = None then ret ()
       else let i' = i\<lparr>id_token := None\<rparr> in
            \<comment> \<open>the cached object is changed in place before the path is computed\<close>
            seq (modify (\<lambda>s. s\<lparr>ag_cached := Some i'\<rparr>)) (\<lambda>_.
            reading (\<lambda>s. seq (lift_res (require_node_id cfg s)) (\<lambda>n. modify (save_identity i' n)))))"

definition session_persist :: "identity \<Rightarrow> (('w, 'z) agent_scheme, unit) eff" where
  "session_persist i =
     (case id_node i of
        None \<Rightarrow> lift_res (Inl (AssertionError []))
      | Some n \<Rightarrow> modify (\<lambda>s. (save_identity i n s)\<lparr>ag_cached := Some i\<rparr>))"

definition take_registration_ack :: "(('w, 'z) agent_scheme, registration option) eff" where
  "take_registration_ack = reading (\<lambda>s. seq (modify (\<lambda>s. s\<lparr>ag_ack := None\<rparr>)) (\<lambda>_. ret (ag_ack s)))"

definition status_code :: "exc \<Rightarrow> int option" where
  "status_code e = (case e of ControllerError _ code \<Rightarrow> code | _ \<Rightarrow> None)"

definition with_identity :: "(string \<Rightarrow> ('w, 'a) eff) \<Rightarrow> identity \<Rightarrow> (('w, 'z) agent_scheme, 'a) eff" where
  "with_identity fn i =
     (case id_token i of None \<Rightarrow> lift_res (Inl (AssertionError [])) | Some token \<Rightarrow> on_world (fn token))"

definition session_call ::
  "agent_config \<Rightarrow> 'w controller \<Rightarrow> (string \<Rightarrow> ('w, 'a) eff) \<Rightarrow> (('w, 'z) agent_scheme, 'a) eff" where
  "session_call cfg c fn =
     seq (session_ensure cfg c) (\<lambda>i.
       catching (with_identity fn i) (\<lambda>e.
         if status_code e \<noteq> Some 401 then lift_res (Inl e)
         else seq (session_invalidate cfg) (\<lambda>_. seq (session_ensure cfg c) (with_identity fn))))"

section \<open>What a call does\<close>

lemma seq_Inl: "m s = (Inl e, s') \<Longrightarrow> seq m f s = (Inl e, s')"
  by (simp add: seq_def)

lemma seq_step: "m s = (Inr x, s') \<Longrightarrow> seq m f s = f x s'"
  by (simp add: seq_def)

lemma on_world_eq: "m (ag_world s) = (r, w) \<Longrightarrow> on_world m s = (r, s\<lparr>ag_world := w\<rparr>)"
  by (simp add: on_world_def)

lemma on_world_simps [simp]:
  "ag_cached (snd (on_world m s)) = ag_cached s" "ag_files (snd (on_world m s)) = ag_files s"
  by (auto simp: on_world_def split: prod.splits)

lemma ensure_token:
  "ag_cached s = Some i \<Longrightarrow> id_token i = Some t \<Longrightarrow> session_ensure cfg c s = (Inr i, s)"
  by (simp add: session_ensure_def session_load_def seq_def)

definition fresh_identity :: "registration \<Rightarrow> identity" where
  "fresh_identity r = \<lparr>id_node = ar_node_id r, id_agent = ar_agent_id r, id_token = ar_agent_token r,
                       id_generation = None, id_last_status = None\<rparr>"

lemma validate_accepted:
  "ar_status r = ACCEPTED \<Longrightarrow> validate_accepted_response r = Inr r' \<Longrightarrow>
   r' = r \<and> ar_node_id r \<noteq> None \<and> ar_agent_id r \<noteq> None \<and> ar_agent_token r \<noteq> None \<and> ar_generation r \<noteq> None"
  by (auto simp: validate_accepted_response_def Let_def split: if_splits)

lemma client_register_accepted:
  assumes "co_register c tok n w = (Inr r, w')" "ar_status r = ACCEPTED" "validate_accepted_response r = Inr r"
  shows "client_register c tok n w = (Inr r, w')"
  using assms by (simp add: client_register_def seq_def)

lemma register_accepted:
  assumes "require_node_id cfg s = Inr n"
    and "client_register c (or_empty (cfg_enrollment_token cfg)) n (ag_world s) = (Inr r, w')" "ar_node_id r = Some m"
  shows "session_register cfg c s =
         (Inr (fresh_identity r), (save_identity (fresh_identity r) m (s\<lparr>ag_world := w', ag_ack := Some r\<rparr>))
            \<lparr>ag_cached := Some (fresh_identity r)\<rparr>)"
  unfolding session_register_def eff_simps
  using assms by (simp add: seq_def on_world_def fresh_identity_def Let_def)

text \<open>The state after the local token was dropped.\<close>

definition dropped :: "agent_config \<Rightarrow> identity \<Rightarrow> ('w, 'z) agent_scheme \<Rightarrow> ('w, 'z) agent_scheme" where
  "dropped cfg i s = save_identity (i\<lparr>id_token := None\<rparr>) (the (cfg_requested_node_id cfg))
                       (s\<lparr>ag_cached := Some (i\<lparr>id_token := None\<rparr>)\<rparr>)"

lemma invalidate_drops:
  assumes "truthy (cfg_requested_node_id cfg)" "ag_cached s = Some i" "id_token i = Some t"
  shows "session_invalidate cfg s = (Inr (), dropped cfg i s)"
  using assms
  by (cases "cfg_requested_node_id cfg")
     (simp_all add: session_invalidate_def session_load_def seq_def require_node_id_def dropped_def Let_def)

lemma dropped_simps [simp]:
  "ag_cached (dropped cfg i s) = Some (i\<lparr>id_token := None\<rparr>)" "ag_world (dropped cfg i s) = ag_world s"
  by (simp_all add: dropped_def save_identity_def)

lemma call_after_401:
  assumes "truthy (cfg_requested_node_id cfg)" "ag_cached s = Some i" "id_token i = Some t"
    and "fn t (ag_world s) = (Inl e, w)" "status_code e = Some 401"
  shows "session_call cfg c fn s =
         seq (session_register cfg c) (with_identity fn) (dropped cfg i (s\<lparr>ag_world := w\<rparr>))"
proof -
  let ?d = "dropped cfg i (s\<lparr>ag_world := w\<rparr>)"
  have w: "with_identity fn i s = (Inl e, s\<lparr>ag_world := w\<rparr>)"
    using assms(3,4) by (simp add: with_identity_def on_world_eq)
  have inv: "session_invalidate cfg (s\<lparr>ag_world := w\<rparr>) = (Inr (), ?d)"
    using assms(1-3) by (intro invalidate_drops) simp_all
  have "session_ensure cfg c ?d = session_register cfg c ?d"
    by (simp add: session_ensure_def session_load_def seq_def)
  then show ?thesis
    unfolding session_call_def seq_def ensure_token [OF assms(2,3)] prod.case sum.case catching_def w
    using assms(5) inv by (simp add: seq_def)
qed

lemma call_heals:
  assumes "cfg_requested_node_id cfg = Some (x # xs)" "ag_cached s = Some i" "id_token i = Some t0"
    and "fn t0 (ag_world s) = (Inl e, w1)" "status_code e = Some 401"
    and "co_register c (or_empty (cfg_enrollment_token cfg)) (x # xs) w1 = (Inr r, w2)"
    and "ar_status r = ACCEPTED" "validate_accepted_response r = Inr r"
    and "ar_agent_token r = Some t1" "fn t1 w2 = (out, w3)" "ar_node_id r = Some m"
  shows "\<exists>s'. session_call cfg c fn s = (out, s') \<and> ag_world s' = w3 \<and> ag_cached s' = Some (fresh_identity r) \<and>
              load_identity s' m = fresh_identity r \<and> id_token (fresh_identity r) = Some t1"
proof -
  let ?d = "dropped cfg i (s\<lparr>ag_world := w1\<rparr>)"
  have req: "require_node_id cfg ?d = Inr (x # xs)" using assms(1) by (simp add: require_node_id_def)
  have reg: "client_register c (or_empty (cfg_enrollment_token cfg)) (x # xs) (ag_world ?d) = (Inr r, w2)"
    using client_register_accepted [OF assms(6-8)] by simp
  have t: "id_token (fresh_identity r) = Some t1" using assms(9) by (simp add: fresh_identity_def)
  have "session_call cfg c fn s = seq (session_register cfg c) (with_identity fn) ?d"
    using assms by (intro call_after_401) simp_all
  also have "\<dots> = with_identity fn (fresh_identity r)
      ((save_identity (fresh_identity r) m (?d\<lparr>ag_world := w2, ag_ack := Some r\<rparr>))\<lparr>ag_cached := Some (fresh_identity r)\<rparr>)"
    using register_accepted [OF req reg assms(11)] by (rule seq_step)
  finally show ?thesis
    using assms(10) t by (simp add: with_identity_def on_world_def save_identity_def load_identity_def)
qed

text \<open>A rejected token is replaced.  When the server answers 401 to the current token and accepts the
  registration that follows, the same call is made once more with the fresh token; its outcome, whatever
  it is, is the outcome of the call, and the fresh identity is held in memory and on disk.\<close>

theorem session_call_heals:
  assumes "cfg_requested_node_id cfg = Some (x # xs)" "ag_cached s = Some i" "id_token i = Some t0"
    and "fn t0 (ag_world s) = (Inl e, w1)" "status_code e = Some 401"
    and "co_register c (or_empty (cfg_enrollment_token cfg)) (x # xs) w1 = (Inr r, w2)"
    and "ar_status r = ACCEPTED" "validate_accepted_response r = Inr r"
    and "ar_agent_token r = Some t1" "fn t1 w2 = (out, w3)" "ar_node_id r = Some m"
  shows "\<exists>s'. session_call cfg c fn s = (out, s') \<and> ag_world s' = w3 \<and> ag_cached s' = Some (fresh_identity r) \<and>
              load_identity s' m = fresh_identity r \<and> id_token (fresh_identity r) = Some t1"
  by (rule call_heals [OF assms])

definition example_registration :: registration where
  "example_registration = \<lparr>ar_status = ACCEPTED, ar_node_id = Some ''hk1'', ar_agent_id = Some ''a'',
     ar_agent_token = Some ''new'', ar_generation = Some 4, ar_message = None\<rparr>"

definition example_controller :: "registration \<Rightarrow> nat controller" where
  "example_controller r = \<lparr>co_register = (\<lambda>_ _ w. (Inr r, Suc w))\<rparr>"

definition example_agent :: "nat agent" where
  "example_agent = \<lparr>ag_world = 0, ag_nodes = [], ag_files = [],
     ag_cached = Some (empty_identity\<lparr>id_token := Some []\<rparr>), ag_ack = None\<rparr>"

definition example_config :: agent_config where
  "example_config = \<lparr>cfg_requested_node_id = Some ''hk1'', cfg_enrollment_token = None\<rparr>"

definition needs_new :: "string \<Rightarrow> (nat, string) eff" where
  "needs_new token w = (if token = ''new'' then Inr token else Inl (ControllerError [] (Some 401)), w)"

theorem session_call_heals_witness:
  "fst (session_call example_config (example_controller example_registration) needs_new example_agent) = Inr ''new''"
proof -
  have "\<exists>s'. session_call example_config (example_controller example_registration) needs_new example_agent = (Inr ''new'', s') \<and>
      ag_world s' = 1 \<and> ag_cached s' = Some (fresh_identity example_registration) \<and>
      load_identity s' ''hk1'' = fresh_identity example_registration \<and>
      id_token (fresh_identity example_registration) = Some ''new''"
    by (rule session_call_heals [where i = "empty_identity\<lparr>id_token := Some []\<rparr>" and ?w1.0 = 0 and ?w2.0 = 1
      and e = "ControllerError [] (Some 401)"])
       (auto simp: example_config_def example_agent_def needs_new_def status_code_def example_controller_def
         example_registration_def validate_accepted_response_def)
  then show ?thesis by force
qed

text \<open>What a failed call leaves.  An error other than 401 is the outcome of the call and changes nothing
  of the session; after a 401 that is answered by a pending or rejected registration the outcome is that
  exception, and no token is left in memory or on disk, so that the next call registers again.\<close>

theorem session_call_errors:
  assumes "cfg_requested_node_id cfg = Some (x # xs)" "ag_cached s = Some i" "id_token i = Some t0"
    and "fn t0 (ag_world s) = (Inl e, w1)"
  shows "(status_code e \<noteq> Some 401 \<longrightarrow> session_call cfg c fn s = (Inl e, s\<lparr>ag_world := w1\<rparr>)) \<and>
         (\<forall>r w2. status_code e = Some 401 \<and>
            co_register c (or_empty (cfg_enrollment_token cfg)) (x # xs) w1 = (Inr r, w2) \<and> ar_status r \<noteq> ACCEPTED \<longrightarrow>
            (\<exists>s' e'. session_call cfg c fn s = (Inl e', s') \<and>
               (e' = BootstrapPending (if truthy (ar_message r) then or_empty (ar_message r) else ''registration is pending approval'') \<or>
                e' = BootstrapRejected (if truthy (ar_message r) then or_empty (ar_message r) else ''registration was rejected'')) \<and>
               ag_cached s' = Some (i\<lparr>id_token := None\<rparr>) \<and> id_token (load_identity s' (x # xs)) = None))"
proof (intro conjI impI allI)
  assume n: "status_code e \<noteq> Some 401"
  have w: "with_identity fn i s = (Inl e, s\<lparr>ag_world := w1\<rparr>)"
    using assms(3,4) by (simp add: with_identity_def on_world_eq)
  show "session_call cfg c fn s = (Inl e, s\<lparr>ag_world := w1\<rparr>)"
    unfolding session_call_def seq_def ensure_token [OF assms(2,3)] prod.case sum.case catching_def w using n by simp
next
  fix r w2
  assume a: "status_code e = Some 401 \<and>
    co_register c (or_empty (cfg_enrollment_token cfg)) (x # xs) w1 = (Inr r, w2) \<and> ar_status r \<noteq> ACCEPTED"
  let ?d = "dropped cfg i (s\<lparr>ag_world := w1\<rparr>)"
  have v: "validate_accepted_response r = Inr r" using a by (simp add: validate_accepted_response_def)
  obtain e' where e': "client_register c (or_empty (cfg_enrollment_token cfg)) (x # xs) w1 = (Inl e', w2)"
    "e' = BootstrapPending (if truthy (ar_message r) then or_empty (ar_message r) else ''registration is pending approval'') \<or>
     e' = BootstrapRejected (if truthy (ar_message r) then or_empty (ar_message r) else ''registration was rejected'')"
    using a v by (cases "ar_status r") (simp_all add: client_register_def seq_def)
  have req: "require_node_id cfg ?d = Inr (x # xs)" using assms(1) by (simp add: require_node_id_def)
  have reg: "session_register cfg c ?d = (Inl e', ?d\<lparr>ag_world := w2\<rparr>)"
    unfolding session_register_def eff_simps using req e'(1) by (simp add: seq_def on_world_eq)
  have call: "session_call cfg c fn s = seq (session_register cfg c) (with_identity fn) ?d"
    by (rule call_after_401 [where t = t0 and e = e]) (use assms a in simp_all)
  have "session_call cfg c fn s = (Inl e', ?d\<lparr>ag_world := w2\<rparr>)"
    unfolding call by (simp add: seq_def reg)
  moreover have "ag_cached (?d\<lparr>ag_world := w2\<rparr>) = Some (i\<lparr>id_token := None\<rparr>)" by simp
  moreover have "id_token (load_identity (?d\<lparr>ag_world := w2\<rparr>) (x # xs)) = None"
    using assms(1) by (simp add: dropped_def save_identity_def load_identity_def)
  ultimately show "\<exists>s' e'. session_call cfg c fn s = (Inl e', s') \<and>
      (e' = BootstrapPending (if truthy (ar_message r) then or_empty (ar_message r) else ''registration is pending approval'') \<or>
       e' = BootstrapRejected (if truthy (ar_message r) then or_empty (ar_message r) else ''registration was rejected'')) \<and>
      ag_cached s' = Some (i\<lparr>id_token := None\<rparr>) \<and> id_token (load_identity s' (x # xs)) = None"
    using e'(2) by blast
qed

theorem session_call_errors_witness:
  "session_call example_config (example_controller example_registration) (\<lambda>_ w. (Inl (OSError ''down''), w)) example_agent
   = (Inl (OSError ''down'') :: string res, example_agent\<lparr>ag_world := 0\<rparr>)"
  by (rule session_call_errors [where i = "empty_identity\<lparr>id_token := Some []\<rparr>", THEN conjunct1, THEN mp])
     (simp_all add: example_config_def example_agent_def status_code_def)

section \<open>Memory and disk agree\<close>

text \<open>The identity held in memory is one that is stored, so a restarted agent finds it again.\<close>

definition session_synced :: "('w, 'z) agent_scheme \<Rightarrow> bool" where
  "session_synced s \<longleftrightarrow> (\<forall>i. ag_cached s = Some i \<longrightarrow> (\<exists>n. load_identity s n = i))"

definition keeps_synced :: "('w, 'z) agent_scheme \<Rightarrow> ('w, 'z) agent_scheme \<Rightarrow> bool" where
  "keeps_synced s t \<longleftrightarrow> (session_synced s \<longrightarrow> session_synced t)"

lemma load_identity_simps [simp]:
  "load_identity (s\<lparr>ag_cached := x\<rparr>) n = load_identity s n" "load_identity (s\<lparr>ag_ack := y\<rparr>) n = load_identity s n"
  "load_identity (s\<lparr>ag_world := w\<rparr>) n = load_identity s n"
  by (simp_all add: load_identity_def)

interpretation synced: step_order keeps_synced
  by unfold_locales (auto simp: keeps_synced_def)

lemma synced_save: "session_synced ((save_identity i n s)\<lparr>ag_cached := Some i\<rparr>)"
  by (auto simp: session_synced_def save_identity_def load_identity_def intro: exI [of _ n])

lemma synced_on_world: "runs keeps_synced (on_world m)"
  by (auto simp: runs_def keeps_synced_def session_synced_def on_world_def load_identity_def split: prod.splits)

lemma synced_modify: "(\<And>s. keeps_synced s (f s)) \<Longrightarrow> runs keeps_synced (modify f)"
  by (simp add: runs_def)

lemmas synced_intros = synced.runs_intros synced_on_world synced_modify

lemma synced_load: "runs keeps_synced (session_load cfg)"
  by (auto simp: runs_def session_load_def seq_def keeps_synced_def session_synced_def
      split: option.splits sum.splits)

lemma synced_register: "runs keeps_synced (session_register cfg c)"
proof -
  have "keeps_synced s (s\<lparr>ag_ack := Some r\<rparr>)" for s :: "('w, 'z) agent_scheme" and r
    by (simp add: keeps_synced_def session_synced_def load_identity_def)
  then show ?thesis
    unfolding session_register_def Let_def
    by (intro synced_intros) (auto intro!: synced_intros simp: keeps_synced_def synced_save split: option.splits)
qed

lemma synced_ensure: "runs keeps_synced (session_ensure cfg c)"
  unfolding session_ensure_def by (intro synced_intros synced_load) (auto intro: synced_intros synced_register)

lemma synced_with_identity: "runs keeps_synced (with_identity fn i)"
  unfolding with_identity_def by (cases "id_token i") (auto intro: synced_intros)

lemma synced_invalidate:
  assumes "cfg_requested_node_id cfg = Some (x # xs)"
  shows "runs keeps_synced (session_invalidate cfg)"
proof -
  have load: "runs keeps_synced (session_load cfg)" by (rule synced_load)
  have drop: "session_synced (snd (modify (save_identity i (x # xs)) (s\<lparr>ag_cached := Some i\<rparr>)))"
    for i and s :: "('w, 'z) agent_scheme"
    using synced_save [of i "x # xs" s] by (simp add: save_identity_def session_synced_def load_identity_def)
  show ?thesis unfolding session_invalidate_def
    by (intro synced_intros load)
       (use assms drop in \<open>auto simp: runs_def seq_def keeps_synced_def require_node_id_def Let_def\<close>)
qed

lemma synced_call:
  assumes "cfg_requested_node_id cfg = Some (x # xs)"
  shows "runs keeps_synced (session_call cfg c fn)"
  unfolding session_call_def
  by (auto intro!: synced_intros synced_ensure synced_with_identity synced_invalidate [OF assms])

datatype 'w session_event = Ensure | Invalidate | Persist identity | Call "string \<Rightarrow> ('w, unit) eff" | Take_Ack

fun session_step :: "agent_config \<Rightarrow> 'w controller \<Rightarrow> 'w agent \<Rightarrow> 'w session_event \<Rightarrow> 'w agent" where
  "session_step cfg c s Ensure = snd (session_ensure cfg c s)"
| "session_step cfg c s Invalidate = snd (session_invalidate cfg s)"
| "session_step cfg c s (Persist i) = snd (session_persist i s)"
| "session_step cfg c s (Call fn) = snd (session_call cfg c fn s)"
| "session_step cfg c s Take_Ack = snd (take_registration_ack s)"

lemma session_step_synced:
  assumes "cfg_requested_node_id cfg = Some (x # xs)" "session_synced s"
  shows "session_synced (session_step cfg c s e)"
proof (cases e)
  case Ensure
  then show ?thesis using assms(2) synced_ensure [of cfg c] by (auto simp: runs_def keeps_synced_def)
next
  case Invalidate
  then show ?thesis using assms(2) synced_invalidate [OF assms(1)] by (auto simp: runs_def keeps_synced_def)
next
  case (Persist i)
  then show ?thesis using assms(2) synced_save by (auto simp: session_persist_def split: option.splits)
next
  case (Call fn)
  then show ?thesis using assms(2) synced_call [OF assms(1), of c fn] by (auto simp: runs_def keeps_synced_def)
next
  case Take_Ack
  then show ?thesis using assms(2)
    by (simp add: take_registration_ack_def seq_def session_synced_def load_identity_def)
qed

definition configured :: "char \<Rightarrow> string \<Rightarrow> string option \<Rightarrow> agent_config" where
  "configured x xs token = \<lparr>cfg_requested_node_id = Some (x # xs), cfg_enrollment_token = token\<rparr>"

interpretation session: invariant_machine "session_step (configured x xs token) c" session_synced for x xs token c
  by unfold_locales (rule session_step_synced, simp_all add: configured_def)

text \<open>Memory and disk never disagree.  For an agent with a configured node identifier, whatever sequence
  of calls, registrations, rotations and updates the session goes through, and whatever the server
  answers, the identity in memory is one that is stored on disk.\<close>

theorem session_memory_is_stored:
  assumes "session_synced s" "ag_cached (foldl (session_step (configured x xs token) c) s events) = Some i"
  shows "\<exists>n. load_identity (foldl (session_step (configured x xs token) c) s events) n = i"
  using session.run_inv [OF assms(1), of x xs token c events] assms(2) by (simp add: session_synced_def)

theorem session_memory_is_stored_witness:
  "\<exists>n. load_identity (foldl (session_step (configured (CHR ''h'') ''k1'' None) (example_controller example_registration))
        (example_agent\<lparr>ag_cached := None\<rparr>) [Persist (empty_identity\<lparr>id_node := Some ''a''\<rparr>)]) n
     = empty_identity\<lparr>id_node := Some ''a''\<rparr>"
  by (rule session_memory_is_stored) (simp_all add: session_synced_def session_persist_def)

end
