(* ===== verification/Orchestrator.thy ===== *)
theory Orchestrator
  imports Convergence_Plan Docker_Deploy Agent_Session
begin

text \<open>
  One reconcile run of the agent: \<open>orchestrator.py\<close>, with \<open>secrets/wireguard.py\<close>,
  \<open>apply/definition_store.py\<close> and \<open>apply/writer.py\<close>.

  \<open>outside\<close> collects what the run is given: the control server's endpoints, the renderer
  (\<open>dn42_templates\<close>), Docker, \<open>docker exec\<close>, the key primitives and file-system faults, also of the
  write that saves the identity at the end of a run (the session's other writes do not fail).
  Archiving of metrics and the permission bits of scripts are left out; the definition store, whose
  failures the code only logs, is written without faults.
\<close>

section \<open>Keys (\<open>secrets/wireguard.py\<close>)\<close>

definition is_secret_ref :: "string option \<Rightarrow> bool" where
  "is_secret_ref value \<longleftrightarrow> truthy value \<and> starts_with ''secret://'' (the value)"

definition has_secret_wireguard_interface :: "desired_state \<Rightarrow> bool" where
  "has_secret_wireguard_interface s \<longleftrightarrow>
     list_ex (\<lambda>i. if_kind i = WIREGUARD \<and> is_secret_ref (if_private_key_ref i)) (ds_interfaces s)"

record key_report =
  kr_node_id :: string
  kr_public_key :: string
  kr_escrow :: "string option"

section \<open>The run's surroundings and state\<close>

datatype agent_mode = PLAN_ONLY | WRITE_RENDERED | APPLY

record run_config =
  rc_mode :: agent_mode
  rc_local_convergence :: bool
  rc_controller :: bool
  rc_own_rendered_dir :: bool
  rc_agent :: agent_config

record apply_result =
  apr_node_id :: string
  apr_generation :: int
  apr_status :: apply_status
  apr_summary :: plan_summary
  apr_files :: "applied_file list"
  apr_errors :: "string list"

record 'w outside =
  ox_controller :: "'w controller"
  ox_fetch :: "string \<Rightarrow> ('w, desired_state) eff"
  ox_local :: "desired_state res"
  ox_recovery :: "string \<Rightarrow> ('w, string option) eff"
  ox_report_keys :: "key_report \<Rightarrow> string \<Rightarrow> ('w, unit) eff"
  ox_post_snapshot :: "runtime_snapshot \<Rightarrow> string \<Rightarrow> ('w, unit) eff"
  ox_post_report :: "reconciliation_report \<Rightarrow> string \<Rightarrow> ('w, unit) eff"
  ox_post_apply :: "apply_result \<Rightarrow> string \<Rightarrow> ('w, unit) eff"
  ox_keygen :: "'w \<Rightarrow> string \<times> 'w"
  ox_derive :: "string \<Rightarrow> string"
  ox_seal :: "string \<Rightarrow> string \<Rightarrow> string"
  ox_render :: "desired_state \<Rightarrow> rendered_file list res"
  ox_containers :: "'w \<Rightarrow> string list \<Rightarrow> raw_container list option"
  ox_engine :: "'w engine"
  ox_exec :: "'w \<Rightarrow> exec"
  ox_converged :: "'w \<Rightarrow> convergence_action list \<Rightarrow> 'w"
  ox_push_key :: "'w \<Rightarrow> string \<Rightarrow> string \<Rightarrow> 'w"
  ox_now :: "'w \<Rightarrow> int"
  ox_build :: build_env
  ox_hash :: "string \<Rightarrow> string"
  ox_base :: path
  ox_fault :: io_faults
  ox_save_fault :: "'w \<Rightarrow> string \<Rightarrow> string option"
  ox_pid :: int

record 'w node = "'w agent" +
  no_tree :: "file_tree option"
  no_defs :: "(string \<times> definition_record) list"
  no_state :: "desired_state option"
  no_key :: "string option"

record execution =
  ex_status :: apply_status
  ex_files :: "apply_outcome option"
  ex_deployed :: "deploy_result option"
  ex_convergence :: "(bool \<times> convergence_step list) option"

record run_result =
  run_status :: apply_status
  run_report :: reconciliation_report
  run_identity :: identity
  run_plan :: reconcile_plan

definition ensure_node_private_key :: "'w outside \<Rightarrow> ('w node, string) eff" where
  "ensure_node_private_key ox =
     reading (\<lambda>s. case no_key s of
        Some k \<Rightarrow> ret (strip k)
      | None \<Rightarrow> (case ox_keygen ox (ag_world s) of (k, w) \<Rightarrow>
          seq (modify (\<lambda>s. s\<lparr>ag_world := w, no_key := Some k\<rparr>)) (\<lambda>_. ret k)))"

definition build_wireguard_key_report ::
  "'w outside \<Rightarrow> desired_state \<Rightarrow> string option \<Rightarrow> ('w node, key_report option) eff" where
  "build_wireguard_key_report ox s recovery =
     (if \<not> has_secret_wireguard_interface s then ret None
      else seq (ensure_node_private_key ox) (\<lambda>k.
        ret (Some \<lparr>kr_node_id = nd_node_id (ds_node s), kr_public_key = ox_derive ox k,
                   kr_escrow = (if truthy recovery then Some (ox_seal ox k (the recovery)) else None)\<rparr>)))"

definition push_wireguard_key_to_container :: "'w outside \<Rightarrow> desired_state \<Rightarrow> string \<Rightarrow> ('w node, unit) eff" where
  "push_wireguard_key_to_container ox s container =
     (if \<not> has_secret_wireguard_interface s then ret ()
      else reading (\<lambda>n. case no_key n of
         None \<Rightarrow> ret ()
       | Some k \<Rightarrow> modify (\<lambda>n. n\<lparr>ag_world := ox_push_key ox (ag_world n) container k\<rparr>)))"

section \<open>The definition store\<close>

definition persist_container_definitions ::
  "container_plan \<Rightarrow> (string \<times> definition_record) list \<Rightarrow> (string \<times> definition_record) list" where
  "persist_container_definitions plan records =
     (let desired = dict_of (concat (map (\<lambda>st. case cs_definition st of
                                Some d \<Rightarrow> [(cs_container_name st, d)] | None \<Rightarrow> []) (cp_steps plan)));
          kept = filter (\<lambda>(n, _). n \<in> fst ` set desired) records in
      foldl (\<lambda>rs (n, d). dput n \<lparr>dr_config_hash = Some (cd_config_hash d), dr_payload = Some (cd_payload d)\<rparr> rs)
        kept desired)"

section \<open>Executing a plan\<close>

definition empty_tree :: file_tree where
  "empty_tree = \<lparr>tree_files = [], tree_dirs = []\<rparr>"

definition write_rendered_bundle ::
  "'w outside \<Rightarrow> reconcile_plan \<Rightarrow> rendered_file list \<Rightarrow> ('w node, apply_outcome) eff" where
  "write_rendered_bundle ox plan files n =
     (let t = (case no_tree n of Some t \<Rightarrow> t | None \<Rightarrow> empty_tree) in
      case execute_file_plan (ox_fault ox) (ox_pid ox) (ox_base ox) (rp_file_plan plan) files t False of
        (t', r) \<Rightarrow> (r, n\<lparr>no_tree := Some t'\<rparr>))"

definition deploy_containers :: "'w outside \<Rightarrow> desired_state \<Rightarrow> container_plan \<Rightarrow> ('w node, deploy_result) eff" where
  "deploy_containers ox s plan n =
     (case deploy (ox_engine ox) s plan (ag_world n) of
        Inl e \<Rightarrow> (Inl e, n) | Inr (res, t) \<Rightarrow> (Inr res, n\<lparr>ag_world := dp_world t\<rparr>))"

definition converge :: "'w outside \<Rightarrow> desired_state \<Rightarrow> convergence_action list \<Rightarrow> ('w node, bool \<times> convergence_step list) eff" where
  "converge ox s plan =
     seq (case service_container_by_role s WG_GATEWAY of
            Some wg \<Rightarrow> push_wireguard_key_to_container ox s wg | None \<Rightarrow> ret ()) (\<lambda>_ n.
       (Inr (execute_convergence_plan (ox_exec ox (ag_world n)) plan),
        n\<lparr>ag_world := ox_converged ox (ag_world n) plan\<rparr>))"

definition execute_plan ::
  "'w outside \<Rightarrow> run_config \<Rightarrow> reconcile_plan \<Rightarrow> desired_state \<Rightarrow> rendered_file list \<Rightarrow> ('w node, execution) eff" where
  "execute_plan ox cfg plan s files =
     (if rc_mode cfg = PLAN_ONLY
      then ret \<lparr>ex_status = SKIPPED, ex_files = None, ex_deployed = None, ex_convergence = None\<rparr>
      else seq (write_rendered_bundle ox plan files) (\<lambda>out.
        if rc_mode cfg = WRITE_RENDERED
        then ret \<lparr>ex_status = (if ao_errors out = [] then SUCCEEDED else FAILED), ex_files = Some out,
                  ex_deployed = None, ex_convergence = None\<rparr>
        else seq (deploy_containers ox s (rp_container_plan plan)) (\<lambda>dep.
          let ok = (dr_succeeded dep \<and> ao_errors out = []) in
          seq (if ok then modify (\<lambda>n. n\<lparr>no_defs := persist_container_definitions (rp_container_plan plan) (no_defs n)\<rparr>)
               else ret ()) (\<lambda>_.
          seq (if ok \<and> rc_local_convergence cfg
               then seq (converge ox s (rp_convergence_plan plan)) (\<lambda>c. ret (Some c)) else ret None) (\<lambda>conv.
            ret \<lparr>ex_status = (if ok \<and> (case conv of None \<Rightarrow> True | Some c \<Rightarrow> fst c) then SUCCEEDED else FAILED),
                 ex_files = Some out, ex_deployed = Some dep, ex_convergence = conv\<rparr>)))))"

section \<open>Reporting\<close>

definition bird_protocol_name :: "string \<Rightarrow> string" where
  "bird_protocol_name session_name =
     (let s = map (\<lambda>c. if is_alnum c \<or> c = CHR ''_'' then c else CHR ''_'') session_name in
      if s = [] \<or> is_digit (hd s) then CHR ''_'' # s else s)"

definition build_network_observers ::
  "'w outside \<Rightarrow> desired_state \<Rightarrow> observed_project \<Rightarrow> 'w \<Rightarrow>
   (unit \<Rightarrow> string option) option \<times> ((unit \<Rightarrow> string option) \<times> (string \<times> string) list) option" where
  "build_network_observers ox s observed w =
     (if op_containers observed = [] then (None, None)
      else let run = (\<lambda>c argv. case ox_exec ox w c argv of Inl e \<Rightarrow> Inl (RuntimeError e) | Inr r \<Rightarrow> Inr r) in
        (map_option (\<lambda>c. container_output_runner run c [''wg'', ''show'', ''all'', ''dump''])
           (service_container_by_role s WG_GATEWAY),
         map_option (\<lambda>c. (container_output_runner run c [''birdc'', ''show'', ''protocols''],
                          dict_of (map (\<lambda>x. (bird_protocol_name (bgp_name x), bgp_name x)) (ds_bgp_sessions s))))
           (service_container_by_role s BIRD_ROUTER)))"

definition applied_files :: "reconcile_plan \<Rightarrow> execution \<Rightarrow> applied_file list" where
  "applied_files plan ex =
     (case ex_files ex of
        Some out \<Rightarrow> filter (\<lambda>f. af_action f \<noteq> ''noop'') (ao_applied out)
      | None \<Rightarrow> map (\<lambda>a. \<lparr>af_action = pa_action a, af_path = pa_path a,
                          af_sha256 = (if truthy (pa_desired a) then pa_desired a else pa_observed a)\<rparr>)
                  (filter (\<lambda>a. pa_action a \<noteq> ''noop'') (fp_actions (rp_file_plan plan))))"

definition the_call :: "'w outside \<Rightarrow> run_config \<Rightarrow> (string \<Rightarrow> ('w, 'a) eff) \<Rightarrow> ('w node, 'a) eff" where
  "the_call ox cfg fn = session_call (rc_agent cfg) (ox_controller ox) fn"

definition publish ::
  "'w outside \<Rightarrow> run_config \<Rightarrow> desired_state \<Rightarrow> reconcile_plan \<Rightarrow> execution \<Rightarrow> runtime_snapshot \<Rightarrow>
   reconciliation_report \<Rightarrow> ('w node, unit) eff" where
  "publish ox cfg s plan ex snap report =
     (if \<not> rc_controller cfg then ret ()
      else let ar = \<lparr>apr_node_id = nd_node_id (ds_node s), apr_generation = ds_generation s, apr_status = ex_status ex,
                     apr_summary = fp_summary (rp_file_plan plan), apr_files = applied_files plan ex,
                     apr_errors = (case ex_files ex of Some out \<Rightarrow> ao_errors out | None \<Rightarrow> [])\<rparr> in
        seq take_registration_ack (\<lambda>_.
        seq (the_call ox cfg (ox_post_snapshot ox snap)) (\<lambda>_.
        seq (the_call ox cfg (ox_post_report ox report)) (\<lambda>_.
             the_call ox cfg (ox_post_apply ox ar)))))"

section \<open>The run\<close>

definition fetch_state :: "'w outside \<Rightarrow> run_config \<Rightarrow> ('w node, desired_state) eff" where
  "fetch_state ox cfg = (if rc_controller cfg then the_call ox cfg (ox_fetch ox) else lift_res (ox_local ox))"

definition current_identity :: "'w outside \<Rightarrow> run_config \<Rightarrow> desired_state \<Rightarrow> ('w node, identity) eff" where
  "current_identity ox cfg s =
     (if rc_controller cfg then session_ensure (rc_agent cfg) (ox_controller ox)
      else reading (\<lambda>n. ret (load_identity n (nd_node_id (ds_node s)))))"

definition ensure_paths :: "run_config \<Rightarrow> desired_state \<Rightarrow> ('w node, unit) eff" where
  "ensure_paths cfg s =
     modify (\<lambda>n. n\<lparr>ag_nodes := (if nd_node_id (ds_node s) \<in> set (ag_nodes n) then ag_nodes n
                                 else ag_nodes n @ [nd_node_id (ds_node s)]),
                   no_tree := (if rc_own_rendered_dir cfg then no_tree n
                               else Some (case no_tree n of Some t \<Rightarrow> t | None \<Rightarrow> empty_tree))\<rparr>)"

definition sync_wireguard_keys :: "'w outside \<Rightarrow> run_config \<Rightarrow> desired_state \<Rightarrow> ('w node, unit) eff" where
  "sync_wireguard_keys ox cfg s =
     (if rc_mode cfg \<noteq> APPLY \<or> \<not> rc_controller cfg then ret ()
      else seq (the_call ox cfg (ox_recovery ox)) (\<lambda>recovery.
           seq (build_wireguard_key_report ox s recovery) (\<lambda>report.
             case report of None \<Rightarrow> ret () | Some r \<Rightarrow> the_call ox cfg (ox_report_keys ox r))))"

text \<open>The identity that \<open>session.ensure()\<close> returns is the session's own object, so setting its fields changes
  what the session holds, before anything is saved.  Without a controller it was read from disk.\<close>

definition set_in_place :: "run_config \<Rightarrow> identity \<Rightarrow> ('w node, unit) eff" where
  "set_in_place cfg i = (if rc_controller cfg then modify (\<lambda>n. n\<lparr>ag_cached := Some i\<rparr>) else ret ())"

text \<open>\<open>atomic_write_json\<close> may raise; the file is then the old one.\<close>

definition persist_identity :: "'w outside \<Rightarrow> run_config \<Rightarrow> desired_state \<Rightarrow> identity \<Rightarrow> ('w node, unit) eff" where
  "persist_identity ox cfg s i =
     reading (\<lambda>n. case ox_save_fault ox (ag_world n) (nd_node_id (ds_node s)) of
        Some e \<Rightarrow> lift_res (Inl (OSError e))
      | None \<Rightarrow> if rc_controller cfg then session_persist i
                else modify (save_identity i (nd_node_id (ds_node s))))"

definition updated_identity :: "desired_state \<Rightarrow> apply_status \<Rightarrow> reconciliation_report \<Rightarrow> identity \<Rightarrow> identity" where
  "updated_identity s status report i =
     i\<lparr>id_node := Some (nd_node_id (ds_node s)),
       id_generation := (if status = SUCCEEDED then Some (ds_generation s) else id_generation i),
       id_last_status := Some (apply_status_value (rr_status report))\<rparr>"

definition observe_and_report ::
  "'w outside \<Rightarrow> run_config \<Rightarrow> desired_state \<Rightarrow> observed_project \<Rightarrow> identity \<Rightarrow> reconcile_plan \<Rightarrow> execution \<Rightarrow>
   'w \<Rightarrow> runtime_snapshot \<times> reconciliation_report" where
  "observe_and_report ox cfg s observed identity plan ex w =
     (let post = (if rc_mode cfg \<noteq> PLAN_ONLY then observe_project (ox_containers ox w) s else observed);
          applied = (if ex_status ex = SUCCEEDED then Some (ds_generation s) else id_generation identity);
          (wg, bgp) = build_network_observers ox s post w;
          snap = build_runtime_snapshot s applied post (observe_wireguard wg (ox_now ox w)) (observe_bgp bgp) in
      (snap, build_reconciliation_report s snap (ex_status ex) (desired_hashes (rp_container_plan plan))))"

text \<open>Up to the point where everything was reported.\<close>

definition run_until_published ::
  "'w outside \<Rightarrow> run_config \<Rightarrow> ('w node, desired_state \<times> reconcile_plan \<times> execution \<times> reconciliation_report) eff" where
  "run_until_published ox cfg =
     seq (fetch_state ox cfg) (\<lambda>s.
     seq (current_identity ox cfg s) (\<lambda>identity.
     seq (ensure_paths cfg s) (\<lambda>_.
     seq (sync_wireguard_keys ox cfg s) (\<lambda>_.
     seq (lift_res (ox_render ox s)) (\<lambda>files.
     reading (\<lambda>n.
       let observed = observe_project (ox_containers ox (ag_world n)) s in
       seq (lift_res (build_reconcile_plan (ox_build ox) (ox_hash ox) (ox_base ox) s files (no_tree n)
                        (op_containers observed) (no_defs n))) (\<lambda>plan.
       seq (execute_plan ox cfg plan s files) (\<lambda>ex.
       reading (\<lambda>n.
         case observe_and_report ox cfg s observed identity plan ex (ag_world n) of
           (snap, report) \<Rightarrow>
             seq (modify (\<lambda>n. n\<lparr>no_state := Some s\<rparr>)) (\<lambda>_.
             seq (publish ox cfg s plan ex snap report) (\<lambda>_. ret (s, plan, ex, report))))))))))))"

definition run_once :: "'w outside \<Rightarrow> run_config \<Rightarrow> ('w node, run_result) eff" where
  "run_once ox cfg =
     seq (run_until_published ox cfg) (\<lambda>(s, plan, ex, report).
     seq (current_identity ox cfg s) (\<lambda>i.
       let i' = updated_identity s (ex_status ex) report i in
       seq (set_in_place cfg i') (\<lambda>_.
       seq (persist_identity ox cfg s i') (\<lambda>_.
         ret \<lparr>run_status = ex_status ex, run_report = report, run_identity = i', run_plan = plan\<rparr>))))"

end
