(* ===== verification/Run_Frame.thy ===== *)
theory Run_Frame
  imports Orchestrator
begin

text \<open>
  What a reconcile run (\<open>Orchestrator\<close>) may change, whatever the server, Docker and the file system
  answer: the interface \<open>run_relation\<close> carries a relation between states through the whole run, and is
  interpreted for the stored generations, the local files and the node key.
\<close>

section \<open>What a run may change\<close>

text \<open>The session only touches its own part of the agent's state.\<close>

definition same_rest :: "('w, 'z) agent_scheme \<Rightarrow> ('w, 'z) agent_scheme \<Rightarrow> bool" where
  "same_rest s t \<longleftrightarrow> agent.more t = agent.more s"

interpretation rest: step_order same_rest
  by unfold_locales (simp_all add: same_rest_def)

lemma rest_on_world: "runs same_rest (on_world m)"
  by (simp add: runs_def same_rest_def on_world_def split: prod.splits)

lemma rest_modify: "(\<And>s. same_rest s (f s)) \<Longrightarrow> runs same_rest (modify f)"
  by (simp add: runs_def)

lemma rest_save [simp]: "agent.more (save_identity i n s) = agent.more s"
  by (simp add: save_identity_def)

lemmas rest_intros = rest.runs_intros rest_on_world rest_modify

text \<open>A property of identities that dropping the token keeps and that fresh identities have.\<close>

definition known_generations :: "('w, 'z) agent_scheme \<Rightarrow> int set" where
  "known_generations s = {g. \<exists>i. (ag_cached s = Some i \<or> i \<in> snd ` set (ag_files s)) \<and> id_generation i = Some g}"

definition no_new_generation :: "('w, 'z) agent_scheme \<Rightarrow> ('w, 'z) agent_scheme \<Rightarrow> bool" where
  "no_new_generation s t \<longleftrightarrow> known_generations t \<subseteq> known_generations s"

interpretation gens: step_order no_new_generation
  by unfold_locales (auto simp: no_new_generation_def)

lemma snd_dput: "snd ` set (dput k v xs) \<subseteq> insert v (snd ` set xs)"
  by (induction k v xs rule: dput.induct) auto

lemma known_save:
  "known_generations ((save_identity i n s)\<lparr>ag_cached := c\<rparr>) \<subseteq>
   known_generations s \<union> set_option (id_generation i) \<union> set_option (Option.bind c id_generation)"
  using snd_dput [of n i "ag_files s"]
  unfolding known_generations_def save_identity_def by fastforce

lemma gens_on_world: "runs no_new_generation (on_world m)"
  by (auto simp: runs_def no_new_generation_def known_generations_def on_world_def split: prod.splits)

lemma gens_modify: "(\<And>s. no_new_generation s (f s)) \<Longrightarrow> runs no_new_generation (modify f)"
  by (simp add: runs_def)

lemmas gens_intros = gens.runs_intros gens_on_world gens_modify

lemma known_of_file: "load_identity s n = i \<Longrightarrow> id_generation i = Some g \<Longrightarrow> g \<in> known_generations s"
  by (force simp: load_identity_def known_generations_def empty_identity_def split: option.splits dest: map_of_SomeD)

lemma gens_load: "runs no_new_generation (session_load cfg)"
proof -
  have "no_new_generation s (s\<lparr>ag_cached := Some (load_identity s n)\<rparr>)" for s :: "('w, 'z) agent_scheme" and n
    using known_of_file [OF refl, of s n] by (auto simp: no_new_generation_def known_generations_def)
  then show ?thesis
    unfolding session_load_def
    by (auto simp: runs_def seq_def gens.refl split: option.splits sum.splits)
qed

lemma gens_load_identity:
  "session_load cfg s = (Inr i, t) \<Longrightarrow> ag_cached t = Some i"
  by (auto simp: session_load_def seq_def split: option.splits sum.splits)

lemma gens_register: "runs no_new_generation (session_register cfg c)"
proof -
  have ack: "no_new_generation s (s\<lparr>ag_ack := Some r\<rparr>)" for s :: "('w, 'z) agent_scheme" and r
    by (simp add: no_new_generation_def known_generations_def)
  have save: "id_generation i = None \<Longrightarrow> no_new_generation s ((save_identity i n s)\<lparr>ag_cached := Some i\<rparr>)"
    for s :: "('w, 'z) agent_scheme" and i n
    using known_save [where i = i and n = n and s = s and c = "Some i"] by (auto simp: no_new_generation_def)
  show ?thesis
    unfolding session_register_def Let_def
    by (intro gens_intros) (auto intro!: gens_intros ack save split: option.splits)
qed

lemma gens_ensure: "runs no_new_generation (session_ensure cfg c)"
  unfolding session_ensure_def by (intro gens_intros gens_load) (auto intro: gens_intros gens_register)

lemma gens_with_identity: "runs no_new_generation (with_identity fn i)"
  unfolding with_identity_def by (cases "id_token i") (auto intro: gens_intros)

lemma gens_invalidate: "runs no_new_generation (session_invalidate cfg)"
  unfolding runs_def
proof
  fix s :: "('w, 'z) agent_scheme"
  obtain r t where l: "session_load cfg s = (r, t)" by fastforce
  have st: "no_new_generation s t" using runsD [OF gens_load l] .
  show "no_new_generation s (snd (session_invalidate cfg s))"
  proof (cases r)
    case (Inl e)
    then show ?thesis using l st by (simp add: session_invalidate_def seq_def)
  next
    case (Inr i)
    have c: "ag_cached t = Some i" using gens_load_identity [of cfg s i t] l Inr by simp
    let ?i = "i\<lparr>id_token := None\<rparr>"
    have cached: "no_new_generation t (t\<lparr>ag_cached := Some ?i\<rparr>)"
      using c by (auto simp: no_new_generation_def known_generations_def)
    have saved: "no_new_generation t (save_identity ?i n (t\<lparr>ag_cached := Some ?i\<rparr>))" for n
    proof -
      have "save_identity ?i n (t\<lparr>ag_cached := Some ?i\<rparr>) = (save_identity ?i n t)\<lparr>ag_cached := Some ?i\<rparr>"
        by (simp add: save_identity_def)
      moreover have "set_option (id_generation ?i) \<subseteq> known_generations t"
        using c by (auto simp: known_generations_def)
      ultimately show ?thesis using known_save [where i = ?i and n = n and s = t and c = "Some ?i"] by (auto simp: no_new_generation_def)
    qed
    show ?thesis
      using st cached saved l Inr gens.trans [OF st]
      by (auto simp: session_invalidate_def seq_def Let_def split: sum.splits)
  qed
qed

lemma gens_call: "runs no_new_generation (session_call cfg c fn)"
  unfolding session_call_def
  by (auto intro!: gens_intros gens_ensure gens_invalidate gens_with_identity)

lemma rest_load: "runs same_rest (session_load cfg)"
  unfolding session_load_def by (auto simp: runs_def seq_def same_rest_def split: option.splits sum.splits)

lemma rest_register: "runs same_rest (session_register cfg c)"
  unfolding session_register_def Let_def
  by (intro rest_intros) (auto intro!: rest_intros simp: same_rest_def split: option.splits)

lemma rest_ensure: "runs same_rest (session_ensure cfg c)"
  unfolding session_ensure_def by (intro rest_intros rest_load) (auto intro: rest_intros rest_register)

lemma rest_with_identity: "runs same_rest (with_identity fn i)"
  unfolding with_identity_def by (cases "id_token i") (auto intro: rest_intros)

lemma rest_invalidate: "runs same_rest (session_invalidate cfg)"
  unfolding session_invalidate_def Let_def
  by (intro rest_intros rest_load) (auto intro!: rest_intros simp: same_rest_def)

lemma rest_call: "runs same_rest (session_call cfg c fn)"
  unfolding session_call_def
  by (auto intro!: rest_intros rest_ensure rest_invalidate rest_with_identity)

section \<open>The interface: a relation along a whole run\<close>

locale run_relation = step_order R for R :: "'w node \<Rightarrow> 'w node \<Rightarrow> bool" +
  fixes ox :: "'w outside" and cfg :: run_config
  assumes call_state: "runs R (the_call ox cfg (fs :: string \<Rightarrow> ('w, desired_state) eff))"
    and call_pem: "runs R (the_call ox cfg (fp :: string \<Rightarrow> ('w, string option) eff))"
    and call_unit: "runs R (the_call ox cfg (fu :: string \<Rightarrow> ('w, unit) eff))"
    and ensure: "runs R (session_ensure (rc_agent cfg) (ox_controller ox))"
    and ack: "R n (n\<lparr>ag_ack := a\<rparr>)"
    and paths: "runs R (ensure_paths cfg s)"
    and cache: "R n (n\<lparr>no_state := st\<rparr>)"
    and key: "runs R (build_wireguard_key_report ox s recovery)"
    and exec: "runs R (execute_plan ox cfg plan s files)"
begin

lemma runs_update: "(\<And>s. R s (f s)) \<Longrightarrow> runs R (modify f)"
  by (simp add: runs_def)

lemma runs_current: "runs R (current_identity ox cfg s)"
  unfolding current_identity_def by (auto intro: runs_intros ensure)

lemma runs_fetch: "runs R (fetch_state ox cfg)"
  unfolding fetch_state_def by (auto intro: runs_intros call_state)

lemma runs_sync: "runs R (sync_wireguard_keys ox cfg s)"
  unfolding sync_wireguard_keys_def by (auto intro!: runs_intros call_pem call_unit key split: option.splits)

lemma runs_publish: "runs R (publish ox cfg s plan ex snap report)"
  unfolding publish_def Let_def take_registration_ack_def
  by (auto intro!: runs_intros runs_update ack call_unit)

lemma runs_until_published: "runs R (run_until_published ox cfg)"
  unfolding run_until_published_def Let_def
  by (intro runs_intros runs_fetch runs_current runs_sync paths exec)
     (auto intro!: runs_intros runs_update runs_publish cache split: prod.splits)

end

section \<open>Generations\<close>


lemma gens_node_update [simp]:
  "no_new_generation n (n\<lparr>no_tree := a\<rparr>)" "no_new_generation n (n\<lparr>no_defs := b\<rparr>)"
  "no_new_generation n (n\<lparr>no_state := c\<rparr>)" "no_new_generation n (n\<lparr>no_key := d\<rparr>)"
  "no_new_generation n (n\<lparr>ag_world := w\<rparr>)" "no_new_generation n (n\<lparr>ag_ack := e\<rparr>)"
  "no_new_generation n (n\<lparr>ag_nodes := f\<rparr>)" for n :: "'w node"
  by (simp_all add: no_new_generation_def known_generations_def)

lemma gens_key: "runs no_new_generation (build_wireguard_key_report ox s recovery)"
proof -
  have "no_new_generation n (n\<lparr>ag_world := w, no_key := k\<rparr>)" for n :: "'w node" and w k
    by (simp add: no_new_generation_def known_generations_def)
  then show ?thesis
    unfolding build_wireguard_key_report_def ensure_node_private_key_def
    by (auto intro!: gens_intros split: option.splits prod.splits)
qed

lemma gens_exec: "runs no_new_generation (execute_plan (ox :: 'w outside) cfg plan s files)"
proof -
  have w: "runs no_new_generation (write_rendered_bundle ox plan files)"
    by (auto simp: runs_def write_rendered_bundle_def Let_def split: prod.splits)
  have d: "runs no_new_generation (deploy_containers ox s cp)" for cp
    by (auto simp: runs_def deploy_containers_def gens.refl split: prod.splits sum.splits)
  have p: "runs no_new_generation (push_wireguard_key_to_container ox s c)" for c
    unfolding push_wireguard_key_to_container_def by (auto intro!: gens_intros gens_modify split: option.splits)
  have v: "runs no_new_generation (\<lambda>n :: 'w node. (Inr (execute_convergence_plan (ox_exec ox (ag_world n)) cs),
      n\<lparr>ag_world := ox_converged ox (ag_world n) cs\<rparr>))" for cs
    by (simp add: runs_def)
  have c: "runs no_new_generation (converge ox s cs)" for cs
    unfolding converge_def by (intro gens.runs_seq v) (auto intro!: gens_intros p split: option.splits)
  show ?thesis
    unfolding execute_plan_def Let_def
    by (auto intro!: gens.runs_intros gens_modify w d c)
qed

interpretation generations: run_relation no_new_generation ox cfg for ox :: "'w outside" and cfg
proof unfold_locales
  show "runs no_new_generation (ensure_paths cfg s)" for s
    by (auto simp: runs_def ensure_paths_def no_new_generation_def known_generations_def)
qed (auto simp: the_call_def intro: gens_call gens_ensure gens_key gens_exec)

definition stored_generations :: "('w, 'z) agent_scheme \<Rightarrow> int set" where
  "stored_generations s = {g. \<exists>i\<in>snd ` set (ag_files s). id_generation i = Some g}"


lemma stored_cached [simp]: "stored_generations (s\<lparr>ag_cached := c\<rparr>) = stored_generations s"
  by (simp add: stored_generations_def)






definition example_outside :: "nat outside" where
  "example_outside =
     \<lparr>ox_controller = example_controller example_registration, ox_fetch = (\<lambda>_ w. (Inr example_small_state, w)),
      ox_local = Inr example_small_state, ox_recovery = (\<lambda>_ w. (Inr None, w)), ox_report_keys = (\<lambda>_ _ w. (Inr (), w)),
      ox_post_snapshot = (\<lambda>_ _ w. (Inr (), w)), ox_post_report = (\<lambda>_ _ w. (Inr (), w)),
      ox_post_apply = (\<lambda>_ _ w. (Inl (ControllerError ''down'' None), w)),
      ox_keygen = (\<lambda>w. (''key'', w)), ox_derive = (\<lambda>k. k), ox_seal = (\<lambda>k _. k), ox_render = (\<lambda>_. Inr []),
      ox_containers = (\<lambda>_ _. None), ox_engine = example_engine [], ox_exec = (\<lambda>_ _ _. Inl ''no''),
      ox_converged = (\<lambda>w _. w), ox_push_key = (\<lambda>w _ _. w), ox_now = (\<lambda>_. 0), ox_build = example_env,
      ox_hash = (\<lambda>c. c), ox_base = [], ox_fault = no_faults, ox_save_fault = (\<lambda>_ _. None), ox_pid = 1\<rparr>"

definition example_node :: "nat node" where
  "example_node = \<lparr>ag_world = 0, ag_nodes = [], ag_files = [], ag_cached = None, ag_ack = None, no_tree = None,
                   no_defs = [], no_state = None, no_key = None\<rparr>"

definition example_run :: "agent_mode \<Rightarrow> run_config" where
  "example_run mode = \<lparr>rc_mode = mode, rc_local_convergence = True, rc_controller = False,
                       rc_own_rendered_dir = False, rc_agent = example_config\<rparr>"



text \<open>The last write fails after everything was reported: the generation is in memory only.\<close>

lemma unsaved_generation_in_memory:
  "let ox = example_outside\<lparr>ox_post_apply := (\<lambda>_ _ w. (Inr (), w)), ox_save_fault := (\<lambda>_ _. Some ''full'')\<rparr>;
       out = run_once ox (example_run WRITE_RENDERED\<lparr>rc_controller := True\<rparr>) example_node in
   isl (fst out) \<and> map_option id_generation (ag_cached (snd out)) = Some (Some (ds_generation example_small_state)) \<and>
   map (id_generation \<circ> snd) (ag_files (snd out)) = [None]"
  by code_simp

text \<open>C38: What could not be reported is not taken as applied.  With a control server that refuses every apply
  result, each run ends with an exception and records no new generation, in memory or on disk.\<close>

theorem unreported_run_fails:
  assumes "rc_controller cfg" "\<And>ar token w. \<exists>e w'. ox_post_apply ox ar token w = (Inl e, w')"
  shows "isl (fst (run_once ox cfg n)) \<and> known_generations (snd (run_once ox cfg n)) \<subseteq> known_generations n"
proof -
  have fn: "isl (fst (with_identity (ox_post_apply ox ar) i s))" for ar i and s :: "'a node"
  proof (cases "id_token i")
    case (Some token)
    obtain e w' where "ox_post_apply ox ar token (ag_world s) = (Inl e, w')" using assms(2) by blast
    then show ?thesis by (simp add: with_identity_def Some on_world_eq)
  qed (simp add: with_identity_def)
  have seq: "(\<And>x s'. isl (fst (f x s'))) \<Longrightarrow> isl (fst (seq m f s))" for m :: "('a node, 'b) eff" and f :: "'b \<Rightarrow> ('a node, 'c) eff" and s
    by (auto simp: seq_def split: prod.splits sum.splits)
  have call: "isl (fst (the_call ox cfg (ox_post_apply ox ar) s))" for ar and s :: "'a node"
    unfolding the_call_def session_call_def
    by (intro seq) (auto simp: catching_def intro!: seq fn split: prod.splits sum.splits, metis fn fst_conv isl_def sum.disc(2))
  have pub: "isl (fst (publish ox cfg s plan ex snap report m))" for s plan ex snap report and m :: "'a node"
    using assms(1) unfolding publish_def Let_def by (auto intro!: seq call)
  have tail: "isl (fst (seq (modify g) (\<lambda>_. seq (publish ox cfg s plan ex snap report) (\<lambda>_. ret x)) m))"
    for g s plan ex snap report x and m :: "'a node"
    using pub [of s plan ex snap report "g m"] by (auto simp: seq_def isl_def split: prod.splits sum.splits)
  have until: "isl (fst (run_until_published ox cfg n))"
    unfolding run_until_published_def eff_simps(4) Let_def
    by (intro seq) (auto simp del: eff_simps(3) intro!: seq tail split: prod.splits)
  then obtain e t where t: "run_until_published ox cfg n = (Inl e, t)" by (cases "run_until_published ox cfg n") (auto simp: isl_def)
  then have "run_once ox cfg n = (Inl e, t)" by (simp add: run_once_def seq_def)
  then show ?thesis using runsD [OF generations.runs_until_published t] by (simp add: no_new_generation_def)
qed

theorem unreported_run_fails_witness:
  "isl (fst (run_once example_outside (example_run APPLY\<lparr>rc_controller := True\<rparr>) example_node))"
  by (rule unreported_run_fails [THEN conjunct1]) (simp_all add: example_outside_def)

section \<open>Local files\<close>

text \<open>The node key is never replaced.\<close>

definition same_key :: "'w node \<Rightarrow> 'w node \<Rightarrow> bool" where
  "same_key n t \<longleftrightarrow> (no_key n \<noteq> None \<longrightarrow> no_key t = no_key n)"

text \<open>What a run that only plans keeps: the definition records and the rendered files.\<close>

definition same_runtime :: "'w node \<Rightarrow> 'w node \<Rightarrow> bool" where
  "same_runtime n t \<longleftrightarrow>
     no_defs t = no_defs n \<and> (no_tree t = no_tree n \<or> no_tree n = None \<and> no_tree t = Some empty_tree)"

lemma node_rest_eq: "same_rest n t \<Longrightarrow> no_key t = no_key n \<and> no_defs t = no_defs n \<and> no_tree t = no_tree n"
  for n t :: "'w node"
  by (cases n; cases t) (simp add: same_rest_def)

lemma rest_same: "runs same_rest m \<Longrightarrow> runs same_key m \<and> runs same_runtime m" for m :: "('w node, 'a) eff"
  unfolding runs_def same_key_def same_runtime_def using node_rest_eq by metis

interpretation key_order: step_order same_key
  by unfold_locales (auto simp: same_key_def)

lemma key_exec: "runs same_key (execute_plan (ox :: 'w outside) cfg plan s files)"
proof -
  have m: "(\<And>n. no_key (f n) = no_key n) \<Longrightarrow> runs same_key (modify f)" for f :: "'w node \<Rightarrow> 'w node"
    by (simp add: runs_def same_key_def)
  have w: "runs same_key (write_rendered_bundle ox plan files)"
    by (auto simp: runs_def write_rendered_bundle_def Let_def same_key_def split: prod.splits)
  have d: "runs same_key (deploy_containers ox s cp)" for cp
    by (auto simp: runs_def deploy_containers_def same_key_def split: prod.splits sum.splits)
  have p: "runs same_key (push_wireguard_key_to_container ox s c)" for c
    unfolding push_wireguard_key_to_container_def by (auto intro!: key_order.runs_intros m split: option.splits)
  have v: "runs same_key (\<lambda>n :: 'w node. (Inr (execute_convergence_plan (ox_exec ox (ag_world n)) cs),
      n\<lparr>ag_world := ox_converged ox (ag_world n) cs\<rparr>))" for cs
    by (simp add: runs_def same_key_def)
  have c: "runs same_key (converge ox s cs)" for cs
    unfolding converge_def by (intro key_order.runs_seq v) (auto intro!: key_order.runs_intros p split: option.splits)
  show ?thesis
    unfolding execute_plan_def Let_def by (auto intro!: key_order.runs_intros m w d c)
qed

interpretation key_kept: run_relation same_key ox cfg for ox :: "'w outside" and cfg
proof unfold_locales
  show "runs same_key (ensure_paths cfg s)" for s
    by (auto simp: runs_def ensure_paths_def same_key_def)
  show "runs same_key (build_wireguard_key_report ox s recovery)" for s recovery
    unfolding build_wireguard_key_report_def ensure_node_private_key_def
    by (auto simp: runs_def same_key_def seq_def split: option.splits prod.splits)
qed (auto simp: the_call_def same_key_def intro: rest_call [THEN rest_same, THEN conjunct1]
      rest_ensure [THEN rest_same, THEN conjunct1] key_exec)

lemma rest_current: "runs same_rest (current_identity ox cfg s)"
  unfolding current_identity_def by (auto intro: rest_intros rest_ensure)

lemma rest_persist: "runs same_rest (persist_identity ox cfg s i)"
  unfolding persist_identity_def session_persist_def
  by (auto intro!: rest_intros simp: same_rest_def split: option.splits)

lemma rest_set_in_place: "runs same_rest (set_in_place cfg i)"
  unfolding set_in_place_def by (auto intro!: rest_intros simp: same_rest_def)

lemma run_once_tail:
  assumes "runs R (run_until_published ox cfg)" "step_order R" "\<And>m :: ('w node, unit) eff. runs same_rest m \<Longrightarrow> runs R m"
    "\<And>m :: ('w node, identity) eff. runs same_rest m \<Longrightarrow> runs R m"
  shows "runs R (run_once (ox :: 'w outside) cfg)"
  unfolding run_once_def Let_def
  by (intro step_order.runs_seq [OF assms(2)] assms(1))
     (auto intro!: step_order.runs_seq [OF assms(2)] step_order.runs_ret [OF assms(2)] assms(3,4) rest_current rest_set_in_place rest_persist)

text \<open>One node, one key.  Once a node has its WireGuard key, no run, whatever happens in it and however
  it ends, replaces or removes it.\<close>

theorem node_key_never_replaced:
  assumes "no_key n = Some k"
  shows "no_key (snd (run_once ox cfg n)) = Some k"
proof -
  have "runs same_key (run_once ox cfg)"
    by (rule run_once_tail [OF key_kept.runs_until_published]) (auto intro: key_order.step_order_axioms rest_same [THEN conjunct1])
  then show ?thesis using assms by (simp add: runs_def same_key_def)
qed

theorem node_key_never_replaced_witness:
  "no_key (snd (run_once example_outside (example_run APPLY) (example_node\<lparr>no_key := Some ''k''\<rparr>))) = Some ''k''"
  by (rule node_key_never_replaced) simp

interpretation runtime_order: step_order same_runtime
  by unfold_locales (auto simp: same_runtime_def)

definition planning :: "run_config \<Rightarrow> run_config" where
  "planning cfg = cfg\<lparr>rc_mode := PLAN_ONLY\<rparr>"

interpretation plan_only: run_relation same_runtime ox "planning cfg" for ox :: "'w outside" and cfg
proof unfold_locales
  show "runs same_runtime (ensure_paths (planning cfg) s)" for s
    by (auto simp: runs_def ensure_paths_def same_runtime_def split: option.splits)
  show "runs same_runtime (build_wireguard_key_report ox s recovery)" for s recovery
    unfolding build_wireguard_key_report_def ensure_node_private_key_def
    by (auto simp: runs_def same_runtime_def seq_def split: option.splits prod.splits)
  show "runs same_runtime (execute_plan ox (planning cfg) plan s files)" for plan s files
    by (simp add: execute_plan_def planning_def runs_def same_runtime_def)
qed (auto simp: the_call_def same_runtime_def intro: rest_call [THEN rest_same, THEN conjunct2]
      rest_ensure [THEN rest_same, THEN conjunct2])

text \<open>Planning changes nothing.  A run in plan-only mode, however it ends, leaves the rendered files and
  the definition records as they were (a missing rendered directory is created empty), and when it
  returns, its status is SKIPPED.\<close>

theorem plan_only_changes_nothing:
  assumes "rc_mode cfg = PLAN_ONLY" "run_once ox cfg n = (r, t)"
  shows "no_defs t = no_defs n \<and> (no_tree t = no_tree n \<or> no_tree n = None \<and> no_tree t = Some empty_tree) \<and>
         (case r of Inl _ \<Rightarrow> True | Inr res \<Rightarrow> run_status res = SKIPPED)"
proof -
  have c: "planning cfg = cfg" using assms(1) by (simp add: planning_def)
  have "runs same_runtime (run_once ox (planning cfg))"
    by (rule run_once_tail [OF plan_only.runs_until_published])
       (auto intro: runtime_order.step_order_axioms rest_same [THEN conjunct2])
  then have s: "same_runtime n t" unfolding c using assms(2) by (rule runsD)
  have ex: "execute_plan ox cfg plan s files m = (Inr e, m') \<Longrightarrow> ex_status e = SKIPPED" for plan s files m e m'
    using assms(1) by (auto simp: execute_plan_def)
  have "run_status res = SKIPPED" if r: "r = Inr res" for res
  proof -
    obtain s plan e report n1 where until: "run_until_published ox cfg n = (Inr (s, plan, e, report), n1)"
      and st: "run_status res = ex_status e"
      using assms(2) unfolding r run_once_def Let_def by (auto simp: seq_Inr)
    have "ex_status e = SKIPPED"
      using until unfolding run_until_published_def Let_def split_def by (auto simp: seq_Inr ex)
    then show ?thesis using st by simp
  qed
  then show ?thesis using s by (auto simp: same_runtime_def split: sum.splits)
qed

lemma example_plan_returns: "\<not> isl (fst (run_once example_outside (example_run PLAN_ONLY) example_node))"
  by code_simp

theorem plan_only_changes_nothing_witness:
  "\<exists>res t. run_once example_outside (example_run PLAN_ONLY) example_node = (Inr res, t) \<and>
           run_status res = SKIPPED \<and> no_defs t = []"
proof -
  obtain r t where run: "run_once example_outside (example_run PLAN_ONLY) example_node = (r, t)" by fastforce
  then obtain res where r: "r = Inr res" using example_plan_returns by (cases r) auto
  have m: "rc_mode (example_run PLAN_ONLY) = PLAN_ONLY" by (simp add: example_run_def)
  show ?thesis using plan_only_changes_nothing [OF m run] run r by (simp add: example_node_def)
qed

section \<open>A convergence that failed\<close>












end
