(* ===== verification/L3_Heal.thy ===== *)
theory L3_Heal
  imports Complex_Main Convergence_Plan Effects
begin

text \<open>
  Self-healing of run-time drift: \<open>l3_heal.py\<close> and the loop of \<open>watch.py\<close> that drives it.

  \<open>docker exec\<close> is an argument: a computation on the world that returns the exit code with the two
  outputs, or raises when the container cannot be reached.  Seconds are rationals.
\<close>

type_synonym 'w container_exec = "string \<Rightarrow> string list \<Rightarrow> ('w, int \<times> string \<times> string) eff"

section \<open>Probes and repairs\<close>

definition expected_interfaces :: "desired_state \<Rightarrow> string list" where
  "expected_interfaces s = remdups (map if_name (filter (\<lambda>i. if_kind i \<in> {WIREGUARD, DUMMY}) (ds_interfaces s)))"

definition parse_link_names :: "string \<Rightarrow> string list" where
  "parse_link_names output =
     remdups (concat (map (\<lambda>line. case words line of [] \<Rightarrow> [] | w # _ \<Rightarrow> [before_first CHR ''@'' w]) (splitlines output)))"

definition probe_links :: "string list" where
  "probe_links = [''ip'', ''-br'', ''link'', ''show'']"

definition probe_bird :: "string list" where
  "probe_bird = [''birdc'', ''show'', ''status'']"

definition apply_all_wg :: "string list" where
  "apply_all_wg = [''sh'', ''/opt/dn42/scripts/wg/apply-all-wg.sh'']"

definition apply_bird :: "string list" where
  "apply_bird = [''sh'', ''/opt/dn42/scripts/bird/apply-bird.sh'']"

definition present_interfaces :: "'w container_exec \<Rightarrow> string \<Rightarrow> ('w, string list option) eff" where
  "present_interfaces run c =
     catching (seq (run c probe_links) (\<lambda>(rc, out, _). ret (if rc \<noteq> 0 then None else Some (parse_link_names out))))
       (\<lambda>_. ret None)"

definition bird_alive :: "'w container_exec \<Rightarrow> string \<Rightarrow> ('w, bool option) eff" where
  "bird_alive run c =
     catching (seq (run c probe_bird) (\<lambda>(rc, _, _). ret (Some (rc = 0)))) (\<lambda>_. ret None)"

definition heal_run :: "'w container_exec \<Rightarrow> string \<Rightarrow> string list \<Rightarrow> ('w, bool) eff" where
  "heal_run run c cmd = catching (seq (run c cmd) (\<lambda>(rc, _, _). ret (rc = 0))) (\<lambda>_. ret False)"

section \<open>One round\<close>

text \<open>The keys of the summary that may be absent are options; \<open>bird_dead\<close> is only ever stored as true.\<close>

record heal_summary =
  hs_missing_interfaces :: "string list option"
  hs_interfaces_healed :: "bool option"
  hs_bird_dead :: bool
  hs_bird_healed :: "bool option"
  hs_healed :: bool

definition absent :: "string list \<Rightarrow> string list \<Rightarrow> string list" where
  "absent expected present = sort (filter (\<lambda>n. n \<notin> set present) expected)"

definition heal_interfaces :: "'w container_exec \<Rightarrow> desired_state \<Rightarrow> ('w, (string list \<times> bool) option) eff" where
  "heal_interfaces run s =
     (case service_container_by_role s WG_GATEWAY of
        None \<Rightarrow> ret None
      | Some wg \<Rightarrow>
          if expected_interfaces s = [] then ret None
          else seq (present_interfaces run wg) (\<lambda>present.
            case present of
              None \<Rightarrow> ret None
            | Some names \<Rightarrow>
                let missing = absent (expected_interfaces s) names in
                if missing = [] then ret None
                else seq (heal_run run wg apply_all_wg) (\<lambda>ok.
                     seq (present_interfaces run wg) (\<lambda>after.
                       let still = absent (expected_interfaces s) (case after of None \<Rightarrow> [] | Some ns \<Rightarrow> ns) in
                       ret (Some (missing, ok \<and> still = []))))))"

definition heal_bird :: "'w container_exec \<Rightarrow> desired_state \<Rightarrow> ('w, bool option) eff" where
  "heal_bird run s =
     (case service_container_by_role s BIRD_ROUTER of
        None \<Rightarrow> ret None
      | Some bird \<Rightarrow>
          seq (bird_alive run bird) (\<lambda>alive.
            if alive \<noteq> Some False then ret None
            else seq (heal_run run bird apply_bird) (\<lambda>ok.
                 if ok then seq (bird_alive run bird) (\<lambda>again. ret (Some (again = Some True)))
                 else ret (Some False))))"

definition heal_l3_drift :: "'w container_exec \<Rightarrow> desired_state option res \<Rightarrow> ('w, heal_summary option) eff" where
  "heal_l3_drift run cached =
     seq (lift_res cached) (\<lambda>state.
       case state of
         None \<Rightarrow> ret None
       | Some s \<Rightarrow>
           seq (heal_interfaces run s) (\<lambda>ifs.
           seq (heal_bird run s) (\<lambda>bird.
             if ifs = None \<and> bird = None then ret None
             else ret (Some \<lparr>hs_missing_interfaces = map_option fst ifs, hs_interfaces_healed = map_option snd ifs,
                             hs_bird_dead = (bird \<noteq> None), hs_bird_healed = bird,
                             hs_healed = ((case ifs of None \<Rightarrow> True | Some (_, ok) \<Rightarrow> ok) \<and>
                                          (case bird of None \<Rightarrow> True | Some ok \<Rightarrow> ok))\<rparr>))))"

section \<open>The circuit\<close>

datatype heal_signal = Escalate | Recovered

record heal_circuit =
  hc_base :: rat
  hc_threshold :: int
  hc_max_backoff :: rat
  hc_failures :: int
  hc_escalated :: bool

definition new_circuit :: "rat \<Rightarrow> int \<Rightarrow> rat \<Rightarrow> heal_circuit" where
  "new_circuit base threshold max_backoff =
     \<lparr>hc_base = base, hc_threshold = threshold, hc_max_backoff = max_backoff, hc_failures = 0, hc_escalated = False\<rparr>"

definition circuit_record :: "bool \<Rightarrow> heal_circuit \<Rightarrow> heal_signal option \<times> heal_circuit" where
  "circuit_record success c =
     (if success
      then (if hc_escalated c then Some Recovered else None, c\<lparr>hc_failures := 0, hc_escalated := False\<rparr>)
      else let c' = c\<lparr>hc_failures := hc_failures c + 1\<rparr> in
           if hc_failures c' \<ge> hc_threshold c' \<and> \<not> hc_escalated c'
           then (Some Escalate, c'\<lparr>hc_escalated := True\<rparr>)
           else (None, c'))"

definition circuit_backoff :: "heal_circuit \<Rightarrow> rat" where
  "circuit_backoff c =
     (if hc_failures c = 0 then hc_base c
      else min (hc_base c * 2 ^ nat (min (hc_failures c) 6)) (hc_max_backoff c))"

text \<open>One turn of \<open>_l3_heal_loop\<close>: the outcome that is recorded, the signal it raises and the wait that follows.\<close>

definition heal_outcome :: "heal_summary option res \<Rightarrow> bool" where
  "heal_outcome r = (case r of Inl _ \<Rightarrow> False | Inr None \<Rightarrow> True | Inr (Some s) \<Rightarrow> hs_healed s)"

definition heal_once :: "'w container_exec \<Rightarrow> string option \<Rightarrow> (string \<Rightarrow> desired_state option res) \<Rightarrow> 'w \<Rightarrow> bool \<times> 'w" where
  "heal_once run node_id cache w =
     (case node_id of
        None \<Rightarrow> (True, w)
      | Some n \<Rightarrow> (case heal_l3_drift run (cache n) w of (r, w') \<Rightarrow> (heal_outcome r, w')))"

definition heal_turn :: "heal_circuit \<Rightarrow> bool \<Rightarrow> (heal_signal option \<times> rat) \<times> heal_circuit" where
  "heal_turn c ok = (case circuit_record ok c of (signal, c') \<Rightarrow> ((signal, circuit_backoff c'), c'))"

fun heal_turns :: "heal_circuit \<Rightarrow> bool list \<Rightarrow> (heal_signal option \<times> rat) list" where
  "heal_turns c [] = []"
| "heal_turns c (ok # oks) = (case heal_turn c ok of (out, c') \<Rightarrow> out # heal_turns c' oks)"

section \<open>What a round reports is true\<close>

definition links_missing :: "'w container_exec \<Rightarrow> desired_state \<Rightarrow> 'w \<Rightarrow> bool" where
  "links_missing run s w =
     (case service_container_by_role s WG_GATEWAY of
        None \<Rightarrow> False
      | Some wg \<Rightarrow> (case fst (present_interfaces run wg w) of
            Inr (Some names) \<Rightarrow> absent (expected_interfaces s) names \<noteq> [] | _ \<Rightarrow> False))"

definition bird_is_dead :: "'w container_exec \<Rightarrow> desired_state \<Rightarrow> 'w \<Rightarrow> bool" where
  "bird_is_dead run s w =
     (case service_container_by_role s BIRD_ROUTER of
        None \<Rightarrow> False | Some b \<Rightarrow> fst (bird_alive run b w) = Inr (Some False))"

text \<open>What is relied on: looking does not change the containers, and restarting BIRD leaves the links alone.\<close>

definition probes_only_look :: "'w container_exec \<Rightarrow> bool" where
  "probes_only_look run \<longleftrightarrow>
     (\<forall>c w. snd (run c probe_links w) = w \<and> snd (run c probe_bird w) = w) \<and>
     (\<forall>c b w. fst (run c probe_links (snd (run b apply_bird w))) = fst (run c probe_links w))"

lemma absent_Nil [simp]: "absent [] names = []"
  by (simp add: absent_def)

lemma present_interfaces_state:
  assumes "probes_only_look run"
  shows "\<exists>p. present_interfaces run c w = (Inr p, w)"
proof -
  have "snd (run c probe_links w) = w" using assms by (simp add: probes_only_look_def)
  then show ?thesis
    by (auto simp: present_interfaces_def catching_def seq_def split_def split: prod.splits sum.splits)
qed

lemma bird_alive_state:
  assumes "probes_only_look run"
  shows "\<exists>p. bird_alive run c w = (Inr p, w)"
proof -
  have "snd (run c probe_bird w) = w" using assms by (simp add: probes_only_look_def)
  then show ?thesis
    by (auto simp: bird_alive_def catching_def seq_def split_def split: prod.splits sum.splits)
qed

lemma heal_run_state: "\<exists>ok. heal_run run c cmd w = (Inr ok, snd (run c cmd w))"
  by (auto simp: heal_run_def catching_def seq_def split_def split: prod.splits sum.splits)

lemma links_after_bird:
  assumes "probes_only_look run"
  shows "fst (present_interfaces run c (snd (run b apply_bird w))) = fst (present_interfaces run c w)"
proof -
  have "fst (run c probe_links (snd (run b apply_bird w))) = fst (run c probe_links w)"
    using assms unfolding probes_only_look_def by blast
  then show ?thesis
    by (auto simp: present_interfaces_def catching_def seq_def split_def split: prod.splits sum.splits)
qed

lemma heal_interfaces_cases:
  assumes look: "probes_only_look run"
  obtains "heal_interfaces run s w = (Inr None, w)" "\<not> links_missing run s w"
  | missing ok w' where "heal_interfaces run s w = (Inr (Some (missing, ok)), w')"
      "links_missing run s w" "ok \<Longrightarrow> \<not> links_missing run s w'"
proof (cases "service_container_by_role s WG_GATEWAY")
  case None
  then show ?thesis using that(1) by (simp add: heal_interfaces_def links_missing_def)
next
  case (Some wg)
  obtain p where p: "present_interfaces run wg w = (Inr p, w)" using present_interfaces_state [OF look] by blast
  show ?thesis
  proof (cases "links_missing run s w")
    case False
    then have "heal_interfaces run s w = (Inr None, w)"
      using p Some by (auto simp: heal_interfaces_def links_missing_def seq_def Let_def split: option.splits)
    then show ?thesis using that(1) False by blast
  next
    case True
    then obtain names where names: "p = Some names" "absent (expected_interfaces s) names \<noteq> []"
      using p Some by (auto simp: links_missing_def split: option.splits)
    have ne: "expected_interfaces s \<noteq> []" using names(2) by (auto simp: absent_def)
    let ?w = "snd (run wg apply_all_wg w)"
    obtain ok where ok: "heal_run run wg apply_all_wg w = (Inr ok, ?w)" using heal_run_state [of run wg apply_all_wg w] by (rule exE)
    obtain q where q: "present_interfaces run wg ?w = (Inr q, ?w)" using present_interfaces_state [OF look] by blast
    let ?still = "absent (expected_interfaces s) (case q of None \<Rightarrow> [] | Some ns \<Rightarrow> ns)"
    have "heal_interfaces run s w = (Inr (Some (absent (expected_interfaces s) names, ok \<and> ?still = [])), ?w)"
      using p q ok Some names ne by (simp add: heal_interfaces_def seq_def Let_def)
    moreover have "ok \<and> ?still = [] \<Longrightarrow> \<not> links_missing run s ?w"
      using q Some by (auto simp: links_missing_def split: option.splits)
    ultimately show ?thesis using that(2) True by blast
  qed
qed

lemma heal_bird_cases:
  assumes look: "probes_only_look run"
  obtains "heal_bird run s w = (Inr None, w)" "\<not> bird_is_dead run s w"
  | ok b where "heal_bird run s w = (Inr (Some ok), snd (run b apply_bird w))"
      "bird_is_dead run s w" "ok \<Longrightarrow> \<not> bird_is_dead run s (snd (run b apply_bird w))"
proof (cases "service_container_by_role s BIRD_ROUTER")
  case None
  then show ?thesis using that(1) by (simp add: heal_bird_def bird_is_dead_def)
next
  case (Some b)
  obtain p where p: "bird_alive run b w = (Inr p, w)" using bird_alive_state [OF look] by blast
  show ?thesis
  proof (cases "bird_is_dead run s w")
    case False
    then have "heal_bird run s w = (Inr None, w)"
      using p Some by (simp add: heal_bird_def bird_is_dead_def seq_def)
    then show ?thesis using that(1) False by blast
  next
    case True
    then have dead: "p = Some False" using p Some by (simp add: bird_is_dead_def)
    let ?w = "snd (run b apply_bird w)"
    obtain ok where ok: "heal_run run b apply_bird w = (Inr ok, ?w)" using heal_run_state [of run b apply_bird w] by (rule exE)
    obtain q where q: "bird_alive run b ?w = (Inr q, ?w)" using bird_alive_state [OF look] by blast
    have "heal_bird run s w = (Inr (Some (ok \<and> q = Some True)), ?w)"
      using p q ok dead Some by (simp add: heal_bird_def seq_def)
    moreover have "ok \<and> q = Some True \<Longrightarrow> \<not> bird_is_dead run s ?w"
      using q Some by (simp add: bird_is_dead_def)
    ultimately show ?thesis using that(2) True by blast
  qed
qed

text \<open>C33: A healing round says what it did.  When probing does not disturb the containers and applying the BIRD
  configuration leaves the links that are up as they are (\<open>probes_only_look\<close>), a round on a cached state reports nothing exactly when it saw neither a missing interface nor a dead BIRD, and then
  has changed nothing; and a report that says healed is true: after the round, no expected interface is
  seen missing and BIRD is not seen dead.\<close>

theorem heal_report_true:
  assumes "probes_only_look run" "heal_l3_drift run (Inr (Some s)) w = (r, w')"
  shows "\<exists>report. r = Inr report \<and>
     (report = None \<longleftrightarrow> \<not> links_missing run s w \<and> \<not> bird_is_dead run s w) \<and>
     (report = None \<longrightarrow> w' = w) \<and>
     (\<forall>h. report = Some h \<and> hs_healed h \<longrightarrow> \<not> links_missing run s w' \<and> \<not> bird_is_dead run s w')"
proof -
  have stable: "links_missing run s (snd (run b apply_bird v)) = links_missing run s v" for b v
    by (simp add: links_missing_def links_after_bird [OF assms(1)] split: option.splits)
  have eq: "heal_l3_drift run (Inr (Some s)) w =
    seq (heal_interfaces run s) (\<lambda>ifs. seq (heal_bird run s) (\<lambda>bird.
      if ifs = None \<and> bird = None then ret None
      else ret (Some \<lparr>hs_missing_interfaces = map_option fst ifs, hs_interfaces_healed = map_option snd ifs,
                      hs_bird_dead = (bird \<noteq> None), hs_bird_healed = bird,
                      hs_healed = ((case ifs of None \<Rightarrow> True | Some (_, ok) \<Rightarrow> ok) \<and>
                                   (case bird of None \<Rightarrow> True | Some ok \<Rightarrow> ok))\<rparr>))) w"
    by (simp add: heal_l3_drift_def seq_def)
  show ?thesis
  proof (cases rule: heal_interfaces_cases [OF assms(1), of s w])
    case 1
    show ?thesis
      by (cases rule: heal_bird_cases [OF assms(1), of s w])
         (use assms(2) 1 in \<open>auto simp: eq seq_def stable\<close>)
  next
    case (2 missing ok v)
    show ?thesis
      by (cases rule: heal_bird_cases [OF assms(1), of s v])
         (use assms(2) 2 in \<open>auto simp: eq seq_def stable\<close>)
  qed
qed

text \<open>A container whose BIRD is down until it is restarted; the restart raises when the container is gone.\<close>

definition example_exec :: "bool container_exec" where
  "example_exec c cmd up =
     (if cmd = apply_bird then (Inr (0, [], []), True)
      else if cmd = probe_bird then (Inr (if up then 0 else 1, [], []), up)
      else (Inl (RuntimeError ''unreachable''), up))"

lemma example_exec_looks: "probes_only_look example_exec"
  by (simp add: probes_only_look_def example_exec_def probe_links_def probe_bird_def apply_bird_def)

lemma example_bird_container: "service_container_by_role example_normalised BIRD_ROUTER \<noteq> None"
  by code_simp

theorem heal_report_true_witness:
  "\<exists>report. fst (heal_l3_drift example_exec (Inr (Some example_normalised)) False) = Inr (Some report)"
proof -
  obtain b where "service_container_by_role example_normalised BIRD_ROUTER = Some b"
    using example_bird_container by blast
  then have dead: "bird_is_dead example_exec example_normalised False"
    by (simp add: bird_is_dead_def bird_alive_def example_exec_def probe_bird_def apply_bird_def catching_def seq_def)
  obtain r w' where r: "heal_l3_drift example_exec (Inr (Some example_normalised)) False = (r, w')" by fastforce
  show ?thesis using heal_report_true [OF example_exec_looks r] dead r by auto
qed

section \<open>What the circuit signals\<close>

text \<open>The length of the run of failures that ends a history.\<close>

definition streak :: "bool list \<Rightarrow> nat" where
  "streak oks = length (takeWhile Not (rev oks))"

definition circuit_after :: "heal_circuit \<Rightarrow> bool list \<Rightarrow> heal_circuit" where
  "circuit_after c oks = foldl (\<lambda>c ok. snd (heal_turn c ok)) c oks"

lemma streak_snoc: "streak (oks @ [ok]) = (if ok then 0 else Suc (streak oks))"
  by (simp add: streak_def)

lemma heal_turns_length: "length (heal_turns c oks) = length oks"
  by (induction oks arbitrary: c) (auto split: prod.splits)

lemma heal_turns_nth:
  "i < length oks \<Longrightarrow> heal_turns c oks ! i = fst (heal_turn (circuit_after c (take i oks)) (oks ! i))"
proof (induction oks arbitrary: c i)
  case (Cons ok oks)
  then show ?case by (cases i) (auto simp: circuit_after_def split: prod.splits)
qed simp

text \<open>The circuit is open exactly after \<open>threshold\<close> failures in a row.\<close>

definition circuit_ok :: "rat \<Rightarrow> int \<Rightarrow> rat \<Rightarrow> heal_circuit \<Rightarrow> bool" where
  "circuit_ok b t m c \<longleftrightarrow>
     hc_base c = b \<and> hc_threshold c = t \<and> hc_max_backoff c = m \<and> 0 \<le> hc_failures c \<and>
     hc_escalated c = (max 1 t \<le> hc_failures c)"

interpretation circuit: invariant_machine "\<lambda>c ok. snd (heal_turn c ok)" "circuit_ok b t m" for b t m
  by unfold_locales (auto simp: circuit_ok_def heal_turn_def circuit_record_def Let_def split: if_splits)

lemma circuit_after_ok: "circuit_ok b t m (circuit_after (new_circuit b t m) oks)"
  unfolding circuit_after_def by (rule circuit.run_inv) (simp add: circuit_ok_def new_circuit_def)

lemma circuit_after_failures: "hc_failures (circuit_after (new_circuit b t m) oks) = int (streak oks)"
proof (induction oks rule: rev_induct)
  case Nil
  show ?case by (simp add: circuit_after_def new_circuit_def streak_def)
next
  case (snoc ok oks)
  then show ?case
    by (auto simp: streak_snoc circuit_after_def heal_turn_def circuit_record_def Let_def)
qed

text \<open>C34: The operator is called exactly once per outage.  Over any history of rounds, a turn signals
  escalation exactly when its failure is the threshold-th in a row (the first for a threshold below one),
  recovery exactly at the success that ends a run at least that long, and nothing otherwise; the wait
  that follows is the base interval after a success and otherwise doubles with each failure, at most six
  times and up to the limit.\<close>

theorem circuit_signals_exact:
  assumes "i < length oks"
  defines "k \<equiv> streak (take (Suc i) oks)"
  shows "heal_turns (new_circuit b t m) oks ! i =
     ((if \<not> oks ! i then (if int k = max 1 t then Some Escalate else None)
       else if max 1 t \<le> int (streak (take i oks)) then Some Recovered else None),
      (if k = 0 then b else min (b * 2 ^ min k 6) m))"
proof -
  let ?c = "circuit_after (new_circuit b t m) (take i oks)"
  have ok: "circuit_ok b t m ?c" by (rule circuit_after_ok)
  have f: "hc_failures ?c = int (streak (take i oks))" by (rule circuit_after_failures)
  have k: "k = (if oks ! i then 0 else Suc (streak (take i oks)))"
    using assms by (simp add: take_Suc_conv_app_nth streak_snoc)
  have e: "nat (min (int (streak (take i oks)) + 1) 6) = min (Suc (streak (take i oks))) 6" by simp
  show ?thesis
    unfolding heal_turns_nth [OF assms(1)]
    using ok f k e
    by (auto simp: heal_turn_def circuit_record_def circuit_backoff_def circuit_ok_def Let_def min_def max_def)
qed

theorem circuit_signals_exact_witness:
  "heal_turns (new_circuit 60 3 600) [False, False, False, False, True] ! 2 = (Some Escalate, 480)"
  using circuit_signals_exact [of 2 "[False, False, False, False, True]" 60 3 600]
  by (simp add: streak_def)

text \<open>Waits stay within bounds.  With a base interval between zero and the limit, every wait of the loop
  lies between the base interval and the limit, and within a run of failures waits never shrink.\<close>

theorem circuit_wait_bounds:
  assumes "0 \<le> b" "b \<le> m" "i < length oks"
  shows "b \<le> snd (heal_turns (new_circuit b t m) oks ! i) \<and> snd (heal_turns (new_circuit b t m) oks ! i) \<le> m \<and>
         (Suc i < length oks \<and> \<not> oks ! Suc i \<longrightarrow>
            snd (heal_turns (new_circuit b t m) oks ! i) \<le> snd (heal_turns (new_circuit b t m) oks ! Suc i))"
proof -
  define wait where "wait k = (if k = 0 then b else min (b * 2 ^ min k 6) m)" for k :: nat
  have nth: "snd (heal_turns (new_circuit b t m) oks ! j) = wait (streak (take (Suc j) oks))" if j: "j < length oks" for j
  proof -
    let ?c = "circuit_after (new_circuit b t m) (take (Suc j) oks)"
    have c: "?c = snd (heal_turn (circuit_after (new_circuit b t m) (take j oks)) (oks ! j))"
      using j by (simp add: take_Suc_conv_app_nth circuit_after_def)
    have "snd (heal_turns (new_circuit b t m) oks ! j) = circuit_backoff ?c"
      unfolding heal_turns_nth [OF j] c by (simp add: heal_turn_def split_def)
    moreover have "nat (min (int (streak (take (Suc j) oks))) 6) = min (streak (take (Suc j) oks)) 6" by simp
    ultimately show ?thesis
      using circuit_after_ok [of b t m "take (Suc j) oks"] circuit_after_failures [of b t m "take (Suc j) oks"]
      by (simp add: circuit_backoff_def wait_def circuit_ok_def)
  qed
  have pow: "b \<le> b * 2 ^ n" for n
    using assms(1) mult_left_mono [of 1 "2 ^ n" b] by simp
  have "b * 2 ^ min k 6 \<le> b * 2 ^ min (Suc k) 6" for k
    using assms(1) by (intro mult_left_mono power_increasing) auto
  then have mono: "wait k \<le> wait (Suc k)" for k
    using assms(2) pow [of 1] by (auto simp: wait_def min_le_iff_disj)
  have range: "b \<le> wait k \<and> wait k \<le> m" for k
    using assms(2) pow by (simp add: wait_def)
  show ?thesis
  proof (intro conjI impI)
    show "b \<le> snd (heal_turns (new_circuit b t m) oks ! i)" "snd (heal_turns (new_circuit b t m) oks ! i) \<le> m"
      using range nth [OF assms(3)] by simp_all
  next
    assume s: "Suc i < length oks \<and> \<not> oks ! Suc i"
    have "streak (take (Suc (Suc i)) oks) = Suc (streak (take (Suc i) oks))"
      using s by (simp add: take_Suc_conv_app_nth [of "Suc i"] streak_snoc)
    then show "snd (heal_turns (new_circuit b t m) oks ! i) \<le> snd (heal_turns (new_circuit b t m) oks ! Suc i)"
      using nth [of i] nth [of "Suc i"] s assms(3) mono by simp
  qed
qed

theorem circuit_wait_bounds_witness: "snd (heal_turns (new_circuit 60 3 600) [False, False] ! 1) \<le> 600"
  using circuit_wait_bounds [of 60 600 1 "[False, False]" 3] by simp

text \<open>With a base interval above the limit a failing round is repeated sooner than a healthy one.\<close>

lemma backoff_below_base: "map snd (heal_turns (new_circuit 900 3 600) [True, False]) = [900, 600]"
  by (simp add: new_circuit_def heal_turn_def circuit_record_def circuit_backoff_def Let_def)

end
