(* ===== verification/Watch.thy ===== *)
theory Watch
  imports Complex_Main Agent_Session L3_Heal
begin

text \<open>
  The resident agent: the two tasks of \<open>watch.py\<close> and the doorbell between them.

  The client task reads events and rings, the consumer task reconciles.  They run on one event loop,
  so a step of the model is what happens between two awaits, and the steps of the two tasks, the stop
  signal and the expiry of the fallback interval interleave freely.
\<close>

section \<open>The doorbell\<close>

text \<open>\<open>reasons\<close> is a set; its elements are kept once each.\<close>

record doorbell =
  db_reasons :: "string list"
  db_wake :: bool

definition ring :: "string \<Rightarrow> doorbell \<Rightarrow> doorbell" where
  "ring reason b = \<lparr>db_reasons = List.insert reason (db_reasons b), db_wake = True\<rparr>"

definition drain :: "doorbell \<Rightarrow> string list \<times> doorbell" where
  "drain b = (db_reasons b, \<lparr>db_reasons = [], db_wake = False\<rparr>)"

section \<open>Events\<close>

definition event_get :: "string \<Rightarrow> (string \<times> json) list \<Rightarrow> json" where
  "event_get k ev = (case map_of ev k of Some v \<Rightarrow> v | None \<Rightarrow> JNull)"

text \<open>\<open>isinstance(generation, int)\<close>: a Boolean is an int in Python.\<close>

definition json_int :: "json \<Rightarrow> int option" where
  "json_int v = (case v of JInt n \<Rightarrow> Some n | JBool b \<Rightarrow> Some (if b then 1 else 0) | _ \<Rightarrow> None)"

text \<open>The reason to ring for, if any; reading the applied generation may raise.\<close>

definition dispatch_event :: "json \<Rightarrow> int option res \<Rightarrow> string option res" where
  "dispatch_event event applied_generation =
     (case event of
        JObj ev \<Rightarrow>
          if event_get ''type'' ev = JStr ''snapshot_request'' then Inr (Some ''snapshot_request'')
          else if event_get ''type'' ev = JStr ''desired_state_updated'' then
            rbind applied_generation (\<lambda>applied.
              case (json_int (event_get ''generation'' ev), applied) of
                (Some generation, Some a) \<Rightarrow>
                  if generation \<le> a then Inr None else Inr (Some ''desired_state_updated'')
              | _ \<Rightarrow> Inr (Some ''desired_state_updated''))
          else if event_get ''type'' ev = JStr ''hello'' then
            rbind applied_generation (\<lambda>applied.
              case json_int (event_get ''generation'' ev) of
                None \<Rightarrow> Inr None
              | Some generation \<Rightarrow>
                  (case applied of
                     None \<Rightarrow> Inr (Some ''hello-catchup'')
                   | Some a \<Rightarrow> Inr (if a < generation then Some ''hello-catchup'' else None)))
          else Inr None
      | _ \<Rightarrow> Inr None)"

section \<open>The consumer\<close>

text \<open>Where the consumer is: at the head of its loop, in \<open>wait_for\<close>, in the debounce window, inside a
  reconcile (the flag tells the one after the loop), or done.\<close>

datatype phase = Head | Waiting | Debouncing | Running bool | Left

datatype watch_event =
    Dispatched json "int option res"
  | Stop
  | Awaits
  | Woken_By_Stop
  | Debounces
  | Started string "string list"
  | Ended
  | Returned

record watch =
  wa_bell :: doorbell
  wa_stop :: bool
  wa_phase :: phase

definition event_reason :: "string list \<Rightarrow> string" where
  "event_reason reasons = ''event:'' @ join ''+'' (sort reasons)"

definition start_drained :: "bool \<Rightarrow> watch \<Rightarrow> watch_event \<times> watch" where
  "start_drained final s =
     (case drain (wa_bell s) of
        (reasons, b) \<Rightarrow> (Started (event_reason reasons) reasons, s\<lparr>wa_bell := b, wa_phase := Running final\<rparr>))"

text \<open>The consumer's own next step, if it is not blocked.\<close>

definition consumer_step :: "rat \<Rightarrow> watch \<Rightarrow> (watch_event \<times> watch) option" where
  "consumer_step debounce_seconds s =
     (case wa_phase s of
        Head \<Rightarrow>
          if \<not> wa_stop s then Some (Awaits, s\<lparr>wa_phase := Waiting\<rparr>)
          else if db_wake (wa_bell s) then Some (start_drained True s)
          else Some (Returned, s\<lparr>wa_phase := Left\<rparr>)
      | Waiting \<Rightarrow>
          if db_wake (wa_bell s)
          then if 0 < debounce_seconds then Some (Debounces, s\<lparr>wa_phase := Debouncing\<rparr>)
               else Some (start_drained False s)
          else if wa_stop s then Some (Woken_By_Stop, s\<lparr>wa_phase := Head\<rparr>)
          else None
      | Debouncing \<Rightarrow> Some (start_drained False s)
      | Running final \<Rightarrow> Some (Ended, s\<lparr>wa_phase := (if final then Left else Head)\<rparr>)
      | Left \<Rightarrow> None)"

definition ring_opt :: "string option res \<Rightarrow> watch \<Rightarrow> watch" where
  "ring_opt r s = (case r of Inr (Some reason) \<Rightarrow> s\<lparr>wa_bell := ring reason (wa_bell s)\<rparr> | _ \<Rightarrow> s)"

inductive watch_step :: "rat \<Rightarrow> watch \<Rightarrow> watch_event \<Rightarrow> watch \<Rightarrow> bool" for d where
  dispatched: "watch_step d s (Dispatched ev applied) (ring_opt (dispatch_event ev applied) s)"
| stopped: "watch_step d s Stop (s\<lparr>wa_stop := True\<rparr>)"
| timed_out: "wa_phase s = Waiting \<Longrightarrow>
     watch_step d s (Started ''fallback-interval'' []) (s\<lparr>wa_phase := Running False\<rparr>)"
| consumed: "consumer_step d s = Some (e, s') \<Longrightarrow> watch_step d s e s'"

inductive_simps watch_step_simps: "watch_step d s (Dispatched ev g) t" "watch_step d s Stop t"
inductive_cases watch_stepE: "watch_step d s e t"

definition new_watch :: watch where
  "new_watch = \<lparr>wa_bell = \<lparr>db_reasons = [], db_wake = False\<rparr>, wa_stop = False, wa_phase = Head\<rparr>"

inductive watch_steps :: "rat \<Rightarrow> watch \<Rightarrow> watch_event list \<Rightarrow> watch \<Rightarrow> bool" for d s where
  begins: "watch_steps d s [] s"
| extends: "watch_steps d s tr t \<Longrightarrow> watch_step d t e u \<Longrightarrow> watch_steps d s (tr @ [e]) u"

fun consumer_events :: "rat \<Rightarrow> nat \<Rightarrow> watch \<Rightarrow> watch_event list" where
  "consumer_events d 0 s = []"
| "consumer_events d (Suc n) s =
     (case consumer_step d s of None \<Rightarrow> [] | Some (e, s') \<Rightarrow> e # consumer_events d n s')"

section \<open>The client\<close>

definition resolve_node_id :: "agent_config \<Rightarrow> ('w, 'z) agent_scheme \<Rightarrow> string option" where
  "resolve_node_id cfg s =
     (case cfg_requested_node_id cfg of
        Some n \<Rightarrow> Some n
      | None \<Rightarrow> (case ag_nodes s of [n] \<Rightarrow> Some n | _ \<Rightarrow> None))"

text \<open>What one turn of \<open>_client_loop\<close> comes to: no identity yet, or a connection that ended or broke.\<close>

datatype client_attempt = Unresolved | No_Credentials | Connect string string

definition next_attempt :: "agent_config \<Rightarrow> ('w, 'z) agent_scheme \<Rightarrow> client_attempt" where
  "next_attempt cfg s =
     (case resolve_node_id cfg s of
        None \<Rightarrow> Unresolved
      | Some n \<Rightarrow> (case (id_node (load_identity s n), id_token (load_identity s n)) of
            (Some node, Some token) \<Rightarrow> Connect node token | _ \<Rightarrow> No_Credentials))"

datatype turn_outcome = Not_Ready | Stream_Ended | Stream_Failed

text \<open>The wait before the next turn, if any, and the next backoff.\<close>

definition client_turn :: "rat \<Rightarrow> rat \<Rightarrow> rat \<Rightarrow> turn_outcome \<Rightarrow> rat option \<times> rat" where
  "client_turn initial_backoff max_backoff backoff outcome =
     (case outcome of
        Stream_Ended \<Rightarrow> (None, initial_backoff)
      | _ \<Rightarrow> (Some backoff, min (backoff * 2) max_backoff))"

fun client_waits :: "rat \<Rightarrow> rat \<Rightarrow> rat \<Rightarrow> turn_outcome list \<Rightarrow> rat option list" where
  "client_waits i m b [] = []"
| "client_waits i m b (x # xs) = (case client_turn i m b x of (w, b') \<Rightarrow> w # client_waits i m b' xs)"

section \<open>Rings are answered\<close>

definition bell_ok :: "watch \<Rightarrow> bool" where
  "bell_ok s \<longleftrightarrow> (db_wake (wa_bell s) \<longleftrightarrow> db_reasons (wa_bell s) \<noteq> [])"

lemma ring_simps [simp]:
  "db_wake (ring r b)" "set (db_reasons (ring r b)) = insert r (set (db_reasons b))"
  by (simp_all add: ring_def)

lemma ring_opt_simps [simp]:
  "wa_phase (ring_opt r s) = wa_phase s" "wa_stop (ring_opt r s) = wa_stop s"
  by (simp_all add: ring_opt_def split: sum.splits option.splits)

lemma start_drained_simps [simp]:
  "start_drained f s = (Started (event_reason (db_reasons (wa_bell s))) (db_reasons (wa_bell s)),
     s\<lparr>wa_bell := \<lparr>db_reasons = [], db_wake = False\<rparr>, wa_phase := Running f\<rparr>)"
  by (simp add: start_drained_def drain_def)

lemma bell_ok_ring: "bell_ok s \<Longrightarrow> bell_ok (ring_opt r s)"
  by (auto simp: bell_ok_def ring_opt_def ring_def List.insert_def split: sum.splits option.splits)

lemma bell_ok_consumer: "bell_ok s \<Longrightarrow> consumer_step d s = Some (e, t) \<Longrightarrow> bell_ok t"
  by (auto simp: bell_ok_def consumer_step_def split: phase.splits if_splits)

lemma bell_ok_step: "watch_step d s e t \<Longrightarrow> bell_ok s \<Longrightarrow> bell_ok t"
  by (erule watch_stepE) (simp_all add: bell_ok_ring bell_ok_consumer, simp_all add: bell_ok_def)

lemma bell_ok_steps: "watch_steps d s tr t \<Longrightarrow> bell_ok s \<Longrightarrow> bell_ok t"
  by (induction rule: watch_steps.induct) (simp_all add: bell_ok_step)

lemma bell_ok_new: "bell_ok new_watch"
  by (simp add: bell_ok_def new_watch_def)

text \<open>A reason in the bell stays there until a reconcile takes it.\<close>

definition answered :: "string \<Rightarrow> watch_event list \<Rightarrow> bool" where
  "answered r tr \<longleftrightarrow> (\<exists>why reasons. Started why reasons \<in> set tr \<and> r \<in> set reasons)"

definition pending_ring :: "string \<Rightarrow> watch \<Rightarrow> bool" where
  "pending_ring r s \<longleftrightarrow> r \<in> set (db_reasons (wa_bell s))"

lemma answered_snoc: "answered r tr \<Longrightarrow> answered r (tr @ [e])"
  by (auto simp: answered_def)

lemma pending_consumer:
  assumes "consumer_step d s = Some (e, t)" "pending_ring r s"
  shows "answered r [e] \<or> pending_ring r t"
  using assms by (auto simp: consumer_step_def answered_def pending_ring_def split: phase.splits if_splits)

lemma pending_step: "watch_step d s e t \<Longrightarrow> pending_ring r s \<Longrightarrow> answered r [e] \<or> pending_ring r t"
proof (erule watch_stepE)
  fix ev g
  assume "pending_ring r s" "t = ring_opt (dispatch_event ev g) s"
  then show "answered r [e] \<or> pending_ring r t"
    by (auto simp: pending_ring_def ring_opt_def split: sum.splits option.splits)
next
  assume "consumer_step d s = Some (e, t)" "pending_ring r s"
  then show "answered r [e] \<or> pending_ring r t" by (rule pending_consumer)
qed (auto simp: pending_ring_def)

text \<open>While the consumer has not begun its last turn, no ring gets lost.\<close>

definition closing :: "watch \<Rightarrow> bool" where
  "closing s \<longleftrightarrow> wa_phase s = Left \<or> wa_phase s = Running True"

lemma closing_consumer:
  assumes "consumer_step d s = Some (e, t)"
  shows "wa_stop t = wa_stop s" "closing t \<Longrightarrow> closing s \<or> wa_stop s"
    and "closing t \<Longrightarrow> \<not> closing s \<Longrightarrow> db_wake (wa_bell s) \<Longrightarrow> pending_ring r s \<Longrightarrow> answered r [e]"
  using assms
  by (cases "wa_phase s"; auto simp: closing_def consumer_step_def answered_def pending_ring_def split: if_splits)+

lemma closing_step:
  assumes "watch_step d s e t" "pending_ring r s" "bell_ok s" "\<not> closing s"
  shows "answered r [e] \<or> (pending_ring r t \<and> \<not> closing t)"
proof -
  have wake: "db_wake (wa_bell s)" using assms(2,3) by (auto simp: pending_ring_def bell_ok_def)
  have "closing t \<Longrightarrow> answered r [e]"
    by (rule watch_stepE [OF assms(1)])
       (use assms(2,4) wake in \<open>auto dest: closing_consumer(3) simp: closing_def\<close>)
  then show ?thesis using pending_step [OF assms(1,2)] by blast
qed

lemma closing_steps:
  "watch_steps d s ys t \<Longrightarrow> bell_ok s \<Longrightarrow> pending_ring r s \<Longrightarrow> \<not> closing s \<Longrightarrow>
   answered r ys \<or> (pending_ring r t \<and> \<not> closing t)"
proof (induction rule: watch_steps.induct)
  case (extends ys t e u)
  have "bell_ok t" using extends.hyps(1) extends.prems(1) by (rule bell_ok_steps)
  then have "pending_ring r t \<Longrightarrow> \<not> closing t \<Longrightarrow> answered r [e] \<or> (pending_ring r u \<and> \<not> closing u)"
    using closing_step [OF extends.hyps(2)] by blast
  then show ?case using extends.IH [OF extends.prems] by (auto simp: answered_def)
qed simp

text \<open>The last turn begins only after the stop signal.\<close>

lemma stop_steps:
  "watch_steps d s tr t \<Longrightarrow> s = new_watch \<Longrightarrow>
   (wa_stop t \<longrightarrow> Stop \<in> set tr) \<and> (closing t \<longrightarrow> Stop \<in> set tr)"
proof (induction rule: watch_steps.induct)
  case begins
  then show ?case by (simp add: new_watch_def closing_def)
next
  case (extends tr t e u)
  have "wa_stop u \<Longrightarrow> wa_stop t \<or> e = Stop" "closing u \<Longrightarrow> closing t \<or> wa_stop t"
    using closing_consumer [of d t e u]
    by (rule_tac [!] watch_stepE [OF extends.hyps(2)]) (auto simp: closing_def)
  then show ?case using extends by auto
qed

lemma steps_split:
  "watch_steps d s tr u \<Longrightarrow> tr = xs @ e # ys \<Longrightarrow>
   \<exists>t t'. watch_steps d s xs t \<and> watch_step d t e t' \<and> watch_steps d t' ys u"
proof (induction arbitrary: ys rule: watch_steps.induct)
  case (extends tr t f u)
  show ?case
  proof (cases ys rule: rev_cases)
    case Nil
    then show ?thesis using extends.hyps extends.prems by (auto intro: watch_steps.begins)
  next
    case (snoc zs g)
    then have "tr = xs @ e # zs" "g = f" using extends.prems by simp_all
    then show ?thesis using extends.IH [of zs] extends.hyps(2) snoc by (blast intro: watch_steps.extends)
  qed
qed simp

text \<open>No announced generation is missed.  If, before the stop signal, the agent reads an event that
  announces a generation newer than the one it has applied (an update or the hello of a new connection),
  or a snapshot request, then a reconcile that answers it starts later, unless the consumer is still on
  its way to it; in particular the consumer never leaves its loop without it.\<close>

theorem no_announced_generation_missed:
  assumes "watch_steps d new_watch (xs @ Dispatched (JObj ev) (Inr applied) # ys) s" "Stop \<notin> set xs"
    and "event_get ''type'' ev = JStr ''snapshot_request'' \<or>
         event_get ''type'' ev \<in> {JStr ''desired_state_updated'', JStr ''hello''} \<and>
           event_get ''generation'' ev = JInt g \<and> (\<forall>a. applied = Some a \<longrightarrow> a < g)"
  shows "\<exists>r. dispatch_event (JObj ev) (Inr applied) = Inr (Some r) \<and>
             (answered r ys \<or> (pending_ring r s \<and> wa_phase s \<noteq> Left))"
proof -
  obtain r where r: "dispatch_event (JObj ev) (Inr applied) = Inr (Some r)"
    using assms(3) by (cases applied) (auto simp: dispatch_event_def json_int_def)
  obtain t t' where t: "watch_steps d new_watch xs t"
    "watch_step d t (Dispatched (JObj ev) (Inr applied)) t'" "watch_steps d t' ys s"
    using steps_split [OF assms(1) refl] by blast
  have t': "t' = ring_opt (dispatch_event (JObj ev) (Inr applied)) t"
    using t(2) by (cases rule: watch_stepE) (auto simp: consumer_step_def split: phase.splits if_splits)
  have "bell_ok t'" using bell_ok_step [OF t(2) bell_ok_steps [OF t(1) bell_ok_new]] .
  moreover have "pending_ring r t'" by (simp add: t' r ring_opt_def pending_ring_def)
  moreover have "\<not> closing t'"
    using stop_steps [OF t(1) refl] assms(2) by (auto simp: t' closing_def)
  ultimately have "answered r ys \<or> (pending_ring r s \<and> \<not> closing s)" using t(3) by (intro closing_steps)
  then show ?thesis using r by (auto simp: closing_def)
qed

text \<open>A ring is answered in four moves.  From every reachable state in which a reason is pending and the
  consumer has not begun its last turn, its own next four moves, without any further event, contain the
  start of a reconcile for that reason.\<close>

theorem ring_answered_in_four_moves:
  assumes "watch_steps d new_watch tr s" "pending_ring r s" "wa_phase s \<notin> {Left, Running True}"
  shows "answered r (consumer_events d 4 s)"
proof -
  have "bell_ok s" using assms(1) bell_ok_new by (rule bell_ok_steps)
  then have wake: "db_wake (wa_bell s)" using assms(2) by (auto simp: bell_ok_def pending_ring_def)
  have four: "4 = Suc (Suc (Suc (Suc 0)))" by simp
  show ?thesis
    unfolding four
    using assms(2,3) wake
    by (cases "wa_phase s"; cases "wa_stop s"; cases "0 < d")
       (auto simp: consumer_step_def answered_def pending_ring_def)
qed

definition example_hello :: "(string \<times> json) list" where
  "example_hello = [(''type'', JStr ''hello''), (''generation'', JInt 7)]"

lemma example_ring:
  "watch_steps d new_watch ([] @ Dispatched (JObj example_hello) (Inr (Some 6)) # [])
     (ring_opt (dispatch_event (JObj example_hello) (Inr (Some 6))) new_watch)"
  using watch_steps.extends [OF watch_steps.begins watch_step.dispatched, of d new_watch] by simp

theorem no_announced_generation_missed_witness:
  "\<exists>r. dispatch_event (JObj example_hello) (Inr (Some 6)) = Inr (Some r)"
proof -
  have "event_get ''generation'' example_hello = JInt 7" "event_get ''type'' example_hello = JStr ''hello''"
    by (auto simp: example_hello_def event_get_def)
  then show ?thesis using no_announced_generation_missed [OF example_ring, where g = 7] by auto
qed

lemma example_pending:
  "pending_ring ''hello-catchup'' (ring_opt (dispatch_event (JObj example_hello) (Inr (Some 6))) new_watch)"
  by code_simp

theorem ring_answered_in_four_moves_witness:
  "answered ''hello-catchup'' (consumer_events 0 4
     (ring_opt (dispatch_event (JObj example_hello) (Inr (Some 6))) new_watch))"
  by (rule ring_answered_in_four_moves [OF example_ring [of 0] example_pending]) (simp add: new_watch_def)

section \<open>Reconnecting\<close>

interpretation client: invariant_machine
  "\<lambda>b x. snd (client_turn i m b x)" "\<lambda>b. 0 \<le> i \<and> i \<le> m \<longrightarrow> i \<le> b \<and> b \<le> m" for i m :: rat
proof unfold_locales
  fix b :: rat and x
  assume b: "0 \<le> i \<and> i \<le> m \<longrightarrow> i \<le> b \<and> b \<le> m"
  show "0 \<le> i \<and> i \<le> m \<longrightarrow> i \<le> snd (client_turn i m b x) \<and> snd (client_turn i m b x) \<le> m"
    using b by (cases x) (auto simp: client_turn_def min_def)
qed

lemma client_waits_nth:
  "n < length xs \<Longrightarrow>
   client_waits i m b xs ! n = fst (client_turn i m (foldl (\<lambda>b x. snd (client_turn i m b x)) b (take n xs)) (xs ! n))"
proof (induction xs arbitrary: b n)
  case (Cons x xs)
  then show ?case by (cases n) (auto split: prod.splits)
qed simp

text \<open>Reconnecting is paced by the configured bounds.  Every wait of the client lies between its initial
  backoff and its limit; only a stream that ended in an orderly way is followed by no wait at all.\<close>

theorem client_wait_bounds:
  assumes "0 \<le> i" "i \<le> m" "n < length outcomes"
  shows "(case client_waits i m i outcomes ! n of
            None \<Rightarrow> outcomes ! n = Stream_Ended
          | Some w \<Rightarrow> outcomes ! n \<noteq> Stream_Ended \<and> i \<le> w \<and> w \<le> m)"
proof -
  let ?b = "foldl (\<lambda>b x. snd (client_turn i m b x)) i (take n outcomes)"
  have "0 \<le> i \<and> i \<le> m \<longrightarrow> i \<le> ?b \<and> ?b \<le> m" by (rule client.run_inv) simp
  then show ?thesis
    unfolding client_waits_nth [OF assms(3)] using assms(1,2)
    by (cases "outcomes ! n") (auto simp: client_turn_def)
qed

theorem client_wait_bounds_witness:
  "client_waits 1 30 1 [Not_Ready, Stream_Failed, Stream_Ended] ! 1 \<noteq> None"
  using client_wait_bounds [of 1 30 1 "[Not_Ready, Stream_Failed, Stream_Ended]"]
  by (auto split: option.splits)

text \<open>A server that keeps accepting and closing the connection in an orderly way is reconnected to without
  any pause.\<close>

lemma orderly_close_never_waits:
  "client_waits i m b (replicate n Stream_Ended) = replicate n None"
  by (induction n arbitrary: b) (simp_all add: client_turn_def)

end
