(* ===== verification/Bird_Socket.thy ===== *)
theory Bird_Socket
  imports Prelude
begin

text \<open>
  BIRD's control socket: \<open>collectors/bird\_socket.py\<close>.

  A connection is what the socket's operations give: the results of successive \<open>recv\<close> calls before the
  command is sent and after it, and the outcome of sending.  A list of received chunks that is used up
  stands for the closed connection, where \<open>recv\<close> returns no bytes.
\<close>

definition newline :: char where
  "newline = CHR 0x0A"

definition is_code_line :: "string \<Rightarrow> bool" where
  "is_code_line line \<longleftrightarrow> 4 \<le> length line \<and> isdigit (take 4 line)"

definition strip_code :: "string \<Rightarrow> string" where
  "strip_code line =
     (if is_code_line line then (if 5 < length line then drop 5 line else [])
      else if starts_with '' '' line then drop 1 line
      else line)"

record reply_reader =
  rd_lines :: "string list"
  rd_code :: "int option"
  rd_error :: "string option"
  rd_done :: bool
  rd_eof :: bool

definition new_reader :: reply_reader where
  "new_reader = \<lparr>rd_lines = [], rd_code = None, rd_error = None, rd_done = False, rd_eof = False\<rparr>"

definition feed_line :: "string \<Rightarrow> reply_reader \<Rightarrow> reply_reader" where
  "feed_line line rd =
     (let code = int_of_digits (take 4 line);
          sep = (if 4 < length line then line ! 4 else CHR '' '') in
      if is_code_line line \<and> ((code < 1000 \<and> sep = CHR '' '') \<or> 8000 \<le> code)
      then rd\<lparr>rd_code := Some code, rd_error := (if 8000 \<le> code then Some (strip_code line) else rd_error rd),
              rd_done := True\<rparr>
      else rd\<lparr>rd_lines := rd_lines rd @ [strip_code line]\<rparr>)"

definition reader_text :: "reply_reader \<Rightarrow> string" where
  "reader_text rd = join [newline] (rd_lines rd)"

lemma after_first_shorter: "c \<in> set s \<Longrightarrow> length (after_first c s) < length s"
proof -
  assume c: "c \<in> set s"
  then have "dropWhile (\<lambda>x. x \<noteq> c) s \<noteq> []" by (auto simp: dropWhile_eq_Nil_conv)
  moreover have "length (dropWhile (\<lambda>x. x \<noteq> c) s) \<le> length s" by (rule length_dropWhile_le)
  ultimately show ?thesis by (cases "dropWhile (\<lambda>x. x \<noteq> c) s") (auto simp: after_first_def)
qed

text \<open>\<open>\_Framing.read\_reply\<close>: the buffer and the chunks still to be received are returned for the next reply.\<close>

function read_reply :: "reply_reader \<Rightarrow> string \<Rightarrow> string res list \<Rightarrow> (reply_reader \<times> string \<times> string res list) res" where
  "read_reply rd buf chunks =
     (if rd_done rd then Inr (rd, buf, chunks)
      else if newline \<in> set buf
      then read_reply (feed_line (before_first newline buf) rd) (after_first newline buf) chunks
      else case chunks of
        [] \<Rightarrow> Inr (rd\<lparr>rd_eof := True, rd_done := True\<rparr>, buf, [])
      | Inl e # rest \<Rightarrow> Inl e
      | Inr chunk # rest \<Rightarrow>
          if chunk = [] then Inr (rd\<lparr>rd_eof := True, rd_done := True\<rparr>, buf, rest)
          else read_reply rd (buf @ chunk) rest)"
  by pat_completeness auto

termination
  by (relation "measures [\<lambda>(_, _, chunks). length chunks, \<lambda>(_, buf, _). length buf]")
     (auto simp: after_first_shorter)

declare read_reply.simps [simp del]

record bird_connection =
  bc_greeting :: "string res list"
  bc_sendall :: "string \<Rightarrow> exc option"
  bc_answer :: "string \<Rightarrow> string res list"

definition socket_query :: "bird_connection res \<Rightarrow> string \<Rightarrow> (int \<times> string \<times> string) res" where
  "socket_query connect command =
     rbind connect (\<lambda>c.
     rbind (read_reply new_reader [] (bc_greeting c)) (\<lambda>(_, buf, rest).
       case bc_sendall c (command @ [newline]) of
         Some e \<Rightarrow> Inl e
       | None \<Rightarrow>
           rbind (read_reply new_reader buf (rest @ bc_answer c (command @ [newline]))) (\<lambda>(reply, _, _).
             if rd_eof reply \<and> rd_code reply = None then Inl (OSError ''bird socket closed before reply terminated'')
             else case rd_error reply of
                 Some e \<Rightarrow> Inr (1, reader_text reply, e)
               | None \<Rightarrow> Inr (0, reader_text reply, []))))"

definition socket_exec :: "bird_connection res \<Rightarrow> string list \<Rightarrow> (int \<times> string \<times> string) res" where
  "socket_exec connect argv =
     (let args = (if argv \<noteq> [] \<and> hd argv = ''birdc'' then tl argv else argv) in
      case socket_query connect (join '' '' args) of
        Inl (OSError m) \<Rightarrow> Inr (- 1, [], ''bird socket error: '' @ m)
      | r \<Rightarrow> r)"

section \<open>Packets do not matter\<close>

text \<open>The reply as a function of the bytes alone.\<close>

function reply_of_bytes :: "reply_reader \<Rightarrow> string \<Rightarrow> reply_reader \<times> string" where
  "reply_of_bytes rd s =
     (if rd_done rd then (rd, s)
      else if newline \<in> set s
      then reply_of_bytes (feed_line (before_first newline s) rd) (after_first newline s)
      else (rd\<lparr>rd_eof := True, rd_done := True\<rparr>, s))"
  by pat_completeness auto
termination
  by (relation "measure (\<lambda>(_, s). length s)") (auto simp: after_first_shorter)

declare reply_of_bytes.simps [simp del]

lemma first_append:
  "c \<in> set s \<Longrightarrow> before_first c (s @ t) = before_first c s"
  "c \<in> set s \<Longrightarrow> after_first c (s @ t) = after_first c s @ t"
  by (induction s) (auto simp: before_first_def after_first_def)

lemma first_line: "c \<notin> set l \<Longrightarrow> before_first c (l @ c # s) = l \<and> after_first c (l @ c # s) = s"
  by (induction l) (auto simp: before_first_def after_first_def)

lemma read_reply_bytes:
  "[] \<notin> set cs \<Longrightarrow>
   \<exists>buf' cs'. read_reply rd buf (map Inr cs) = Inr (fst (reply_of_bytes rd (buf @ concat cs)), buf', map Inr cs') \<and>
     buf' @ concat cs' = snd (reply_of_bytes rd (buf @ concat cs)) \<and> [] \<notin> set cs'"
proof (induction rd buf "map Inr cs :: string res list" arbitrary: cs rule: read_reply.induct)
  case (1 rd buf)
  show ?case
  proof (cases "rd_done rd")
    case True
    then show ?thesis using 1(3)
      by (subst read_reply.simps, subst (1 2) reply_of_bytes.simps) auto
  next
    case not_done: False
    show ?thesis
    proof (cases "newline \<in> set buf")
      case True
      have IH: "\<exists>buf' cs'. read_reply (feed_line (before_first newline buf) rd) (after_first newline buf) (map Inr cs) =
          Inr (fst (reply_of_bytes (feed_line (before_first newline buf) rd) (after_first newline buf @ concat cs)), buf', map Inr cs') \<and>
          buf' @ concat cs' = snd (reply_of_bytes (feed_line (before_first newline buf) rd) (after_first newline buf @ concat cs)) \<and>
          [] \<notin> set cs'"
        using 1(1) [OF not_done True refl 1(3)] .
      show ?thesis
        by (subst read_reply.simps, subst (1 2) reply_of_bytes.simps)
           (use IH not_done True in \<open>simp add: first_append\<close>)
    next
      case no_line: False
      show ?thesis
      proof (cases cs)
        case Nil
        then show ?thesis
          by (subst read_reply.simps, subst (1 2) reply_of_bytes.simps) (use not_done no_line in auto)
      next
        case (Cons c rest)
        have c: "c \<noteq> []" "[] \<notin> set rest" using 1(3) Cons by auto
        have "\<exists>buf' cs'. read_reply rd (buf @ c) (map Inr rest) =
            Inr (fst (reply_of_bytes rd ((buf @ c) @ concat rest)), buf', map Inr cs') \<and>
            buf' @ concat cs' = snd (reply_of_bytes rd ((buf @ c) @ concat rest)) \<and> [] \<notin> set cs'"
          by (rule 1(2) [OF not_done no_line _ refl c]) (simp add: Cons)
        moreover have "read_reply rd buf (map Inr cs) = read_reply rd (buf @ c) (map Inr rest)"
          by (subst read_reply.simps) (use not_done no_line c(1) Cons in simp)
        ultimately show ?thesis using Cons by simp
      qed
    qed
  qed
qed

section \<open>What the server said is what is returned\<close>

text \<open>A line of a reply's data: a coded line, or one that continues the line before it.\<close>

datatype data_line = Coded string char string | Plain string

definition digits4 :: "string \<Rightarrow> bool" where
  "digits4 code \<longleftrightarrow> length code = 4 \<and> isdigit code"

fun data_ok :: "data_line \<Rightarrow> bool" where
  "data_ok (Coded code sep s) \<longleftrightarrow>
     digits4 code \<and> sep \<noteq> newline \<and> newline \<notin> set s \<and> int_of_digits code < 8000 \<and>
     (sep = CHR '' '' \<longrightarrow> 1000 \<le> int_of_digits code)"
| "data_ok (Plain s) \<longleftrightarrow> newline \<notin> set s"

fun data_text :: "data_line \<Rightarrow> string" where
  "data_text (Coded code sep s) = s" | "data_text (Plain s) = s"

fun data_bytes :: "data_line \<Rightarrow> string" where
  "data_bytes (Coded code sep s) = code @ sep # s" | "data_bytes (Plain s) = CHR '' '' # s"

definition encode_reply :: "data_line list \<Rightarrow> string \<Rightarrow> string" where
  "encode_reply ls final = concat (map (\<lambda>l. data_bytes l @ [newline]) ls) @ final @ [newline]"

text \<open>A final line: code, space, and what is shown when it is an error.\<close>

definition final_line :: "string \<Rightarrow> string \<Rightarrow> string" where
  "final_line code s = code @ CHR '' '' # s"

lemma digits_not_newline: "list_all is_digit s \<Longrightarrow> newline \<notin> set s"
  by (auto simp: list_all_iff is_digit_def newline_def)

lemma coded_line:
  assumes "digits4 code"
  shows "is_code_line (code @ sep # s)" "strip_code (code @ sep # s) = s" "take 4 (code @ sep # s) = code"
    "(code @ sep # s) ! 4 = sep" "newline \<notin> set code"
  using assms digits_not_newline [of code]
  by (auto simp: digits4_def is_code_line_def strip_code_def isdigit_def nth_append)

lemma plain_line: "\<not> is_code_line (CHR '' '' # s)" "strip_code (CHR '' '' # s) = s"
  by (auto simp: is_code_line_def strip_code_def starts_with_def isdigit_def is_digit_def Let_def)

lemma feed_coded:
  assumes "digits4 code"
  shows "feed_line (code @ sep # s) rd =
    (if (int_of_digits code < 1000 \<and> sep = CHR '' '') \<or> 8000 \<le> int_of_digits code
     then rd\<lparr>rd_code := Some (int_of_digits code),
             rd_error := (if 8000 \<le> int_of_digits code then Some s else rd_error rd), rd_done := True\<rparr>
     else rd\<lparr>rd_lines := rd_lines rd @ [s]\<rparr>)"
proof -
  have "4 < length (code @ sep # s)" using assms by (simp add: digits4_def)
  then show ?thesis
    unfolding feed_line_def Let_def using coded_line(1-4) [OF assms, of sep s] by (simp only: if_True simp_thms)
qed

lemma feed_data:
  assumes "data_ok l"
  shows "feed_line (data_bytes l) rd = rd\<lparr>rd_lines := rd_lines rd @ [data_text l]\<rparr>"
proof (cases l)
  case (Coded code sep s)
  then show ?thesis using assms feed_coded [of code sep s rd] by auto
next
  case (Plain s)
  then show ?thesis unfolding feed_line_def Let_def by (simp only: plain_line data_bytes.simps data_text.simps) simp
qed

lemma data_no_newline:
  assumes "data_ok l"
  shows "newline \<notin> set (data_bytes l)"
  using assms coded_line(5) by (cases l) (auto simp: newline_def)

lemma reply_of_data:
  "list_all data_ok ls \<Longrightarrow> \<not> rd_done rd \<Longrightarrow>
   reply_of_bytes rd (concat (map (\<lambda>l. data_bytes l @ [newline]) ls) @ rest)
   = reply_of_bytes (rd\<lparr>rd_lines := rd_lines rd @ map data_text ls\<rparr>) rest"
proof (induction ls arbitrary: rd)
  case (Cons l ls)
  have l: "newline \<notin> set (data_bytes l)" using Cons.prems(1) by (intro data_no_newline) simp
  have "reply_of_bytes rd (concat (map (\<lambda>l. data_bytes l @ [newline]) (l # ls)) @ rest)
      = reply_of_bytes (feed_line (data_bytes l) rd) (concat (map (\<lambda>l. data_bytes l @ [newline]) ls) @ rest)"
    by (subst reply_of_bytes.simps) (use Cons.prems(2) first_line [OF l] in simp)
  then show ?case using Cons by (simp add: feed_data)
qed simp

lemma reply_of_encoded:
  assumes "list_all data_ok ls" "digits4 code" "newline \<notin> set s"
    and "int_of_digits code < 1000 \<or> 8000 \<le> int_of_digits code"
  shows "reply_of_bytes new_reader (encode_reply ls (final_line code s) @ rest)
     = (\<lparr>rd_lines = map data_text ls, rd_code = Some (int_of_digits code),
         rd_error = (if 8000 \<le> int_of_digits code then Some s else None), rd_done = True, rd_eof = False\<rparr>, rest)"
proof -
  let ?rd = "new_reader\<lparr>rd_lines := map data_text ls\<rparr>"
  have l: "newline \<notin> set (final_line code s)"
    using assms(3) coded_line(5) [OF assms(2)] by (simp add: final_line_def newline_def)
  have "reply_of_bytes new_reader (encode_reply ls (final_line code s) @ rest)
      = reply_of_bytes ?rd (final_line code s @ newline # rest)"
    using reply_of_data [OF assms(1), of new_reader "final_line code s @ newline # rest"]
    by (simp add: encode_reply_def new_reader_def)
  also have "\<dots> = reply_of_bytes (feed_line (final_line code s) ?rd) rest"
    by (subst reply_of_bytes.simps) (use first_line [OF l] in \<open>simp add: new_reader_def\<close>)
  also have "feed_line (final_line code s) ?rd
      = \<lparr>rd_lines = map data_text ls, rd_code = Some (int_of_digits code),
         rd_error = (if 8000 \<le> int_of_digits code then Some s else None), rd_done = True, rd_eof = False\<rparr>"
    unfolding final_line_def feed_coded [OF assms(2)] using assms(4) by (auto simp: new_reader_def)
  finally show ?thesis by (subst (asm) (2) reply_of_bytes.simps) simp
qed

text \<open>C37: The socket client gives back what BIRD said.  Whatever lines the server sends, and however the bytes
  of its greeting and of its reply are cut into packets, a query returns exactly the lines' texts, with
  their status codes removed; a reply that ends in an error code is exit code 1 with that error's text.\<close>

theorem socket_reply_roundtrip:
  assumes "list_all data_ok hello" "digits4 code0" "int_of_digits code0 < 1000" "newline \<notin> set banner"
    and "list_all data_ok ls" "digits4 code" "newline \<notin> set s"
    and "int_of_digits code < 1000 \<or> 8000 \<le> int_of_digits code"
    and "concat greeting = encode_reply hello (final_line code0 banner)" "[] \<notin> set greeting"
    and "concat answer = encode_reply ls (final_line code s)" "[] \<notin> set answer"
  shows "socket_query (Inr \<lparr>bc_greeting = map Inr greeting, bc_sendall = (\<lambda>_. None),
                            bc_answer = (\<lambda>_. map Inr answer)\<rparr>) command
     = Inr (if 8000 \<le> int_of_digits code then 1 else 0, join [newline] (map data_text ls),
            if 8000 \<le> int_of_digits code then s else [])"
proof -
  have g: "reply_of_bytes new_reader (concat greeting)
      = (\<lparr>rd_lines = map data_text hello, rd_code = Some (int_of_digits code0), rd_error = None,
          rd_done = True, rd_eof = False\<rparr>, [])"
    using reply_of_encoded [OF assms(1,2,4), of "[]"] assms(3,9) by simp
  obtain buf cs where 1: "read_reply new_reader [] (map Inr greeting) = Inr (fst (reply_of_bytes new_reader (concat greeting)), buf, map Inr cs)"
    "buf @ concat cs = []" "[] \<notin> set cs"
    using read_reply_bytes [OF assms(10), of new_reader "[]"] g by auto
  then have empty: "buf = []" "cs = []" by (cases cs; auto)+
  have a: "reply_of_bytes new_reader (concat answer)
      = (\<lparr>rd_lines = map data_text ls, rd_code = Some (int_of_digits code),
          rd_error = (if 8000 \<le> int_of_digits code then Some s else None), rd_done = True, rd_eof = False\<rparr>, [])"
    using reply_of_encoded [OF assms(5-8), of "[]"] assms(11) by simp
  obtain buf' cs' where 2: "read_reply new_reader [] (map Inr answer) = Inr (fst (reply_of_bytes new_reader (concat answer)), buf', map Inr cs')"
    using read_reply_bytes [OF assms(12), of new_reader "[]"] by auto
  show ?thesis
    using 1(1) 2 g a empty by (simp add: socket_query_def reader_text_def)
qed

theorem socket_reply_roundtrip_witness:
  "socket_query (Inr \<lparr>bc_greeting = map Inr [''0001 BIRD'' @ [newline]], bc_sendall = (\<lambda>_. None),
                      bc_answer = (\<lambda>_. map Inr [''1007-a'', [newline] @ ''0000 '', [newline]])\<rparr>) ''show status''
   = Inr (0, ''a'', [])"
  using socket_reply_roundtrip [of "[]" "''0001''" "''BIRD''" "[Coded ''1007'' (CHR ''-'') ''a'']" "''0000''" "[]"
      "[''0001 BIRD'' @ [newline]]" "[''1007-a'', [newline] @ ''0000 '', [newline]]" "''show status''"]
  by (simp add: digits4_def isdigit_def is_digit_def newline_def int_of_digits_def encode_reply_def final_line_def)

end
