(* ===== verification/Regex_Match.thy ===== *)
theory Regex_Match
  imports Prelude
begin

text \<open>
  The fragment of Python's \<open>re\<close> that the sources use, as a backtracking matcher: the matches of an
  expression at a position, in the order in which backtracking tries them.  The bodies of repetitions
  in the sources always consume, so a repetition is unrolled at most as often as characters are left.
\<close>

datatype rx =
    Ch "char \<Rightarrow> bool"
  | Cat rx rx
  | Alt rx rx
  | Maybe rx
  | Many rx
  | Few1 rx
  | Grp string rx
  | Word_End
  | Empty

text \<open>A position: the character before it, the characters after it and the groups captured so far.\<close>

type_synonym rx_pos = "char option \<times> string \<times> (string \<times> string) list"

primrec many :: "nat \<Rightarrow> (rx_pos \<Rightarrow> rx_pos list) \<Rightarrow> rx_pos \<Rightarrow> rx_pos list" where
  "many 0 f p = [p]"
| "many (Suc n) f p = concat (map (many n f) (f p)) @ [p]"

primrec few :: "nat \<Rightarrow> (rx_pos \<Rightarrow> rx_pos list) \<Rightarrow> rx_pos \<Rightarrow> rx_pos list" where
  "few 0 f p = [p]"
| "few (Suc n) f p = p # concat (map (few n f) (f p))"

definition is_word_char :: "char \<Rightarrow> bool" where
  "is_word_char c \<longleftrightarrow> is_alnum c \<or> c = CHR ''_''"

definition word_before :: "char option \<Rightarrow> bool" where
  "word_before c = (case c of None \<Rightarrow> False | Some x \<Rightarrow> is_word_char x)"

definition word_after :: "string \<Rightarrow> bool" where
  "word_after s = (case s of [] \<Rightarrow> False | x # _ \<Rightarrow> is_word_char x)"

primrec rx_match :: "rx \<Rightarrow> rx_pos \<Rightarrow> rx_pos list" where
  "rx_match (Ch q) p =
     (case p of (_, [], _) \<Rightarrow> [] | (_, c # s, caps) \<Rightarrow> if q c then [(Some c, s, caps)] else [])"
| "rx_match (Cat a b) p = concat (map (rx_match b) (rx_match a p))"
| "rx_match (Alt a b) p = rx_match a p @ rx_match b p"
| "rx_match (Maybe a) p = rx_match a p @ [p]"
| "rx_match (Many a) p = many (length (fst (snd p))) (rx_match a) p"
| "rx_match (Few1 a) p = concat (map (\<lambda>q. few (length (fst (snd q))) (rx_match a) q) (rx_match a p))"
| "rx_match (Grp name a) p =
     map (\<lambda>(c, s, caps). (c, s, caps @ [(name, take (length (fst (snd p)) - length s) (fst (snd p)))])) (rx_match a p)"
| "rx_match Word_End p =
     (case p of (c, s, _) \<Rightarrow> if word_before c \<noteq> word_after s then [p] else [])"
| "rx_match Empty p = [p]"

text \<open>\<open>+\<close>, a literal string, \<open>\\d\<close> and \<open>\\s\<close>.\<close>

definition Many1 :: "rx \<Rightarrow> rx" where
  "Many1 a = Cat a (Many a)"

fun lit :: "string \<Rightarrow> rx" where
  "lit [] = Empty"
| "lit (c # cs) = Cat (Ch (\<lambda>x. x = c)) (lit cs)"

fun rx_seq :: "rx list \<Rightarrow> rx" where
  "rx_seq [] = Empty"
| "rx_seq [a] = a"
| "rx_seq (a # b # rs) = Cat a (rx_seq (b # rs))"

definition rx_digits :: rx where
  "rx_digits = Many1 (Ch is_digit)"

definition rx_spaces :: rx where
  "rx_spaces = Many (Ch is_space)"

text \<open>\<open>match\<close> at the start, \<open>search\<close> at the first position that matches, \<open>findall\<close>.\<close>

definition rx_at :: "rx \<Rightarrow> char option \<Rightarrow> string \<Rightarrow> rx_pos option" where
  "rx_at r before s = (case rx_match r (before, s, []) of [] \<Rightarrow> None | p # _ \<Rightarrow> Some p)"

definition match_start :: "rx \<Rightarrow> string \<Rightarrow> (string \<times> string) list option" where
  "match_start r s = map_option (\<lambda>(_, _, caps). caps) (rx_at r None s)"

fun search_from :: "rx \<Rightarrow> char option \<Rightarrow> string \<Rightarrow> (string \<times> string) list option" where
  "search_from r before [] = map_option (\<lambda>(_, _, caps). caps) (rx_at r before [])"
| "search_from r before (c # s) =
     (case rx_at r before (c # s) of Some (_, _, caps) \<Rightarrow> Some caps | None \<Rightarrow> search_from r (Some c) s)"

definition rx_search :: "rx \<Rightarrow> string \<Rightarrow> (string \<times> string) list option" where
  "rx_search r s = search_from r None s"

text \<open>For expressions that match no empty string.\<close>

fun findall_from :: "nat \<Rightarrow> rx \<Rightarrow> char option \<Rightarrow> string \<Rightarrow> (string \<times> string) list list" where
  "findall_from 0 r before s = []"
| "findall_from (Suc n) r before s =
     (case s of
        [] \<Rightarrow> []
      | c # s' \<Rightarrow>
          (case rx_at r before s of
             Some (b, rest, caps) \<Rightarrow> caps # findall_from n r b rest
           | None \<Rightarrow> findall_from n r (Some c) s'))"

definition findall :: "rx \<Rightarrow> string \<Rightarrow> (string \<times> string) list list" where
  "findall r s = findall_from (length s) r None s"

definition grp :: "string \<Rightarrow> (string \<times> string) list \<Rightarrow> string option" where
  "grp name caps = map_of (rev caps) name"

end
