(* ===== verification/Routing_Table.thy ===== *)
theory Routing_Table
  imports "HOL-Library.Multiset" Regex_Match Ipaddress Validators Convergence_Plan
begin

text \<open>
  The agent's observation of BIRD's routing tables: \<open>collectors/routing.py\<close>.

  The answers of BIRD to the queries of one round are an argument: a function from the command to exit
  code and outputs, or an exception.  Each command is asked at most once per round.
\<close>

section \<open>Routes\<close>

record raw_route =
  rr_prefix :: string
  rr_protocol :: "string option"
  rr_primary :: bool
  rr_origin_header :: "int option"
  rr_next_hop :: "string option"
  rr_as_path :: "int list"
  rr_communities :: "string list"
  rr_large_communities :: "string list"

definition origin_asn :: "raw_route \<Rightarrow> int option" where
  "origin_asn r = (if rr_as_path r \<noteq> [] then Some (last (rr_as_path r)) else rr_origin_header r)"

definition route_network :: "raw_route \<Rightarrow> ip_net option" where
  "route_network r = ip_network (rr_prefix r)"

definition is_prefix_char :: "char \<Rightarrow> bool" where
  "is_prefix_char c \<longleftrightarrow> hex_digit c \<noteq> None \<or> c = CHR '':'' \<or> c = CHR ''.''"

text \<open>\<open>[0-9a-fA-F:.]+/\\d+\<close>\<close>

definition prefix_rx :: rx where
  "prefix_rx = rx_seq [Many1 (Ch is_prefix_char), lit ''/'', rx_digits]"

definition route_header_rx :: rx where
  "route_header_rx = rx_seq
     [rx_spaces,
      Maybe (rx_seq [Grp ''prefix'' prefix_rx, Many1 (Ch is_space)]),
      Alt (lit ''unicast'') (Alt (lit ''blackhole'') (Alt (lit ''unreachable'') (lit ''prohibit''))),
      Many1 (Ch is_space), lit ''['',
      Grp ''proto'' (Many1 (Ch (\<lambda>c. \<not> is_space c \<and> c \<noteq> CHR '']''))),
      Many (Ch (\<lambda>c. c \<noteq> CHR '']'')), lit '']'', rx_spaces,
      Maybe (Grp ''star'' (lit ''*'')),
      Many (Ch (\<lambda>c. c \<noteq> CHR ''['')),
      Maybe (rx_seq [lit ''[AS'', Grp ''origin'' rx_digits, Maybe (Ch (\<lambda>c. c \<in> set ''ie?'')), lit '']''])]"

definition roa_line_rx :: rx where
  "roa_line_rx = rx_seq
     [Grp ''net'' prefix_rx,
      Maybe (rx_seq [lit ''-'', Grp ''max'' rx_digits]),
      Few1 (Ch (\<lambda>c. \<not> is_digit c)),
      Maybe (lit ''AS''),
      Grp ''asn'' rx_digits, Word_End]"

definition large_comm_rx :: rx where
  "large_comm_rx = rx_seq
     [lit ''('', rx_spaces, Grp ''1'' rx_digits, rx_spaces, lit '','', rx_spaces, Grp ''2'' rx_digits, rx_spaces,
      lit '','', rx_spaces, Grp ''3'' rx_digits, rx_spaces, lit '')'']"

definition comm_rx :: rx where
  "comm_rx = rx_seq
     [lit ''('', rx_spaces, Grp ''1'' rx_digits, rx_spaces, lit '','', rx_spaces, Grp ''2'' rx_digits, rx_spaces, lit '')'']"

text \<open>\<open>":".join(groups)\<close> of every match.\<close>

definition joined_groups :: "rx \<Rightarrow> string \<Rightarrow> string list" where
  "joined_groups r s = map (\<lambda>caps. join '':'' (map snd caps)) (findall r s)"

definition ints_in :: "string \<Rightarrow> int list" where
  "ints_in s = map (\<lambda>caps. int_of_digits (the (grp ''n'' caps))) (findall (Grp ''n'' rx_digits) s)"

definition update_last :: "('a \<Rightarrow> 'a) \<Rightarrow> 'a list \<Rightarrow> 'a list" where
  "update_last f xs = (if xs = [] then [] else butlast xs @ [f (last xs)])"

text \<open>The attributes of the current route, the last one of the list.\<close>

definition attribute_line :: "string \<Rightarrow> raw_route \<Rightarrow> raw_route" where
  "attribute_line stripped r =
     (if starts_with ''via '' stripped \<and> rr_next_hop r = None
      then (if 2 \<le> length (words stripped) then r\<lparr>rr_next_hop := Some (words stripped ! 1)\<rparr> else r)
      else if starts_with ''BGP.as_path:'' stripped
      then r\<lparr>rr_as_path := ints_in (drop 12 stripped)\<rparr>
      else if starts_with ''BGP.next_hop:'' stripped \<and> rr_next_hop r = None
      then (if 2 \<le> length (words stripped) then r\<lparr>rr_next_hop := Some (words stripped ! 1)\<rparr> else r)
      else if starts_with ''BGP.large_community:'' stripped
      then r\<lparr>rr_large_communities := joined_groups large_comm_rx stripped\<rparr>
      else if starts_with ''BGP.community:'' stripped
      then r\<lparr>rr_communities := joined_groups comm_rx stripped\<rparr>
      else r)"

text \<open>One line: the routes so far and the prefix of the last header that had one.\<close>

definition route_line :: "raw_route list \<times> string option \<Rightarrow> string \<Rightarrow> raw_route list \<times> string option" where
  "route_line st raw =
     (case st of (routes, current_prefix) \<Rightarrow>
       if strip raw = [] then st
       else if starts_with ''Table '' raw then st
       else case match_start route_header_rx raw of
         Some caps \<Rightarrow>
           (case (case grp ''prefix'' caps of Some p \<Rightarrow> Some p | None \<Rightarrow> current_prefix) of
              None \<Rightarrow> st
            | Some prefix \<Rightarrow>
                (routes @ [\<lparr>rr_prefix = prefix, rr_protocol = grp ''proto'' caps,
                            rr_primary = (grp ''star'' caps \<noteq> None),
                            rr_origin_header = map_option int_of_digits (grp ''origin'' caps),
                            rr_next_hop = None, rr_as_path = [], rr_communities = [], rr_large_communities = []\<rparr>],
                 Some prefix))
       | None \<Rightarrow> (update_last (attribute_line (strip raw)) routes, current_prefix))"

definition parse_bird_routes :: "string \<Rightarrow> raw_route list" where
  "parse_bird_routes t = fst (foldl route_line ([], None) (splitlines t))"

section \<open>Route origin validation\<close>

record roa_entry =
  roa_network :: ip_net
  roa_max_len :: int
  roa_asn :: int

definition prefix_mask :: "nat \<Rightarrow> nat \<Rightarrow> int" where
  "prefix_mask version p =
     (if p \<noteq> 0 then push_bit (ip_bits version - p) (push_bit p 1 - 1) else 0)"

text \<open>Buckets: from version and length to the networks of that length, each with its entries; and for
  each version the lengths that occur, ascending, with their masks.\<close>

record rpki_index =
  ix_buckets :: "((nat \<times> nat) \<times> (int \<times> roa_entry list) list) list"
  ix_plens :: "(nat \<times> (nat \<times> int) list) list"

definition get_or :: "'v \<Rightarrow> 'k \<Rightarrow> ('k \<times> 'v) list \<Rightarrow> 'v" where
  "get_or dflt k d = (case map_of d k of Some v \<Rightarrow> v | None \<Rightarrow> dflt)"

definition add_bucket ::
  "((nat \<times> nat) \<times> (int \<times> roa_entry list) list) list \<Rightarrow> roa_entry \<Rightarrow> ((nat \<times> nat) \<times> (int \<times> roa_entry list) list) list" where
  "add_bucket buckets e =
     (let key = (net_version (roa_network e), prefixlen (roa_network e));
          inner = get_or [] key buckets;
          n = net_int (roa_network e) in
      dput key (dput n (get_or [] n inner @ [e]) inner) buckets)"

definition add_plen :: "(nat \<times> nat list) list \<Rightarrow> roa_entry \<Rightarrow> (nat \<times> nat list) list" where
  "add_plen plens e =
     (let v = net_version (roa_network e) in dput v (List.insert (prefixlen (roa_network e)) (get_or [] v plens)) plens)"

definition new_rpki_index :: "roa_entry list \<Rightarrow> rpki_index" where
  "new_rpki_index entries =
     \<lparr>ix_buckets = foldl add_bucket [] entries,
      ix_plens = map (\<lambda>(v, lengths). (v, map (\<lambda>p. (p, prefix_mask v p)) (sort lengths))) (foldl add_plen [] entries)\<rparr>"

definition roa_of_line :: "string \<Rightarrow> roa_entry option" where
  "roa_of_line raw =
     (let line = strip raw in
      if line = [] \<or> starts_with ''Table '' line then None
      else case rx_search roa_line_rx line of
        None \<Rightarrow> None
      | Some caps \<Rightarrow>
          (case ip_network (the (grp ''net'' caps)) of
             None \<Rightarrow> None
           | Some network \<Rightarrow>
               Some \<lparr>roa_network = network,
                     roa_max_len = (case grp ''max'' caps of Some m \<Rightarrow> int_of_digits m | None \<Rightarrow> int (prefixlen network)),
                     roa_asn = int_of_digits (the (grp ''asn'' caps))\<rparr>))"

definition roa_entries :: "string \<Rightarrow> roa_entry list" where
  "roa_entries t = concat (map (\<lambda>raw. case roa_of_line raw of None \<Rightarrow> [] | Some e \<Rightarrow> [e]) (splitlines t))"

definition rpki_from_bird :: "string \<Rightarrow> rpki_index" where
  "rpki_from_bird t = new_rpki_index (roa_entries t)"

datatype rpki_verdict = Rpki_Valid | Rpki_Invalid | Rpki_Not_Found

definition covering :: "rpki_index \<Rightarrow> ip_net \<Rightarrow> roa_entry list" where
  "covering ix net =
     concat (map (\<lambda>(p, m). get_or [] (net_int net AND m) (get_or [] (net_version net, p) (ix_buckets ix)))
       (takeWhile (\<lambda>(p, _). p \<le> prefixlen net) (get_or [] (net_version net) (ix_plens ix))))"

definition classify_net :: "rpki_index \<Rightarrow> ip_net option \<Rightarrow> int option \<Rightarrow> rpki_verdict option" where
  "classify_net ix net origin =
     (case net of
        None \<Rightarrow> None
      | Some n \<Rightarrow>
          if covering ix n = [] then Some Rpki_Not_Found
          else case origin of
              None \<Rightarrow> None
            | Some asn \<Rightarrow>
                if list_ex (\<lambda>e. roa_asn e = asn \<and> int (prefixlen n) \<le> roa_max_len e) (covering ix n)
                then Some Rpki_Valid else Some Rpki_Invalid)"

definition rpki_classify :: "rpki_index \<Rightarrow> string \<Rightarrow> int option \<Rightarrow> rpki_verdict option" where
  "rpki_classify ix prefix origin = (case ip_network prefix of None \<Rightarrow> None | Some n \<Rightarrow> classify_net ix (Some n) origin)"

definition verdict_text :: "rpki_verdict \<Rightarrow> string" where
  "verdict_text v = (case v of Rpki_Valid \<Rightarrow> ''valid'' | Rpki_Invalid \<Rightarrow> ''invalid'' | Rpki_Not_Found \<Rightarrow> ''not-found'')"

section \<open>Why a route was rejected\<close>

definition parse_ebgp_protocol_names :: "string \<Rightarrow> string list" where
  "parse_ebgp_protocol_names t =
     concat (map (\<lambda>raw. case words raw of
         name # proto_type # _ \<Rightarrow>
           if name = ''Name'' \<or> name = ''BIRD'' then []
           else if proto_type = ''BGP'' \<and> \<not> starts_with ''ibgp_'' name then [name] else []
       | _ \<Rightarrow> []) (splitlines t))"

definition DN42_VALID_V4 :: "(ip_net \<times> nat \<times> nat) list" where
  "DN42_VALID_V4 =
     [(v4net 172 20 0 0 14, 21, 29), (v4net 172 20 0 0 24, 28, 32), (v4net 172 21 0 0 24, 28, 32),
      (v4net 172 22 0 0 24, 28, 32), (v4net 172 23 0 0 24, 28, 32), (v4net 172 31 0 0 16, 16, 32),
      (v4net 10 100 0 0 14, 14, 32), (v4net 10 0 0 0 8, 15, 24), (v4net 10 127 0 0 16, 16, 32)]"

definition DN42_VALID_V6 :: "(ip_net \<times> nat \<times> nat) list" where
  "DN42_VALID_V6 =
     [(IPv6Network (0xfd00 * 2 ^ 112) 8, 44, 64), (IPv6Network (0xfd100127 * 2 ^ 96) 32, 32, 128)]"

record reject_policy =
  rj_own_nets :: "ip_net list"
  rj_rejected_asns :: "int list"

definition is_dn42_valid :: "ip_net \<Rightarrow> bool" where
  "is_dn42_valid net \<longleftrightarrow>
     list_ex (\<lambda>(base, lo, hi). net_version net = net_version base \<and> subnet_of net base \<and> lo \<le> prefixlen net \<and> prefixlen net \<le> hi)
       (if net_version net = 4 then DN42_VALID_V4 else DN42_VALID_V6)"

definition classify_reject_reason :: "int list \<Rightarrow> reject_policy option \<Rightarrow> ip_net option \<Rightarrow> string" where
  "classify_reject_reason as_path policy net =
     (case net of
        None \<Rightarrow> ''policy''
      | Some n \<Rightarrow>
          if \<not> is_dn42_valid n then ''out_of_range''
          else if (case policy of None \<Rightarrow> False
                   | Some p \<Rightarrow> list_ex (\<lambda>own. net_version own = net_version n \<and> subnet_of n own) (rj_own_nets p))
          then ''self_net''
          else if 8 < length as_path then ''as_path_too_long''
          else if (case policy of None \<Rightarrow> False | Some p \<Rightarrow> list_ex (\<lambda>a. a \<in> set (rj_rejected_asns p)) as_path)
          then ''blocked_asn''
          else ''policy'')"

section \<open>The index answers as RFC 6811 does\<close>

text \<open>The reference: scan all entries, keep those that cover the prefix.\<close>

definition rfc6811 :: "roa_entry list \<Rightarrow> ip_net option \<Rightarrow> int option \<Rightarrow> rpki_verdict option" where
  "rfc6811 entries net origin =
     (case net of
        None \<Rightarrow> None
      | Some n \<Rightarrow>
          let cov = filter (\<lambda>e. net_version (roa_network e) = net_version n \<and> subnet_of n (roa_network e)) entries in
          if cov = [] then Some Rpki_Not_Found
          else map_option (\<lambda>asn. if \<exists>e\<in>set cov. roa_asn e = asn \<and> int (prefixlen n) \<le> roa_max_len e
                                 then Rpki_Valid else Rpki_Invalid) origin)"

lemma get_or_dput: "get_or d k (dput k' v xs) = (if k = k' then v else get_or d k xs)"
  by (simp add: get_or_def)

lemma get_or_Nil [simp]: "get_or d k [] = d"
  by (simp add: get_or_def)

lemma bucket_entries:
  "get_or [] n (get_or [] (v, p) (foldl add_bucket [] es)) =
   filter (\<lambda>e. net_version (roa_network e) = v \<and> prefixlen (roa_network e) = p \<and> net_int (roa_network e) = n) es"
  by (induction es rule: rev_induct) (auto simp: add_bucket_def Let_def get_or_dput)

lemma plens_of:
  "distinct (get_or [] v (foldl add_plen [] es)) \<and>
   set (get_or [] v (foldl add_plen [] es)) = {prefixlen (roa_network e) |e. e \<in> set es \<and> net_version (roa_network e) = v}"
proof (induction es rule: rev_induct)
  case (snoc e es)
  show ?case
  proof (cases "net_version (roa_network e) = v")
    case True
    then have "get_or [] v (foldl add_plen [] (es @ [e])) = List.insert (prefixlen (roa_network e)) (get_or [] v (foldl add_plen [] es))"
      by (simp add: add_plen_def Let_def get_or_dput)
    then show ?thesis using snoc True by (auto simp: distinct_insert)
  next
    case False
    then have "get_or [] v (foldl add_plen [] (es @ [e])) = get_or [] v (foldl add_plen [] es)"
      by (simp add: add_plen_def Let_def get_or_dput)
    then show ?thesis using snoc False by auto
  qed
qed simp

lemma get_or_map: "(\<And>k. f k [] = []) \<Longrightarrow> get_or [] k (map (\<lambda>(k, v). (k, f k v)) xs) = f k (get_or [] k xs)"
  by (induction xs) (auto simp: get_or_def)

lemma index_plens:
  "get_or [] v (ix_plens (new_rpki_index es)) =
   map (\<lambda>p. (p, prefix_mask v p)) (sort (get_or [] v (foldl add_plen [] es)))"
  unfolding new_rpki_index_def rpki_index.select_convs
  by (subst get_or_map [where f = "\<lambda>v lengths. map (\<lambda>p. (p, prefix_mask v p)) (sort lengths)"]) simp_all

lemma takeWhile_sorted: "sorted xs \<Longrightarrow> set (takeWhile (\<lambda>x. x \<le> L) xs) = {x \<in> set xs. x \<le> L}"
  by (induction xs) auto

lemma and_prefix_mask:
  assumes "0 \<le> n" "n < 2 ^ ip_bits v" "p \<le> ip_bits v"
  shows "n AND prefix_mask v p = clear_host (ip_bits v) p n"
proof -
  let ?k = "ip_bits v - p"
  have m: "prefix_mask v p = push_bit ?k (mask p)"
    by (simp add: prefix_mask_def mask_eq_exp_minus_1 push_bit_eq_mult)
  have "drop_bit ?k n < 2 ^ p"
  proof -
    have "n < 2 ^ p * 2 ^ ?k" using assms(2,3) by (simp flip: power_add)
    moreover have "n div 2 ^ ?k * 2 ^ ?k \<le> n" using clear_host_le [of "ip_bits v" p n] by (simp add: clear_host_def)
    ultimately have "n div 2 ^ ?k * 2 ^ ?k < 2 ^ p * 2 ^ ?k" by linarith
    then have "n div 2 ^ ?k < 2 ^ p" by (rule mult_right_less_imp_less) simp
    then show ?thesis by (simp add: drop_bit_eq_div)
  qed
  moreover have "0 \<le> drop_bit ?k n" using assms(1) by simp
  ultimately have "take_bit p (drop_bit ?k n) = drop_bit ?k n" by (simp add: take_bit_int_eq_self_iff)
  moreover have "n AND push_bit ?k (mask p) = push_bit ?k (take_bit p (drop_bit ?k n))"
    by (auto intro!: bit_eqI simp: bit_simps)
  ultimately show ?thesis
    by (simp add: m clear_host_def push_bit_eq_mult drop_bit_eq_div)
qed

lemma covering_set:
  assumes wf: "wf_net n" and es: "\<And>e. e \<in> set es \<Longrightarrow> wf_net (roa_network e)"
  shows "set (covering (new_rpki_index es) n) =
    {e \<in> set es. net_version (roa_network e) = net_version n \<and> subnet_of n (roa_network e)}"
proof -
  let ?v = "net_version n"
  let ?ps = "sort (get_or [] ?v (foldl add_plen [] es))"
  have taken: "takeWhile (\<lambda>(p, _). p \<le> prefixlen n) (get_or [] ?v (ix_plens (new_rpki_index es)))
      = map (\<lambda>p. (p, prefix_mask ?v p)) (takeWhile (\<lambda>p. p \<le> prefixlen n) ?ps)"
    by (simp add: index_plens takeWhile_map comp_def)
  have ps: "set (takeWhile (\<lambda>p. p \<le> prefixlen n) ?ps) =
      {prefixlen (roa_network e) |e. e \<in> set es \<and> net_version (roa_network e) = ?v \<and> prefixlen (roa_network e) \<le> prefixlen n}"
    using plens_of [of ?v es] by (subst takeWhile_sorted) auto
  have b: "ix_buckets (new_rpki_index es) = foldl add_bucket [] es" by (simp add: new_rpki_index_def)
  have n: "0 \<le> net_int n" "net_int n < 2 ^ ip_bits ?v" "prefixlen n \<le> ip_bits ?v"
    using wf by (simp_all add: wf_net_def Let_def)
  have "set (covering (new_rpki_index es) n) =
    {e \<in> set es. net_version (roa_network e) = ?v \<and> prefixlen (roa_network e) \<le> prefixlen n \<and>
       net_int (roa_network e) = net_int n AND prefix_mask ?v (prefixlen (roa_network e))}"
    unfolding covering_def taken b by (auto simp: bucket_entries ps)
  also have "\<dots> = {e \<in> set es. net_version (roa_network e) = ?v \<and> subnet_of n (roa_network e)}"
  proof (intro Collect_cong conj_cong refl)
    fix e
    assume e: "e \<in> set es" "net_version (roa_network e) = ?v"
    have w: "wf_net (roa_network e)" using es e(1) .
    have le: "subnet_of n (roa_network e) \<Longrightarrow> prefixlen (roa_network e) \<le> prefixlen n"
      using subnet_of_prefixlen_le [OF wf w] e(2) by simp
    have "prefixlen (roa_network e) \<le> prefixlen n \<Longrightarrow>
        subnet_of n (roa_network e) \<longleftrightarrow> net_int (roa_network e) = net_int n AND prefix_mask ?v (prefixlen (roa_network e))"
      using subnet_of_iff [OF wf w] and_prefix_mask [OF n(1,2)] n(3) e(2) by auto
    then show "(prefixlen (roa_network e) \<le> prefixlen n \<and>
        net_int (roa_network e) = net_int n AND prefix_mask ?v (prefixlen (roa_network e))) = subnet_of n (roa_network e)"
      using le by blast
  qed
  finally show ?thesis .
qed

text \<open>What \<open>ip_network\<close> returns is well formed.\<close>

lemma be_int_range:
  "0 < base \<Longrightarrow> (\<And>d. d \<in> set ds \<Longrightarrow> 0 \<le> d \<and> d < base) \<Longrightarrow> 0 \<le> be_int base ds \<and> be_int base ds < base ^ length ds"
proof (induction ds rule: rev_induct)
  case Nil
  then show ?case by (simp add: be_int_def)
next
  case (snoc d ds)
  have IH: "0 \<le> be_int base ds" "be_int base ds + 1 \<le> base ^ length ds" using snoc by simp_all
  have d: "0 \<le> d" "d < base" using snoc.prems(2) by auto
  have "base * (be_int base ds + 1) \<le> base * base ^ length ds"
    using IH(2) snoc.prems(1) by (intro mult_left_mono) simp_all
  then have "base * be_int base ds + d < base ^ Suc (length ds)" using d by (simp add: distrib_left)
  moreover have "0 \<le> base * be_int base ds + d" using IH(1) d(1) snoc.prems(1) by simp
  ultimately show ?case by (simp add: be_int_def)
qed

lemma hex_digit_range: "hex_digit c = Some d \<Longrightarrow> 0 \<le> d \<and> d < 16"
  by (auto simp: hex_digit_def Let_def split: if_splits)

lemma opt_list_range:
  assumes "opt_list xs = Some ds" "\<And>d. Some d \<in> set xs \<Longrightarrow> P d"
  shows "\<And>d. d \<in> set ds \<Longrightarrow> P d" "length ds = length xs"
  using opt_list_SomeD [OF assms(1)] assms(2) by auto

lemma parse_hextet_range:
  assumes "parse_hextet s = Some h"
  shows "0 \<le> h \<and> h < 65536"
proof -
  have hex: "0 \<le> d \<and> d < 16" if d: "Some d \<in> set (map hex_digit s)" for d
  proof -
    obtain c where "hex_digit c = Some d" using d by (metis ex_map_conv)
    then show ?thesis by (rule hex_digit_range)
  qed
  obtain ds where ds: "opt_list (map hex_digit s) = Some ds" "h = be_int 16 ds" "length s \<le> 4"
    using assms by (auto simp: parse_hextet_def split: if_splits)
  have r: "\<And>d. d \<in> set ds \<Longrightarrow> 0 \<le> d \<and> d < 16" "length ds = length s"
    using opt_list_range [OF ds(1), where P = "\<lambda>d. 0 \<le> d \<and> d < 16"] hex by simp_all
  have "h < 16 ^ length ds" "0 \<le> h" using be_int_range [of 16 ds] r(1) ds(2) by auto
  moreover have "(16::int) ^ length ds \<le> 16 ^ 4" using r(2) ds(3) by (intro power_increasing) auto
  ultimately show ?thesis by simp
qed

lemma hextets_range:
  assumes "opt_list hs = Some ds" "length hs = 8" "\<And>h. Some h \<in> set hs \<Longrightarrow> 0 \<le> h \<and> h < 65536"
  shows "0 \<le> be_int 65536 ds \<and> be_int 65536 ds < 2 ^ 128"
proof -
  have r: "\<And>d. d \<in> set ds \<Longrightarrow> 0 \<le> d \<and> d < 65536" "length ds = 8"
    using opt_list_range [OF assms(1), where P = "\<lambda>d. 0 \<le> d \<and> d < 65536"] assms(2,3) by auto
  have "0 \<le> be_int 65536 ds \<and> be_int 65536 ds < 65536 ^ length ds" using r(1) by (intro be_int_range) auto
  moreover have "(65536::int) ^ length ds = 2 ^ 128" unfolding r(2) by (simp flip: power_mult)
  ultimately show ?thesis by (simp only:)
qed

lemma parse_v6_parts_range:
  assumes "parse_v6_parts ps = Some n"
  shows "0 \<le> n \<and> n < 2 ^ 128"
proof -
  have hex: "0 \<le> h \<and> h < 65536" if "Some h \<in> set (map parse_hextet xs)" for h xs
    using that parse_hextet_range [where h = h] by auto
  consider (plain) "inner_empty ps = []" | (skip) i where "inner_empty ps = [i]" | (more) "1 < length (inner_empty ps)"
    by (cases "inner_empty ps"; cases "tl (inner_empty ps)") auto
  then show ?thesis
  proof cases
    case plain
    then obtain ds where "length ps = 8" "opt_list (map parse_hextet ps) = Some ds" "n = be_int 65536 ds"
      using assms by (auto simp: parse_v6_parts_def Let_def split: if_splits)
    then show ?thesis using hextets_range [of "map parse_hextet ps" ds] hex by auto
  next
    case (skip i)
    define hi where "hi = (if hd ps = [] then i - 1 else i)"
    define lo where "lo = (if last ps = [] then length ps - i - 1 - 1 else length ps - i - 1)"
    have "i \<in> set (inner_empty ps)" using skip by simp
    then have i: "i < length ps" by (auto simp: inner_empty_def)
    have eq: "parse_v6_parts ps =
      (if length ps < 3 \<or> 9 < length ps then None
       else if (hd ps = [] \<and> 0 < hi) \<or> (last ps = [] \<and> 0 < lo) \<or> 8 < hi + lo + 1 then None
       else map_option (be_int 65536)
              (opt_list (map parse_hextet (take hi ps) @ replicate (8 - (hi + lo)) (Some 0)
                         @ map parse_hextet (drop (length ps - lo) ps))))"
      unfolding parse_v6_parts_def Let_def skip list.case hi_def lo_def by (rule refl)
    have "hi + lo + 1 \<le> 8" using assms unfolding eq by (auto split: if_splits)
    moreover have "map_option (be_int 65536)
              (opt_list (map parse_hextet (take hi ps) @ replicate (8 - (hi + lo)) (Some 0)
                         @ map parse_hextet (drop (length ps - lo) ps))) = Some n"
      using assms unfolding eq by (simp only: option.distinct split: if_splits)
    ultimately obtain ds where ds: "hi + lo + 1 \<le> 8" "n = be_int 65536 ds"
      "opt_list (map parse_hextet (take hi ps) @ replicate (8 - (hi + lo)) (Some 0) @ map parse_hextet (drop (length ps - lo) ps)) = Some ds"
      unfolding map_option_eq_Some by blast
    have "hi \<le> length ps" "lo \<le> length ps" using i by (auto simp: hi_def lo_def)
    then have len: "length (map parse_hextet (take hi ps) @ replicate (8 - (hi + lo)) (Some 0) @ map parse_hextet (drop (length ps - lo) ps)) = 8"
      using ds(1) by simp
    show ?thesis unfolding ds(2)
      by (rule hextets_range [OF ds(3) len]) (use hex in \<open>auto split: if_splits\<close>)
  next
    case more
    then show ?thesis using assms by (auto simp: parse_v6_parts_def Let_def split: if_splits list.splits)
  qed
qed

lemma parse_ipv6_range: "parse_ipv6 s = Some n \<Longrightarrow> 0 \<le> n \<and> n < 2 ^ 128"
  unfolding parse_ipv6_def Let_def
  by (auto intro: parse_v6_parts_range [THEN conjunct1] parse_v6_parts_range [THEN conjunct2]
      simp del: power_numeral split: if_splits option.splits)

lemma v6_prefix_le: "v6_prefix s = Some p \<Longrightarrow> p \<le> 128"
  by (auto simp: v6_prefix_def Let_def split: if_splits)

lemma ip_network_wf:
  assumes "ip_network s = Some net"
  shows "wf_net net"
proof (cases "net_version net = 4")
  case True
  then show ?thesis using ip_network_v4_wf [OF assms] by simp
next
  case False
  obtain a p where i: "ip_interface s = Some (a, p)" "net = make_net (addr_version a) (addr_int a) p"
    using assms by (auto simp: ip_network_def)
  have "addr_version a \<noteq> 4" using False i(2) by (auto simp: make_net_def)
  then obtain n z where a: "a = IPv6Address n z" by (cases a) auto
  have "(0 \<le> n \<and> n < 2 ^ 128) \<and> p \<le> 128"
    using i(1) a parse_ipv6_range v6_prefix_le
    by (auto simp: ip_interface_def ip_address_def parse_ipv6_scoped_def Let_def
        split: list.splits option.splits if_splits)
  then show ?thesis using i(2) a wf_make_net [of 6 n p] by simp
qed

lemma roa_of_line_wf:
  assumes "roa_of_line raw = Some e"
  shows "wf_net (roa_network e)"
proof -
  obtain caps where caps: "rx_search roa_line_rx (strip raw) = Some caps"
    using assms by (auto simp: roa_of_line_def Let_def split: if_splits option.splits)
  obtain net where net: "ip_network (the (grp ''net'' caps)) = Some net"
    using assms caps by (auto simp: roa_of_line_def Let_def split: if_splits option.splits)
  have "roa_network e = net"
    using assms unfolding roa_of_line_def Let_def caps option.case net by (auto split: if_splits)
  then show ?thesis using ip_network_wf [OF net] by simp
qed

lemma roa_entries_wf: "e \<in> set (roa_entries t) \<Longrightarrow> wf_net (roa_network e)"
  by (auto simp: roa_entries_def split: option.splits intro: roa_of_line_wf)

text \<open>C35: The prefix-length index is RFC 6811.  For every ROA table BIRD prints, every route prefix and every
  origin, the indexed classification equals the linear scan that keeps the entries of the same version
  whose network contains the prefix and asks whether one of them permits the origin at that length.\<close>

theorem rpki_index_is_rfc6811:
  "rpki_classify (rpki_from_bird t) prefix origin = rfc6811 (roa_entries t) (ip_network prefix) origin"
proof (cases "ip_network prefix")
  case None
  then show ?thesis by (simp add: rpki_classify_def rfc6811_def)
next
  case (Some n)
  have set_cov: "set (covering (rpki_from_bird t) n) =
      set (filter (\<lambda>e. net_version (roa_network e) = net_version n \<and> subnet_of n (roa_network e)) (roa_entries t))"
    unfolding rpki_from_bird_def by (subst covering_set [OF ip_network_wf [OF Some] roa_entries_wf]) auto
  then have "covering (rpki_from_bird t) n = [] \<longleftrightarrow>
      filter (\<lambda>e. net_version (roa_network e) = net_version n \<and> subnet_of n (roa_network e)) (roa_entries t) = []"
    by (metis set_empty)
  then show ?thesis
    unfolding rpki_classify_def rfc6811_def classify_net_def Some option.case Let_def list_ex_iff set_cov
    by (cases origin) (auto simp: set_cov)
qed

section \<open>What was received before the import filter\<close>

record prefilter_route =
  pr_prefix :: string
  pr_origin_asn :: "int option"
  pr_protocol :: string
  pr_reason :: "string option"

record prefilter_peer =
  pp_protocol :: string
  pp_remote_asn :: "int option"
  pp_received :: int
  pp_accepted :: int
  pp_valid :: int
  pp_invalid :: int
  pp_not_found :: int

record prefilter_rpki =
  pf_received :: int
  pf_accepted :: int
  pf_valid :: int
  pf_invalid :: int
  pf_not_found :: int
  pf_peers :: "prefilter_peer list"
  pf_invalid_routes :: "prefilter_route list"
  pf_filtered_routes :: "prefilter_route list"

definition asn_field_ok :: "int option \<Rightarrow> bool" where
  "asn_field_ok a \<longleftrightarrow> opt_ok (\<lambda>n. 1 \<le> n \<and> n \<le> 4294967295) a"

definition new_prefilter_route :: "string \<Rightarrow> int option \<Rightarrow> string \<Rightarrow> string option \<Rightarrow> prefilter_route res" where
  "new_prefilter_route prefix origin proto reason =
     checks [(\<not> asn_field_ok origin, ValueError ''origin_asn'')]
       \<lparr>pr_prefix = prefix, pr_origin_asn = origin, pr_protocol = proto, pr_reason = reason\<rparr>"

definition MAX_INVALID_ROUTES :: nat where "MAX_INVALID_ROUTES = 200"
definition MAX_FILTERED_ROUTES :: nat where "MAX_FILTERED_ROUTES = 5000"

text \<open>The running state: the peer's three counts and its votes, and the two lists of all peers.\<close>

record tally =
  ta_valid :: int
  ta_invalid :: int
  ta_not_found :: int
  ta_votes :: "(int \<times> int) list"
  ta_invalid_routes :: "prefilter_route list"
  ta_filtered_routes :: "prefilter_route list"

definition route_verdict :: "rpki_index option \<Rightarrow> raw_route \<Rightarrow> rpki_verdict option" where
  "route_verdict index r = (case index of None \<Rightarrow> None | Some ix \<Rightarrow> classify_net ix (route_network r) (origin_asn r))"

definition count_verdict :: "rpki_verdict option \<Rightarrow> tally \<Rightarrow> tally" where
  "count_verdict v t =
     (case v of None \<Rightarrow> t
      | Some Rpki_Valid \<Rightarrow> t\<lparr>ta_valid := ta_valid t + 1\<rparr>
      | Some Rpki_Invalid \<Rightarrow> t\<lparr>ta_invalid := ta_invalid t + 1\<rparr>
      | Some Rpki_Not_Found \<Rightarrow> t\<lparr>ta_not_found := ta_not_found t + 1\<rparr>)"

definition note_invalid :: "string \<Rightarrow> raw_route \<Rightarrow> rpki_verdict option \<Rightarrow> tally \<Rightarrow> tally res" where
  "note_invalid proto r v t =
     (if v = Some Rpki_Invalid \<and> length (ta_invalid_routes t) < MAX_INVALID_ROUTES
      then rbind (new_prefilter_route (rr_prefix r) (origin_asn r) proto None) (\<lambda>pr.
             Inr (t\<lparr>ta_invalid_routes := ta_invalid_routes t @ [pr]\<rparr>))
      else Inr t)"

definition note_filtered ::
  "reject_policy option \<Rightarrow> (string \<times> string) list \<Rightarrow> string \<Rightarrow> raw_route \<Rightarrow> rpki_verdict option \<Rightarrow> tally \<Rightarrow> tally res" where
  "note_filtered policy accepted_keys proto r v t =
     (if accepted_keys \<noteq> [] \<and> v \<noteq> Some Rpki_Invalid \<and> (rr_prefix r, proto) \<notin> set accepted_keys \<and>
         length (ta_filtered_routes t) < MAX_FILTERED_ROUTES
      then rbind (new_prefilter_route (rr_prefix r) (origin_asn r) proto
                    (Some (classify_reject_reason (rr_as_path r) policy (route_network r)))) (\<lambda>pr.
             Inr (t\<lparr>ta_filtered_routes := ta_filtered_routes t @ [pr]\<rparr>))
      else Inr t)"

definition vote :: "raw_route \<Rightarrow> tally \<Rightarrow> tally" where
  "vote r t =
     (case rr_as_path r of [] \<Rightarrow> t
      | a # _ \<Rightarrow> t\<lparr>ta_votes := dput a (get_or 0 a (ta_votes t) + 1) (ta_votes t)\<rparr>)"

definition prefilter_route_step ::
  "rpki_index option \<Rightarrow> reject_policy option \<Rightarrow> (string \<times> string) list \<Rightarrow> string \<Rightarrow> tally \<Rightarrow> raw_route \<Rightarrow> tally res" where
  "prefilter_route_step index policy keys proto t r =
     (let v = route_verdict index r in
      rbind (note_invalid proto r v (count_verdict v t)) (\<lambda>t.
      rbind (note_filtered policy keys proto r v t) (\<lambda>t. Inr (vote r t))))"

text \<open>\<open>max(d, key=d.get)\<close>: the first key with the largest value.\<close>

definition most_votes :: "(int \<times> int) list \<Rightarrow> int option" where
  "most_votes votes =
     (case votes of [] \<Rightarrow> None
      | (a, n) # rest \<Rightarrow> Some (fst (foldl (\<lambda>(b, m) (c, k). if m < k then (c, k) else (b, m)) (a, n) rest)))"

definition prefilter_peer_step ::
  "rpki_index option \<Rightarrow> reject_policy option \<Rightarrow> (string \<times> string) list \<Rightarrow> (string \<times> int) list \<Rightarrow>
   prefilter_rpki \<Rightarrow> string \<times> raw_route list \<Rightarrow> prefilter_rpki res" where
  "prefilter_peer_step index policy keys accepted out pr =
     (case pr of (proto, routes) \<Rightarrow>
       rbind (rfold (prefilter_route_step index policy keys proto)
                \<lparr>ta_valid = 0, ta_invalid = 0, ta_not_found = 0, ta_votes = [],
                 ta_invalid_routes = pf_invalid_routes out, ta_filtered_routes = pf_filtered_routes out\<rparr> routes) (\<lambda>t.
       let remote = most_votes (ta_votes t); acc = get_or 0 proto accepted in
       if \<not> asn_field_ok remote then Inl (ValueError ''remote_asn'')
       else Inr \<lparr>pf_received = pf_received out + int (length routes), pf_accepted = pf_accepted out + acc,
              pf_valid = pf_valid out + ta_valid t, pf_invalid = pf_invalid out + ta_invalid t,
              pf_not_found = pf_not_found out + ta_not_found t,
              pf_peers = pf_peers out @ [\<lparr>pp_protocol = proto, pp_remote_asn = remote, pp_received = int (length routes),
                 pp_accepted = acc, pp_valid = ta_valid t, pp_invalid = ta_invalid t, pp_not_found = ta_not_found t\<rparr>],
              pf_invalid_routes = ta_invalid_routes t, pf_filtered_routes = ta_filtered_routes t\<rparr>))"

text \<open>\<open>peers.sort(key=..., reverse=True)\<close> is stable: equal keys keep their order.\<close>

definition sort_desc :: "('a \<Rightarrow> 'k::linorder) \<Rightarrow> 'a list \<Rightarrow> 'a list" where
  "sort_desc key xs = rev (sort_key key (rev xs))"

definition peer_rank :: "prefilter_peer \<Rightarrow> int \<times> int" where
  "peer_rank p = (pp_invalid p + pp_not_found p, pp_received p)"

definition aggregate_prefilter ::
  "(string \<times> raw_route list) list \<Rightarrow> (string \<times> int) list \<Rightarrow> rpki_index option \<Rightarrow> (string \<times> string) list \<Rightarrow>
   reject_policy option \<Rightarrow> prefilter_rpki res" where
  "aggregate_prefilter per_proto accepted index keys policy =
     rbind (rfold (prefilter_peer_step index policy keys accepted)
              \<lparr>pf_received = 0, pf_accepted = 0, pf_valid = 0, pf_invalid = 0, pf_not_found = 0,
               pf_peers = [], pf_invalid_routes = [], pf_filtered_routes = []\<rparr> per_proto)
       (\<lambda>out. Inr (out\<lparr>pf_peers := sort_desc peer_rank (pf_peers out)\<rparr>))"

section \<open>The observer\<close>

record observed_route =
  or_prefix :: string
  or_origin_asn :: "int option"
  or_as_path :: "int list"
  or_next_hop :: "string option"
  or_protocol :: "string option"
  or_primary :: bool
  or_local :: bool
  or_communities :: "string list"
  or_large_communities :: "string list"
  or_rpki :: "string option"

text \<open>The model's constructor validates and normalises the prefix.\<close>

definition observe_route :: "rpki_index option \<Rightarrow> raw_route \<Rightarrow> observed_route res" where
  "observe_route index r =
     (let is_local = (rr_as_path r = []);
          rpki = (if is_local then None else map_option verdict_text (route_verdict index r)) in
      rbind (validate_ip_network (rr_prefix r)) (\<lambda>prefix.
      checks [(\<not> asn_field_ok (origin_asn r), ValueError ''origin_asn'')]
        \<lparr>or_prefix = prefix, or_origin_asn = origin_asn r, or_as_path = rr_as_path r, or_next_hop = rr_next_hop r,
         or_protocol = rr_protocol r, or_primary = rr_primary r, or_local = is_local,
         or_communities = rr_communities r, or_large_communities = rr_large_communities r, or_rpki = rpki\<rparr>))"

type_synonym bird_exec = "string list \<Rightarrow> (int \<times> string \<times> string) res"

definition concat_runner :: "bird_exec \<Rightarrow> string list list \<Rightarrow> string option" where
  "concat_runner run commands =
     (let outputs = concat (map (\<lambda>argv. case run argv of Inr (rc, out, _) \<Rightarrow> if rc = 0 then [out] else [] | Inl _ \<Rightarrow> []) commands) in
      if outputs = [] then None else Some (join [CHR 0x0A] outputs))"

definition ok_output :: "bird_exec \<Rightarrow> string list \<Rightarrow> string option" where
  "ok_output run argv = (case run argv of Inr (rc, out, _) \<Rightarrow> if rc = 0 then Some out else None | Inl _ \<Rightarrow> None)"

definition show_table :: "string list \<Rightarrow> string list" where
  "show_table args = [''birdc'', ''show'', ''route'', ''table''] @ args"

definition route_output :: "bird_exec \<Rightarrow> string option" where
  "route_output run = concat_runner run [show_table [''master4'', ''all''], show_table [''master6'', ''all'']]"

definition roa_output :: "bird_exec \<Rightarrow> string option" where
  "roa_output run = concat_runner run [show_table [''dn42_roa''], show_table [''dn42_roa_v6'']]"

definition import_table_output :: "bird_exec \<Rightarrow> string \<Rightarrow> string \<Rightarrow> string option" where
  "import_table_output run proto channel =
     ok_output run [''birdc'', ''show'', ''route'', ''import'', ''table'', proto @ ''.'' @ channel, ''all'']"

definition observe_routes :: "bird_exec \<Rightarrow> (observed_route list \<times> rpki_index option) option res" where
  "observe_routes run =
     (case route_output run of
        None \<Rightarrow> Inr None
      | Some out \<Rightarrow>
          (let index = map_option rpki_from_bird (roa_output run) in
           rbind (rfold (\<lambda>os r. rbind (observe_route index r) (\<lambda>o'. Inr (os @ [o']))) [] (parse_bird_routes out))
             (\<lambda>os. Inr (Some (os, index)))))"

text \<open>The routes of the main table by protocol, and their \<open>(prefix, protocol)\<close> keys.\<close>

definition accepted_keys_of :: "observed_route list \<Rightarrow> (string \<times> string) list" where
  "accepted_keys_of routes =
     remdups (concat (map (\<lambda>r. case or_protocol r of Some p \<Rightarrow> if p \<noteq> [] then [(or_prefix r, p)] else [] | None \<Rightarrow> []) routes))"

definition accepted_by_proto :: "observed_route list \<Rightarrow> (string \<times> int) list" where
  "accepted_by_proto routes =
     foldl (\<lambda>d r. case or_protocol r of
              Some p \<Rightarrow> if p \<noteq> [] then dput p (get_or 0 p d + 1) d else d | None \<Rightarrow> d) [] routes"

definition observe_prefilter ::
  "bird_exec \<Rightarrow> rpki_index option \<Rightarrow> observed_route list \<Rightarrow> reject_policy option \<Rightarrow> prefilter_rpki option res" where
  "observe_prefilter run index observed policy =
     (case ok_output run [''birdc'', ''show'', ''protocols''] of
        None \<Rightarrow> Inr None
      | Some protocols \<Rightarrow>
          (let ebgp = parse_ebgp_protocol_names protocols;
               per = foldl (\<lambda>d proto.
                       let collected = concat (map (\<lambda>channel.
                             case import_table_output run proto channel of
                               Some t \<Rightarrow> if t \<noteq> [] then parse_bird_routes t else [] | None \<Rightarrow> []) [''ipv4'', ''ipv6'']) in
                       if collected \<noteq> [] then dput proto collected d else d) [] ebgp in
           if ebgp = [] \<or> per = [] then Inr None
           else rbind (aggregate_prefilter per (accepted_by_proto observed) index (accepted_keys_of observed) policy)
                  (\<lambda>p. Inr (Some p))))"

record routing_snapshot =
  rs_node_id :: string
  rs_observation :: observation_status
  rs_routes :: "observed_route list"
  rs_prefilter :: "prefilter_rpki option"

definition own_nets_of :: "desired_state \<Rightarrow> ip_net list" where
  "own_nets_of s =
     concat (map (\<lambda>p. case ip_network p of Some n \<Rightarrow> [n] | None \<Rightarrow> [])
       (nd_ipv4_prefixes (ds_node s) @ nd_ipv6_prefixes (ds_node s)))"

definition collect_routing_snapshot :: "desired_state \<Rightarrow> bird_exec \<Rightarrow> routing_snapshot res" where
  "collect_routing_snapshot s run =
     (let snap = (\<lambda>obs routes pre. \<lparr>rs_node_id = nd_node_id (ds_node s), rs_observation = obs, rs_routes = routes,
                                    rs_prefilter = pre\<rparr>) in
      case service_container_by_role s BIRD_ROUTER of
        None \<Rightarrow> Inr (snap NOT_OBSERVED [] None)
      | Some _ \<Rightarrow>
          rbind (observe_routes run) (\<lambda>observed.
            case observed of
              None \<Rightarrow> Inr (snap UNAVAILABLE [] None)
            | Some (routes, index) \<Rightarrow>
                let policy = \<lparr>rj_own_nets = own_nets_of s, rj_rejected_asns = b2_rejected_asns (ds_bird s)\<rparr>;
                    pre = (case observe_prefilter run index routes (Some policy) of Inr p \<Rightarrow> p | Inl _ \<Rightarrow> None) in
                Inr (snap OBSERVED routes pre)))"

section \<open>The distribution is exact\<close>

definition invalid_entry :: "rpki_index option \<Rightarrow> string \<Rightarrow> raw_route \<Rightarrow> prefilter_route list" where
  "invalid_entry index proto r =
     (if route_verdict index r = Some Rpki_Invalid
      then [\<lparr>pr_prefix = rr_prefix r, pr_origin_asn = origin_asn r, pr_protocol = proto, pr_reason = None\<rparr>] else [])"

definition filtered_entry ::
  "rpki_index option \<Rightarrow> reject_policy option \<Rightarrow> (string \<times> string) list \<Rightarrow> string \<Rightarrow> raw_route \<Rightarrow> prefilter_route list" where
  "filtered_entry index policy keys proto r =
     (if keys \<noteq> [] \<and> route_verdict index r \<noteq> Some Rpki_Invalid \<and> (rr_prefix r, proto) \<notin> set keys
      then [\<lparr>pr_prefix = rr_prefix r, pr_origin_asn = origin_asn r, pr_protocol = proto,
             pr_reason = Some (classify_reject_reason (rr_as_path r) policy (route_network r))\<rparr>] else [])"

definition verdict_count :: "rpki_index option \<Rightarrow> rpki_verdict \<Rightarrow> raw_route list \<Rightarrow> int" where
  "verdict_count index v rs = int (length (filter (\<lambda>r. route_verdict index r = Some v) rs))"

lemma new_prefilter_route_Inr:
  "new_prefilter_route p a q w = Inr x \<Longrightarrow>
   x = \<lparr>pr_prefix = p, pr_origin_asn = a, pr_protocol = q, pr_reason = w\<rparr>"
  by (simp add: new_prefilter_route_def split: if_splits)

lemma take_take_append: "take n (take n xs @ ys) = take n (xs @ ys)"
  by (simp add: min_def)

lemma note_invalid_Inr:
  assumes "note_invalid proto r (route_verdict index r) t = Inr t'" "length (ta_invalid_routes t) \<le> MAX_INVALID_ROUTES"
  shows "t' = t\<lparr>ta_invalid_routes := take MAX_INVALID_ROUTES (ta_invalid_routes t @ invalid_entry index proto r)\<rparr>"
  using assms
  by (auto simp: note_invalid_def invalid_entry_def rbind_Inr_iff split: if_splits dest!: new_prefilter_route_Inr)

lemma note_filtered_Inr:
  assumes "note_filtered policy keys proto r (route_verdict index r) t = Inr t'"
    and "length (ta_filtered_routes t) \<le> MAX_FILTERED_ROUTES"
  shows "t' = t\<lparr>ta_filtered_routes := take MAX_FILTERED_ROUTES (ta_filtered_routes t @ filtered_entry index policy keys proto r)\<rparr>"
  using assms
  by (auto simp: note_filtered_def filtered_entry_def rbind_Inr_iff split: if_splits dest!: new_prefilter_route_Inr)

text \<open>What a tally knows of the routes seen so far.\<close>

definition tallied ::
  "rpki_index option \<Rightarrow> reject_policy option \<Rightarrow> (string \<times> string) list \<Rightarrow> string \<Rightarrow> tally \<Rightarrow> raw_route list \<Rightarrow> tally \<Rightarrow> bool" where
  "tallied index policy keys proto t rs t' \<longleftrightarrow>
     ta_valid t' = ta_valid t + verdict_count index Rpki_Valid rs \<and>
     ta_invalid t' = ta_invalid t + verdict_count index Rpki_Invalid rs \<and>
     ta_not_found t' = ta_not_found t + verdict_count index Rpki_Not_Found rs \<and>
     ta_invalid_routes t' = take MAX_INVALID_ROUTES (ta_invalid_routes t @ concat (map (invalid_entry index proto) rs)) \<and>
     ta_filtered_routes t' =
       take MAX_FILTERED_ROUTES (ta_filtered_routes t @ concat (map (filtered_entry index policy keys proto) rs))"

lemma vote_simps [simp]:
  "ta_valid (vote r t) = ta_valid t" "ta_invalid (vote r t) = ta_invalid t" "ta_not_found (vote r t) = ta_not_found t"
  "ta_invalid_routes (vote r t) = ta_invalid_routes t" "ta_filtered_routes (vote r t) = ta_filtered_routes t"
  by (simp_all add: vote_def split: list.splits)

lemma count_verdict_simps [simp]:
  "ta_invalid_routes (count_verdict v t) = ta_invalid_routes t" "ta_filtered_routes (count_verdict v t) = ta_filtered_routes t"
  "ta_valid (count_verdict v t) = ta_valid t + (if v = Some Rpki_Valid then 1 else 0)"
  "ta_invalid (count_verdict v t) = ta_invalid t + (if v = Some Rpki_Invalid then 1 else 0)"
  "ta_not_found (count_verdict v t) = ta_not_found t + (if v = Some Rpki_Not_Found then 1 else 0)"
  by (simp_all add: count_verdict_def split: option.splits rpki_verdict.splits)

lemma route_step_tallied:
  assumes "prefilter_route_step index policy keys proto t r = Inr t'"
    and "length (ta_invalid_routes t) \<le> MAX_INVALID_ROUTES" "length (ta_filtered_routes t) \<le> MAX_FILTERED_ROUTES"
  shows "tallied index policy keys proto t [r] t'"
proof -
  let ?v = "route_verdict index r"
  obtain u where u: "note_invalid proto r ?v (count_verdict ?v t) = Inr u"
    using assms(1) by (auto simp: prefilter_route_step_def Let_def rbind_Inr_iff)
  obtain w where w: "note_filtered policy keys proto r ?v u = Inr w"
    using assms(1) u by (auto simp: prefilter_route_step_def Let_def rbind_Inr_iff)
  have t': "t' = vote r w" using assms(1) u w by (simp add: prefilter_route_step_def Let_def)
  have u': "u = (count_verdict ?v t)\<lparr>ta_invalid_routes := take MAX_INVALID_ROUTES (ta_invalid_routes t @ invalid_entry index proto r)\<rparr>"
    using note_invalid_Inr [OF u] assms(2) by simp
  have w': "w = u\<lparr>ta_filtered_routes := take MAX_FILTERED_ROUTES (ta_filtered_routes t @ filtered_entry index policy keys proto r)\<rparr>"
    using note_filtered_Inr [OF w] assms(3) u' by simp
  show ?thesis by (simp add: t' w' u' tallied_def verdict_count_def)
qed

lemma tallied_bounded:
  "tallied index policy keys proto t rs t' \<Longrightarrow>
   length (ta_invalid_routes t') \<le> MAX_INVALID_ROUTES \<and> length (ta_filtered_routes t') \<le> MAX_FILTERED_ROUTES"
  by (simp only: tallied_def length_take) simp

lemma tallied_Cons:
  assumes "tallied index policy keys proto t [r] u" "tallied index policy keys proto u rs t'"
  shows "tallied index policy keys proto t (r # rs) t'"
  using assms unfolding tallied_def
  by (simp add: verdict_count_def take_take_append del: take_append)

lemma routes_tallied:
  "rfold (prefilter_route_step index policy keys proto) t rs = Inr t' \<Longrightarrow>
   length (ta_invalid_routes t) \<le> MAX_INVALID_ROUTES \<Longrightarrow> length (ta_filtered_routes t) \<le> MAX_FILTERED_ROUTES \<Longrightarrow>
   tallied index policy keys proto t rs t'"
proof (induction rs arbitrary: t)
  case Nil
  then show ?case by (simp add: tallied_def verdict_count_def)
next
  case (Cons r rs)
  obtain u where u: "prefilter_route_step index policy keys proto t r = Inr u"
    "rfold (prefilter_route_step index policy keys proto) u rs = Inr t'"
    using Cons.prems(1) by (auto simp: rbind_Inr_iff)
  have 1: "tallied index policy keys proto t [r] u" using u(1) Cons.prems(2,3) by (rule route_step_tallied)
  show ?case by (rule tallied_Cons [OF 1 Cons.IH [OF u(2)]]) (use tallied_bounded [OF 1] in simp_all)
qed

text \<open>All received routes with their peers, in the order of collection.\<close>

definition received_pairs :: "(string \<times> raw_route list) list \<Rightarrow> (string \<times> raw_route) list" where
  "received_pairs per = concat (map (\<lambda>(proto, rs). map (Pair proto) rs) per)"

definition peer_stat_ok :: "rpki_index option \<Rightarrow> (string \<times> int) list \<Rightarrow> string \<times> raw_route list \<Rightarrow> prefilter_peer \<Rightarrow> bool" where
  "peer_stat_ok index accepted pr p \<longleftrightarrow>
     pp_protocol p = fst pr \<and> pp_received p = int (length (snd pr)) \<and> pp_accepted p = get_or 0 (fst pr) accepted \<and>
     pp_valid p = verdict_count index Rpki_Valid (snd pr) \<and> pp_invalid p = verdict_count index Rpki_Invalid (snd pr) \<and>
     pp_not_found p = verdict_count index Rpki_Not_Found (snd pr)"

definition aggregated ::
  "rpki_index option \<Rightarrow> reject_policy option \<Rightarrow> (string \<times> string) list \<Rightarrow> (string \<times> int) list \<Rightarrow>
   prefilter_rpki \<Rightarrow> (string \<times> raw_route list) list \<Rightarrow> prefilter_rpki \<Rightarrow> bool" where
  "aggregated index policy keys accepted a per b \<longleftrightarrow>
     (let rs = concat (map snd per) in
      pf_received b = pf_received a + int (length rs) \<and>
      pf_accepted b = pf_accepted a + sum_list (map (\<lambda>(proto, _). get_or 0 proto accepted) per) \<and>
      pf_valid b = pf_valid a + verdict_count index Rpki_Valid rs \<and>
      pf_invalid b = pf_invalid a + verdict_count index Rpki_Invalid rs \<and>
      pf_not_found b = pf_not_found a + verdict_count index Rpki_Not_Found rs \<and>
      (\<exists>ps. pf_peers b = pf_peers a @ ps \<and> list_all2 (peer_stat_ok index accepted) per ps) \<and>
      pf_invalid_routes b = take MAX_INVALID_ROUTES
        (pf_invalid_routes a @ concat (map (\<lambda>(proto, r). invalid_entry index proto r) (received_pairs per))) \<and>
      pf_filtered_routes b = take MAX_FILTERED_ROUTES
        (pf_filtered_routes a @ concat (map (\<lambda>(proto, r). filtered_entry index policy keys proto r) (received_pairs per))))"

lemma verdict_count_append: "verdict_count index v (xs @ ys) = verdict_count index v xs + verdict_count index v ys"
  by (simp add: verdict_count_def)

lemma peer_step_aggregated:
  assumes "prefilter_peer_step index policy keys accepted a (proto, rs) = Inr b"
    and "length (pf_invalid_routes a) \<le> MAX_INVALID_ROUTES" "length (pf_filtered_routes a) \<le> MAX_FILTERED_ROUTES"
  shows "aggregated index policy keys accepted a [(proto, rs)] b"
proof -
  let ?t = "\<lparr>ta_valid = 0, ta_invalid = 0, ta_not_found = 0, ta_votes = [],
             ta_invalid_routes = pf_invalid_routes a, ta_filtered_routes = pf_filtered_routes a\<rparr>"
  obtain t where t: "rfold (prefilter_route_step index policy keys proto) ?t rs = Inr t"
    using assms(1) by (auto simp: prefilter_peer_step_def rbind_Inr_iff)
  have tal: "tallied index policy keys proto ?t rs t"
    by (rule routes_tallied [OF t]) (use assms(2,3) in simp_all)
  have b: "b = \<lparr>pf_received = pf_received a + int (length rs), pf_accepted = pf_accepted a + get_or 0 proto accepted,
              pf_valid = pf_valid a + ta_valid t, pf_invalid = pf_invalid a + ta_invalid t,
              pf_not_found = pf_not_found a + ta_not_found t,
              pf_peers = pf_peers a @ [\<lparr>pp_protocol = proto, pp_remote_asn = most_votes (ta_votes t),
                 pp_received = int (length rs), pp_accepted = get_or 0 proto accepted, pp_valid = ta_valid t,
                 pp_invalid = ta_invalid t, pp_not_found = ta_not_found t\<rparr>],
              pf_invalid_routes = ta_invalid_routes t, pf_filtered_routes = ta_filtered_routes t\<rparr>"
    using assms(1) unfolding prefilter_peer_step_def prod.case t rbind_simps Let_def by (simp split: if_splits)
  show ?thesis
    using tal unfolding aggregated_def tallied_def b
    by (simp add: received_pairs_def peer_stat_ok_def comp_def del: take_append)
qed

lemma aggregated_bounded:
  "aggregated index policy keys accepted a per b \<Longrightarrow>
   length (pf_invalid_routes b) \<le> MAX_INVALID_ROUTES \<and> length (pf_filtered_routes b) \<le> MAX_FILTERED_ROUTES"
  by (simp only: aggregated_def Let_def length_take) simp

lemma aggregated_Cons:
  assumes "aggregated index policy keys accepted a [pr] c" "aggregated index policy keys accepted c per b"
  shows "aggregated index policy keys accepted a (pr # per) b"
proof -
  obtain ps where ps: "pf_peers c = pf_peers a @ ps" "list_all2 (peer_stat_ok index accepted) [pr] ps"
    using assms(1) unfolding aggregated_def Let_def by blast
  obtain qs where qs: "pf_peers b = pf_peers c @ qs" "list_all2 (peer_stat_ok index accepted) per qs"
    using assms(2) unfolding aggregated_def Let_def by blast
  have peers: "\<exists>rs. pf_peers b = pf_peers a @ rs \<and> list_all2 (peer_stat_ok index accepted) (pr # per) rs"
    using ps qs list_all2_appendI [OF ps(2) qs(2)] by auto
  show ?thesis
    using assms peers unfolding aggregated_def Let_def
    by (simp add: verdict_count_append take_take_append received_pairs_def split_def del: take_append)
qed

lemma peers_aggregated:
  "rfold (prefilter_peer_step index policy keys accepted) a per = Inr b \<Longrightarrow>
   length (pf_invalid_routes a) \<le> MAX_INVALID_ROUTES \<Longrightarrow> length (pf_filtered_routes a) \<le> MAX_FILTERED_ROUTES \<Longrightarrow>
   aggregated index policy keys accepted a per b"
proof (induction per arbitrary: a)
  case Nil
  then show ?case by (simp add: aggregated_def received_pairs_def verdict_count_def)
next
  case (Cons pr per)
  obtain c where c: "prefilter_peer_step index policy keys accepted a pr = Inr c"
    "rfold (prefilter_peer_step index policy keys accepted) c per = Inr b"
    using Cons.prems(1) by (auto simp: rbind_Inr_iff)
  have 1: "aggregated index policy keys accepted a [pr] c"
    using peer_step_aggregated [of index policy keys accepted a "fst pr" "snd pr" c] c(1) Cons.prems(2,3) by simp
  show ?case by (rule aggregated_Cons [OF 1 Cons.IH [OF c(2)]]) (use aggregated_bounded [OF 1] in simp_all)
qed

lemma sort_desc_facts: "mset (sort_desc f xs) = mset xs" "sorted (rev (map f (sort_desc f xs)))"
proof -
  show "mset (sort_desc f xs) = mset xs" by (simp add: sort_desc_def mset_sort mset_rev)
  show "sorted (rev (map f (sort_desc f xs)))" by (simp add: sort_desc_def rev_map)
qed

text \<open>C36: The distribution before filtering is exact.  Whenever it can be built, the three totals count the
  received routes by their RPKI verdict and together never exceed what was received; the listed invalid
  and rejected routes are exactly the first 200 and 5000 of all received routes that are invalid, or that
  are not invalid and absent from the main table (with an empty main table none is listed as rejected); and the
  peers are those collected, each with its own
  counts, in descending order of refused routes.\<close>

theorem prefilter_distribution_exact:
  assumes "aggregate_prefilter per accepted index keys policy = Inr out"
  defines "rs \<equiv> concat (map snd per)"
  shows "pf_received out = int (length rs) \<and>
     pf_valid out = verdict_count index Rpki_Valid rs \<and> pf_invalid out = verdict_count index Rpki_Invalid rs \<and>
     pf_not_found out = verdict_count index Rpki_Not_Found rs \<and>
     pf_valid out + pf_invalid out + pf_not_found out \<le> pf_received out \<and>
     pf_invalid_routes out =
       take 200 (concat (map (\<lambda>(proto, r). invalid_entry index proto r) (received_pairs per))) \<and>
     pf_filtered_routes out =
       take 5000 (concat (map (\<lambda>(proto, r). filtered_entry index policy keys proto r) (received_pairs per))) \<and>
     (\<exists>ps. mset (pf_peers out) = mset ps \<and> list_all2 (peer_stat_ok index accepted) per ps) \<and>
     sorted (rev (map peer_rank (pf_peers out)))"
proof -
  obtain b where b: "rfold (prefilter_peer_step index policy keys accepted)
      \<lparr>pf_received = 0, pf_accepted = 0, pf_valid = 0, pf_invalid = 0, pf_not_found = 0,
       pf_peers = [], pf_invalid_routes = [], pf_filtered_routes = []\<rparr> per = Inr b"
    "out = b\<lparr>pf_peers := sort_desc peer_rank (pf_peers b)\<rparr>"
    using assms(1) by (auto simp: aggregate_prefilter_def rbind_Inr_iff)
  have agg: "aggregated index policy keys accepted
      \<lparr>pf_received = 0, pf_accepted = 0, pf_valid = 0, pf_invalid = 0, pf_not_found = 0,
       pf_peers = [], pf_invalid_routes = [], pf_filtered_routes = []\<rparr> per b"
    by (rule peers_aggregated [OF b(1)]) simp_all
  have "verdict_count index Rpki_Valid rs + verdict_count index Rpki_Invalid rs + verdict_count index Rpki_Not_Found rs
      \<le> int (length rs)"
    by (induction rs) (auto simp: verdict_count_def)
  moreover have "sorted (rev (map peer_rank (pf_peers out)))" by (simp add: b(2) sort_desc_facts(2) del: rev_map)
  ultimately show ?thesis
    using agg unfolding aggregated_def Let_def b(2) MAX_INVALID_ROUTES_def MAX_FILTERED_ROUTES_def rs_def [symmetric]
    by (auto simp: sort_desc_facts(1))
qed

definition example_route :: "string \<Rightarrow> int list \<Rightarrow> raw_route" where
  "example_route prefix as_path = \<lparr>rr_prefix = prefix, rr_protocol = Some ''peer1'', rr_primary = False,
     rr_origin_header = None, rr_next_hop = None, rr_as_path = as_path, rr_communities = [], rr_large_communities = []\<rparr>"

definition example_index :: rpki_index where
  "example_index = new_rpki_index [\<lparr>roa_network = v4net 172 20 0 0 16, roa_max_len = 24, roa_asn = 4242420001\<rparr>]"

definition example_received :: "(string \<times> raw_route list) list" where
  "example_received = [(''peer1'', [example_route ''172.20.1.0/24'' [4242420002, 4242420001],
     example_route ''172.20.1.0/26'' [4242420002, 4242420001], example_route ''10.0.0.0/8'' [4242420002]])]"

lemma example_received_aggregates:
  "\<not> isl (aggregate_prefilter example_received [] (Some example_index) [(''x'', ''peer2'')] None)"
  by code_simp

theorem prefilter_distribution_exact_witness:
  "\<exists>out. aggregate_prefilter example_received [] (Some example_index) [(''x'', ''peer2'')] None = Inr out \<and> pf_received out = 3"
proof -
  obtain out where out: "aggregate_prefilter example_received [] (Some example_index) [(''x'', ''peer2'')] None = Inr out"
    using example_received_aggregates by (cases "aggregate_prefilter example_received [] (Some example_index) [(''x'', ''peer2'')] None") auto
  have "pf_received out = int (length (concat (map snd example_received)))"
    using prefilter_distribution_exact [OF out] by (rule conjunct1)
  then show ?thesis using out by (simp add: example_received_def)
qed

text \<open>Concrete lines: a header with its attributes, and a ROA with its length limit.\<close>

lemma example_bird_output:
  "map (\<lambda>r. (rr_prefix r, rr_protocol r, rr_primary r, origin_asn r))
     (parse_bird_routes ''172.20.1.0/24 unicast [p1 10:00] * (100) [AS4242420001i]'') =
   [(''172.20.1.0/24'', Some ''p1'', True, Some 4242420001)]"
  by code_simp

lemma example_roa_output:
  "map (\<lambda>e. (roa_network e, roa_max_len e, roa_asn e)) (roa_entries ''172.20.0.0/16-24 AS4242420001 [rpki] * (100)'') =
   [(v4net 172 20 0 0 16, 24, 4242420001)]"
  by code_simp

end
