(* ===== verification/Reresolve.thy ===== *)
theory Reresolve
  imports L3_Heal Ipaddress
begin

text \<open>
  Re-resolving WireGuard endpoints: \<open>reresolve.py\<close>.  \<open>docker exec\<close> and the report to the control server
  are arguments; the cached desired state is given as what reading it returned.
\<close>

definition STALE_HANDSHAKE_SECONDS :: int where
  "STALE_HANDSHAKE_SECONDS = 135"

record reresolve_target =
  rt_interface :: string
  rt_public_key :: string
  rt_endpoint :: string

definition index_of :: "char \<Rightarrow> string \<Rightarrow> nat option" where
  "index_of c s = (if c \<in> set s then Some (length (takeWhile (\<lambda>x. x \<noteq> c) s)) else None)"

text \<open>\<open>s.rsplit(c, 1)[0]\<close> for a \<open>c\<close> that occurs.\<close>

definition before_last :: "char \<Rightarrow> string \<Rightarrow> string" where
  "before_last c s = rev (after_first c (rev s))"

definition endpoint_host :: "string \<Rightarrow> string option" where
  "endpoint_host endpoint =
     (let ep = strip endpoint in
      if ep = [] then None
      else if starts_with ''['' ep
      then (case index_of CHR '']'' ep of
              None \<Rightarrow> None
            | Some close \<Rightarrow> if 1 < close then Some (take (close - 1) (drop 1 ep)) else None)
      else Some (if CHR '':'' \<in> set ep then before_last CHR '':'' ep else ep))"

definition is_hostname_endpoint :: "string \<Rightarrow> bool" where
  "is_hostname_endpoint endpoint =
     (case endpoint_host endpoint of None \<Rightarrow> False | Some host \<Rightarrow> host \<noteq> [] \<and> ip_address host = None)"

definition clean_endpoint :: "string option \<Rightarrow> string option" where
  "clean_endpoint v = (if \<not> truthy v \<or> v = Some ''(none)'' then None else v)"

definition collect_reresolve_targets :: "desired_state \<Rightarrow> reresolve_target list" where
  "collect_reresolve_targets s =
     concat (map (\<lambda>i.
       if if_kind i \<noteq> WIREGUARD then []
       else case if_wireguard_peer i of
           None \<Rightarrow> []
         | Some p \<Rightarrow>
             (case wp_endpoint p of
                None \<Rightarrow> []
              | Some ep \<Rightarrow>
                  if ep = [] \<or> \<not> is_hostname_endpoint ep then []
                  else [\<lparr>rt_interface = if_name i, rt_public_key = wp_public_key p, rt_endpoint = ep\<rparr>]))
       (ds_interfaces s))"

type_synonym wg_pairs = "((string \<times> string) \<times> string) list"

definition parse_wg_pairs :: "string \<Rightarrow> wg_pairs" where
  "parse_wg_pairs output =
     foldl (\<lambda>d line. case words line of i # k # v # _ \<Rightarrow> dput (i, k) v d | _ \<Rightarrow> d) [] (splitlines output)"

definition select_stale ::
  "reresolve_target list \<Rightarrow> wg_pairs \<Rightarrow> int \<Rightarrow> int \<Rightarrow> (reresolve_target \<times> int option) list" where
  "select_stale targets handshakes now threshold =
     concat (map (\<lambda>t.
       case map_of handshakes (rt_interface t, rt_public_key t) of
         None \<Rightarrow> []
       | Some raw \<Rightarrow>
           (let hs = (if isdigit raw then int_of_digits raw else 0) in
            if hs = 0 then [(t, None)]
            else if threshold < now - hs then [(t, Some (now - hs))] else [])) targets)"

section \<open>A round\<close>

definition show_all :: "string \<Rightarrow> string list" where
  "show_all what = [''wg'', ''show'', ''all'', what]"

definition set_endpoint :: "reresolve_target \<Rightarrow> string list" where
  "set_endpoint t = [''wg'', ''set'', rt_interface t, ''peer'', rt_public_key t, ''endpoint'', rt_endpoint t]"

text \<open>The parsed pairs, and the message to append to the errors when there are none.\<close>

definition read_wg_pairs :: "'w container_exec \<Rightarrow> string \<Rightarrow> string \<Rightarrow> ('w, wg_pairs option \<times> string list) eff" where
  "read_wg_pairs run c what =
     catching
       (seq (run c (show_all what)) (\<lambda>(rc, out, err).
          ret (if rc \<noteq> 0
               then (None, [''wg show all '' @ what @ '': rc='' @ str_int rc @ '' '' @ strip err])
               else (Some (parse_wg_pairs out), []))))
       (\<lambda>e. ret (None, [''wg show all '' @ what @ '': '' @ exc_str e]))"

definition reset_endpoint :: "'w container_exec \<Rightarrow> string \<Rightarrow> reresolve_target \<Rightarrow> ('w, string option) eff" where
  "reset_endpoint run c t =
     catching
       (seq (run c (set_endpoint t)) (\<lambda>(rc, _, err).
          ret (if rc = 0 then None
               else Some (''wg set '' @ rt_interface t @ '': rc='' @ str_int rc @ '' '' @ strip err))))
       (\<lambda>e. ret (Some (''wg set '' @ rt_interface t @ '': '' @ exc_str e)))"

text \<open>The loop over the stale targets: those that were reset, and the errors.\<close>

fun reset_all ::
  "'w container_exec \<Rightarrow> string \<Rightarrow> (reresolve_target \<times> int option) list \<Rightarrow>
   ('w, (reresolve_target \<times> int option) list \<times> string list) eff" where
  "reset_all run c [] = ret ([], [])"
| "reset_all run c (ta # tas) =
     seq (reset_endpoint run c (fst ta)) (\<lambda>err.
     seq (reset_all run c tas) (\<lambda>(ok, errs).
       ret (case err of None \<Rightarrow> (ta # ok, errs) | Some e \<Rightarrow> (ok, e # errs))))"

record reresolve_entry =
  re_interface :: string
  re_public_key :: string
  re_endpoint :: string
  re_previous :: "string option"
  re_resolved :: "string option"
  re_stale_seconds :: "int option"

record reresolve_report =
  rp_checked :: int
  rp_reresolved :: "reresolve_entry list"
  rp_errors :: "string list"

definition entry_of :: "wg_pairs \<Rightarrow> wg_pairs \<Rightarrow> reresolve_target \<times> int option \<Rightarrow> reresolve_entry" where
  "entry_of before_ep after_ep ta =
     (case ta of (t, age) \<Rightarrow>
       \<lparr>re_interface = rt_interface t, re_public_key = rt_public_key t, re_endpoint = rt_endpoint t,
        re_previous = clean_endpoint (map_of before_ep (rt_interface t, rt_public_key t)),
        re_resolved = clean_endpoint (map_of after_ep (rt_interface t, rt_public_key t)),
        re_stale_seconds = age\<rparr>)"

definition pairs_or_empty :: "wg_pairs option \<Rightarrow> wg_pairs" where
  "pairs_or_empty p = (case p of None \<Rightarrow> [] | Some x \<Rightarrow> x)"

definition reset_stale ::
  "'w container_exec \<Rightarrow> string \<Rightarrow> int \<Rightarrow> (reresolve_target \<times> int option) list \<Rightarrow> ('w, reresolve_report) eff" where
  "reset_stale run c checked stale =
     seq (read_wg_pairs run c ''endpoints'') (\<lambda>(before_ep, errs1).
     seq (reset_all run c stale) (\<lambda>(reset_ok, errs2).
     seq (read_wg_pairs run c ''endpoints'') (\<lambda>(after_ep, errs3).
       ret \<lparr>rp_checked = checked,
            rp_reresolved = map (entry_of (pairs_or_empty before_ep) (pairs_or_empty after_ep)) reset_ok,
            rp_errors = errs1 @ errs2 @ errs3\<rparr>)))"

text \<open>Reporting is best effort: what it raises is dropped.\<close>

definition reresolve_and_report ::
  "'w container_exec \<Rightarrow> (reresolve_report \<Rightarrow> ('w, unit) eff) option \<Rightarrow> desired_state option res \<Rightarrow> int \<Rightarrow>
   ('w, reresolve_report option) eff" where
  "reresolve_and_report run publish cached now =
     seq (lift_res cached) (\<lambda>state.
       case state of
         None \<Rightarrow> ret None
       | Some s \<Rightarrow>
           (case service_container_by_role s WG_GATEWAY of
              None \<Rightarrow> ret None
            | Some c \<Rightarrow>
                if collect_reresolve_targets s = [] then ret None
                else seq (read_wg_pairs run c ''latest-handshakes'') (\<lambda>(handshakes, _).
                  case handshakes of
                    None \<Rightarrow> ret None
                  | Some hs \<Rightarrow>
                      (let stale = select_stale (collect_reresolve_targets s) hs now STALE_HANDSHAKE_SECONDS in
                       if stale = [] then ret None
                       else seq (reset_stale run c (int (length (collect_reresolve_targets s))) stale) (\<lambda>report.
                            seq (if rp_reresolved report = [] then ret ()
                                 else case publish of
                                     None \<Rightarrow> ret ()
                                   | Some p \<Rightarrow> catching (p report) (\<lambda>_. ret ())) (\<lambda>_.
                              ret (Some report)))))))"

section \<open>Only stale hostname peers are touched\<close>

text \<open>A container that records what it is asked.\<close>

definition logged :: "'w container_exec \<Rightarrow> ('w \<times> string list list) container_exec" where
  "logged run c cmd st = (case run c cmd (fst st) of (r, w) \<Rightarrow> (r, (w, snd st @ [cmd])))"

text \<open>Reporting goes to the controller: it runs nothing in a container.\<close>

definition unlogged :: "('a \<Rightarrow> ('w, 'b) eff) \<Rightarrow> 'a \<Rightarrow> ('w \<times> string list list, 'b) eff" where
  "unlogged p x st = (case p x (fst st) of (r, w) \<Rightarrow> (r, (w, snd st)))"

lemma published_logged:
  "\<exists>w'. (if rp_reresolved report = [] then ret ()
         else case map_option unlogged publish of
             None \<Rightarrow> ret () | Some p \<Rightarrow> catching (p report) (\<lambda>_. ret ())) (w, tr) = (Inr (), (w', tr))"
  by (auto simp: catching_def unlogged_def split: option.split prod.splits sum.splits)

lemma read_wg_pairs_logged:
  "\<exists>r w'. read_wg_pairs (logged run) c what (w, tr) = (Inr r, (w', tr @ [show_all what]))"
  by (auto simp: read_wg_pairs_def catching_def seq_def logged_def split: prod.splits sum.splits)

lemma read_wg_pairs_handshakes:
  assumes "read_wg_pairs (logged run) c what (w, tr) = (Inr (Some ps, errs), st)"
  shows "\<exists>out err w'. run c (show_all what) w = (Inr (0, out, err), w') \<and> ps = parse_wg_pairs out"
  using assms
  by (auto simp: read_wg_pairs_def catching_def seq_def logged_def split: prod.splits sum.splits if_splits)

lemma reset_endpoint_logged:
  "\<exists>r w'. reset_endpoint (logged run) c t (w, tr) = (Inr r, (w', tr @ [set_endpoint t]))"
  by (auto simp: reset_endpoint_def catching_def seq_def logged_def split: prod.splits sum.splits)

lemma reset_all_logged:
  "\<exists>ok errs w'. reset_all (logged run) c tas (w, tr) = (Inr (ok, errs), (w', tr @ map (set_endpoint \<circ> fst) tas)) \<and>
     set ok \<subseteq> set tas"
proof (induction tas arbitrary: w tr)
  case (Cons ta tas)
  obtain r w1 where 1: "reset_endpoint (logged run) c (fst ta) (w, tr) = (Inr r, (w1, tr @ [set_endpoint (fst ta)]))"
    using reset_endpoint_logged [of run c "fst ta" w tr] by (elim exE)
  obtain ok errs w2 where 2: "reset_all (logged run) c tas (w1, tr @ [set_endpoint (fst ta)])
      = (Inr (ok, errs), (w2, (tr @ [set_endpoint (fst ta)]) @ map (set_endpoint \<circ> fst) tas))" "set ok \<subseteq> set tas"
    using Cons.IH [of w1 "tr @ [set_endpoint (fst ta)]"] by (elim exE conjE)
  show ?case using 1 2 by (cases r) (auto simp: seq_def)
qed simp

text \<open>A target is a configured peer of a WireGuard interface whose endpoint is a host name.\<close>

definition configured_hostname_peer :: "desired_state \<Rightarrow> reresolve_target \<Rightarrow> bool" where
  "configured_hostname_peer s t \<longleftrightarrow>
     (\<exists>i\<in>set (ds_interfaces s). \<exists>p. if_kind i = WIREGUARD \<and> if_wireguard_peer i = Some p \<and> if_name i = rt_interface t \<and>
        wp_public_key p = rt_public_key t \<and> wp_endpoint p = Some (rt_endpoint t) \<and> is_hostname_endpoint (rt_endpoint t))"

lemma targets_configured: "t \<in> set (collect_reresolve_targets s) \<Longrightarrow> configured_hostname_peer s t"
  unfolding collect_reresolve_targets_def configured_hostname_peer_def
  by (clarsimp split: if_splits option.splits) (metis (no_types))

lemma select_stale_mem:
  "(t, age) \<in> set (select_stale ts hs now th) \<Longrightarrow>
   t \<in> set ts \<and> (\<exists>raw. map_of hs (rt_interface t, rt_public_key t) = Some raw \<and>
     (isdigit raw \<and> int_of_digits raw \<noteq> 0 \<longrightarrow> th < now - int_of_digits raw))"
  by (auto simp: select_stale_def Let_def split: option.splits if_splits dest: sym)

text \<open>C40: Only stale peers with a host name are touched.  Besides reading, a round issues nothing but endpoint
  updates; each one is for a configured peer of a WireGuard interface whose endpoint is a host name, with
  the configured endpoint, and only if the kernel listed that very peer on that interface in this round,
  with no handshake or one older than 135 seconds, so no peer is ever created.  What was reset is reported through
  the session, if there is one; whatever the report does, it changes none of this.\<close>

theorem reresolve_touches_only_stale:
  assumes "reresolve_and_report (logged run) (map_option unlogged publish) (Inr (Some s)) now (w, []) = (r, (w', tr))"
    "cmd \<in> set tr"
  shows "cmd \<in> {show_all ''latest-handshakes'', show_all ''endpoints''} \<or>
     (\<exists>c out err w1 t raw. run c (show_all ''latest-handshakes'') w = (Inr (0, out, err), w1) \<and>
        cmd = set_endpoint t \<and> configured_hostname_peer s t \<and>
        map_of (parse_wg_pairs out) (rt_interface t, rt_public_key t) = Some raw \<and>
        (isdigit raw \<and> int_of_digits raw \<noteq> 0 \<longrightarrow> 135 < now - int_of_digits raw))"
proof (cases "service_container_by_role s WG_GATEWAY")
  case None
  then show ?thesis using assms by (simp add: reresolve_and_report_def seq_def)
next
  case (Some c)
  let ?ts = "collect_reresolve_targets s"
  show ?thesis
  proof (cases "?ts = []")
    case True
    then show ?thesis using assms Some by (simp add: reresolve_and_report_def seq_def)
  next
    case ne: False
    obtain ps errs w1 where rd: "read_wg_pairs (logged run) c ''latest-handshakes'' (w, []) =
        (Inr (ps, errs), (w1, [show_all ''latest-handshakes'']))"
      using read_wg_pairs_logged [of run c "''latest-handshakes''" w "[]"] by (auto simp: split_paired_Ex)
    show ?thesis
    proof (cases ps)
      case None
      then show ?thesis using assms Some ne rd by (auto simp: reresolve_and_report_def seq_def)
    next
      case hs: (Some hs)
      let ?stale = "select_stale ?ts hs now STALE_HANDSHAKE_SECONDS"
      obtain out err w0 where out: "run c (show_all ''latest-handshakes'') w = (Inr (0, out, err), w0)" "hs = parse_wg_pairs out"
        using read_wg_pairs_handshakes rd hs by metis
      obtain b1 w2 where 1: "read_wg_pairs (logged run) c ''endpoints'' (w1, [show_all ''latest-handshakes'']) =
          (Inr b1, (w2, [show_all ''latest-handshakes''] @ [show_all ''endpoints'']))"
        using read_wg_pairs_logged [of run c "''endpoints''" w1 "[show_all ''latest-handshakes'']"] by (elim exE)
      let ?l2 = "[show_all ''latest-handshakes''] @ [show_all ''endpoints'']"
      obtain ok errs2 w3 where 2: "reset_all (logged run) c ?stale (w2, ?l2) =
          (Inr (ok, errs2), (w3, ?l2 @ map (set_endpoint \<circ> fst) ?stale))"
        using reset_all_logged [of run c ?stale w2 ?l2] by (elim exE conjE)
      obtain b3 w4 where 3: "read_wg_pairs (logged run) c ''endpoints'' (w3, ?l2 @ map (set_endpoint \<circ> fst) ?stale) =
          (Inr b3, (w4, (?l2 @ map (set_endpoint \<circ> fst) ?stale) @ [show_all ''endpoints'']))"
        using read_wg_pairs_logged [of run c "''endpoints''" w3 "?l2 @ map (set_endpoint \<circ> fst) ?stale"] by (elim exE)
      let ?l4 = "(?l2 @ map (set_endpoint \<circ> fst) ?stale) @ [show_all ''endpoints'']"
      obtain report where 4: "reset_stale (logged run) c (int (length ?ts)) ?stale (w1, [show_all ''latest-handshakes'']) =
          (Inr report, (w4, ?l4))"
        using 1 2 3 by (auto simp: reset_stale_def seq_def split_def)
      obtain w5 where 5: "(if rp_reresolved report = [] then ret ()
          else case map_option unlogged publish of
             None \<Rightarrow> ret () | Some p \<Rightarrow> catching (p report) (\<lambda>_. ret ())) (w4, ?l4) = (Inr (), (w5, ?l4))"
        using published_logged [of report publish w4 ?l4] by (rule exE)
      have "tr = [show_all ''latest-handshakes''] \<or> tr = ?l4"
      proof (cases "?stale = []")
        case True
        then show ?thesis using assms(1) Some ne rd hs by (simp add: reresolve_and_report_def seq_def)
      next
        case False
        then have "reresolve_and_report (logged run) (map_option unlogged publish) (Inr (Some s)) now (w, []) =
            (Inr (Some report), (w5, ?l4))"
          using Some ne rd hs 5
          by (cases publish; cases "rp_reresolved report = []") (simp_all add: reresolve_and_report_def seq_def Let_def 4)
        then show ?thesis using assms(1) by simp
      qed
      then have "cmd \<in> {show_all ''latest-handshakes'', show_all ''endpoints''} \<or>
          cmd \<in> set_endpoint ` fst ` set ?stale"
        using assms(2) by (auto simp: image_comp)
      then show ?thesis
      proof
        assume "cmd \<in> set_endpoint ` fst ` set ?stale"
        then obtain t age where t: "(t, age) \<in> set ?stale" "cmd = set_endpoint t" by force
        show ?thesis
          using select_stale_mem [OF t(1)] t(2) targets_configured out
          unfolding STALE_HANDSHAKE_SECONDS_def by blast
      qed blast
    qed
  qed
qed

definition example_tunnel_state :: desired_state where
  "example_tunnel_state = example_state\<lparr>ds_interfaces :=
     [\<lparr>if_name = ''wg-a'', if_kind = WIREGUARD, if_mtu = None, if_addresses = [], if_peer_routes = [],
       if_listen_port = None, if_private_key_ref = None,
       if_wireguard_peer = Some \<lparr>wp_public_key = ''K'', wp_preshared_key_ref = None, wp_endpoint = Some ''hk.example:51820'',
         wp_allowed_ips = [], wp_persistent_keepalive_seconds = None\<rparr>\<rparr>]\<rparr>"

definition example_wg :: "unit container_exec" where
  "example_wg c cmd w =
     (Inr (0, if cmd = show_all ''latest-handshakes'' then ''wg-a K 1000'' else [], []), w)"

definition example_round :: "reresolve_report option res \<times> unit \<times> string list list" where
  "example_round = reresolve_and_report (logged example_wg) (map_option unlogged (Some (\<lambda>_. ret ()))) (Inr (Some example_tunnel_state)) 2000 ((), [])"

lemma example_round_sets: "[''wg'', ''set'', ''wg-a'', ''peer'', ''K'', ''endpoint'', ''hk.example:51820''] \<in> set (snd (snd example_round))"
  by code_simp

theorem reresolve_touches_only_stale_witness:
  "\<exists>t. configured_hostname_peer example_tunnel_state t \<and> set_endpoint t \<in> set (snd (snd example_round))"
proof -
  let ?cmd = "[''wg'', ''set'', ''wg-a'', ''peer'', ''K'', ''endpoint'', ''hk.example:51820'']"
  obtain r tr where r: "example_round = (r, ((), tr))" by (cases example_round) auto
  have m: "?cmd \<in> set tr" using example_round_sets by (simp add: r)
  have "?cmd \<notin> {show_all ''latest-handshakes'', show_all ''endpoints''}" by (simp add: show_all_def)
  then obtain t where "?cmd = set_endpoint t" "configured_hostname_peer example_tunnel_state t"
    using reresolve_touches_only_stale [OF r [unfolded example_round_def] m] by (auto simp del: list.inject)
  then show ?thesis using example_round_sets by auto
qed

end
