(* ===== verification/Control_State.thy ===== *)
theory Control_State
  imports Orchestrator Reresolve
begin

text \<open>
  The control server's database: the tables of \<open>db/models\<close> as lists of rows, and the transaction scope
  of \<open>db/engine.py\<close>.

  A JSON column is represented by the record it decodes to.  Times are integers.  Columns that no modelled
  operation reads (inventory, timestamps of creation, notes, comments) are left out.  The \<open>ct\_next\<close> fields are the
  sequences of the autoincrement columns.
\<close>

section \<open>Rows\<close>

text \<open>\<open>Node.base\_template\<close>: the parts of a desired state that come from no other table.\<close>

record base_template =
  bt_node :: "node_spec option"
  bt_runtime :: "router_runtime option"
  bt_bird :: bird2_config

record node_row =
  nr_node_id :: string
  nr_site :: "string option"
  nr_asn :: int
  nr_router_id :: string
  nr_loopback_ipv4 :: "string option"
  nr_loopback_ipv6 :: "string option"
  nr_link_local :: "string option"
  nr_ipv4_prefixes :: "string list"
  nr_ipv6_prefixes :: "string list"
  nr_base_template :: base_template
  nr_generation :: int
  nr_lifecycle :: string
  nr_dns_group_id :: "int option"
  nr_public_key :: "string option"
  nr_escrow :: "string option"

record generation_row =
  gn_node_id :: string
  gn_generation :: int
  gn_snapshot :: desired_state
  gn_reason :: "string option"

record peering_row =
  pe_id :: int
  pe_local_node_id :: string
  pe_remote_node_id :: "string option"
  pe_name :: string
  pe_remote_asn :: int
  pe_remote_label :: "string option"
  pe_is_internal :: bool
  pe_enabled :: bool

record wg_row =
  wg_id :: int
  wg_node_id :: string
  wg_peering_id :: "int option"
  wg_enabled :: bool
  wg_spec :: interface_spec
  wg_sort_order :: int

record bgp_row =
  bg_id :: int
  bg_node_id :: string
  bg_peering_id :: "int option"
  bg_enabled :: bool
  bg_spec :: bgp_session
  bg_sort_order :: int

record dns_group_row =
  gr_id :: int
  gr_name :: string
  gr_bind_addresses :: "string list"
  gr_cache_ttl_seconds :: int
  gr_forwards :: "dns_forward list"
  gr_enabled :: bool

record dns_zone_row =
  gz_id :: int
  gz_group_id :: int
  gz_zone :: string
  gz_primary_ns :: "string option"
  gz_admin_email :: "string option"
  gz_soa_refresh :: "int option"
  gz_soa_retry :: "int option"
  gz_soa_expire :: "int option"
  gz_soa_minimum :: "int option"
  gz_default_ttl :: "int option"
  gz_enabled :: bool

record dns_record_row =
  gc_id :: int
  gc_zone_id :: int
  gc_name :: string
  gc_type :: string
  gc_content :: string
  gc_ttl :: "int option"
  gc_enabled :: bool
  gc_sort_order :: int

record agent_token =
  at_token :: string
  at_hash :: string
  at_node_id :: string
  at_agent_id :: string
  at_expires_at :: "int option"
  at_revoked_at :: "int option"

record enrollment_token =
  et_token :: string
  et_hash :: string
  et_node_id :: "string option"
  et_expires_at :: "int option"
  et_used_at :: "int option"

record pending_registration =
  pd_id :: int
  pd_node_id :: string
  pd_hostname :: "string option"
  pd_status :: string

text \<open>\<open>db/models/node\_status.py\<close> and \<open>db/models/traffic.py\<close>; rates are exact rationals.\<close>

record node_status_row =
  ns_node_id :: string
  ns_desired :: "int option"
  ns_observed :: "int option"
  ns_report_status :: "apply_status option"
  ns_apply_status :: "apply_status option"
  ns_drift_count :: int
  ns_health :: node_health
  ns_snapshot :: "runtime_snapshot option"
  ns_report :: "reconciliation_report option"
  ns_apply :: "apply_result option"
  ns_updated_at :: int

datatype status_payload =
    Snapshot_Payload runtime_snapshot
  | Report_Payload reconciliation_report
  | Apply_Payload apply_result
  | Reresolve_Payload reresolve_report

record status_event =
  se_id :: int
  se_node_id :: string
  se_kind :: string
  se_generation :: "int option"
  se_status :: "apply_status option"
  se_payload :: status_payload

record rollup_row =
  ro_node_id :: string
  ro_bucket :: int
  ro_rx_sum :: rat
  ro_tx_sum :: rat
  ro_count :: int

record control =
  ct_nodes :: "node_row list"
  ct_generations :: "generation_row list"
  ct_peerings :: "peering_row list"
  ct_wg :: "wg_row list"
  ct_bgp :: "bgp_row list"
  ct_dns_groups :: "dns_group_row list"
  ct_dns_zones :: "dns_zone_row list"
  ct_dns_records :: "dns_record_row list"
  ct_tokens :: "agent_token list"
  ct_tickets :: "enrollment_token list"
  ct_pending :: "pending_registration list"
  ct_next_pending :: int
  ct_status :: "node_status_row list"
  ct_events :: "status_event list"
  ct_next_event :: int
  ct_rollups :: "rollup_row list"
  ct_next_peering :: int
  ct_next_wg :: int
  ct_next_bgp :: int
  ct_next_group :: int
  ct_next_zone :: int
  ct_next_record :: int

section \<open>Tables with a primary key\<close>

definition get_node :: "string \<Rightarrow> control \<Rightarrow> node_row option" where
  "get_node n s = row_get nr_node_id n (ct_nodes s)"

definition put_node :: "node_row \<Rightarrow> control \<Rightarrow> control" where
  "put_node r s = s\<lparr>ct_nodes := row_put nr_node_id r (ct_nodes s)\<rparr>"

definition del_node :: "string \<Rightarrow> control \<Rightarrow> control" where
  "del_node n s = s\<lparr>ct_nodes := row_del nr_node_id n (ct_nodes s)\<rparr>"

definition get_token :: "string \<Rightarrow> control \<Rightarrow> agent_token option" where
  "get_token i s = row_get at_token i (ct_tokens s)"

definition put_token :: "agent_token \<Rightarrow> control \<Rightarrow> control" where
  "put_token r s = s\<lparr>ct_tokens := row_put at_token r (ct_tokens s)\<rparr>"

definition del_token :: "string \<Rightarrow> control \<Rightarrow> control" where
  "del_token i s = s\<lparr>ct_tokens := row_del at_token i (ct_tokens s)\<rparr>"

definition get_ticket :: "string \<Rightarrow> control \<Rightarrow> enrollment_token option" where
  "get_ticket i s = row_get et_token i (ct_tickets s)"

definition put_ticket :: "enrollment_token \<Rightarrow> control \<Rightarrow> control" where
  "put_ticket r s = s\<lparr>ct_tickets := row_put et_token r (ct_tickets s)\<rparr>"

definition del_ticket :: "string \<Rightarrow> control \<Rightarrow> control" where
  "del_ticket i s = s\<lparr>ct_tickets := row_del et_token i (ct_tickets s)\<rparr>"

interpretation nodes: keyed_table get_node put_node del_node nr_node_id
  by unfold_locales (simp_all add: get_node_def put_node_def del_node_def table_simps)

interpretation tokens: keyed_table get_token put_token del_token at_token
  by unfold_locales (simp_all add: get_token_def put_token_def del_token_def table_simps)

interpretation tickets: keyed_table get_ticket put_ticket del_ticket et_token
  by unfold_locales (simp_all add: get_ticket_def put_ticket_def del_ticket_def table_simps)

section \<open>Transactions\<close>

text \<open>\<open>Database.session\<close>: what an exception escapes from leaves the database as it was.\<close>

definition transaction :: "('s, 'a) eff \<Rightarrow> ('s, 'a) eff" where
  "transaction m s = (case m s of (Inl e, _) \<Rightarrow> (Inl e, s) | (Inr x, s') \<Rightarrow> (Inr x, s'))"

lemma transaction_Inl: "transaction m s = (Inl e, t) \<Longrightarrow> t = s"
  by (auto simp: transaction_def split: prod.splits sum.splits)

lemma transaction_Inr: "transaction m s = (Inr x, t) \<longleftrightarrow> m s = (Inr x, t)"
  by (auto simp: transaction_def split: prod.splits sum.splits)

end
