(* ===== verification/Materializer.thy ===== *)
theory Materializer
  imports Control_State
begin

text \<open>
  Publishing desired states: \<open>services/materializer.py\<close>, \<open>services/generations.py\<close>,
  \<open>services/wireguard\_keys.py\<close> and the node operations of \<open>api/v1/admin/nodes.py\<close>.

  \<open>DesiredState.model\_validate\<close> is the validators of \<open>Desired_State\<close> and \<open>Runtime_Schema\<close>, applied to the
  assembled record; a stored snapshot is the record that was stored.
\<close>

section \<open>Validation of an assembled state\<close>

text \<open>The field validators of \<open>dns.py\<close> that return another value than they were given.\<close>

definition parsed_record :: "dns_record \<Rightarrow> dns_record res" where
  "parsed_record r =
     (if \<not> opt_ok int32_ok (dr_ttl r) then Inl (ValueError ''ttl'')
      else rbind (validate_record_type (dr_type r)) (\<lambda>t. Inr (r\<lparr>dr_type := t\<rparr>)))"

definition parsed_zone :: "dns_zone \<Rightarrow> dns_zone res" where
  "parsed_zone z =
     rbind (validate_domain_name (dz_zone z) True False True False) (\<lambda>name.
     rbind (rmap parsed_record (dz_records z)) (\<lambda>rs. Inr (z\<lparr>dz_zone := name, dz_records := rs\<rparr>)))"

definition parsed_forward :: "dns_forward \<Rightarrow> dns_forward res" where
  "parsed_forward f =
     rbind (validate_domain_name (df_zone f) True False False False) (\<lambda>name. Inr (f\<lparr>df_zone := name\<rparr>))"

definition parsed_dns :: "dns_spec option \<Rightarrow> dns_spec option res" where
  "parsed_dns dns =
     (case dns of
        None \<Rightarrow> Inr None
      | Some d \<Rightarrow>
          rbind (rmap parsed_zone (dns_zones d)) (\<lambda>zs.
          rbind (rmap parsed_forward (dns_forwards d)) (\<lambda>fs.
            Inr (Some (d\<lparr>dns_zones := zs, dns_forwards := fs\<rparr>)))))"

definition field_checks :: "desired_state \<Rightarrow> (bool \<times> exc) list" where
  "field_checks s =
     [(ds_generation s < 1, ValueError ''generation''), raises (validate_node (ds_node s)),
      raises (validate_services (ds_runtime s)), raises (validate_rejected_asns (b2_rejected_asns (ds_bird s))),
      raises (validate_static_routes (b2_static_routes4 (ds_bird s))),
      raises (validate_static_routes (b2_static_routes6 (ds_bird s))),
      raises_opt validate_topology_hosts (b2_internal_topology (ds_bird s)), raises_opt validate_dns (ds_dns s)]
     @ map (\<lambda>i. raises (validate_interface i)) (ds_interfaces s)
     @ map (\<lambda>b. raises (validate_bgp_session b)) (ds_bgp_sessions s)"

definition model_validate_state :: "desired_state \<Rightarrow> desired_state res" where
  "model_validate_state s =
     rbind (parsed_dns (ds_dns s)) (\<lambda>dns.
     rbind (checks (field_checks (s\<lparr>ds_dns := dns\<rparr>)) (s\<lparr>ds_dns := dns\<rparr>)) validate_references)"

section \<open>Assembling a snapshot\<close>

definition load_interfaces :: "string \<Rightarrow> control \<Rightarrow> wg_row list" where
  "load_interfaces n s = sort_key (\<lambda>r. (wg_sort_order r, wg_id r)) (filter (\<lambda>r. wg_node_id r = n) (ct_wg s))"

definition load_sessions :: "string \<Rightarrow> control \<Rightarrow> bgp_row list" where
  "load_sessions n s = sort_key (\<lambda>r. (bg_sort_order r, bg_id r)) (filter (\<lambda>r. bg_node_id r = n) (ct_bgp s))"

definition peering_of :: "control \<Rightarrow> wg_row \<Rightarrow> peering_row option" where
  "peering_of s r = (case wg_peering_id r of None \<Rightarrow> None | Some i \<Rightarrow> find (\<lambda>p. pe_id p = i) (ct_peerings s))"

definition remote_of :: "control \<Rightarrow> wg_row \<Rightarrow> string option" where
  "remote_of s r = (case peering_of s r of None \<Rightarrow> None | Some p \<Rightarrow> pe_remote_node_id p)"

text \<open>The registered public keys of the managed peers of the given interfaces.\<close>

definition load_peer_public_keys :: "control \<Rightarrow> wg_row list \<Rightarrow> (string \<times> string) list" where
  "load_peer_public_keys s rows =
     (let remote_ids = concat (map (\<lambda>r. case remote_of s r of None \<Rightarrow> [] | Some n \<Rightarrow> [n]) rows) in
      concat (map (\<lambda>n. if nr_node_id n \<in> set remote_ids \<and> truthy (nr_public_key n)
                       then [(nr_node_id n, the (nr_public_key n))] else []) (ct_nodes s)))"

definition or_default :: "'a \<Rightarrow> 'a option \<Rightarrow> 'a" where
  "or_default d x = (case x of None \<Rightarrow> d | Some y \<Rightarrow> y)"

definition zone_spec :: "dns_zone_row \<Rightarrow> dns_record list \<Rightarrow> dns_zone" where
  "zone_spec z records =
     \<lparr>dz_zone = gz_zone z, dz_records_ref = ''zone://'' @ gz_zone z,
      dz_primary_ns = (if truthy (gz_primary_ns z) then gz_primary_ns z else Some (''ns.'' @ gz_zone z @ ''.'')),
      dz_admin_email = (if truthy (gz_admin_email z) then gz_admin_email z else Some (''hostmaster.'' @ gz_zone z @ ''.'')),
      dz_soa = [or_default 86400 (gz_soa_refresh z), or_default 7200 (gz_soa_retry z),
                or_default 3600000 (gz_soa_expire z), or_default 3600 (gz_soa_minimum z)],
      dz_default_ttl = or_default 3600 (gz_default_ttl z), dz_records = records\<rparr>"

definition zone_records :: "control \<Rightarrow> dns_zone_row \<Rightarrow> dns_record list" where
  "zone_records s z =
     map (\<lambda>r. \<lparr>dr_name = gc_name r, dr_type = gc_type r, dr_value = gc_content r, dr_ttl = gc_ttl r\<rparr>)
       (sort_key (\<lambda>r. (gc_sort_order r, gc_id r))
          (filter (\<lambda>r. gc_zone_id r = gz_id z \<and> gc_enabled r) (ct_dns_records s)))"

definition load_dns_group :: "control \<Rightarrow> node_row \<Rightarrow> dns_spec option" where
  "load_dns_group s node =
     (case nr_dns_group_id node of
        None \<Rightarrow> None
      | Some i \<Rightarrow>
          (case find (\<lambda>g. gr_id g = i) (ct_dns_groups s) of
             None \<Rightarrow> None
           | Some g \<Rightarrow>
               if \<not> gr_enabled g then None
               else
                 let rows = sort_key (\<lambda>z. (gz_zone z, gz_id z)) (filter (\<lambda>z. gz_group_id z = gr_id g \<and> gz_enabled z) (ct_dns_zones s));
                     zones = concat (map (\<lambda>z. case zone_records s z of [] \<Rightarrow> [] | rs \<Rightarrow> [zone_spec z rs]) rows) in
                 if zones = [] \<and> gr_forwards g = [] then None
                 else Some \<lparr>dns_enabled = True, dns_bind_addresses = gr_bind_addresses g,
                            dns_cache_ttl_seconds = gr_cache_ttl_seconds g, dns_zones = zones,
                            dns_forwards = gr_forwards g\<rparr>))"

definition interface_payload ::
  "control \<Rightarrow> (string \<times> string) list \<Rightarrow> string option \<Rightarrow> wg_row \<Rightarrow> interface_spec" where
  "interface_payload s keys link_local row =
     (let spec = wg_spec row;
          is_external_wg = (if_kind spec = WIREGUARD \<and>
                            (case peering_of s row of None \<Rightarrow> False | Some p \<Rightarrow> \<not> pe_is_internal p));
          lla = (case link_local of Some l \<Rightarrow> l @ ''/64'' | None \<Rightarrow> []);
          spec = (if truthy link_local \<and> is_external_wg \<and> lla \<notin> set (if_addresses spec)
                  then spec\<lparr>if_addresses := if_addresses spec @ [lla]\<rparr> else spec) in
      case remote_of s row of
        None \<Rightarrow> spec
      | Some n \<Rightarrow>
          (case (map_of keys n, if_wireguard_peer spec) of
             (Some k, Some peer) \<Rightarrow> spec\<lparr>if_wireguard_peer := Some (peer\<lparr>wireguard_peer.wp_public_key := k\<rparr>)\<rparr>
           | _ \<Rightarrow> spec))"

definition ASIA_EAST :: int where
  "ASIA_EAST = 52"

definition node_payload :: "node_row \<Rightarrow> node_spec res" where
  "node_payload n =
     (case nr_site n of
        None \<Rightarrow> Inl (ValueError ''site'')
      | Some site \<Rightarrow>
          Inr \<lparr>nd_node_id = nr_node_id n, nd_site = site,
               nd_region = (case bt_node (nr_base_template n) of Some b \<Rightarrow> nd_region b | None \<Rightarrow> ASIA_EAST),
               nd_asn = nr_asn n, nd_router_id = nr_router_id n,
               nd_ipv4_prefixes = nr_ipv4_prefixes n, nd_ipv6_prefixes = nr_ipv6_prefixes n,
               nd_loopback_ipv4 = nr_loopback_ipv4 n, nd_loopback_ipv6 = nr_loopback_ipv6 n,
               nd_link_local = nr_link_local n\<rparr>)"

definition bgp_payload :: "bgp_row \<Rightarrow> bgp_session" where
  "bgp_payload r = (bg_spec r)\<lparr>bgp_enabled := bg_enabled r\<rparr>"

definition assemble_snapshot ::
  "control \<Rightarrow> node_row \<Rightarrow> wg_row list \<Rightarrow> bgp_row list \<Rightarrow> dns_spec option \<Rightarrow> (string \<times> string) list \<Rightarrow> int \<Rightarrow> desired_state res" where
  "assemble_snapshot s node wg_rows bgp_rows dns keys generation =
     rbind (node_payload node) (\<lambda>payload.
       case bt_runtime (nr_base_template node) of
         None \<Rightarrow> Inl (ValueError ''runtime'')
       | Some runtime \<Rightarrow>
           let gone = (nr_lifecycle node = ''decommissioned'') in
           Inr \<lparr>ds_generation = generation, ds_node = payload, ds_runtime = runtime, ds_bird = bt_bird (nr_base_template node),
                ds_interfaces = (if gone then []
                  else map (interface_payload s keys (nd_link_local payload)) (filter wg_enabled wg_rows)),
                ds_bgp_sessions = (if gone then [] else map bgp_payload bgp_rows),
                ds_dns = (if gone then None else dns)\<rparr>)"

section \<open>Publishing a generation\<close>

definition DEFAULT_GENERATION_RETENTION :: int where
  "DEFAULT_GENERATION_RETENTION = 100"

definition get_generation :: "string \<Rightarrow> int \<Rightarrow> control \<Rightarrow> generation_row option" where
  "get_generation n g s = find (\<lambda>r. gn_node_id r = n \<and> gn_generation r = g) (ct_generations s)"

text \<open>Adding the row, with the unique constraint on node and generation, moving the node's pointer and
  trimming what lies outside the retention window.\<close>

definition publish_generation ::
  "node_row \<Rightarrow> int \<Rightarrow> desired_state \<Rightarrow> string option \<Rightarrow> int \<Rightarrow> (control, unit) eff" where
  "publish_generation node g desired reason keep =
     reading (\<lambda>s.
       if get_generation (nr_node_id node) g s \<noteq> None then lift_res (Inl (IntegrityError ''uq_generations''))
       else modify (\<lambda>s.
         let s1 = put_node (node\<lparr>nr_generation := g\<rparr>)
                    (s\<lparr>ct_generations := ct_generations s @ [\<lparr>gn_node_id = nr_node_id node, gn_generation = g,
                        gn_snapshot = desired, gn_reason = reason\<rparr>]\<rparr>) in
         if 0 < keep \<and> 0 < g - keep
         then s1\<lparr>ct_generations := filter (\<lambda>r. \<not> (gn_node_id r = nr_node_id node \<and> gn_generation r \<le> g - keep))
                                     (ct_generations s1)\<rparr>
         else s1))"

definition assembled :: "control \<Rightarrow> node_row \<Rightarrow> int \<Rightarrow> desired_state res" where
  "assembled s node g =
     (let rows = load_interfaces (nr_node_id node) s in
      assemble_snapshot s node rows (load_sessions (nr_node_id node) s) (load_dns_group s node)
        (load_peer_public_keys s rows) g)"

definition materialize :: "string \<Rightarrow> string option \<Rightarrow> int \<Rightarrow> (control, desired_state option) eff" where
  "materialize node_id reason keep =
     reading (\<lambda>s.
       case get_node node_id s of
         None \<Rightarrow> ret None
       | Some node \<Rightarrow>
           let g = nr_generation node + 1 in
           seq (lift_res (rbind (assembled s node g) model_validate_state)) (\<lambda>desired.
           seq (publish_generation node g desired (Some (if truthy reason then the reason else ''materialize'')) keep) (\<lambda>_.
             ret (Some desired))))"

definition rollback_to_generation :: "string \<Rightarrow> int \<Rightarrow> string \<Rightarrow> int \<Rightarrow> (control, desired_state option) eff" where
  "rollback_to_generation node_id target reason keep =
     reading (\<lambda>s.
       case get_node node_id s of
         None \<Rightarrow> ret None
       | Some node \<Rightarrow>
           (case get_generation node_id target s of
              None \<Rightarrow> lift_res (Inl (KeyError node_id))
            | Some row \<Rightarrow>
                let g = nr_generation node + 1 in
                seq (lift_res (model_validate_state ((gn_snapshot row)\<lparr>ds_generation := g\<rparr>))) (\<lambda>desired.
                seq (publish_generation node g desired (Some reason) keep) (\<lambda>_. ret (Some desired)))))"

section \<open>WireGuard keys\<close>

datatype key_status = Stored | Matched | Rejected_Key | Unknown_Node

text \<open>The nodes with a WireGuard interface towards the given node, except itself.\<close>

definition affected_nodes :: "string \<Rightarrow> control \<Rightarrow> string list" where
  "affected_nodes node_id s =
     sort (remdups (map wg_node_id (filter (\<lambda>r. if_kind (wg_spec r) = WIREGUARD \<and> remote_of s r = Some node_id \<and>
                                                  wg_node_id r \<noteq> node_id) (ct_wg s))))"

fun materialize_all :: "string option \<Rightarrow> string list \<Rightarrow> (control, (string \<times> int) list) eff" where
  "materialize_all reason [] = ret []"
| "materialize_all reason (n # ns) =
     seq (materialize n reason DEFAULT_GENERATION_RETENTION) (\<lambda>d.
     seq (materialize_all reason ns) (\<lambda>rest.
       ret (case d of None \<Rightarrow> rest | Some st \<Rightarrow> (n, ds_generation st) # rest)))"

definition propagate_to_peers :: "string \<Rightarrow> (control, (string \<times> int) list) eff" where
  "propagate_to_peers node_id =
     reading (\<lambda>s. materialize_all (Some (''peer '' @ node_id @ '' wireguard public key propagated'')) (affected_nodes node_id s))"

definition apply_wireguard_key_report ::
  "string \<Rightarrow> string \<Rightarrow> string option \<Rightarrow> (control, key_status \<times> (string \<times> int) list) eff" where
  "apply_wireguard_key_report node_id public_key escrow =
     reading (\<lambda>s.
       case get_node node_id s of
         None \<Rightarrow> ret (Unknown_Node, [])
       | Some node \<Rightarrow>
           (case nr_public_key node of
              None \<Rightarrow>
                seq (modify (put_node (node\<lparr>nr_public_key := Some public_key, nr_escrow := escrow\<rparr>))) (\<lambda>_.
                seq (propagate_to_peers node_id) (\<lambda>ps. ret (Stored, ps)))
            | Some k \<Rightarrow>
                if k = public_key
                then seq (if escrow \<noteq> None then modify (put_node (node\<lparr>nr_escrow := escrow\<rparr>)) else ret ()) (\<lambda>_.
                       ret (Matched, []))
                else ret (Rejected_Key, [])))"

text \<open>\<open>POST /agent/wireguard-keys\<close> after the token check: a conflict or an unknown node rolls back.\<close>

definition post_wireguard_keys :: "string \<Rightarrow> string \<Rightarrow> string option \<Rightarrow> (control, key_status \<times> (string \<times> int) list) eff" where
  "post_wireguard_keys node_id public_key escrow =
     transaction (seq (apply_wireguard_key_report node_id public_key escrow) (\<lambda>(st, ps).
       if st = Rejected_Key then lift_res (Inl (HTTPException 409 ''wireguard public key conflicts with the recorded key''))
       else if st = Unknown_Node then lift_res (Inl (HTTPException 404 (''unknown node '' @ node_id)))
       else ret (st, ps)))"

end
