(* ===== verification/Publication.thy ===== *)
theory Publication
  imports Materializer
begin

text \<open>
  Nodes and their published generations: the node handlers of \<open>api/v1/admin/nodes.py\<close>, the shared write
  path of \<open>api/v1/admin/\_helpers.py\<close> and \<open>services/desired\_state.py\<close>.  The published states of a node
  are an append-only log of which the table keeps a window.
\<close>

section \<open>The write path\<close>

text \<open>\<open>pydantic.ValidationError\<close> collects what validators raise as \<open>ValueError\<close> or \<open>AssertionError\<close>.\<close>

definition is_validation_error :: "exc \<Rightarrow> bool" where
  "is_validation_error e = (case e of ValueError _ \<Rightarrow> True | AssertionError _ \<Rightarrow> True | _ \<Rightarrow> False)"

definition materialize_change :: "string \<Rightarrow> string \<Rightarrow> (control, desired_state) eff" where
  "materialize_change node_id reason =
     seq (catching (materialize node_id (Some reason) DEFAULT_GENERATION_RETENTION) (\<lambda>e.
            lift_res (Inl (if is_validation_error e
                           then HTTPException 422 ''materialization failed schema validation'' else e))))
       (\<lambda>state. case state of
          None \<Rightarrow> lift_res (Inl (HTTPException 404 (''unknown node '' @ node_id)))
        | Some st \<Rightarrow> ret st)"

section \<open>Node handlers\<close>

record node_in =
  ni_node_id :: string
  ni_asn :: int
  ni_router_id :: string
  ni_site :: "string option"
  ni_loopback_ipv4 :: "string option"
  ni_loopback_ipv6 :: "string option"
  ni_link_local :: "string option"
  ni_ipv4_prefixes :: "string list"
  ni_ipv6_prefixes :: "string list"
  ni_base_template :: base_template

definition validate_node_in :: "node_in \<Rightarrow> node_in res" where
  "validate_node_in p =
     checks
       [(ni_node_id p = [] \<or> 64 < length (ni_node_id p), ValueError ''node_id''), (ni_asn p < 1, ValueError ''asn''),
        raises_opt (\<lambda>a. validate_ipv6_link_local_address a False) (ni_link_local p)] p"

definition new_node_row :: "node_in \<Rightarrow> node_row" where
  "new_node_row p =
     \<lparr>nr_node_id = ni_node_id p, nr_site = ni_site p, nr_asn = ni_asn p, nr_router_id = ni_router_id p,
      nr_loopback_ipv4 = ni_loopback_ipv4 p, nr_loopback_ipv6 = ni_loopback_ipv6 p, nr_link_local = ni_link_local p,
      nr_ipv4_prefixes = ni_ipv4_prefixes p, nr_ipv6_prefixes = ni_ipv6_prefixes p,
      nr_base_template = ni_base_template p, nr_generation = 0, nr_lifecycle = ''active'', nr_dns_group_id = None,
      nr_public_key = None, nr_escrow = None\<rparr>"

definition create_node :: "node_in \<Rightarrow> (control, node_row) eff" where
  "create_node p =
     transaction (reading (\<lambda>s.
       if get_node (ni_node_id p) s \<noteq> None
       then lift_res (Inl (HTTPException 409 (''node '' @ ni_node_id p @ '' already exists'')))
       else seq (modify (put_node (new_node_row p))) (\<lambda>_. ret (new_node_row p))))"

definition with_node :: "string \<Rightarrow> (node_row \<Rightarrow> (control, 'a) eff) \<Rightarrow> (control, 'a) eff" where
  "with_node node_id f =
     reading (\<lambda>s. case get_node node_id s of
        None \<Rightarrow> lift_res (Inl (HTTPException 404 (''unknown node '' @ node_id)))
      | Some node \<Rightarrow> f node)"

text \<open>Publishing again, for a node that has been published before.\<close>

definition republish :: "node_row \<Rightarrow> string \<Rightarrow> (control, desired_state option) eff" where
  "republish node reason =
     (if 0 < nr_generation node
      then seq (materialize_change (nr_node_id node) reason) (\<lambda>st. ret (Some st))
      else ret None)"

text \<open>The fields of a patch that were set; \<open>None\<close> is an explicit null.\<close>

datatype node_field =
    Asn "int option" | Router_Id "string option" | Site "string option" | Loopback4 "string option"
  | Loopback6 "string option" | Link_Local "string option" | Prefixes4 "string list option"
  | Prefixes6 "string list option" | Base_Template base_template

fun validate_node_field :: "node_field \<Rightarrow> unit res" where
  "validate_node_field (Asn (Some n)) = raise_if (n < 1) (ValueError ''asn'')"
| "validate_node_field (Link_Local (Some a)) = rbind (validate_ipv6_link_local_address a False) (\<lambda>_. Inr ())"
| "validate_node_field _ = Inr ()"

text \<open>A null in a NOT NULL column is refused when the row is written.\<close>

fun set_node_field :: "node_row \<Rightarrow> node_field \<Rightarrow> node_row res" where
  "set_node_field r (Asn v) = (case v of None \<Rightarrow> Inl (IntegrityError ''nodes.asn'') | Some n \<Rightarrow> Inr (r\<lparr>nr_asn := n\<rparr>))"
| "set_node_field r (Router_Id v) =
     (case v of None \<Rightarrow> Inl (IntegrityError ''nodes.router_id'') | Some n \<Rightarrow> Inr (r\<lparr>nr_router_id := n\<rparr>))"
| "set_node_field r (Site v) = Inr (r\<lparr>nr_site := v\<rparr>)"
| "set_node_field r (Loopback4 v) = Inr (r\<lparr>nr_loopback_ipv4 := v\<rparr>)"
| "set_node_field r (Loopback6 v) = Inr (r\<lparr>nr_loopback_ipv6 := v\<rparr>)"
| "set_node_field r (Link_Local v) = Inr (r\<lparr>nr_link_local := v\<rparr>)"
| "set_node_field r (Prefixes4 v) = Inr (r\<lparr>nr_ipv4_prefixes := or_default [] v\<rparr>)"
| "set_node_field r (Prefixes6 v) = Inr (r\<lparr>nr_ipv6_prefixes := or_default [] v\<rparr>)"
| "set_node_field r (Base_Template t) = Inr (r\<lparr>nr_base_template := t\<rparr>)"

definition update_node :: "string \<Rightarrow> node_field list \<Rightarrow> (control, desired_state option) eff" where
  "update_node node_id patch =
     transaction (with_node node_id (\<lambda>node.
       seq (lift_res (rfold set_node_field node patch)) (\<lambda>row.
       seq (modify (put_node row)) (\<lambda>_. republish row ''node updated''))))"

definition set_lifecycle :: "string \<Rightarrow> string \<Rightarrow> string \<Rightarrow> (control, desired_state option) eff" where
  "set_lifecycle node_id lifecycle reason =
     transaction (with_node node_id (\<lambda>node.
       let row = node\<lparr>nr_lifecycle := lifecycle\<rparr> in
       seq (modify (put_node row)) (\<lambda>_. republish row reason)))"

definition decommission_node :: "string \<Rightarrow> (control, desired_state option) eff" where
  "decommission_node node_id = set_lifecycle node_id ''decommissioned'' ''node decommissioned''"

definition recommission_node :: "string \<Rightarrow> (control, desired_state option) eff" where
  "recommission_node node_id = set_lifecycle node_id ''active'' ''node recommissioned''"

text \<open>What the relationships and the \<open>ondelete\<close> clauses of \<open>db/models\<close> do with the rows that refer to a node.\<close>

definition delete_cascade :: "string \<Rightarrow> control \<Rightarrow> control" where
  "delete_cascade n s =
     (let gone = map pe_id (filter (\<lambda>p. pe_local_node_id p = n) (ct_peerings s));
          on_peering = (\<lambda>i. case i of None \<Rightarrow> False | Some k \<Rightarrow> k \<in> set gone) in
      (del_node n s)
        \<lparr>ct_generations := filter (\<lambda>r. gn_node_id r \<noteq> n) (ct_generations s),
         ct_peerings := map (\<lambda>p. if pe_remote_node_id p = Some n then p\<lparr>pe_remote_node_id := None\<rparr> else p)
                          (filter (\<lambda>p. pe_local_node_id p \<noteq> n) (ct_peerings s)),
         ct_wg := filter (\<lambda>r. wg_node_id r \<noteq> n \<and> \<not> on_peering (wg_peering_id r)) (ct_wg s),
         ct_bgp := filter (\<lambda>r. bg_node_id r \<noteq> n \<and> \<not> on_peering (bg_peering_id r)) (ct_bgp s),
         ct_tokens := filter (\<lambda>r. at_node_id r \<noteq> n) (ct_tokens s),
         ct_tickets := map (\<lambda>r. if et_node_id r = Some n then r\<lparr>et_node_id := None\<rparr> else r) (ct_tickets s),
         ct_status := filter (\<lambda>r. ns_node_id r \<noteq> n) (ct_status s),
         ct_events := filter (\<lambda>r. se_node_id r \<noteq> n) (ct_events s),
         ct_rollups := filter (\<lambda>r. ro_node_id r \<noteq> n) (ct_rollups s)\<rparr>)"

definition delete_node :: "string \<Rightarrow> (control, unit) eff" where
  "delete_node node_id =
     transaction (with_node node_id (\<lambda>node.
       if 0 < nr_generation node \<and> nr_lifecycle node \<noteq> ''decommissioned''
       then lift_res (Inl (HTTPException 409 (''node '' @ node_id @ '' is live'')))
       else modify (delete_cascade node_id)))"

definition rollback_node_generation :: "string \<Rightarrow> int \<Rightarrow> string option \<Rightarrow> (control, desired_state) eff" where
  "rollback_node_generation node_id g reason =
     transaction
       (seq (catching
              (rollback_to_generation node_id g
                 (if truthy reason then the reason else ''rollback to generation '' @ str_int g)
                 DEFAULT_GENERATION_RETENTION)
              (\<lambda>e. lift_res (Inl (case e of
                   KeyError _ \<Rightarrow> HTTPException 404 (''node '' @ node_id @ '' has no generation '' @ str_int g)
                 | _ \<Rightarrow> e))))
          (\<lambda>state. case state of
             None \<Rightarrow> lift_res (Inl (HTTPException 404 (''unknown node '' @ node_id)))
           | Some st \<Rightarrow> ret st))"

section \<open>Reading the published state\<close>

text \<open>The cache may fail to answer and fail to store; an entry expires at any time.\<close>

record store =
  sr_db :: control
  sr_cache :: "(string \<times> desired_state) list"

definition ds_cache_key :: "string \<Rightarrow> int \<Rightarrow> string" where
  "ds_cache_key node_id g = ''ds:'' @ node_id @ '':'' @ str_int g"

definition known_node_ids :: "control \<Rightarrow> string list" where
  "known_node_ids s = sort (map nr_node_id (ct_nodes s))"

definition desired_state_get :: "bool \<times> bool \<Rightarrow> string \<Rightarrow> (store, desired_state option) eff" where
  "desired_state_get redis node_id =
     reading (\<lambda>s.
       case get_node node_id (sr_db s) of
         None \<Rightarrow> ret None
       | Some node \<Rightarrow>
           let g = nr_generation node; key = ds_cache_key node_id g in
           if g = 0 then ret None
           else case (if fst redis then map_of (sr_cache s) key else None) of
               Some cached \<Rightarrow> seq (lift_res (model_validate_state cached)) (\<lambda>d. ret (Some d))
             | None \<Rightarrow>
                 (case get_generation node_id g (sr_db s) of
                    None \<Rightarrow> ret None
                  | Some row \<Rightarrow>
                      seq (if snd redis then modify (\<lambda>s. s\<lparr>sr_cache := dput key (gn_snapshot row) (sr_cache s)\<rparr>) else ret ())
                        (\<lambda>_. seq (lift_res (model_validate_state (gn_snapshot row))) (\<lambda>d. ret (Some d)))))"

end
