(* ===== verification/Interface_Admin.thy ===== *)
theory Interface_Admin
  imports Publication
begin

text \<open>
  The administrator's handlers of interfaces and BGP sessions: \<open>api/v1/admin/interfaces.py\<close> and
  \<open>api/v1/admin/bgp\_sessions.py\<close>.  The columns that \<open>apply\_spec\<close> projects from a specification (name, kind,
  remote ASN) are read from the stored specification.  A handler returns its row, the states it published,
  which are announced after the transaction, and the reason.
\<close>

type_synonym 'a change = "'a \<times> (string \<times> desired_state) list \<times> string"

section \<open>Shared checks\<close>

text \<open>\<open>session.get\<close> of a row by its number.\<close>

definition get_wg :: "int \<Rightarrow> control \<Rightarrow> wg_row option" where
  "get_wg i s = row_get wg_id i (ct_wg s)"

definition get_bgp :: "int \<Rightarrow> control \<Rightarrow> bgp_row option" where
  "get_bgp i s = row_get bg_id i (ct_bgp s)"

definition get_peering_row :: "int \<Rightarrow> control \<Rightarrow> peering_row option" where
  "get_peering_row i s = row_get pe_id i (ct_peerings s)"

definition as_422 :: "string \<Rightarrow> 'a res \<Rightarrow> 'a res" where
  "as_422 message r = (case r of Inl e \<Rightarrow> Inl (if is_validation_error e then HTTPException 422 message else e) | Inr x \<Rightarrow> Inr x)"

definition validate_iface_spec :: "interface_spec \<Rightarrow> interface_spec res" where
  "validate_iface_spec spec = as_422 ''invalid InterfaceSpec'' (validate_interface spec)"

definition validate_bgp_spec :: "bgp_session \<Rightarrow> bgp_session res" where
  "validate_bgp_spec spec = as_422 ''invalid BgpSessionSpec'' (validate_bgp_session spec)"

definition require_node :: "string \<Rightarrow> (control, unit) eff" where
  "require_node n =
     reading (\<lambda>s. if get_node n s = None then lift_res (Inl (HTTPException 404 (''unknown node '' @ n))) else ret ())"

definition require_peering :: "string \<Rightarrow> int option \<Rightarrow> (control, unit) eff" where
  "require_peering n pid =
     reading (\<lambda>s. case pid of
        None \<Rightarrow> ret ()
      | Some i \<Rightarrow>
          (case get_peering_row i s of
             Some p \<Rightarrow> if pe_local_node_id p = n then ret ()
                       else lift_res (Inl (HTTPException 400 (''peering '' @ str_int i @ '' not on node '' @ n)))
           | None \<Rightarrow> lift_res (Inl (HTTPException 400 (''peering '' @ str_int i @ '' not on node '' @ n)))))"

section \<open>The port policy\<close>

text \<open>The enabled WireGuard interface of the node, other than the given one, that listens on the port.\<close>

definition port_taken :: "string \<Rightarrow> int option \<Rightarrow> int option \<Rightarrow> wg_row \<Rightarrow> bool" where
  "port_taken n port current r \<longleftrightarrow>
     wg_node_id r = n \<and> wg_enabled r \<and> current \<noteq> Some (wg_id r) \<and>
     (case validate_interface (wg_spec r) of Inl _ \<Rightarrow> False | Inr x \<Rightarrow> if_kind x = WIREGUARD \<and> if_listen_port x = port)"

definition validate_wireguard_port_policy :: "string \<Rightarrow> interface_spec \<Rightarrow> bool \<Rightarrow> int option \<Rightarrow> (control, unit) eff" where
  "validate_wireguard_port_policy n spec enabled current =
     (case if_listen_port spec of
        None \<Rightarrow> ret ()
      | Some port \<Rightarrow>
          if \<not> enabled \<or> if_kind spec \<noteq> WIREGUARD then ret ()
          else with_node n (\<lambda>node.
            seq (case map_option rt_wireguard_port_range (bt_runtime (nr_base_template node)) of
                   Some (Some pr) \<Rightarrow>
                     seq (lift_res (as_422 ''invalid node runtime.wireguard_port_range'' (validate_wg_port_range pr))) (\<lambda>pr.
                       lift_res (raise_if (\<not> port_range_contains pr port)
                         (HTTPException 422 (''wireguard listen_port must be inside node runtime.wireguard_port_range '' @
                            str_int (wr_start pr) @ ''-'' @ str_int (wr_end pr)))))
                 | _ \<Rightarrow> ret ()) (\<lambda>_.
            reading (\<lambda>s. case find (port_taken n (Some port) current) (ct_wg s) of
                None \<Rightarrow> ret ()
              | Some r \<Rightarrow> lift_res (Inl (HTTPException 409 (''wireguard listen_port '' @ str_int port @
                     '' is already used by interface '' @ repr_str (if_name (wg_spec r)) @ '' on node '' @ n)))))))"

section \<open>Writing rows\<close>

text \<open>UNIQUE(node, name), for another row than the given one.\<close>

definition wg_clash :: "wg_row \<Rightarrow> control \<Rightarrow> bool" where
  "wg_clash r s \<longleftrightarrow>
     list_ex (\<lambda>x. wg_id x \<noteq> wg_id r \<and> wg_node_id x = wg_node_id r \<and> if_name (wg_spec x) = if_name (wg_spec r)) (ct_wg s)"

definition save_wg :: "wg_row \<Rightarrow> exc \<Rightarrow> (control, unit) eff" where
  "save_wg r conflict =
     reading (\<lambda>s. if wg_clash r s then lift_res (Inl conflict)
                  else modify (\<lambda>s. s\<lparr>ct_wg := row_put wg_id r (ct_wg s)\<rparr>))"

definition bgp_clash :: "bgp_row \<Rightarrow> control \<Rightarrow> bool" where
  "bgp_clash r s \<longleftrightarrow>
     list_ex (\<lambda>x. bg_id x \<noteq> bg_id r \<and> bg_node_id x = bg_node_id r \<and> bgp_name (bg_spec x) = bgp_name (bg_spec r)) (ct_bgp s)"

definition save_bgp :: "bgp_row \<Rightarrow> exc \<Rightarrow> (control, unit) eff" where
  "save_bgp r conflict =
     reading (\<lambda>s. if bgp_clash r s then lift_res (Inl conflict)
                  else modify (\<lambda>s. s\<lparr>ct_bgp := row_put bg_id r (ct_bgp s)\<rparr>))"

text \<open>A new row takes the next number of its sequence.\<close>

definition next_wg :: "(control, int) eff" where
  "next_wg = reading (\<lambda>s. seq (modify (\<lambda>s. s\<lparr>ct_next_wg := ct_next_wg s + 1\<rparr>)) (\<lambda>_. ret (ct_next_wg s)))"

definition next_bgp :: "(control, int) eff" where
  "next_bgp = reading (\<lambda>s. seq (modify (\<lambda>s. s\<lparr>ct_next_bgp := ct_next_bgp s + 1\<rparr>)) (\<lambda>_. ret (ct_next_bgp s)))"

definition apply_bgp_spec :: "bgp_session \<Rightarrow> bgp_row \<Rightarrow> bgp_row" where
  "apply_bgp_spec spec r = r\<lparr>bg_spec := spec, bg_enabled := bgp_enabled spec\<rparr>"

definition published :: "'a \<Rightarrow> string \<Rightarrow> string \<Rightarrow> (control, 'a change) eff" where
  "published out n reason = seq (materialize_change n reason) (\<lambda>st. ret (out, [(n, st)], reason))"

definition iface_exists :: "string \<Rightarrow> string \<Rightarrow> exc" where
  "iface_exists name n = HTTPException 409 (''interface '' @ repr_str name @ '' already exists on node '' @ n)"

definition session_exists :: "string \<Rightarrow> string \<Rightarrow> exc" where
  "session_exists name n = HTTPException 409 (''bgp session '' @ repr_str name @ '' already exists on node '' @ n)"

section \<open>Interfaces\<close>

record iface_in =
  ii_spec :: interface_spec
  ii_peering_id :: "int option"
  ii_enabled :: bool
  ii_sort_order :: int

record iface_patch =
  ip_spec :: "interface_spec option"
  ip_peering_id :: "int option"
  ip_enabled :: "bool option"
  ip_sort_order :: "int option"
  ip_clear_peering :: bool

definition create_interface :: "string \<Rightarrow> iface_in \<Rightarrow> (control, wg_row change) eff" where
  "create_interface n p =
     seq (lift_res (validate_iface_spec (ii_spec p))) (\<lambda>spec.
     transaction
       (seq (require_node n) (\<lambda>_.
        seq (require_peering n (ii_peering_id p)) (\<lambda>_.
        seq (validate_wireguard_port_policy n spec (ii_enabled p) None) (\<lambda>_.
        seq next_wg (\<lambda>i.
          let row = \<lparr>wg_id = i, wg_node_id = n, wg_peering_id = ii_peering_id p, wg_enabled = ii_enabled p, wg_spec = spec,
                     wg_sort_order = ii_sort_order p\<rparr> in
          seq (save_wg row (iface_exists (if_name spec) n)) (\<lambda>_.
            published row n (''interface '' @ if_name spec @ '' added''))))))))"

definition moved_peering :: "bool \<Rightarrow> int option \<Rightarrow> int option \<Rightarrow> int option" where
  "moved_peering clear new old = (if clear then None else case new of None \<Rightarrow> old | Some i \<Rightarrow> Some i)"

definition update_interface :: "int \<Rightarrow> iface_patch \<Rightarrow> (control, wg_row change) eff" where
  "update_interface i p =
     seq (case ip_spec p of None \<Rightarrow> ret None | Some x \<Rightarrow> seq (lift_res (validate_iface_spec x)) (\<lambda>x. ret (Some x))) (\<lambda>new_spec.
     transaction (reading (\<lambda>s. case get_wg i s of
        None \<Rightarrow> lift_res (Inl (HTTPException 404 (''unknown interface '' @ str_int i)))
      | Some r \<Rightarrow>
          let n = wg_node_id r in
          seq (if ip_clear_peering p then ret () else require_peering n (ip_peering_id p)) (\<lambda>_.
          seq (case new_spec of None \<Rightarrow> lift_res (validate_interface (wg_spec r)) | Some x \<Rightarrow> ret x) (\<lambda>spec.
          let row = r\<lparr>wg_peering_id := moved_peering (ip_clear_peering p) (ip_peering_id p) (wg_peering_id r),
                      wg_spec := or_default (wg_spec r) new_spec, wg_enabled := or_default (wg_enabled r) (ip_enabled p),
                      wg_sort_order := or_default (wg_sort_order r) (ip_sort_order p)\<rparr> in
          seq (validate_wireguard_port_policy n spec (wg_enabled row) (Some i)) (\<lambda>_.
          seq (save_wg row (iface_exists (if_name (wg_spec row)) n)) (\<lambda>_.
            published row n (''interface '' @ if_name (wg_spec row) @ '' updated''))))))))"

definition delete_interface :: "int \<Rightarrow> (control, unit change) eff" where
  "delete_interface i =
     transaction (reading (\<lambda>s. case get_wg i s of
        None \<Rightarrow> lift_res (Inl (HTTPException 404 (''unknown interface '' @ str_int i)))
      | Some r \<Rightarrow>
          seq (modify (\<lambda>s. s\<lparr>ct_wg := row_del wg_id i (ct_wg s)\<rparr>)) (\<lambda>_.
            published () (wg_node_id r) (''interface '' @ if_name (wg_spec r) @ '' deleted''))))"

section \<open>BGP sessions\<close>

record session_in =
  si_spec :: bgp_session
  si_peering_id :: "int option"
  si_sort_order :: int

record session_patch =
  sp_spec :: "bgp_session option"
  sp_peering_id :: "int option"
  sp_sort_order :: "int option"
  sp_clear_peering :: bool

definition create_session :: "string \<Rightarrow> session_in \<Rightarrow> (control, bgp_row change) eff" where
  "create_session n p =
     seq (lift_res (validate_bgp_spec (si_spec p))) (\<lambda>spec.
     transaction
       (seq (require_node n) (\<lambda>_.
        seq (require_peering n (si_peering_id p)) (\<lambda>_.
        seq next_bgp (\<lambda>i.
          let row = \<lparr>bg_id = i, bg_node_id = n, bg_peering_id = si_peering_id p, bg_enabled = bgp_enabled spec,
                     bg_spec = spec, bg_sort_order = si_sort_order p\<rparr> in
          seq (save_bgp row (session_exists (bgp_name spec) n)) (\<lambda>_.
            published row n (''bgp session '' @ bgp_name spec @ '' added'')))))))"

definition update_session :: "int \<Rightarrow> session_patch \<Rightarrow> (control, bgp_row change) eff" where
  "update_session i p =
     seq (case sp_spec p of None \<Rightarrow> ret None | Some x \<Rightarrow> seq (lift_res (validate_bgp_spec x)) (\<lambda>x. ret (Some x))) (\<lambda>new_spec.
     transaction (reading (\<lambda>s. case get_bgp i s of
        None \<Rightarrow> lift_res (Inl (HTTPException 404 (''unknown bgp session '' @ str_int i)))
      | Some r \<Rightarrow>
          let n = bg_node_id r in
          seq (if sp_clear_peering p then ret () else require_peering n (sp_peering_id p)) (\<lambda>_.
          let moved = r\<lparr>bg_peering_id := moved_peering (sp_clear_peering p) (sp_peering_id p) (bg_peering_id r),
                        bg_sort_order := or_default (bg_sort_order r) (sp_sort_order p)\<rparr>;
              row = (case new_spec of None \<Rightarrow> moved | Some x \<Rightarrow> apply_bgp_spec x moved) in
          seq (save_bgp row (session_exists (bgp_name (bg_spec row)) n)) (\<lambda>_.
            published row n (''bgp session '' @ bgp_name (bg_spec row) @ '' updated''))))))"

definition delete_session :: "int \<Rightarrow> (control, unit change) eff" where
  "delete_session i =
     transaction (reading (\<lambda>s. case get_bgp i s of
        None \<Rightarrow> lift_res (Inl (HTTPException 404 (''unknown bgp session '' @ str_int i)))
      | Some r \<Rightarrow>
          seq (modify (\<lambda>s. s\<lparr>ct_bgp := row_del bg_id i (ct_bgp s)\<rparr>)) (\<lambda>_.
            published () (bg_node_id r) (''bgp session '' @ bgp_name (bg_spec r) @ '' deleted''))))"

text \<open>The listings.\<close>

definition list_interfaces :: "string \<Rightarrow> (control, wg_row list) eff" where
  "list_interfaces n = seq (require_node n) (\<lambda>_. reading (\<lambda>s. ret (load_interfaces n s)))"

definition list_sessions :: "string \<Rightarrow> (control, bgp_row list) eff" where
  "list_sessions n = seq (require_node n) (\<lambda>_. reading (\<lambda>s. ret (load_sessions n s)))"

end
