(* ===== verification/Provision.thy ===== *)
theory Provision
  imports Interface_Admin
begin

text \<open>
  Provisioning a node from one complete desired state: \<open>db/provision.py\<close> and \<open>api/v1/admin/provision.py\<close>.
  The state is taken apart into the node's row and its interfaces and sessions, and materialized again.
\<close>

section \<open>Token rows\<close>

type_synonym digest = "string \<Rightarrow> string"

definition literal_token_id :: "digest \<Rightarrow> string \<Rightarrow> string" where
  "literal_token_id h secret = ''agt_'' @ take 12 (h secret)"

text \<open>Writing the row: the unique index on the hash and the foreign key on the node are checked by the
  database.\<close>

definition write_token :: "agent_token \<Rightarrow> (control, unit) eff" where
  "write_token r =
     reading (\<lambda>s.
       if list_ex (\<lambda>x. at_hash x = at_hash r \<and> at_token x \<noteq> at_token r) (ct_tokens s)
       then lift_res (Inl (IntegrityError ''agent_tokens.token_hash''))
       else if get_node (at_node_id r) s = None then lift_res (Inl (IntegrityError ''agent_tokens.node_id''))
       else modify (put_token r))"

section \<open>Taking a state apart\<close>

text \<open>Of the node's part only the region is read again: every other field has a column.  DNS is not kept.\<close>

definition split_base_template :: "desired_state \<Rightarrow> base_template" where
  "split_base_template d = \<lparr>bt_node = Some (ds_node d), bt_runtime = Some (ds_runtime d), bt_bird = ds_bird d\<rparr>"

definition new_provisioned_row :: "desired_state \<Rightarrow> node_row" where
  "new_provisioned_row d =
     (let n = ds_node d in
      \<lparr>nr_node_id = nd_node_id n, nr_site = Some (nd_site n), nr_asn = nd_asn n, nr_router_id = nd_router_id n,
       nr_loopback_ipv4 = nd_loopback_ipv4 n, nr_loopback_ipv6 = nd_loopback_ipv6 n, nr_link_local = None,
       nr_ipv4_prefixes = nd_ipv4_prefixes n, nr_ipv6_prefixes = nd_ipv6_prefixes n,
       nr_base_template = split_base_template d, nr_generation = 0, nr_lifecycle = ''active'', nr_dns_group_id = None,
       nr_public_key = None, nr_escrow = None\<rparr>)"

definition provisioned_row :: "desired_state \<Rightarrow> node_row \<Rightarrow> node_row" where
  "provisioned_row d r =
     (let n = ds_node d in
      r\<lparr>nr_site := Some (nd_site n), nr_asn := nd_asn n, nr_router_id := nd_router_id n,
        nr_loopback_ipv4 := nd_loopback_ipv4 n, nr_loopback_ipv6 := nd_loopback_ipv6 n,
        nr_ipv4_prefixes := nd_ipv4_prefixes n, nr_ipv6_prefixes := nd_ipv6_prefixes n,
        nr_base_template := split_base_template d\<rparr>)"

definition delete_children :: "string \<Rightarrow> control \<Rightarrow> control" where
  "delete_children n s =
     s\<lparr>ct_wg := filter (\<lambda>r. wg_node_id r \<noteq> n) (ct_wg s), ct_bgp := filter (\<lambda>r. bg_node_id r \<noteq> n) (ct_bgp s)\<rparr>"

definition add_interface :: "string \<Rightarrow> nat \<times> interface_spec \<Rightarrow> (control, unit) eff" where
  "add_interface n x =
     seq next_wg (\<lambda>i.
       save_wg \<lparr>wg_id = i, wg_node_id = n, wg_peering_id = None, wg_enabled = True, wg_spec = snd x, wg_sort_order = int (fst x)\<rparr>
         (IntegrityError ''uq_wg_interfaces_node_id_name''))"

definition add_session :: "string \<Rightarrow> nat \<times> bgp_session \<Rightarrow> (control, unit) eff" where
  "add_session n x =
     seq next_bgp (\<lambda>i.
       save_bgp (apply_bgp_spec (snd x) \<lparr>bg_id = i, bg_node_id = n, bg_peering_id = None, bg_enabled = True, bg_spec = snd x,
                                 bg_sort_order = int (fst x)\<rparr>)
         (IntegrityError ''uq_bgp_sessions_node_id_name''))"

definition add_children :: "desired_state \<Rightarrow> (control, unit) eff" where
  "add_children d =
     (let n = nd_node_id (ds_node d) in
      seq (each (add_interface n) (enumerate 0 (ds_interfaces d))) (\<lambda>_.
        each (add_session n) (enumerate 0 (ds_bgp_sessions d))))"

section \<open>The transaction and the handler\<close>

definition put_provisioned :: "desired_state \<Rightarrow> (control, unit) eff" where
  "put_provisioned d =
     (let n = nd_node_id (ds_node d) in
      reading (\<lambda>s. case get_node n s of
         None \<Rightarrow> modify (put_node (new_provisioned_row d))
       | Some r \<Rightarrow> seq (modify (put_node (provisioned_row d r))) (\<lambda>_. modify (delete_children n))))"

text \<open>A token that is there already is left alone, whichever node it belongs to.\<close>

definition bind_agent_token :: "digest \<Rightarrow> string \<Rightarrow> string option \<Rightarrow> (control, unit) eff" where
  "bind_agent_token h n token =
     (case token of
        None \<Rightarrow> ret ()
      | Some t \<Rightarrow> reading (\<lambda>s.
          if get_token (literal_token_id h t) s \<noteq> None then ret ()
          else write_token \<lparr>at_token = literal_token_id h t, at_hash = h t, at_node_id = n, at_agent_id = n @ ''-agent'',
                            at_expires_at = None, at_revoked_at = None\<rparr>))"

definition provision_node_from_state ::
  "digest \<Rightarrow> desired_state \<Rightarrow> string option \<Rightarrow> string option \<Rightarrow> (control, desired_state) eff" where
  "provision_node_from_state h d token reason =
     (let n = nd_node_id (ds_node d) in
      seq (put_provisioned d) (\<lambda>_.
      seq (add_children d) (\<lambda>_.
      seq (bind_agent_token h n token) (\<lambda>_.
      seq (materialize n (Some (if truthy reason then the reason else ''provision'')) DEFAULT_GENERATION_RETENTION) (\<lambda>st.
        case st of
          None \<Rightarrow> lift_res (Inl (AssertionError ''provision materialization must succeed''))
        | Some x \<Rightarrow> ret x)))))"

definition provision_node :: "digest \<Rightarrow> desired_state \<Rightarrow> string option \<Rightarrow> (control, desired_state change) eff" where
  "provision_node h state token =
     seq (lift_res (as_422 ''invalid DesiredState'' (model_validate_state state))) (\<lambda>d.
     seq (transaction (provision_node_from_state h d token (Some ''admin provision''))) (\<lambda>st.
       ret (st, [(nd_node_id (ds_node d), st)], ''admin provision'')))"

text \<open>A token that was issued to another node is not bound to the node that is provisioned with it.\<close>

lemma provisioned_token_stays:
  assumes "get_token (literal_token_id h t) s = Some r"
  shows "bind_agent_token h n (Some t) s = (Inr (), s)"
  using assms by (simp add: bind_agent_token_def)

end
