(* ===== verification/Peering_Admin.thy ===== *)
theory Peering_Admin
  imports Interface_Admin
begin

text \<open>
  Peerings, \<open>api/v1/admin/peerings.py\<close>: the plain handlers, which publish nothing, the one-step provisioning and
  the replacement of a peering with all its interfaces and sessions.
\<close>

section \<open>Plain handlers\<close>

record peering_in =
  pi_name :: string
  pi_remote_asn :: int
  pi_remote_node_id :: "string option"
  pi_remote_label :: "string option"
  pi_is_internal :: bool
  pi_enabled :: bool

definition validate_peering_in :: "peering_in \<Rightarrow> peering_in res" where
  "validate_peering_in p =
     checks [(pi_name p = [] \<or> 64 < length (pi_name p), ValueError ''name''), (pi_remote_asn p < 1, ValueError ''remote_asn'')] p"

definition require_remote :: "string option \<Rightarrow> (control, unit) eff" where
  "require_remote remote =
     reading (\<lambda>s. case remote of
        None \<Rightarrow> ret ()
      | Some n \<Rightarrow> if get_node n s = None then lift_res (Inl (HTTPException 400 (''unknown remote node '' @ n))) else ret ())"

text \<open>UNIQUE(local node, name), for another row than the given one.\<close>

definition peering_clash :: "peering_row \<Rightarrow> control \<Rightarrow> bool" where
  "peering_clash r s \<longleftrightarrow>
     list_ex (\<lambda>x. pe_id x \<noteq> pe_id r \<and> pe_local_node_id x = pe_local_node_id r \<and> pe_name x = pe_name r) (ct_peerings s)"

definition save_peering :: "peering_row \<Rightarrow> exc \<Rightarrow> (control, unit) eff" where
  "save_peering r conflict =
     reading (\<lambda>s. if peering_clash r s then lift_res (Inl conflict)
                  else modify (\<lambda>s. s\<lparr>ct_peerings := row_put pe_id r (ct_peerings s)\<rparr>))"

definition next_peering :: "(control, int) eff" where
  "next_peering =
     reading (\<lambda>s. seq (modify (\<lambda>s. s\<lparr>ct_next_peering := ct_next_peering s + 1\<rparr>)) (\<lambda>_. ret (ct_next_peering s)))"

definition peering_exists :: "string \<Rightarrow> string \<Rightarrow> exc" where
  "peering_exists name n = HTTPException 409 (''peering name '' @ repr_str name @ '' already exists on node '' @ n)"

definition new_peering :: "int \<Rightarrow> string \<Rightarrow> peering_in \<Rightarrow> peering_row" where
  "new_peering i n p =
     \<lparr>pe_id = i, pe_local_node_id = n, pe_remote_node_id = pi_remote_node_id p, pe_name = pi_name p,
      pe_remote_asn = pi_remote_asn p, pe_remote_label = pi_remote_label p, pe_is_internal = pi_is_internal p,
      pe_enabled = pi_enabled p\<rparr>"

definition insert_peering :: "string \<Rightarrow> peering_in \<Rightarrow> (control, peering_row) eff" where
  "insert_peering n p =
     seq next_peering (\<lambda>i.
     seq (save_peering (new_peering i n p) (peering_exists (pi_name p) n)) (\<lambda>_. ret (new_peering i n p)))"

definition create_peering :: "string \<Rightarrow> peering_in \<Rightarrow> (control, peering_row) eff" where
  "create_peering n p =
     transaction (seq (require_node n) (\<lambda>_. seq (require_remote (pi_remote_node_id p)) (\<lambda>_. insert_peering n p)))"

text \<open>The fields of a patch that were set; \<open>None\<close> is an explicit null.\<close>

datatype peering_field =
    P_Name "string option" | P_Remote_Asn "int option" | P_Remote_Node "string option" | P_Remote_Label "string option"
  | P_Internal "bool option" | P_Enabled "bool option"

fun validate_peering_field :: "peering_field \<Rightarrow> unit res" where
  "validate_peering_field (P_Name (Some v)) = raise_if (v = [] \<or> 64 < length v) (ValueError ''name'')"
| "validate_peering_field (P_Remote_Asn (Some v)) = raise_if (v < 1) (ValueError ''remote_asn'')"
| "validate_peering_field _ = Inr ()"

fun set_peering_field :: "peering_row \<Rightarrow> peering_field \<Rightarrow> peering_row res" where
  "set_peering_field r (P_Name v) =
     (case v of None \<Rightarrow> Inl (IntegrityError ''peerings.name'') | Some x \<Rightarrow> Inr (r\<lparr>pe_name := x\<rparr>))"
| "set_peering_field r (P_Remote_Asn v) =
     (case v of None \<Rightarrow> Inl (IntegrityError ''peerings.remote_asn'') | Some x \<Rightarrow> Inr (r\<lparr>pe_remote_asn := x\<rparr>))"
| "set_peering_field r (P_Remote_Node v) = Inr (r\<lparr>pe_remote_node_id := v\<rparr>)"
| "set_peering_field r (P_Remote_Label v) = Inr (r\<lparr>pe_remote_label := v\<rparr>)"
| "set_peering_field r (P_Internal v) =
     (case v of None \<Rightarrow> Inl (IntegrityError ''peerings.is_internal'') | Some x \<Rightarrow> Inr (r\<lparr>pe_is_internal := x\<rparr>))"
| "set_peering_field r (P_Enabled v) =
     (case v of None \<Rightarrow> Inl (IntegrityError ''peerings.enabled'') | Some x \<Rightarrow> Inr (r\<lparr>pe_enabled := x\<rparr>))"

definition with_peering :: "int \<Rightarrow> (peering_row \<Rightarrow> (control, 'a) eff) \<Rightarrow> (control, 'a) eff" where
  "with_peering i f =
     reading (\<lambda>s. case get_peering_row i s of
        None \<Rightarrow> lift_res (Inl (HTTPException 404 (''unknown peering '' @ str_int i)))
      | Some r \<Rightarrow> f r)"

text \<open>A name that is taken is not caught here: the integrity error escapes.\<close>

definition update_peering :: "int \<Rightarrow> peering_field list \<Rightarrow> (control, peering_row) eff" where
  "update_peering i patch =
     transaction (with_peering i (\<lambda>r.
       seq (each (\<lambda>f. case f of P_Remote_Node v \<Rightarrow> require_remote v | _ \<Rightarrow> ret ()) patch) (\<lambda>_.
       seq (lift_res (rfold set_peering_field r patch)) (\<lambda>row.
       seq (save_peering row (IntegrityError ''uq_peerings_local_node_id_name'')) (\<lambda>_. ret row)))))"

text \<open>The relationships delete the interfaces and the sessions of the peering with it.\<close>

definition delete_peering :: "int \<Rightarrow> (control, unit) eff" where
  "delete_peering i =
     transaction (with_peering i (\<lambda>r.
       modify (\<lambda>s. s\<lparr>ct_peerings := row_del pe_id i (ct_peerings s),
                      ct_wg := filter (\<lambda>x. wg_peering_id x \<noteq> Some i) (ct_wg s),
                      ct_bgp := filter (\<lambda>x. bg_peering_id x \<noteq> Some i) (ct_bgp s)\<rparr>)))"

section \<open>Provisioning in one step\<close>

record provision_in =
  vi_peering :: peering_in
  vi_interface_spec :: interface_spec
  vi_interface_enabled :: bool
  vi_interface_sort_order :: int
  vi_bgp_spec :: "bgp_session option"
  vi_bgp_sort_order :: int

definition provision_peering ::
  "string \<Rightarrow> provision_in \<Rightarrow> (control, (peering_row \<times> wg_row \<times> bgp_row option) change) eff" where
  "provision_peering n p =
     seq (lift_res (validate_iface_spec (vi_interface_spec p))) (\<lambda>iface.
     seq (case vi_bgp_spec p of None \<Rightarrow> ret None | Some x \<Rightarrow> seq (lift_res (validate_bgp_spec x)) (\<lambda>x. ret (Some x))) (\<lambda>bgp.
     transaction
       (seq (require_node n) (\<lambda>_.
        seq (require_remote (pi_remote_node_id (vi_peering p))) (\<lambda>_.
        seq (insert_peering n (vi_peering p)) (\<lambda>peering.
        seq (validate_wireguard_port_policy n iface (vi_interface_enabled p) None) (\<lambda>_.
        seq next_wg (\<lambda>i.
        let wg = \<lparr>wg_id = i, wg_node_id = n, wg_peering_id = Some (pe_id peering), wg_enabled = vi_interface_enabled p,
                  wg_spec = iface, wg_sort_order = vi_interface_sort_order p\<rparr> in
        seq (save_wg wg (iface_exists (if_name iface) n)) (\<lambda>_.
        seq (case bgp of
               None \<Rightarrow> ret None
             | Some spec \<Rightarrow>
                 seq next_bgp (\<lambda>k.
                   let row = \<lparr>bg_id = k, bg_node_id = n, bg_peering_id = Some (pe_id peering), bg_enabled = bgp_enabled spec,
                              bg_spec = spec, bg_sort_order = vi_bgp_sort_order p\<rparr> in
                   seq (save_bgp row (session_exists (bgp_name spec) n)) (\<lambda>_. ret (Some row)))) (\<lambda>session.
          published (peering, wg, session) n (''peering '' @ pi_name (vi_peering p) @ '' provisioned'')))))))))))"

section \<open>The full replacement\<close>

record full_iface =
  fi_spec :: interface_spec
  fi_enabled :: bool
  fi_sort_order :: int

record full_bgp =
  fb_spec :: bgp_session
  fb_sort_order :: int

record full_in =
  fu_peering :: peering_in
  fu_interfaces :: "full_iface list"
  fu_sessions :: "full_bgp list"

definition named_peering :: "string \<Rightarrow> string \<Rightarrow> control \<Rightarrow> peering_row option" where
  "named_peering n name s = find (\<lambda>r. pe_local_node_id r = n \<and> pe_name r = name) (ct_peerings s)"

definition named_wg :: "string \<Rightarrow> string \<Rightarrow> control \<Rightarrow> wg_row option" where
  "named_wg n name s = find (\<lambda>r. wg_node_id r = n \<and> if_name (wg_spec r) = name) (ct_wg s)"

definition named_bgp :: "string \<Rightarrow> string \<Rightarrow> control \<Rightarrow> bgp_row option" where
  "named_bgp n name s = find (\<lambda>r. bg_node_id r = n \<and> bgp_name (bg_spec r) = name) (ct_bgp s)"

definition prune_interfaces :: "int \<Rightarrow> string list \<Rightarrow> control \<Rightarrow> control" where
  "prune_interfaces pid desired s =
     s\<lparr>ct_wg := filter (\<lambda>r. \<not> (wg_peering_id r = Some pid \<and> if_name (wg_spec r) \<notin> set desired)) (ct_wg s)\<rparr>"

definition prune_sessions :: "int \<Rightarrow> string list \<Rightarrow> control \<Rightarrow> control" where
  "prune_sessions pid desired s =
     s\<lparr>ct_bgp := filter (\<lambda>r. \<not> (bg_peering_id r = Some pid \<and> bgp_name (bg_spec r) \<notin> set desired)) (ct_bgp s)\<rparr>"

definition child_conflict :: "string \<Rightarrow> string \<Rightarrow> string \<Rightarrow> exc" where
  "child_conflict model name n = HTTPException 409 (model @ '' '' @ repr_str name @ '' conflict on node '' @ n)"

definition write_interface :: "string \<Rightarrow> int \<Rightarrow> full_iface \<Rightarrow> (control, unit) eff" where
  "write_interface n pid entry =
     reading (\<lambda>s.
       seq (case named_wg n (if_name (fi_spec entry)) s of
              Some r \<Rightarrow> ret r
            | None \<Rightarrow> seq next_wg (\<lambda>i. ret \<lparr>wg_id = i, wg_node_id = n, wg_peering_id = None, wg_enabled = True,
                                             wg_spec = fi_spec entry, wg_sort_order = 0\<rparr>)) (\<lambda>r.
         save_wg (r\<lparr>wg_peering_id := Some pid, wg_spec := fi_spec entry, wg_enabled := fi_enabled entry,
                    wg_sort_order := fi_sort_order entry\<rparr>) (child_conflict ''WgInterface'' (if_name (fi_spec entry)) n)))"

definition write_session :: "string \<Rightarrow> int \<Rightarrow> full_bgp \<Rightarrow> (control, unit) eff" where
  "write_session n pid entry =
     reading (\<lambda>s.
       seq (case named_bgp n (bgp_name (fb_spec entry)) s of
              Some r \<Rightarrow> ret r
            | None \<Rightarrow> seq next_bgp (\<lambda>i. ret \<lparr>bg_id = i, bg_node_id = n, bg_peering_id = None, bg_enabled = True,
                                              bg_spec = fb_spec entry, bg_sort_order = 0\<rparr>)) (\<lambda>r.
         save_bgp ((apply_bgp_spec (fb_spec entry) r)\<lparr>bg_peering_id := Some pid, bg_sort_order := fb_sort_order entry\<rparr>)
           (child_conflict ''BgpSession'' (bgp_name (fb_spec entry)) n)))"

definition put_interface :: "string \<Rightarrow> int \<Rightarrow> full_iface \<Rightarrow> (control, unit) eff" where
  "put_interface n pid entry =
     reading (\<lambda>s.
       seq (validate_wireguard_port_policy n (fi_spec entry) (fi_enabled entry)
              (map_option wg_id (named_wg n (if_name (fi_spec entry)) s))) (\<lambda>_.
         write_interface n pid entry))"

text \<open>The row that is written is the payload's, under the number of the row with that name, if there is one.\<close>

definition upsert_peering :: "string \<Rightarrow> peering_in \<Rightarrow> (control, int) eff" where
  "upsert_peering n p =
     reading (\<lambda>s.
       seq (case named_peering n (pi_name p) s of Some r \<Rightarrow> ret (pe_id r) | None \<Rightarrow> next_peering) (\<lambda>i.
       seq (save_peering (new_peering i n p) (IntegrityError ''uq_peerings_local_node_id_name'')) (\<lambda>_. ret i)))"

definition put_peering_full :: "string \<Rightarrow> full_in \<Rightarrow> (control, int change) eff" where
  "put_peering_full n p =
     seq (lift_res (rmap (\<lambda>i. rbind (validate_iface_spec (fi_spec i)) (\<lambda>x. Inr (i\<lparr>fi_spec := x\<rparr>))) (fu_interfaces p))) (\<lambda>ifaces.
     seq (lift_res (rmap (\<lambda>b. rbind (validate_bgp_spec (fb_spec b)) (\<lambda>x. Inr (b\<lparr>fb_spec := x\<rparr>))) (fu_sessions p))) (\<lambda>sessions.
     transaction
       (seq (require_node n) (\<lambda>_.
        seq (require_remote (pi_remote_node_id (fu_peering p))) (\<lambda>_.
        seq (upsert_peering n (fu_peering p)) (\<lambda>pid.
        seq (modify (prune_interfaces pid (map (\<lambda>i. if_name (fi_spec i)) ifaces))) (\<lambda>_.
        seq (each (put_interface n pid) ifaces) (\<lambda>_.
        seq (modify (prune_sessions pid (map (\<lambda>b. bgp_name (fb_spec b)) sessions))) (\<lambda>_.
        seq (each (write_session n pid) sessions) (\<lambda>_.
          published pid n (''peering '' @ pi_name (fu_peering p) @ '' fully applied'')))))))))))"

section \<open>Reading\<close>

definition list_peerings :: "string \<Rightarrow> (control, peering_row list) eff" where
  "list_peerings n =
     seq (require_node n) (\<lambda>_. reading (\<lambda>s. ret (sort_key pe_name (filter (\<lambda>r. pe_local_node_id r = n) (ct_peerings s)))))"

definition peering_full :: "control \<Rightarrow> peering_row \<Rightarrow> peering_row \<times> wg_row list \<times> bgp_row list" where
  "peering_full s r =
     (r, sort_key (\<lambda>x. (wg_sort_order x, wg_id x)) (filter (\<lambda>x. wg_peering_id x = Some (pe_id r)) (ct_wg s)),
         sort_key (\<lambda>x. (bg_sort_order x, bg_id x)) (filter (\<lambda>x. bg_peering_id x = Some (pe_id r)) (ct_bgp s)))"

end
