(* ===== verification/Peering_Backfill.thy ===== *)
theory Peering_Backfill
  imports Peering_Admin
begin

text \<open>
  Grouping a node's interfaces and sessions that belong to no peering into peerings,
  \<open>services/peering\_backfill.py\<close>.
\<close>

section \<open>The heuristics\<close>

definition kind_value :: "interface_kind \<Rightarrow> string" where
  "kind_value k = (case k of DUMMY \<Rightarrow> ''dummy'' | WIREGUARD \<Rightarrow> ''wireguard'' | UNDERLAY \<Rightarrow> ''underlay'')"

definition peer_bearing :: "interface_kind \<Rightarrow> bool" where
  "peer_bearing k \<longleftrightarrow> k \<in> {WIREGUARD, UNDERLAY}"

record planned_peering =
  pp_name :: string
  pp_remote_asn :: int
  pp_is_internal :: bool
  pp_remote_node_id :: "string option"
  pp_interface_ids :: "int list"
  pp_session_ids :: "int list"
  pp_peering_id :: "int option"

record backfill_result =
  bf_dry_run :: bool
  bf_created :: "planned_peering list"
  bf_skipped_interfaces :: "(int \<times> string \<times> string) list"
  bf_skipped_sessions :: "(int \<times> string \<times> string) list"

definition neighbor_address :: "bgp_session \<Rightarrow> string" where
  "neighbor_address x = fst (split_ipv6_zone (bgp_neighbor x))"

definition address_in_any :: "string \<Rightarrow> string list \<Rightarrow> bool" where
  "address_in_any address prefixes \<longleftrightarrow> list_ex (is_address_in_prefix address) prefixes"

definition reaches :: "bgp_session \<Rightarrow> interface_spec \<Rightarrow> bool" where
  "reaches x spec \<longleftrightarrow>
     address_in_any (neighbor_address x)
       (if_peer_routes spec @ (case if_wireguard_peer spec of None \<Rightarrow> [] | Some p \<Rightarrow> wp_allowed_ips p)) \<or>
     address_in_any (bgp_source_address x) (if_addresses spec)"

definition anchor_interface :: "bgp_session \<Rightarrow> (wg_row \<times> interface_spec) list \<Rightarrow> wg_row option" where
  "anchor_interface x ifaces =
     (case (if truthy (bgp_interface x)
            then find (\<lambda>(r, _). Some (if_name (wg_spec r)) = bgp_interface x) ifaces else None) of
        Some (r, _) \<Rightarrow> Some r
      | None \<Rightarrow> map_option fst (find (\<lambda>(_, spec). reaches x spec) ifaces))"

definition resolve_remote_node :: "control \<Rightarrow> string \<Rightarrow> string list \<Rightarrow> string option" where
  "resolve_remote_node s local addresses =
     (let candidates = filter (\<lambda>a. a \<noteq> []) addresses in
      if candidates = [] then None
      else map_option nr_node_id
        (find (\<lambda>n. nr_node_id n \<noteq> local \<and>
                  list_ex (\<lambda>a. a \<in> set candidates)
                    (concat (map (\<lambda>x. if truthy x then [the x] else [])
                       [nr_loopback_ipv4 n, nr_loopback_ipv6 n, Some (nr_router_id n)]))) (ct_nodes s)))"

definition suffixed :: "string \<Rightarrow> nat \<Rightarrow> string" where
  "suffixed base k = base @ ''-'' @ str_int (int k)"

lemma str_int_inj: "str_int (int i) = str_int (int j) \<Longrightarrow> i = j"
  by (metis of_nat_0_le_iff of_nat_eq_iff str_int_read(1))

lemma finite_suffixes: "finite {j. suffixed base j \<in> set taken}"
proof -
  have "inj_on (suffixed base) {j. suffixed base j \<in> set taken}"
    by (rule inj_onI) (auto simp: suffixed_def dest: str_int_inj)
  moreover have "suffixed base ` {j. suffixed base j \<in> set taken} \<subseteq> set taken" by auto
  ultimately show ?thesis by (meson finite_imageD finite_set finite_subset)
qed

function free_suffix :: "string \<Rightarrow> string list \<Rightarrow> nat \<Rightarrow> nat" where
  "free_suffix base taken k = (if suffixed base k \<in> set taken then free_suffix base taken (k + 1) else k)"
  by pat_completeness auto
termination
proof (relation "measure (\<lambda>(base, taken, k). card {j. k \<le> j \<and> suffixed base j \<in> set taken})", goal_cases)
  case (2 base taken k)
  have "{j. k + 1 \<le> j \<and> suffixed base j \<in> set taken} \<subset> {j. k \<le> j \<and> suffixed base j \<in> set taken}"
    by (rule psubsetI, blast intro: order_trans [OF le_add1]) (use 2 in \<open>metis (mono_tags, lifting) Suc_eq_plus1 mem_Collect_eq not_less_eq_eq order_refl\<close>)
  moreover have "finite {j. k \<le> j \<and> suffixed base j \<in> set taken}"
    by (rule finite_subset [OF _ finite_suffixes [of base taken]]) auto
  ultimately show ?case by (simp add: psubset_card_mono)
qed simp

declare free_suffix.simps [simp del]

definition unique_name :: "string \<Rightarrow> string list \<Rightarrow> string" where
  "unique_name base taken = (if base \<notin> set taken then base else suffixed base (free_suffix base taken 2))"

lemma free_suffix_free: "suffixed base (free_suffix base taken k) \<notin> set taken"
  by (induction base taken k rule: free_suffix.induct) (subst free_suffix.simps, simp)

lemma unique_name_new: "unique_name base taken \<notin> set taken"
  by (simp add: unique_name_def free_suffix_free)

text \<open>The most frequent ASN, the first seen among equals.\<close>

definition dominant_asn :: "bgp_session list \<Rightarrow> int" where
  "dominant_asn specs =
     (let asns = map bgp_remote_asn specs; order = rev (remdups (rev asns)) in
      hd (filter (\<lambda>a. list_all (\<lambda>b. count_list asns b \<le> count_list asns a) order) order))"

section \<open>The plan\<close>

definition orphan_interfaces :: "string \<Rightarrow> control \<Rightarrow> wg_row list" where
  "orphan_interfaces n s = filter (\<lambda>r. wg_peering_id r = None) (load_interfaces n s)"

definition orphan_sessions :: "string \<Rightarrow> control \<Rightarrow> bgp_row list" where
  "orphan_sessions n s = filter (\<lambda>r. bg_peering_id r = None) (load_sessions n s)"

definition parse_interface :: "wg_row \<Rightarrow> string + (wg_row \<times> interface_spec)" where
  "parse_interface r =
     (if \<not> peer_bearing (if_kind (wg_spec r)) then Inl (''non-peer-bearing kind '' @ kind_value (if_kind (wg_spec r)))
      else case validate_interface (wg_spec r) of Inl _ \<Rightarrow> Inl ''invalid InterfaceSpec'' | Inr x \<Rightarrow> Inr (r, x))"

definition parse_session :: "bgp_row \<Rightarrow> string + (bgp_row \<times> bgp_session)" where
  "parse_session r = (case validate_bgp_session (bg_spec r) of Inl _ \<Rightarrow> Inl ''invalid BgpSessionSpec'' | Inr x \<Rightarrow> Inr (r, x))"

definition parsed_interfaces :: "string \<Rightarrow> control \<Rightarrow> (wg_row \<times> interface_spec) list" where
  "parsed_interfaces n s = concat (map (\<lambda>r. case parse_interface r of Inr x \<Rightarrow> [x] | Inl _ \<Rightarrow> []) (orphan_interfaces n s))"

definition parsed_sessions :: "string \<Rightarrow> control \<Rightarrow> (bgp_row \<times> bgp_session) list" where
  "parsed_sessions n s = concat (map (\<lambda>r. case parse_session r of Inr x \<Rightarrow> [x] | Inl _ \<Rightarrow> []) (orphan_sessions n s))"

definition anchored_to :: "(wg_row \<times> interface_spec) list \<Rightarrow> wg_row \<Rightarrow> (bgp_row \<times> bgp_session) list \<Rightarrow> (bgp_row \<times> bgp_session) list" where
  "anchored_to ifaces r sessions =
     filter (\<lambda>(_, x). map_option wg_id (anchor_interface x ifaces) = Some (wg_id r)) sessions"

text \<open>\<open>asn\_groups.setdefault(...).append(...)\<close>.\<close>

definition asn_groups ::
  "(wg_row \<times> interface_spec) list \<Rightarrow> (bgp_row \<times> bgp_session) list \<Rightarrow> (int \<times> (bgp_row \<times> bgp_session) list) list" where
  "asn_groups ifaces sessions =
     foldl (\<lambda>d (r, x). if anchor_interface x ifaces \<noteq> None then d
              else dput (bgp_remote_asn x) ((case map_of d (bgp_remote_asn x) of None \<Rightarrow> [] | Some l \<Rightarrow> l) @ [(r, x)]) d)
       [] sessions"

definition session_addresses :: "(bgp_row \<times> bgp_session) list \<Rightarrow> string list" where
  "session_addresses grp = concat (map (\<lambda>(_, x). [neighbor_address x, bgp_source_address x]) grp)"

definition plan_group ::
  "control \<Rightarrow> node_row \<Rightarrow> string \<Rightarrow> int \<Rightarrow> int list \<Rightarrow> (bgp_row \<times> bgp_session) list \<Rightarrow> string list \<Rightarrow> planned_peering" where
  "plan_group s node base asn interfaces grp taken =
     \<lparr>pp_name = unique_name base taken, pp_remote_asn = asn,
      pp_is_internal = list_ex (\<lambda>(_, x). is_internal x (nr_asn node)) grp,
      pp_remote_node_id = resolve_remote_node s (nr_node_id node) (session_addresses grp),
      pp_interface_ids = interfaces, pp_session_ids = map (\<lambda>(r, _). bg_id r) grp, pp_peering_id = None\<rparr>"

text \<open>The groups in the order they are planned: the name to start from, the ASN, the interface and the sessions.\<close>

definition backfill_groups :: "string \<Rightarrow> control \<Rightarrow> (string \<times> int \<times> int list \<times> (bgp_row \<times> bgp_session) list) list" where
  "backfill_groups n s =
     (let ifaces = parsed_interfaces n s; sessions = parsed_sessions n s in
      concat (map (\<lambda>(r, _). let grp = anchored_to ifaces r sessions in
         if grp = [] then []
         else [(if_name (wg_spec r), dominant_asn (map snd grp), [wg_id r], grp)]) ifaces) @
      map (\<lambda>(asn, grp). (''as'' @ str_int asn, asn, [], grp)) (asn_groups ifaces sessions))"

fun plan_groups ::
  "control \<Rightarrow> node_row \<Rightarrow> string list \<Rightarrow> (string \<times> int \<times> int list \<times> (bgp_row \<times> bgp_session) list) list \<Rightarrow> planned_peering list" where
  "plan_groups s node taken [] = []"
| "plan_groups s node taken ((base, asn, interfaces, grp) # gs) =
     (let plan = plan_group s node base asn interfaces grp taken in
      plan # plan_groups s node (taken @ [pp_name plan]) gs)"

definition taken_names :: "string \<Rightarrow> control \<Rightarrow> string list" where
  "taken_names n s = map pe_name (filter (\<lambda>p. pe_local_node_id p = n) (ct_peerings s))"

definition backfill_plan :: "node_row \<Rightarrow> control \<Rightarrow> planned_peering list" where
  "backfill_plan node s =
     plan_groups s node (taken_names (nr_node_id node) s) (backfill_groups (nr_node_id node) s)"

definition skipped_interfaces :: "string \<Rightarrow> control \<Rightarrow> (int \<times> string \<times> string) list" where
  "skipped_interfaces n s =
     concat (map (\<lambda>r. case parse_interface r of Inl why \<Rightarrow> [(wg_id r, if_name (wg_spec r), why)] | Inr _ \<Rightarrow> []) (orphan_interfaces n s)) @
     concat (map (\<lambda>(r, _). if anchored_to (parsed_interfaces n s) r (parsed_sessions n s) = []
        then [(wg_id r, if_name (wg_spec r), ''transport-only interface without BGP session (remote_asn unknown)'')] else [])
        (parsed_interfaces n s))"

definition skipped_sessions :: "string \<Rightarrow> control \<Rightarrow> (int \<times> string \<times> string) list" where
  "skipped_sessions n s =
     concat (map (\<lambda>r. case parse_session r of Inl why \<Rightarrow> [(bg_id r, bgp_name (bg_spec r), why)] | Inr _ \<Rightarrow> []) (orphan_sessions n s))"

section \<open>Applying it\<close>

definition planned_row :: "string \<Rightarrow> planned_peering \<Rightarrow> peering_in" where
  "planned_row n p =
     \<lparr>pi_name = pp_name p, pi_remote_asn = pp_remote_asn p, pi_remote_node_id = pp_remote_node_id p, pi_remote_label = None,
      pi_is_internal = pp_is_internal p, pi_enabled = True\<rparr>"

definition claim_children :: "int \<Rightarrow> planned_peering \<Rightarrow> control \<Rightarrow> control" where
  "claim_children pid p s =
     s\<lparr>ct_wg := map (\<lambda>r. if wg_id r \<in> set (pp_interface_ids p) then r\<lparr>wg_peering_id := Some pid\<rparr> else r) (ct_wg s),
       ct_bgp := map (\<lambda>r. if bg_id r \<in> set (pp_session_ids p) then r\<lparr>bg_peering_id := Some pid\<rparr> else r) (ct_bgp s)\<rparr>"

fun apply_plans :: "string \<Rightarrow> planned_peering list \<Rightarrow> (control, planned_peering list) eff" where
  "apply_plans n [] = ret []"
| "apply_plans n (p # ps) =
     seq next_peering (\<lambda>pid.
     seq (save_peering (new_peering pid n (planned_row n p)) (IntegrityError ''uq_peerings_local_node_id_name'')) (\<lambda>_.
     seq (modify (claim_children pid p)) (\<lambda>_.
     seq (apply_plans n ps) (\<lambda>rest. ret (p\<lparr>pp_peering_id := Some pid\<rparr> # rest)))))"

definition backfill_peerings :: "string \<Rightarrow> bool \<Rightarrow> (control, backfill_result option) eff" where
  "backfill_peerings n dry_run =
     reading (\<lambda>s. case get_node n s of
        None \<Rightarrow> ret None
      | Some node \<Rightarrow>
          seq (if dry_run then ret (backfill_plan node s) else apply_plans n (backfill_plan node s)) (\<lambda>created.
            ret (Some \<lparr>bf_dry_run = dry_run, bf_created = created, bf_skipped_interfaces = skipped_interfaces n s,
                       bf_skipped_sessions = skipped_sessions n s\<rparr>)))"

definition backfill_node_peerings :: "string \<Rightarrow> bool \<Rightarrow> (control, backfill_result) eff" where
  "backfill_node_peerings n dry_run =
     transaction (seq (backfill_peerings n dry_run) (\<lambda>r. case r of
        None \<Rightarrow> lift_res (Inl (HTTPException 404 (''unknown node '' @ n)))
      | Some x \<Rightarrow> ret x))"

end
