(* ===== verification/Dns_Admin.thy ===== *)
theory Dns_Admin
  imports Interface_Admin
begin

text \<open>
  Shared DNS groups, \<open>api/v1/admin/dns\_groups.py\<close>: groups, their zones and records, and the nodes that subscribe to
  them.  A change publishes every member of the group.
\<close>

section \<open>Tables and checks\<close>

definition get_group_row :: "int \<Rightarrow> control \<Rightarrow> dns_group_row option" where
  "get_group_row i s = row_get gr_id i (ct_dns_groups s)"

definition get_zone_row :: "int \<Rightarrow> control \<Rightarrow> dns_zone_row option" where
  "get_zone_row i s = row_get gz_id i (ct_dns_zones s)"

definition get_record_row :: "int \<Rightarrow> control \<Rightarrow> dns_record_row option" where
  "get_record_row i s = row_get gc_id i (ct_dns_records s)"

definition validate_group_config :: "string list \<Rightarrow> int \<Rightarrow> dns_forward list \<Rightarrow> dns_spec res" where
  "validate_group_config bind ttl forwards =
     as_422 ''invalid DNS group config''
       (rbind (parsed_dns (Some \<lparr>dns_enabled = True, dns_bind_addresses = bind, dns_cache_ttl_seconds = ttl, dns_zones = [],
                                dns_forwards = forwards\<rparr>))
          (\<lambda>d. validate_dns (the d)))"

definition validate_zone_name :: "string \<Rightarrow> string res" where
  "validate_zone_name z =
     (case validate_domain_name z True False True False of
        Inl e \<Rightarrow> Inl (case e of ValueError m \<Rightarrow> HTTPException 422 (''invalid zone name: '' @ m) | _ \<Rightarrow> e)
      | Inr x \<Rightarrow> Inr x)"

definition validate_record :: "string \<Rightarrow> string \<Rightarrow> string \<Rightarrow> int option \<Rightarrow> dns_record res" where
  "validate_record name type content ttl =
     as_422 ''invalid DNS record'' (parsed_record \<lparr>dr_name = name, dr_type = type, dr_value = content, dr_ttl = ttl\<rparr>)"

definition with_group :: "int \<Rightarrow> (dns_group_row \<Rightarrow> (control, 'a) eff) \<Rightarrow> (control, 'a) eff" where
  "with_group g f =
     reading (\<lambda>s. case get_group_row g s of
        None \<Rightarrow> lift_res (Inl (HTTPException 404 (''unknown dns group '' @ str_int g)))
      | Some r \<Rightarrow> f r)"

definition with_zone :: "int \<Rightarrow> int \<Rightarrow> (dns_zone_row \<Rightarrow> (control, 'a) eff) \<Rightarrow> (control, 'a) eff" where
  "with_zone g z f =
     reading (\<lambda>s. case get_zone_row z s of
        Some r \<Rightarrow> if gz_group_id r = g then f r
                  else lift_res (Inl (HTTPException 404 (''unknown dns zone '' @ str_int z @ '' in group '' @ str_int g)))
      | None \<Rightarrow> lift_res (Inl (HTTPException 404 (''unknown dns zone '' @ str_int z @ '' in group '' @ str_int g))))"

definition with_record :: "int \<Rightarrow> int \<Rightarrow> (dns_record_row \<Rightarrow> (control, 'a) eff) \<Rightarrow> (control, 'a) eff" where
  "with_record z i f =
     reading (\<lambda>s. case get_record_row i s of
        Some r \<Rightarrow> if gc_zone_id r = z then f r
                  else lift_res (Inl (HTTPException 404 (''unknown dns record '' @ str_int i @ '' in zone '' @ str_int z)))
      | None \<Rightarrow> lift_res (Inl (HTTPException 404 (''unknown dns record '' @ str_int i @ '' in zone '' @ str_int z))))"

definition member_ids :: "int \<Rightarrow> control \<Rightarrow> string list" where
  "member_ids g s = map nr_node_id (filter (\<lambda>n. nr_dns_group_id n = Some g) (ct_nodes s))"

fun rematerialize :: "string list \<Rightarrow> string \<Rightarrow> (control, (string \<times> desired_state) list) eff" where
  "rematerialize [] reason = ret []"
| "rematerialize (n # ns) reason =
     seq (materialize_change n reason) (\<lambda>st. seq (rematerialize ns reason) (\<lambda>rest. ret ((n, st) # rest)))"

text \<open>Publishing the members the group has now.\<close>

definition publish_members :: "'a \<Rightarrow> int \<Rightarrow> string \<Rightarrow> (control, 'a change) eff" where
  "publish_members out g reason =
     reading (\<lambda>s. seq (rematerialize (member_ids g s) reason) (\<lambda>ps. ret (out, ps, reason)))"

section \<open>Groups\<close>

record group_in =
  gi_name :: string
  gi_bind_addresses :: "string list"
  gi_cache_ttl_seconds :: int
  gi_forwards :: "dns_forward list"
  gi_enabled :: bool

record group_patch =
  gp_name :: "string option"
  gp_bind_addresses :: "string list option"
  gp_cache_ttl_seconds :: "int option"
  gp_forwards :: "dns_forward list option"
  gp_enabled :: "bool option"

definition save_group :: "dns_group_row \<Rightarrow> (control, unit) eff" where
  "save_group r =
     reading (\<lambda>s. if list_ex (\<lambda>x. gr_id x \<noteq> gr_id r \<and> gr_name x = gr_name r) (ct_dns_groups s)
                  then lift_res (Inl (HTTPException 409 (''dns group '' @ repr_str (gr_name r) @ '' already exists'')))
                  else modify (\<lambda>s. s\<lparr>ct_dns_groups := row_put gr_id r (ct_dns_groups s)\<rparr>))"

definition create_group :: "group_in \<Rightarrow> (control, dns_group_row) eff" where
  "create_group p =
     seq (lift_res (validate_group_config (gi_bind_addresses p) (gi_cache_ttl_seconds p) (gi_forwards p))) (\<lambda>cfg.
     transaction (reading (\<lambda>s.
       let row = \<lparr>gr_id = ct_next_group s, gr_name = gi_name p, gr_bind_addresses = dns_bind_addresses cfg,
                  gr_cache_ttl_seconds = dns_cache_ttl_seconds cfg, gr_forwards = dns_forwards cfg, gr_enabled = gi_enabled p\<rparr> in
       seq (modify (\<lambda>s. s\<lparr>ct_next_group := ct_next_group s + 1\<rparr>)) (\<lambda>_. seq (save_group row) (\<lambda>_. ret row)))))"

definition update_group :: "int \<Rightarrow> group_patch \<Rightarrow> (control, dns_group_row change) eff" where
  "update_group g p =
     transaction (with_group g (\<lambda>r.
       seq (lift_res (validate_group_config (or_default (gr_bind_addresses r) (gp_bind_addresses p))
              (or_default (gr_cache_ttl_seconds r) (gp_cache_ttl_seconds p)) (or_default (gr_forwards r) (gp_forwards p)))) (\<lambda>cfg.
       let row = r\<lparr>gr_name := or_default (gr_name r) (gp_name p), gr_bind_addresses := dns_bind_addresses cfg,
                   gr_cache_ttl_seconds := dns_cache_ttl_seconds cfg, gr_forwards := dns_forwards cfg,
                   gr_enabled := or_default (gr_enabled r) (gp_enabled p)\<rparr> in
       seq (save_group row) (\<lambda>_. publish_members row g (''dns group '' @ gr_name row @ '' updated'')))))"

text \<open>Deleting a group takes its members off it and deletes its zones and their records.\<close>

definition unassign :: "string \<Rightarrow> control \<Rightarrow> control" where
  "unassign n s = (case get_node n s of None \<Rightarrow> s | Some r \<Rightarrow> put_node (r\<lparr>nr_dns_group_id := None\<rparr>) s)"

definition drop_group :: "int \<Rightarrow> control \<Rightarrow> control" where
  "drop_group g s =
     (let zones = map gz_id (filter (\<lambda>z. gz_group_id z = g) (ct_dns_zones s)) in
      s\<lparr>ct_dns_groups := row_del gr_id g (ct_dns_groups s),
        ct_dns_zones := filter (\<lambda>z. gz_group_id z \<noteq> g) (ct_dns_zones s),
        ct_dns_records := filter (\<lambda>r. gc_zone_id r \<notin> set zones) (ct_dns_records s)\<rparr>)"

definition delete_group :: "int \<Rightarrow> (control, unit change) eff" where
  "delete_group g =
     transaction (with_group g (\<lambda>r. reading (\<lambda>s.
       let members = member_ids g s; reason = ''dns group '' @ gr_name r @ '' deleted'' in
       seq (modify (\<lambda>s. foldl (\<lambda>s n. unassign n s) s members)) (\<lambda>_.
       seq (modify (drop_group g)) (\<lambda>_.
       seq (rematerialize members reason) (\<lambda>ps. ret ((), ps, reason)))))))"

section \<open>Zones\<close>

record zone_in =
  zi_zone :: string
  zi_primary_ns :: "string option"
  zi_admin_email :: "string option"
  zi_soa_refresh :: "int option"
  zi_soa_retry :: "int option"
  zi_soa_expire :: "int option"
  zi_soa_minimum :: "int option"
  zi_default_ttl :: "int option"
  zi_enabled :: bool

record zone_patch =
  zp_zone :: "string option"
  zp_primary_ns :: "string option"
  zp_admin_email :: "string option"
  zp_soa_refresh :: "int option"
  zp_soa_retry :: "int option"
  zp_soa_expire :: "int option"
  zp_soa_minimum :: "int option"
  zp_default_ttl :: "int option"
  zp_enabled :: "bool option"

definition save_zone :: "dns_zone_row \<Rightarrow> (control, unit) eff" where
  "save_zone r =
     reading (\<lambda>s. if list_ex (\<lambda>x. gz_id x \<noteq> gz_id r \<and> gz_group_id x = gz_group_id r \<and> gz_zone x = gz_zone r) (ct_dns_zones s)
                  then lift_res (Inl (HTTPException 409 (''dns zone '' @ repr_str (gz_zone r) @ '' already exists in group '' @
                         str_int (gz_group_id r))))
                  else modify (\<lambda>s. s\<lparr>ct_dns_zones := row_put gz_id r (ct_dns_zones s)\<rparr>))"

definition create_zone :: "int \<Rightarrow> zone_in \<Rightarrow> (control, dns_zone_row change) eff" where
  "create_zone g p =
     seq (lift_res (validate_zone_name (zi_zone p))) (\<lambda>name.
     transaction (with_group g (\<lambda>_. reading (\<lambda>s.
       let row = \<lparr>gz_id = ct_next_zone s, gz_group_id = g, gz_zone = name, gz_primary_ns = zi_primary_ns p,
                  gz_admin_email = zi_admin_email p, gz_soa_refresh = zi_soa_refresh p, gz_soa_retry = zi_soa_retry p,
                  gz_soa_expire = zi_soa_expire p, gz_soa_minimum = zi_soa_minimum p, gz_default_ttl = zi_default_ttl p,
                  gz_enabled = zi_enabled p\<rparr> in
       seq (modify (\<lambda>s. s\<lparr>ct_next_zone := ct_next_zone s + 1\<rparr>)) (\<lambda>_.
       seq (save_zone row) (\<lambda>_. publish_members row g (''dns zone '' @ name @ '' added'')))))))"

text \<open>A null leaves the column as it is.\<close>

definition or_keep :: "'a option \<Rightarrow> 'a option \<Rightarrow> 'a option" where
  "or_keep old new = (case new of None \<Rightarrow> old | Some x \<Rightarrow> Some x)"

definition update_zone :: "int \<Rightarrow> int \<Rightarrow> zone_patch \<Rightarrow> (control, dns_zone_row change) eff" where
  "update_zone g z p =
     transaction (with_zone g z (\<lambda>r.
       seq (case zp_zone p of None \<Rightarrow> ret (gz_zone r) | Some name \<Rightarrow> lift_res (validate_zone_name name)) (\<lambda>name.
       let row = r\<lparr>gz_zone := name, gz_primary_ns := or_keep (gz_primary_ns r) (zp_primary_ns p),
                   gz_admin_email := or_keep (gz_admin_email r) (zp_admin_email p),
                   gz_soa_refresh := or_keep (gz_soa_refresh r) (zp_soa_refresh p),
                   gz_soa_retry := or_keep (gz_soa_retry r) (zp_soa_retry p),
                   gz_soa_expire := or_keep (gz_soa_expire r) (zp_soa_expire p),
                   gz_soa_minimum := or_keep (gz_soa_minimum r) (zp_soa_minimum p),
                   gz_default_ttl := or_keep (gz_default_ttl r) (zp_default_ttl p),
                   gz_enabled := or_default (gz_enabled r) (zp_enabled p)\<rparr> in
       seq (save_zone row) (\<lambda>_. publish_members row g (''dns zone '' @ name @ '' updated'')))))"

definition delete_zone :: "int \<Rightarrow> int \<Rightarrow> (control, unit change) eff" where
  "delete_zone g z =
     transaction (with_zone g z (\<lambda>r.
       seq (modify (\<lambda>s. s\<lparr>ct_dns_zones := row_del gz_id z (ct_dns_zones s),
                          ct_dns_records := filter (\<lambda>x. gc_zone_id x \<noteq> z) (ct_dns_records s)\<rparr>)) (\<lambda>_.
         publish_members () g (''dns zone '' @ gz_zone r @ '' deleted''))))"

section \<open>Records\<close>

record record_in =
  ci_name :: string
  ci_type :: string
  ci_content :: string
  ci_ttl :: "int option"
  ci_enabled :: bool
  ci_sort_order :: int

record record_patch =
  cp_name :: "string option"
  cp_type :: "string option"
  cp_content :: "string option"
  cp_ttl :: "int option"
  cp_enabled :: "bool option"
  cp_sort_order :: "int option"

definition save_record :: "dns_record_row \<Rightarrow> (control, unit) eff" where
  "save_record r = modify (\<lambda>s. s\<lparr>ct_dns_records := row_put gc_id r (ct_dns_records s)\<rparr>)"

definition create_record :: "int \<Rightarrow> int \<Rightarrow> record_in \<Rightarrow> (control, dns_record_row change) eff" where
  "create_record g z p =
     seq (lift_res (validate_record (ci_name p) (ci_type p) (ci_content p) (ci_ttl p))) (\<lambda>spec.
     transaction (with_zone g z (\<lambda>_. reading (\<lambda>s.
       let row = \<lparr>gc_id = ct_next_record s, gc_zone_id = z, gc_name = dr_name spec, gc_type = dr_type spec,
                  gc_content = ci_content p, gc_ttl = ci_ttl p, gc_enabled = ci_enabled p, gc_sort_order = ci_sort_order p\<rparr> in
       seq (modify (\<lambda>s. s\<lparr>ct_next_record := ct_next_record s + 1\<rparr>)) (\<lambda>_.
       seq (save_record row) (\<lambda>_.
         publish_members row g (''dns record '' @ dr_name spec @ '' '' @ dr_type spec @ '' added'')))))))"

text \<open>The zone of the path is not looked up here, so it need not belong to the group of the path.\<close>

definition update_record :: "int \<Rightarrow> int \<Rightarrow> int \<Rightarrow> record_patch \<Rightarrow> (control, dns_record_row change) eff" where
  "update_record g z i p =
     transaction (with_group g (\<lambda>_. with_record z i (\<lambda>r.
       let content = or_default (gc_content r) (cp_content p) in
       seq (lift_res (validate_record (or_default (gc_name r) (cp_name p)) (or_default (gc_type r) (cp_type p)) content
              (or_keep (gc_ttl r) (cp_ttl p)))) (\<lambda>spec.
       let row = r\<lparr>gc_name := dr_name spec, gc_type := dr_type spec, gc_content := content,
                   gc_ttl := or_keep (gc_ttl r) (cp_ttl p), gc_enabled := or_default (gc_enabled r) (cp_enabled p),
                   gc_sort_order := or_default (gc_sort_order r) (cp_sort_order p)\<rparr> in
       seq (save_record row) (\<lambda>_.
         publish_members row g (''dns record '' @ gc_name row @ '' '' @ gc_type row @ '' updated''))))))"

definition delete_record :: "int \<Rightarrow> int \<Rightarrow> int \<Rightarrow> (control, unit change) eff" where
  "delete_record g z i =
     transaction (with_group g (\<lambda>_. with_record z i (\<lambda>r.
       seq (modify (\<lambda>s. s\<lparr>ct_dns_records := row_del gc_id i (ct_dns_records s)\<rparr>)) (\<lambda>_.
         publish_members () g (''dns record '' @ gc_name r @ '' '' @ gc_type r @ '' deleted'')))))"

section \<open>Assignment\<close>

definition assign_node_group :: "string \<Rightarrow> int option \<Rightarrow> (control, dns_group_row option change) eff" where
  "assign_node_group n gid =
     transaction (with_node n (\<lambda>node.
       seq (case gid of None \<Rightarrow> ret None | Some g \<Rightarrow> with_group g (\<lambda>r. ret (Some r))) (\<lambda>grp.
       seq (modify (put_node (node\<lparr>nr_dns_group_id := gid\<rparr>))) (\<lambda>_.
         published grp n (case grp of Some r \<Rightarrow> ''assigned dns group '' @ gr_name r | None \<Rightarrow> ''unassigned dns group'')))))"

text \<open>What is shown of a group: its row, the number of its zones and of its members.\<close>

definition group_out :: "control \<Rightarrow> dns_group_row \<Rightarrow> dns_group_row \<times> nat \<times> nat" where
  "group_out s r =
     (r, length (filter (\<lambda>z. gz_group_id z = gr_id r) (ct_dns_zones s)), length (member_ids (gr_id r) s))"

end
