(* ===== verification/Config_Ops.thy ===== *)
theory Config_Ops
  imports Peering_Backfill Dns_Admin Provision
begin

text \<open>
  The administrator's operations on the configuration of nodes as one type, and what they touch: what they
  do before they publish leaves nodes, generations and credentials alone, apart from the row of a node that is
  provisioned.
\<close>

section \<open>The operations\<close>

text \<open>Provisioning stands here without the token that may come with it: the token is a matter of the credentials.\<close>

datatype config_op =
    Create_Interface string iface_in
  | Update_Interface int iface_patch
  | Delete_Interface int
  | Create_Session string session_in
  | Update_Session int session_patch
  | Delete_Session int
  | Create_Peering string peering_in
  | Update_Peering int "peering_field list"
  | Delete_Peering int
  | Provision string provision_in
  | Put_Full string full_in
  | Backfill string bool
  | Create_Group group_in
  | Update_Group int group_patch
  | Delete_Group int
  | Create_Zone int zone_in
  | Update_Zone int int zone_patch
  | Delete_Zone int int
  | Create_Record int int record_in
  | Update_Record int int int record_patch
  | Delete_Record int int int
  | Assign_Group string "int option"
  | Provision_State desired_state

definition published_by :: "(control, 'a change) eff \<Rightarrow> (control, unit change) eff" where
  "published_by m = seq m (\<lambda>(_, ps, reason). ret ((), ps, reason))"

definition unpublished :: "(control, 'a) eff \<Rightarrow> (control, unit change) eff" where
  "unpublished m = seq m (\<lambda>_. ret ((), [], []))"

fun config_run :: "config_op \<Rightarrow> (control, unit change) eff" where
  "config_run (Create_Interface n p) = published_by (create_interface n p)"
| "config_run (Update_Interface i p) = published_by (update_interface i p)"
| "config_run (Delete_Interface i) = delete_interface i"
| "config_run (Create_Session n p) = published_by (create_session n p)"
| "config_run (Update_Session i p) = published_by (update_session i p)"
| "config_run (Delete_Session i) = delete_session i"
| "config_run (Create_Peering n p) = unpublished (create_peering n p)"
| "config_run (Update_Peering i p) = unpublished (update_peering i p)"
| "config_run (Delete_Peering i) = unpublished (delete_peering i)"
| "config_run (Provision n p) = published_by (provision_peering n p)"
| "config_run (Put_Full n p) = published_by (put_peering_full n p)"
| "config_run (Backfill n dry) = unpublished (backfill_node_peerings n dry)"
| "config_run (Create_Group p) = unpublished (create_group p)"
| "config_run (Update_Group g p) = published_by (update_group g p)"
| "config_run (Delete_Group g) = delete_group g"
| "config_run (Create_Zone g p) = published_by (create_zone g p)"
| "config_run (Update_Zone g z p) = published_by (update_zone g z p)"
| "config_run (Delete_Zone g z) = delete_zone g z"
| "config_run (Create_Record g z p) = published_by (create_record g z p)"
| "config_run (Update_Record g z i p) = published_by (update_record g z i p)"
| "config_run (Delete_Record g z i) = delete_record g z i"
| "config_run (Assign_Group n g) = published_by (assign_node_group n g)"
| "config_run (Provision_State d) = published_by (provision_node (\<lambda>_. []) d None)"

section \<open>What is touched before publishing\<close>

text \<open>The tables that hold credentials and the approval list.\<close>

definition credentials :: "control \<Rightarrow> agent_token list \<times> enrollment_token list \<times> pending_registration list" where
  "credentials s = (ct_tokens s, ct_tickets s, ct_pending s)"

definition config_only :: "control \<Rightarrow> control \<Rightarrow> bool" where
  "config_only s t \<longleftrightarrow> ct_nodes t = ct_nodes s \<and> ct_generations t = ct_generations s \<and> credentials t = credentials s"

interpretation tables: step_order config_only
  by unfold_locales (auto simp: config_only_def)

lemma runs_modify_iff: "runs R (modify f) \<longleftrightarrow> (\<forall>s. R s (f s))"
  by (simp add: runs_def)

lemma runs_cases:
  "(\<And>x. v = Some x \<Longrightarrow> runs R (b x)) \<Longrightarrow> (v = None \<Longrightarrow> runs R a) \<Longrightarrow> runs R (case v of None \<Rightarrow> a | Some x \<Rightarrow> b x)"
  "(c \<Longrightarrow> runs R m1) \<Longrightarrow> (\<not> c \<Longrightarrow> runs R m2) \<Longrightarrow> runs R (if c then m1 else m2)"
  by (cases v; simp) (cases c; simp)

lemmas tables_intros = tables.runs_seq tables.runs_lift tables.runs_ret tables.runs_reading tables.runs_each runs_cases

lemmas runs_simps = runs_modify_iff config_only_def credentials_def

lemma tables_with_node: "(\<And>node. runs config_only (f node)) \<Longrightarrow> runs config_only (with_node n f)"
  unfolding with_node_def by (intro tables_intros)

lemma tables_checks:
  "runs config_only (require_node n)" "runs config_only (require_peering n pid)"
  "runs config_only (require_remote remote)" "runs config_only (validate_wireguard_port_policy n spec e current)"
  unfolding require_node_def require_peering_def require_remote_def validate_wireguard_port_policy_def
  by (intro tables_intros tables_with_node)+

lemma tables_rows:
  "runs config_only (save_wg r1 e)" "runs config_only (save_bgp r2 e)" "runs config_only (save_peering r3 e)"
  "runs config_only next_wg" "runs config_only next_bgp" "runs config_only next_peering"
  "runs config_only (save_group r4)" "runs config_only (save_zone r5)" "runs config_only (save_record r6)"
  unfolding save_wg_def save_bgp_def save_peering_def next_wg_def next_bgp_def next_peering_def save_group_def
    save_zone_def save_record_def
  by ((intro tables_intros)?; simp add: runs_simps)+

lemma tables_children: "runs config_only (add_children d)" "runs config_only (modify (delete_children n))"
  unfolding add_children_def add_interface_def add_session_def Let_def
  by (intro tables_intros tables_rows, simp add: runs_simps delete_children_def)

text \<open>A change of tables that hold no nodes, generations or credentials.\<close>

lemma tables_peering_parts:
  "runs config_only (insert_peering n p)" "runs config_only (upsert_peering n p)"
  "runs config_only (put_interface n pid fi)" "runs config_only (write_session n pid fb)"
  "runs config_only (modify (prune_interfaces pid names))" "runs config_only (modify (prune_sessions pid names))"
  unfolding insert_peering_def upsert_peering_def put_interface_def write_interface_def write_session_def
  by ((intro tables_intros tables_checks tables_rows)?; simp add: runs_simps prune_interfaces_def prune_sessions_def)+

lemma tables_apply_plans: "runs config_only (apply_plans n ps)"
proof (induction ps)
  case Nil
  show ?case unfolding apply_plans.simps by (rule tables.runs_ret)
next
  case (Cons p ps)
  then show ?case unfolding apply_plans.simps
    by (intro tables_intros tables_rows Cons.IH) (simp_all add: runs_simps claim_children_def)
qed

end
