(* ===== verification/Write_Path.thy ===== *)
theory Write_Path
  imports Config_Ops
begin

text \<open>
  The interface of the write path: what a relation between database states has to satisfy so that every
  operation that edits tables and publishes generations moves along it.  The operations of the admin API, on nodes and
  on the configuration of nodes, are shown once, here, to use nothing else.
\<close>

section \<open>What validation keeps\<close>

lemma validate_references_frame:
  assumes "validate_references s = Inr t"
  shows "ds_generation t = ds_generation s" "ds_node t = ds_node s" "ds_dns t = ds_dns s"
    "ds_bgp_sessions t = ds_bgp_sessions s"
proof -
  obtain s1 where s1: "only_services s s1" "normalize_dns_anycast s1 = Inr t"
    using validate_references_steps [OF assms] by metis
  have "ds_generation t = ds_generation s1"
    using s1(2) by (auto simp: normalize_dns_anycast_alt rbind_Inr_iff)
  then show "ds_generation t = ds_generation s" "ds_node t = ds_node s" "ds_dns t = ds_dns s"
    "ds_bgp_sessions t = ds_bgp_sessions s"
    using s1(1) anycast_step [OF s1(2)] by (auto simp: only_services_def set_services_def)
qed

lemma model_validate_frame:
  assumes "model_validate_state s = Inr t"
  shows "ds_generation t = ds_generation s" "ds_node t = ds_node s" "ds_bgp_sessions t = ds_bgp_sessions s"
    "parsed_dns (ds_dns s) = Inr (ds_dns t)"
proof -
  obtain dns where d: "parsed_dns (ds_dns s) = Inr dns" "validate_references (s\<lparr>ds_dns := dns\<rparr>) = Inr t"
    using assms unfolding model_validate_state_def rbind_Inr_iff checks_Inr by blast
  note f = validate_references_frame [OF d(2)]
  show "ds_generation t = ds_generation s" "ds_node t = ds_node s" "ds_bgp_sessions t = ds_bgp_sessions s"
    "parsed_dns (ds_dns s) = Inr (ds_dns t)"
    using f d(1) by simp_all
qed

lemma assembled_generation:
  "assembled s node g = Inr d \<Longrightarrow> ds_generation d = g"
  by (auto simp: assembled_def assemble_snapshot_def Let_def rbind_Inr_iff split: option.splits)

lemma get_node_key: "get_node n s = Some node \<Longrightarrow> nr_node_id node = n"
  unfolding get_node_def by (blast dest: row_get_SomeD)

lemma set_node_field_frame:
  "set_node_field r f = Inr r' \<Longrightarrow> nr_node_id r' = nr_node_id r \<and> nr_generation r' = nr_generation r \<and>
     nr_lifecycle r' = nr_lifecycle r \<and> nr_public_key r' = nr_public_key r \<and> nr_dns_group_id r' = nr_dns_group_id r"
  by (cases "(r, f)" rule: set_node_field.cases) (auto split: option.splits)

lemma set_node_fields_frame:
  assumes "rfold set_node_field r fs = Inr r'"
  shows "nr_node_id r' = nr_node_id r \<and> nr_generation r' = nr_generation r \<and>
         nr_lifecycle r' = nr_lifecycle r \<and> nr_public_key r' = nr_public_key r \<and> nr_dns_group_id r' = nr_dns_group_id r"
  by (rule rfold_inv [OF assms]) (auto dest: set_node_field_frame)


section \<open>The interface\<close>

text \<open>\<open>ids\<close> are the nodes that may be registered along the way.\<close>

fun provisioned_node :: "config_op \<Rightarrow> string set" where
  "provisioned_node (Provision_State d) = {nd_node_id (ds_node d)}"
| "provisioned_node _ = {}"

locale node_path = step_order R for R :: "control \<Rightarrow> control \<Rightarrow> bool" +
  fixes ids :: "string set"
  assumes publish: "get_node n s = Some node \<Longrightarrow> model_validate_state d0 = Inr d \<Longrightarrow>
      ds_generation d0 = nr_generation node + 1 \<Longrightarrow>
      R s (snd (publish_generation node (nr_generation node + 1) d reason DEFAULT_GENERATION_RETENTION s))"
    and edit: "get_node (nr_node_id row) s = Some node \<Longrightarrow> nr_generation row = nr_generation node \<Longrightarrow>
      nr_dns_group_id row = nr_dns_group_id node \<Longrightarrow>
      nr_public_key node = None \<or> nr_public_key row = nr_public_key node \<Longrightarrow> R s (put_node row s)"
    and create: "nr_node_id row \<in> ids \<Longrightarrow> get_node (nr_node_id row) s = None \<Longrightarrow> nr_generation row = 0 \<Longrightarrow> nr_dns_group_id row = None \<Longrightarrow>
      R s (put_node row s)"
begin

lemma runs_transaction: "runs R m \<Longrightarrow> runs R (transaction m)"
  using refl unfolding runs_def transaction_def by (auto split: prod.splits sum.splits) (metis snd_conv)

lemma publish_then:
  assumes "get_node n s = Some node" "model_validate_state d0 = Inr d" "ds_generation d0 = nr_generation node + 1"
  shows "R s (snd (seq (publish_generation node (nr_generation node + 1) d reason DEFAULT_GENERATION_RETENTION)
           (\<lambda>_. ret (Some d)) s))"
  using publish [OF assms, of reason]
  by (cases "publish_generation node (nr_generation node + 1) d reason DEFAULT_GENERATION_RETENTION s")
     (auto simp: seq_def split: sum.split)

lemma runs_materialize: "runs R (materialize n reason DEFAULT_GENERATION_RETENTION)"
  unfolding runs_def
proof
  fix s
  show "R s (snd (materialize n reason DEFAULT_GENERATION_RETENTION s))"
  proof (cases "get_node n s")
    case None
    then show ?thesis by (simp add: materialize_def refl)
  next
    case (Some node)
    show ?thesis
    proof (cases "rbind (assembled s node (nr_generation node + 1)) model_validate_state")
      case (Inl e)
      then show ?thesis using Some by (simp add: materialize_def seq_def Let_def refl)
    next
      case (Inr d)
      then obtain d0 where d0: "assembled s node (nr_generation node + 1) = Inr d0" "model_validate_state d0 = Inr d"
        unfolding rbind_Inr_iff by blast
      show ?thesis using Inr Some publish_then [OF Some d0(2) assembled_generation [OF d0(1)]]
        by (simp add: materialize_def seq_def [of "lift_res _"] Let_def)
    qed
  qed
qed

lemma runs_rollback: "runs R (rollback_to_generation n g reason DEFAULT_GENERATION_RETENTION)"
  unfolding runs_def
proof
  fix s
  show "R s (snd (rollback_to_generation n g reason DEFAULT_GENERATION_RETENTION s))"
  proof (cases "get_node n s")
    case None
    then show ?thesis by (simp add: rollback_to_generation_def refl)
  next
    case (Some node)
    note node = Some
    show ?thesis
    proof (cases "get_generation n g s")
      case None
      then show ?thesis using node by (simp add: rollback_to_generation_def refl)
    next
      case (Some row)
      show ?thesis
      proof (cases "model_validate_state ((gn_snapshot row)\<lparr>ds_generation := nr_generation node + 1\<rparr>)")
        case (Inl e)
        then show ?thesis using node Some by (simp add: rollback_to_generation_def seq_def Let_def refl)
      next
        case (Inr d)
        show ?thesis using Inr node Some publish_then [OF node Inr]
          by (simp add: rollback_to_generation_def seq_def [of "lift_res _"] Let_def)
      qed
    qed
  qed
qed

lemma runs_with_node:
  assumes "\<And>node s. get_node n s = Some node \<Longrightarrow> R s (snd (f node s))"
  shows "runs R (with_node n f)"
  using assms refl by (simp add: runs_def with_node_def split: option.split)

lemma seq_modify:
  assumes "R s (g s)" "runs R (k ())"
  shows "R s (snd (seq (modify g) k s))"
  using assms trans unfolding runs_def by (simp add: seq_def)

lemma runs_option:
  assumes "runs R a" "\<And>x. runs R (b x)"
  shows "runs R (case v of None \<Rightarrow> a | Some x \<Rightarrow> b x)"
  using assms by (cases v) simp_all

lemma runs_if: "runs R a \<Longrightarrow> runs R b \<Longrightarrow> runs R (if c then a else b)"
  by simp

lemma runs_materialize_change: "runs R (materialize_change n reason)"
  unfolding materialize_change_def
  by (intro runs_seq runs_catching runs_materialize runs_lift runs_option runs_ret)

lemma runs_republish: "runs R (republish node reason)"
  unfolding republish_def by (intro runs_if runs_seq runs_materialize_change runs_ret)

lemma runs_materialize_all: "runs R (materialize_all reason ns)"
proof (induction ns)
  case Nil
  show ?case unfolding materialize_all.simps by (rule runs_ret)
next
  case (Cons n ns)
  then show ?case unfolding materialize_all.simps by (intro runs_seq runs_materialize runs_ret)
qed

lemma runs_create_node: "ni_node_id p \<in> ids \<Longrightarrow> runs R (create_node p)"
  unfolding create_node_def
proof (rule runs_transaction)
  assume ids: "ni_node_id p \<in> ids"
  have "R s (put_node (new_node_row p) s)" if "get_node (ni_node_id p) s = None" for s
    by (rule create) (use that ids in \<open>simp_all add: new_node_row_def\<close>)
  then show "runs R (reading (\<lambda>s. if get_node (ni_node_id p) s \<noteq> None
       then lift_res (Inl (HTTPException 409 (''node '' @ ni_node_id p @ '' already exists'')))
       else seq (modify (put_node (new_node_row p))) (\<lambda>_. ret (new_node_row p))))"
    using refl by (simp add: runs_def seq_def)
qed

lemma runs_update_node: "runs R (update_node n patch)"
  unfolding update_node_def
proof (intro runs_transaction runs_with_node)
  fix node s
  assume node: "get_node n s = Some node"
  show "R s (snd (seq (lift_res (rfold set_node_field node patch))
          (\<lambda>row. seq (modify (put_node row)) (\<lambda>_. republish row ''node updated'')) s))"
  proof (cases "rfold set_node_field node patch")
    case (Inr row)
    then have "R s (put_node row s)"
      using node set_node_fields_frame [OF Inr] get_node_key [OF node] by (intro edit) auto
    note seq_modify [where g = "put_node row" and k = "\<lambda>_. republish row ''node updated''", OF this runs_republish]
    then show ?thesis using Inr by (simp add: seq_def [of "lift_res _"])
  qed (simp add: seq_def refl)
qed

lemma runs_set_lifecycle: "runs R (set_lifecycle n lifecycle reason)"
  unfolding set_lifecycle_def Let_def
proof (intro runs_transaction runs_with_node seq_modify runs_republish)
  show "R s (put_node (node\<lparr>nr_lifecycle := lifecycle\<rparr>) s)" if "get_node n s = Some node" for node s
    using that get_node_key [OF that] by (intro edit) auto
qed

lemma runs_delete_node:
  assumes "\<And>s. R s (delete_cascade n s)"
  shows "runs R (delete_node n)"
  unfolding delete_node_def
proof (intro runs_transaction runs_with_node)
  show "R s (snd ((if 0 < nr_generation node \<and> nr_lifecycle node \<noteq> ''decommissioned''
      then lift_res (Inl (HTTPException 409 (''node '' @ n @ '' is live''))) else modify (delete_cascade n)) s))"
    for node s using refl assms by simp
qed

lemma runs_rollback_node: "runs R (rollback_node_generation n g reason)"
  unfolding rollback_node_generation_def
  by (intro runs_transaction runs_seq runs_catching runs_rollback runs_lift runs_option runs_ret)

lemma runs_key_report: "runs R (apply_wireguard_key_report n key escrow)"
  unfolding runs_def
proof
  fix s
  have put: "R s (put_node row s)" if "get_node n s = Some node" "nr_node_id row = nr_node_id node"
    "nr_generation row = nr_generation node" "nr_public_key node = None \<or> nr_public_key row = nr_public_key node"
    "nr_dns_group_id row = nr_dns_group_id node" for row node
    using that get_node_key [OF that(1)] by (intro edit) auto
  have stored: "runs R (seq (propagate_to_peers n) (\<lambda>ps. ret (Stored, ps)))"
    unfolding propagate_to_peers_def by (intro runs_seq runs_reading runs_materialize_all runs_ret)
  show "R s (snd (apply_wireguard_key_report n key escrow s))"
  proof (cases "get_node n s")
    case (Some node)
    have "R s (snd (seq (modify (put_node (node\<lparr>nr_public_key := Some key, nr_escrow := escrow\<rparr>)))
        (\<lambda>_. seq (propagate_to_peers n) (\<lambda>ps. ret (Stored, ps))) s))" if "nr_public_key node = None"
      by (rule seq_modify) (use put [OF Some] stored that in simp_all)
    then show ?thesis
      using Some put [OF Some, of "node\<lparr>nr_escrow := escrow\<rparr>"] refl
      by (auto simp: apply_wireguard_key_report_def seq_def [of "modify _"] seq_def [of "ret ()"] split: option.split)
  qed (simp add: apply_wireguard_key_report_def refl)
qed

lemma runs_post_keys: "runs R (post_wireguard_keys n key escrow)"
  unfolding post_wireguard_keys_def
proof (intro runs_transaction runs_seq runs_key_report)
  show "runs R ((\<lambda>(st, ps).
       if st = Rejected_Key then lift_res (Inl (HTTPException 409 ''wireguard public key conflicts with the recorded key''))
       else if st = Unknown_Node then lift_res (Inl (HTTPException 404 (''unknown node '' @ n)))
       else ret (st, ps)) x)" for x
    unfolding split_def by (intro runs_if runs_lift runs_ret)
qed

lemma runs_published: "runs R (published out n reason)"
  unfolding published_def by (intro runs_seq runs_materialize_change runs_ret)

lemma runs_rematerialize: "runs R (rematerialize ns reason)"
proof (induction ns)
  case Nil
  show ?case unfolding rematerialize.simps by (rule runs_ret)
next
  case (Cons n ns)
  then show ?case unfolding rematerialize.simps by (intro runs_seq runs_materialize_change runs_ret)
qed

lemma runs_publish_members: "runs R (publish_members out g reason)"
  unfolding publish_members_def by (intro runs_reading runs_seq runs_rematerialize runs_ret)

end

text \<open>The configuration handlers change other tables as well and assign a node to a group.\<close>

locale write_path = node_path +
  assumes tables: "ct_nodes t = ct_nodes s \<Longrightarrow> ct_generations t = ct_generations s \<Longrightarrow>
      credentials t = credentials s \<Longrightarrow> R s t"
    and assign: "get_node n s = Some node \<Longrightarrow> R s (put_node (node\<lparr>nr_dns_group_id := gid\<rparr>) s)"
begin

lemma runs_tables: "runs config_only m \<Longrightarrow> runs R m"
  unfolding runs_def config_only_def by (blast intro: tables)

lemma runs_table_edit: "(\<And>s. config_only s (f s)) \<Longrightarrow> runs R (modify f)"
  by (rule runs_tables) (simp add: runs_modify_iff)

lemmas runs_handler = runs_transaction runs_seq runs_lift runs_ret runs_each runs_option runs_if runs_published
  runs_publish_members runs_rematerialize runs_tables [OF tables_checks(1)] runs_tables [OF tables_checks(2)]
  runs_tables [OF tables_checks(3)] runs_tables [OF tables_checks(4)] runs_tables [OF tables_rows(1)]
  runs_tables [OF tables_rows(2)] runs_tables [OF tables_rows(3)] runs_tables [OF tables_rows(4)]
  runs_tables [OF tables_rows(5)] runs_tables [OF tables_rows(6)] runs_tables [OF tables_rows(7)]
  runs_tables [OF tables_rows(8)] runs_tables [OF tables_rows(9)] runs_table_edit

lemma runs_interfaces:
  "runs R (create_interface n ip)" "runs R (update_interface i iu)" "runs R (delete_interface i)"
  "runs R (create_session n sp)" "runs R (update_session i su)" "runs R (delete_session i)"
  unfolding create_interface_def update_interface_def delete_interface_def create_session_def update_session_def
    delete_session_def Let_def
  by (intro runs_handler runs_reading; simp add: config_only_def credentials_def)+

lemma runs_peering_parts:
  "runs R (insert_peering n p)" "runs R (upsert_peering n p)" "runs R (put_interface n pid fi)"
  "runs R (write_session n pid fb)" "runs R (modify (prune_interfaces pid names))"
  "runs R (modify (prune_sessions pid names))" "runs R (apply_plans n ps)"
  by (rule runs_tables, rule tables_peering_parts tables_apply_plans)+

lemma runs_remote_field: "runs R (case f of P_Remote_Node v \<Rightarrow> require_remote v | _ \<Rightarrow> ret ())"
  by (cases f) (simp_all add: runs_handler)

lemma runs_peerings:
  "runs R (create_peering n p)" "runs R (update_peering i patch)" "runs R (delete_peering i)"
  "runs R (provision_peering n vp)" "runs R (put_peering_full n fp)" "runs R (backfill_node_peerings n dry)"
  unfolding create_peering_def update_peering_def delete_peering_def provision_peering_def put_peering_full_def
    backfill_node_peerings_def backfill_peerings_def with_peering_def Let_def
  by (intro runs_remote_field runs_handler runs_peering_parts runs_reading; simp add: config_only_def credentials_def)+

lemma unassign_all: "R s (foldl (\<lambda>s n. unassign n s) s ns)"
proof (induction ns arbitrary: s)
  case Nil
  show ?case by (simp add: refl)
next
  case (Cons n ns)
  have "R s (unassign n s)" using assign refl by (simp add: unassign_def split: option.split)
  then show ?case using trans Cons.IH by simp
qed

lemma runs_unassign: "runs R (modify (\<lambda>s. foldl (\<lambda>s n. unassign n s) s ns))"
  by (simp add: runs_modify_iff unassign_all)

lemma runs_group_handlers:
  "runs R (create_group gi)" "runs R (update_group g gp)" "runs R (delete_group g)"
  "runs R (create_zone g zi)" "runs R (update_zone g z zp)" "runs R (delete_zone g z)"
  unfolding create_group_def update_group_def delete_group_def create_zone_def update_zone_def delete_zone_def
    with_group_def with_zone_def Let_def
  by (intro runs_unassign runs_handler runs_reading; simp add: config_only_def credentials_def drop_group_def Let_def)+

lemma runs_records:
  "runs R (create_record g z ci)" "runs R (update_record g z i cp)" "runs R (delete_record g z i)"
  unfolding create_record_def update_record_def delete_record_def with_group_def with_zone_def with_record_def Let_def
  by (intro runs_handler runs_reading; simp add: config_only_def credentials_def)+

lemma runs_assign: "runs R (assign_node_group n gid)"
  unfolding assign_node_group_def with_group_def
proof (intro runs_transaction runs_with_node)
  fix node s
  assume node: "get_node n s = Some node"
  let ?k = "\<lambda>grp. seq (modify (put_node (node\<lparr>nr_dns_group_id := gid\<rparr>))) (\<lambda>_. published grp n
     (case grp of Some r \<Rightarrow> ''assigned dns group '' @ gr_name r | None \<Rightarrow> ''unassigned dns group''))"
  have step: "R s (snd (?k grp s))" for grp
    by (rule seq_modify [where g = "put_node (node\<lparr>nr_dns_group_id := gid\<rparr>)", OF assign [OF node] runs_published])
  let ?chk = "case gid of None \<Rightarrow> ret None
    | Some g \<Rightarrow> reading (\<lambda>s. case get_group_row g s of
        None \<Rightarrow> lift_res (Inl (HTTPException 404 (''unknown dns group '' @ str_int g))) | Some r \<Rightarrow> ret (Some r))"
  have "(\<exists>grp. ?chk s = (Inr grp, s)) \<or> (\<exists>e. ?chk s = (Inl e, s))" by (auto split: option.split)
  then show "R s (snd (seq ?chk ?k s))"
    using step refl by (auto simp: seq_def [where f = ?k])
qed

lemma runs_put_provisioned:
  assumes "nd_node_id (ds_node d) \<in> ids"
  shows "runs R (put_provisioned d)"
  unfolding runs_def
proof
  fix s
  let ?n = "nd_node_id (ds_node d)"
  show "R s (snd (put_provisioned d s))"
  proof (cases "get_node ?n s")
    case None
    have "R s (put_node (new_provisioned_row d) s)"
      by (rule create) (simp_all add: new_provisioned_row_def Let_def None assms)
    then show ?thesis by (simp add: put_provisioned_def Let_def None)
  next
    case (Some r)
    have "R s (put_node (provisioned_row d r) s)"
      by (rule edit [where node = r]) (simp_all add: provisioned_row_def Let_def get_node_key [OF Some] Some)
    moreover have "R (put_node (provisioned_row d r) s) (delete_children ?n (put_node (provisioned_row d r) s))"
      by (rule tables) (simp_all add: delete_children_def credentials_def)
    ultimately show ?thesis using trans by (simp add: put_provisioned_def Let_def Some seq_def)
  qed
qed

lemma runs_seq_lift: "(\<And>x. r = Inr x \<Longrightarrow> runs R (f x)) \<Longrightarrow> runs R (seq (lift_res r) f)"
  by (cases r) (simp_all add: runs_def seq_def refl)

lemma runs_provision:
  assumes "nd_node_id (ds_node d) \<in> ids"
  shows "runs R (provision_node h d None)"
  unfolding provision_node_def
proof (rule runs_seq_lift)
  fix x assume "as_422 ''invalid DesiredState'' (model_validate_state d) = Inr x"
  then have "nd_node_id (ds_node x) \<in> ids"
    using assms model_validate_frame(2) [of d x] by (auto simp: as_422_def split: sum.splits)
  then show "runs R (seq (transaction (provision_node_from_state h x None (Some ''admin provision'')))
      (\<lambda>st. ret (st, [(nd_node_id (ds_node x), st)], ''admin provision'')))"
    unfolding provision_node_from_state_def bind_agent_token_def option.case Let_def
    by (intro runs_seq runs_lift runs_ret runs_transaction runs_put_provisioned runs_materialize runs_option
          runs_tables [OF tables_children(1)])
qed

lemma runs_published_by: "runs R m \<Longrightarrow> runs R (published_by m)" "runs R m' \<Longrightarrow> runs R (unpublished m')"
  unfolding published_by_def unpublished_def split_def by (intro runs_seq runs_ret; assumption)+

lemma runs_config: "provisioned_node op \<subseteq> ids \<Longrightarrow> runs R (config_run op)"
  by (cases op) (simp_all add: runs_published_by runs_interfaces runs_peerings runs_group_handlers runs_records runs_assign
      runs_provision)

end

section \<open>The operations of the administrator and of the agents\<close>

datatype admin_op =
    Create node_in
  | Update string "node_field list"
  | Decommission string
  | Recommission string
  | Delete string
  | Bump string "string option"
  | Rollback string int "string option"
  | Report_Key string string "string option"
  | Configure config_op

definition unit_of :: "(control, 'a) eff \<Rightarrow> (control, unit) eff" where
  "unit_of m = seq m (\<lambda>_. ret ())"

text \<open>\<open>Bump\<close> is \<open>DesiredStateStore.bump\<close>.\<close>

definition bump :: "string \<Rightarrow> string option \<Rightarrow> (control, desired_state option) eff" where
  "bump node_id reason =
     transaction (materialize node_id (Some (if truthy reason then the reason else ''manual bump''))
                    DEFAULT_GENERATION_RETENTION)"

fun admin_run :: "admin_op \<Rightarrow> (control, unit) eff" where
  "admin_run (Create p) = unit_of (create_node p)"
| "admin_run (Update n patch) = unit_of (update_node n patch)"
| "admin_run (Decommission n) = unit_of (decommission_node n)"
| "admin_run (Recommission n) = unit_of (recommission_node n)"
| "admin_run (Delete n) = delete_node n"
| "admin_run (Bump n reason) = unit_of (bump n reason)"
| "admin_run (Rollback n g reason) = unit_of (rollback_node_generation n g reason)"
| "admin_run (Report_Key n key escrow) = unit_of (post_wireguard_keys n key escrow)"
| "admin_run (Configure op) = unit_of (config_run op)"

text \<open>The nodes an operation may register, and the node it may remove.\<close>

fun registered_by :: "admin_op \<Rightarrow> string set" where
  "registered_by (Create p) = {ni_node_id p}"
| "registered_by (Configure c) = provisioned_node c"
| "registered_by _ = {}"

definition admin_step :: "control \<Rightarrow> admin_op \<Rightarrow> control" where
  "admin_step s op = snd (admin_run op s)"

definition no_data :: control where
  "no_data = \<lparr>ct_nodes = [], ct_generations = [], ct_peerings = [], ct_wg = [], ct_bgp = [], ct_dns_groups = [],
              ct_dns_zones = [], ct_dns_records = [], ct_tokens = [], ct_tickets = [], ct_pending = [],
              ct_next_pending = 1, ct_status = [], ct_events = [], ct_next_event = 1, ct_rollups = [],
              ct_next_peering = 1, ct_next_wg = 1, ct_next_bgp = 1, ct_next_group = 1, ct_next_zone = 1, ct_next_record = 1\<rparr>"

context node_path begin

lemma runs_unit_of: "runs R m \<Longrightarrow> runs R (unit_of m)"
  unfolding unit_of_def by (intro runs_seq runs_ret)

lemma runs_bump: "runs R (bump n reason)"
  unfolding bump_def by (intro runs_transaction runs_materialize)

lemma runs_node_op:
  assumes "\<And>n s. op = Delete n \<Longrightarrow> R s (delete_cascade n s)" "\<And>c. op = Configure c \<Longrightarrow> runs R (config_run c)"
    and "registered_by op \<subseteq> ids"
  shows "runs R (admin_run op)"
  using assms
  by (cases op)
     (simp_all add: decommission_node_def recommission_node_def runs_unit_of runs_create_node runs_update_node
        runs_set_lifecycle runs_delete_node runs_bump runs_rollback_node runs_post_keys)

end

context write_path begin

lemma runs_admin:
  assumes "\<And>n s. op = Delete n \<Longrightarrow> R s (delete_cascade n s)" "registered_by op \<subseteq> ids"
  shows "runs R (admin_run op)"
proof (rule runs_node_op)
  show "runs R (config_run c)" if "op = Configure c" for c using assms(2) that runs_config by simp
qed (use assms in blast)+

lemma admin_steps:
  assumes "\<And>n s. Delete n \<in> set ops \<Longrightarrow> R s (delete_cascade n s)" "(\<Union>op\<in>set ops. registered_by op) \<subseteq> ids"
  shows "R s (foldl admin_step s ops)"
  using assms
proof (induction ops rule: rev_induct)
  case Nil
  show ?case by (simp add: refl)
next
  case (snoc op ops)
  have "R (foldl admin_step s ops) (admin_step (foldl admin_step s ops) op)"
    using runs_admin [of op] snoc.prems by (simp add: runs_def admin_step_def SUP_le_iff)
  moreover have "R s (foldl admin_step s ops)" by (rule snoc.IH) (use snoc.prems in auto)
  ultimately show ?case using trans by simp
qed

end

end
