(* ===== verification/Generation_Log.thy ===== *)
theory Generation_Log
  imports Write_Path
begin

text \<open>
  What the control server promises about generations: every node has an append-only log of published
  states, and the tables are a window onto the logs.  Every operation of the write path moves the logs by
  appending states that carry the next numbers; only a creation or a provisioning registers its node, and
  only a deletion removes its node.
\<close>

section \<open>Logs and the tables that represent them\<close>

type_synonym logs = "string \<Rightarrow> desired_state list option"

text \<open>How an operation may change the logs.  With \<open>numbered\<close> below, what is appended carries the next
  numbers.\<close>

definition log_moves :: "admin_op \<Rightarrow> logs \<Rightarrow> logs \<Rightarrow> bool" where
  "log_moves op L L' \<longleftrightarrow>
     (\<forall>n. case L n of
            Some h \<Rightarrow> (\<exists>new. L' n = Some (h @ new)) \<or> (op = Delete n \<and> L' n = None)
          | None \<Rightarrow> L' n = None \<or> n \<in> registered_by op)"

fun log_path :: "admin_op list \<Rightarrow> logs \<Rightarrow> logs \<Rightarrow> bool" where
  "log_path [] L L' \<longleftrightarrow> L' = L"
| "log_path (op # ops) L L' \<longleftrightarrow> (\<exists>M. log_moves op L M \<and> log_path ops M L')"

lemma log_movesD: "log_moves op L M \<Longrightarrow>
    (case L n of Some h \<Rightarrow> (\<exists>new. M n = Some (h @ new)) \<or> (op = Delete n \<and> M n = None)
     | None \<Rightarrow> M n = None \<or> n \<in> registered_by op)"
  unfolding log_moves_def by (rule spec)

lemma log_moves_known: "log_moves op L M \<Longrightarrow> L n = Some h \<Longrightarrow> (\<exists>new. M n = Some (h @ new)) \<or> (op = Delete n \<and> M n = None)"
  using log_movesD [of op L M n] by simp

lemma log_moves_unknown: "log_moves op L M \<Longrightarrow> L n = None \<Longrightarrow> M n = None \<or> n \<in> registered_by op"
  using log_movesD [of op L M n] by simp

lemma log_moves_refl: "log_moves op L L"
  by (auto simp: log_moves_def split: option.split)

lemma log_moves_append: "L n = Some h \<Longrightarrow> log_moves op L (L(n \<mapsto> h @ [d]))"
  by (auto simp: log_moves_def split: option.split)

lemma log_moves_trans:
  assumes "log_moves op L M" "log_moves op M N"
  shows "log_moves op L N"
  unfolding log_moves_def
proof
  fix n
  show "case L n of Some h \<Rightarrow> (\<exists>new. N n = Some (h @ new)) \<or> (op = Delete n \<and> N n = None)
        | None \<Rightarrow> N n = None \<or> n \<in> registered_by op"
  proof (cases "L n")
    case None
    then show ?thesis using log_moves_unknown [OF assms(1) None] log_moves_unknown [OF assms(2), of n] by auto
  next
    case (Some h)
    from log_moves_known [OF assms(1) Some] show ?thesis
    proof (elim disjE exE conjE)
      fix new assume m: "M n = Some (h @ new)"
      show ?thesis using Some log_moves_known [OF assms(2) m] by auto
    next
      assume op: "op = Delete n" and m: "M n = None"
      show ?thesis using Some op log_moves_unknown [OF assms(2) m] by simp
    qed
  qed
qed

text \<open>Along a path a log that is not removed only grows, and a log that was not there is one that was
  registered.\<close>

lemma log_path_grows:
  "log_path ops L L' \<Longrightarrow> L n = Some h \<Longrightarrow> Delete n \<notin> set ops \<Longrightarrow> \<exists>new. L' n = Some (h @ new)"
proof (induction ops arbitrary: L h)
  case (Cons op ops)
  then obtain M where M: "log_moves op L M" "log_path ops M L'" by auto
  obtain new where "M n = Some (h @ new)" using log_moves_known [OF M(1) Cons.prems(2)] Cons.prems(3) by auto
  then show ?case using Cons.IH [OF M(2)] Cons.prems(3) by fastforce
qed simp

lemma log_path_registered:
  "log_path ops L L' \<Longrightarrow> L n = None \<Longrightarrow> L' n \<noteq> None \<Longrightarrow> \<exists>op\<in>set ops. n \<in> registered_by op"
proof (induction ops arbitrary: L)
  case (Cons op ops)
  then obtain M where M: "log_moves op L M" "log_path ops M L'" by auto
  then show ?case using log_moves_unknown [OF M(1) Cons.prems(2)] Cons.IH [OF M(2)] Cons.prems(3) by auto
qed simp

definition retained :: "nat \<Rightarrow> int \<Rightarrow> bool" where
  "retained len g \<longleftrightarrow> 1 \<le> g \<and> g \<le> int len \<and> int len - DEFAULT_GENERATION_RETENTION < g"

definition logged_state :: "logs \<Rightarrow> string \<Rightarrow> int \<Rightarrow> desired_state option" where
  "logged_state L n g =
     (case L n of None \<Rightarrow> None | Some h \<Rightarrow> if retained (length h) g then Some (h ! nat (g - 1)) else None)"

definition numbered :: "logs \<Rightarrow> bool" where
  "numbered L \<longleftrightarrow> (\<forall>n h i. L n = Some h \<longrightarrow> i < length h \<longrightarrow> ds_generation (h ! i) = int i + 1)"

definition generation_key :: "generation_row \<Rightarrow> string \<times> int" where
  "generation_key r = (gn_node_id r, gn_generation r)"

definition refines :: "logs \<Rightarrow> control \<Rightarrow> bool" where
  "refines L s \<longleftrightarrow>
     numbered L \<and> distinct (map generation_key (ct_generations s)) \<and>
     (\<forall>n. map_option nr_generation (get_node n s) = map_option (\<lambda>h. int (length h)) (L n)) \<and>
     (\<forall>n g. map_option gn_snapshot (get_generation n g s) = logged_state L n g)"

lemma refines_cong:
  assumes "\<And>n. map_option nr_generation (get_node n t) = map_option nr_generation (get_node n s)"
    and "ct_generations t = ct_generations s"
  shows "refines L t = refines L s"
  using assms by (simp add: refines_def get_generation_def)

lemma find_filter_none: "(\<And>x. P x \<Longrightarrow> \<not> Q x) \<Longrightarrow> find P (filter Q xs) = None"
  by (auto simp: find_None_iff)

lemma get_generation_filter:
  assumes "\<And>r. gn_node_id r = n \<Longrightarrow> gn_generation r = g \<Longrightarrow> Q r"
  shows "get_generation n g (s\<lparr>ct_generations := filter Q (ct_generations s)\<rparr>) = get_generation n g s"
  unfolding get_generation_def using assms find_filter [of "\<lambda>r. gn_node_id r = n \<and> gn_generation r = g" Q] by simp

lemma get_generation_filtered:
  assumes "\<And>r. gn_node_id r = n \<Longrightarrow> gn_generation r = g \<Longrightarrow> \<not> Q r"
  shows "get_generation n g (s\<lparr>ct_generations := filter Q (ct_generations s)\<rparr>) = None"
  unfolding get_generation_def
  using assms find_filter_none [of "\<lambda>r. gn_node_id r = n \<and> gn_generation r = g" Q] by simp

lemma refines_log:
  assumes "refines L s" "get_node n s = Some node"
  obtains h where "L n = Some h" "nr_generation node = int (length h)"
proof -
  have "map_option (\<lambda>h. int (length h)) (L n) = Some (nr_generation node)"
    using assms by (metis (no_types, lifting) option.simps(9) refines_def)
  then show thesis using that by (cases "L n") auto
qed

lemma refines_unknown: "refines L s \<Longrightarrow> get_node n s = None \<longleftrightarrow> L n = None"
  unfolding refines_def by (metis map_option_is_None)

lemma refines_generation: "refines L s \<Longrightarrow> map_option gn_snapshot (get_generation n g s) = logged_state L n g"
  by (simp add: refines_def)

lemma get_generation_None: "get_generation n g s = None \<longleftrightarrow> (n, g) \<notin> generation_key ` set (ct_generations s)"
  by (auto simp: get_generation_def find_None_iff generation_key_def)

section \<open>Publishing appends\<close>

definition appended_row :: "string \<Rightarrow> int \<Rightarrow> desired_state \<Rightarrow> string option \<Rightarrow> generation_row" where
  "appended_row n g d reason = \<lparr>gn_node_id = n, gn_generation = g, gn_snapshot = d, gn_reason = reason\<rparr>"

lemma appended_row_simps [simp]:
  "generation_key (appended_row n g d reason) = (n, g)" "gn_snapshot (appended_row n g d reason) = d"
  by (simp_all add: appended_row_def generation_key_def)

lemma get_generation_appended:
  assumes "get_generation n g s = None"
  shows "get_generation m k (put_node r (s\<lparr>ct_generations := ct_generations s @ [appended_row n g d reason]\<rparr>)) =
         (if m = n \<and> k = g then Some (appended_row n g d reason) else get_generation m k s)"
  using assms
  by (auto simp: get_generation_def put_node_def find_append appended_row_def split: option.splits)

definition published_state ::
  "node_row \<Rightarrow> int \<Rightarrow> desired_state \<Rightarrow> string option \<Rightarrow> control \<Rightarrow> control" where
  "published_state node g d reason s =
     put_node (node\<lparr>nr_generation := g\<rparr>)
       (s\<lparr>ct_generations := ct_generations s @ [appended_row (nr_node_id node) g d reason]\<rparr>)"

lemma publish_generation_eq:
  assumes "get_generation (nr_node_id node) g s = None"
  shows "publish_generation node g d reason DEFAULT_GENERATION_RETENTION s =
         (Inr (), let s1 = published_state node g d reason s in
                  if 0 < g - DEFAULT_GENERATION_RETENTION
                  then s1\<lparr>ct_generations := filter (\<lambda>r. \<not> (gn_node_id r = nr_node_id node \<and>
                            gn_generation r \<le> g - DEFAULT_GENERATION_RETENTION)) (ct_generations s1)\<rparr>
                  else s1)"
  using assms
  by (simp add: publish_generation_def published_state_def Let_def DEFAULT_GENERATION_RETENTION_def
      appended_row_def)

lemma logged_state_append:
  assumes "L n = Some h"
  shows "logged_state (L(n \<mapsto> h @ [d])) m g =
         (if m = n
          then if g = int (length h) + 1 then Some d
               else if g \<le> int (length h) + 1 - DEFAULT_GENERATION_RETENTION then None else logged_state L n g
          else logged_state L m g)"
  using assms
  by (auto simp: logged_state_def retained_def DEFAULT_GENERATION_RETENTION_def nth_append nat_less_iff)

lemma get_node_generations [simp]: "get_node m (ct_generations_update f u) = get_node m u"
  by (simp add: get_node_def)

lemma get_node_after_publish:
  assumes "publish_generation node g d reason keep s = (Inr (), t)"
  shows "get_node m t = (if m = nr_node_id node then Some (node\<lparr>nr_generation := g\<rparr>) else get_node m s)"
  using assms by (auto simp: publish_generation_def Let_def nodes.get_put split: if_splits)

lemma publish_frame:
  assumes "publish_generation node g d reason keep s = (Inr (), t)"
  shows "t = s\<lparr>ct_nodes := ct_nodes t, ct_generations := ct_generations t\<rparr>"
  using assms by (auto simp: publish_generation_def Let_def put_node_def split: if_splits)

lemma distinct_appended:
  assumes "distinct (map generation_key rows)" "(n, g) \<notin> generation_key ` set rows"
  shows "distinct (map generation_key (rows @ [appended_row n g d reason]))"
  using assms by simp

lemma publish_refines:
  assumes R: "refines L s" and node: "get_node n s = Some node" "nr_node_id node = n"
    and L: "L n = Some h" and g: "g = int (length h) + 1" "ds_generation d = g"
  shows "\<exists>t. publish_generation node g d reason DEFAULT_GENERATION_RETENTION s = (Inr (), t) \<and>
             refines (L(n \<mapsto> h @ [d])) t"
proof -
  have fresh: "get_generation n g s = None"
    using refines_generation [OF R, of n g] L g(1) by (simp add: logged_state_def retained_def)
  let ?s1 = "published_state node g d reason s"
  let ?Q = "\<lambda>r. \<not> (gn_node_id r = n \<and> gn_generation r \<le> g - DEFAULT_GENERATION_RETENTION)"
  let ?t = "if 0 < g - DEFAULT_GENERATION_RETENTION
            then ?s1\<lparr>ct_generations := filter ?Q (ct_generations ?s1)\<rparr> else ?s1"
  have eq: "publish_generation node g d reason DEFAULT_GENERATION_RETENTION s = (Inr (), ?t)"
    using publish_generation_eq [of node g s d reason] fresh node(2) by (simp add: Let_def)
  have d1: "distinct (map generation_key (ct_generations ?s1))"
    using R fresh distinct_appended [of "ct_generations s" n g d reason] node(2)
    by (simp add: refines_def published_state_def put_node_def get_generation_None)
  have "distinct (map generation_key (ct_generations ?t))"
    using d1 by (simp add: distinct_map_filter)
  moreover have "numbered (L(n \<mapsto> h @ [d]))"
    using R L g by (auto simp: refines_def numbered_def nth_append less_Suc_eq split: if_splits)
  moreover have "map_option nr_generation (get_node m ?t) = map_option (\<lambda>h. int (length h)) ((L(n \<mapsto> h @ [d])) m)" for m
    using R g node(2) get_node_after_publish [OF eq, of m] by (simp add: refines_def)
  moreover have "map_option gn_snapshot (get_generation m k ?t) = logged_state (L(n \<mapsto> h @ [d])) m k" for m k
  proof -
    have s1: "map_option gn_snapshot (get_generation m k ?s1) =
        (if m = n \<and> k = g then Some d else logged_state L m k)"
      using R fresh node(2) by (simp add: published_state_def get_generation_appended refines_def)
    consider (low) "m = n" "k \<le> g - DEFAULT_GENERATION_RETENTION"
      | (kept) "\<not> (m = n \<and> k \<le> g - DEFAULT_GENERATION_RETENTION)" by blast
    then show ?thesis
    proof cases
      case low
      have none: "logged_state (L(n \<mapsto> h @ [d])) m k = None"
        using low L g(1) by (simp add: logged_state_append [of L n h] DEFAULT_GENERATION_RETENTION_def)
      show ?thesis
      proof (cases "0 < g - DEFAULT_GENERATION_RETENTION")
        case True
        have "get_generation m k (?s1\<lparr>ct_generations := filter ?Q (ct_generations ?s1)\<rparr>) = None"
          by (rule get_generation_filtered) (use low in auto)
        then show ?thesis using True none by simp
      next
        case False
        then have "logged_state L m k = None" using low L by (simp add: logged_state_def retained_def)
        moreover have "k \<noteq> g" using low by (simp add: DEFAULT_GENERATION_RETENTION_def)
        ultimately show ?thesis using False none s1 by simp
      qed
    next
      case kept
      have "get_generation m k (?s1\<lparr>ct_generations := filter ?Q (ct_generations ?s1)\<rparr>) = get_generation m k ?s1"
        by (rule get_generation_filter) (use kept in auto)
      then show ?thesis
        using kept s1 L g(1) by (auto simp: logged_state_append)
    qed
  qed
  ultimately have "refines (L(n \<mapsto> h @ [d])) ?t" by (simp add: refines_def)
  then show ?thesis using eq by blast
qed

section \<open>Every operation moves the logs\<close>

definition op_moves :: "admin_op \<Rightarrow> control \<Rightarrow> control \<Rightarrow> bool" where
  "op_moves op s t \<longleftrightarrow> (\<forall>L. refines L s \<longrightarrow> (\<exists>L'. log_moves op L L' \<and> refines L' t))"

lemma op_moves_frame:
  assumes "\<And>n. map_option nr_generation (get_node n t) = map_option nr_generation (get_node n s)"
    and "ct_generations t = ct_generations s"
  shows "op_moves op s t"
  using refines_cong [OF assms] log_moves_refl unfolding op_moves_def by blast

lemma publishes_next:
  assumes R: "refines L s" and node: "get_node n s = Some node" and d: "ds_generation d = nr_generation node + 1"
  obtains h t where "L n = Some h" "nr_generation node = int (length h)"
    "publish_generation node (nr_generation node + 1) d reason DEFAULT_GENERATION_RETENTION s = (Inr (), t)"
    "refines (L(n \<mapsto> h @ [d])) t"
proof -
  obtain h where h: "L n = Some h" "nr_generation node = int (length h)" using refines_log [OF R node] .
  obtain t where "publish_generation node (nr_generation node + 1) d reason DEFAULT_GENERATION_RETENTION s = (Inr (), t)"
    "refines (L(n \<mapsto> h @ [d])) t"
    using publish_refines [OF R node get_node_key [OF node] h(1), of "nr_generation node + 1" d reason] h(2) d by auto
  then show thesis using that h by simp
qed

lemma materialize_cases:
  assumes R: "refines L s" and m: "materialize n reason DEFAULT_GENERATION_RETENTION s = (r, t)"
  obtains (unknown) "L n = None" "r = Inr None" "t = s"
    | (refused) e where "r = Inl e" "t = s"
    | (published) node h d where "get_node n s = Some node" "L n = Some h" "nr_generation node = int (length h)"
        "rbind (assembled s node (int (length h) + 1)) model_validate_state = Inr d" "r = Inr (Some d)"
        "ds_generation d = int (length h) + 1" "refines (L(n \<mapsto> h @ [d])) t"
        "\<And>m. get_node m t = (if m = n then Some (node\<lparr>nr_generation := int (length h) + 1\<rparr>) else get_node m s)"
        "t = s\<lparr>ct_nodes := ct_nodes t, ct_generations := ct_generations t\<rparr>"
proof (cases "get_node n s")
  case None
  then show thesis using m unknown refines_unknown [OF R, of n] by (simp add: materialize_def)
next
  case (Some node)
  let ?g = "nr_generation node + 1"
  show thesis
  proof (cases "rbind (assembled s node ?g) model_validate_state")
    case (Inl e)
    then have "r = Inl e" "t = s" using m Some by (auto simp: materialize_def seq_def Let_def)
    then show thesis by (rule refused)
  next
    case (Inr d)
    then have g: "ds_generation d = ?g"
      unfolding rbind_Inr_iff using assembled_generation model_validate_frame(1) by metis
    obtain h u where u: "L n = Some h" "nr_generation node = int (length h)"
      "publish_generation node ?g d (Some (if truthy reason then the reason else ''materialize'')) DEFAULT_GENERATION_RETENTION s
         = (Inr (), u)"
      "refines (L(n \<mapsto> h @ [d])) u"
      using publishes_next [OF R Some g] by metis
    have "(r, t) = (Inr (Some d), u)"
      using m Inr u(3) Some by (simp add: materialize_def seq_def Let_def)
    then show thesis
      using published [OF Some u(1,2)] Inr g u(2,4) publish_frame [OF u(3)] get_node_after_publish [OF u(3)]
        get_node_key [OF Some] by simp
  qed
qed

lemma rollback_cases:
  assumes R: "refines L s" and m: "rollback_to_generation n g reason DEFAULT_GENERATION_RETENTION s = (r, t)"
  obtains (unknown) "L n = None" "r = Inr None" "t = s"
    | (absent) h where "L n = Some h" "\<not> retained (length h) g" "r = Inl (KeyError n)" "t = s"
    | (refused) e h where "L n = Some h" "retained (length h) g" "r = Inl e" "t = s"
    | (republished) h d where "L n = Some h" "retained (length h) g"
        "model_validate_state ((h ! nat (g - 1))\<lparr>ds_generation := int (length h) + 1\<rparr>) = Inr d" "r = Inr (Some d)"
        "ds_generation d = int (length h) + 1" "refines (L(n \<mapsto> h @ [d])) t"
proof (cases "get_node n s")
  case None
  then show thesis using m unknown refines_unknown [OF R, of n] by (simp add: rollback_to_generation_def)
next
  case (Some node)
  obtain h where h: "L n = Some h" "nr_generation node = int (length h)" using refines_log [OF R Some] .
  show thesis
  proof (cases "get_generation n g s")
    case None
    then have "\<not> retained (length h) g"
      using refines_generation [OF R, of n g] h(1) by (auto simp: logged_state_def split: if_splits)
    moreover have "r = Inl (KeyError n)" "t = s" using m Some None by (auto simp: rollback_to_generation_def)
    ultimately show thesis using absent [OF h(1)] by blast
  next
    case (Some row)
    then have row: "retained (length h) g" "gn_snapshot row = h ! nat (g - 1)"
      using refines_generation [OF R, of n g] h(1) by (auto simp: logged_state_def split: if_splits)
    note node = \<open>get_node n s = Some node\<close>
    let ?d = "(h ! nat (g - 1))\<lparr>ds_generation := int (length h) + 1\<rparr>"
    show thesis
    proof (cases "model_validate_state ?d")
      case (Inl e)
      then have "r = Inl e" "t = s"
        using m node Some row h by (auto simp: rollback_to_generation_def seq_def Let_def)
      then show thesis by (rule refused [OF h(1) row(1)])
    next
      case (Inr d)
      then have dg: "ds_generation d = nr_generation node + 1" using model_validate_frame(1) [OF Inr] h(2) by simp
      obtain h' u where u: "L n = Some h'"
        "publish_generation node (nr_generation node + 1) d (Some reason) DEFAULT_GENERATION_RETENTION s = (Inr (), u)"
        "refines (L(n \<mapsto> h' @ [d])) u"
        using publishes_next [OF R node dg] by metis
      have "(r, t) = (Inr (Some d), u)"
        using m Inr u(2) node Some row h by (simp add: rollback_to_generation_def seq_def Let_def)
      then show thesis using republished [OF h(1) row(1) Inr] dg u(1,3) h by simp
    qed
  qed
qed

lemma op_moves_create:
  assumes "get_node (nr_node_id row) s = None" "nr_generation row = 0" "nr_node_id row \<in> registered_by op"
  shows "op_moves op s (put_node row s)"
  unfolding op_moves_def
proof (intro allI impI)
  fix L
  assume R: "refines L s"
  have L: "L (nr_node_id row) = None" using refines_unknown [OF R] assms(1) by blast
  have gens: "ct_generations (put_node row s) = ct_generations s" "get_generation m g (put_node row s) = get_generation m g s" for m g
    by (simp_all add: put_node_def get_generation_def)
  have "logged_state (L(nr_node_id row \<mapsto> [])) m g = logged_state L m g" for m g
    using L by (auto simp: logged_state_def retained_def)
  then have "refines (L(nr_node_id row \<mapsto> [])) (put_node row s)"
    using R assms(1,2) by (auto simp: refines_def numbered_def nodes.get_put gens)
  moreover have "log_moves op L (L(nr_node_id row \<mapsto> []))"
    using L assms(3) by (auto simp: log_moves_def split: option.split)
  ultimately show "\<exists>L'. log_moves op L L' \<and> refines L' (put_node row s)" by blast
qed

lemma op_moves_delete: "op_moves (Delete n) s (delete_cascade n s)"
  unfolding op_moves_def
proof (intro allI impI)
  fix L
  assume R: "refines L s"
  have rows: "ct_generations (delete_cascade n s) = filter (\<lambda>r. gn_node_id r \<noteq> n) (ct_generations s)"
    by (simp add: delete_cascade_def Let_def)
  have node: "get_node m (delete_cascade n s) = (if m = n then None else get_node m s)" for m
  proof -
    have "get_node m (delete_cascade n s) = get_node m (del_node n s)"
      by (simp add: delete_cascade_def Let_def get_node_def)
    then show ?thesis using nodes.get_del by simp
  qed
  have gens: "get_generation m g (delete_cascade n s) = (if m = n then None else get_generation m g s)" for m g
  proof (cases "m = n")
    case True
    have "find (\<lambda>r. gn_node_id r = m \<and> gn_generation r = g) (filter (\<lambda>r. gn_node_id r \<noteq> n) (ct_generations s)) = None"
      by (rule find_filter_none) (use True in simp)
    then show ?thesis using True unfolding get_generation_def rows by simp
  next
    case False
    have "find (\<lambda>r. gn_node_id r = m \<and> gn_generation r = g) (filter (\<lambda>r. gn_node_id r \<noteq> n) (ct_generations s)) =
          find (\<lambda>r. gn_node_id r = m \<and> gn_generation r = g) (ct_generations s)"
      by (rule find_filter) (use False in auto)
    then show ?thesis using False unfolding get_generation_def rows by simp
  qed
  have "refines (L(n := None)) (delete_cascade n s)"
    using R by (auto simp: refines_def numbered_def rows node gens logged_state_def distinct_map_filter split: if_splits)
  moreover have "log_moves (Delete n) L (L(n := None))" by (auto simp: log_moves_def split: option.split)
  ultimately show "\<exists>L'. log_moves (Delete n) L L' \<and> refines L' (delete_cascade n s)" by blast
qed

lemma op_moves_publish:
  assumes "get_node n s = Some node" "model_validate_state d0 = Inr d" "ds_generation d0 = nr_generation node + 1"
  shows "op_moves op s (snd (publish_generation node (nr_generation node + 1) d reason DEFAULT_GENERATION_RETENTION s))"
  unfolding op_moves_def
proof (intro allI impI)
  fix L
  assume R: "refines L s"
  have g: "ds_generation d = nr_generation node + 1" using model_validate_frame(1) [OF assms(2)] assms(3) by simp
  obtain h t where
    "publish_generation node (nr_generation node + 1) d reason DEFAULT_GENERATION_RETENTION s = (Inr (), t)"
    "L n = Some h" "refines (L(n \<mapsto> h @ [d])) t"
    using publishes_next [OF R assms(1) g] by metis
  then show "\<exists>L'. log_moves op L L' \<and>
      refines L' (snd (publish_generation node (nr_generation node + 1) d reason DEFAULT_GENERATION_RETENTION s))"
    using log_moves_append [of L n h op d] by auto
qed

lemma op_moves_put_node:
  assumes "get_node (nr_node_id row) s = Some node" "nr_generation row = nr_generation node"
  shows "op_moves op s (put_node row s)"
proof (rule op_moves_frame)
  show "map_option nr_generation (get_node n (put_node row s)) = map_option nr_generation (get_node n s)" for n
    using assms by (simp add: nodes.get_put)
  show "ct_generations (put_node row s) = ct_generations s" by (simp add: put_node_def)
qed

interpretation logs: write_path "op_moves op" "registered_by op" for op
proof
  fix s t u
  show "op_moves op s s" unfolding op_moves_def using log_moves_refl by blast
  show "op_moves op s u" if "op_moves op s t" "op_moves op t u"
    using that log_moves_trans unfolding op_moves_def by meson
  show "op_moves op s t" if "ct_nodes t = ct_nodes s" "ct_generations t = ct_generations s"
    by (rule op_moves_frame) (use that in \<open>simp_all add: get_node_def\<close>)
  show "op_moves op s (put_node (node\<lparr>nr_dns_group_id := gid\<rparr>) s)" if "get_node n s = Some node" for n node gid
    by (rule op_moves_put_node [of _ _ node]) (use that get_node_key [OF that] in simp_all)
qed (use op_moves_publish op_moves_put_node op_moves_create in blast)+

section \<open>Stored states are well typed\<close>

text \<open>What the schema promises a reader of a snapshot.\<close>

definition sessions_attached :: "desired_state \<Rightarrow> bool" where
  "sessions_attached d \<longleftrightarrow>
     (\<forall>b\<in>set (ds_bgp_sessions d). \<forall>i. bgp_interface b = Some i \<longrightarrow> i \<noteq> [] \<longrightarrow>
        i \<in> if_name ` set (ds_interfaces d) \<or> i = DNS_ANYCAST_INTERFACE)"

definition wf_state :: "desired_state \<Rightarrow> bool" where
  "wf_state d \<longleftrightarrow>
     1 \<le> ds_generation d \<and> distinct (map if_name (ds_interfaces d)) \<and> distinct (map bgp_name (ds_bgp_sessions d)) \<and>
     sessions_attached d \<and> ports_ok d \<and> socket_ok d \<and> dns_ok d"

lemma validate_references_wf:
  assumes "validate_references s = Inr t"
  shows "distinct (map if_name (ds_interfaces t))" "distinct (map bgp_name (ds_bgp_sessions t))"
    "sessions_attached t" "ports_ok t" "socket_ok t" "dns_ok t"
proof -
  obtain s1 where v: "checks (reference_checks s) s = Inr s" "ports_ok s1" "socket_ok s1" "dns_ok s1"
    "only_services s s1" "normalize_dns_anycast s1 = Inr t"
    by (rule validate_references_steps [OF assms])
  note o = only_services_simps [OF v(5)]
  note a = anycast_step [OF v(6)]
  have rt: "ds_runtime t = ds_runtime s1" "ds_dns t = ds_dns s1" using a by auto
  obtain ms where i: "anycast_of s1 = Inr ms" "ds_interfaces t = other_interfaces s1 @ ms" using a by auto
  note k = anycast_of_Inr [OF i(1)]
  have c: "distinct (map if_name (ds_interfaces s))" "distinct (map bgp_name (ds_bgp_sessions s))"
    "filter (\<lambda>i. i \<notin> set (map if_name (ds_interfaces s)))
       (map the (filter truthy (map bgp_interface (ds_bgp_sessions s)))) = []"
    using v(1) unfolding reference_checks_def Let_def checks_Inr list.pred_inject fst_conv not_not sort_Nil_iff
    by blast+
  show "distinct (map if_name (ds_interfaces t))"
    using c(1) k by (cases ms) (auto simp: i(2) other_interfaces_def o distinct_map_filter)
  show "distinct (map bgp_name (ds_bgp_sessions t))" using c(2) a o by simp
  show "sessions_attached t"
    unfolding sessions_attached_def
  proof (intro ballI allI impI)
    fix b j
    assume "b \<in> set (ds_bgp_sessions t)" "bgp_interface b = Some j" "j \<noteq> []"
    then have "j \<in> set (map the (filter truthy (map bgp_interface (ds_bgp_sessions s))))"
      using a o by (force simp: truthy_def)
    then have "j \<in> if_name ` set (ds_interfaces s)" using c(3) unfolding filter_empty_conv by auto
    then show "j \<in> if_name ` set (ds_interfaces t) \<or> j = DNS_ANYCAST_INTERFACE"
      by (auto simp: i(2) other_interfaces_def o)
  qed
  show "ports_ok t" by (rule ports_ok_anycast [OF v(2,6)])
  show "socket_ok t" using v(3) by (simp add: socket_ok_def rt)
  show "dns_ok t" using v(4) by (simp add: dns_ok_def dns_active_def rt)
qed

lemma model_validate_wf: "model_validate_state s = Inr t \<Longrightarrow> wf_state t"
proof -
  assume v: "model_validate_state s = Inr t"
  then obtain dns where d: "checks (field_checks (s\<lparr>ds_dns := dns\<rparr>)) (s\<lparr>ds_dns := dns\<rparr>) = Inr (s\<lparr>ds_dns := dns\<rparr>)"
    "validate_references (s\<lparr>ds_dns := dns\<rparr>) = Inr t"
    unfolding model_validate_state_def rbind_Inr_iff checks_Inr by blast
  have "1 \<le> ds_generation s" using d(1) by (auto simp: field_checks_def split: if_splits)
  then show ?thesis
    using validate_references_wf [OF d(2)] model_validate_frame(1) [OF v] by (simp add: wf_state_def)
qed

definition well_typed :: "control \<Rightarrow> bool" where
  "well_typed s \<longleftrightarrow> (\<forall>r\<in>set (ct_generations s). wf_state (gn_snapshot r))"

definition keeps_typed :: "control \<Rightarrow> control \<Rightarrow> bool" where
  "keeps_typed s t \<longleftrightarrow> (well_typed s \<longrightarrow> well_typed t)"

lemma publish_keeps_typed:
  assumes "wf_state d"
  shows "keeps_typed s (snd (publish_generation node g d reason keep s))"
  using assms
  by (auto simp: keeps_typed_def well_typed_def publish_generation_def Let_def put_node_def split: if_splits)

interpretation types: write_path keeps_typed UNIV
proof
  fix s t u :: control and n row node d0 d reason
  show "keeps_typed s s" "keeps_typed s t \<Longrightarrow> keeps_typed t u \<Longrightarrow> keeps_typed s u"
    by (simp_all add: keeps_typed_def)
  show "model_validate_state d0 = Inr d \<Longrightarrow>
    keeps_typed s (snd (publish_generation node (nr_generation node + 1) d reason DEFAULT_GENERATION_RETENTION s))"
    by (rule publish_keeps_typed) (rule model_validate_wf)
  show "ct_generations t = ct_generations s \<Longrightarrow> keeps_typed s t" by (simp add: keeps_typed_def well_typed_def)
  show "keeps_typed s (put_node row s)" "keeps_typed s (put_node row s)"
    "keeps_typed s (put_node (node\<lparr>nr_dns_group_id := gid\<rparr>) s)" for gid
    by (simp_all add: keeps_typed_def well_typed_def put_node_def)
qed

lemma keeps_typed_delete: "keeps_typed s (delete_cascade n s)"
  by (auto simp: keeps_typed_def well_typed_def delete_cascade_def Let_def)

definition example_on_anycast :: desired_state where
  "example_on_anycast = example_state\<lparr>ds_dns := None,
     ds_interfaces := [(hd (ds_interfaces example_state))
       \<lparr>if_name := DNS_ANYCAST_INTERFACE, if_kind := DUMMY, if_listen_port := None, if_private_key_ref := None\<rparr>],
     ds_bgp_sessions := [\<lparr>bgp_name = ''s'', bgp_remote_asn = 4242421111, bgp_neighbor = ''fd00::2'',
       bgp_source_address = ''fd00::1'', bgp_address_family = IPV6, bgp_interface = Some DNS_ANYCAST_INTERFACE,
       bgp_policy = ''ebgp'', bgp_import_mode = ''all'', bgp_export_mode = ''all'', bgp_protocol_suffix = [],
       bgp_extended_next_hop = False, bgp_bfd = None, bgp_route_reflector_client = False, bgp_import_limit = None,
       bgp_import_limit_action = None, bgp_local_pref = None, bgp_link_latency = None, bgp_enabled = True\<rparr>]\<rparr>"

text \<open>A session on \<open>dns-anycast\<close> is accepted on a node without DNS, loses its interface in the
  normalisation and makes the result one that is refused when it is validated again.\<close>

lemma session_left_on_anycast:
  "case model_validate_state example_on_anycast of
     Inl _ \<Rightarrow> False
   | Inr d \<Rightarrow> ds_interfaces d = [] \<and> map bgp_interface (ds_bgp_sessions d) = [Some DNS_ANYCAST_INTERFACE]
             \<and> isl (model_validate_state d)"
  by code_simp

section \<open>Properties\<close>

lemma desired_state_get_db:
  assumes "refines L db"
  shows "fst (desired_state_get (False, wr) n \<lparr>sr_db = db, sr_cache = c\<rparr>) =
         (case L n of
            None \<Rightarrow> Inr None
          | Some h \<Rightarrow> if h = [] then Inr None else rbind (model_validate_state (last h)) (\<lambda>d. Inr (Some d)))"
proof (cases "get_node n db")
  case None
  then show ?thesis using refines_unknown [OF assms, of n] by (simp add: desired_state_get_def)
next
  case (Some node)
  obtain h where h: "L n = Some h" "nr_generation node = int (length h)" using refines_log [OF assms Some] .
  show ?thesis
  proof (cases "h = []")
    case True
    then show ?thesis using Some h by (simp add: desired_state_get_def Let_def)
  next
    case False
    have "retained (length h) (int (length h))"
      using False by (simp add: retained_def DEFAULT_GENERATION_RETENTION_def Suc_le_eq)
    then have "map_option gn_snapshot (get_generation n (int (length h)) db) = Some (h ! nat (int (length h) - 1))"
      using refines_generation [OF assms, of n "int (length h)"] h(1) by (simp add: logged_state_def)
    moreover have "nat (int (length h) - 1) = length h - 1" by arith
    then have "h ! nat (int (length h) - 1) = last h" using False by (simp add: last_conv_nth)
    ultimately obtain row where "get_generation n (int (length h)) db = Some row" "gn_snapshot row = last h" by auto
    then show ?thesis using Some h False
      by (auto simp: desired_state_get_def Let_def seq_def rbind_def split: sum.split)
  qed
qed

lemma operation_step: "refines L s \<Longrightarrow> \<exists>L'. log_moves op L L' \<and> refines L' (admin_step s op)"
proof -
  have "runs (op_moves op) (admin_run op)"
    by (rule logs.runs_admin) (use op_moves_delete in auto)
  then show "refines L s \<Longrightarrow> ?thesis" by (simp add: runs_def op_moves_def admin_step_def)
qed

lemma database_path:
  "refines L s \<Longrightarrow> \<exists>L'. log_path ops L L' \<and> refines L' (foldl admin_step s ops)"
proof (induction ops arbitrary: L s)
  case (Cons op ops)
  obtain M where M: "log_moves op L M" "refines M (admin_step s op)" using operation_step [OF Cons.prems] by blast
  show ?case using Cons.IH [OF M(2)] M(1) by auto
qed simp

lemma database_steps:
  assumes "refines L s"
  shows "\<exists>L'. refines L' (foldl admin_step s ops)"
  using database_path [OF assms] by blast

text \<open>C3: the database implements an append-only log of published states per node.  Whatever sequence of
  administrator and agent requests is served, each request in turn moves the logs only by appending to
  them, except that a creation or a provisioning may register its own node and a deletion may remove its
  own; the tables keep representing numbered logs (the n-th entry carries the number n, the node's pointer
  is the length of its log, and the stored generations are the last hundred entries).  So the log of a
  node that is not deleted keeps everything it had as a prefix, and a read without the cache returns the
  last entry, validated again.\<close>

theorem database_refines_logs:
  assumes "refines L s"
  shows "\<exists>L'. log_path ops L L' \<and> refines L' (foldl admin_step s ops) \<and>
    (\<forall>n h. L n = Some h \<longrightarrow> Delete n \<notin> set ops \<longrightarrow> (\<exists>new. L' n = Some (h @ new))) \<and>
    (\<forall>n. L n = None \<longrightarrow> L' n \<noteq> None \<longrightarrow> (\<exists>op\<in>set ops. n \<in> registered_by op)) \<and>
    (\<forall>n wr c. fst (desired_state_get (False, wr) n \<lparr>sr_db = foldl admin_step s ops, sr_cache = c\<rparr>) =
       (case L' n of
          None \<Rightarrow> Inr None
        | Some h \<Rightarrow> if h = [] then Inr None else rbind (model_validate_state (last h)) (\<lambda>d. Inr (Some d))))"
proof -
  obtain L' where L': "log_path ops L L'" "refines L' (foldl admin_step s ops)"
    using database_path [OF assms] by blast
  show ?thesis
    using L' log_path_grows [OF L'(1)] log_path_registered [OF L'(1)] desired_state_get_db [OF L'(2)]
    by (intro exI [of _ L']) blast
qed

lemma no_data_refines: "refines (\<lambda>_. None) no_data"
  by (simp add: refines_def numbered_def no_data_def get_node_def row_get_def get_generation_def logged_state_def)

lemma database_refines_logs_witness:
  "\<exists>L'. log_path [Delete ''edge1''] (\<lambda>_. None) L' \<and> refines L' (foldl admin_step no_data [Delete ''edge1''])"
  using database_refines_logs [OF no_data_refines] by blast

text \<open>C31: every stored snapshot has the form the schema promises: interface and session names are unique;
  every session that names an interface names one that is there, or \<open>dns-anycast\<close>; WireGuard ports lie
  in the published range, the control socket is writable and CoreDNS runs exactly when the node serves
  DNS.  No sequence of requests stores another.  The exemption is needed: the interface checks come before
  the normalisation that removes \<open>dns-anycast\<close> from a node without DNS
  (\<open>session_left_on_anycast\<close>).\<close>

theorem stored_states_well_typed:
  assumes "\<forall>r\<in>set (ct_generations s). wf_state (gn_snapshot r)"
    and "r \<in> set (ct_generations (foldl admin_step s ops))"
  shows "wf_state (gn_snapshot r)"
  using types.admin_steps [of ops s, OF keeps_typed_delete] assms unfolding keeps_typed_def well_typed_def by blast

end
