(* ===== verification/Node_Lifecycle.thy ===== *)
theory Node_Lifecycle
  imports Generation_Log
begin

text \<open>
  What nodes, keys and caches promise over any sequence of requests: the retention window, WireGuard keys
  that are recorded once, nodes that are withdrawn before they are deleted, and two consequences of
  deletion that the rest of the system does not expect.
\<close>

section \<open>An example\<close>

definition example_node_in :: "string \<Rightarrow> node_in" where
  "example_node_in n =
     \<lparr>ni_node_id = n, ni_asn = 4242421234, ni_router_id = ''172.20.1.1'', ni_site = Some ''hk'',
      ni_loopback_ipv4 = None, ni_loopback_ipv6 = None, ni_link_local = None, ni_ipv4_prefixes = [],
      ni_ipv6_prefixes = [],
      ni_base_template = \<lparr>bt_node = None, bt_runtime = Some (ds_runtime example_state), bt_bird = ds_bird example_state\<rparr>\<rparr>"

definition example_link :: interface_spec where
  "example_link = (hd (ds_interfaces example_state))\<lparr>if_wireguard_peer :=
     Some \<lparr>wireguard_peer.wp_public_key = ''AAAAAAAAAAAAAAAAAAAAAAAAAAAAAAAAAAAAAAAAAAA='', wp_preshared_key_ref = None,
           wireguard_peer.wp_endpoint = Some ''a.dn42:51820'', wp_allowed_ips = [''fe80::/64''],
           wp_persistent_keepalive_seconds = None\<rparr>\<rparr>"

text \<open>Two nodes, one of which has an internal link to the other.\<close>

definition example_nodes :: control where
  "example_nodes = foldl admin_step no_data [Create (example_node_in ''hk1''), Create (example_node_in ''jp1'')]"

definition example_tables :: control where
  "example_tables = example_nodes
     \<lparr>ct_peerings := [\<lparr>pe_id = 1, pe_local_node_id = ''jp1'', pe_remote_node_id = Some ''hk1'',
                       pe_name = ''hk1'', pe_remote_asn = 4242421234, pe_remote_label = None, pe_is_internal = True, pe_enabled = True\<rparr>],
      ct_wg := [\<lparr>wg_id = 1, wg_node_id = ''jp1'', wg_peering_id = Some 1, wg_enabled = True, wg_spec = example_link,
                 wg_sort_order = 0\<rparr>]\<rparr>"

definition example_key :: string where
  "example_key = ''BBBBAAAAAAAAAAAAAAAAAAAAAAAAAAAAAAAAAAAAAAA=''"

text \<open>The first report of a key republishes the peer.\<close>

definition example_reported :: control where
  "example_reported = admin_step example_tables (Report_Key ''hk1'' example_key None)"

lemma refines_tables:
  "refines L s \<Longrightarrow> ct_nodes t = ct_nodes s \<Longrightarrow> ct_generations t = ct_generations s \<Longrightarrow> refines L t"
  using refines_cong [of t s L] by (simp add: get_node_def)

lemma example_refines: "\<exists>L. refines L example_tables"
proof -
  obtain L where "refines L example_nodes"
    using database_steps [OF no_data_refines] unfolding example_nodes_def by blast
  then have "refines L example_tables" by (rule refines_tables) (simp_all add: example_tables_def)
  then show ?thesis by blast
qed

definition example_withdrawn :: "desired_state option res \<times> control" where
  "example_withdrawn = decommission_node ''jp1'' example_reported"

lemma example_reported_facts:
  "map generation_key (ct_generations example_reported) = [(''jp1'', 1)] \<and>
   map_option nr_public_key (get_node ''hk1'' example_reported) = Some (Some example_key) \<and>
   map (\<lambda>r. map (\<lambda>i. map_option wireguard_peer.wp_public_key (if_wireguard_peer i)) (ds_interfaces (gn_snapshot r)))
     (ct_generations example_reported) = [[Some example_key]]"
  by code_simp

lemma example_posted: "fst (post_wireguard_keys ''hk1'' example_key None example_tables) = Inr (Stored, [(''jp1'', 1)])"
  by code_simp

lemma example_withdrawn_facts: "case fst example_withdrawn of Inr (Some d) \<Rightarrow> ds_generation d = 2 | _ \<Rightarrow> False"
  by code_simp

lemma example_control_facts:
  "map generation_key (ct_generations example_reported) = [(''jp1'', 1)] \<and>
   map_option nr_public_key (get_node ''hk1'' example_reported) = Some (Some example_key) \<and>
   fst (post_wireguard_keys ''hk1'' example_key None example_tables) = Inr (Stored, [(''jp1'', 1)]) \<and>
   map (\<lambda>r. map (\<lambda>i. map_option wireguard_peer.wp_public_key (if_wireguard_peer i)) (ds_interfaces (gn_snapshot r)))
     (ct_generations example_reported) = [[Some example_key]] \<and>
   (case fst example_withdrawn of Inr (Some d) \<Rightarrow> ds_generation d = 2 | _ \<Rightarrow> False)"
  using example_reported_facts example_posted example_withdrawn_facts by blast

section \<open>The retention window\<close>

interpretation admin: invariant_machine admin_step "\<lambda>s. \<exists>L. refines L s"
  by unfold_locales (metis database_steps foldl_Cons foldl_Nil)

lemma refines_bound:
  assumes "refines L s"
  shows "length (filter (\<lambda>r. gn_node_id r = n) (ct_generations s)) \<le> nat DEFAULT_GENERATION_RETENTION"
proof -
  let ?rows = "filter (\<lambda>r. gn_node_id r = n) (ct_generations s)"
  let ?w = "\<lambda>h. {int (length h) - DEFAULT_GENERATION_RETENTION <.. int (length h)}"
  have "distinct (map generation_key ?rows)" using assms by (simp add: refines_def distinct_map_filter)
  moreover have "map generation_key ?rows = map (Pair n) (map gn_generation ?rows)"
    by (simp add: generation_key_def)
  ultimately have d: "distinct (map gn_generation ?rows)" by (metis distinct_map)
  have "set (map gn_generation ?rows) \<subseteq> (case L n of None \<Rightarrow> {} | Some h \<Rightarrow> ?w h)"
  proof
    fix g assume "g \<in> set (map gn_generation ?rows)"
    then have "get_generation n g s \<noteq> None" by (auto simp: get_generation_None generation_key_def)
    then have "logged_state L n g \<noteq> None" using refines_generation [OF assms, of n g] by (metis option.map_disc_iff)
    then show "g \<in> (case L n of None \<Rightarrow> {} | Some h \<Rightarrow> ?w h)"
      by (auto simp: logged_state_def retained_def split: option.splits if_splits)
  qed
  then have "card (set (map gn_generation ?rows)) \<le> card (case L n of None \<Rightarrow> {} | Some h \<Rightarrow> ?w h)"
    by (intro card_mono) (auto split: option.split)
  also have "\<dots> \<le> nat DEFAULT_GENERATION_RETENTION" by (simp split: option.split)
  finally show ?thesis using distinct_card [OF d] by simp
qed

text \<open>C24: the generations table is bounded and never loses the state it serves.  After any sequence of
  requests from an empty database a node has at most one hundred stored generations, and the one its
  pointer names is among them.\<close>

theorem retention_window:
  "length (filter (\<lambda>r. gn_node_id r = n) (ct_generations (foldl admin_step no_data ops))) \<le> 100 \<and>
   (\<forall>node. get_node n (foldl admin_step no_data ops) = Some node \<longrightarrow> 0 < nr_generation node \<longrightarrow>
      get_generation n (nr_generation node) (foldl admin_step no_data ops) \<noteq> None)"
proof -
  let ?s = "foldl admin_step no_data ops"
  obtain L where R: "refines L ?s" using admin.run_inv no_data_refines by blast
  have "get_generation n (nr_generation node) ?s \<noteq> None" if node: "get_node n ?s = Some node" "0 < nr_generation node" for node
  proof -
    obtain h where h: "L n = Some h" "nr_generation node = int (length h)" using refines_log [OF R node(1)] .
    have "logged_state L n (nr_generation node) \<noteq> None"
      using h node(2) by (simp add: logged_state_def retained_def DEFAULT_GENERATION_RETENTION_def Suc_le_eq)
    then show ?thesis using refines_generation [OF R, of n "nr_generation node"] by auto
  qed
  then show ?thesis using refines_bound [OF R, of n] by (simp add: DEFAULT_GENERATION_RETENTION_def)
qed

section \<open>Keys\<close>

definition key_of :: "string \<Rightarrow> control \<Rightarrow> string option" where
  "key_of n s = (case get_node n s of None \<Rightarrow> None | Some node \<Rightarrow> nr_public_key node)"

definition keeps_key :: "string \<Rightarrow> control \<Rightarrow> control \<Rightarrow> bool" where
  "keeps_key n s t \<longleftrightarrow> (\<forall>k. key_of n s = Some k \<longrightarrow> key_of n t = Some k)"

lemma keeps_key_publish:
  assumes "get_node m s = Some node"
  shows "keeps_key n s (snd (publish_generation node g d reason keep s))"
proof (cases "publish_generation node g d reason keep s")
  case (Pair r t)
  show ?thesis
  proof (cases r)
    case (Inl e)
    then have "t = s" using Pair by (auto simp: publish_generation_def split: if_splits)
    then show ?thesis using Pair by (simp add: keeps_key_def)
  next
    case (Inr u)
    then show ?thesis
      using Pair assms get_node_after_publish [of node g d reason keep s t n] get_node_key [OF assms]
      by (auto simp: keeps_key_def key_of_def split: option.splits)
  qed
qed

interpretation keys: write_path "keeps_key n" UNIV for n
proof
  fix s t u :: control and m row node d0 d reason
  show "keeps_key n s s" "keeps_key n s t \<Longrightarrow> keeps_key n t u \<Longrightarrow> keeps_key n s u"
    by (simp_all add: keeps_key_def)
  show "get_node m s = Some node \<Longrightarrow>
    keeps_key n s (snd (publish_generation node (nr_generation node + 1) d reason DEFAULT_GENERATION_RETENTION s))"
    by (rule keeps_key_publish)
  show "get_node (nr_node_id row) s = Some node \<Longrightarrow>
    nr_public_key node = None \<or> nr_public_key row = nr_public_key node \<Longrightarrow> keeps_key n s (put_node row s)"
    by (auto simp: keeps_key_def key_of_def nodes.get_put)
  show "keeps_key n s (put_node (node\<lparr>nr_dns_group_id := gid\<rparr>) s)" if "get_node m s = Some node" for gid
    using that get_node_key [OF that] by (auto simp: keeps_key_def key_of_def nodes.get_put)
  show "ct_nodes t = ct_nodes s \<Longrightarrow> keeps_key n s t" by (simp add: keeps_key_def key_of_def get_node_def)
  show "get_node (nr_node_id row) s = None \<Longrightarrow> keeps_key n s (put_node row s)"
    by (auto simp: keeps_key_def key_of_def nodes.get_put)
qed

lemma get_node_delete: "get_node m (delete_cascade n s) = (if m = n then None else get_node m s)"
proof -
  have "get_node m (delete_cascade n s) = get_node m (del_node n s)"
    by (simp add: delete_cascade_def Let_def get_node_def)
  then show ?thesis using nodes.get_del by simp
qed

text \<open>C32: a WireGuard key is recorded once.  While the node exists, no sequence of requests, its own key
  reports included, replaces the key the server recorded for it first.\<close>

theorem recorded_key_never_replaced:
  assumes "key_of n s = Some k" "Delete n \<notin> set ops"
  shows "key_of n (foldl admin_step s ops) = Some k"
proof -
  have "keeps_key n s (delete_cascade m s)" if "Delete m \<in> set ops" for m s
    using that assms(2) by (auto simp: keeps_key_def key_of_def get_node_delete)
  then show ?thesis using keys.admin_steps [of ops n s] assms(1) by (simp add: keeps_key_def)
qed

theorem recorded_key_never_replaced_witness:
  "key_of ''hk1'' (foldl admin_step example_reported [Report_Key ''hk1'' ''other'' None, Decommission ''hk1'']) = Some example_key"
  by (rule recorded_key_never_replaced)
     (use example_control_facts in \<open>auto simp: key_of_def split: option.splits\<close>)

section \<open>Withdrawing a node\<close>

lemma set_lifecycle_cases:
  assumes R: "refines L s" and m: "set_lifecycle n lifecycle reason s = (Inr st, t)"
  obtains (unpublished) node where "L n = Some []" "st = None" "get_node n t = Some (node\<lparr>nr_lifecycle := lifecycle\<rparr>)"
    | (published) node h d where "L n = Some h" "h \<noteq> []" "st = Some d" "refines (L(n \<mapsto> h @ [d])) t"
        "get_node n t = Some (node\<lparr>nr_lifecycle := lifecycle, nr_generation := int (length h) + 1\<rparr>)"
        "rbind (assembled (put_node (node\<lparr>nr_lifecycle := lifecycle\<rparr>) s) (node\<lparr>nr_lifecycle := lifecycle\<rparr>)
           (int (length h) + 1)) model_validate_state = Inr d" "ds_generation d = int (length h) + 1"
        "ct_wg t = ct_wg s" "ct_bgp t = ct_bgp s"
proof -
  have t: "with_node n (\<lambda>node. let row = node\<lparr>nr_lifecycle := lifecycle\<rparr> in
       seq (modify (put_node row)) (\<lambda>_. republish row reason)) s = (Inr st, t)"
    using m unfolding set_lifecycle_def transaction_Inr .
  then obtain node where node: "get_node n s = Some node" by (auto simp: with_node_def split: option.splits)
  define row where "row = node\<lparr>nr_lifecycle := lifecycle\<rparr>"
  have id: "nr_node_id row = n" "nr_generation row = nr_generation node"
    using get_node_key [OF node] by (simp_all add: row_def)
  let ?s = "put_node row s"
  have rep: "republish row reason ?s = (Inr st, t)"
    using t node by (simp add: with_node_def seq_def row_def Let_def)
  have row: "get_node n ?s = Some row" using nodes.get_put_same [of row s] id by simp
  have "refines L ?s = refines L s"
  proof (rule refines_cong)
    show "map_option nr_generation (get_node m ?s) = map_option nr_generation (get_node m s)" for m
      using node id by (simp add: nodes.get_put)
    show "ct_generations ?s = ct_generations s" by (simp add: put_node_def)
  qed
  then have R': "refines L ?s" using R by simp
  obtain h where h: "L n = Some h" "nr_generation node = int (length h)" using refines_log [OF R node] .
  show thesis
  proof (cases "h = []")
    case True
    then have "st = None" "t = ?s" using rep h id by (simp_all add: republish_def)
    then show thesis using unpublished [of node] h(1) True row by (simp add: row_def)
  next
    case False
    obtain r u where mat: "materialize n (Some reason) DEFAULT_GENERATION_RETENTION ?s = (r, u)" by fastforce
    have out: "r = Inr (Some d) \<and> u = t \<and> st = Some d" if "r = Inr (Some d)" for d
      using rep mat that id h False by (simp add: republish_def materialize_change_def seq_def catching_def)
    show thesis
    proof (rule materialize_cases [OF R' mat])
      assume "L n = None" then show thesis using h by simp
    next
      fix e assume "r = Inl e"
      then show thesis using rep mat id h False by (simp add: republish_def materialize_change_def seq_def catching_def)
    next
      fix node' h' d
      assume a: "get_node n ?s = Some node'" "L n = Some h'" "nr_generation node' = int (length h')"
        "rbind (assembled ?s node' (int (length h') + 1)) model_validate_state = Inr d" "r = Inr (Some d)"
        "ds_generation d = int (length h') + 1" "refines (L(n \<mapsto> h' @ [d])) u"
        "\<And>m. get_node m u = (if m = n then Some (node'\<lparr>nr_generation := int (length h') + 1\<rparr>) else get_node m ?s)"
        "u = ?s\<lparr>ct_nodes := ct_nodes u, ct_generations := ct_generations u\<rparr>"
      have e: "node' = row" "h' = h" "u = t" "st = Some d" using a(1,2) row h out [OF a(5)] by auto
      have tables: "ct_wg t = ct_wg s" "ct_bgp t = ct_bgp s"
        using arg_cong [OF a(9), of ct_wg] arg_cong [OF a(9), of ct_bgp] e(3) by (simp_all add: put_node_def)
      have node_t: "get_node n t = Some (node\<lparr>nr_lifecycle := lifecycle, nr_generation := int (length h) + 1\<rparr>)"
        using a(8) [of n] e by (simp add: row_def)
      show thesis
        by (rule published [OF h(1) False e(4) _ node_t _ _ tables]) (use a(4,6,7) e in \<open>simp_all add: row_def\<close>)
    qed
  qed
qed

lemma assembled_gone:
  assumes "nr_lifecycle node = ''decommissioned''" "assembled s node g = Inr d"
  shows "ds_interfaces d = []" "ds_bgp_sessions d = []" "ds_dns d = None"
  using assms by (auto simp: assembled_def assemble_snapshot_def Let_def rbind_Inr_iff split: option.splits)

lemma validated_gone:
  assumes "ds_interfaces d = []" "ds_bgp_sessions d = []" "ds_dns d = None" "model_validate_state d = Inr e"
  shows "ds_interfaces e = []" "ds_bgp_sessions e = []" "ds_dns e = None"
proof -
  note f = model_validate_frame [OF assms(4)]
  show "ds_bgp_sessions e = []" "ds_dns e = None" using f(3,4) assms(2,3) by (simp_all add: parsed_dns_def)
  have "validate_references (d\<lparr>ds_dns := None\<rparr>) = Inr e"
    using assms(3,4) by (auto simp: model_validate_state_def parsed_dns_def rbind_Inr_iff checks_Inr)
  then obtain s1 where s1: "only_services (d\<lparr>ds_dns := None\<rparr>) s1" "normalize_dns_anycast s1 = Inr e"
    using validate_references_steps by metis
  note o = only_services_simps [OF s1(1)]
  have "anycast_addresses s1 = []" using o(6) by (simp add: anycast_addresses_def)
  then show "ds_interfaces e = []"
    using anycast_step [OF s1(2)] o(3) assms(1) by (auto simp: anycast_of_def other_interfaces_def)
qed

text \<open>C30: decommissioning withdraws a node.  When the request succeeds, the node is marked and, if it had
  ever been published, a new generation without any interface, BGP session or DNS service is what it is
  served from then on; its configuration rows stay, and a failing request changes nothing.\<close>

theorem decommission_withdraws:
  assumes "refines L s" "decommission_node n s = (r, t)"
  shows "case r of
      Inl e \<Rightarrow> t = s
    | Inr None \<Rightarrow> L n = Some [] \<and> map_option nr_lifecycle (get_node n t) = Some ''decommissioned''
    | Inr (Some d) \<Rightarrow>
        ds_interfaces d = [] \<and> ds_bgp_sessions d = [] \<and> ds_dns d = None \<and>
        (\<exists>h. L n = Some h \<and> ds_generation d = int (length h) + 1 \<and> refines (L(n \<mapsto> h @ [d])) t) \<and>
        map_option nr_lifecycle (get_node n t) = Some ''decommissioned'' \<and> ct_wg t = ct_wg s \<and> ct_bgp t = ct_bgp s"
proof (cases r)
  case (Inl e)
  then show ?thesis using assms(2) transaction_Inl unfolding decommission_node_def set_lifecycle_def by fastforce
next
  case (Inr st)
  have "set_lifecycle n ''decommissioned'' ''node decommissioned'' s = (Inr st, t)"
    using assms(2) Inr by (simp add: decommission_node_def)
  then show ?thesis
  proof (cases rule: set_lifecycle_cases [OF assms(1), consumes 1, case_names unpublished published])
    case (unpublished node)
    then show ?thesis using Inr by simp
  next
    case (published node h d)
    obtain d0 where d0: "assembled (put_node (node\<lparr>nr_lifecycle := ''decommissioned''\<rparr>) s)
        (node\<lparr>nr_lifecycle := ''decommissioned''\<rparr>) (int (length h) + 1) = Inr d0" "model_validate_state d0 = Inr d"
      using published(6) unfolding rbind_Inr_iff by blast
    note g = assembled_gone [OF _ d0(1)]
    show ?thesis using Inr published validated_gone [OF g d0(2)] by simp
  qed
qed

theorem decommission_withdraws_witness:
  "\<exists>d t. example_withdrawn = (Inr (Some d), t) \<and> ds_interfaces d = [] \<and> ds_generation d = 2"
proof -
  obtain L where L: "refines L example_reported"
    using example_refines database_steps [of _ example_tables "[Report_Key ''hk1'' example_key None]"]
    by (auto simp: example_reported_def)
  obtain r t where w: "example_withdrawn = (r, t)" by (cases example_withdrawn)
  have "case r of Inr (Some d) \<Rightarrow> ds_generation d = 2 | _ \<Rightarrow> False"
    using example_control_facts [THEN conjunct2, THEN conjunct2, THEN conjunct2, THEN conjunct2] unfolding w fst_conv .
  then obtain d where d: "r = Inr (Some d)" "ds_generation d = 2" by (auto split: sum.splits option.splits)
  have "ds_interfaces d = []" using decommission_withdraws [OF L w [unfolded example_withdrawn_def]] d(1) by simp
  then show ?thesis using w d by blast
qed

theorem stored_states_well_typed_witness:
  "\<exists>r\<in>set (ct_generations example_reported). wf_state (gn_snapshot r)"
proof -
  have "ct_generations example_reported \<noteq> []" using example_control_facts by auto
  then obtain r where r: "r \<in> set (ct_generations example_reported)" by (cases "ct_generations example_reported") auto
  have "ct_generations example_tables = []"
    by (simp add: example_tables_def example_nodes_def admin_step_def no_data_def create_node_def unit_of_def seq_def
        transaction_def get_node_def put_node_def row_get_def)
  then have "\<forall>r\<in>set (ct_generations example_tables). wf_state (gn_snapshot r)" by simp
  moreover have "r \<in> set (ct_generations (foldl admin_step example_tables [Report_Key ''hk1'' example_key None]))"
    using r by (simp add: example_reported_def)
  ultimately have "wf_state (gn_snapshot r)" by (rule stored_states_well_typed)
  then show ?thesis using r by blast
qed

theorem retention_window_witness:
  "length (filter (\<lambda>r. gn_node_id r = ''hk1'') (ct_generations (foldl admin_step no_data [Create (example_node_in ''hk1'')]))) \<le> 100"
  using retention_window by blast

section \<open>What deletion leaves behind\<close>

text \<open>An enrollment ticket that was bound to a node is, once the node is deleted, a ticket for any node.\<close>

lemma deleting_unbinds_tickets:
  assumes "tk \<in> set (ct_tickets s)" "et_node_id tk = Some n"
  shows "tk\<lparr>et_node_id := None\<rparr> \<in> set (ct_tickets (delete_cascade n s))"
  using assms by (force simp: delete_cascade_def Let_def)

text \<open>A cached snapshot survives the deletion of its node: a new node of the same name is served it once it
  reaches the number the entry was stored under.\<close>

lemma recreated_node_served_old_state:
  assumes "map_of c (ds_cache_key n 1) = Some old" "model_validate_state old = Inr old"
    and "get_node n db = Some node" "nr_generation node = 1"
  shows "desired_state_get (True, w) n \<lparr>sr_db = db, sr_cache = c\<rparr> = (Inr (Some old), \<lparr>sr_db = db, sr_cache = c\<rparr>)"
  using assms by (simp add: desired_state_get_def Let_def seq_def)

end
