(* ===== verification/Credentials.thy ===== *)
theory Credentials
  imports Write_Path
begin

text \<open>
  The credentials of the control server: agent tokens (\<open>services/tokens.py\<close>), enrollment tickets
  (\<open>services/enrollment.py\<close>) and their admin handlers.  SHA-256 is an argument \<open>h\<close>, what
  \<open>secrets\<close> draws is an argument (the hexadecimal part and the url-safe part), the clock is an argument.
\<close>

section \<open>The shape of a literal token\<close>

definition is_token_char :: "char \<Rightarrow> bool" where
  "is_token_char c \<longleftrightarrow> is_alnum c \<or> c = CHR ''_'' \<or> c = CHR ''-''"

definition validate_agent_token :: "string \<Rightarrow> string res" where
  "validate_agent_token v =
     checks
       [(length v < 22, ValueError ''agent token must be at least 22 characters of base64url''),
        (512 < length v, ValueError ''agent token must be at most 512 characters''),
        (\<not> (v \<noteq> [] \<and> list_all is_token_char v),
         ValueError ''agent token contains characters outside the base64url alphabet'')] v"

definition is_agent_token :: "string \<Rightarrow> bool" where
  "is_agent_token v = (case validate_agent_token v of Inl _ \<Rightarrow> False | Inr _ \<Rightarrow> True)"

section \<open>Agent tokens\<close>

type_synonym entropy = "string \<times> string"

definition expired :: "int \<Rightarrow> int option \<Rightarrow> bool" where
  "expired now expires_at = (case expires_at of None \<Rightarrow> False | Some t \<Rightarrow> t \<le> now)"

record principal =
  pr_token :: string
  pr_node_id :: string

record issued_token =
  is_token_id :: string
  is_secret :: string
  is_node_id :: string
  is_agent_id :: string

text \<open>The id and the secret of a new token: derived from a literal, drawn otherwise.\<close>

definition mint :: "(string \<Rightarrow> string) \<Rightarrow> string \<Rightarrow> entropy \<Rightarrow> string option \<Rightarrow> string \<times> string" where
  "mint literal_id prefix rnd token =
     (case token of
        Some t \<Rightarrow> (literal_id t, t)
      | None \<Rightarrow> (prefix @ fst rnd, prefix @ fst rnd @ ''.'' @ snd rnd))"

definition issue_detailed ::
  "digest \<Rightarrow> entropy \<Rightarrow> string \<Rightarrow> string option \<Rightarrow> string option \<Rightarrow> int option \<Rightarrow> (control, issued_token) eff" where
  "issue_detailed h rnd node_id token agent_id expires_at =
     (let (i, secret) = mint (literal_token_id h) ''agt_'' rnd token;
          agent = (if truthy agent_id then or_empty agent_id else agent_id_for node_id) in
      transaction (seq
        (write_token \<lparr>at_token = i, at_hash = h secret, at_node_id = node_id, at_agent_id = agent,
                      at_expires_at = expires_at, at_revoked_at = None\<rparr>)
        (\<lambda>_. ret \<lparr>is_token_id = i, is_secret = secret, is_node_id = node_id, is_agent_id = agent\<rparr>)))"

definition issue_token :: "digest \<Rightarrow> entropy \<Rightarrow> string \<Rightarrow> string option \<Rightarrow> (control, string) eff" where
  "issue_token h rnd node_id token = seq (issue_detailed h rnd node_id token None None) (\<lambda>i. ret (is_secret i))"

definition token_by_hash :: "string \<Rightarrow> control \<Rightarrow> agent_token option" where
  "token_by_hash x s = find (\<lambda>r. at_hash r = x) (ct_tokens s)"

definition resolve :: "digest \<Rightarrow> int \<Rightarrow> string \<Rightarrow> control \<Rightarrow> principal option" where
  "resolve h now token s =
     (case token_by_hash (h token) s of
        None \<Rightarrow> None
      | Some r \<Rightarrow>
          if at_revoked_at r \<noteq> None then None
          else if expired now (at_expires_at r) then None
          else Some \<lparr>pr_token = token, pr_node_id = at_node_id r\<rparr>)"

definition revoke :: "digest \<Rightarrow> string \<Rightarrow> (control, unit) eff" where
  "revoke h token =
     transaction (reading (\<lambda>s.
       case (case get_token (before_first (CHR ''.'') token) s of
               None \<Rightarrow> token_by_hash (h token) s
             | Some r \<Rightarrow> Some r) of
         None \<Rightarrow> ret ()
       | Some r \<Rightarrow> modify (del_token (at_token r))))"

text \<open>Two transactions: the old token is gone before the new one is issued.\<close>

definition rotate ::
  "digest \<Rightarrow> entropy \<Rightarrow> string \<Rightarrow> string option \<Rightarrow> int option \<Rightarrow> (control, issued_token option) eff" where
  "rotate h rnd token_id agent_id expires_at =
     reading (\<lambda>s.
       case get_token token_id s of
         None \<Rightarrow> ret None
       | Some r \<Rightarrow>
           seq (modify (del_token token_id)) (\<lambda>_.
           seq (issue_detailed h rnd (at_node_id r) None
                  (if truthy agent_id then agent_id else Some (at_agent_id r)) expires_at)
               (\<lambda>i. ret (Some i))))"

subsection \<open>The admin handlers\<close>

definition ttl_to_expiry :: "int \<Rightarrow> int option \<Rightarrow> int option" where
  "ttl_to_expiry now ttl = map_option (\<lambda>t. now + t) ttl"

definition issue_node_token ::
  "digest \<Rightarrow> entropy \<Rightarrow> int \<Rightarrow> string \<Rightarrow> string option \<Rightarrow> string option \<Rightarrow> int option \<Rightarrow> (control, issued_token) eff" where
  "issue_node_token h rnd now node_id token agent_id ttl =
     seq (case token of
            None \<Rightarrow> ret ()
          | Some t \<Rightarrow> if is_agent_token t then ret ()
                      else lift_res (Inl (HTTPException 400 ''invalid agent token shape''))) (\<lambda>_.
     seq (with_node node_id (\<lambda>_. ret ())) (\<lambda>_.
     issue_detailed h rnd node_id token agent_id (ttl_to_expiry now ttl)))"

definition rotate_token :: "digest \<Rightarrow> entropy \<Rightarrow> int \<Rightarrow> string \<Rightarrow> int option \<Rightarrow> (control, issued_token) eff" where
  "rotate_token h rnd now token_id ttl =
     seq (rotate h rnd token_id None (ttl_to_expiry now ttl)) (\<lambda>i. case i of
        None \<Rightarrow> lift_res (Inl (HTTPException 404 (''unknown token '' @ token_id)))
      | Some i \<Rightarrow> ret i)"

section \<open>Enrollment tickets\<close>

definition enrollment_token_id :: "digest \<Rightarrow> string \<Rightarrow> string" where
  "enrollment_token_id h secret = ''ent_'' @ take 12 (h secret)"

record grant =
  gt_token_id :: string
  gt_node_id :: "string option"

definition write_ticket :: "enrollment_token \<Rightarrow> (control, unit) eff" where
  "write_ticket r =
     reading (\<lambda>s.
       if list_ex (\<lambda>x. et_token x = et_token r) (ct_tickets s)
       then lift_res (Inl (IntegrityError ''enrollment_tokens.token''))
       else if list_ex (\<lambda>x. et_hash x = et_hash r) (ct_tickets s)
       then lift_res (Inl (IntegrityError ''enrollment_tokens.token_hash''))
       else if (case et_node_id r of None \<Rightarrow> False | Some n \<Rightarrow> get_node n s = None)
       then lift_res (Inl (IntegrityError ''enrollment_tokens.node_id''))
       else modify (put_ticket r))"

definition create_ticket ::
  "digest \<Rightarrow> entropy \<Rightarrow> string option \<Rightarrow> string option \<Rightarrow> int option \<Rightarrow> (control, string \<times> string) eff" where
  "create_ticket h rnd token node_id expires_at =
     (let (i, secret) = mint (enrollment_token_id h) ''ent_'' rnd token in
      transaction (seq
        (write_ticket \<lparr>et_token = i, et_hash = h secret, et_node_id = node_id, et_expires_at = expires_at,
                       et_used_at = None\<rparr>)
        (\<lambda>_. ret (i, secret))))"

definition ticket_by_hash :: "string \<Rightarrow> control \<Rightarrow> enrollment_token option" where
  "ticket_by_hash x s = find (\<lambda>r. et_hash r = x) (ct_tickets s)"

definition resolve_ticket :: "digest \<Rightarrow> int \<Rightarrow> string \<Rightarrow> control \<Rightarrow> grant option" where
  "resolve_ticket h now secret s =
     (case ticket_by_hash (h secret) s of
        None \<Rightarrow> None
      | Some r \<Rightarrow>
          if et_used_at r \<noteq> None \<or> expired now (et_expires_at r) then None
          else Some \<lparr>gt_token_id = et_token r, gt_node_id = et_node_id r\<rparr>)"

definition mark_used :: "int \<Rightarrow> string \<Rightarrow> control \<Rightarrow> control" where
  "mark_used now token_id s =
     (case get_ticket token_id s of
        None \<Rightarrow> s
      | Some r \<Rightarrow> if et_used_at r = None then put_ticket (r\<lparr>et_used_at := Some now\<rparr>) s else s)"

definition delete_ticket :: "string \<Rightarrow> control \<Rightarrow> control" where
  "delete_ticket token_id s = (if get_ticket token_id s = None then s else del_ticket token_id s)"

definition create_enrollment_token ::
  "digest \<Rightarrow> entropy \<Rightarrow> string option \<Rightarrow> string option \<Rightarrow> int option \<Rightarrow> (control, string \<times> string) eff" where
  "create_enrollment_token h rnd token node_id expires_at =
     seq (case token of
            None \<Rightarrow> ret ()
          | Some t \<Rightarrow> if is_agent_token t then ret ()
                      else lift_res (Inl (HTTPException 400 ''invalid enrollment token shape''))) (\<lambda>_.
     seq (reading (\<lambda>s.
            if (case token of None \<Rightarrow> False | Some t \<Rightarrow> get_ticket (enrollment_token_id h t) s \<noteq> None)
            then lift_res (Inl (HTTPException 409 ''enrollment token already exists''))
            else if (case node_id of None \<Rightarrow> False | Some n \<Rightarrow> get_node n s = None)
            then lift_res (Inl (HTTPException 400 (''unknown node '' @ or_empty node_id)))
            else ret ())) (\<lambda>_.
     create_ticket h rnd token node_id expires_at))"

section \<open>What the write path does to credentials\<close>

text \<open>Publishing and editing leave the credentials alone; deleting a node removes its tokens and unbinds
  its tickets.\<close>

definition unbinds :: "(enrollment_token \<Rightarrow> enrollment_token) \<Rightarrow> bool" where
  "unbinds f \<longleftrightarrow> (\<forall>r. f r = r \<or> f r = r\<lparr>et_node_id := None\<rparr>)"

definition thins :: "control \<Rightarrow> control \<Rightarrow> bool" where
  "thins s t \<longleftrightarrow> (\<exists>P. ct_tokens t = filter P (ct_tokens s)) \<and> ct_pending t = ct_pending s \<and>
     (\<exists>f. unbinds f \<and> ct_tickets t = map f (ct_tickets s))"

lemma thins_same: "credentials t = credentials s \<Longrightarrow> thins s t"
  unfolding thins_def unbinds_def credentials_def
  by (intro conjI exI [of _ "\<lambda>_. True"] exI [of _ "\<lambda>r. r"]) auto

lemma unbinds_comp: "unbinds f \<Longrightarrow> unbinds g \<Longrightarrow> unbinds (g \<circ> f)"
  unfolding unbinds_def comp_def
  by (metis (no_types, lifting) enrollment_token.simps(11) enrollment_token.update_convs(3) enrollment_token.surjective)

lemma credentials_put_node [simp]: "credentials (put_node r s) = credentials s"
  by (simp add: credentials_def put_node_def)

lemma credentials_publish: "credentials (snd (publish_generation node g d reason keep s)) = credentials s"
  by (simp add: publish_generation_def Let_def credentials_def put_node_def)

interpretation creds: write_path thins UNIV
proof
  fix s t u :: control and n row node d0 d reason
  show "thins s s" by (rule thins_same) simp
  show "thins s u" if st: "thins s t" and tu: "thins t u"
  proof -
    obtain P f where s: "ct_tokens t = filter P (ct_tokens s)" "unbinds f" "ct_tickets t = map f (ct_tickets s)"
      using st unfolding thins_def by blast
    obtain Q g where t: "ct_tokens u = filter Q (ct_tokens t)" "unbinds g" "ct_tickets u = map g (ct_tickets t)"
      using tu unfolding thins_def by blast
    have "ct_tokens u = filter (\<lambda>r. P r \<and> Q r) (ct_tokens s)" using s t by (simp add: conj_commute)
    moreover have "ct_tickets u = map (g \<circ> f) (ct_tickets s)" using s t by simp
    moreover have "ct_pending u = ct_pending s" using st tu by (simp add: thins_def)
    ultimately show ?thesis unfolding thins_def using unbinds_comp [OF s(2) t(2)] by blast
  qed
  show "thins s (snd (publish_generation node (nr_generation node + 1) d reason DEFAULT_GENERATION_RETENTION s))"
    by (rule thins_same) (rule credentials_publish)
  show "thins s (put_node row s)" "thins s (put_node row s)" "thins s (put_node (node\<lparr>nr_dns_group_id := gid\<rparr>) s)" for gid
    by (simp_all add: thins_same)
  show "credentials t = credentials s \<Longrightarrow> thins s t" by (rule thins_same)
qed

lemma thins_delete: "thins s (delete_cascade n s)"
proof -
  have "unbinds (\<lambda>r. if et_node_id r = Some n then r\<lparr>et_node_id := None\<rparr> else r)" by (simp add: unbinds_def)
  then show ?thesis unfolding thins_def by (auto simp: delete_cascade_def Let_def del_node_def)
qed

lemma thins_admin: "thins s (admin_step s op)"
  using creds.admin_steps [of "[op]" s] thins_delete by simp

section \<open>The token table against the log of issued tokens\<close>

text \<open>Every row carries the hash and the node of an entry of the log \<open>J\<close>.\<close>

definition booked :: "(string \<times> string) set \<Rightarrow> control \<Rightarrow> bool" where
  "booked J s \<longleftrightarrow> distinct (map at_token (ct_tokens s)) \<and> distinct (map at_hash (ct_tokens s)) \<and>
     (\<forall>r\<in>set (ct_tokens s). (at_hash r, at_node_id r) \<in> J)"

lemma booked_mono: "booked J s \<Longrightarrow> J \<subseteq> J' \<Longrightarrow> booked J' s"
  unfolding booked_def by blast

lemma booked_filter:
  "booked J s \<Longrightarrow> ct_tokens t = filter P (ct_tokens s) \<Longrightarrow> booked J t"
  by (simp add: booked_def distinct_map_filter)

lemma booked_thins: "booked J s \<Longrightarrow> thins s t \<Longrightarrow> booked J t"
  unfolding thins_def using booked_filter by blast

lemma booked_delete: "booked J s \<Longrightarrow> booked J (del_token i s)"
  by (rule booked_filter) (simp_all add: del_token_def row_del_def)

lemma distinct_row_put_by:
  assumes "distinct (map key rs)" "distinct (map f rs)" "\<And>x. x \<in> set rs \<Longrightarrow> f x = f r \<Longrightarrow> key x = key r"
  shows "distinct (map f (row_put key r rs))"
  using assms
proof (induction rs)
  case (Cons x xs)
  show ?case
  proof (cases "key x = key r")
    case True
    have "f r \<notin> f ` set xs"
    proof
      assume "f r \<in> f ` set xs"
      then obtain y where y: "y \<in> set xs" "f y = f r" by (metis imageE)
      then have "key y = key x" using Cons.prems(3) [of y] True by simp
      then show False using y(1) Cons.prems(1) by (metis distinct.simps(2) image_eqI list.set_map list.simps(9))
    qed
    then show ?thesis using True Cons.prems by simp
  next
    case False
    then have "f x \<noteq> f r" using Cons.prems(3) by auto
    moreover have "f x \<notin> f ` set xs" using Cons.prems(2) by simp
    ultimately have "f x \<notin> f ` set (row_put key r xs)" using set_row_put [of key r xs] by auto
    moreover have "distinct (map f (row_put key r xs))" using Cons by simp
    ultimately show ?thesis using False by simp
  qed
qed simp

lemma write_token_cases:
  assumes "write_token r s = (x, t)"
  obtains e where "x = Inl e" "t = s"
  | node where "x = Inr ()" "t = put_token r s" "get_node (at_node_id r) s = Some node"
    "\<And>y. y \<in> set (ct_tokens s) \<Longrightarrow> at_hash y = at_hash r \<Longrightarrow> at_token y = at_token r"
proof (cases "list_ex (\<lambda>x. at_hash x = at_hash r \<and> at_token x \<noteq> at_token r) (ct_tokens s) \<or> get_node (at_node_id r) s = None")
  case True
  then have "isl x \<and> t = s" using assms by (auto simp: write_token_def split: if_splits)
  then show ?thesis using that(1) by (cases x) simp_all
next
  case False
  then have "x = Inr ()" "t = put_token r s" using assms by (auto simp: write_token_def)
  then show ?thesis using that(2) False by (auto simp: list_ex_iff)
qed

lemma issue_detailed_cases:
  assumes "issue_detailed h rnd n token agent e s = (x, t)"
  obtains f where "x = Inl f" "t = s"
  | i r node where "x = Inr i" "t = put_token r s" "get_node n s = Some node"
    "r = \<lparr>at_token = is_token_id i, at_hash = h (is_secret i), at_node_id = n, at_agent_id = is_agent_id i,
          at_expires_at = e, at_revoked_at = None\<rparr>"
    "is_node_id i = n" "(is_token_id i, is_secret i) = mint (literal_token_id h) ''agt_'' rnd token"
    "\<And>y. y \<in> set (ct_tokens s) \<Longrightarrow> at_hash y = h (is_secret i) \<Longrightarrow> at_token y = is_token_id i"
proof -
  obtain i sec where m: "mint (literal_token_id h) ''agt_'' rnd token = (i, sec)" by fastforce
  define ag where "ag = (if truthy agent then or_empty agent else agent_id_for n)"
  define r where "r = \<lparr>at_token = i, at_hash = h sec, at_node_id = n, at_agent_id = ag, at_expires_at = e, at_revoked_at = None\<rparr>"
  define issued where "issued = \<lparr>is_token_id = i, is_secret = sec, is_node_id = n, is_agent_id = ag\<rparr>"
  have run: "issue_detailed h rnd n token agent e s = transaction (seq (write_token r) (\<lambda>_. ret issued)) s"
    using m by (simp add: issue_detailed_def r_def issued_def ag_def Let_def)
  obtain y u where w: "write_token r s = (y, u)" by fastforce
  show ?thesis
  proof (cases rule: write_token_cases [OF w])
    case (1 f)
    then have "x = Inl f" "t = s" using assms run w by (simp_all add: transaction_def seq_def)
    then show ?thesis by (rule that(1))
  next
    case (2 node)
    then have "x = Inr issued" "t = put_token r s" using assms run w by (simp_all add: transaction_def seq_def)
    then show ?thesis using that(2) [of issued r node] 2(3,4) m by (simp add: r_def issued_def)
  qed
qed

lemma booked_issue:
  assumes "booked J s" "issue_detailed h rnd n token agent e s = (x, t)"
  shows "booked (case x of Inl _ \<Rightarrow> J | Inr i \<Rightarrow> insert (h (is_secret i), is_node_id i) J) t"
  using assms(2)
proof (cases rule: issue_detailed_cases)
  case (1 f)
  then show ?thesis using assms(1) by simp
next
  case (2 i r node)
  have tt: "ct_tokens t = row_put at_token r (ct_tokens s)" using 2(2) by (simp add: put_token_def)
  have d: "distinct (map at_token (row_put at_token r (ct_tokens s)))"
    using assms(1) by (simp add: booked_def distinct_row_put)
  have dh: "distinct (map at_hash (row_put at_token r (ct_tokens s)))"
    by (rule distinct_row_put_by) (use assms(1) 2(4,7) in \<open>simp_all add: booked_def\<close>)
  have "(at_hash y, at_node_id y) \<in> insert (h (is_secret i), is_node_id i) J" if y: "y \<in> set (ct_tokens t)" for y
  proof (cases "y = r")
    case True
    then show ?thesis using 2(4,5) by simp
  next
    case False
    then have "y \<in> set (ct_tokens s)" using y tt set_row_put [of at_token r "ct_tokens s"] by auto
    then show ?thesis using assms(1) unfolding booked_def by blast
  qed
  then show ?thesis using 2(1) d dh tt unfolding booked_def by simp
qed

section \<open>The calls that change the token table\<close>

lemma issue_node_token_cases:
  assumes "issue_node_token h rnd now n token agent ttl s = (x, t)"
  shows "isl x \<and> t = s \<or> issue_detailed h rnd n token agent (ttl_to_expiry now ttl) s = (x, t)"
  using assms
  by (auto simp: issue_node_token_def seq_def with_node_def split: option.splits if_splits)

lemma rotate_token_cases:
  assumes "rotate_token h rnd now i ttl s = (x, t)"
  shows "isl x \<and> t = s \<or> (\<exists>r agent. get_token i s = Some r \<and>
           issue_detailed h rnd (at_node_id r) None agent (ttl_to_expiry now ttl) (del_token i s) = (x, t))"
proof (cases "get_token i s")
  case None
  then show ?thesis using assms by (auto simp: rotate_token_def rotate_def seq_def)
next
  case (Some r)
  obtain y u where y: "issue_detailed h rnd (at_node_id r) None (Some (at_agent_id r)) (ttl_to_expiry now ttl) (del_token i s) = (y, u)"
    by fastforce
  have "rotate_token h rnd now i ttl s = (y, u)"
    using Some y by (cases y) (simp_all add: rotate_token_def rotate_def seq_def)
  then show ?thesis using assms y Some by auto
qed

lemma revoke_cases: "revoke h token s = (x, t) \<Longrightarrow> x = Inr () \<and> (t = s \<or> (\<exists>i. t = del_token i s))"
  by (auto simp: revoke_def transaction_def split: option.splits)

lemma booked_token_calls:
  assumes "booked J s"
  shows "issue_node_token h rnd now n token agent ttl s = (x, t) \<Longrightarrow>
           booked (case x of Inl _ \<Rightarrow> J | Inr i \<Rightarrow> insert (h (is_secret i), is_node_id i) J) t"
    and "rotate_token h rnd now k ttl s = (x, t) \<Longrightarrow>
           booked (case x of Inl _ \<Rightarrow> J | Inr i \<Rightarrow> insert (h (is_secret i), is_node_id i) J) t"
    and "revoke h token' s = (y, t) \<Longrightarrow> booked J t"
proof -
  have fail: "booked (case x of Inl _ \<Rightarrow> J | Inr i \<Rightarrow> insert (h (is_secret i), is_node_id i) J) t" if "isl x \<and> t = s"
    using assms that by (cases x) simp_all
  show "booked (case x of Inl _ \<Rightarrow> J | Inr i \<Rightarrow> insert (h (is_secret i), is_node_id i) J) t"
    if "issue_node_token h rnd now n token agent ttl s = (x, t)"
    using issue_node_token_cases [OF that] fail booked_issue [OF assms] by blast
  show "booked (case x of Inl _ \<Rightarrow> J | Inr i \<Rightarrow> insert (h (is_secret i), is_node_id i) J) t"
    if "rotate_token h rnd now k ttl s = (x, t)"
    using rotate_token_cases [OF that] fail booked_issue [OF booked_delete [OF assms]] by blast
  show "revoke h token' s = (y, t) \<Longrightarrow> booked J t"
    using revoke_cases [of h token' s y t] assms booked_delete by blast
qed

section \<open>The ticket table\<close>

definition tickets_ok :: "control \<Rightarrow> bool" where
  "tickets_ok s \<longleftrightarrow> distinct (map et_token (ct_tickets s)) \<and> distinct (map et_hash (ct_tickets s))"

text \<open>Every ticket with the hash \<open>x\<close> has been used.\<close>

definition spent :: "string \<Rightarrow> control \<Rightarrow> bool" where
  "spent x s \<longleftrightarrow> (\<forall>r\<in>set (ct_tickets s). et_hash r = x \<longrightarrow> et_used_at r \<noteq> None)"

definition ticket_ids :: "string \<Rightarrow> control \<Rightarrow> string set" where
  "ticket_ids x s = {et_token r |r. r \<in> set (ct_tickets s) \<and> et_hash r = x}"

definition keeps_spent :: "string \<Rightarrow> control \<Rightarrow> control \<Rightarrow> bool" where
  "keeps_spent x s t \<longleftrightarrow>
     (tickets_ok s \<longrightarrow> tickets_ok t \<and> (spent x s \<longrightarrow> spent x t) \<and> ticket_ids x t \<subseteq> ticket_ids x s)"

interpretation tick: step_order "keeps_spent x" for x
  by unfold_locales (auto simp: keeps_spent_def)

lemma keeps_spent_same: "ct_tickets t = ct_tickets s \<Longrightarrow> keeps_spent x s t"
  by (simp add: keeps_spent_def tickets_ok_def spent_def ticket_ids_def)

lemma keeps_spent_thins: "thins s t \<Longrightarrow> keeps_spent x s t"
proof -
  assume "thins s t"
  then obtain f where f: "unbinds f" "ct_tickets t = map f (ct_tickets s)" unfolding thins_def by blast
  have "et_token (f r) = et_token r \<and> et_hash (f r) = et_hash r \<and> et_used_at (f r) = et_used_at r" for r
    using f(1) unfolding unbinds_def by (metis enrollment_token.select_convs enrollment_token.surjective enrollment_token.update_convs(3))
  then show ?thesis using f(2) by (force simp: keeps_spent_def tickets_ok_def spent_def ticket_ids_def comp_def)
qed

lemma tickets_put_token [simp]: "ct_tickets (put_token r s) = ct_tickets s"
  by (simp add: put_token_def)

lemma tickets_del_token [simp]: "ct_tickets (del_token i s) = ct_tickets s"
  by (simp add: del_token_def)

lemma tickets_issue: "issue_detailed h rnd n token agent e s = (x, t) \<Longrightarrow> ct_tickets t = ct_tickets s"
  by (erule issue_detailed_cases) simp_all

lemma tickets_token_calls:
  "issue_node_token h rnd now n token agent ttl s = (x, t) \<Longrightarrow> ct_tickets t = ct_tickets s"
  "rotate_token h rnd now i ttl s = (x, t) \<Longrightarrow> ct_tickets t = ct_tickets s"
  "revoke h token' s = (y, t) \<Longrightarrow> ct_tickets t = ct_tickets s"
  using issue_node_token_cases [of h rnd now n token agent ttl s x t] rotate_token_cases [of h rnd now i ttl s x t]
    revoke_cases [of h token' s y t] tickets_issue
  by fastforce+

lemma keeps_spent_delete: "keeps_spent x s (delete_ticket i s)"
  by (auto simp: keeps_spent_def tickets_ok_def spent_def ticket_ids_def delete_ticket_def del_ticket_def row_del_def
      distinct_map_filter)

lemma keeps_spent_put:
  assumes "\<And>y. tickets_ok s \<Longrightarrow> y \<in> set (ct_tickets s) \<Longrightarrow> et_hash y = et_hash r \<Longrightarrow> et_token y = et_token r"
    and "et_hash r = x \<Longrightarrow> et_used_at r \<noteq> None \<and> et_token r \<in> ticket_ids x s"
  shows "keeps_spent x s (put_ticket r s)"
  unfolding keeps_spent_def
proof
  assume ok: "tickets_ok s"
  let ?rows = "row_put et_token r (ct_tickets s)"
  have "distinct (map et_hash ?rows)"
    by (rule distinct_row_put_by) (use ok assms(1) [OF ok] in \<open>simp_all add: tickets_ok_def\<close>)
  moreover have "distinct (map et_token ?rows)" using ok by (simp add: tickets_ok_def distinct_row_put)
  moreover have "spent x s \<Longrightarrow> spent x (put_ticket r s)"
    using assms(2) set_row_put [of et_token r "ct_tickets s"] by (auto simp: spent_def put_ticket_def)
  moreover have "ticket_ids x (put_ticket r s) \<subseteq> ticket_ids x s"
    using assms(2) set_row_put [of et_token r "ct_tickets s"] by (auto simp: ticket_ids_def put_ticket_def)
  ultimately show "tickets_ok (put_ticket r s) \<and> (spent x s \<longrightarrow> spent x (put_ticket r s))
      \<and> ticket_ids x (put_ticket r s) \<subseteq> ticket_ids x s"
    by (simp add: tickets_ok_def put_ticket_def)
qed

lemma same_row:
  "distinct (map key rs) \<Longrightarrow> a \<in> set rs \<Longrightarrow> b \<in> set rs \<Longrightarrow> key a = key b \<Longrightarrow> a = b"
  by (meson inj_onD distinct_map)

lemma get_ticket_member:
  assumes "get_ticket i s = Some r"
  shows "r \<in> set (ct_tickets s)" "et_token r = i"
  using row_get_SomeD [OF assms [unfolded get_ticket_def]] by simp_all

lemma get_ticket_unique:
  assumes "tickets_ok s" "r \<in> set (ct_tickets s)"
  shows "get_ticket (et_token r) s = Some r"
proof (cases "get_ticket (et_token r) s")
  case None
  then show ?thesis using row_get_NoneD [of et_token "et_token r" "ct_tickets s" r] assms(2) by (simp add: get_ticket_def)
next
  case (Some q)
  then show ?thesis using same_row [of et_token "ct_tickets s" q r] get_ticket_member [OF Some] assms
    by (simp add: tickets_ok_def)
qed

lemma keeps_spent_mark: "keeps_spent x s (mark_used now i s)"
proof (cases "get_ticket i s")
  case None
  then show ?thesis by (simp add: mark_used_def tick.refl)
next
  case (Some r)
  note r = get_ticket_member [OF Some]
  have "keeps_spent x s (put_ticket (r\<lparr>et_used_at := Some now\<rparr>) s)"
  proof (rule keeps_spent_put)
    show "et_token y = et_token (r\<lparr>et_used_at := Some now\<rparr>)"
      if "tickets_ok s" "y \<in> set (ct_tickets s)" "et_hash y = et_hash (r\<lparr>et_used_at := Some now\<rparr>)" for y
      using that r(1) same_row [of et_hash "ct_tickets s" y r] by (simp add: tickets_ok_def)
  qed (use r(1) in \<open>auto simp: ticket_ids_def\<close>)
  then show ?thesis using Some by (simp add: mark_used_def tick.refl)
qed

text \<open>The hash of the ticket a call makes.\<close>

definition ticket_hash :: "digest \<Rightarrow> entropy \<Rightarrow> string option \<Rightarrow> string" where
  "ticket_hash h rnd token = h (snd (mint (enrollment_token_id h) ''ent_'' rnd token))"

lemma keeps_spent_create:
  assumes "ticket_hash h rnd token \<noteq> x"
  shows "runs (keeps_spent x) (create_ticket h rnd token n e)"
  unfolding runs_def
proof
  fix s
  obtain i sec where m: "mint (enrollment_token_id h) ''ent_'' rnd token = (i, sec)" by fastforce
  define r where "r = \<lparr>et_token = i, et_hash = h sec, et_node_id = n, et_expires_at = e, et_used_at = None\<rparr>"
  have run: "create_ticket h rnd token n e s = transaction (seq (write_ticket r) (\<lambda>_. ret (i, sec))) s"
    using m by (simp add: create_ticket_def r_def)
  have "keeps_spent x s (put_ticket r s)" if "\<not> list_ex (\<lambda>y. et_hash y = et_hash r) (ct_tickets s)"
    by (rule keeps_spent_put) (use that assms m in \<open>auto simp: r_def ticket_hash_def list_ex_iff\<close>)
  then have "keeps_spent x s (snd (transaction (seq (write_ticket r) (\<lambda>_. ret (i, sec))) s))"
    using tick.refl by (simp add: transaction_def seq_def write_ticket_def)
  then show "keeps_spent x s (snd (create_ticket h rnd token n e s))" using run by simp
qed

lemma keeps_spent_handler:
  assumes "ticket_hash h rnd token \<noteq> x"
  shows "runs (keeps_spent x) (create_enrollment_token h rnd token n e)"
proof -
  have "runs (keeps_spent x) (case token of None \<Rightarrow> ret () | Some t \<Rightarrow> if is_agent_token t then ret ()
      else lift_res (Inl (HTTPException 400 ''invalid enrollment token shape'')))"
    by (cases token) (simp_all add: tick.runs_ret tick.runs_lift)
  moreover have "runs (keeps_spent x) (reading (\<lambda>s.
      if (case token of None \<Rightarrow> False | Some t \<Rightarrow> get_ticket (enrollment_token_id h t) s \<noteq> None)
      then lift_res (Inl (HTTPException 409 ''enrollment token already exists''))
      else if (case n of None \<Rightarrow> False | Some n \<Rightarrow> get_node n s = None)
      then lift_res (Inl (HTTPException 400 (''unknown node '' @ or_empty n)))
      else ret ()))"
    by (rule tick.runs_reading) (auto simp: runs_def tick.refl)
  ultimately show ?thesis
    unfolding create_enrollment_token_def by (intro tick.runs_seq keeps_spent_create [OF assms])
qed

lemma replaced_row_gone:
  assumes "distinct (map key rs)" "key r' = key r" "r \<noteq> r'"
  shows "r \<notin> set (row_put key r' rs)"
  using assms(1)
proof (induction rs)
  case Nil
  show ?case using assms(3) by simp
next
  case (Cons x xs)
  show ?case
  proof (cases "key x = key r'")
    case True
    then have "r \<notin> set xs" using Cons.prems assms(2) by (auto intro: rev_image_eqI)
    then show ?thesis using True assms(3) by simp
  next
    case False
    then show ?thesis using Cons assms(2) by auto
  qed
qed

lemma ticket_marked:
  assumes "tickets_ok s" "resolve_ticket h now token s = Some g" "ct_tickets t = ct_tickets s"
  shows "spent (h token) (mark_used now' (gt_token_id g) t)"
proof -
  obtain r where r: "ticket_by_hash (h token) s = Some r" "et_used_at r = None" "gt_token_id g = et_token r"
    using assms(2) by (auto simp: resolve_ticket_def split: option.splits if_splits)
  have m: "r \<in> set (ct_tickets t)" "et_hash r = h token"
    using r(1) assms(3) by (auto simp: ticket_by_hash_def find_Some_iff)
  have ok: "tickets_ok t" using assms(1,3) by (simp add: tickets_ok_def)
  have "get_ticket (et_token r) t = Some r" by (rule get_ticket_unique [OF ok m(1)])
  then have e: "mark_used now' (gt_token_id g) t = put_ticket (r\<lparr>et_used_at := Some now'\<rparr>) t"
    using r by (simp add: mark_used_def)
  let ?q = "r\<lparr>et_used_at := Some now'\<rparr>"
  have "?q \<noteq> r" using r(2) by (metis enrollment_token.select_convs(5) enrollment_token.surjective enrollment_token.update_convs(5) option.distinct(1))
  then have gone: "r \<notin> set (row_put et_token ?q (ct_tickets t))"
    using ok by (intro replaced_row_gone) (auto simp: tickets_ok_def)
  have "et_used_at y \<noteq> None" if y: "y \<in> set (row_put et_token ?q (ct_tickets t))" "et_hash y = h token" for y
  proof (cases "y = ?q")
    case False
    then have "y \<in> set (ct_tickets t)" using y(1) set_row_put [of et_token ?q "ct_tickets t"] by auto
    then have "y = r" using m y(2) ok same_row [of et_hash "ct_tickets t" y r] by (simp add: tickets_ok_def)
    then show ?thesis using gone y(1) by simp
  qed simp
  then show ?thesis using e by (simp add: spent_def put_ticket_def)
qed

lemma handler_tokens:
  "create_enrollment_token h rnd token n e s = (x, t) \<Longrightarrow> ct_tokens t = ct_tokens s"
  by (auto simp: create_enrollment_token_def create_ticket_def write_ticket_def transaction_def seq_def put_ticket_def
      split: option.splits if_splits prod.splits sum.splits)

end

