(* ===== verification/Registration.thy ===== *)
theory Registration
  imports Credentials Agent_Session
begin

text \<open>
  How an agent gets its token: the approval list (\<open>services/pending\_registrations.py\<close>), the checks on a
  request (\<open>api/deps.py\<close>) and \<open>POST /agent/register\<close> with the other token-checked calls of
  \<open>api/v1/agent\_http.py\<close>.
\<close>

section \<open>The approval list\<close>

definition insert_pending :: "string \<Rightarrow> string option \<Rightarrow> (control, unit) eff" where
  "insert_pending node_id hostname =
     reading (\<lambda>s.
       if list_ex (\<lambda>r. pd_node_id r = node_id \<and> pd_status r = ''pending'') (ct_pending s)
       then lift_res (Inl (IntegrityError ''uq_pending_registrations_node_pending''))
       else modify (\<lambda>s. s\<lparr>ct_pending := ct_pending s @ [\<lparr>pd_id = ct_next_pending s, pd_node_id = node_id,
                             pd_hostname = hostname, pd_status = ''pending''\<rparr>],
                          ct_next_pending := ct_next_pending s + 1\<rparr>))"

definition update_pending :: "int \<Rightarrow> (pending_registration \<Rightarrow> pending_registration) \<Rightarrow> control \<Rightarrow> control" where
  "update_pending i f s = s\<lparr>ct_pending := map (\<lambda>r. if pd_id r = i then f r else r) (ct_pending s)\<rparr>"

text \<open>\<open>seen\<close> is the state the query of the transaction saw, which another transaction may have left behind.\<close>

definition record_once :: "control \<Rightarrow> string \<Rightarrow> string option \<Rightarrow> (control, unit) eff" where
  "record_once seen node_id hostname =
     transaction
       (case find (\<lambda>r. pd_node_id r = node_id \<and> pd_status r = ''pending'') (ct_pending seen) of
          None \<Rightarrow> insert_pending node_id hostname
        | Some r \<Rightarrow> modify (update_pending (pd_id r) (\<lambda>r. r\<lparr>pd_hostname := hostname\<rparr>)))"

definition record_registration :: "control \<Rightarrow> control \<Rightarrow> string \<Rightarrow> string option \<Rightarrow> (control, unit) eff" where
  "record_registration seen seen' node_id hostname =
     catching (record_once seen node_id hostname) (\<lambda>e. case e of
         IntegrityError _ \<Rightarrow> record_once seen' node_id hostname
       | _ \<Rightarrow> lift_res (Inl e))"

fun newest :: "pending_registration list \<Rightarrow> pending_registration option" where
  "newest [] = None"
| "newest (r # rs) = (case newest rs of None \<Rightarrow> Some r | Some m \<Rightarrow> if pd_id r < pd_id m then Some m else Some r)"

definition status_for :: "string \<Rightarrow> control \<Rightarrow> string option" where
  "status_for node_id s = map_option pd_status (newest (filter (\<lambda>r. pd_node_id r = node_id) (ct_pending s)))"

text \<open>\<open>status\<close> is \<open>approved\<close> or \<open>rejected\<close>: the two admin handlers are its only callers.\<close>

definition set_status :: "int \<Rightarrow> string \<Rightarrow> (control, unit) eff" where
  "set_status i status =
     reading (\<lambda>s.
       if find (\<lambda>r. pd_id r = i) (ct_pending s) = None
       then lift_res (Inl (HTTPException 404 (''unknown registration '' @ str_int i)))
       else modify (update_pending i (\<lambda>r. r\<lparr>pd_status := status\<rparr>)))"

definition approve_registration :: "int \<Rightarrow> (control, unit) eff" where
  "approve_registration i = set_status i ''approved''"

definition reject_registration :: "int \<Rightarrow> (control, unit) eff" where
  "reject_registration i = set_status i ''rejected''"

section \<open>Checks on a request\<close>

record server_config =
  sc_enrollment_token :: "string option"
  sc_admin_token :: "string option"
  sc_seed_bootstrap_node :: bool
  sc_bootstrap_node_id :: string
  sc_bootstrap_agent_token :: string

definition parse_bearer :: "string option \<Rightarrow> string option" where
  "parse_bearer authorization =
     (case authorization of
        None \<Rightarrow> None
      | Some a \<Rightarrow>
          if a = [] \<or> \<not> starts_with ''Bearer '' a then None
          else let candidate = strip (drop 7 a) in if candidate = [] then None else Some candidate)"

definition require_agent :: "digest \<Rightarrow> int \<Rightarrow> string option \<Rightarrow> control \<Rightarrow> principal res" where
  "require_agent h now authorization s =
     (case parse_bearer authorization of
        None \<Rightarrow> Inl (HTTPException 401 ''missing or invalid Authorization header'')
      | Some token \<Rightarrow>
          (case resolve h now token s of
             None \<Rightarrow> Inl (HTTPException 401 ''unknown agent token'')
           | Some p \<Rightarrow> Inr p))"

definition require_admin :: "digest \<Rightarrow> server_config \<Rightarrow> string option \<Rightarrow> string res" where
  "require_admin h cfg authorization =
     (case sc_admin_token cfg of
        None \<Rightarrow> Inl (HTTPException 403 ''admin API disabled: DN42_CONTROL_ADMIN_TOKEN is not configured'')
      | Some secret \<Rightarrow>
          (case parse_bearer authorization of
             None \<Rightarrow> Inl (HTTPException 401 ''missing or invalid admin token'')
           | Some token \<Rightarrow>
               if h token = h secret then Inr ''admin''
               else Inl (HTTPException 401 ''missing or invalid admin token'')))"

definition ensure_self :: "principal \<Rightarrow> string \<Rightarrow> unit res" where
  "ensure_self p target =
     raise_if (pr_node_id p \<noteq> target)
       (HTTPException 403 (''token bound to node '' @ pr_node_id p @ '', payload references '' @ target))"

section \<open>Registering\<close>

definition on_db :: "(control, 'a) eff \<Rightarrow> (store, 'a) eff" where
  "on_db m s = (case m (sr_db s) of (r, d) \<Rightarrow> (r, s\<lparr>sr_db := d\<rparr>))"

definition matches_global_enrollment :: "digest \<Rightarrow> string \<Rightarrow> string option \<Rightarrow> bool" where
  "matches_global_enrollment h candidate setting =
     (case setting of None \<Rightarrow> False | Some c \<Rightarrow> h candidate = h c)"

definition admission :: "digest \<Rightarrow> server_config \<Rightarrow> int \<Rightarrow> string \<Rightarrow> string \<Rightarrow> control \<Rightarrow> grant option res" where
  "admission h cfg now token requested s =
     (if matches_global_enrollment h token (sc_enrollment_token cfg) then Inr None
      else case resolve_ticket h now token s of
          None \<Rightarrow> Inl (HTTPException 401 ''invalid enrollment token'')
        | Some g \<Rightarrow>
            if gt_node_id g \<noteq> None \<and> gt_node_id g \<noteq> Some requested
            then Inl (HTTPException 401 ''enrollment token not valid for requested node'')
            else Inr (Some g))"

definition waiting :: "string \<Rightarrow> string \<Rightarrow> registration" where
  "waiting requested message =
     \<lparr>ar_status = PENDING_APPROVAL, ar_node_id = Some requested, ar_agent_id = Some (agent_id_for requested),
      ar_agent_token = None, ar_generation = None, ar_message = Some message\<rparr>"

text \<open>Up to the point where the token is issued: an answer, or the permission to go on.\<close>

definition register_gate ::
  "digest \<Rightarrow> server_config \<Rightarrow> bool \<times> bool \<Rightarrow> int \<Rightarrow> string \<Rightarrow> string \<Rightarrow> string option \<Rightarrow>
   (store, registration + grant option \<times> desired_state) eff" where
  "register_gate h cfg redis now token requested hostname =
     reading (\<lambda>s. seq (lift_res (admission h cfg now token requested (sr_db s))) (\<lambda>g.
       let reg_status = status_for requested (sr_db s) in
       if reg_status = Some ''rejected''
       then lift_res (Inl (HTTPException 403 (''registration for node '' @ requested @ '' was rejected by admin'')))
       else if requested \<notin> set (known_node_ids (sr_db s))
       then (if reg_status = None \<or> reg_status = Some ''pending''
             then seq (on_db (record_registration (sr_db s) (sr_db s) requested hostname)) (\<lambda>_.
                  ret (Inl (waiting requested ''node not provisioned; registration pending admin approval'')))
             else ret (Inl (waiting requested ''registration approved; awaiting admin provision'')))
       else if reg_status = Some ''pending''
       then ret (Inl (waiting requested ''node provisioned but registration awaiting admin approval''))
       else seq (desired_state_get redis requested) (\<lambda>state. case state of
              None \<Rightarrow> ret (Inl (waiting requested ''node exists but no desired state has been published yet''))
            | Some st \<Rightarrow> ret (Inr (g, st)))))"

definition INT32_MAX :: int where
  "INT32_MAX = 2147483647"

definition registration_response :: "registration \<Rightarrow> registration res" where
  "registration_response r =
     rbind (case ar_generation r of None \<Rightarrow> Inr () | Some g \<Rightarrow> raise_if (g < 1 \<or> INT32_MAX < g) (ValueError ''desired_state_generation''))
       (\<lambda>_. validate_accepted_response r)"

definition register_finish ::
  "digest \<Rightarrow> server_config \<Rightarrow> entropy \<Rightarrow> int \<Rightarrow> string \<Rightarrow> grant option \<Rightarrow> desired_state \<Rightarrow> (store, registration) eff" where
  "register_finish h cfg rnd now requested g state =
     seq (on_db (issue_token h rnd requested
            (if sc_seed_bootstrap_node cfg \<and> requested = sc_bootstrap_node_id cfg
             then Some (sc_bootstrap_agent_token cfg) else None))) (\<lambda>token.
     seq (case g of None \<Rightarrow> ret () | Some g \<Rightarrow> on_db (modify (mark_used now (gt_token_id g)))) (\<lambda>_.
     lift_res (registration_response
       \<lparr>ar_status = ACCEPTED, ar_node_id = Some requested, ar_agent_id = Some (agent_id_for requested),
        ar_agent_token = Some token, ar_generation = Some (ds_generation state), ar_message = None\<rparr>)))"

definition register_agent ::
  "digest \<Rightarrow> server_config \<Rightarrow> bool \<times> bool \<Rightarrow> entropy \<Rightarrow> int \<Rightarrow> string \<Rightarrow> string \<Rightarrow> string option \<Rightarrow> (store, registration) eff" where
  "register_agent h cfg redis rnd now token requested hostname =
     seq (register_gate h cfg redis now token requested hostname) (\<lambda>d. case d of
        Inl answer \<Rightarrow> ret answer
      | Inr (g, state) \<Rightarrow> register_finish h cfg rnd now requested g state)"

definition get_agent_desired_state ::
  "digest \<Rightarrow> bool \<times> bool \<Rightarrow> int \<Rightarrow> string option \<Rightarrow> (store, desired_state) eff" where
  "get_agent_desired_state h redis now authorization =
     reading (\<lambda>s. seq (lift_res (require_agent h now authorization (sr_db s))) (\<lambda>p.
       seq (desired_state_get redis (pr_node_id p)) (\<lambda>state. case state of
         None \<Rightarrow> lift_res (Inl (HTTPException 404 (''no desired state for node '' @ pr_node_id p)))
       | Some st \<Rightarrow> ret st)))"

definition agent_wireguard_keys ::
  "digest \<Rightarrow> int \<Rightarrow> string option \<Rightarrow> string \<Rightarrow> string \<Rightarrow> string option \<Rightarrow> (control, key_status \<times> (string \<times> int) list) eff" where
  "agent_wireguard_keys h now authorization node_id public_key escrow =
     reading (\<lambda>s. seq (lift_res (require_agent h now authorization s)) (\<lambda>p.
       seq (lift_res (ensure_self p node_id)) (\<lambda>_. post_wireguard_keys node_id public_key escrow)))"

end
