(* ===== verification/Enrollment.thy ===== *)
theory Enrollment
  imports Registration
begin

text \<open>
  The life of credentials: any interleaving of registrations, which stop between their database
  transactions, with token and ticket calls, approvals, deletions, edits and provisionings.
\<close>

section \<open>What registration changes\<close>

text \<open>Reading the desired state touches the cache only.\<close>

lemma state_read_db: "desired_state_get redis n s = (r, t) \<Longrightarrow> sr_db t = sr_db s"
  by (auto simp: desired_state_get_def seq_def Let_def split: option.splits if_splits sum.splits)

lemma on_db_eq: "m (sr_db s) = (r, d) \<Longrightarrow> on_db m s = (r, s\<lparr>sr_db := d\<rparr>)"
  by (simp add: on_db_def)

lemma on_db_cases:
  assumes "on_db m s = (r, t)"
  obtains d where "m (sr_db s) = (r, d)" "t = s\<lparr>sr_db := d\<rparr>"
  using assms by (auto simp: on_db_def split: prod.splits)

definition same_but_pending :: "control \<Rightarrow> control \<Rightarrow> bool" where
  "same_but_pending s t \<longleftrightarrow> (\<exists>p n. t = s\<lparr>ct_pending := p, ct_next_pending := n\<rparr>)"

lemma same_but_pending_self: "same_but_pending s s"
  unfolding same_but_pending_def by (intro exI [of _ "ct_pending s"] exI [of _ "ct_next_pending s"]) simp

lemma same_but_pending_put: "same_but_pending s (s\<lparr>ct_pending := p\<rparr>)"
  unfolding same_but_pending_def by (intro exI [of _ p] exI [of _ "ct_next_pending s"]) simp

lemma same_but_pending_trans: "same_but_pending s t \<Longrightarrow> same_but_pending t u \<Longrightarrow> same_but_pending s u"
  unfolding same_but_pending_def by (elim exE) (simp, blast)

interpretation queue: step_order same_but_pending
  by unfold_locales (rule same_but_pending_self, rule same_but_pending_trans)

lemma record_once_frame: "runs same_but_pending (record_once seen n host)"
  unfolding runs_def
proof
  fix s
  have "same_but_pending s (snd (insert_pending n host s))"
    by (simp add: insert_pending_def same_but_pending_self) (simp add: same_but_pending_def, blast)
  moreover have "same_but_pending s (update_pending i f s)" for i f
    by (simp add: update_pending_def same_but_pending_put)
  moreover have "same_but_pending s (snd (transaction m s))" if "same_but_pending s (snd (m s))" for m :: "(control, unit) eff"
    using that same_but_pending_self by (auto simp: transaction_def split: prod.splits sum.splits)
  ultimately show "same_but_pending s (snd (record_once seen n host s))"
    unfolding record_once_def by (auto split: option.split)
qed

lemma record_frame: "runs same_but_pending (record_registration seen seen' n host)"
proof -
  have "runs same_but_pending (case e of IntegrityError _ \<Rightarrow> record_once seen' n host | _ \<Rightarrow> lift_res (Inl e))" for e
    using record_once_frame queue.runs_lift by (cases e) simp_all
  then show ?thesis unfolding record_registration_def by (intro queue.runs_catching record_once_frame)
qed

lemma record_raises: "record_registration seen seen' n host s = (Inl e, t) \<Longrightarrow> t = s"
proof -
  have "t = s" if "record_once x n host s = (Inl e, t)" for x s e t
    using that unfolding record_once_def by (rule transaction_Inl)
  then show "record_registration seen seen' n host s = (Inl e, t) \<Longrightarrow> t = s"
    unfolding record_registration_def catching_def by (auto split: prod.splits sum.splits exc.splits) blast
qed

lemma gate_cases:
  assumes "register_gate h cfg redis now token node host s = (r, t)"
  obtains (refused) e where "r = Inl e" "sr_db t = sr_db s"
  | (waits) message where "r = Inr (Inl (waiting node message))" "same_but_pending (sr_db s) (sr_db t)"
  | (passes) g st where "r = Inr (Inr (g, st))" "admission h cfg now token node (sr_db s) = Inr g"
    "status_for node (sr_db s) \<notin> {Some ''rejected'', Some ''pending''}" "node \<in> set (known_node_ids (sr_db s))"
    "desired_state_get redis node s = (Inr (Some st), t)" "sr_db t = sr_db s"
proof (cases "admission h cfg now token node (sr_db s)")
  case (Inl e)
  then have "r = Inl e" "t = s" using assms by (simp_all add: register_gate_def seq_def)
  then show ?thesis by (intro refused) simp_all
next
  case (Inr g)
  let ?st = "status_for node (sr_db s)"
  note gate = assms [unfolded register_gate_def eff_simps Inr seq_step [of "lift_res _", OF eff_simps(2)] Let_def]
  have self: "same_but_pending (sr_db s) (sr_db s)" by (rule same_but_pending_self)
  consider (a) "?st = Some ''rejected''"
    | (b) "?st \<noteq> Some ''rejected''" "node \<notin> set (known_node_ids (sr_db s))" "?st = None \<or> ?st = Some ''pending''"
    | (c) "?st \<noteq> Some ''rejected''" "node \<notin> set (known_node_ids (sr_db s))" "\<not> (?st = None \<or> ?st = Some ''pending'')"
    | (d) "node \<in> set (known_node_ids (sr_db s))" "?st = Some ''pending''"
    | (f) "?st \<notin> {Some ''rejected'', Some ''pending''}" "node \<in> set (known_node_ids (sr_db s))"
    by blast
  then show ?thesis
  proof cases
    case a
    then have "r = Inl (HTTPException 403 (''registration for node '' @ node @ '' was rejected by admin''))" "t = s"
      using gate by simp_all
    then show ?thesis using refused by blast
  next
    case b
    obtain x d where x: "record_registration (sr_db s) (sr_db s) node host (sr_db s) = (x, d)" by fastforce
    note on = on_db_eq [where s = s and m = "record_registration (sr_db s) (sr_db s) node host", OF x]
    show ?thesis
    proof (cases x)
      case (Inl e)
      then have "r = Inl e" "t = s\<lparr>sr_db := d\<rparr>" using gate b on by (simp_all add: seq_def)
      then show ?thesis using refused record_raises [OF x [unfolded Inl]] by simp
    next
      case (Inr u)
      then have "r = Inr (Inl (waiting node ''node not provisioned; registration pending admin approval''))"
        "t = s\<lparr>sr_db := d\<rparr>" using gate b on by (simp_all add: seq_def)
      then show ?thesis using waits runsD [OF record_frame x] by simp
    qed
  next
    case c
    then have "r = Inr (Inl (waiting node ''registration approved; awaiting admin provision''))" "t = s"
      using gate by auto
    then show ?thesis using waits self by blast
  next
    case d
    then have "r = Inr (Inl (waiting node ''node provisioned but registration awaiting admin approval''))" "t = s"
      using gate by simp_all
    then show ?thesis using waits self by blast
  next
    case f
    obtain x u where x: "desired_state_get redis node s = (x, u)" by fastforce
    have u: "sr_db u = sr_db s" by (rule state_read_db [OF x])
    show ?thesis
    proof (cases x)
      case (Inl e)
      then have "r = Inl e" "t = u" using gate f x by (simp_all add: seq_def)
      then show ?thesis using refused u by simp
    next
      case (Inr o')
      show ?thesis
      proof (cases o')
        case None
        then have "r = Inr (Inl (waiting node ''node exists but no desired state has been published yet''))" "t = u"
          using gate f x Inr by (simp_all add: seq_def)
        then show ?thesis using waits self u by simp
      next
        case (Some st)
        then have "r = Inr (Inr (g, st))" "t = u" using gate f x Inr by (simp_all add: seq_def)
        then show ?thesis using passes \<open>admission h cfg now token node (sr_db s) = Inr g\<close> f x Inr Some u by simp
      qed
    qed
  qed
qed

definition literal_for :: "server_config \<Rightarrow> string \<Rightarrow> string option" where
  "literal_for cfg node =
     (if sc_seed_bootstrap_node cfg \<and> node = sc_bootstrap_node_id cfg then Some (sc_bootstrap_agent_token cfg) else None)"

definition consume :: "int \<Rightarrow> grant option \<Rightarrow> control \<Rightarrow> control" where
  "consume now g s = (case g of None \<Rightarrow> s | Some g \<Rightarrow> mark_used now (gt_token_id g) s)"

definition acceptance :: "string \<Rightarrow> string \<Rightarrow> int \<Rightarrow> registration" where
  "acceptance node secret generation =
     \<lparr>ar_status = ACCEPTED, ar_node_id = Some node, ar_agent_id = Some (agent_id_for node),
      ar_agent_token = Some secret, ar_generation = Some generation, ar_message = None\<rparr>"

lemma finish_cases:
  assumes "register_finish h cfg rnd now node g st s = (r, t)"
  obtains (refused) e where "r = Inl e" "sr_db t = sr_db s"
  | (issued) i d where "issue_detailed h rnd node (literal_for cfg node) None None (sr_db s) = (Inr i, d)"
    "sr_db t = consume now g d" "r = registration_response (acceptance node (is_secret i) (ds_generation st))"
proof -
  obtain x d where x: "issue_detailed h rnd node (literal_for cfg node) None None (sr_db s) = (x, d)" by fastforce
  note finish = assms [unfolded register_finish_def, folded literal_for_def]
  show ?thesis
  proof (cases x)
    case (Inl e)
    have "d = sr_db s" using x unfolding Inl by (cases rule: issue_detailed_cases) simp_all
    moreover have "r = Inl e" "t = s\<lparr>sr_db := d\<rparr>"
      using finish x Inl by (simp_all add: seq_def issue_token_def on_db_def)
    ultimately show ?thesis using refused by simp
  next
    case (Inr i)
    have "r = registration_response (acceptance node (is_secret i) (ds_generation st)) \<and> sr_db t = consume now g d"
      using finish x Inr
      by (cases g) (auto simp: seq_def issue_token_def on_db_def acceptance_def consume_def)
    then show ?thesis using issued x Inr by blast
  qed
qed

lemma register_cases:
  assumes "register_agent h cfg redis rnd now token node host s = (r, t)"
  obtains (refused) e where "r = Inl e" "sr_db t = sr_db s"
  | (waits) message where "r = Inr (waiting node message)" "same_but_pending (sr_db s) (sr_db t)"
  | (issued) g st i d u where "admission h cfg now token node (sr_db s) = Inr g"
    "status_for node (sr_db s) \<notin> {Some ''rejected'', Some ''pending''}" "node \<in> set (known_node_ids (sr_db s))"
    "desired_state_get redis node s = (Inr (Some st), u)"
    "issue_detailed h rnd node (literal_for cfg node) None None (sr_db s) = (Inr i, d)"
    "sr_db t = consume now g d" "r = registration_response (acceptance node (is_secret i) (ds_generation st))"
  using assms [unfolded register_agent_def]
proof (cases rule: seq_cases)
  case (1 e)
  from 1(1) show ?thesis by (cases rule: gate_cases) (use 1 refused in auto)
next
  case (2 x u)
  from 2(1) show ?thesis
  proof (cases rule: gate_cases)
    case (waits message)
    then have "r = Inr (waiting node message)" "t = u" using 2(2) by simp_all
    then show ?thesis using that(2) waits(2) by simp
  next
    case (passes g st)
    note gate = passes
    have "register_finish h cfg rnd now node g st u = (r, t)" using 2(2) gate(1) by simp
    then show ?thesis
    proof (cases rule: finish_cases)
      case (refused e)
      then show ?thesis using that(1) gate(6) by simp
    next
      case (issued i d)
      show ?thesis
        by (rule that(3) [OF gate(2-5) _ issued(2,3)]) (use issued(1) gate(6) in simp)
    qed
  qed simp
qed

lemma response_Inr: "registration_response a = Inr b \<Longrightarrow> b = a"
  by (auto simp: registration_response_def rbind_Inr_iff validate_accepted_response_def Let_def split: if_splits)

lemma response_Inl: "registration_response (acceptance node secret g) = Inl e \<Longrightarrow> \<exists>m. e = ValueError m"
  by (auto simp: registration_response_def acceptance_def raise_if_def validate_accepted_response_def split: if_splits)

section \<open>A registration, transaction by transaction\<close>

text \<open>\<open>register_agent\<close> opens one database session after the other, and other requests are served in
  between.  A stage is the point between two of them, with what the handler has learnt.\<close>

record reg_request =
  rq_redis :: "bool \<times> bool"
  rq_rnd :: entropy
  rq_token :: string
  rq_node :: string
  rq_host :: "string option"

datatype reg_stage =
    Arrived
  | Admitted "grant option"
  | Checked "grant option" "string option"
  | Queueing
  | Reading "grant option"
  | Issuing "grant option" desired_state
  | Marking "grant option" desired_state string
  | Answered "registration res"

fun register_step ::
  "digest \<Rightarrow> server_config \<Rightarrow> int \<Rightarrow> reg_request \<Rightarrow> reg_stage \<Rightarrow> store \<Rightarrow> reg_stage \<times> store" where
  "register_step h cfg now q Arrived s =
     (case admission h cfg now (rq_token q) (rq_node q) (sr_db s) of
        Inl e \<Rightarrow> (Answered (Inl e), s) | Inr g \<Rightarrow> (Admitted g, s))"
| "register_step h cfg now q (Admitted g) s =
     (let st = status_for (rq_node q) (sr_db s) in
      if st = Some ''rejected''
      then (Answered (Inl (HTTPException 403 (''registration for node '' @ rq_node q @ '' was rejected by admin''))), s)
      else (Checked g st, s))"
| "register_step h cfg now q (Checked g st) s =
     (if rq_node q \<notin> set (known_node_ids (sr_db s))
      then (if st = None \<or> st = Some ''pending'' then (Queueing, s)
            else (Answered (Inr (waiting (rq_node q) ''registration approved; awaiting admin provision'')), s))
      else if st = Some ''pending''
      then (Answered (Inr (waiting (rq_node q) ''node provisioned but registration awaiting admin approval'')), s)
      else (Reading g, s))"
| "register_step h cfg now q Queueing s =
     (case on_db (record_registration (sr_db s) (sr_db s) (rq_node q) (rq_host q)) s of
        (Inl e, t) \<Rightarrow> (Answered (Inl e), t)
      | (Inr _, t) \<Rightarrow> (Answered (Inr (waiting (rq_node q) ''node not provisioned; registration pending admin approval'')), t))"
| "register_step h cfg now q (Reading g) s =
     (case desired_state_get (rq_redis q) (rq_node q) s of
        (Inl e, t) \<Rightarrow> (Answered (Inl e), t)
      | (Inr None, t) \<Rightarrow>
          (Answered (Inr (waiting (rq_node q) ''node exists but no desired state has been published yet'')), t)
      | (Inr (Some d), t) \<Rightarrow> (Issuing g d, t))"
| "register_step h cfg now q (Issuing g d) s =
     (case on_db (issue_token h (rq_rnd q) (rq_node q) (literal_for cfg (rq_node q))) s of
        (Inl e, t) \<Rightarrow> (Answered (Inl e), t) | (Inr secret, t) \<Rightarrow> (Marking g d secret, t))"
| "register_step h cfg now q (Marking g d secret) s =
     (Answered (registration_response (acceptance (rq_node q) secret (ds_generation d))),
      case g of None \<Rightarrow> s | Some g \<Rightarrow> s\<lparr>sr_db := mark_used now (gt_token_id g) (sr_db s)\<rparr>)"
| "register_step h cfg now q (Answered r) s = (Answered r, s)"

fun register_steps ::
  "digest \<Rightarrow> server_config \<Rightarrow> int \<Rightarrow> reg_request \<Rightarrow> nat \<Rightarrow> reg_stage \<Rightarrow> store \<Rightarrow> reg_stage \<times> store" where
  "register_steps h cfg now q 0 st s = (st, s)"
| "register_steps h cfg now q (Suc n) st s =
     (case register_step h cfg now q st s of (st', t) \<Rightarrow> register_steps h cfg now q n st' t)"

lemma steps_answered: "register_steps h cfg now q n (Answered r) s = (Answered r, s)"
  by (induction n) simp_all

text \<open>With nothing in between, the steps are the handler.\<close>

lemma finish_steps:
  assumes "register_finish h cfg (rq_rnd q) now (rq_node q) g d s = (r, t)"
  shows "register_steps h cfg now q 2 (Issuing g d) s = (Answered r, t)"
proof -
  obtain x u where x: "on_db (issue_token h (rq_rnd q) (rq_node q) (literal_for cfg (rq_node q))) s = (x, u)" by fastforce
  note finish = assms [unfolded register_finish_def, folded literal_for_def, unfolded seq_def x]
  show ?thesis
    using finish x
    by (cases x; cases g) (auto simp: numeral_2_eq_2 acceptance_def on_db_def)
qed

lemma register_steps_alone:
  assumes "register_agent h cfg (rq_redis q) (rq_rnd q) now (rq_token q) (rq_node q) (rq_host q) s = (r, t)"
  shows "register_steps h cfg now q 6 Arrived s = (Answered r, t)"
proof -
  have n: "register_steps h cfg now q 6 st s = (case register_steps h cfg now q 4 st s of
      (st', u) \<Rightarrow> register_steps h cfg now q 2 st' u)" for st s
    by (simp add: eval_nat_numeral split: prod.split)
  have ready: "register_steps h cfg now q 4 Arrived s = (Issuing g d, u)"
    if "register_gate h cfg (rq_redis q) now (rq_token q) (rq_node q) (rq_host q) s = (Inr (Inr (g, d)), u)" for g d u
    using that
    by (cases rule: gate_cases) (simp_all add: eval_nat_numeral Let_def waiting_def)
  have answered: "register_steps h cfg now q 4 Arrived s = (Answered x, u)"
    if "register_gate h cfg (rq_redis q) now (rq_token q) (rq_node q) (rq_host q) s = (y, u)"
      "(\<exists>e. y = Inl e \<and> x = Inl e) \<or> (\<exists>a. y = Inr (Inl a) \<and> x = Inr a)" for x y u
  proof (cases "admission h cfg now (rq_token q) (rq_node q) (sr_db s)")
    case (Inl e)
    then show ?thesis using that by (auto simp: register_gate_def seq_def eval_nat_numeral)
  next
    case (Inr g)
    let ?queue = "on_db (record_registration (sr_db s) (sr_db s) (rq_node q) (rq_host q)) s"
    obtain w v where w: "?queue = (w, v)" by fastforce
    obtain z z' where z: "desired_state_get (rq_redis q) (rq_node q) s = (z, z')" by fastforce
    note gate = that(1) [unfolded register_gate_def eff_simps Inr seq_step [of "lift_res _", OF eff_simps(2)] Let_def]
    show ?thesis
      using gate that(2) w z Inr
      by (auto simp: seq_def eval_nat_numeral Let_def split: if_splits sum.splits option.splits)
  qed
  obtain y u where y: "register_gate h cfg (rq_redis q) now (rq_token q) (rq_node q) (rq_host q) s = (y, u)" by fastforce
  note run = assms [unfolded register_agent_def seq_def y]
  show ?thesis
  proof (cases y)
    case (Inl e)
    then show ?thesis using run answered [OF y, of "Inl e"] by (simp add: n steps_answered)
  next
    case (Inr z)
    show ?thesis
    proof (cases z)
      case (Inl a)
      then show ?thesis using run answered [OF y, of "Inr a"] \<open>y = Inr z\<close> by (simp add: n steps_answered)
    next
      case (Inr gd)
      obtain g d where gd: "gd = (g, d)" by (cases gd)
      have "register_finish h cfg (rq_rnd q) now (rq_node q) g d u = (r, t)" using run Inr \<open>y = Inr z\<close> gd by simp
      then show ?thesis using ready [of g d u] y Inr \<open>y = Inr z\<close> gd finish_steps by (simp add: n)
    qed
  qed
qed

section \<open>Histories\<close>

text \<open>The other calls, each served in one piece.  \<open>Provision_With\<close> is a provisioning with an \<open>agent_token\<close>.\<close>

datatype enrol_op =
    Issue_Token entropy int string "string option" "string option" "int option"
  | Rotate_Token entropy int string "int option"
  | Revoke_Token string
  | Make_Ticket entropy "string option" "string option" "int option"
  | Drop_Ticket string
  | Approve int
  | Reject int
  | Fetch "bool \<times> bool" int "string option"
  | Provision_With desired_state string
  | Edit admin_op

datatype outcome = Issued string string | Fine

fun enrol_run :: "digest \<Rightarrow> enrol_op \<Rightarrow> (store, outcome) eff" where
  "enrol_run h (Issue_Token rnd now node token agent ttl) =
     on_db (seq (issue_node_token h rnd now node token agent ttl) (\<lambda>i. ret (Issued (is_secret i) (is_node_id i))))"
| "enrol_run h (Rotate_Token rnd now i ttl) =
     on_db (seq (rotate_token h rnd now i ttl) (\<lambda>i. ret (Issued (is_secret i) (is_node_id i))))"
| "enrol_run h (Revoke_Token token) = on_db (seq (revoke h token) (\<lambda>_. ret Fine))"
| "enrol_run h (Make_Ticket rnd token node expires) =
     on_db (seq (create_enrollment_token h rnd token node expires) (\<lambda>_. ret Fine))"
| "enrol_run h (Drop_Ticket i) = on_db (seq (modify (delete_ticket i)) (\<lambda>_. ret Fine))"
| "enrol_run h (Approve i) = on_db (seq (approve_registration i) (\<lambda>_. ret Fine))"
| "enrol_run h (Reject i) = on_db (seq (reject_registration i) (\<lambda>_. ret Fine))"
| "enrol_run h (Fetch redis now auth) = seq (get_agent_desired_state h redis now auth) (\<lambda>_. ret Fine)"
| "enrol_run h (Provision_With d t) =
     on_db (seq (provision_node h d (Some t)) (\<lambda>_. ret (Issued t (nd_node_id (ds_node d)))))"
| "enrol_run h (Edit op) = on_db (seq (admin_run op) (\<lambda>_. ret Fine))"

text \<open>The server: its store and the registrations in progress, by a number each.  A request may stop for
  good at any stage.\<close>

record enrolment =
  en_store :: store
  en_reqs :: "nat \<Rightarrow> (reg_request \<times> reg_stage) option"

datatype enrol_move = Begin nat reg_request | Advance nat int | Serve enrol_op

definition minted :: "reg_request \<Rightarrow> reg_stage \<Rightarrow> reg_stage \<Rightarrow> outcome" where
  "minted q st st' = (case (st, st') of (Issuing _ _, Marking _ _ secret) \<Rightarrow> Issued secret (rq_node q) | _ \<Rightarrow> Fine)"

fun enrol_step :: "digest \<Rightarrow> server_config \<Rightarrow> enrol_move \<Rightarrow> enrolment \<Rightarrow> outcome res \<times> enrolment" where
  "enrol_step h cfg (Begin k q) w =
     (Inr Fine, if en_reqs w k = None then w\<lparr>en_reqs := (en_reqs w)(k \<mapsto> (q, Arrived))\<rparr> else w)"
| "enrol_step h cfg (Advance k now) w =
     (case en_reqs w k of
        None \<Rightarrow> (Inr Fine, w)
      | Some (q, st) \<Rightarrow>
          (case register_step h cfg now q st (en_store w) of (st', t) \<Rightarrow>
             (Inr (minted q st st'), w\<lparr>en_store := t, en_reqs := (en_reqs w)(k \<mapsto> (q, st'))\<rparr>)))"
| "enrol_step h cfg (Serve op) w =
     (case enrol_run h op (en_store w) of (r, t) \<Rightarrow> (r, w\<lparr>en_store := t\<rparr>))"

definition enrol_after :: "digest \<Rightarrow> server_config \<Rightarrow> enrol_move list \<Rightarrow> enrolment \<Rightarrow> enrolment" where
  "enrol_after h cfg ms w = foldl (\<lambda>w m. snd (enrol_step h cfg m w)) w ms"

fun enrol_outcomes :: "digest \<Rightarrow> server_config \<Rightarrow> enrol_move list \<Rightarrow> enrolment \<Rightarrow> (enrol_move \<times> outcome res) list" where
  "enrol_outcomes h cfg [] w = []"
| "enrol_outcomes h cfg (m # ms) w =
     (m, fst (enrol_step h cfg m w)) # enrol_outcomes h cfg ms (snd (enrol_step h cfg m w))"

lemma enrol_after_simps [simp]:
  "enrol_after h cfg [] w = w"
  "enrol_after h cfg (m # ms) w = enrol_after h cfg ms (snd (enrol_step h cfg m w))"
  "enrol_after h cfg (ms @ ms') w = enrol_after h cfg ms' (enrol_after h cfg ms w)"
  by (simp_all add: enrol_after_def)

abbreviation en_db :: "enrolment \<Rightarrow> control" where
  "en_db w \<equiv> sr_db (en_store w)"

lemma runs_on_db:
  assumes "runs R m"
  shows "runs (\<lambda>s t. R (sr_db s) (sr_db t)) (on_db m)"
  using assms by (simp add: runs_def on_db_def split_beta)

text \<open>Provisioning moves along every relation that edits of credentials move along, if binding the token does.\<close>

lemma provision_along:
  assumes R: "step_order R" "\<And>s t. thins s t \<Longrightarrow> R s t"
    and b: "runs R (bind_agent_token h (nd_node_id (ds_node d)) token)"
  shows "runs R (provision_node h d token)"
proof -
  note seq = step_order.runs_seq [OF R(1)] and ret = step_order.runs_ret [OF R(1)] and lift = step_order.runs_lift [OF R(1)]
  have thin: "runs thins m \<Longrightarrow> runs R m" for m :: "(control, 'a) eff" using R(2) by (simp add: runs_def)
  have part: "runs R (provision_node_from_state h x token reason)"
    if "nd_node_id (ds_node x) = nd_node_id (ds_node d)" for x reason
  proof -
    have "runs R (case st of None \<Rightarrow> lift_res (Inl (AssertionError ''provision materialization must succeed'')) | Some y \<Rightarrow> ret y)"
      for st :: "desired_state option"
      by (cases st) (simp_all add: ret lift)
    moreover have "runs thins (put_provisioned x)" by (rule creds.runs_put_provisioned) simp
    ultimately show ?thesis
      unfolding provision_node_from_state_def Let_def
      using R(2) b that creds.runs_tables [OF tables_children(1)] creds.runs_materialize
      by (intro seq) (simp_all add: runs_def)
  qed
  have atomic: "runs R m \<Longrightarrow> runs R (transaction m)" for m :: "(control, desired_state) eff"
    using step_order.refl [OF R(1)] unfolding runs_def transaction_def
    by (auto split: prod.splits sum.splits) (metis snd_conv)
  show ?thesis
    unfolding provision_node_def runs_def
  proof
    fix s
    show "R s (snd (seq (lift_res (as_422 ''invalid DesiredState'' (model_validate_state d)))
        (\<lambda>d. seq (transaction (provision_node_from_state h d token (Some ''admin provision'')))
           (\<lambda>st. ret (st, [(nd_node_id (ds_node d), st)], ''admin provision''))) s))"
    proof (cases "model_validate_state d")
      case (Inl e)
      then show ?thesis using step_order.refl [OF R(1)] by (simp add: seq_def as_422_def split: exc.split)
    next
      case (Inr x)
      have "runs R (seq (transaction (provision_node_from_state h x token (Some ''admin provision'')))
          (\<lambda>st. ret (st, [(nd_node_id (ds_node x), st)], ''admin provision'')))"
        by (intro seq ret atomic part) (rule model_validate_frame(2) [OF Inr, THEN arg_cong])
      then show ?thesis using Inr by (simp add: seq_def [of "lift_res _"] as_422_def runs_def)
    qed
  qed
qed

section \<open>One token for one ticket\<close>

text \<open>A call that makes a ticket with the given hash.\<close>

definition makes_ticket :: "digest \<Rightarrow> string \<Rightarrow> enrol_move \<Rightarrow> bool" where
  "makes_ticket h x m = (case m of Serve (Make_Ticket rnd token _ _) \<Rightarrow> ticket_hash h rnd token = x | _ \<Rightarrow> False)"

definition accepted_stage :: "reg_stage \<Rightarrow> bool" where
  "accepted_stage st = (case st of Answered (Inr a) \<Rightarrow> ar_status a = ACCEPTED | _ \<Rightarrow> False)"

definition accepted_request :: "string \<Rightarrow> nat \<Rightarrow> enrolment \<Rightarrow> bool" where
  "accepted_request token k w = (case en_reqs w k of Some (q, st) \<Rightarrow> rq_token q = token \<and> accepted_stage st | None \<Rightarrow> False)"

text \<open>The request has not looked its ticket up yet.\<close>

definition unresolved :: "nat \<Rightarrow> enrolment \<Rightarrow> bool" where
  "unresolved k w = (case en_reqs w k of Some (_, st) \<Rightarrow> st = Arrived | None \<Rightarrow> True)"

lemma tickets_same_but_pending: "same_but_pending s t \<Longrightarrow> ct_tickets t = ct_tickets s"
  unfolding same_but_pending_def by auto

lemma fetch_db: "get_agent_desired_state h redis now auth s = (r, t) \<Longrightarrow> sr_db t = sr_db s"
  using state_read_db
  by (auto simp: get_agent_desired_state_def seq_def split: sum.splits option.splits prod.splits)

lemma serve_tickets:
  assumes "enrol_run h op s = (r, t)" "\<not> makes_ticket h x (Serve op)"
  shows "keeps_spent x (sr_db s) (sr_db t)"
proof -
  have keep: "runs (keeps_spent x) (seq m (\<lambda>y. ret (f y)))" if "runs (keeps_spent x) m"
    for m :: "(control, 'b) eff" and f :: "'b \<Rightarrow> outcome"
    using that by (intro tick.runs_seq tick.runs_ret)
  have same: "runs (keeps_spent x) m" if "\<And>s y t. m s = (y, t) \<Longrightarrow> ct_tickets t = ct_tickets s"
    for m :: "(control, 'b) eff"
    using that by (intro runsI keeps_spent_same)
  have db: "keeps_spent x (sr_db s) (sr_db t)" if "on_db m s = (r, t)" "runs (keeps_spent x) m" for m
    using runsD [OF runs_on_db [OF that(2)] that(1)] .
  show ?thesis
  proof (cases op)
    case (Issue_Token rnd now n token agent ttl)
    have "runs (keeps_spent x) (issue_node_token h rnd now n token agent ttl)" by (rule same) (rule tickets_token_calls(1))
    from db [OF _ keep [OF this]] show ?thesis using assms(1) Issue_Token by simp
  next
    case (Rotate_Token rnd now i ttl)
    have "runs (keeps_spent x) (rotate_token h rnd now i ttl)" by (rule same) (rule tickets_token_calls(2))
    from db [OF _ keep [OF this]] show ?thesis using assms(1) Rotate_Token by simp
  next
    case (Revoke_Token token)
    have "runs (keeps_spent x) (revoke h token)" by (rule same) (rule tickets_token_calls(3))
    from db [OF _ keep [OF this]] show ?thesis using assms(1) Revoke_Token by simp
  next
    case (Make_Ticket rnd token n e)
    have "runs (keeps_spent x) (create_enrollment_token h rnd token n e)"
      by (rule keeps_spent_handler) (use assms(2) Make_Ticket in \<open>simp add: makes_ticket_def\<close>)
    from db [OF _ keep [OF this]] show ?thesis using assms(1) Make_Ticket by simp
  next
    case (Drop_Ticket i)
    have "runs (keeps_spent x) (modify (delete_ticket i))" by (simp add: runs_def keeps_spent_delete)
    from db [OF _ keep [OF this]] show ?thesis using assms(1) Drop_Ticket by simp
  next
    case (Approve i)
    have "runs (keeps_spent x) (approve_registration i)"
      by (rule same) (auto simp: approve_registration_def set_status_def update_pending_def split: if_splits)
    from db [OF _ keep [OF this]] show ?thesis using assms(1) Approve by simp
  next
    case (Reject i)
    have "runs (keeps_spent x) (reject_registration i)"
      by (rule same) (auto simp: reject_registration_def set_status_def update_pending_def split: if_splits)
    from db [OF _ keep [OF this]] show ?thesis using assms(1) Reject by simp
  next
    case (Fetch redis now auth)
    then have "sr_db t = sr_db s"
      using assms(1) fetch_db by (auto simp: seq_def split: sum.splits prod.splits)
    then show ?thesis by (simp add: tick.refl)
  next
    case (Provision_With d tk)
    have "runs (keeps_spent x) (provision_node h d (Some tk))"
    proof (rule provision_along)
      show "runs (keeps_spent x) (bind_agent_token h (nd_node_id (ds_node d)) (Some tk))"
        by (rule same) (auto simp: bind_agent_token_def elim!: write_token_cases split: if_splits)
    qed (rule tick.step_order_axioms, rule keeps_spent_thins)
    from db [OF _ keep [OF this]] show ?thesis using assms(1) Provision_With by simp
  next
    case (Edit a)
    have "runs (keeps_spent x) (admin_run a)"
    proof (rule runsI)
      fix s y t
      assume "admin_run a s = (y, t)"
      then have "thins s t" using thins_admin [of s a] by (simp add: admin_step_def)
      then show "keeps_spent x s t" by (rule keeps_spent_thins)
    qed
    from db [OF _ keep [OF this]] show ?thesis using assms(1) Edit by simp
  qed
qed

text \<open>What one stage does to the tables.\<close>

lemma stage_tables:
  assumes "register_step h cfg now q st s = (st', t)"
  shows "same_but_pending (sr_db s) (sr_db t)
    \<or> (\<exists>g d i. st = Issuing g d \<and> st' = Marking g d (is_secret i) \<and>
         issue_detailed h (rq_rnd q) (rq_node q) (literal_for cfg (rq_node q)) None None (sr_db s) = (Inr i, sr_db t))
    \<or> (\<exists>g d secret. st = Marking g d secret \<and> st' = Answered (registration_response (acceptance (rq_node q) secret (ds_generation d)))
         \<and> sr_db t = consume now g (sr_db s))"
proof (cases st)
  case Queueing
  obtain x d where x: "record_registration (sr_db s) (sr_db s) (rq_node q) (rq_host q) (sr_db s) = (x, d)" by fastforce
  have "sr_db t = d" using assms Queueing
      on_db_eq [where s = s and m = "record_registration (sr_db s) (sr_db s) (rq_node q) (rq_host q)", OF x] by (auto split: sum.splits)
  then show ?thesis using runsD [OF record_frame x] by simp
next
  case (Reading g)
  obtain x u where x: "desired_state_get (rq_redis q) (rq_node q) s = (x, u)" by fastforce
  then have "t = u" using assms Reading by (auto split: sum.splits option.splits)
  then show ?thesis using state_read_db [OF x] same_but_pending_self by simp
next
  case (Issuing g d)
  obtain x u where x: "issue_detailed h (rq_rnd q) (rq_node q) (literal_for cfg (rq_node q)) None None (sr_db s) = (x, u)"
    by fastforce
  show ?thesis
  proof (cases x)
    case (Inl e)
    have "u = sr_db s" using x unfolding Inl by (cases rule: issue_detailed_cases) simp_all
    then have "sr_db t = sr_db s" using assms Issuing x Inl by (auto simp: on_db_def issue_token_def seq_def)
    then show ?thesis by (simp add: same_but_pending_self)
  next
    case (Inr i)
    then show ?thesis using assms Issuing x by (auto simp: on_db_def issue_token_def seq_def)
  qed
next
  case (Marking g d secret)
  then show ?thesis using assms by (cases g) (auto simp: consume_def)
qed (use assms same_but_pending_self in \<open>auto simp: Let_def split: if_splits sum.splits\<close>)

lemma stage_tickets:
  assumes "register_step h cfg now q st s = (st', t)"
  shows "keeps_spent x (sr_db s) (sr_db t)"
proof -
  have "keeps_spent x d (consume now g d)" for g d
    unfolding consume_def by (cases g) (simp_all add: tick.refl keeps_spent_mark)
  then show ?thesis
    using stage_tables [OF assms] keeps_spent_same [OF tickets_same_but_pending] keeps_spent_same [OF tickets_issue] by metis
qed

lemma move_tickets:
  assumes "enrol_step h cfg m w = (r, w')" "\<not> makes_ticket h x m"
  shows "keeps_spent x (en_db w) (en_db w')"
proof (cases m)
  case (Begin k q)
  then show ?thesis using assms(1) by (auto simp: tick.refl)
next
  case (Advance k now)
  then show ?thesis
    using assms(1) stage_tickets by (fastforce simp: tick.refl split: option.splits prod.splits)
next
  case (Serve op)
  then show ?thesis using assms serve_tickets by (auto split: prod.splits)
qed

text \<open>The grant a request holds, and what it says about the tickets.\<close>

fun grant_of :: "reg_stage \<Rightarrow> grant option option" where
  "grant_of (Admitted g) = Some g"
| "grant_of (Checked g _) = Some g"
| "grant_of (Reading g) = Some g"
| "grant_of (Issuing g _) = Some g"
| "grant_of (Marking g _ _) = Some g"
| "grant_of _ = None"

definition aims :: "string \<Rightarrow> control \<Rightarrow> reg_stage \<Rightarrow> bool" where
  "aims x s st \<longleftrightarrow>
     (\<forall>g. grant_of st = Some g \<longrightarrow> (\<exists>gr. g = Some gr \<and> ticket_ids x s \<subseteq> {gt_token_id gr})) \<and>
     (accepted_stage st \<longrightarrow> spent x s)"

lemma aims_kept: "aims x s st \<Longrightarrow> tickets_ok s \<Longrightarrow> keeps_spent x s t \<Longrightarrow> aims x t st"
  unfolding aims_def keeps_spent_def by blast

lemma admission_ticket:
  assumes "admission h cfg now token node s = Inr g" "\<not> matches_global_enrollment h token (sc_enrollment_token cfg)"
  shows "\<exists>gr. g = Some gr \<and> resolve_ticket h now token s = Some gr \<and> gt_node_id gr \<in> {None, Some node}"
  using assms by (cases "resolve_ticket h now token s") (auto simp: admission_def split: if_splits)

lemma resolved_id:
  assumes "resolve_ticket h now token s = Some gr" "tickets_ok s"
  shows "ticket_ids (h token) s \<subseteq> {gt_token_id gr}" "\<not> spent (h token) s"
proof -
  obtain r where r: "ticket_by_hash (h token) s = Some r" "et_used_at r = None" "gr = \<lparr>gt_token_id = et_token r, gt_node_id = et_node_id r\<rparr>"
    using assms(1) by (auto simp: resolve_ticket_def split: option.splits if_splits)
  have m: "r \<in> set (ct_tickets s)" "et_hash r = h token" using r(1) by (auto simp: ticket_by_hash_def find_Some_iff)
  show "\<not> spent (h token) s" using m r(2) by (auto simp: spent_def)
  show "ticket_ids (h token) s \<subseteq> {gt_token_id gr}"
  proof
    fix i assume "i \<in> ticket_ids (h token) s"
    then obtain y where y: "i = et_token y" "y \<in> set (ct_tickets s)" "et_hash y = h token" by (auto simp: ticket_ids_def)
    then have "y = r" using same_row [of et_hash "ct_tickets s" y r] assms(2) m by (simp add: tickets_ok_def)
    then show "i \<in> {gt_token_id gr}" using y(1) r(3) by simp
  qed
qed

lemma mark_spends:
  assumes "tickets_ok s" "ticket_ids x s \<subseteq> {i}"
  shows "spent x (mark_used now i s)"
proof (cases "get_ticket i s")
  case None
  then have "et_token r \<noteq> i" if "r \<in> set (ct_tickets s)" for r
    using that get_ticket_unique [OF assms(1) that] by auto
  then have "ticket_ids x s = {}" using assms(2) by (auto simp: ticket_ids_def)
  then show ?thesis using None by (auto simp: mark_used_def spent_def ticket_ids_def)
next
  case (Some r)
  have only: "y = r" if "y \<in> set (ct_tickets s)" "et_hash y = x" for y
  proof -
    have "et_token y = i" using assms(2) that by (auto simp: ticket_ids_def)
    then show ?thesis using get_ticket_unique [OF assms(1) that(1)] Some by simp
  qed
  show ?thesis
  proof (cases "et_used_at r")
    case None
    have "et_used_at y \<noteq> None" if y: "y \<in> set (row_put et_token (r\<lparr>et_used_at := Some now\<rparr>) (ct_tickets s))" "et_hash y = x" for y
    proof (cases "y = r\<lparr>et_used_at := Some now\<rparr>")
      case False
      then have "y \<in> set (ct_tickets s)" using y(1) set_row_put [of et_token "r\<lparr>et_used_at := Some now\<rparr>" "ct_tickets s"] by auto
      then have "y = r" using only y(2) by blast
      moreover have "r \<noteq> r\<lparr>et_used_at := Some now\<rparr>" using None by (cases r) auto
      moreover have "distinct (map et_token (ct_tickets s))" using assms(1) by (simp add: tickets_ok_def)
      ultimately have False
        using y(1) replaced_row_gone [of et_token "ct_tickets s" "r\<lparr>et_used_at := Some now\<rparr>" r] by simp
      then show ?thesis ..
    qed simp
    then show ?thesis using Some None by (simp add: mark_used_def spent_def put_ticket_def)
  next
    case (Some now')
    then show ?thesis using only \<open>get_ticket i s = Some r\<close> by (auto simp: mark_used_def spent_def)
  qed
qed

lemma stage_aims:
  assumes "register_step h cfg now q st s = (st', t)" "aims (h (rq_token q)) (sr_db s) st" "tickets_ok (sr_db s)"
    and "\<not> matches_global_enrollment h (rq_token q) (sc_enrollment_token cfg)"
  shows "aims (h (rq_token q)) (sr_db t) st'"
proof (cases st)
  case Arrived
  then show ?thesis
    using assms(1) admission_ticket [OF _ assms(4)] resolved_id(1) [OF _ assms(3)]
    by (fastforce simp: aims_def accepted_stage_def split: sum.splits)
next
  case (Marking g d secret)
  obtain gr where gr: "g = Some gr" "ticket_ids (h (rq_token q)) (sr_db s) \<subseteq> {gt_token_id gr}"
    using assms(2) Marking by (auto simp: aims_def)
  then have "spent (h (rq_token q)) (sr_db t)" using assms(1,3) Marking mark_spends by auto
  then show ?thesis using assms(1) Marking by (auto simp: aims_def)
next
  case Queueing
  then show ?thesis using assms(1) by (auto simp: aims_def accepted_stage_def waiting_def split: sum.splits prod.splits)
next
  case (Answered r)
  then show ?thesis using assms(1,2) by simp
qed (use assms(1) aims_kept [OF assms(2,3) stage_tickets [OF assms(1)]] in
  \<open>auto simp: aims_def accepted_stage_def waiting_def Let_def split: if_splits sum.splits option.splits prod.splits\<close>)

definition ticket_inv :: "digest \<Rightarrow> string \<Rightarrow> enrolment \<Rightarrow> bool" where
  "ticket_inv h token w \<longleftrightarrow> tickets_ok (en_db w) \<and>
     (\<forall>k q st. en_reqs w k = Some (q, st) \<longrightarrow> rq_token q = token \<longrightarrow> aims (h token) (en_db w) st)"

lemma move_ticket_inv:
  assumes "ticket_inv h token w" "enrol_step h cfg m w = (r, w')" "\<not> makes_ticket h (h token) m"
    and "\<not> matches_global_enrollment h token (sc_enrollment_token cfg)"
  shows "ticket_inv h token w'"
proof -
  have keep: "keeps_spent (h token) (en_db w) (en_db w')" by (rule move_tickets [OF assms(2,3)])
  have ok: "tickets_ok (en_db w)" using assms(1) by (simp add: ticket_inv_def)
  have old: "aims (h token) (en_db w') st" if "en_reqs w k = Some (q, st)" "rq_token q = token" for k q st
    using aims_kept [OF _ ok keep] assms(1) that unfolding ticket_inv_def by blast
  have "aims (h token) (en_db w') st" if k: "en_reqs w' k = Some (q, st)" "rq_token q = token" for k q st
  proof (cases m)
    case (Begin j p)
    then show ?thesis
      using k old assms(2) by (auto simp: aims_def accepted_stage_def split: if_splits)
  next
    case (Serve op)
    then have "en_reqs w' = en_reqs w" using assms(2) by (auto split: prod.splits)
    then show ?thesis using old k by simp
  next
    case (Advance j now)
    show ?thesis
    proof (cases "en_reqs w j")
      case None
      then show ?thesis using assms(2) Advance old k by simp
    next
      case (Some p0)
      obtain p st0 where p: "p0 = (p, st0)" by (cases p0)
      obtain st1 t where s1: "register_step h cfg now p st0 (en_store w) = (st1, t)" by fastforce
      have w': "w' = w\<lparr>en_store := t, en_reqs := (en_reqs w)(j \<mapsto> (p, st1))\<rparr>"
        using assms(2) Advance Some p s1 by simp
      show ?thesis
      proof (cases "k = j")
        case True
        then have q: "q = p" "st = st1" using k(1) w' by simp_all
        have "aims (h (rq_token p)) (en_db w) st0"
          using assms(1) Some p k(2) q(1) by (auto simp: ticket_inv_def)
        then show ?thesis using stage_aims [OF s1 _ ok] assms(4) k(2) q w' by simp
      next
        case False
        then show ?thesis using old k w' by simp
      qed
    qed
  qed
  then show ?thesis using keep ok by (auto simp: ticket_inv_def keeps_spent_def)
qed

lemma moves_ticket_inv:
  "ticket_inv h token w \<Longrightarrow> \<forall>m\<in>set ms. \<not> makes_ticket h (h token) m \<Longrightarrow>
   \<not> matches_global_enrollment h token (sc_enrollment_token cfg) \<Longrightarrow> ticket_inv h token (enrol_after h cfg ms w)"
proof (induction ms arbitrary: w)
  case (Cons m ms)
  have "ticket_inv h token (snd (enrol_step h cfg m w))"
    by (rule move_ticket_inv [OF Cons.prems(1) prod.collapse [symmetric]]) (use Cons.prems in simp_all)
  then show ?case using Cons by simp
qed simp

text \<open>After the ticket is spent a request that has not looked it up is not admitted.\<close>

definition shut_out :: "string \<Rightarrow> reg_stage \<Rightarrow> bool" where
  "shut_out token st \<longleftrightarrow> st = Arrived \<or> (\<exists>e. st = Answered (Inl e))"

lemma late_request:
  assumes "ticket_inv h token w" "spent (h token) (en_db w)"
    and "\<forall>q st. en_reqs w j = Some (q, st) \<longrightarrow> rq_token q = token \<longrightarrow> shut_out token st"
    and "\<forall>m\<in>set ms. \<not> makes_ticket h (h token) m"
    and "\<not> matches_global_enrollment h token (sc_enrollment_token cfg)"
  shows "\<not> accepted_request token j (enrol_after h cfg ms w)"
  using assms(1-4)
proof (induction ms arbitrary: w)
  case Nil
  then show ?case by (auto simp: accepted_request_def accepted_stage_def shut_out_def split: option.splits reg_stage.splits)
next
  case (Cons m ms)
  obtain r w' where m: "enrol_step h cfg m w = (r, w')" by fastforce
  have no: "\<not> makes_ticket h (h token) m" using Cons.prems(4) by simp
  have inv: "ticket_inv h token w'" by (rule move_ticket_inv [OF Cons.prems(1) m no assms(5)])
  have ok: "tickets_ok (en_db w)" using Cons.prems(1) by (simp add: ticket_inv_def)
  have sp: "spent (h token) (en_db w')" using move_tickets [OF m no] Cons.prems(2) ok by (simp add: keeps_spent_def)
  have "shut_out token st" if k: "en_reqs w' j = Some (q, st)" "rq_token q = token" for q st
  proof (cases m)
    case (Begin i p)
    then show ?thesis using m k Cons.prems(3) by (auto simp: shut_out_def split: if_splits)
  next
    case (Serve op)
    then have "en_reqs w' = en_reqs w" using m by (auto split: prod.splits)
    then show ?thesis using Cons.prems(3) k by simp
  next
    case (Advance i now)
    show ?thesis
    proof (cases "en_reqs w i")
      case None
      then show ?thesis using m Advance Cons.prems(3) k by simp
    next
      case (Some p0)
      obtain p st0 where p: "p0 = (p, st0)" by (cases p0)
      obtain st1 t where s1: "register_step h cfg now p st0 (en_store w) = (st1, t)" by fastforce
      have w': "w' = w\<lparr>en_store := t, en_reqs := (en_reqs w)(i \<mapsto> (p, st1))\<rparr>" using m Advance Some p s1 by simp
      show ?thesis
      proof (cases "j = i")
        case True
        then have q: "q = p" "st = st1" using k(1) w' by simp_all
        have st0: "shut_out token st0" using Cons.prems(3) Some p True k(2) q(1) by simp
        have "st0 = Arrived \<Longrightarrow> \<exists>e. admission h cfg now (rq_token p) (rq_node p) (en_db w) = Inl e"
        proof (cases "admission h cfg now (rq_token p) (rq_node p) (en_db w)")
          case (Inr g)
          then obtain gr where "resolve_ticket h now token (en_db w) = Some gr"
            using admission_ticket [of h cfg now token "rq_node p" "en_db w" g] assms(5) k(2) q(1) by auto
          then show ?thesis using resolved_id(2) [OF _ ok] Cons.prems(2) by blast
        qed simp
        then show ?thesis using s1 st0 q by (auto simp: shut_out_def)
      next
        case False
        then show ?thesis using Cons.prems(3) k w' by simp
      qed
    qed
  qed
  then show ?case using Cons.IH [OF inv sp] Cons.prems(4) m by simp
qed

text \<open>C15: One ticket buys one agent token, except for requests that overlap.  Take any interleaving of the
  database transactions of registrations with token, ticket and approval calls, edits, provisionings and
  deletions, from a server on which no registration is in progress.  When a registration has been accepted with a
  given secret, no registration that looks its ticket up afterwards is accepted with it, unless the
  secret is the global bootstrap token or a ticket with its hash is made again; so of two
  registrations that do not overlap at most one is accepted.  Overlapping ones may both be: the ticket is looked
  up at the start and marked at the end, in different transactions (\<open>interleaved_requests_share_a_ticket\<close>).\<close>

theorem ticket_buys_one_token:
  assumes "tickets_ok (sr_db (en_store w))" "en_reqs w = (\<lambda>_. None)"
    and "\<not> matches_global_enrollment h token (sc_enrollment_token cfg)"
    and "\<forall>m\<in>set (ms @ ms'). \<not> makes_ticket h (h token) m"
    and "accepted_request token i (enrol_after h cfg ms w)" "unresolved j (enrol_after h cfg ms w)"
  shows "\<not> accepted_request token j (enrol_after h cfg (ms @ ms') w)"
proof -
  let ?w = "enrol_after h cfg ms w"
  have "ticket_inv h token w" using assms(1,2) by (simp add: ticket_inv_def)
  then have inv: "ticket_inv h token ?w" by (rule moves_ticket_inv) (use assms(3,4) in simp_all)
  obtain q st where i: "en_reqs ?w i = Some (q, st)" "rq_token q = token" "accepted_stage st"
    using assms(5) by (auto simp: accepted_request_def split: option.splits)
  then have sp: "spent (h token) (en_db ?w)" using inv by (auto simp: ticket_inv_def aims_def)
  have "\<not> accepted_request token j (enrol_after h cfg ms' ?w)"
    by (rule late_request [OF inv sp _ _ assms(3)]) (use assms(4,6) in \<open>auto simp: unresolved_def shut_out_def\<close>)
  then show ?thesis by simp
qed

section \<open>Only issued tokens resolve\<close>

text \<open>The secrets issued by a call, with the nodes they stand for.\<close>

definition issued_in :: "outcome res \<Rightarrow> (string \<times> string) list" where
  "issued_in r = (case r of Inr (Issued secret node) \<Rightarrow> [(secret, node)] | _ \<Rightarrow> [])"

abbreviation hashed :: "digest \<Rightarrow> (string \<times> string) list \<Rightarrow> (string \<times> string) set" where
  "hashed h ps \<equiv> (\<lambda>(secret, node). (h secret, node)) ` set ps"

lemma tokens_same_but_pending: "same_but_pending s t \<Longrightarrow> ct_tokens t = ct_tokens s"
  unfolding same_but_pending_def by auto

lemma booked_same: "booked J s \<Longrightarrow> ct_tokens t = ct_tokens s \<Longrightarrow> booked J t"
  by (simp add: booked_def)

lemma consume_tokens [simp]: "ct_tokens (consume now g s) = ct_tokens s"
  by (auto simp: consume_def mark_used_def put_ticket_def split: option.split)

lemma issued_seq:
  assumes "seq m (\<lambda>i. ret (Issued (is_secret i) (is_node_id i))) s = (r, t)"
    and "\<And>x u. m s = (x, u) \<Longrightarrow> booked (case x of Inl _ \<Rightarrow> J | Inr i \<Rightarrow> insert (h (is_secret i), is_node_id i) J) u"
  shows "booked (J \<union> hashed h (issued_in r)) t"
  using assms(1)
proof (cases rule: seq_cases)
  case (1 e)
  then show ?thesis using assms(2) [OF 1(1)] by (simp add: issued_in_def)
next
  case (2 i u)
  then show ?thesis using assms(2) [OF 2(1)] by (auto simp: issued_in_def)
qed

lemma seq_fine: "seq m (\<lambda>_. ret Fine) s = (r, t) \<Longrightarrow> \<exists>x. m s = (x, t) \<and> issued_in r = []"
  by (auto simp: seq_def issued_in_def split: prod.splits sum.splits)

lemma stage_booked:
  assumes "booked J (sr_db s)" "register_step h cfg now q st s = (st', t)"
  shows "booked (J \<union> hashed h (issued_in (Inr (minted q st st')))) (sr_db t)"
  using stage_tables [OF assms(2)]
proof (elim disjE exE conjE)
  assume "same_but_pending (sr_db s) (sr_db t)"
  then have "booked J (sr_db t)" using booked_same [OF assms(1)] tokens_same_but_pending by blast
  then show ?thesis by (rule booked_mono) blast
next
  fix g d i
  assume st: "st = Issuing g d" "st' = Marking g d (is_secret i)"
    and i: "issue_detailed h (rq_rnd q) (rq_node q) (literal_for cfg (rq_node q)) None None (sr_db s) = (Inr i, sr_db t)"
  have "is_node_id i = rq_node q" using i by (cases rule: issue_detailed_cases) simp_all
  then show ?thesis using booked_issue [OF assms(1) i] by (simp add: st minted_def issued_in_def)
next
  fix g d secret
  assume "sr_db t = consume now g (sr_db s)"
  then have "booked J (sr_db t)" using booked_same [OF assms(1), of "sr_db t"] by simp
  then show ?thesis by (rule booked_mono) blast
qed

lemma bind_booked:
  assumes "booked J s" "bind_agent_token h n (Some t) s = (x, u)" "(h t, n) \<in> J"
  shows "booked J u"
proof (cases "get_token (literal_token_id h t) s")
  case None
  let ?r = "\<lparr>at_token = literal_token_id h t, at_hash = h t, at_node_id = n, at_agent_id = n @ ''-agent'',
             at_expires_at = None, at_revoked_at = None\<rparr>"
  have w: "write_token ?r s = (x, u)" using assms(2) None by (simp add: bind_agent_token_def)
  show ?thesis
  proof (cases rule: write_token_cases [OF w])
    case (1 e)
    then show ?thesis using assms(1) by simp
  next
    case (2 node)
    have tt: "ct_tokens u = row_put at_token ?r (ct_tokens s)" using 2(2) by (simp add: put_token_def)
    have "distinct (map at_token (row_put at_token ?r (ct_tokens s)))" using assms(1) by (simp add: booked_def distinct_row_put)
    moreover have "distinct (map at_hash (row_put at_token ?r (ct_tokens s)))"
      by (rule distinct_row_put_by) (use assms(1) 2(4) in \<open>simp_all add: booked_def\<close>)
    moreover have "(at_hash y, at_node_id y) \<in> J" if "y \<in> set (ct_tokens u)" for y
      using that assms(1,3) tt set_row_put [of at_token ?r "ct_tokens s"] by (auto simp: booked_def)
    ultimately show ?thesis using tt by (simp add: booked_def)
  qed
next
  case (Some r)
  then show ?thesis using assms(1,2) by (simp add: bind_agent_token_def)
qed

interpretation books: step_order "\<lambda>s t. booked J s \<longrightarrow> booked J t" for J
  by unfold_locales simp_all

lemma provision_raises: "provision_node h d token s = (Inl e, t) \<Longrightarrow> t = s"
  unfolding provision_node_def
  by (auto simp: seq_def split: sum.splits prod.splits dest: transaction_Inl)

lemma provision_booked:
  assumes "booked J (sr_db s)" "on_db (seq (provision_node h d (Some tk)) (\<lambda>_. ret (Issued tk (nd_node_id (ds_node d))))) s = (r, t)"
  shows "booked (J \<union> hashed h (issued_in r)) (sr_db t)"
proof -
  obtain x u where x: "provision_node h d (Some tk) (sr_db s) = (x, u)" by fastforce
  show ?thesis
  proof (cases x)
    case (Inl e)
    then have "sr_db t = sr_db s" using assms(2) x provision_raises [of h d "Some tk" "sr_db s"] by (simp add: on_db_def seq_def)
    then show ?thesis using booked_mono [OF assms(1)] by simp
  next
    case (Inr y)
    let ?J = "insert (h tk, nd_node_id (ds_node d)) J"
    have run: "runs (\<lambda>s t. booked ?J s \<longrightarrow> booked ?J t) (provision_node h d (Some tk))"
    proof (rule provision_along [OF books.step_order_axioms])
      show "runs (\<lambda>s t. booked ?J s \<longrightarrow> booked ?J t) (bind_agent_token h (nd_node_id (ds_node d)) (Some tk))"
        by (intro runsI impI) (rule bind_booked, assumption+, simp)
    qed (use booked_thins in blast)
    have "booked ?J u" using runsD [OF run x] booked_mono [OF assms(1), of ?J] by blast
    moreover have "r = Inr (Issued tk (nd_node_id (ds_node d)))" "sr_db t = u"
      using assms(2) x Inr by (auto simp: on_db_def seq_def)
    ultimately show ?thesis by (simp add: issued_in_def)
  qed
qed

lemma serve_booked:
  assumes "booked J (sr_db s)" "enrol_run h op s = (r, t)"
  shows "booked (J \<union> hashed h (issued_in r)) (sr_db t)"
proof -
  have quiet: "booked (J \<union> hashed h (issued_in r)) (sr_db t)"
    if "on_db (seq m (\<lambda>_. ret Fine)) s = (r, t)" "\<And>x u. m (sr_db s) = (x, u) \<Longrightarrow> booked J u" for m :: "(control, 'b) eff"
    using that(1)
  proof (cases rule: on_db_cases)
    case (1 d)
    then show ?thesis using seq_fine [OF 1(1)] that(2) by auto
  qed
  have same: "\<And>x u. m (sr_db s) = (x, u) \<Longrightarrow> booked J u" if "\<And>x u. m (sr_db s) = (x, u) \<Longrightarrow> ct_tokens u = ct_tokens (sr_db s)"
    for m :: "(control, 'b) eff"
    using booked_same [OF assms(1)] that by blast
  show ?thesis
  proof (cases op)
    case (Issue_Token rnd now n token agent ttl)
    from assms(2) [unfolded Issue_Token enrol_run.simps] show ?thesis
      by (cases rule: on_db_cases) (auto elim!: issued_seq dest: booked_token_calls(1) [OF assms(1)])
  next
    case (Rotate_Token rnd now i ttl)
    from assms(2) [unfolded Rotate_Token enrol_run.simps] show ?thesis
      by (cases rule: on_db_cases) (auto elim!: issued_seq dest: booked_token_calls(2) [OF assms(1)])
  next
    case (Revoke_Token token)
    show ?thesis
      by (rule quiet [OF assms(2) [unfolded Revoke_Token enrol_run.simps]]) (rule booked_token_calls(3) [OF assms(1)])
  next
    case (Make_Ticket rnd token n e)
    show ?thesis
      by (rule quiet [OF assms(2) [unfolded Make_Ticket enrol_run.simps]], rule same, rule handler_tokens)
  next
    case (Drop_Ticket i)
    show ?thesis
      by (rule quiet [OF assms(2) [unfolded Drop_Ticket enrol_run.simps]], rule same)
         (auto simp: delete_ticket_def del_ticket_def)
  next
    case (Approve i)
    show ?thesis
      by (rule quiet [OF assms(2) [unfolded Approve enrol_run.simps]], rule same)
         (auto simp: approve_registration_def set_status_def update_pending_def split: if_splits)
  next
    case (Reject i)
    show ?thesis
      by (rule quiet [OF assms(2) [unfolded Reject enrol_run.simps]], rule same)
         (auto simp: reject_registration_def set_status_def update_pending_def split: if_splits)
  next
    case (Fetch redis now auth)
    then have "sr_db t = sr_db s"
      using assms(2) fetch_db by (auto simp: seq_def split: sum.splits prod.splits)
    then show ?thesis using booked_mono [OF assms(1)] by simp
  next
    case (Provision_With d tk)
    show ?thesis by (rule provision_booked [OF assms(1) assms(2) [unfolded Provision_With enrol_run.simps]])
  next
    case (Edit a)
    show ?thesis
    proof (rule quiet [OF assms(2) [unfolded Edit enrol_run.simps]])
      fix x u
      assume "admin_run a (sr_db s) = (x, u)"
      then have "thins (sr_db s) u" using thins_admin [of "sr_db s" a] by (simp add: admin_step_def)
      then show "booked J u" using booked_thins [OF assms(1)] by blast
    qed
  qed
qed

lemma move_booked:
  assumes "booked J (en_db w)" "enrol_step h cfg m w = (r, w')"
  shows "booked (J \<union> hashed h (issued_in r)) (en_db w')"
proof (cases m)
  case (Begin k q)
  then have "en_db w' = en_db w" using assms(2) by auto
  then show ?thesis using booked_mono [OF assms(1)] by simp
next
  case (Serve op)
  then show ?thesis using assms serve_booked by (auto split: prod.splits)
next
  case (Advance k now)
  show ?thesis
  proof (cases "en_reqs w k")
    case None
    then show ?thesis using assms Advance booked_mono [OF assms(1)] by simp
  next
    case (Some p0)
    obtain p st0 where p: "p0 = (p, st0)" by (cases p0)
    obtain st1 t where s1: "register_step h cfg now p st0 (en_store w) = (st1, t)" by fastforce
    show ?thesis using stage_booked [OF assms(1) s1] assms(2) Advance Some p s1 by auto
  qed
qed

lemma history_booked:
  assumes "booked J (en_db w)"
  shows "booked (J \<union> hashed h (concat (map (\<lambda>x. issued_in (snd x)) (enrol_outcomes h cfg ms w)))) (en_db (enrol_after h cfg ms w))"
  using assms
proof (induction ms arbitrary: w J)
  case (Cons m ms)
  obtain r w' where m: "enrol_step h cfg m w = (r, w')" by fastforce
  show ?case using Cons.IH [OF move_booked [OF Cons.prems m]] m by (simp add: image_Un Un_assoc)
qed simp

lemma resolve_booked:
  assumes "booked J s" "resolve h now token s = Some p"
  shows "pr_token p = token \<and> (h token, pr_node_id p) \<in> J"
proof -
  obtain r where r: "token_by_hash (h token) s = Some r" "p = \<lparr>pr_token = token, pr_node_id = at_node_id r\<rparr>"
    using assms(2) by (auto simp: resolve_def split: option.splits if_splits)
  then have "r \<in> set (ct_tokens s)" "at_hash r = h token" by (auto simp: token_by_hash_def find_Some_iff)
  then show ?thesis using assms(1) r(2) by (auto simp: booked_def)
qed

text \<open>C16: Only issued tokens open the door, and only for their own node.  After any interleaving of the
  transactions of registrations with the other calls, from a database without tokens, a bearer token
  the server resolves to a node has the hash of a secret that was issued in that history for this node: minted by
  a registration of the node, issued or rotated for it by the administrator, or bound to it by a provisioning
  that carried it.  A registration's secret counts from the transaction that stores it, whether its answer
  reaches the agent or not.\<close>

theorem only_issued_tokens_resolve:
  assumes "ct_tokens (sr_db (en_store w)) = []"
    and "resolve h now token (sr_db (en_store (enrol_after h cfg ms w))) = Some p"
  shows "\<exists>x\<in>set (enrol_outcomes h cfg ms w). \<exists>secret.
           snd x = Inr (Issued secret (pr_node_id p)) \<and> h secret = h token"
proof -
  let ?tr = "enrol_outcomes h cfg ms w"
  have "booked {} (en_db w)" using assms(1) by (simp add: booked_def)
  from resolve_booked [OF history_booked [OF this] assms(2)]
  have "(h token, pr_node_id p) \<in> hashed h (concat (map (\<lambda>x. issued_in (snd x)) ?tr))" by simp
  then obtain x y where y: "x \<in> set ?tr" "y \<in> set (issued_in (snd x))"
    "(h token, pr_node_id p) = (case y of (secret, node) \<Rightarrow> (h secret, node))" by auto
  then have "snd x = Inr (Issued (fst y) (pr_node_id p))" "h (fst y) = h token"
    by (auto simp: issued_in_def split: sum.splits outcome.splits prod.splits)
  then show ?thesis using y(1) by metis
qed

section \<open>The gate\<close>

lemma response_accepted:
  assumes "registration_response (acceptance node secret g) = Inr a"
  shows "a = acceptance node secret g"
  using response_Inr [OF assms] .

definition tokens_ok :: "control \<Rightarrow> bool" where
  "tokens_ok s \<longleftrightarrow> distinct (map at_token (ct_tokens s))"

lemma issued_resolves:
  assumes "issue_detailed h rnd n token agent e s = (Inr i, t)" "tokens_ok s" "\<not> expired now e"
  shows "resolve h now (is_secret i) t = Some \<lparr>pr_token = is_secret i, pr_node_id = n\<rparr>"
  using assms(1)
proof (cases rule: issue_detailed_cases)
  case (2 i' r node)
  note issued = this
  have i: "i' = i" using issued(1) by simp
  have rows: "ct_tokens t = row_put at_token r (ct_tokens s)" using issued(2) by (simp add: put_token_def)
  have d: "distinct (map at_token (ct_tokens t))" using assms(2) rows by (simp add: tokens_ok_def distinct_row_put)
  have r: "r \<in> set (ct_tokens t)" "at_hash r = h (is_secret i)" using rows issued(4) i by simp_all
  have only: "y = r" if y: "y \<in> set (ct_tokens t)" "at_hash y = h (is_secret i)" for y
  proof (cases "y \<in> set (ct_tokens s)")
    case True
    then have "at_token y = at_token r" using issued(4,7) y(2) i by simp
    then show ?thesis using same_row [OF d y(1) r(1)] by simp
  next
    case False
    then show ?thesis using y(1) rows set_row_put [of at_token r "ct_tokens s"] by auto
  qed
  have "token_by_hash (h (is_secret i)) t \<noteq> None" using r by (auto simp: token_by_hash_def find_None_iff)
  then obtain y where y: "token_by_hash (h (is_secret i)) t = Some y" by auto
  then have "y = r" by (intro only) (auto simp: token_by_hash_def find_Some_iff)
  then show ?thesis using y issued(4) assms(3) by (simp add: resolve_def)
qed simp

lemma gate_passes:
  assumes "admission h cfg now token n (sr_db s) = Inr g"
    and "status_for n (sr_db s) \<notin> {Some ''rejected'', Some ''pending''}" "n \<in> set (known_node_ids (sr_db s))"
    and "desired_state_get redis n s = (Inr (Some d), u)"
  shows "register_gate h cfg redis now token n host s = (Inr (Inr (g, d)), u)"
  using assms by (simp add: register_gate_def seq_def Let_def)

definition gate_open ::
  "digest \<Rightarrow> server_config \<Rightarrow> bool \<times> bool \<Rightarrow> int \<Rightarrow> string \<Rightarrow> string \<Rightarrow> store \<Rightarrow> bool" where
  "gate_open h cfg redis now token node s \<longleftrightarrow>
     node \<in> set (known_node_ids (sr_db s)) \<and> status_for node (sr_db s) \<notin> {Some ''rejected'', Some ''pending''} \<and>
     (\<exists>st. fst (desired_state_get redis node s) = Inr (Some st)) \<and>
     (matches_global_enrollment h token (sc_enrollment_token cfg) \<or>
        (\<exists>g. resolve_ticket h now token (sr_db s) = Some g \<and> gt_node_id g \<in> {None, Some node}))"

definition published_number :: "bool \<times> bool \<Rightarrow> string \<Rightarrow> store \<Rightarrow> int" where
  "published_number redis node s =
     (case fst (desired_state_get redis node s) of Inr (Some st) \<Rightarrow> ds_generation st | _ \<Rightarrow> 0)"

lemma admission_open:
  "(\<exists>g. admission h cfg now token node s = Inr g) \<longleftrightarrow>
   matches_global_enrollment h token (sc_enrollment_token cfg) \<or>
   (\<exists>g. resolve_ticket h now token s = Some g \<and> gt_node_id g \<in> {None, Some node})"
  by (cases "resolve_ticket h now token s") (auto simp: admission_def)

lemma open_gate_registers:
  assumes "gate_open h cfg redis now token node s"
    and "issue_detailed h rnd node (literal_for cfg node) None None (sr_db s) = (Inr i, d)"
  shows "fst (register_agent h cfg redis rnd now token node host s) =
    registration_response (acceptance node (is_secret i) (published_number redis node s))"
proof -
  obtain g where g: "admission h cfg now token node (sr_db s) = Inr g"
    using assms(1) admission_open unfolding gate_open_def by blast
  obtain st u where u: "desired_state_get redis node s = (Inr (Some st), u)"
    using assms(1) unfolding gate_open_def by (cases "desired_state_get redis node s") auto
  have gate: "register_gate h cfg redis now token node host s = (Inr (Inr (g, st)), u)"
    by (rule gate_passes [OF g _ _ u]) (use assms(1) in \<open>simp_all add: gate_open_def\<close>)
  have "issue_detailed h rnd node (literal_for cfg node) None None (sr_db u) = (Inr i, d)"
    using assms(2) state_read_db [OF u] by simp
  then have "fst (register_finish h cfg rnd now node g st u) = registration_response (acceptance node (is_secret i) (ds_generation st))"
    unfolding register_finish_def literal_for_def [symmetric]
    by (cases g) (simp_all add: seq_def issue_token_def on_db_def acceptance_def)
  then show ?thesis using gate u by (simp add: register_agent_def seq_def published_number_def)
qed

lemma response_range:
  "registration_response (acceptance node secret g) =
     (if 1 \<le> g \<and> g \<le> INT32_MAX then Inr (acceptance node secret g) else Inl (ValueError ''desired_state_generation''))"
  by (auto simp: registration_response_def acceptance_def validate_accepted_response_def raise_if_def)

text \<open>C7: The registration gate.  In a database whose tokens and tickets have unique keys, a registration (with
  nothing in between its transactions) is accepted exactly when the
  node is known, its latest request is neither rejected nor waiting, a state is published for it, the
  secret is the global one or an unused, unexpired ticket for the node or for any node, a token can be stored,
  and the published number fits the answer.  Then the ticket is spent, and the answer
  carries the number and a token that resolves to the node.  An answer that is not an acceptance is pending,
  carries no token and leaves tokens and tickets alone.  A refusal leaves the database as it was, with one exception:
  when the published number is out of the range of the answer (above 2147483647), the
  answer fails its own validation after the token was stored and the ticket spent.\<close>

theorem registration_gate:
  assumes "register_agent h cfg redis rnd now token node host s = (r, t)" "tickets_ok (sr_db s)" "tokens_ok (sr_db s)"
  defines "storable \<equiv> \<not> isl (fst (issue_detailed h rnd node (literal_for cfg node) None None (sr_db s)))"
    and "fits \<equiv> 1 \<le> published_number redis node s \<and> published_number redis node s \<le> INT32_MAX"
    and "opened \<equiv> \<lambda>secret. resolve h now secret (sr_db t) = Some \<lparr>pr_token = secret, pr_node_id = node\<rparr> \<and>
           (matches_global_enrollment h token (sc_enrollment_token cfg) \<or> spent (h token) (sr_db t))"
  shows "((\<exists>a. r = Inr a \<and> ar_status a = ACCEPTED) \<longleftrightarrow> gate_open h cfg redis now token node s \<and> storable \<and> fits) \<and>
    (case r of
       Inl e \<Rightarrow> sr_db t = sr_db s \<or>
         (gate_open h cfg redis now token node s \<and> storable \<and> \<not> fits \<and>
          e = ValueError ''desired_state_generation'' \<and> (\<exists>secret. opened secret))
     | Inr a \<Rightarrow>
         ar_status a = ACCEPTED \<and> ar_generation a = Some (published_number redis node s) \<and>
         (\<exists>secret. ar_agent_token a = Some secret \<and> opened secret)
       \<or> ar_status a = PENDING_APPROVAL \<and> ar_agent_token a = None \<and>
         ct_tokens (sr_db t) = ct_tokens (sr_db s) \<and> ct_tickets (sr_db t) = ct_tickets (sr_db s))"
proof -
  have accepted: "\<exists>a. r = Inr a \<and> ar_status a = ACCEPTED"
    if op: "gate_open h cfg redis now token node s" and st: storable and f: fits
  proof -
    obtain i d where "issue_detailed h rnd node (literal_for cfg node) None None (sr_db s) = (Inr i, d)"
      using st unfolding storable_def
      by (metis (no_types, lifting) isl_def old.sum.exhaust prod.collapse)
    from open_gate_registers [OF op this, of host]
    have "r = Inr (acceptance node (is_secret i) (published_number redis node s))"
      using assms(1) f by (simp add: response_range fits_def)
    then show ?thesis by (simp add: acceptance_def)
  qed
  from assms(1) show ?thesis
  proof (cases rule: register_cases)
    case (refused e)
    then show ?thesis using accepted by auto
  next
    case (waits m)
    then show ?thesis
      using accepted tokens_same_but_pending [OF waits(2)] tickets_same_but_pending [OF waits(2)] by (auto simp: waiting_def)
  next
    case (issued g st i d u)
    have op: "gate_open h cfg redis now token node s"
      using issued(1-4) admission_open [of h cfg now token node "sr_db s"] unfolding gate_open_def by auto
    have n: "published_number redis node s = ds_generation st" using issued(4) by (simp add: published_number_def)
    have store: storable using issued(5) by (simp add: storable_def)
    have "resolve h now (is_secret i) d = Some \<lparr>pr_token = is_secret i, pr_node_id = node\<rparr>"
      by (rule issued_resolves [OF issued(5) assms(3)]) (simp add: expired_def)
    then have res: "resolve h now (is_secret i) (sr_db t) = Some \<lparr>pr_token = is_secret i, pr_node_id = node\<rparr>"
      using issued(6) by (simp add: resolve_def token_by_hash_def)
    have "spent (h token) (sr_db t)" if ng: "\<not> matches_global_enrollment h token (sc_enrollment_token cfg)"
    proof -
      obtain gr where gr: "g = Some gr" "resolve_ticket h now token (sr_db s) = Some gr"
        using admission_ticket [OF issued(1) ng] by blast
      then show ?thesis
        using ticket_marked [OF assms(2) gr(2) tickets_issue [OF issued(5)]] issued(6) by (simp add: consume_def)
    qed
    then have o: "opened (is_secret i)" using res by (auto simp: opened_def)
    show ?thesis
    proof (cases fits)
      case True
      then have r: "r = Inr (acceptance node (is_secret i) (ds_generation st))" using issued(7) n by (simp add: response_range fits_def)
      show ?thesis using op store True o n unfolding r by (auto simp: acceptance_def)
    next
      case False
      then have r: "r = Inl (ValueError ''desired_state_generation'')"
        using issued(7) n by (auto simp: response_range fits_def)
      show ?thesis using op store False o unfolding r by auto
    qed
  qed
qed

section \<open>The approval queue\<close>

definition one_waiting :: "control \<Rightarrow> bool" where
  "one_waiting s \<longleftrightarrow> distinct (map pd_node_id (filter (\<lambda>r. pd_status r = ''pending'') (ct_pending s)))"

lemma one_waiting_alt:
  "one_waiting s \<Longrightarrow> \<not> (\<exists>r\<in>set (ct_pending s). pd_node_id r = n \<and> pd_status r = ''pending'') \<Longrightarrow>
   one_waiting (s\<lparr>ct_pending := ct_pending s @ [\<lparr>pd_id = i, pd_node_id = n, pd_hostname = host, pd_status = ''pending''\<rparr>],
                 ct_next_pending := k\<rparr>)"
  by (auto simp: one_waiting_def)

lemma update_pending_rows: "ct_pending (update_pending i f s) = map (\<lambda>r. if pd_id r = i then f r else r) (ct_pending s)"
  by (simp add: update_pending_def)

lemma one_waiting_host:
  assumes "one_waiting s"
  shows "one_waiting (update_pending i (\<lambda>r. r\<lparr>pd_hostname := host\<rparr>) s)"
proof -
  have "map pd_node_id (filter (\<lambda>r. pd_status r = ''pending'') (map (\<lambda>r. if pd_id r = i then r\<lparr>pd_hostname := host\<rparr> else r) xs)) =
      map pd_node_id (filter (\<lambda>r. pd_status r = ''pending'') xs)" for xs
    by (induction xs) auto
  then show ?thesis using assms unfolding one_waiting_def update_pending_rows by metis
qed

lemma one_waiting_decided:
  assumes "one_waiting s" "status \<noteq> ''pending''"
  shows "one_waiting (update_pending i (\<lambda>r. r\<lparr>pd_status := status\<rparr>) s)"
proof -
  have e: "filter (\<lambda>r. pd_status r = ''pending'') (map (\<lambda>r. if pd_id r = i then r\<lparr>pd_status := status\<rparr> else r) xs) =
      filter (\<lambda>r. pd_id r \<noteq> i) (filter (\<lambda>r. pd_status r = ''pending'') xs)" for xs
    using assms(2) by (induction xs) auto
  have "distinct (map pd_node_id (filter (\<lambda>r. pd_id r \<noteq> i) (filter (\<lambda>r. pd_status r = ''pending'') (ct_pending s))))"
    using assms(1) unfolding one_waiting_def by (rule distinct_map_filter)
  then show ?thesis unfolding one_waiting_def update_pending_rows e .
qed

lemma insert_pending_cases:
  assumes "insert_pending n host s = (r, t)"
  obtains (clash) e where "r = Inl (IntegrityError e)" "t = s" "\<exists>q\<in>set (ct_pending s). pd_node_id q = n \<and> pd_status q = ''pending''"
  | (added) "r = Inr ()" "\<not> (\<exists>q\<in>set (ct_pending s). pd_node_id q = n \<and> pd_status q = ''pending'')"
    "t = s\<lparr>ct_pending := ct_pending s @ [\<lparr>pd_id = ct_next_pending s, pd_node_id = n, pd_hostname = host, pd_status = ''pending''\<rparr>],
            ct_next_pending := ct_next_pending s + 1\<rparr>"
proof (cases "\<exists>q\<in>set (ct_pending s). pd_node_id q = n \<and> pd_status q = ''pending''")
  case True
  then have "r = Inl (IntegrityError ''uq_pending_registrations_node_pending'')" "t = s"
    using assms by (simp_all add: insert_pending_def list_ex_iff)
  then show ?thesis using clash True by blast
next
  case False
  then have "r = Inr ()" "t = s\<lparr>ct_pending := ct_pending s @ [\<lparr>pd_id = ct_next_pending s, pd_node_id = n, pd_hostname = host,
      pd_status = ''pending''\<rparr>], ct_next_pending := ct_next_pending s + 1\<rparr>"
    using assms by (auto simp: insert_pending_def list_ex_iff split: if_splits)
  then show ?thesis using added False by blast
qed

lemma record_once_waiting:
  assumes "one_waiting s" "record_once seen n host s = (r, t)"
  shows "one_waiting t \<and> (r = Inr () \<or> t = s \<and> (\<exists>e. r = Inl (IntegrityError e)) \<and> seen \<noteq> s)"
proof (cases "find (\<lambda>r. pd_node_id r = n \<and> pd_status r = ''pending'') (ct_pending seen)")
  case (Some q)
  then show ?thesis using assms one_waiting_host by (auto simp: record_once_def transaction_def)
next
  case None
  obtain x u where x: "insert_pending n host s = (x, u)" by fastforce
  then have run: "(r, t) = (case x of Inl e \<Rightarrow> (Inl e, s) | Inr y \<Rightarrow> (Inr y, u))"
    using assms(2) None by (simp add: record_once_def transaction_def)
  from x show ?thesis
  proof (cases rule: insert_pending_cases)
    case (clash e)
    then have "seen \<noteq> s" using None by (auto simp: find_None_iff)
    then show ?thesis using run clash(1) assms(1) by simp
  next
    case added
    then show ?thesis using run one_waiting_alt [OF assms(1) added(2)] by simp
  qed
qed

lemma record_waiting:
  assumes "one_waiting s"
  shows "one_waiting (snd (record_registration seen seen' n host s)) \<and>
         (seen' = s \<longrightarrow> fst (record_registration seen seen' n host s) = Inr ())"
proof -
  obtain r t where 1: "record_once seen n host s = (r, t)" by fastforce
  obtain r' t' where 2: "record_once seen' n host s = (r', t')" by fastforce
  show ?thesis
  proof (cases r)
    case (Inr u)
    then show ?thesis using 1 record_once_waiting [OF assms 1] by (simp add: record_registration_def catching_def)
  next
    case (Inl e)
    then obtain m where "e = IntegrityError m" "t = s" using record_once_waiting [OF assms 1] by auto
    then have "record_registration seen seen' n host s = (r', t')" using 1 2 Inl by (simp add: record_registration_def catching_def)
    then show ?thesis using record_once_waiting [OF assms 2] by auto
  qed
qed

lemma decision_waiting:
  assumes "one_waiting s"
  shows "one_waiting (snd (approve_registration i s))" "one_waiting (snd (reject_registration i s))"
  using assms by (simp_all add: approve_registration_def reject_registration_def set_status_def one_waiting_decided)

text \<open>One waiting request for a node.  Whatever stale states the two queries of a recording saw, no node
  ever has two waiting requests, when the second
  query sees the present state the recording succeeds, and approving or rejecting keeps the queue so.\<close>

theorem approval_queue_unique:
  assumes "one_waiting s"
  shows "one_waiting (snd (record_registration seen seen' n host s)) \<and>
         (seen' = s \<longrightarrow> fst (record_registration seen seen' n host s) = Inr ()) \<and>
         one_waiting (snd (approve_registration i s)) \<and> one_waiting (snd (reject_registration i s))"
proof -
  have "one_waiting (snd (record_registration seen seen' n host s)) \<and>
      (seen' = s \<longrightarrow> fst (record_registration seen seen' n host s) = Inr ())"
    by (rule record_waiting [OF assms])
  then show ?thesis using decision_waiting [OF assms] by blast
qed

end
