(* ===== verification/Agent_Server.thy ===== *)
theory Agent_Server
  imports Enrollment Node_Lifecycle
begin

text \<open>
  The agent and the control server together: the agent's session of \<open>agent/session.py\<close> with
  \<open>client/controller.py\<close> on one side and the registration and state endpoints on the other.
\<close>

section \<open>The client's view of the server\<close>

text \<open>FastAPI answers an \<open>HTTPException\<close> with its status and any other exception with 500; the text of the
  answer is an argument.  \<open>ControllerClient\_raise\_for\_status\<close> turns both into a \<open>ControllerError\<close>.\<close>

definition http_status :: "exc \<Rightarrow> int" where
  "http_status e = (case e of HTTPException c _ \<Rightarrow> c | _ \<Rightarrow> 500)"

definition raise_for_status :: "(exc \<Rightarrow> string) \<Rightarrow> string \<Rightarrow> exc \<Rightarrow> exc" where
  "raise_for_status body action e =
     ControllerError (''controller '' @ action @ '' failed with HTTP '' @ str_int (http_status e) @ '': '' @ body e)
       (Some (http_status e))"

text \<open>The world of the agent is the server's store and the number of secrets drawn so far.\<close>

type_synonym server = "store \<times> nat"

definition over_http :: "(exc \<Rightarrow> string) \<Rightarrow> string \<Rightarrow> (store, 'a) eff \<Rightarrow> (server, 'a) eff" where
  "over_http body action m w =
     (case m (fst w) of
        (Inl e, s) \<Rightarrow> (Inl (raise_for_status body action e), (s, Suc (snd w)))
      | (Inr x, s) \<Rightarrow> (Inr x, (s, Suc (snd w))))"

definition server_controller ::
  "digest \<Rightarrow> server_config \<Rightarrow> bool \<times> bool \<Rightarrow> (nat \<Rightarrow> entropy) \<Rightarrow> int \<Rightarrow> (exc \<Rightarrow> string) \<Rightarrow> string option \<Rightarrow> server controller" where
  "server_controller h cfg redis draw now body host =
     \<lparr>co_register = (\<lambda>token node w.
        over_http body ''register'' (register_agent h cfg redis (draw (snd w)) now token node host) w)\<rparr>"

definition fetch_desired_state ::
  "digest \<Rightarrow> bool \<times> bool \<Rightarrow> int \<Rightarrow> (exc \<Rightarrow> string) \<Rightarrow> string \<Rightarrow> (server, desired_state) eff" where
  "fetch_desired_state h redis now body token =
     over_http body ''fetch_desired_state'' (get_agent_desired_state h redis now (Some (''Bearer '' @ token)))"

section \<open>Reading twice\<close>

lemma desired_state_get_again:
  assumes "desired_state_get redis n s = (Inr (Some d), u)"
    and "ct_nodes (sr_db t) = ct_nodes (sr_db s)" "ct_generations (sr_db t) = ct_generations (sr_db s)"
    and "sr_cache t = sr_cache u"
  shows "fst (desired_state_get redis n t) = Inr (Some d)"
proof -
  obtain node where node: "get_node n (sr_db s) = Some node"
    using assms(1) by (auto simp: desired_state_get_def split: option.splits)
  let ?g = "nr_generation node" and ?k = "ds_cache_key n (nr_generation node)"
  have g: "?g \<noteq> 0" using assms(1) node by (auto simp: desired_state_get_def split: if_splits)
  have n: "get_node n (sr_db t) = Some node" using node assms(2) by (simp add: get_node_def)
  have gen: "get_generation n ?g (sr_db t) = get_generation n ?g (sr_db s)" using assms(3) by (simp add: get_generation_def)
  show ?thesis
  proof (cases "if fst redis then map_of (sr_cache s) ?k else None")
    case (Some c)
    then have c: "fst redis" "map_of (sr_cache s) ?k = Some c" by (simp_all split: if_splits)
    then have "model_validate_state c = Inr d \<and> u = s"
      using assms(1) node g by (auto simp: desired_state_get_def Let_def seq_def split: sum.splits)
    then show ?thesis using n g c assms(4) by (simp add: desired_state_get_def Let_def seq_def)
  next
    case None
    then obtain row where row: "get_generation n ?g (sr_db s) = Some row" "model_validate_state (gn_snapshot row) = Inr d"
      "sr_cache u = (if snd redis then dput ?k (gn_snapshot row) (sr_cache s) else sr_cache s)"
      using assms(1) node g by (auto simp: desired_state_get_def Let_def seq_def split: option.splits sum.splits if_splits)
    then show ?thesis using n g gen assms(4) None
      by (cases redis) (auto simp: desired_state_get_def Let_def seq_def split: option.splits if_splits)
  qed
qed

section \<open>Recovering from a revoked token\<close>

lemma require_agent_401: "require_agent h now auth s = Inl e \<Longrightarrow> \<exists>m. e = HTTPException 401 m"
  by (auto simp: require_agent_def split: option.splits)

lemma strip_token:
  assumes "list_all (\<lambda>c. \<not> is_space c) t"
  shows "strip t = t"
proof (cases "t = []")
  case False
  have "\<not> is_space (hd t)" "\<not> is_space (last t)" using assms False by (simp_all add: list_all_iff)
  then have "dropWhile is_space t = t" "dropWhile is_space (rev t) = rev t"
    by (simp_all add: dropWhile_eq_self_iff hd_rev)
  then show ?thesis by (simp add: strip_def strip_by_def)
qed (simp add: strip_def strip_by_def)

lemma parse_bearer_token:
  assumes "list_all (\<lambda>c. \<not> is_space c) t" "t \<noteq> []"
  shows "parse_bearer (Some (''Bearer '' @ t)) = Some t"
  using strip_token [OF assms(1)] assms(2) by (simp add: parse_bearer_def starts_with_def)

text \<open>A draw that yields a usable secret: url-safe and not colliding with a stored hash.\<close>

definition good_draw :: "digest \<Rightarrow> entropy \<Rightarrow> control \<Rightarrow> bool" where
  "good_draw h rnd s \<longleftrightarrow> list_all is_token_char (fst rnd) \<and> list_all is_token_char (snd rnd) \<and>
     (\<forall>r\<in>set (ct_tokens s). at_hash r \<noteq> h (''agt_'' @ fst rnd @ ''.'' @ snd rnd))"

lemma token_char_no_space: "is_token_char c \<Longrightarrow> \<not> is_space c"
  by (auto simp: is_token_char_def is_space_def is_alnum_def is_digit_def is_upper_def is_lower_def Let_def)

definition drawn_secret :: "entropy \<Rightarrow> string" where
  "drawn_secret rnd = ''agt_'' @ fst rnd @ ''.'' @ snd rnd"

lemma drawn_bearer:
  assumes "good_draw h rnd s"
  shows "parse_bearer (Some (''Bearer '' @ drawn_secret rnd)) = Some (drawn_secret rnd)"
proof (rule parse_bearer_token)
  have "list_all (\<lambda>c. \<not> is_space c) (fst rnd)" "list_all (\<lambda>c. \<not> is_space c) (snd rnd)"
    using assms token_char_no_space by (auto simp: good_draw_def list_all_iff)
  then show "list_all (\<lambda>c. \<not> is_space c) (drawn_secret rnd)" by (simp add: drawn_secret_def is_space_def Let_def)
qed (simp add: drawn_secret_def)

lemma good_draw_issues:
  assumes "good_draw h rnd s" "get_node n s = Some node"
  obtains i t where "issue_detailed h rnd n None None None s = (Inr i, t)" "is_secret i = drawn_secret rnd"
    "ct_nodes t = ct_nodes s" "ct_generations t = ct_generations s"
proof -
  obtain x t where x: "issue_detailed h rnd n None None None s = (x, t)" by fastforce
  from assms(1) have free: "\<not> list_ex (\<lambda>y. at_hash y = h (drawn_secret rnd) \<and> at_token y \<noteq> k) (ct_tokens s)" for k
    by (auto simp: good_draw_def drawn_secret_def list_ex_iff)
  have "isl x \<Longrightarrow> False"
    using x free assms(2)
    by (auto simp: issue_detailed_def mint_def transaction_def seq_def write_token_def drawn_secret_def Let_def split: if_splits)
  then obtain i where i: "x = Inr i" by (cases x) auto
  from x show ?thesis
  proof (cases rule: issue_detailed_cases)
    case (2 i' r node)
    have "is_secret i = drawn_secret rnd" using 2(1,6) i by (simp add: mint_def drawn_secret_def)
    then show ?thesis using that [of i t] x i 2(2) by (simp add: put_token_def)
  qed (use i in simp)
qed

lemma finish_accepts:
  assumes "get_node n (sr_db s) = Some node" "1 \<le> ds_generation d" "ds_generation d \<le> INT32_MAX"
    and "literal_for cfg n = None" "good_draw h rnd (sr_db s)"
  obtains i db where "issue_detailed h rnd n None None None (sr_db s) = (Inr i, db)" "is_secret i = drawn_secret rnd"
    "ct_nodes db = ct_nodes (sr_db s)" "ct_generations db = ct_generations (sr_db s)"
    "register_finish h cfg rnd now n g d s =
       (Inr (acceptance n (drawn_secret rnd) (ds_generation d)), s\<lparr>sr_db := consume now g db\<rparr>)"
proof -
  from good_draw_issues [OF assms(5,1)] obtain i db where
    i: "issue_detailed h rnd n None None None (sr_db s) = (Inr i, db)" "is_secret i = drawn_secret rnd"
    "ct_nodes db = ct_nodes (sr_db s)" "ct_generations db = ct_generations (sr_db s)" .
  have resp: "registration_response (acceptance n (drawn_secret rnd) (ds_generation d)) =
      Inr (acceptance n (drawn_secret rnd) (ds_generation d))"
    using assms(2,3) by (simp add: registration_response_def acceptance_def validate_accepted_response_def)
  have issue: "on_db (issue_token h rnd n None) s = (Inr (drawn_secret rnd), s\<lparr>sr_db := db\<rparr>)"
    using i(1,2) by (simp add: on_db_def issue_token_def seq_def)
  have "register_finish h cfg rnd now n g d s = (Inr (acceptance n (drawn_secret rnd) (ds_generation d)), s\<lparr>sr_db := consume now g db\<rparr>)"
    unfolding register_finish_def assms(4) [unfolded literal_for_def]
      seq_step [where m = "on_db (issue_token h rnd n None)", OF issue]
    using resp [unfolded acceptance_def]
    by (cases g) (simp_all add: seq_def on_db_def consume_def acceptance_def)
  then show ?thesis by (rule that [OF i])
qed

lemma admissible_registers:
  assumes "admission h cfg now token n (sr_db s) = Inr g"
    and "status_for n (sr_db s) \<notin> {Some ''rejected'', Some ''pending''}" "n \<in> set (known_node_ids (sr_db s))"
    and "desired_state_get redis n s = (Inr (Some d), u)" "1 \<le> ds_generation d" "ds_generation d \<le> INT32_MAX"
    and "literal_for cfg n = None" "good_draw h rnd (sr_db s)"
  obtains i db where "issue_detailed h rnd n None None None (sr_db s) = (Inr i, db)" "is_secret i = drawn_secret rnd"
    "ct_nodes db = ct_nodes (sr_db s)" "ct_generations db = ct_generations (sr_db s)"
    "register_agent h cfg redis rnd now token n host s =
       (Inr (acceptance n (drawn_secret rnd) (ds_generation d)), u\<lparr>sr_db := consume now g db\<rparr>)"
proof -
  have u: "sr_db u = sr_db s" by (rule state_read_db [OF assms(4)])
  obtain node where node: "get_node n (sr_db u) = Some node"
    using assms(4) u by (auto simp: desired_state_get_def split: option.splits)
  note gate = gate_passes [OF assms(1-4), of host]
  from finish_accepts [OF node assms(5-7), of h rnd now g] assms(8) u obtain i db where
    i: "issue_detailed h rnd n None None None (sr_db s) = (Inr i, db)" "is_secret i = drawn_secret rnd"
    "ct_nodes db = ct_nodes (sr_db s)" "ct_generations db = ct_generations (sr_db s)"
    "register_finish h cfg rnd now n g d u =
       (Inr (acceptance n (drawn_secret rnd) (ds_generation d)), u\<lparr>sr_db := consume now g db\<rparr>)" by auto
  have "register_agent h cfg redis rnd now token n host s = register_finish h cfg rnd now n g d u"
    unfolding register_agent_def seq_step [where m = "register_gate h cfg redis now token n host", OF gate] by simp
  then show ?thesis using i that by metis
qed

lemma fetch_refused:
  assumes "require_agent h now (Some (''Bearer '' @ t)) (sr_db s) = Inl e"
  shows "\<exists>e'. fetch_desired_state h redis now body t (s, k) = (Inl e', (s, Suc k)) \<and> status_code e' = Some 401"
proof -
  obtain m where "e = HTTPException 401 m" using require_agent_401 [OF assms] by blast
  then show ?thesis
    using assms by (simp add: fetch_desired_state_def over_http_def get_agent_desired_state_def seq_def
        raise_for_status_def http_status_def status_code_def)
qed

lemma fetch_granted:
  assumes "require_agent h now (Some (''Bearer '' @ t)) (sr_db s) = Inr p"
    and "fst (desired_state_get redis (pr_node_id p) s) = Inr (Some d)"
  shows "\<exists>w. fetch_desired_state h redis now body t (s, k) = (Inr d, w) \<and> sr_db (fst w) = sr_db s"
proof -
  obtain v where v: "desired_state_get redis (pr_node_id p) s = (Inr (Some d), v)"
    using assms(2) by (cases "desired_state_get redis (pr_node_id p) s") simp
  then show ?thesis
    using assms(1) state_read_db [OF v]
    by (simp add: fetch_desired_state_def over_http_def get_agent_desired_state_def seq_def)
qed

lemma consume_frame [simp]: "ct_nodes (consume now g s) = ct_nodes s" "ct_generations (consume now g s) = ct_generations s"
  by (auto simp: consume_def mark_used_def put_ticket_def split: option.split)

text \<open>C12: The agent and the server recover from a lost token together.  When an agent of a published,
  approved node presents a token the server does not resolve (revoked, expired, rotated or never issued),
  and the server would admit a registration with the agent's enrollment secret, one call fetches the node's
  published state: the agent registers, holds and stores the new token, and the server resolves it to the node.\<close>

theorem revoked_agent_recovers:
  fixes st :: store
  assumes "cfg_requested_node_id acfg = Some (x # xs)" "ag_cached s = Some i" "id_token i = Some t0" "ag_world s = (st, k)"
    and "require_agent h now (Some (''Bearer '' @ t0)) (sr_db st) = Inl e"
    and "admission h cfg now (or_empty (cfg_enrollment_token acfg)) (x # xs) (sr_db st) = Inr g"
    and "status_for (x # xs) (sr_db st) \<notin> {Some ''rejected'', Some ''pending''}" "x # xs \<in> set (known_node_ids (sr_db st))"
    and "desired_state_get redis (x # xs) st = (Inr (Some d), u)" "1 \<le> ds_generation d" "ds_generation d \<le> INT32_MAX"
    and "literal_for cfg (x # xs) = None" "good_draw h (draw (Suc k)) (sr_db st)" "tokens_ok (sr_db st)"
  shows "\<exists>s' i'. session_call acfg (server_controller h cfg redis draw now body host)
             (fetch_desired_state h redis now body) s = (Inr d, s') \<and>
           ag_cached s' = Some i' \<and> load_identity s' (x # xs) = i' \<and> id_token i' = Some (drawn_secret (draw (Suc k))) \<and>
           resolve h now (drawn_secret (draw (Suc k))) (sr_db (fst (ag_world s'))) =
             Some \<lparr>pr_token = drawn_secret (draw (Suc k)), pr_node_id = x # xs\<rparr>"
proof -
  let ?n = "x # xs" and ?t = "drawn_secret (draw (Suc k))"
  let ?r = "acceptance ?n ?t (ds_generation d)"
  obtain e' where refused: "fetch_desired_state h redis now body t0 (ag_world s) = (Inl e', (st, Suc k))" "status_code e' = Some 401"
    using fetch_refused [OF assms(5)] assms(4) by metis
  from admissible_registers [OF assms(6-13), of host] obtain iss db where
    reg: "issue_detailed h (draw (Suc k)) ?n None None None (sr_db st) = (Inr iss, db)" "is_secret iss = ?t"
      "ct_nodes db = ct_nodes (sr_db st)" "ct_generations db = ct_generations (sr_db st)"
      "register_agent h cfg redis (draw (Suc k)) now (or_empty (cfg_enrollment_token acfg)) ?n host st =
         (Inr ?r, u\<lparr>sr_db := consume now g db\<rparr>)" .
  let ?u = "u\<lparr>sr_db := consume now g db\<rparr>"
  have co: "co_register (server_controller h cfg redis draw now body host) (or_empty (cfg_enrollment_token acfg)) ?n (st, Suc k) =
      (Inr ?r, (?u, Suc (Suc k)))"
    using reg(5) by (simp add: server_controller_def over_http_def)
  have "resolve h now ?t db = Some \<lparr>pr_token = ?t, pr_node_id = ?n\<rparr>"
    using issued_resolves [OF reg(1) assms(14), of now] reg(2) by (simp add: expired_def)
  then have res: "resolve h now ?t (sr_db ?u) = Some \<lparr>pr_token = ?t, pr_node_id = ?n\<rparr>"
    by (simp add: resolve_def token_by_hash_def)
  have ra: "require_agent h now (Some (''Bearer '' @ ?t)) (sr_db ?u) = Inr \<lparr>pr_token = ?t, pr_node_id = ?n\<rparr>"
    unfolding require_agent_def drawn_bearer [OF assms(13)] option.case res ..
  have again: "fst (desired_state_get redis ?n ?u) = Inr (Some d)"
    by (rule desired_state_get_again [OF assms(9)]) (simp_all add: reg(3,4))
  obtain w where w: "fetch_desired_state h redis now body ?t (?u, Suc (Suc k)) = (Inr d, w)" "sr_db (fst w) = sr_db ?u"
    using fetch_granted [OF ra, of redis d body "Suc (Suc k)"] again by auto
  have "\<exists>s'. session_call acfg (server_controller h cfg redis draw now body host) (fetch_desired_state h redis now body) s = (Inr d, s') \<and>
      ag_world s' = w \<and> ag_cached s' = Some (fresh_identity ?r) \<and>
      load_identity s' ?n = fresh_identity ?r \<and> id_token (fresh_identity ?r) = Some ?t"
    by (rule call_heals [OF assms(1-3) refused co _ _ _ w(1)])
       (simp_all add: acceptance_def validate_accepted_response_def)
  then show ?thesis using res w(2) by auto
qed

section \<open>Two registrations at the same time\<close>

text \<open>The ticket is read in one transaction and marked used in another: what two requests that interleave get.\<close>

definition race ::
  "digest \<Rightarrow> server_config \<Rightarrow> bool \<times> bool \<Rightarrow> int \<Rightarrow> entropy \<Rightarrow> entropy \<Rightarrow> string \<Rightarrow> string \<Rightarrow> store \<Rightarrow>
   registration res list" where
  "race h cfg redis now rnd rnd' token node s =
     (case register_gate h cfg redis now token node None s of
        (Inr (Inr (g, st)), s1) \<Rightarrow>
          (case register_gate h cfg redis now token node None s1 of
             (Inr (Inr (g', st')), s2) \<Rightarrow>
               (case register_finish h cfg rnd now node g st s2 of
                  (r, s3) \<Rightarrow> [r, fst (register_finish h cfg rnd' now node g' st' s3)])
           | _ \<Rightarrow> [])
      | _ \<Rightarrow> [])"

text \<open>Both requests are accepted, and one ticket has bought two tokens.\<close>

lemma interleaved_requests_share_a_ticket:
  assumes "admission h cfg now token n (sr_db s) = Inr g"
    and "status_for n (sr_db s) \<notin> {Some ''rejected'', Some ''pending''}" "n \<in> set (known_node_ids (sr_db s))"
    and "desired_state_get redis n s = (Inr (Some d), u)" "1 \<le> ds_generation d" "ds_generation d \<le> INT32_MAX"
    and "literal_for cfg n = None" "good_draw h rnd (sr_db s)" "good_draw h rnd' (sr_db s)"
    and "h (drawn_secret rnd) \<noteq> h (drawn_secret rnd')"
  shows "race h cfg redis now rnd rnd' token n s =
    [Inr (acceptance n (drawn_secret rnd) (ds_generation d)), Inr (acceptance n (drawn_secret rnd') (ds_generation d))]"
proof -
  have u: "sr_db u = sr_db s" by (rule state_read_db [OF assms(4)])
  obtain u' where u': "desired_state_get redis n u = (Inr (Some d), u')"
    using desired_state_get_again [OF assms(4), of u] u by (cases "desired_state_get redis n u") simp
  have db: "sr_db u' = sr_db s" using state_read_db [OF u'] u by simp
  obtain node where node: "get_node n (sr_db u') = Some node"
    using assms(4) db by (auto simp: desired_state_get_def split: option.splits)
  note gate1 = gate_passes [OF assms(1-4), of None]
  have gate2: "register_gate h cfg redis now token n None u = (Inr (Inr (g, d)), u')"
    by (rule gate_passes) (use assms(1-3) u u' in simp_all)
  have draw: "good_draw h rnd (sr_db u')" using assms(8) db by simp
  from finish_accepts [OF node assms(5-7) draw, of now g] obtain i d1 where
    i0: "issue_detailed h rnd n None None None (sr_db u') = (Inr i, d1)" "is_secret i = drawn_secret rnd"
    "ct_nodes d1 = ct_nodes (sr_db u')" "ct_generations d1 = ct_generations (sr_db u')"
    "register_finish h cfg rnd now n g d u' =
       (Inr (acceptance n (drawn_secret rnd) (ds_generation d)), u'\<lparr>sr_db := consume now g d1\<rparr>)" .
  note i = i0(1-3,5) [unfolded db]
  have "good_draw h rnd' d1"
    using i(1)
  proof (cases rule: issue_detailed_cases)
    case (2 i' r node)
    have "at_hash r = h (drawn_secret rnd)" using 2(1,4) i(2) by simp
    then show ?thesis
      using assms(9,10) set_row_put [of at_token r "ct_tokens (sr_db s)"] 2(2)
      by (auto simp: good_draw_def put_token_def drawn_secret_def)
  qed simp
  then have "good_draw h rnd' (sr_db (u'\<lparr>sr_db := consume now g d1\<rparr>))" by (simp add: good_draw_def)
  moreover have "get_node n (sr_db (u'\<lparr>sr_db := consume now g d1\<rparr>)) = Some node" using node i(3) db by (simp add: get_node_def)
  ultimately have "fst (register_finish h cfg rnd' now n g d (u'\<lparr>sr_db := consume now g d1\<rparr>)) =
      Inr (acceptance n (drawn_secret rnd') (ds_generation d))"
    using finish_accepts [OF _ assms(5-7), of "u'\<lparr>sr_db := consume now g d1\<rparr>" node h rnd' now g] by (metis fst_conv)
  then show ?thesis using gate1 gate2 i(4) by (simp add: race_def)
qed

text \<open>A rejected node stays rejected: its registrations are refused and leave no new request.\<close>

lemma rejected_is_final:
  assumes "status_for n (sr_db s) = Some ''rejected''" "admission h cfg now token n (sr_db s) = Inr g"
  shows "register_agent h cfg redis rnd now token n host s =
    (Inl (HTTPException 403 (''registration for node '' @ n @ '' was rejected by admin'')), s)"
  using assms by (simp add: register_agent_def register_gate_def seq_def Let_def)

section \<open>An example\<close>

definition example_server_config :: server_config where
  "example_server_config = \<lparr>sc_enrollment_token = None, sc_admin_token = None, sc_seed_bootstrap_node = False,
     sc_bootstrap_node_id = ''edge1'', sc_bootstrap_agent_token = ''mvp-agent-token''\<rparr>"

definition plain :: digest where
  "plain s = s"

definition example_store :: store where
  "example_store = \<lparr>sr_db = example_reported\<lparr>ct_tickets := [\<lparr>et_token = ''ent_1'', et_hash = ''one'',
     et_node_id = Some ''jp1'', et_expires_at = None, et_used_at = None\<rparr>]\<rparr>, sr_cache = []\<rparr>"

definition empty_store :: store where
  "empty_store = \<lparr>sr_db = no_data, sr_cache = []\<rparr>"

text \<open>Two requests with one ticket, one after the other.\<close>

definition example_request :: "entropy \<Rightarrow> reg_request" where
  "example_request rnd = \<lparr>rq_redis = (False, False), rq_rnd = rnd, rq_token = ''one'', rq_node = ''jp1'', rq_host = None\<rparr>"

definition example_enrolment :: "store \<Rightarrow> enrolment" where
  "example_enrolment s = \<lparr>en_store = s, en_reqs = (\<lambda>_. None)\<rparr>"

definition example_first_request :: "enrol_move list" where
  "example_first_request = Begin 0 (example_request (''ab'', ''cd'')) # replicate 6 (Advance 0 0)"

definition example_second_request :: "enrol_move list" where
  "example_second_request = Begin 1 (example_request (''ef'', ''gh'')) # replicate 6 (Advance 1 1)"

definition example_tokens :: "enrol_move list" where
  "example_tokens = [Serve (Edit (Create (example_node_in ''hk1''))), Serve (Issue_Token (''ab'', ''cd'') 0 ''hk1'' None None None)]"

lemma example_enrolment_facts:
  "(case desired_state_get (False, False) ''jp1'' example_store of (Inr (Some d), _) \<Rightarrow> ds_generation d = 1 | _ \<Rightarrow> False) \<and>
   ct_tokens (sr_db example_store) = [] \<and> ct_pending (sr_db example_store) = [] \<and>
   known_node_ids (sr_db example_store) = [''hk1'', ''jp1'']"
  by code_simp

lemma example_history_facts:
  "resolve plain 5 ''agt_ab.cd'' (sr_db (en_store (enrol_after plain example_server_config example_tokens (example_enrolment empty_store))))
     = Some \<lparr>pr_token = ''agt_ab.cd'', pr_node_id = ''hk1''\<rparr>"
  by code_simp

lemma example_first_accepted:
  "accepted_request ''one'' 0 (enrol_after plain example_server_config example_first_request (example_enrolment example_store))"
  by code_simp

lemma example_store_state:
  obtains d u where "desired_state_get (False, False) ''jp1'' example_store = (Inr (Some d), u)" "ds_generation d = 1"
  using example_enrolment_facts [THEN conjunct1]
  by (cases "desired_state_get (False, False) ''jp1'' example_store") (auto split: sum.splits option.splits)

lemma example_tables_ok: "tickets_ok (sr_db example_store)" "tokens_ok (sr_db example_store)"
  using example_enrolment_facts by (simp_all add: tickets_ok_def tokens_ok_def) (simp add: example_store_def)

lemma example_admission:
  "admission plain example_server_config 0 ''one'' ''jp1'' (sr_db example_store) = Inr (Some \<lparr>gt_token_id = ''ent_1'', gt_node_id = Some ''jp1''\<rparr>)"
  by (simp add: admission_def matches_global_enrollment_def example_server_config_def resolve_ticket_def
      ticket_by_hash_def example_store_def plain_def expired_def)

lemma example_admissible:
  "status_for ''jp1'' (sr_db example_store) \<notin> {Some ''rejected'', Some ''pending''}"
  "''jp1'' \<in> set (known_node_ids (sr_db example_store))"
  "literal_for example_server_config ''jp1'' = None"
  "good_draw plain (''ab'', ''cd'') (sr_db example_store)"
  using example_enrolment_facts
  by (simp_all add: status_for_def literal_for_def example_server_config_def good_draw_def is_token_char_def is_alnum_def
      is_lower_def Let_def)

theorem registration_gate_witness:
  "\<exists>t. register_agent plain example_server_config (False, False) (''ab'', ''cd'') 0 ''one'' ''jp1'' None example_store =
     (Inr (acceptance ''jp1'' ''agt_ab.cd'' 1), t) \<and> spent ''one'' (sr_db t) \<and>
     resolve plain 0 ''agt_ab.cd'' (sr_db t) = Some \<lparr>pr_token = ''agt_ab.cd'', pr_node_id = ''jp1''\<rparr>"
proof -
  obtain d u where d: "desired_state_get (False, False) ''jp1'' example_store = (Inr (Some d), u)" "ds_generation d = 1"
    by (rule example_store_state)
  have gen: "1 \<le> ds_generation d" "ds_generation d \<le> INT32_MAX" using d(2) by (simp_all add: INT32_MAX_def)
  from admissible_registers [OF example_admission example_admissible(1,2) d(1) gen example_admissible(3,4), of None]
  obtain t where t: "register_agent plain example_server_config (False, False) (''ab'', ''cd'') 0 ''one'' ''jp1'' None example_store =
      (Inr (acceptance ''jp1'' ''agt_ab.cd'' 1), t)" using d(2) by (auto simp: drawn_secret_def)
  have "\<not> matches_global_enrollment plain ''one'' (sc_enrollment_token example_server_config)"
    by (simp add: matches_global_enrollment_def example_server_config_def)
  then show ?thesis
    using registration_gate [OF t example_tables_ok] t by (auto simp: acceptance_def plain_def)
qed

lemma other_request_untouched:
  "j \<noteq> k \<Longrightarrow> en_reqs (snd (enrol_step h cfg (Advance k now) w)) j = en_reqs w j"
  by (auto split: option.split prod.split)

lemma example_second_unresolved:
  "unresolved 1 (enrol_after plain example_server_config example_first_request (example_enrolment example_store))"
proof -
  have "en_reqs (enrol_after plain example_server_config (replicate n (Advance 0 0)) w) 1 = en_reqs w 1" for n w
    by (induction n arbitrary: w) (simp_all add: other_request_untouched del: enrol_step.simps)
  then show ?thesis
    by (simp add: example_first_request_def example_enrolment_def unresolved_def)
qed

theorem ticket_buys_one_token_witness:
  "\<not> accepted_request ''one'' 1 (enrol_after plain example_server_config (example_first_request @ example_second_request)
       (example_enrolment example_store))"
  by (rule ticket_buys_one_token [OF _ _ _ _ example_first_accepted example_second_unresolved])
     (simp_all add: example_enrolment_def example_tables_ok matches_global_enrollment_def example_server_config_def
        example_first_request_def example_second_request_def makes_ticket_def)

theorem only_issued_tokens_resolve_witness:
  "\<exists>x\<in>set (enrol_outcomes plain example_server_config example_tokens (example_enrolment empty_store)). \<exists>secret.
     snd x = Inr (Issued secret ''hk1'') \<and> plain secret = plain ''agt_ab.cd''"
  using only_issued_tokens_resolve [OF _ example_history_facts]
  by (simp add: example_enrolment_def empty_store_def no_data_def)

theorem approval_queue_unique_witness:
  "one_waiting (snd (record_registration no_data (snd (record_registration no_data no_data ''n'' None no_data)) ''n'' None
     (snd (record_registration no_data no_data ''n'' None no_data))))"
proof -
  have "one_waiting no_data" by (simp add: one_waiting_def no_data_def)
  then have "one_waiting (snd (record_registration no_data no_data ''n'' None no_data))"
    using approval_queue_unique by blast
  then show ?thesis using approval_queue_unique by blast
qed

definition example_lost_agent :: "server agent" where
  "example_lost_agent = \<lparr>ag_world = (example_store, 0), ag_nodes = [''jp1''], ag_files = [],
     ag_cached = Some \<lparr>id_node = Some ''jp1'', id_agent = None, id_token = Some ''agt_old'', id_generation = None, id_last_status = None\<rparr>,
     ag_ack = None\<rparr>"

theorem revoked_agent_recovers_witness:
  "\<exists>d s'. session_call \<lparr>cfg_requested_node_id = Some ''jp1'', cfg_enrollment_token = Some ''one''\<rparr>
      (server_controller plain example_server_config (False, False) (\<lambda>_. (''ab'', ''cd'')) 0 (\<lambda>_. []) None)
      (fetch_desired_state plain (False, False) 0 (\<lambda>_. [])) example_lost_agent = (Inr d, s') \<and> ds_generation d = 1"
proof -
  obtain d u where d: "desired_state_get (False, False) ''jp1'' example_store = (Inr (Some d), u)" "ds_generation d = 1"
    by (rule example_store_state)
  have gen: "1 \<le> ds_generation d" "ds_generation d \<le> INT32_MAX" using d(2) by (simp_all add: INT32_MAX_def)
  have b: "parse_bearer (Some (''Bearer '' @ ''agt_old'')) = Some ''agt_old''"
    by (rule parse_bearer_token) (simp_all add: is_space_def Let_def)
  have "resolve plain 0 ''agt_old'' (sr_db example_store) = None"
    using example_enrolment_facts by (simp add: resolve_def token_by_hash_def)
  then have lost: "require_agent plain 0 (Some (''Bearer '' @ ''agt_old'')) (sr_db example_store) =
      Inl (HTTPException 401 ''unknown agent token'')"
    unfolding require_agent_def b by simp
  let ?cfg = "\<lparr>cfg_requested_node_id = Some ''jp1'', cfg_enrollment_token = Some ''one''\<rparr>"
  let ?i = "\<lparr>id_node = Some ''jp1'', id_agent = None, id_token = Some ''agt_old'', id_generation = None, id_last_status = None\<rparr>"
  have pre: "cfg_requested_node_id ?cfg = Some ''jp1''" "ag_cached example_lost_agent = Some ?i" "id_token ?i = Some ''agt_old''"
    "ag_world example_lost_agent = (example_store, 0)" "or_empty (cfg_enrollment_token ?cfg) = ''one''"
    by (simp_all add: example_lost_agent_def or_empty_def)
  from revoked_agent_recovers [OF pre(1-4) lost _ example_admissible(1,2) d(1) gen example_admissible(3) _ example_tables_ok(2),
      where g = "Some \<lparr>gt_token_id = ''ent_1'', gt_node_id = Some ''jp1''\<rparr>" and draw = "\<lambda>_. (''ab'', ''cd'')"]
  show ?thesis using example_admission example_admissible(4) pre(5) d(2) by metis
qed

end

