(* ===== verification/Event_Channel.thy ===== *)
theory Event_Channel
  imports Watch Agent_Server
begin

text \<open>
  The doorbell line from the server to the agent: \<open>core/events.py\<close>, the WebSocket session of
  \<open>api/v1/agent\_ws.py\<close>, the announcements of \<open>api/v1/admin/\_helpers.py\<close> and \<open>notify\_node\<close>, and the
  whole line with the agent's watch at its end.
\<close>

section \<open>The event bus\<close>

text \<open>A queue object has an identity; \<open>eb_next\<close> is the next one.\<close>

record event_queue =
  eq_id :: nat
  eq_events :: "json list"

record event_bus =
  eb_subscribers :: "(string \<times> event_queue list) list"
  eb_next :: nat

definition MAX_QUEUE :: nat where
  "MAX_QUEUE = 64"

definition queues_of :: "string \<Rightarrow> event_bus \<Rightarrow> event_queue list" where
  "queues_of n b = (case map_of (eb_subscribers b) n of None \<Rightarrow> [] | Some qs \<Rightarrow> qs)"

definition subscribe :: "string \<Rightarrow> event_bus \<Rightarrow> nat \<times> event_bus" where
  "subscribe n b =
     (eb_next b,
      b\<lparr>eb_subscribers := dput n (queues_of n b @ [\<lparr>eq_id = eb_next b, eq_events = []\<rparr>]) (eb_subscribers b),
        eb_next := Suc (eb_next b)\<rparr>)"

definition unsubscribe :: "string \<Rightarrow> nat \<Rightarrow> event_bus \<Rightarrow> event_bus" where
  "unsubscribe n i b =
     (let qs = queues_of n b; rest = filter (\<lambda>q. eq_id q \<noteq> i) qs in
      if qs = [] \<or> i \<notin> eq_id ` set qs then b
      else if rest = [] then b\<lparr>eb_subscribers := ddel n (eb_subscribers b)\<rparr>
      else b\<lparr>eb_subscribers := dput n rest (eb_subscribers b)\<rparr>)"

definition put_nowait :: "json \<Rightarrow> event_queue \<Rightarrow> event_queue option" where
  "put_nowait e q = (if length (eq_events q) < MAX_QUEUE then Some (q\<lparr>eq_events := eq_events q @ [e]\<rparr>) else None)"

text \<open>The number of queues that took the event; a full queue keeps what it has.\<close>

definition bus_publish :: "string \<Rightarrow> json \<Rightarrow> event_bus \<Rightarrow> nat \<times> event_bus" where
  "bus_publish n e b =
     (length (filter (\<lambda>q. put_nowait e q \<noteq> None) (queues_of n b)),
      if queues_of n b = [] then b
      else b\<lparr>eb_subscribers := dput n (map (\<lambda>q. case put_nowait e q of None \<Rightarrow> q | Some q' \<Rightarrow> q') (queues_of n b))
                                 (eb_subscribers b)\<rparr>)"

definition subscriber_count :: "string \<Rightarrow> event_bus \<Rightarrow> nat" where
  "subscriber_count n b = length (queues_of n b)"

text \<open>\<open>queue.get\<close> of the writer task: the oldest event of a queue.\<close>

definition queue_get :: "string \<Rightarrow> nat \<Rightarrow> event_bus \<Rightarrow> (json \<times> event_bus) option" where
  "queue_get n i b =
     (case find (\<lambda>q. eq_id q = i) (queues_of n b) of
        None \<Rightarrow> None
      | Some q \<Rightarrow>
          (case eq_events q of
             [] \<Rightarrow> None
           | e # es \<Rightarrow>
               Some (e, b\<lparr>eb_subscribers := dput n (map (\<lambda>q. if eq_id q = i then q\<lparr>eq_events := es\<rparr> else q) (queues_of n b))
                                             (eb_subscribers b)\<rparr>)))"

section \<open>Announcements\<close>

definition opt_json :: "('a \<Rightarrow> json) \<Rightarrow> 'a option \<Rightarrow> json" where
  "opt_json f x = (case x of None \<Rightarrow> JNull | Some y \<Rightarrow> f y)"

definition hello_event :: "string \<Rightarrow> int option \<Rightarrow> json" where
  "hello_event n g = JObj [(''type'', JStr ''hello''), (''node_id'', JStr n), (''generation'', opt_json JInt g)]"

definition desired_state_updated :: "int \<Rightarrow> string option \<Rightarrow> json" where
  "desired_state_updated g reason =
     JObj [(''type'', JStr ''desired_state_updated''), (''generation'', JInt g), (''reason'', opt_json JStr reason)]"

definition snapshot_request :: "string option \<Rightarrow> json" where
  "snapshot_request reason = JObj [(''type'', JStr ''snapshot_request''), (''reason'', opt_json JStr reason)]"

text \<open>\<open>broadcast_change\<close>, after the transaction of the change.\<close>

definition broadcast_change :: "string \<Rightarrow> int \<Rightarrow> string option \<Rightarrow> event_bus \<Rightarrow> (int \<times> nat \<times> nat) \<times> event_bus" where
  "broadcast_change n g reason b =
     (case bus_publish n (desired_state_updated g reason) b of
        (delivered, b') \<Rightarrow> ((g, subscriber_count n b', delivered), b'))"

datatype notify_event = Notify_Updated | Notify_Snapshot

definition event_repr :: "notify_event \<Rightarrow> string" where
  "event_repr e = (case e of Notify_Updated \<Rightarrow> [CHR 0x27] @ ''desired_state_updated'' @ [CHR 0x27]
                           | Notify_Snapshot \<Rightarrow> [CHR 0x27] @ ''snapshot_request'' @ [CHR 0x27])"

definition no_connection :: "string \<Rightarrow> notify_event \<Rightarrow> string" where
  "no_connection n e = ''node '' @ n @ '' has no live agent connection; real-time event '' @ event_repr e @
     '' refused. The node appears disconnected from the control plane. Config changes still persist and are '' @
     ''applied on the agent'' @ [CHR 0x27] @ ''s next reconcile.''"

definition with_store :: "(store, 'a) eff \<Rightarrow> (store \<times> event_bus, 'a) eff" where
  "with_store m w = (case m (fst w) of (r, s) \<Rightarrow> (r, (s, snd w)))"

definition notify_node ::
  "bool \<times> bool \<Rightarrow> string \<Rightarrow> notify_event \<Rightarrow> string option \<Rightarrow> (store \<times> event_bus, int \<times> nat \<times> nat) eff" where
  "notify_node redis n event reason =
     seq (with_store (desired_state_get redis n)) (\<lambda>state. case state of
       None \<Rightarrow> lift_res (Inl (HTTPException 404 (''unknown node '' @ n)))
     | Some st \<Rightarrow>
         reading (\<lambda>w.
           if subscriber_count n (snd w) = 0
           then lift_res (Inl (HTTPException 409 (no_connection n event)))
           else let why = (if truthy reason then reason else Some ''manual bump'') in
             seq (case event of
                    Notify_Updated \<Rightarrow>
                      seq (with_store (on_db (bump n why))) (\<lambda>bumped. case bumped of
                         None \<Rightarrow> lift_res (Inl (AssertionError []))
                       | Some d \<Rightarrow> ret (ds_generation d, desired_state_updated (ds_generation d) why))
                  | Notify_Snapshot \<Rightarrow> ret (ds_generation st, snapshot_request reason)) (\<lambda>(g, ev).
             reading (\<lambda>w. case bus_publish n ev (snd w) of
               (delivered, b') \<Rightarrow> seq (modify (\<lambda>w. (fst w, b'))) (\<lambda>_. ret (g, subscriber_count n b', delivered))))))"

section \<open>The WebSocket session\<close>

text \<open>The close code, or the accepted principal.\<close>

definition ws_admit :: "digest \<Rightarrow> int \<Rightarrow> string option \<Rightarrow> string \<Rightarrow> control \<Rightarrow> int + principal" where
  "ws_admit h now authorization expected s =
     (case (case parse_bearer authorization of None \<Rightarrow> None | Some t \<Rightarrow> resolve h now t s) of
        None \<Rightarrow> Inl 4401
      | Some p \<Rightarrow> if pr_node_id p \<noteq> expected then Inl 4403 else Inr p)"

definition hello_of :: "string \<Rightarrow> desired_state option \<Rightarrow> json" where
  "hello_of n state = hello_event n (map_option ds_generation state)"

end
