(* ===== verification/Event_Line.thy ===== *)
theory Event_Line
  imports Event_Channel
begin

text \<open>
  The doorbell line of one node from end to end: generations that are committed and then announced, the bus,
  the connection, the agent's watch and the request for the state it makes.  The moves interleave freely, a
  connection may be lost at any moment, and other connections and other nodes use the same bus.
\<close>

section \<open>Queues by identity\<close>

definition queue_events :: "string \<Rightarrow> nat \<Rightarrow> event_bus \<Rightarrow> json list option" where
  "queue_events n i b = map_option eq_events (find (\<lambda>q. eq_id q = i) (queues_of n b))"

definition ids_bounded :: "event_bus \<Rightarrow> bool" where
  "ids_bounded b \<longleftrightarrow> (\<forall>n. \<forall>q\<in>set (queues_of n b). eq_id q < eb_next b)"

lemma queues_of_put [simp]:
  "queues_of m (b\<lparr>eb_subscribers := dput n qs (eb_subscribers b)\<rparr>) = (if m = n then qs else queues_of m b)"
  "queues_of m (b\<lparr>eb_subscribers := ddel n (eb_subscribers b)\<rparr>) = (if m = n then [] else queues_of m b)"
  "queues_of m (b\<lparr>eb_subscribers := dput n qs (eb_subscribers b), eb_next := k\<rparr>) = (if m = n then qs else queues_of m b)"
  by (simp_all add: queues_of_def)

lemma find_either: "find P (xs @ ys) = (case find P xs of None \<Rightarrow> find P ys | Some x \<Rightarrow> Some x)"
  by (induction xs) auto

lemma find_map_keep:
  "(\<And>q. P (f q) = P q) \<Longrightarrow> find P (map f qs) = map_option f (find P qs)"
  by (induction qs) auto

lemma subscribe_own:
  assumes "ids_bounded b" "subscribe n b = (i, b')"
  shows "queue_events n i b' = Some []" "ids_bounded b'"
proof -
  have e: "i = eb_next b" "b' = snd (subscribe n b)" using assms(2) by (auto simp: subscribe_def)
  have "find (\<lambda>q. eq_id q = eb_next b) (queues_of n b) = None"
    using assms(1) unfolding ids_bounded_def find_None_iff by (metis less_irrefl)
  then show "queue_events n i b' = Some []" using e by (simp add: queue_events_def subscribe_def find_either)
  show "ids_bounded b'" using assms(1) e by (auto simp: ids_bounded_def subscribe_def less_Suc_eq)
qed

lemma subscribe_other:
  assumes "queue_events n i b = Some es"
  shows "queue_events n i (snd (subscribe m b)) = Some es"
  using assms by (auto simp: queue_events_def subscribe_def find_either split: option.splits)

lemma find_other: "k \<noteq> i \<Longrightarrow> find (\<lambda>q. eq_id q = i) (filter (\<lambda>q. eq_id q \<noteq> k) qs) = find (\<lambda>q. eq_id q = i) qs"
  by (induction qs) auto

lemma queues_unsubscribe:
  "queues_of n (unsubscribe m k b) = (if n = m then filter (\<lambda>q. eq_id q \<noteq> k) (queues_of n b) else queues_of n b)"
proof (cases "queues_of m b = [] \<or> k \<notin> eq_id ` set (queues_of m b)")
  case True
  then have "filter (\<lambda>q. eq_id q \<noteq> k) (queues_of m b) = queues_of m b" by (auto simp: filter_id_conv)
  then show ?thesis using True by (auto simp: unsubscribe_def Let_def)
next
  case False
  then show ?thesis by (simp add: unsubscribe_def Let_def)
qed

lemma unsubscribe_other: "k \<noteq> i \<Longrightarrow> queue_events n i (unsubscribe m k b) = queue_events n i b"
  by (simp add: queue_events_def queues_unsubscribe find_other)

lemma bounded_unsubscribe: "ids_bounded b \<Longrightarrow> ids_bounded (unsubscribe m k b)"
  by (auto simp: ids_bounded_def unsubscribe_def Let_def)

lemma put_id: "eq_id (case put_nowait e q of None \<Rightarrow> q | Some q' \<Rightarrow> q') = eq_id q"
  by (simp add: put_nowait_def)

lemma publish_events:
  assumes "queue_events n i b = Some es"
  shows "queue_events n i (snd (bus_publish m e b)) =
    Some (if m = n \<and> length es < MAX_QUEUE then es @ [e] else es)"
proof -
  let ?f = "\<lambda>q. case put_nowait e q of None \<Rightarrow> q | Some q' \<Rightarrow> q'"
  obtain q where q: "find (\<lambda>q. eq_id q = i) (queues_of n b) = Some q" "eq_events q = es"
    using assms by (auto simp: queue_events_def)
  have ne: "queues_of n b \<noteq> []" using q(1) by auto
  have "find (\<lambda>q. eq_id q = i) (map ?f (queues_of n b)) = Some (?f q)"
    using q(1) find_map_keep [of "\<lambda>q. eq_id q = i" ?f, OF arg_cong [of _ _ "\<lambda>k. k = i", OF put_id]] by simp
  moreover have "eq_events (?f q) = (if length es < MAX_QUEUE then es @ [e] else es)"
    using q(2) by (simp add: put_nowait_def)
  ultimately show ?thesis using q ne by (auto simp: queue_events_def bus_publish_def)
qed

lemma bounded_publish: "ids_bounded b \<Longrightarrow> ids_bounded (snd (bus_publish m e b))"
  by (auto simp: ids_bounded_def bus_publish_def put_id)

lemma queue_get_events:
  assumes "queue_get n i b = Some (e, b')"
  shows "\<exists>es. queue_events n i b = Some (e # es) \<and> queue_events n i b' = Some es"
proof -
  obtain q es where q: "find (\<lambda>q. eq_id q = i) (queues_of n b) = Some q" "eq_events q = e # es"
    "b' = b\<lparr>eb_subscribers := dput n (map (\<lambda>q. if eq_id q = i then q\<lparr>eq_events := es\<rparr> else q) (queues_of n b)) (eb_subscribers b)\<rparr>"
    using assms by (auto simp: queue_get_def split: option.splits list.splits)
  let ?f = "\<lambda>q. if eq_id q = i then q\<lparr>eq_events := es\<rparr> else q"
  have f: "find (\<lambda>q. eq_id q = i) (map ?f qs) = map_option ?f (find (\<lambda>q. eq_id q = i) qs)" for qs
    by (rule find_map_keep) auto
  have "eq_id q = i" using q(1) by (auto simp: find_Some_iff)
  then have "find (\<lambda>q. eq_id q = i) (queues_of n b') = Some (q\<lparr>eq_events := es\<rparr>)"
    unfolding q(3) queues_of_put if_True simp_thms f q(1) by simp
  then show ?thesis using q(1,2) by (simp add: queue_events_def)
qed

lemma bounded_get: "ids_bounded b \<Longrightarrow> queue_get n i b = Some (e, b') \<Longrightarrow> ids_bounded b'"
  by (auto simp: ids_bounded_def queue_get_def split: option.splits list.splits if_splits)

section \<open>The line\<close>

text \<open>\<open>ln_gen\<close> is the node's committed generation, \<open>ln_due\<close> what is committed and not yet announced,
  \<open>ln_wire\<close> what was sent and not yet read, \<open>ln_dropped\<close> whether the connection's queue was ever full when
  a generation was announced, \<open>ln_asking\<close> whether a reconcile has started and not yet asked for the state,
  \<open>ln_asked\<close> the committed generation when the agent last asked.\<close>

record line =
  ln_gen :: int
  ln_due :: "int list"
  ln_bus :: event_bus
  ln_queue :: "nat option"
  ln_greeted :: bool
  ln_wire :: "json list"
  ln_dropped :: bool
  ln_watch :: watch
  ln_applied :: "int option"
  ln_asking :: bool
  ln_asked :: int
  ln_missed :: bool

datatype move =
    Commit
  | Announce int "string option"
  | Other_Subscribe string
  | Other_Unsubscribe string nat
  | Other_Publish string json
  | Connect
  | Greet
  | Forward
  | Read
  | Lose
  | Consume
  | Timeout
  | Halt
  | Ask
  | Give_Up
  | Apply

definition own_events :: "string \<Rightarrow> line \<Rightarrow> json list" where
  "own_events n s = (case ln_queue s of None \<Rightarrow> [] | Some i \<Rightarrow> (case queue_events n i (ln_bus s) of None \<Rightarrow> [] | Some es \<Rightarrow> es))"

text \<open>The move, if it is possible.  A reconcile ends after it has asked for the state and was answered, or it gives up
  before: what it raises is swallowed, the watch goes on, and the bell that started it has been emptied
  (\<open>ln_missed\<close> remembers that no later reconcile has asked since).\<close>

fun line_move :: "string \<Rightarrow> rat \<Rightarrow> move \<Rightarrow> line \<Rightarrow> line option" where
  "line_move n d Commit s = Some (s\<lparr>ln_gen := ln_gen s + 1, ln_due := ln_due s @ [ln_gen s + 1]\<rparr>)"
| "line_move n d (Announce g reason) s =
     (if g \<in> set (ln_due s)
      then Some (s\<lparr>ln_due := remove1 g (ln_due s), ln_bus := snd (broadcast_change n g reason (ln_bus s)),
                   ln_dropped := ln_dropped s \<or> MAX_QUEUE \<le> length (own_events n s)\<rparr>)
      else None)"
| "line_move n d (Other_Subscribe m) s = Some (s\<lparr>ln_bus := snd (subscribe m (ln_bus s))\<rparr>)"
| "line_move n d (Other_Unsubscribe m i) s =
     (if ln_queue s = Some i then None else Some (s\<lparr>ln_bus := unsubscribe m i (ln_bus s)\<rparr>))"
| "line_move n d (Other_Publish m e) s = Some (s\<lparr>ln_bus := snd (bus_publish m e (ln_bus s))\<rparr>)"
| "line_move n d Connect s =
     (if ln_queue s \<noteq> None then None
      else case subscribe n (ln_bus s) of
        (i, b) \<Rightarrow> Some (s\<lparr>ln_bus := b, ln_queue := Some i, ln_greeted := False, ln_wire := [], ln_dropped := False\<rparr>))"
| "line_move n d Greet s =
     (if ln_queue s = None \<or> ln_greeted s then None
      else Some (s\<lparr>ln_wire := [hello_event n (if ln_gen s = 0 then None else Some (ln_gen s))], ln_greeted := True\<rparr>))"
| "line_move n d Forward s =
     (case ln_queue s of
        None \<Rightarrow> None
      | Some i \<Rightarrow>
          if \<not> ln_greeted s then None
          else case queue_get n i (ln_bus s) of
              None \<Rightarrow> None
            | Some (e, b) \<Rightarrow> Some (s\<lparr>ln_bus := b, ln_wire := ln_wire s @ [e]\<rparr>))"
| "line_move n d Read s =
     (case ln_wire s of
        [] \<Rightarrow> None
      | e # es \<Rightarrow> Some (s\<lparr>ln_wire := es, ln_watch := ring_opt (dispatch_event e (Inr (ln_applied s))) (ln_watch s)\<rparr>))"
| "line_move n d Lose s =
     (case ln_queue s of
        None \<Rightarrow> None
      | Some i \<Rightarrow> Some (s\<lparr>ln_bus := unsubscribe n i (ln_bus s), ln_queue := None, ln_wire := []\<rparr>))"
| "line_move n d Consume s =
     (case consumer_step d (ln_watch s) of
        None \<Rightarrow> None
      | Some (ev, w) \<Rightarrow>
          if ev = Ended \<and> ln_asking s then None
          else Some (s\<lparr>ln_watch := w, ln_asking := (ln_asking s \<or> (case ev of Started _ _ \<Rightarrow> True | _ \<Rightarrow> False))\<rparr>))"
| "line_move n d Timeout s =
     (if wa_phase (ln_watch s) = Waiting
      then Some (s\<lparr>ln_watch := (ln_watch s)\<lparr>wa_phase := Running False\<rparr>, ln_asking := True\<rparr>) else None)"
| "line_move n d Halt s = Some (s\<lparr>ln_watch := (ln_watch s)\<lparr>wa_stop := True\<rparr>\<rparr>)"
| "line_move n d Ask s = (if ln_asking s then Some (s\<lparr>ln_asking := False, ln_asked := ln_gen s, ln_missed := False\<rparr>) else None)"
| "line_move n d Give_Up s =
     (case consumer_step d (ln_watch s) of
        None \<Rightarrow> None
      | Some (ev, w) \<Rightarrow>
          if ev = Ended \<and> ln_asking s then Some (s\<lparr>ln_watch := w, ln_asking := False, ln_missed := True\<rparr>) else None)"
| "line_move n d Apply s =
     (if ln_asking s then None
      else case wa_phase (ln_watch s) of Running _ \<Rightarrow> Some (s\<lparr>ln_applied := Some (ln_asked s)\<rparr>) | _ \<Rightarrow> None)"

fun line_run :: "string \<Rightarrow> rat \<Rightarrow> move list \<Rightarrow> line \<Rightarrow> line option" where
  "line_run n d [] s = Some s"
| "line_run n d (m # ms) s = (case line_move n d m s of None \<Rightarrow> None | Some t \<Rightarrow> line_run n d ms t)"

definition new_line :: line where
  "new_line = \<lparr>ln_gen = 0, ln_due = [], ln_bus = \<lparr>eb_subscribers = [], eb_next = 0\<rparr>, ln_queue = None, ln_greeted = False,
     ln_wire = [], ln_dropped = False, ln_watch = new_watch, ln_applied = None, ln_asking = False, ln_asked = 0,
     ln_missed = False\<rparr>"

section \<open>Nothing is lost on the way\<close>

definition announces :: "int \<Rightarrow> json \<Rightarrow> bool" where
  "announces g e =
     (case e of
        JObj ev \<Rightarrow> event_get ''type'' ev \<in> {JStr ''desired_state_updated'', JStr ''hello''} \<and> event_get ''generation'' ev = JInt g
      | _ \<Rightarrow> False)"

lemma announces_events [simp]: "announces g (desired_state_updated g reason)" "announces g (hello_event n (Some g))"
  by (auto simp: announces_def desired_state_updated_def hello_event_def event_get_def opt_json_def)

lemma announced_rings:
  assumes "announces g e" "\<forall>a. applied = Some a \<longrightarrow> a < g"
  shows "\<exists>r. dispatch_event e (Inr applied) = Inr (Some r)"
  using assms by (cases e; cases applied) (auto simp: announces_def dispatch_event_def json_int_def)

definition line_ok :: "string \<Rightarrow> line \<Rightarrow> bool" where
  "line_ok n s \<longleftrightarrow> ids_bounded (ln_bus s) \<and> (\<forall>i. ln_queue s = Some i \<longrightarrow> queue_events n i (ln_bus s) \<noteq> None) \<and>
     0 \<le> ln_asked s \<and> ln_asked s \<le> ln_gen s \<and> (\<forall>a. ln_applied s = Some a \<longrightarrow> a \<le> ln_asked s)"

text \<open>Where the newest generation is: the agent has asked for it or is about to, or gave up on asking, or its announcement is
  somewhere on the way, or the connection is not up, or a full queue has swallowed an announcement.\<close>

definition covered :: "string \<Rightarrow> line \<Rightarrow> bool" where
  "covered n s \<longleftrightarrow> ln_gen s \<le> ln_asked s \<or> ln_asking s \<or> ln_missed s \<or> db_reasons (wa_bell (ln_watch s)) \<noteq> [] \<or>
     ln_gen s \<in> set (ln_due s) \<or> ln_queue s = None \<or> \<not> ln_greeted s \<or> ln_dropped s \<or>
     (\<exists>e\<in>set (ln_wire s) \<union> set (own_events n s). announces (ln_gen s) e)"

lemma own_events_cong: "ln_queue t = ln_queue s \<Longrightarrow> ln_bus t = ln_bus s \<Longrightarrow> own_events n t = own_events n s"
  unfolding own_events_def by presburger

lemma own_events_publish:
  assumes "line_ok n s"
  shows "own_events n (s\<lparr>ln_bus := snd (bus_publish m e (ln_bus s))\<rparr>) =
    (if ln_queue s \<noteq> None \<and> m = n \<and> length (own_events n s) < MAX_QUEUE then own_events n s @ [e] else own_events n s)"
proof (cases "ln_queue s")
  case (Some i)
  then obtain es where "queue_events n i (ln_bus s) = Some es" using assms unfolding line_ok_def by blast
  then show ?thesis using publish_events [of n i "ln_bus s" es m e] Some by (simp add: own_events_def)
qed (simp add: own_events_def)

lemma broadcast_bus: "snd (broadcast_change n g reason b) = snd (bus_publish n (desired_state_updated g reason) b)"
  by (simp add: broadcast_change_def split_beta)

lemma ok_publish:
  assumes "line_ok n s"
  shows "line_ok n (s\<lparr>ln_bus := snd (bus_publish m e (ln_bus s))\<rparr>)"
proof -
  have "queue_events n i (snd (bus_publish m e (ln_bus s))) \<noteq> None" if "ln_queue s = Some i" for i
  proof -
    obtain es where "queue_events n i (ln_bus s) = Some es" using assms \<open>ln_queue s = Some i\<close> unfolding line_ok_def by blast
    then show ?thesis by (simp add: publish_events)
  qed
  then show ?thesis using assms by (simp add: line_ok_def bounded_publish)
qed

lemma ring_opt_reasons:
  "db_reasons (wa_bell w) \<noteq> [] \<Longrightarrow> db_reasons (wa_bell (ring_opt r w)) \<noteq> []"
  "r = Inr (Some x) \<Longrightarrow> db_reasons (wa_bell (ring_opt r w)) \<noteq> []"
  by (auto simp: ring_opt_def ring_def List.insert_def split: sum.splits option.splits)

lemma consumer_reasons:
  assumes "consumer_step d w = Some (ev, w')" "db_reasons (wa_bell w) \<noteq> []"
  shows "db_reasons (wa_bell w') \<noteq> [] \<or> (\<exists>why rs. ev = Started why rs)"
  using assms by (auto simp: consumer_step_def split: phase.splits if_splits)

lemma line_ok_move:
  assumes "line_ok n s" "line_move n d m s = Some t"
  shows "line_ok n t"
proof (cases m)
  case (Announce g reason)
  then have "t = s\<lparr>ln_due := remove1 g (ln_due s), ln_bus := snd (bus_publish n (desired_state_updated g reason) (ln_bus s)),
      ln_dropped := ln_dropped s \<or> MAX_QUEUE \<le> length (own_events n s)\<rparr>"
    using assms(2) by (auto simp: broadcast_bus split: if_splits)
  then show ?thesis using ok_publish [OF assms(1), of n "desired_state_updated g reason"] by (simp add: line_ok_def)
next
  case (Other_Publish k e)
  then show ?thesis using assms ok_publish by auto
next
  case (Other_Subscribe k)
  then have t: "t = s\<lparr>ln_bus := snd (subscribe k (ln_bus s))\<rparr>" using assms(2) by simp
  have "ids_bounded (snd (subscribe k (ln_bus s)))" using subscribe_own(2) [of "ln_bus s" k] assms(1)
    by (cases "subscribe k (ln_bus s)") (simp add: line_ok_def)
  moreover have "queue_events n i (snd (subscribe k (ln_bus s))) \<noteq> None" if "queue_events n i (ln_bus s) \<noteq> None" for i
    using that subscribe_other [of n i "ln_bus s"] by auto
  ultimately show ?thesis using assms(1) t by (simp add: line_ok_def)
next
  case (Other_Unsubscribe k i)
  then show ?thesis using assms by (auto simp: line_ok_def bounded_unsubscribe unsubscribe_other split: if_splits)
next
  case Connect
  then obtain i b where c: "ln_queue s = None" "subscribe n (ln_bus s) = (i, b)"
    "t = s\<lparr>ln_bus := b, ln_queue := Some i, ln_greeted := False, ln_wire := [], ln_dropped := False\<rparr>"
    using assms(2) by (auto split: if_splits prod.splits)
  then show ?thesis using assms(1) subscribe_own [OF _ c(2)] by (simp add: line_ok_def)
next
  case Forward
  then obtain i e b where "ln_queue s = Some i" "queue_get n i (ln_bus s) = Some (e, b)" "t = s\<lparr>ln_bus := b, ln_wire := ln_wire s @ [e]\<rparr>"
    using assms(2) by (auto split: option.splits if_splits)
  then show ?thesis using assms(1) bounded_get queue_get_events [of n i "ln_bus s" e b] by (auto simp: line_ok_def)
next
  case Lose
  then show ?thesis using assms by (auto simp: line_ok_def bounded_unsubscribe split: option.splits)
qed (use assms in \<open>auto simp: line_ok_def split: if_splits list.splits option.splits prod.splits phase.splits\<close>)

text \<open>Another user of the bus leaves the own queue alone or lengthens it.\<close>

lemma own_events_kept:
  assumes "line_ok n s"
  shows "own_events n (s\<lparr>ln_bus := snd (subscribe m (ln_bus s))\<rparr>) = own_events n s"
    and "ln_queue s \<noteq> Some k \<Longrightarrow> own_events n (s\<lparr>ln_bus := unsubscribe m k (ln_bus s)\<rparr>) = own_events n s"
    and "set (own_events n s) \<subseteq> set (own_events n (s\<lparr>ln_bus := snd (bus_publish m e (ln_bus s))\<rparr>))"
proof -
  show "own_events n (s\<lparr>ln_bus := snd (subscribe m (ln_bus s))\<rparr>) = own_events n s"
  proof (cases "ln_queue s")
    case (Some i)
    then obtain es where "queue_events n i (ln_bus s) = Some es" using assms unfolding line_ok_def by blast
    then show ?thesis using subscribe_other Some by (simp add: own_events_def)
  qed (simp add: own_events_def)
  show "ln_queue s \<noteq> Some k \<Longrightarrow> own_events n (s\<lparr>ln_bus := unsubscribe m k (ln_bus s)\<rparr>) = own_events n s"
    by (auto simp: own_events_def unsubscribe_other split: option.split)
  show "set (own_events n s) \<subseteq> set (own_events n (s\<lparr>ln_bus := snd (bus_publish m e (ln_bus s))\<rparr>))"
    using own_events_publish [OF assms, of m e] by auto
qed

lemma covered_bus:
  assumes "covered n s" "set (own_events n s) \<subseteq> set (own_events n (s\<lparr>ln_bus := b\<rparr>))"
  shows "covered n (s\<lparr>ln_bus := b\<rparr>)"
  using assms by (auto simp: covered_def)

lemma covered_announce:
  assumes "line_ok n s" "covered n s" "g \<in> set (ln_due s)"
  shows "covered n (s\<lparr>ln_due := remove1 g (ln_due s), ln_bus := snd (bus_publish n (desired_state_updated g reason) (ln_bus s)),
    ln_dropped := ln_dropped s \<or> MAX_QUEUE \<le> length (own_events n s)\<rparr>)" (is "covered n ?t")
proof -
  let ?e = "desired_state_updated g reason"
  have own: "own_events n ?t = own_events n (s\<lparr>ln_bus := snd (bus_publish n ?e (ln_bus s))\<rparr>)"
    by (rule own_events_cong) simp_all
  note pub = own_events_publish [OF assms(1), of n ?e]
  show ?thesis
  proof (cases "g = ln_gen s")
    case True
    then show ?thesis using own pub by (auto simp: covered_def)
  next
    case False
    then have "ln_gen s \<in> set (remove1 g (ln_due s)) \<longleftrightarrow> ln_gen s \<in> set (ln_due s)" by (simp add: in_set_remove1)
    moreover have "set (own_events n s) \<subseteq> set (own_events n ?t)" using own own_events_kept(3) [OF assms(1)] by simp
    ultimately show ?thesis using assms(2) by (auto simp: covered_def)
  qed
qed

lemma covered_read:
  assumes "line_ok n s" "covered n s" "ln_wire s = e # es"
  shows "covered n (s\<lparr>ln_wire := es, ln_watch := ring_opt (dispatch_event e (Inr (ln_applied s))) (ln_watch s)\<rparr>)"
    (is "covered n ?t")
proof (cases "announces (ln_gen s) e \<and> ln_asked s < ln_gen s")
  case True
  then have "\<forall>a. ln_applied s = Some a \<longrightarrow> a < ln_gen s" using assms(1) by (auto simp: line_ok_def)
  then obtain r where "dispatch_event e (Inr (ln_applied s)) = Inr (Some r)" using announced_rings True by blast
  then show ?thesis using ring_opt_reasons(2) by (simp add: covered_def)
next
  case False
  have "own_events n ?t = own_events n s" by (rule own_events_cong) simp_all
  then show ?thesis using False assms(2,3) ring_opt_reasons(1) by (auto simp: covered_def)
qed

lemma covered_move:
  assumes "line_ok n s" "covered n s" "line_move n d m s = Some t"
  shows "covered n t"
proof (cases m)
  case Commit
  then show ?thesis using assms(3) by (auto simp: covered_def)
next
  case (Announce g reason)
  then show ?thesis using assms covered_announce by (auto simp: broadcast_bus split: if_splits)
next
  case (Other_Subscribe k)
  then show ?thesis using assms covered_bus own_events_kept(1) [OF assms(1)] by auto
next
  case (Other_Unsubscribe k i)
  then show ?thesis using assms covered_bus own_events_kept(2) [OF assms(1)] by (auto split: if_splits)
next
  case (Other_Publish k e)
  then show ?thesis using assms covered_bus own_events_kept(3) [OF assms(1)] by auto
next
  case Connect
  then show ?thesis using assms(3) by (auto simp: covered_def split: if_splits prod.splits)
next
  case Greet
  then have "t = s\<lparr>ln_wire := [hello_event n (if ln_gen s = 0 then None else Some (ln_gen s))], ln_greeted := True\<rparr>"
    using assms(3) by (auto split: if_splits)
  then show ?thesis using assms(1) by (cases "ln_gen s = 0") (simp_all add: covered_def line_ok_def)
next
  case Forward
  then obtain i e b where f: "ln_queue s = Some i" "queue_get n i (ln_bus s) = Some (e, b)" "t = s\<lparr>ln_bus := b, ln_wire := ln_wire s @ [e]\<rparr>"
    using assms(3) by (auto split: option.splits if_splits)
  obtain es where "queue_events n i (ln_bus s) = Some (e # es)" "queue_events n i b = Some es"
    using queue_get_events [OF f(2)] by blast
  then have "own_events n s = e # es" "own_events n t = es" using f by (simp_all add: own_events_def)
  then show ?thesis using assms(2) f(3) by (auto simp: covered_def)
next
  case Read
  then obtain e es where "ln_wire s = e # es"
    "t = s\<lparr>ln_wire := es, ln_watch := ring_opt (dispatch_event e (Inr (ln_applied s))) (ln_watch s)\<rparr>"
    using assms(3) by (auto split: list.splits)
  then show ?thesis using covered_read [OF assms(1,2)] by simp
next
  case Lose
  then show ?thesis using assms(3) by (auto simp: covered_def split: option.splits)
next
  case Consume
  then obtain ev w where c: "consumer_step d (ln_watch s) = Some (ev, w)"
    "t = s\<lparr>ln_watch := w, ln_asking := (ln_asking s \<or> (case ev of Started _ _ \<Rightarrow> True | _ \<Rightarrow> False))\<rparr>"
    using assms(3) by (auto split: option.splits if_splits)
  have "own_events n t = own_events n s" by (rule own_events_cong) (simp_all add: c(2))
  then show ?thesis using assms(2) c(2) consumer_reasons [OF c(1)] by (auto simp: covered_def)
next
  case Timeout
  then show ?thesis using assms(3) by (auto simp: covered_def split: if_splits)
next
  case Ask
  then show ?thesis using assms(3) by (auto simp: covered_def split: if_splits)
next
  case Give_Up
  then show ?thesis using assms(3) by (auto simp: covered_def split: option.splits if_splits)
next
  case Halt
  have "own_events n (s\<lparr>ln_watch := (ln_watch s)\<lparr>wa_stop := True\<rparr>\<rparr>) = own_events n s" by (rule own_events_cong) simp_all
  then show ?thesis using assms(2,3) Halt by (auto simp: covered_def)
next
  case Apply
  then have "\<exists>a. t = s\<lparr>ln_applied := a\<rparr>" using assms(3) by (auto split: if_splits phase.splits)
  then obtain a where a: "t = s\<lparr>ln_applied := a\<rparr>" ..
  have "own_events n t = own_events n s" by (rule own_events_cong) (simp_all add: a)
  then show ?thesis using assms(2) a by (auto simp: covered_def)
qed

lemma line_run_inv:
  assumes "line_run n d ms s = Some t" "line_ok n s" "covered n s"
  shows "line_ok n t \<and> covered n t"
  using assms
proof (induction ms arbitrary: s)
  case (Cons m ms)
  then obtain u where "line_move n d m s = Some u" "line_run n d ms u = Some t" by (auto split: option.splits)
  then show ?case using Cons line_ok_move covered_move by blast
qed simp

lemma new_line_inv: "line_ok n new_line" "covered n new_line"
  by (simp_all add: line_ok_def covered_def new_line_def ids_bounded_def queues_of_def)

text \<open>Everything that was announced has been read and taken up.\<close>

definition quiet :: "string \<Rightarrow> line \<Rightarrow> bool" where
  "quiet n s \<longleftrightarrow> ln_due s = [] \<and> ln_queue s \<noteq> None \<and> own_events n s = [] \<and> ln_greeted s \<and> ln_wire s = [] \<and>
     db_reasons (wa_bell (ln_watch s)) = [] \<and> \<not> ln_asking s"

text \<open>C6: The doorbell line loses no generation.  However commits, announcements, the traffic of other
  connections and nodes, lost and new connections and the agent's own reconciles interleave, once the line is
  quiet (all announcements sent and read, the bell empty, no reconcile that has yet to ask) the agent has asked
  for its state after the newest generation was committed, unless an announcement of the present connection
  met a full queue, or a reconcile ended without an answer and none has asked since.\<close>

theorem quiet_line_is_current:
  assumes "line_run n d moves new_line = Some s" "quiet n s" "\<not> ln_dropped s" "\<not> ln_missed s"
  shows "ln_asked s = ln_gen s"
proof -
  have "line_ok n s" "covered n s" using line_run_inv [OF assms(1) new_line_inv] by blast+
  then show ?thesis using assms(2-4) by (auto simp: line_ok_def covered_def quiet_def)
qed

definition example_moves :: "move list" where
  "example_moves = [Other_Subscribe ''jp1'', Commit, Announce 1 None, Connect, Greet, Read, Commit, Consume, Consume, Ask, Apply,
     Announce 2 (Some ''node updated''), Forward, Consume, Read]"

lemma example_line:
  "map_option (\<lambda>s. (quiet ''hk1'' s, ln_dropped s, ln_missed s, ln_gen s, ln_asked s)) (line_run ''hk1'' 0 example_moves new_line) =
     Some (True, False, False, 2, 2)"
  by code_simp

theorem quiet_line_is_current_witness:
  "\<exists>s. line_run ''hk1'' 0 example_moves new_line = Some s \<and> ln_asked s = ln_gen s"
proof -
  obtain s where s: "line_run ''hk1'' 0 example_moves new_line = Some s" "quiet ''hk1'' s" "\<not> ln_dropped s" "\<not> ln_missed s"
    using example_line by (cases "line_run ''hk1'' 0 example_moves new_line") auto
  then show ?thesis using quiet_line_is_current by blast
qed

text \<open>The agent's moves are steps of its watch.\<close>

lemma line_move_watch:
  assumes "line_move n d m s = Some t"
  shows "ln_watch t = ln_watch s \<or> (\<exists>e. watch_step d (ln_watch s) e (ln_watch t))"
proof (cases m)
  case Read
  then obtain e where "ln_watch t = ring_opt (dispatch_event e (Inr (ln_applied s))) (ln_watch s)"
    using assms by (auto split: list.splits)
  then show ?thesis using watch_step.dispatched by metis
next
  case Consume
  then obtain e where "consumer_step d (ln_watch s) = Some (e, ln_watch t)" using assms by (auto split: option.splits if_splits)
  then show ?thesis using watch_step.consumed by blast
next
  case Give_Up
  then obtain e where "consumer_step d (ln_watch s) = Some (e, ln_watch t)" using assms by (auto split: option.splits if_splits)
  then show ?thesis using watch_step.consumed by blast
next
  case Timeout
  then show ?thesis using assms watch_step.timed_out [of "ln_watch s" d] by (auto split: if_splits)
next
  case Halt
  then show ?thesis using assms watch_step.stopped [of d "ln_watch s"] by auto
qed (use assms in \<open>auto split: if_splits option.splits prod.splits phase.splits\<close>)

lemma line_runs_watch:
  "line_run n d ms s = Some t \<Longrightarrow> watch_steps d w tr (ln_watch s) \<Longrightarrow> \<exists>tr'. watch_steps d w tr' (ln_watch t)"
proof (induction ms arbitrary: s tr)
  case (Cons m ms)
  then obtain u where u: "line_move n d m s = Some u" "line_run n d ms u = Some t" by (auto split: option.splits)
  obtain tr' where "watch_steps d w tr' (ln_watch u)"
    using line_move_watch [OF u(1)] Cons.prems(2) watch_steps.extends by metis
  then show ?case by (rule Cons.IH [OF u(2)])
qed auto

text \<open>What a reconcile that gives up costs: a run without such a reconcile has missed nothing, and one that gave up leaves
  a line that is quiet while the agent is a generation behind, until the fallback interval or the next ring.\<close>

lemma nothing_missed: "line_run n d ms s = Some t \<Longrightarrow> Give_Up \<notin> set ms \<Longrightarrow> \<not> ln_missed s \<Longrightarrow> \<not> ln_missed t"
proof (induction ms arbitrary: s)
  case (Cons m ms)
  then obtain u where u: "line_move n d m s = Some u" "line_run n d ms u = Some t" by (auto split: option.splits)
  have "\<not> ln_missed u" using u(1) Cons.prems(2,3)
    by (cases m) (auto split: if_splits option.splits prod.splits list.splits phase.splits)
  then show ?case using Cons.IH [OF u(2)] Cons.prems(2) by simp
qed simp

lemma given_up_line:
  "map_option (\<lambda>s. (quiet ''hk1'' s, ln_dropped s, ln_missed s, ln_gen s, ln_asked s))
     (line_run ''hk1'' 0 [Commit, Announce 1 None, Connect, Greet, Read, Consume, Consume, Give_Up] new_line) =
     Some (True, False, True, 1, 0)"
  by code_simp

text \<open>What a full queue costs: the newest announcement is dropped while the connection stays up, and the older
  ones that the agent reads afterwards do not ring when a reconcile has meanwhile applied them.\<close>

lemma full_queue_drops_the_newest:
  assumes "line_ok n s" "MAX_QUEUE \<le> length (own_events n s)"
  shows "own_events n (s\<lparr>ln_bus := snd (broadcast_change n g reason (ln_bus s))\<rparr>) = own_events n s"
  using own_events_publish [OF assms(1), of n "desired_state_updated g reason"] assms(2) by (simp add: broadcast_bus)

lemma old_announcement_is_silent: "g \<le> a \<Longrightarrow> dispatch_event (desired_state_updated g reason) (Inr (Some a)) = Inr None"
  by (auto simp: dispatch_event_def desired_state_updated_def event_get_def json_int_def)

end
