(* ===== verification/Node_Status.thy ===== *)
theory Node_Status
  imports Registration
begin

text \<open>
  The agents' reports on the server, \<open>services/node\_status.py\<close>: one row per node with the latest
  snapshot, report and apply result and the health derived from them, the history of each kind, and the
  endpoints of \<open>api/v1/agent\_http.py\<close> that file them.  The capture times of the payloads are left out; each
  payload has its own, so filing one always changes its row and moves \<open>updated\_at\<close>.
\<close>

section \<open>Logs with a retention window\<close>

text \<open>A history of which only the newest \<open>cap\<close> entries of a sort are kept; \<open>entries\<close> reads it newest first.\<close>

locale bounded_history =
  fixes entries :: "'l \<Rightarrow> 'a list"
    and push :: "'l \<Rightarrow> 'x \<Rightarrow> 'l"
    and entry :: "'x \<Rightarrow> 'a"
    and mine :: "'x \<Rightarrow> bool"
    and valid :: "'l \<Rightarrow> bool"
    and cap :: nat
  assumes entries_push: "valid l \<Longrightarrow> entries (push l x) = (if mine x then take cap (entry x # entries l) else entries l)"
    and valid_push: "valid l \<Longrightarrow> valid (push l x)"
begin

lemma take_one_more: "take k (x # xs) = take k [x] @ take (k - 1) xs"
  by (cases k) auto

lemma entries_pushes:
  "valid l \<Longrightarrow> length (entries l) \<le> cap \<Longrightarrow>
     entries (foldl push l xs) = take cap (rev (map entry (filter mine xs)) @ entries l)"
proof (induction xs arbitrary: l)
  case (Cons x xs)
  have "length (entries (push l x)) \<le> cap" using Cons.prems by (simp add: entries_push)
  then show ?case using Cons.IH [OF valid_push [OF Cons.prems(1)], of x] Cons.prems
    by (auto simp: entries_push take_append min_def take_one_more [of _ "entry x" "entries l"])
qed simp

end

lemma take_cons_take: "take k (x # take k xs) = take k (x # xs)"
  by (cases k) (simp_all add: min_def)

sublocale bounded_history \<subseteq> bounded: invariant_machine push "\<lambda>l. valid l \<and> length (entries l) \<le> cap"
  by unfold_locales (simp add: entries_push valid_push)

section \<open>Health\<close>

definition HISTORY_KEEP :: nat where
  "HISTORY_KEEP = 100"

text \<open>\<open>dc\<close> is what reading \<open>row.drift\_count\<close> gives: None for a new row to which nothing has been assigned
  yet, since the column's default is filled in when the row is written.\<close>

definition derive_health ::
  "apply_status option \<Rightarrow> apply_status option \<Rightarrow> int option \<Rightarrow> int option \<Rightarrow> int option \<Rightarrow> node_health res" where
  "derive_health rep app dc obs des =
     (if rep = None \<and> app = None then Inr NH_UNKNOWN
      else if rep = Some FAILED \<or> app = Some FAILED then Inr NH_DEGRADED
      else case dc of
          None \<Rightarrow> Inl (TypeError ''>'')
        | Some k \<Rightarrow>
            if 0 < k then Inr NH_DEGRADED
            else if rep = Some DEGRADED \<or> app = Some DEGRADED then Inr NH_DEGRADED
            else if des \<noteq> None \<and> obs \<noteq> None \<and> obs \<noteq> des then Inr NH_STALE
            else Inr NH_OK)"

definition fresh_status :: "string \<Rightarrow> node_status_row" where
  "fresh_status n =
     \<lparr>ns_node_id = n, ns_desired = None, ns_observed = None, ns_report_status = None, ns_apply_status = None,
      ns_drift_count = 0, ns_health = NH_UNKNOWN, ns_snapshot = None, ns_report = None, ns_apply = None,
      ns_updated_at = 0\<rparr>"

definition status_row :: "string \<Rightarrow> control \<Rightarrow> node_status_row option" where
  "status_row n s = row_get ns_node_id n (ct_status s)"

text \<open>The row, and its \<open>drift\_count\<close> as it reads.\<close>

definition get_or_create :: "string \<Rightarrow> control \<Rightarrow> node_status_row \<times> int option" where
  "get_or_create n s =
     (case status_row n s of Some r \<Rightarrow> (r, Some (ns_drift_count r)) | None \<Rightarrow> (fresh_status n, None))"

definition recompute_health :: "node_status_row \<Rightarrow> int option \<Rightarrow> node_status_row res" where
  "recompute_health r dc =
     rbind (derive_health (ns_report_status r) (ns_apply_status r) dc (ns_observed r) (ns_desired r))
       (\<lambda>h. Inr (r\<lparr>ns_health := h\<rparr>))"

section \<open>Filing\<close>

definition of_kind :: "string \<Rightarrow> string \<Rightarrow> status_event \<Rightarrow> bool" where
  "of_kind n k e \<longleftrightarrow> se_node_id e = n \<and> se_kind e = k"

definition trim_history :: "string \<Rightarrow> string \<Rightarrow> control \<Rightarrow> control" where
  "trim_history n k s =
     (let keep = take HISTORY_KEEP (rev (sort (map se_id (filter (of_kind n k) (ct_events s))))) in
      s\<lparr>ct_events := filter (\<lambda>e. \<not> (of_kind n k e \<and> se_id e \<notin> set keep)) (ct_events s)\<rparr>)"

text \<open>Writing the row and the event: both refer to the node.\<close>

definition save_status :: "node_status_row \<Rightarrow> (control, unit) eff" where
  "save_status r =
     reading (\<lambda>s. if get_node (ns_node_id r) s = None then lift_res (Inl (IntegrityError ''node_status.node_id''))
                  else modify (\<lambda>s. s\<lparr>ct_status := row_put ns_node_id r (ct_status s)\<rparr>))"

definition add_event :: "string \<Rightarrow> string \<Rightarrow> int option \<Rightarrow> apply_status option \<Rightarrow> status_payload \<Rightarrow> control \<Rightarrow> control" where
  "add_event n k g st p s =
     s\<lparr>ct_events := ct_events s @ [\<lparr>se_id = ct_next_event s, se_node_id = n, se_kind = k, se_generation = g,
                                    se_status = st, se_payload = p\<rparr>],
       ct_next_event := ct_next_event s + 1\<rparr>"

definition record_snapshot :: "int \<Rightarrow> runtime_snapshot \<Rightarrow> (control, unit) eff" where
  "record_snapshot now x =
     transaction (reading (\<lambda>s. case get_or_create (rs_node_id x) s of (row, dc) \<Rightarrow>
       let row = row\<lparr>ns_snapshot := Some x, ns_updated_at := now\<rparr>;
           row = (case rs_generation x of None \<Rightarrow> row | Some g \<Rightarrow> row\<lparr>ns_observed := Some g\<rparr>) in
       seq (lift_res (recompute_health row dc)) (\<lambda>row.
       seq (save_status row) (\<lambda>_.
         modify (\<lambda>s. trim_history (rs_node_id x) ''snapshot''
                       (add_event (rs_node_id x) ''snapshot'' (rs_generation x) None (Snapshot_Payload x) s))))))"

definition record_report :: "int \<Rightarrow> reconciliation_report \<Rightarrow> (control, unit) eff" where
  "record_report now x =
     transaction (reading (\<lambda>s. case get_or_create (rr_node_id x) s of (row, _) \<Rightarrow>
       let row = row\<lparr>ns_report := Some x, ns_report_status := Some (rr_status x), ns_desired := Some (rr_desired_generation x),
                     ns_observed := rr_observed_generation x, ns_drift_count := int (length (rr_drift x)),
                     ns_updated_at := now\<rparr> in
       seq (lift_res (recompute_health row (Some (ns_drift_count row)))) (\<lambda>row.
       seq (save_status row) (\<lambda>_.
         modify (\<lambda>s. trim_history (rr_node_id x) ''report''
                       (add_event (rr_node_id x) ''report'' (Some (rr_desired_generation x)) (Some (rr_status x))
                          (Report_Payload x) s))))))"

definition record_apply :: "int \<Rightarrow> apply_result \<Rightarrow> (control, unit) eff" where
  "record_apply now x =
     transaction (reading (\<lambda>s. case get_or_create (apr_node_id x) s of (row, dc) \<Rightarrow>
       let row = row\<lparr>ns_apply := Some x, ns_apply_status := Some (apr_status x), ns_desired := Some (apr_generation x),
                     ns_updated_at := now\<rparr> in
       seq (lift_res (recompute_health row dc)) (\<lambda>row.
       seq (save_status row) (\<lambda>_.
         modify (\<lambda>s. trim_history (apr_node_id x) ''apply''
                       (add_event (apr_node_id x) ''apply'' (Some (apr_generation x)) (Some (apr_status x))
                          (Apply_Payload x) s))))))"

text \<open>Health is left alone; a row that exists is not written at all.\<close>

definition record_reresolve :: "int \<Rightarrow> string \<Rightarrow> reresolve_report \<Rightarrow> (control, unit) eff" where
  "record_reresolve now n x =
     transaction (reading (\<lambda>s. case get_or_create n s of (row, dc) \<Rightarrow>
       seq (save_status (if dc = None then row\<lparr>ns_updated_at := now\<rparr> else row)) (\<lambda>_.
         modify (\<lambda>s. trim_history n ''reresolve''
                       (add_event n ''reresolve'' None None (Reresolve_Payload x) s)))))"

section \<open>Reading\<close>

text \<open>A node that has been silent for too long is shown as stale or down, whatever was stored.\<close>

definition row_to_dict :: "int \<Rightarrow> rat \<Rightarrow> rat \<Rightarrow> node_status_row \<Rightarrow> node_status_row" where
  "row_to_dict now stale_after down_after r =
     (let age = rat_of_int (now - ns_updated_at r) in
      if ns_health r = NH_UNKNOWN then r
      else if down_after < age then r\<lparr>ns_health := NH_DOWN\<rparr>
      else if ns_health r = NH_OK \<and> stale_after < age then r\<lparr>ns_health := NH_STALE\<rparr>
      else r)"

text \<open>The cache of the reads: entries with the time they expire.  None as thresholds are the configured ones.\<close>

record health_cache =
  hc_nodes :: "(string \<times> int \<times> node_status_row) list"
  hc_fleet :: "(int \<times> node_status_row list) option"

definition HEALTH_TTL :: int where
  "HEALTH_TTL = 10"

definition bust_health :: "string \<Rightarrow> health_cache \<Rightarrow> health_cache" where
  "bust_health n c = c\<lparr>hc_nodes := ddel n (hc_nodes c), hc_fleet := None\<rparr>"

definition live :: "int \<Rightarrow> (int \<times> 'a) option \<Rightarrow> 'a option" where
  "live now e = (case e of None \<Rightarrow> None | Some (t, x) \<Rightarrow> if now < t then Some x else None)"

definition or_else :: "'a option \<Rightarrow> 'a \<Rightarrow> 'a" where
  "or_else x d = (case x of None \<Rightarrow> d | Some y \<Rightarrow> y)"

definition status_get ::
  "rat \<times> rat \<Rightarrow> int \<Rightarrow> string \<Rightarrow> rat option \<Rightarrow> rat option \<Rightarrow> control \<Rightarrow> health_cache \<Rightarrow> node_status_row option \<times> health_cache" where
  "status_get limits now n stale down s c =
     (let use_cache = stale = None \<and> down = None in
      case (if use_cache then live now (map_of (hc_nodes c) n) else None) of
        Some cached \<Rightarrow> (Some cached, c)
      | None \<Rightarrow>
          (case status_row n s of
             None \<Rightarrow> (None, c)
           | Some r \<Rightarrow>
               let data = row_to_dict now (or_else stale (fst limits)) (or_else down (snd limits)) r in
               (Some data, if use_cache then c\<lparr>hc_nodes := dput n (now + HEALTH_TTL, data) (hc_nodes c)\<rparr> else c)))"

definition status_list ::
  "rat \<times> rat \<Rightarrow> int \<Rightarrow> rat option \<Rightarrow> rat option \<Rightarrow> control \<Rightarrow> health_cache \<Rightarrow> node_status_row list \<times> health_cache" where
  "status_list limits now stale down s c =
     (let use_cache = stale = None \<and> down = None in
      case (if use_cache then live now (hc_fleet c) else None) of
        Some cached \<Rightarrow> (cached, c)
      | None \<Rightarrow>
          let rows = map (row_to_dict now (or_else stale (fst limits)) (or_else down (snd limits)))
                       (sort_key ns_node_id (ct_status s)) in
          (rows, if use_cache then c\<lparr>hc_fleet := Some (now + HEALTH_TTL, rows)\<rparr> else c))"

definition list_events :: "string \<Rightarrow> string option \<Rightarrow> nat \<Rightarrow> control \<Rightarrow> status_event list" where
  "list_events n kind limit s =
     take limit (rev (sort_key se_id
       (filter (\<lambda>e. se_node_id e = n \<and> (case kind of None \<Rightarrow> True | Some k \<Rightarrow> se_kind e = k)) (ct_events s))))"

section \<open>The endpoints\<close>

text \<open>What \<open>require\_agent\<close> and \<open>\_ensure\_self\<close> let through.\<close>

definition own_report :: "digest \<Rightarrow> int \<Rightarrow> string option \<Rightarrow> string \<Rightarrow> (control, 'a) eff \<Rightarrow> (control, 'a) eff" where
  "own_report h now authorization n m =
     reading (\<lambda>s. seq (lift_res (require_agent h now authorization s)) (\<lambda>p. seq (lift_res (ensure_self p n)) (\<lambda>_. m)))"

definition post_runtime_snapshot :: "digest \<Rightarrow> int \<Rightarrow> string option \<Rightarrow> runtime_snapshot \<Rightarrow> (control, int option \<times> nat) eff" where
  "post_runtime_snapshot h now authorization x =
     own_report h now authorization (rs_node_id x)
       (seq (record_snapshot now x) (\<lambda>_. ret (rs_generation x, length (rs_containers x))))"

definition post_reconciliation_report ::
  "digest \<Rightarrow> int \<Rightarrow> string option \<Rightarrow> reconciliation_report \<Rightarrow> (control, apply_status \<times> nat) eff" where
  "post_reconciliation_report h now authorization x =
     own_report h now authorization (rr_node_id x)
       (seq (record_report now x) (\<lambda>_. ret (rr_status x, length (rr_drift x))))"

definition post_apply_result :: "digest \<Rightarrow> int \<Rightarrow> string option \<Rightarrow> apply_result \<Rightarrow> (control, int \<times> apply_status) eff" where
  "post_apply_result h now authorization x =
     own_report h now authorization (apr_node_id x)
       (seq (record_apply now x) (\<lambda>_. ret (apr_generation x, apr_status x)))"

definition post_wireguard_reresolve ::
  "digest \<Rightarrow> int \<Rightarrow> string option \<Rightarrow> string \<Rightarrow> reresolve_report \<Rightarrow> (control, int \<times> nat) eff" where
  "post_wireguard_reresolve h now authorization n x =
     own_report h now authorization n
       (seq (record_reresolve now n x) (\<lambda>_. ret (rp_checked x, length (rp_reresolved x))))"

end
