(* ===== verification/Status_Log.thy ===== *)
theory Status_Log
  imports Node_Status
begin

text \<open>
  What the status tables hold after any sequence of posts, stated over the list of the posts that were
  accepted: the row of a node is a summary of its posts, and the history of a kind is its newest hundred.
\<close>

section \<open>Posts\<close>

datatype post =
    Snapshot_Post runtime_snapshot
  | Report_Post reconciliation_report
  | Apply_Post apply_result
  | Reresolve_Post string reresolve_report

definition post_node :: "post \<Rightarrow> string" where
  "post_node p = (case p of Snapshot_Post x \<Rightarrow> rs_node_id x | Report_Post x \<Rightarrow> rr_node_id x | Apply_Post x \<Rightarrow> apr_node_id x
                  | Reresolve_Post n _ \<Rightarrow> n)"

definition file_post :: "int \<Rightarrow> post \<Rightarrow> (control, unit) eff" where
  "file_post now p =
     (case p of Snapshot_Post x \<Rightarrow> record_snapshot now x | Report_Post x \<Rightarrow> record_report now x
      | Apply_Post x \<Rightarrow> record_apply now x | Reresolve_Post n x \<Rightarrow> record_reresolve now n x)"

text \<open>The accepted posts, newest first, and the database.\<close>

fun file_step :: "(int \<times> post) list \<times> control \<Rightarrow> int \<times> post \<Rightarrow> (int \<times> post) list \<times> control" where
  "file_step (acc, s) (now, p) =
     (case file_post now p s of (Inl _, t) \<Rightarrow> (acc, t) | (Inr _, t) \<Rightarrow> ((now, p) # acc, t))"

section \<open>The summary of a node\<close>

fun latest :: "('a \<Rightarrow> 'b option) \<Rightarrow> 'a list \<Rightarrow> 'b option" where
  "latest f [] = None"
| "latest f (x # xs) = (case f x of None \<Rightarrow> latest f xs | Some y \<Rightarrow> Some y)"

definition plain_health ::
  "apply_status option \<Rightarrow> apply_status option \<Rightarrow> int \<Rightarrow> int option \<Rightarrow> int option \<Rightarrow> node_health" where
  "plain_health rep app k obs des =
     (if rep = None \<and> app = None then NH_UNKNOWN
      else if rep \<in> {Some FAILED, Some DEGRADED} \<or> app \<in> {Some FAILED, Some DEGRADED} \<or> 0 < k then NH_DEGRADED
      else case (obs, des) of (Some o', Some d) \<Rightarrow> if o' = d then NH_OK else NH_STALE | _ \<Rightarrow> NH_OK)"

definition with_health :: "node_status_row \<Rightarrow> node_status_row" where
  "with_health r =
     r\<lparr>ns_health := plain_health (ns_report_status r) (ns_apply_status r) (ns_drift_count r) (ns_observed r) (ns_desired r)\<rparr>"

fun last_snapshot :: "int \<times> post \<Rightarrow> runtime_snapshot option" where
  "last_snapshot (_, Snapshot_Post x) = Some x"
| "last_snapshot _ = None"

fun last_report :: "int \<times> post \<Rightarrow> reconciliation_report option" where
  "last_report (_, Report_Post x) = Some x"
| "last_report _ = None"

fun last_apply :: "int \<times> post \<Rightarrow> apply_result option" where
  "last_apply (_, Apply_Post x) = Some x"
| "last_apply _ = None"

fun tells_desired :: "int \<times> post \<Rightarrow> int option" where
  "tells_desired (_, Report_Post x) = Some (rr_desired_generation x)"
| "tells_desired (_, Apply_Post x) = Some (apr_generation x)"
| "tells_desired _ = None"

fun tells_observed :: "int \<times> post \<Rightarrow> int option option" where
  "tells_observed (_, Snapshot_Post x) = map_option Some (rs_generation x)"
| "tells_observed (_, Report_Post x) = Some (rr_observed_generation x)"
| "tells_observed _ = None"

fun touches :: "int \<times> post \<Rightarrow> int option" where
  "touches (_, Reresolve_Post _ _) = None"
| "touches (t, _) = Some t"

definition own_posts :: "string \<Rightarrow> (int \<times> post) list \<Rightarrow> (int \<times> post) list" where
  "own_posts n posts = filter (\<lambda>tp. post_node (snd tp) = n) posts"

definition summary :: "string \<Rightarrow> (int \<times> post) list \<Rightarrow> node_status_row option" where
  "summary n posts =
     (let mine = own_posts n posts; rep = latest last_report mine; app = latest last_apply mine in
      if mine = [] then None
      else Some (with_health
        \<lparr>ns_node_id = n, ns_desired = latest tells_desired mine,
         ns_observed = (case latest tells_observed mine of None \<Rightarrow> None | Some g \<Rightarrow> g),
         ns_report_status = map_option rr_status rep, ns_apply_status = map_option apr_status app,
         ns_drift_count = (case rep of None \<Rightarrow> 0 | Some x \<Rightarrow> int (length (rr_drift x))),
         ns_health = NH_UNKNOWN, ns_snapshot = latest last_snapshot mine, ns_report = rep, ns_apply = app,
         ns_updated_at = (case latest touches mine of None \<Rightarrow> fst (last mine) | Some t \<Rightarrow> t)\<rparr>))"

text \<open>What a post leaves in the history of its kind.\<close>

fun post_kind :: "post \<Rightarrow> string" where
  "post_kind (Snapshot_Post _) = ''snapshot''"
| "post_kind (Report_Post _) = ''report''"
| "post_kind (Apply_Post _) = ''apply''"
| "post_kind (Reresolve_Post _ _) = ''reresolve''"

fun post_entry :: "post \<Rightarrow> int option \<times> apply_status option \<times> status_payload" where
  "post_entry (Snapshot_Post x) = (rs_generation x, None, Snapshot_Payload x)"
| "post_entry (Report_Post x) = (Some (rr_desired_generation x), Some (rr_status x), Report_Payload x)"
| "post_entry (Apply_Post x) = (Some (apr_generation x), Some (apr_status x), Apply_Payload x)"
| "post_entry (Reresolve_Post _ x) = (None, None, Reresolve_Payload x)"

definition event_entry :: "status_event \<Rightarrow> int option \<times> apply_status option \<times> status_payload" where
  "event_entry e = (se_generation e, se_status e, se_payload e)"

section \<open>One post\<close>

text \<open>Refused: the node is unknown, or its very first post is an apply result that did not fail.\<close>

definition refused :: "post \<Rightarrow> control \<Rightarrow> bool" where
  "refused p s \<longleftrightarrow> get_node (post_node p) s = None \<or>
     status_row (post_node p) s = None \<and> (case p of Apply_Post x \<Rightarrow> apr_status x \<noteq> FAILED | _ \<Rightarrow> False)"

fun columns :: "int \<times> post \<Rightarrow> node_status_row \<Rightarrow> node_status_row" where
  "columns (now, Snapshot_Post x) r =
     r\<lparr>ns_snapshot := Some x, ns_updated_at := now,
       ns_observed := (case rs_generation x of None \<Rightarrow> ns_observed r | Some g \<Rightarrow> Some g)\<rparr>"
| "columns (now, Report_Post x) r =
     r\<lparr>ns_report := Some x, ns_report_status := Some (rr_status x), ns_desired := Some (rr_desired_generation x),
       ns_observed := rr_observed_generation x, ns_drift_count := int (length (rr_drift x)), ns_updated_at := now\<rparr>"
| "columns (now, Apply_Post x) r =
     r\<lparr>ns_apply := Some x, ns_apply_status := Some (apr_status x), ns_desired := Some (apr_generation x), ns_updated_at := now\<rparr>"
| "columns (now, Reresolve_Post _ _) r = r"

definition next_row :: "int \<times> post \<Rightarrow> node_status_row option \<Rightarrow> node_status_row" where
  "next_row tp old = (case old of None \<Rightarrow> columns tp ((fresh_status (post_node (snd tp)))\<lparr>ns_updated_at := fst tp\<rparr>) | Some r \<Rightarrow> columns tp r)"

definition filed :: "int \<times> post \<Rightarrow> control \<Rightarrow> control" where
  "filed tp s =
     (let n = post_node (snd tp); k = post_kind (snd tp) in
      case post_entry (snd tp) of (g, st, p) \<Rightarrow>
        trim_history n k (add_event n k g st p
          (s\<lparr>ct_status := row_put ns_node_id (with_health (next_row tp (status_row n s))) (ct_status s)\<rparr>)))"

lemma derive_plain:
  "derive_health rep app (Some k) obs des = Inr (plain_health rep app k obs des)"
  by (auto simp: derive_health_def plain_health_def split: option.splits)

lemma derive_none:
  "derive_health rep app None obs des =
     (if rep = None \<and> app = None then Inr NH_UNKNOWN
      else if rep = Some FAILED \<or> app = Some FAILED then Inr NH_DEGRADED else Inl (TypeError ''>''))"
  by (simp add: derive_health_def)

text \<open>Every row shows the health that its columns have.\<close>

definition health_current :: "control \<Rightarrow> bool" where
  "health_current s \<longleftrightarrow> (\<forall>n r. status_row n s = Some r \<longrightarrow> with_health r = r \<and> ns_node_id r = n)"

lemma saved:
  "save_status r s = (if get_node (ns_node_id r) s = None then (Inl (IntegrityError ''node_status.node_id''), s)
     else (Inr (), s\<lparr>ct_status := row_put ns_node_id r (ct_status s)\<rparr>))"
  by (simp add: save_status_def)

lemma health_row: "health_current s \<Longrightarrow> status_row n s = Some r \<Longrightarrow> with_health r = r \<and> ns_node_id r = n"
  by (simp add: health_current_def)

lemmas filing = file_post_def post_node_def refused_def filed_def get_or_create_def recompute_health_def transaction_def
  saved next_row_def with_health_def fresh_status_def derive_plain derive_none seq_def Let_def

lemma filed_snapshot:
  assumes "health_current s" "p = Snapshot_Post x"
  shows "file_post now p s =
    (if refused p s then (Inl (IntegrityError ''node_status.node_id''), s) else (Inr (), filed (now, p) s))"
proof (cases "status_row (rs_node_id x) s")
  case None
  then show ?thesis using assms(2)
    by (simp add: record_snapshot_def filing plain_health_def split: option.split)
next
  case (Some r)
  then show ?thesis using assms(2) health_row [OF assms(1) Some]
    by (simp add: record_snapshot_def filing split: option.split)
qed

lemma filed_report:
  assumes "health_current s" "p = Report_Post x"
  shows "file_post now p s =
    (if refused p s then (Inl (IntegrityError ''node_status.node_id''), s) else (Inr (), filed (now, p) s))"
proof (cases "status_row (rr_node_id x) s")
  case None
  then show ?thesis using assms(2) by (simp add: record_report_def filing)
next
  case (Some r)
  then show ?thesis using assms(2) health_row [OF assms(1) Some] by (simp add: record_report_def filing)
qed

lemma filed_apply:
  assumes "health_current s" "p = Apply_Post x"
  shows "refused p s \<Longrightarrow> \<exists>e. file_post now p s = (Inl e, s)"
    "\<not> refused p s \<Longrightarrow> file_post now p s = (Inr (), filed (now, p) s)"
proof -
  have "(refused p s \<longrightarrow> (\<exists>e. file_post now p s = (Inl e, s))) \<and>
        (\<not> refused p s \<longrightarrow> file_post now p s = (Inr (), filed (now, p) s))"
  proof (cases "status_row (apr_node_id x) s")
    case None
    then show ?thesis using assms(2)
      by (simp add: record_apply_def filing plain_health_def)
  next
    case (Some r)
    then show ?thesis using assms(2) health_row [OF assms(1) Some] by (simp add: record_apply_def filing)
  qed
  then show "refused p s \<Longrightarrow> \<exists>e. file_post now p s = (Inl e, s)"
    "\<not> refused p s \<Longrightarrow> file_post now p s = (Inr (), filed (now, p) s)" by blast+
qed

lemma filed_reresolve:
  assumes "health_current s" "p = Reresolve_Post n x"
  shows "file_post now p s =
    (if refused p s then (Inl (IntegrityError ''node_status.node_id''), s) else (Inr (), filed (now, p) s))"
proof (cases "status_row n s")
  case None
  then show ?thesis using assms(2) by (simp add: record_reresolve_def filing plain_health_def)
next
  case (Some r)
  have "with_health r = r" "ns_node_id r = n" using health_row [OF assms(1) Some] by blast+
  then show ?thesis using assms(2) Some
    by (simp add: record_reresolve_def file_post_def post_node_def refused_def filed_def get_or_create_def
        transaction_def saved next_row_def seq_def Let_def)
qed

lemma file_post_exact:
  assumes "health_current s"
  shows "refused p s \<Longrightarrow> \<exists>e. file_post now p s = (Inl e, s)"
    "\<not> refused p s \<Longrightarrow> file_post now p s = (Inr (), filed (now, p) s)"
  using filed_snapshot [OF assms] filed_report [OF assms] filed_apply [OF assms] filed_reresolve [OF assms]
  by (cases p; simp)+

section \<open>The row\<close>

lemma row_put_status:
  "status_row m (s\<lparr>ct_status := row_put ns_node_id r (ct_status s)\<rparr>) =
     (if m = ns_node_id r then Some r else status_row m s)"
  by (simp add: status_row_def table_simps)

lemma trim_status: "ct_status (trim_history n k s) = ct_status s" "ct_status (add_event n k g st p s) = ct_status s"
  by (simp_all add: trim_history_def add_event_def Let_def)

lemma next_row_key: "(\<And>r. old = Some r \<Longrightarrow> ns_node_id r = post_node (snd tp)) \<Longrightarrow>
  ns_node_id (with_health (next_row tp old)) = post_node (snd tp)"
  by (cases tp; cases "snd tp"; cases old) (auto simp: next_row_def with_health_def fresh_status_def)

lemma filed_row:
  assumes "health_current s"
  shows "status_row m (filed tp s) =
    (if m = post_node (snd tp) then Some (with_health (next_row tp (status_row m s))) else status_row m s)"
proof -
  have "ns_node_id (with_health (next_row tp (status_row (post_node (snd tp)) s))) = post_node (snd tp)"
    using next_row_key health_row [OF assms] by blast
  then show ?thesis
    by (auto simp: filed_def Let_def trim_status status_row_def [of _ "trim_history _ _ _"] row_put_status
        split: prod.split) (auto simp: status_row_def table_simps)
qed

lemma with_health_twice [simp]: "with_health (with_health r) = with_health r"
  by (simp add: with_health_def)

lemma filed_current: "health_current s \<Longrightarrow> health_current (filed tp s)"
  unfolding health_current_def [of "filed tp s"]
  using next_row_key health_row by (auto simp: filed_row split: if_splits)

lemma columns_health:
  "with_health (columns tp (with_health r)) = with_health (columns tp r)"
  by (cases tp; cases "snd tp") (simp_all add: with_health_def split: option.split)

lemma summary_step:
  "summary n (tp # posts) =
     (if n = post_node (snd tp) then Some (with_health (next_row tp (summary n posts))) else summary n posts)"
proof (cases "n = post_node (snd tp)")
  case True
  obtain t p where tp: "tp = (t, p)" by (cases tp)
  have own: "own_posts n (tp # posts) = tp # own_posts n posts" using True by (simp add: own_posts_def)
  show ?thesis
  proof (cases "own_posts n posts = []")
    case empty: True
    then show ?thesis using own True tp
      by (cases p) (simp_all add: summary_def next_row_def with_health_def fresh_status_def Let_def split: option.split)
  next
    case False
    then show ?thesis using own True tp
      by (cases p) (simp_all add: summary_def next_row_def columns_health Let_def, simp_all add: with_health_def split: option.split)
  qed
next
  case False
  then show ?thesis by (simp add: summary_def own_posts_def)
qed

section \<open>The history\<close>

definition entries_of :: "string \<Rightarrow> string \<Rightarrow> control \<Rightarrow> (int option \<times> apply_status option \<times> status_payload) list" where
  "entries_of n k s = map event_entry (rev (filter (of_kind n k) (ct_events s)))"

definition events_valid :: "control \<Rightarrow> bool" where
  "events_valid s \<longleftrightarrow> sorted_wrt (<) (map se_id (ct_events s)) \<and> (\<forall>e\<in>set (ct_events s). se_id e < ct_next_event s)"

lemma filter_keeps:
  assumes "distinct (map f ys)"
  shows "filter (\<lambda>y. f y \<in> set (take k (map f ys))) ys = take k ys"
proof -
  have "distinct (map f (take k ys @ drop k ys))" using assms by simp
  then have "f ` set (take k ys) \<inter> f ` set (drop k ys) = {}" by (simp only: map_append distinct_append set_map)
  then have "filter (\<lambda>y. f y \<in> f ` set (take k ys)) (drop k ys) = []" by (auto simp: filter_empty_conv)
  then have "filter (\<lambda>y. f y \<in> f ` set (take k ys)) ys = filter (\<lambda>y. f y \<in> f ` set (take k ys)) (take k ys)"
    by (metis append_take_drop_id append_Nil2 filter_append)
  also have "\<dots> = take k ys" by (rule filter_True) simp
  finally have "filter (\<lambda>y. f y \<in> f ` set (take k ys)) ys = take k ys" .
  then show ?thesis by (simp add: take_map)
qed

lemma sorted_strict: "sorted_wrt (<) (xs :: int list) \<Longrightarrow> sorted xs \<and> distinct xs"
  by (simp add: strict_sorted_iff)

lemma filter_sorted_wrt: "sorted_wrt (<) (map f xs) \<Longrightarrow> sorted_wrt (<) (map f (filter P xs))"
  by (induction xs) auto

text \<open>Keeping the greatest \<open>k\<close> numbers of the own entries of a log keeps its newest \<open>k\<close> own entries.\<close>

lemma kept_newest:
  fixes f :: "'a \<Rightarrow> int"
  assumes "sorted_wrt (<) (map f xs)"
  shows "rev (filter P (filter (\<lambda>e. \<not> (P e \<and> f e \<notin> set (take k (rev (sort (map f (filter P xs))))))) xs)) =
    take k (rev (filter P xs))"
proof -
  let ?xs = "filter P xs"
  have so: "sorted (map f ?xs)" "distinct (map f ?xs)"
    using sorted_strict [OF filter_sorted_wrt [OF assms, of P]] by blast+
  have "filter P (filter (\<lambda>e. \<not> (P e \<and> f e \<notin> set (take k (rev (sort (map f ?xs)))))) xs) =
    filter (\<lambda>e. f e \<in> set (take k (rev (sort (map f ?xs))))) ?xs"
    by (auto intro!: filter_cong)
  also have "sort (map f ?xs) = map f ?xs" by (rule sorted_sort_id) (rule so(1))
  finally have "rev (filter P (filter (\<lambda>e. \<not> (P e \<and> f e \<notin> set (take k (rev (sort (map f ?xs)))))) xs)) =
    filter (\<lambda>e. f e \<in> set (take k (map f (rev ?xs)))) (rev ?xs)"
    by (simp add: rev_filter rev_map so sorted_sort_id)
  also have "\<dots> = take k (rev ?xs)" by (rule filter_keeps) (use so(2) in \<open>simp add: rev_map [symmetric]\<close>)
  finally show ?thesis .
qed

lemma trimmed:
  assumes "sorted_wrt (<) (map se_id (ct_events s))"
  shows "rev (filter (of_kind n k) (ct_events (trim_history n k s))) =
           take HISTORY_KEEP (rev (filter (of_kind n k) (ct_events s)))"
    "\<not> (m = n \<and> j = k) \<Longrightarrow> filter (of_kind m j) (ct_events (trim_history n k s)) = filter (of_kind m j) (ct_events s)"
  using kept_newest [OF assms, of "of_kind n k" HISTORY_KEEP]
  by (auto simp: trim_history_def Let_def of_kind_def intro!: filter_cong)

lemma added_valid: "events_valid s \<Longrightarrow> events_valid (add_event n k g st p s)"
  by (auto simp: events_valid_def add_event_def sorted_wrt_append less_Suc_eq)

lemma trimmed_valid: "events_valid s \<Longrightarrow> events_valid (trim_history n k s)"
  by (auto simp: events_valid_def trim_history_def Let_def intro: filter_sorted_wrt)

lemma events_row [simp]:
  "events_valid (s\<lparr>ct_status := x\<rparr>) = events_valid s" "entries_of n k (s\<lparr>ct_status := x\<rparr>) = entries_of n k s"
  by (simp_all add: events_valid_def entries_of_def)

lemma entries_trimmed:
  assumes "events_valid s"
  shows "entries_of m j (trim_history n k s) =
    (if m = n \<and> j = k then take HISTORY_KEEP (entries_of m j s) else entries_of m j s)"
  using assms trimmed [of s n k] trimmed(2) [of s m n j k]
  by (auto simp: entries_of_def events_valid_def take_map)

lemma entries_added:
  "entries_of m j (add_event n k g st p s) =
    (if m = n \<and> j = k then (g, st, p) # entries_of m j s else entries_of m j s)"
  by (auto simp: entries_of_def add_event_def of_kind_def event_entry_def)

interpretation history: bounded_history "entries_of n k" "\<lambda>s tp. filed tp s" "\<lambda>tp. post_entry (snd tp)"
  "\<lambda>tp. post_node (snd tp) = n \<and> post_kind (snd tp) = k" events_valid HISTORY_KEEP for n k
proof (unfold_locales, goal_cases)
  case (1 s tp)
  obtain g st p where e: "post_entry (snd tp) = (g, st, p)" by (cases "post_entry (snd tp)") auto
  have "events_valid (add_event m j g st p (s\<lparr>ct_status := x\<rparr>))" for m j x using 1 added_valid by simp
  then show ?case using e by (auto simp: filed_def Let_def entries_trimmed entries_added)
next
  case (2 s tp)
  then show ?case by (auto simp: filed_def Let_def intro!: trimmed_valid added_valid split: prod.split)
qed

section \<open>Any sequence of posts\<close>

definition status_ok :: "(int \<times> post) list \<times> control \<Rightarrow> bool" where
  "status_ok ls \<longleftrightarrow>
     (case ls of (acc, s) \<Rightarrow> health_current s \<and> events_valid s \<and> (\<forall>n. status_row n s = summary n acc) \<and>
        (\<forall>n k. entries_of n k s =
           take HISTORY_KEEP (map (\<lambda>tp. post_entry (snd tp)) (filter (\<lambda>tp. post_node (snd tp) = n \<and> post_kind (snd tp) = k) acc))))"

lemma file_step_ok:
  assumes "status_ok ls"
  shows "status_ok (file_step ls tp)"
proof -
  obtain acc s where ls: "ls = (acc, s)" by (cases ls)
  obtain now p where tp: "tp = (now, p)" by (cases tp)
  have ok: "health_current s" "events_valid s" "\<And>n. status_row n s = summary n acc"
    and hist: "\<And>n k. entries_of n k s = take HISTORY_KEEP (map (\<lambda>tp. post_entry (snd tp))
        (filter (\<lambda>tp. post_node (snd tp) = n \<and> post_kind (snd tp) = k) acc))"
    using assms ls by (auto simp: status_ok_def)
  show ?thesis
  proof (cases "refused p s")
    case True
    then show ?thesis using assms ls tp file_post_exact(1) [OF ok(1) True, of now] by auto
  next
    case False
    have "entries_of n k (filed tp s) = take HISTORY_KEEP (map (\<lambda>tp. post_entry (snd tp))
        (filter (\<lambda>tp. post_node (snd tp) = n \<and> post_kind (snd tp) = k) (tp # acc)))" for n k
      by (simp add: history.entries_push [OF ok(2)] hist take_cons_take)
    then show ?thesis
      using ls tp ok file_post_exact(2) [OF ok(1) False, of now] filed_current [OF ok(1), of tp]
        history.valid_push [OF ok(2), of tp]
      by (simp add: status_ok_def filed_row summary_step)
  qed
qed

interpretation posts: invariant_machine file_step status_ok
  by unfold_locales (rule file_step_ok)

text \<open>C13: After any sequence of posts to empty status tables, with whatever posts were refused on the way, the row
  of every node is the summary of its accepted posts (the latest snapshot, report and apply result, the
  generations that were told last, the drift of the latest report, and as health exactly: unknown before any
  report or apply result, degraded when the latest of them failed or degraded or the latest report had drift,
  stale when both generations are known and differ, else healthy), and the history of each kind is the newest
  hundred of its accepted posts of that kind.  Refused are just the posts for unknown nodes and an apply
  result that did not fail as the very first post of a node.\<close>

theorem status_tables_refine_posts:
  assumes "ct_status s0 = []" "ct_events s0 = []" "foldl file_step ([], s0) tps = (acc, s)"
  shows "status_row n s = summary n acc \<and>
    entries_of n k s = take HISTORY_KEEP (map (\<lambda>tp. post_entry (snd tp))
      (filter (\<lambda>tp. post_node (snd tp) = n \<and> post_kind (snd tp) = k) acc)) \<and>
    ((\<exists>e. fst (file_post now p s) = Inl e) \<longleftrightarrow> get_node (post_node p) s = None \<or>
       own_posts (post_node p) acc = [] \<and> (\<exists>x. p = Apply_Post x \<and> apr_status x \<noteq> FAILED))"
proof (intro conjI)
  have "status_ok ([], s0)" using assms(1,2)
    by (simp add: status_ok_def health_current_def status_row_def row_get_def events_valid_def entries_of_def
        summary_def own_posts_def)
  then have ok: "status_ok (acc, s)" using posts.run_inv [of "([], s0)" tps] assms(3) by simp
  then show "status_row n s = summary n acc"
    "entries_of n k s = take HISTORY_KEEP (map (\<lambda>tp. post_entry (snd tp))
       (filter (\<lambda>tp. post_node (snd tp) = n \<and> post_kind (snd tp) = k) acc))"
    by (simp_all add: status_ok_def)
  have "(\<exists>e. fst (file_post now p s) = Inl e) \<longleftrightarrow> refused p s"
    using ok file_post_exact [of s p now] by (fastforce simp: status_ok_def)
  also have "\<dots> \<longleftrightarrow> get_node (post_node p) s = None \<or>
       own_posts (post_node p) acc = [] \<and> (\<exists>x. p = Apply_Post x \<and> apr_status x \<noteq> FAILED)"
    using ok by (cases p) (auto simp: refused_def status_ok_def summary_def Let_def)
  finally show "(\<exists>e. fst (file_post now p s) = Inl e) \<longleftrightarrow> get_node (post_node p) s = None \<or>
       own_posts (post_node p) acc = [] \<and> (\<exists>x. p = Apply_Post x \<and> apr_status x \<noteq> FAILED)" .
qed

text \<open>An apply result that succeeded, as the first post of a node, ends in a TypeError: \<open>drift\_count\<close> of the new row
  has no value yet when the health is computed.\<close>

lemma first_apply_refused:
  assumes "get_node (apr_node_id x) s \<noteq> None" "status_row (apr_node_id x) s = None" "apr_status x = SUCCEEDED"
  shows "record_apply now x s = (Inl (TypeError ''>''), s)"
  using assms by (simp add: record_apply_def filing)

section \<open>Reading through the cache\<close>

text \<open>Posts clear the node's entry after their transaction, except re-resolution reports, which change no row.\<close>

record board =
  bd_db :: control
  bd_cache :: health_cache
  bd_now :: int

datatype board_move = Tick nat | Post post | Get string

definition is_reresolve :: "post \<Rightarrow> bool" where
  "is_reresolve p = (case p of Reresolve_Post _ _ \<Rightarrow> True | _ \<Rightarrow> False)"

fun board_step :: "rat \<times> rat \<Rightarrow> board \<Rightarrow> board_move \<Rightarrow> board" where
  "board_step limits b (Tick d) = b\<lparr>bd_now := bd_now b + int d\<rparr>"
| "board_step limits b (Post p) =
     (case file_post (bd_now b) p (bd_db b) of
        (Inl _, t) \<Rightarrow> b\<lparr>bd_db := t\<rparr>
      | (Inr _, t) \<Rightarrow> b\<lparr>bd_db := t, bd_cache := (if is_reresolve p then bd_cache b else bust_health (post_node p) (bd_cache b))\<rparr>)"
| "board_step limits b (Get n) = b\<lparr>bd_cache := snd (status_get limits (bd_now b) n None None (bd_db b) (bd_cache b))\<rparr>"

definition board_ok :: "rat \<times> rat \<Rightarrow> board \<Rightarrow> bool" where
  "board_ok limits b \<longleftrightarrow> health_current (bd_db b) \<and>
     (\<forall>n e x. map_of (hc_nodes (bd_cache b)) n = Some (e, x) \<longrightarrow> e - HEALTH_TTL \<le> bd_now b \<and>
        map_option (row_to_dict (e - HEALTH_TTL) (fst limits) (snd limits)) (status_row n (bd_db b)) = Some x)"

lemma board_okD:
  assumes "board_ok limits b" "map_of (hc_nodes (bd_cache b)) n = Some (e, x)"
  shows "e - HEALTH_TTL \<le> bd_now b"
    "map_option (row_to_dict (e - HEALTH_TTL) (fst limits) (snd limits)) (status_row n (bd_db b)) = Some x"
  using assms by (auto simp: board_ok_def)

lemma board_okI:
  assumes "health_current (bd_db b)"
    "\<And>n e x. map_of (hc_nodes (bd_cache b)) n = Some (e, x) \<Longrightarrow> e - HEALTH_TTL \<le> bd_now b"
    "\<And>n e x. map_of (hc_nodes (bd_cache b)) n = Some (e, x) \<Longrightarrow>
       map_option (row_to_dict (e - HEALTH_TTL) (fst limits) (snd limits)) (status_row n (bd_db b)) = Some x"
  shows "board_ok limits b"
  unfolding board_ok_def using assms by blast

lemma reresolve_row: "with_health r = r \<Longrightarrow> with_health (next_row (now, Reresolve_Post n x) (Some r)) = r"
  by (simp add: next_row_def)

lemma row_after_post:
  assumes "health_current s" "\<not> refused p s" "is_reresolve p" "status_row n s = Some r"
  shows "status_row n (filed (now, p) s) = Some r"
  using assms health_row [OF assms(1,4)]
  by (cases p) (auto simp: filed_row is_reresolve_def reresolve_row)

lemma status_get_hit:
  "live now (map_of (hc_nodes c) n) = Some x \<Longrightarrow> status_get limits now n None None s c = (Some x, c)"
  by (simp add: status_get_def)

lemma status_get_miss:
  "live now (map_of (hc_nodes c) n) = None \<Longrightarrow> status_get limits now n None None s c =
     (case status_row n s of None \<Rightarrow> (None, c)
      | Some r \<Rightarrow> (Some (row_to_dict now (fst limits) (snd limits) r),
                  c\<lparr>hc_nodes := dput n (now + HEALTH_TTL, row_to_dict now (fst limits) (snd limits) r) (hc_nodes c)\<rparr>))"
  by (cases "status_row n s") (simp_all add: status_get_def or_else_def Let_def)

lemma board_step_ok:
  assumes "board_ok limits b"
  shows "board_ok limits (board_step limits b m)"
proof (cases m)
  case (Tick d)
  have h: "health_current (bd_db b)" using assms by (simp add: board_ok_def)
  show ?thesis
  proof (rule board_okI)
    fix n e x
    assume "map_of (hc_nodes (bd_cache (board_step limits b m))) n = Some (e, x)"
    then have "map_of (hc_nodes (bd_cache b)) n = Some (e, x)" using Tick by simp
    note k = board_okD [OF assms this]
    show "e - HEALTH_TTL \<le> bd_now (board_step limits b m)" using k(1) Tick by simp
    show "map_option (row_to_dict (e - HEALTH_TTL) (fst limits) (snd limits))
        (status_row n (bd_db (board_step limits b m))) = Some x" using k(2) Tick by simp
  qed (use h Tick in simp)
next
  case (Post p)
  have h: "health_current (bd_db b)" using assms by (simp add: board_ok_def)
  show ?thesis
  proof (cases "refused p (bd_db b)")
    case True
    then show ?thesis using assms Post file_post_exact(1) [OF h True, of "bd_now b"] by auto
  next
    case False
    note f = file_post_exact(2) [OF h False, of "bd_now b"]
    show ?thesis
    proof (cases "is_reresolve p")
      case True
      have "map_option g (status_row n (filed (bd_now b, p) (bd_db b))) = Some x"
        if "map_option g (status_row n (bd_db b)) = Some x" for n g x
        using that row_after_post [OF h False True] by auto
      note keep = this
      show ?thesis
      proof (rule board_okI)
        fix n e x
        assume "map_of (hc_nodes (bd_cache (board_step limits b m))) n = Some (e, x)"
        then have "map_of (hc_nodes (bd_cache b)) n = Some (e, x)" using Post f True by simp
        note k = board_okD [OF assms this]
        show "e - HEALTH_TTL \<le> bd_now (board_step limits b m)" using k(1) Post f by simp
        show "map_option (row_to_dict (e - HEALTH_TTL) (fst limits) (snd limits))
            (status_row n (bd_db (board_step limits b m))) = Some x" using keep [OF k(2)] Post f by simp
      qed (use filed_current [OF h] Post f in simp)
    next
      case reported: False
      show ?thesis
      proof (rule board_okI)
        fix n e x
        assume "map_of (hc_nodes (bd_cache (board_step limits b m))) n = Some (e, x)"
        then have o: "map_of (hc_nodes (bd_cache b)) n = Some (e, x)" "n \<noteq> post_node p"
          using Post f reported by (simp_all add: bust_health_def split: if_splits)
        note k = board_okD [OF assms o(1)]
        show "e - HEALTH_TTL \<le> bd_now (board_step limits b m)" using k(1) Post f by simp
        show "map_option (row_to_dict (e - HEALTH_TTL) (fst limits) (snd limits))
            (status_row n (bd_db (board_step limits b m))) = Some x" using k(2) o(2) Post f filed_row [OF h] by simp
      qed (use filed_current [OF h] Post f in simp)
    qed
  qed
next
  case (Get n)
  show ?thesis
  proof (cases "live (bd_now b) (map_of (hc_nodes (bd_cache b)) n)")
    case None
    have db: "bd_db (board_step limits b m) = bd_db b" "bd_now (board_step limits b m) = bd_now b" using Get by simp_all
    show ?thesis
    proof (rule board_okI)
      fix i e x
      assume a: "map_of (hc_nodes (bd_cache (board_step limits b m))) i = Some (e, x)"
      have "map_of (hc_nodes (bd_cache b)) i = Some (e, x) \<or> (\<exists>r. i = n \<and> status_row n (bd_db b) = Some r \<and>
          e = bd_now b + HEALTH_TTL \<and> x = row_to_dict (bd_now b) (fst limits) (snd limits) r)"
      proof (cases "status_row n (bd_db b)")
        case None
        then show ?thesis using a Get status_get_miss [OF \<open>live _ _ = None\<close>] by simp
      next
        case (Some r)
        then show ?thesis using a Get status_get_miss [OF \<open>live _ _ = None\<close>] by (simp split: if_splits)
      qed
      then consider "map_of (hc_nodes (bd_cache b)) i = Some (e, x)"
        | r where "i = n" "status_row n (bd_db b) = Some r" "e = bd_now b + HEALTH_TTL"
            "x = row_to_dict (bd_now b) (fst limits) (snd limits) r" by blast
      note found = this
      show "e - HEALTH_TTL \<le> bd_now (board_step limits b m)" unfolding db
      proof (rule found)
        assume "map_of (hc_nodes (bd_cache b)) i = Some (e, x)"
        then show "e - HEALTH_TTL \<le> bd_now b" by (rule board_okD(1) [OF assms])
      qed simp
      show "map_option (row_to_dict (e - HEALTH_TTL) (fst limits) (snd limits))
          (status_row i (bd_db (board_step limits b m))) = Some x" unfolding db
      proof (rule found)
        assume "map_of (hc_nodes (bd_cache b)) i = Some (e, x)"
        then show "map_option (row_to_dict (e - HEALTH_TTL) (fst limits) (snd limits)) (status_row i (bd_db b)) = Some x"
          by (rule board_okD(2) [OF assms])
      qed simp
    qed (use assms in \<open>simp add: db board_ok_def\<close>)
  next
    case (Some x)
    then show ?thesis using assms Get status_get_hit [OF Some] by simp
  qed
qed

interpretation reads: invariant_machine "board_step limits" "board_ok limits" for limits
  by unfold_locales (rule board_step_ok)

text \<open>In any run of posts, reads and passing time that starts with empty tables and an empty cache, a read with
  the configured thresholds shows the node's present row, and as its health what that row has at some moment
  of the last ten seconds: posts are seen at once, only the decay to stale and down may lag, by less than the
  time a cache entry lives.\<close>

theorem status_reads_fresh:
  assumes "ct_status s0 = []" "hc_nodes c0 = []"
    "b = foldl (board_step limits) \<lparr>bd_db = s0, bd_cache = c0, bd_now = t0\<rparr> moves"
  shows "\<exists>t. bd_now b - HEALTH_TTL < t \<and> t \<le> bd_now b \<and>
    fst (status_get limits (bd_now b) n None None (bd_db b) (bd_cache b)) =
      map_option (row_to_dict t (fst limits) (snd limits)) (status_row n (bd_db b))"
proof -
  have "board_ok limits \<lparr>bd_db = s0, bd_cache = c0, bd_now = t0\<rparr>"
    using assms(1,2) by (simp add: board_ok_def health_current_def status_row_def row_get_def)
  then have ok: "board_ok limits b" unfolding assms(3) by (rule reads.run_inv)
  show ?thesis
  proof (cases "live (bd_now b) (map_of (hc_nodes (bd_cache b)) n)")
    case None
    then show ?thesis
      by (intro exI [of _ "bd_now b"])
         (simp add: status_get_miss HEALTH_TTL_def split: option.split)
  next
    case (Some x)
    then obtain e where e: "map_of (hc_nodes (bd_cache b)) n = Some (e, x)" "bd_now b < e"
      by (auto simp: live_def split: option.splits if_splits)
    show ?thesis using board_okD(1) [OF ok e(1)] board_okD(2) [OF ok e(1), symmetric] e(2) Some
      by (intro exI [of _ "e - HEALTH_TTL"]) (simp add: status_get_hit [OF Some])
  qed
qed

section \<open>An example\<close>

definition sample_snapshot :: runtime_snapshot where
  "sample_snapshot = \<lparr>rs_node_id = ''hk1'', rs_generation = Some 3, rs_containers = [], rs_wireguard = [], rs_bgp = [],
                      rs_wg_status = OBSERVED, rs_bgp_status = OBSERVED\<rparr>"

definition sample_report :: reconciliation_report where
  "sample_report = \<lparr>rr_node_id = ''hk1'', rr_desired_generation = 4, rr_observed_generation = Some 3,
                    rr_status = SUCCEEDED, rr_drift = []\<rparr>"

definition sample_apply :: apply_result where
  "sample_apply = \<lparr>apr_node_id = ''hk1'', apr_generation = 4, apr_status = SUCCEEDED,
                   apr_summary = \<lparr>ps_create = 0, ps_update = 1, ps_delete = 0, ps_noop = 2\<rparr>, apr_files = [], apr_errors = []\<rparr>"

definition sample_posts :: "(int \<times> post) list" where
  "sample_posts = [(1, Apply_Post sample_apply), (2, Snapshot_Post sample_snapshot), (3, Report_Post sample_report),
                   (4, Apply_Post sample_apply)]"

definition sample_tables :: control where
  "sample_tables =
     \<lparr>ct_nodes = [\<lparr>nr_node_id = ''hk1'', nr_site = None, nr_asn = 4242421234, nr_router_id = ''172.20.1.1'', nr_loopback_ipv4 = None,
                   nr_loopback_ipv6 = None, nr_link_local = None, nr_ipv4_prefixes = [], nr_ipv6_prefixes = [],
                   nr_base_template = \<lparr>bt_node = None, bt_runtime = None, bt_bird = ds_bird example_state\<rparr>, nr_generation = 4,
                   nr_lifecycle = ''active'', nr_dns_group_id = None, nr_public_key = None, nr_escrow = None\<rparr>],
      ct_generations = [], ct_peerings = [], ct_wg = [], ct_bgp = [], ct_dns_groups = [],
      ct_dns_zones = [], ct_dns_records = [], ct_tokens = [], ct_tickets = [], ct_pending = [],
      ct_next_pending = 1, ct_status = [], ct_events = [], ct_next_event = 1, ct_rollups = [],
              ct_next_peering = 1, ct_next_wg = 1, ct_next_bgp = 1, ct_next_group = 1, ct_next_zone = 1, ct_next_record = 1\<rparr>"

lemma sample_run:
  "map (\<lambda>tp. (fst tp, post_kind (snd tp))) (fst (foldl file_step ([], sample_tables) sample_posts)) =
     [(4, ''apply''), (3, ''report''), (2, ''snapshot'')] \<and>
   map_option ns_health (summary ''hk1'' (fst (foldl file_step ([], sample_tables) sample_posts))) = Some NH_STALE"
  by code_simp

theorem status_tables_refine_posts_witness:
  "map_option ns_health (status_row ''hk1'' (snd (foldl file_step ([], sample_tables) sample_posts))) = Some NH_STALE"
  using status_tables_refine_posts [of sample_tables sample_posts "fst (foldl file_step ([], sample_tables) sample_posts)"
      "snd (foldl file_step ([], sample_tables) sample_posts)" "''hk1''" "''report''" 0 "Apply_Post sample_apply"] sample_run
  by (simp add: sample_tables_def)

definition sample_moves :: "board_move list" where
  "sample_moves = [Post (Snapshot_Post sample_snapshot), Get ''hk1'', Tick 3, Post (Report_Post sample_report), Get ''hk1'', Tick 9]"

definition sample_board :: board where
  "sample_board = foldl (board_step (900, 3600))
     \<lparr>bd_db = sample_tables, bd_cache = \<lparr>hc_nodes = [], hc_fleet = None\<rparr>, bd_now = 0\<rparr> sample_moves"

theorem status_reads_fresh_witness:
  "\<exists>t. bd_now sample_board - HEALTH_TTL < t \<and> t \<le> bd_now sample_board \<and>
     fst (status_get (900, 3600) (bd_now sample_board) ''hk1'' None None (bd_db sample_board) (bd_cache sample_board)) =
       map_option (row_to_dict t 900 3600) (status_row ''hk1'' (bd_db sample_board))"
  using status_reads_fresh [of sample_tables "\<lparr>hc_nodes = [], hc_fleet = None\<rparr>" sample_board "(900, 3600)" 0 sample_moves]
  by (simp add: sample_tables_def sample_board_def)

end
