(* ===== verification/Traffic.thy ===== *)
theory Traffic
  imports Node_Status
begin

text \<open>
  WireGuard traffic: the agent's sample (\<open>agent/traffic.py\<close>), the hot window in Redis
  (\<open>list\_push\_capped\<close> of \<open>services/cache.py\<close>), the archive of five-minute buckets and the series that are read
  back (\<open>services/traffic.py\<close>, \<open>services/observability.py\<close>).  \<open>moment\<close> is \<open>datetime.fromisoformat\<close> as a moment in
  seconds, None when it raises; floats are exact rationals.  The lists in Redis may be lost at any time.
\<close>

section \<open>The agent's sample\<close>

record traffic_sample =
  tm_node_id :: string
  tm_captured_at :: string
  tm_rx :: int
  tm_tx :: int
  tm_peers :: int

definition lstrip_minus :: "string \<Rightarrow> string" where
  "lstrip_minus s = dropWhile (\<lambda>c. c = CHR ''-'') s"

definition int_of :: "string \<Rightarrow> int res" where
  "int_of s = (case safe_int s of None \<Rightarrow> Inl (ValueError (''invalid literal for int() with base 10: '' @ repr_str s))
                                | Some n \<Rightarrow> Inr n)"

definition transfer_line :: "int \<times> int \<times> int \<Rightarrow> string \<Rightarrow> (int \<times> int \<times> int) res" where
  "transfer_line tot line =
     (case words line of
        _ # _ # rx # tx # _ \<Rightarrow>
          if isdigit (lstrip_minus rx) \<and> isdigit (lstrip_minus tx)
          then rbind (int_of rx) (\<lambda>r. rbind (int_of tx) (\<lambda>t.
                 Inr (fst tot + max 0 r, fst (snd tot) + max 0 t, snd (snd tot) + 1)))
          else Inr tot
      | _ \<Rightarrow> Inr tot)"

definition parse_wg_transfer :: "string \<Rightarrow> (int \<times> int \<times> int) res" where
  "parse_wg_transfer output = rfold transfer_line (0, 0, 0) (splitlines output)"

text \<open>\<open>post\<close> is the session's call; what it raises is dropped.\<close>

definition collect_and_publish_traffic ::
  "'w container_exec \<Rightarrow> (traffic_sample \<Rightarrow> ('w, unit) eff) option \<Rightarrow> desired_state option res \<Rightarrow> string \<Rightarrow> string \<Rightarrow>
   ('w, traffic_sample option) eff" where
  "collect_and_publish_traffic run post cached node_id now =
     seq (lift_res cached) (\<lambda>state. case state of
       None \<Rightarrow> ret None
     | Some s \<Rightarrow>
         (case service_container_by_role s WG_GATEWAY of
            None \<Rightarrow> ret None
          | Some c \<Rightarrow>
              seq (catching (seq (run c [''wg'', ''show'', ''all'', ''transfer'']) (\<lambda>r. ret (Some r))) (\<lambda>_. ret None)) (\<lambda>r.
                case r of
                  None \<Rightarrow> ret None
                | Some (rc, out, _) \<Rightarrow>
                    if rc \<noteq> 0 then ret None
                    else seq (lift_res (parse_wg_transfer out)) (\<lambda>(rx, tx, peers).
                      let sample = \<lparr>tm_node_id = node_id, tm_captured_at = now, tm_rx = rx, tm_tx = tx, tm_peers = peers\<rparr> in
                      seq (case post of None \<Rightarrow> ret () | Some p \<Rightarrow> catching (p sample) (\<lambda>_. ret ())) (\<lambda>_.
                        ret (Some sample))))))"

section \<open>The hot window\<close>

record sample_entry =
  en_at :: string
  en_rx :: int
  en_tx :: int

record traffic_world =
  tw_db :: control
  tw_windows :: "(string \<times> sample_entry list) list"

definition HOT_CAP :: nat where
  "HOT_CAP = 240"

text \<open>LPUSH and LTRIM 0 (cap - 1); with a cap of zero the range 0 to -1 is the whole list.\<close>

definition list_push_capped :: "string \<Rightarrow> 'a \<Rightarrow> nat \<Rightarrow> (string \<times> 'a list) list \<Rightarrow> (string \<times> 'a list) list" where
  "list_push_capped key v cap ws =
     (let l = v # (case map_of ws key of None \<Rightarrow> [] | Some l \<Rightarrow> l) in dput key (if cap = 0 then l else take cap l) ws)"

definition list_range_json :: "string \<Rightarrow> (string \<times> 'a list) list \<Rightarrow> 'a list" where
  "list_range_json key ws = (case map_of ws key of None \<Rightarrow> [] | Some l \<Rightarrow> l)"

definition window_key :: "string \<Rightarrow> string" where
  "window_key n = ''traffic:window:'' @ n"

definition traffic_rate :: "(string \<Rightarrow> rat option) \<Rightarrow> sample_entry option \<Rightarrow> sample_entry \<Rightarrow> (rat \<times> rat) option" where
  "traffic_rate moment prev cur =
     (case prev of
        None \<Rightarrow> None
      | Some p \<Rightarrow>
          (case (moment (en_at p), moment (en_at cur)) of
             (Some a, Some b) \<Rightarrow>
               let dt = b - a in
               if dt \<le> 0 then None
               else Some (rat_of_int (max 0 (en_rx cur - en_rx p)) / dt, rat_of_int (max 0 (en_tx cur - en_tx p)) / dt)
           | _ \<Rightarrow> None))"

section \<open>The archive\<close>

definition BUCKET_S :: int where
  "BUCKET_S = 300"

definition ROLLUP_KEEP :: nat where
  "ROLLUP_KEEP = 288"

definition bucket_of :: "rat \<Rightarrow> int" where
  "bucket_of ts = (if 0 \<le> ts then \<lfloor>ts\<rfloor> else \<lceil>ts\<rceil>) div BUCKET_S * BUCKET_S"

definition rollup_key :: "rollup_row \<Rightarrow> string \<times> int" where
  "rollup_key r = (ro_node_id r, ro_bucket r)"

definition trim_rollup :: "string \<Rightarrow> control \<Rightarrow> control" where
  "trim_rollup n s =
     (let keep = take ROLLUP_KEEP (rev (sort (map ro_bucket (filter (\<lambda>r. ro_node_id r = n) (ct_rollups s))))) in
      s\<lparr>ct_rollups := filter (\<lambda>r. \<not> (ro_node_id r = n \<and> ro_bucket r \<notin> set keep)) (ct_rollups s)\<rparr>)"

definition record_rollup :: "(string \<Rightarrow> rat option) \<Rightarrow> string \<Rightarrow> string \<Rightarrow> rat \<times> rat \<Rightarrow> (control, unit) eff" where
  "record_rollup moment n captured_at rate =
     (case moment captured_at of
        None \<Rightarrow> ret ()
      | Some ts \<Rightarrow>
          transaction (reading (\<lambda>s.
            let b = bucket_of ts;
                row = (case row_get rollup_key (n, b) (ct_rollups s) of
                         None \<Rightarrow> \<lparr>ro_node_id = n, ro_bucket = b, ro_rx_sum = 0, ro_tx_sum = 0, ro_count = 0\<rparr>
                       | Some r \<Rightarrow> r);
                row = row\<lparr>ro_rx_sum := ro_rx_sum row + fst rate, ro_tx_sum := ro_tx_sum row + snd rate,
                          ro_count := ro_count row + 1\<rparr> in
            if get_node n s = None then lift_res (Inl (IntegrityError ''node_traffic_rollup.node_id''))
            else modify (\<lambda>s. trim_rollup n (s\<lparr>ct_rollups := row_put rollup_key row (ct_rollups s)\<rparr>)))))"

text \<open>\<open>redis\<close> says whether the reads and the writes of this call reach Redis.\<close>

definition entry_of_sample :: "traffic_sample \<Rightarrow> sample_entry" where
  "entry_of_sample x = \<lparr>en_at = tm_captured_at x, en_rx = tm_rx x, en_tx = tm_tx x\<rparr>"

definition previous_entry :: "bool \<times> bool \<Rightarrow> traffic_sample \<Rightarrow> traffic_world \<Rightarrow> sample_entry option" where
  "previous_entry redis x w =
     (case (if fst redis then list_range_json (window_key (tm_node_id x)) (tw_windows w) else []) of
        [] \<Rightarrow> None | e # _ \<Rightarrow> Some e)"

definition with_db :: "(control, 'a) eff \<Rightarrow> (traffic_world, 'a) eff" where
  "with_db m w = (case m (tw_db w) of (r, s) \<Rightarrow> (r, w\<lparr>tw_db := s\<rparr>))"

definition push_entry :: "traffic_sample \<Rightarrow> traffic_world \<Rightarrow> traffic_world" where
  "push_entry x w =
     w\<lparr>tw_windows := list_push_capped (window_key (tm_node_id x)) (entry_of_sample x) HOT_CAP (tw_windows w)\<rparr>"

definition record_sample :: "bool \<times> bool \<Rightarrow> (string \<Rightarrow> rat option) \<Rightarrow> traffic_sample \<Rightarrow> (traffic_world, unit) eff" where
  "record_sample redis moment x =
     reading (\<lambda>w.
       seq (if snd redis then modify (push_entry x) else ret ()) (\<lambda>_.
         case traffic_rate moment (previous_entry redis x w) (entry_of_sample x) of
           None \<Rightarrow> ret ()
         | Some rate \<Rightarrow> with_db (record_rollup moment (tm_node_id x) (tm_captured_at x) rate)))"

section \<open>Series\<close>

record rate_point =
  rp_at :: string
  rp_rx :: rat
  rp_tx :: rat

definition diff_rates :: "(string \<Rightarrow> rat option) \<Rightarrow> sample_entry list \<Rightarrow> rate_point list" where
  "diff_rates moment points =
     concat (map (\<lambda>(p, q). case traffic_rate moment (Some p) q of None \<Rightarrow> []
                           | Some (rx, tx) \<Rightarrow> [\<lparr>rp_at = en_at q, rp_rx = rx, rp_tx = tx\<rparr>]) (zip points (tl points)))"

definition traffic_series_from_samples :: "(string \<Rightarrow> rat option) \<Rightarrow> sample_entry list \<Rightarrow> rate_point list" where
  "traffic_series_from_samples moment samples = diff_rates moment (sort_key en_at samples)"

text \<open>\<open>show\_time\<close> writes a bucket's start as a time stamp.\<close>

definition rollup_series :: "(int \<Rightarrow> string) \<Rightarrow> string \<Rightarrow> control \<Rightarrow> rate_point list" where
  "rollup_series show_time n s =
     map (\<lambda>r. \<lparr>rp_at = show_time (ro_bucket r), rp_rx = ro_rx_sum r / rat_of_int (ro_count r),
               rp_tx = ro_tx_sum r / rat_of_int (ro_count r)\<rparr>)
       (filter (\<lambda>r. ro_count r \<noteq> 0) (sort_key ro_bucket (filter (\<lambda>r. ro_node_id r = n) (ct_rollups s))))"

definition node_series ::
  "bool \<Rightarrow> (string \<Rightarrow> rat option) \<Rightarrow> (int \<Rightarrow> string) \<Rightarrow> string \<Rightarrow> traffic_world \<Rightarrow> rate_point list" where
  "node_series redis moment show_time n w =
     (let window = (if redis then list_range_json (window_key n) (tw_windows w) else []) in
      if 2 \<le> length window then traffic_series_from_samples moment window else rollup_series show_time n (tw_db w))"

text \<open>The fleet: per node the last value of a bucket, summed over the nodes.\<close>

definition node_buckets :: "(string \<Rightarrow> rat option) \<Rightarrow> rate_point list \<Rightarrow> (int \<times> rat \<times> rat) list" where
  "node_buckets moment points =
     foldl (\<lambda>d p. case moment (rp_at p) of None \<Rightarrow> d | Some ts \<Rightarrow> dput (bucket_of ts) (rp_rx p, rp_tx p) d) [] points"

definition add_bucket_rates :: "(int \<times> rat \<times> rat) list \<Rightarrow> int \<times> rat \<times> rat \<Rightarrow> (int \<times> rat \<times> rat) list" where
  "add_bucket_rates d e =
     (case e of (b, rx, tx) \<Rightarrow>
        (case map_of d b of None \<Rightarrow> dput b (rx, tx) d | Some (x, y) \<Rightarrow> dput b (x + rx, y + tx) d))"

definition aggregate_fleet_traffic ::
  "(string \<Rightarrow> rat option) \<Rightarrow> (int \<Rightarrow> string) \<Rightarrow> rate_point list list \<Rightarrow> rate_point list" where
  "aggregate_fleet_traffic moment show_time per_node =
     map (\<lambda>(b, rx, tx). \<lparr>rp_at = show_time b, rp_rx = rx, rp_tx = tx\<rparr>)
       (sort_key fst (foldl (\<lambda>d points. foldl add_bucket_rates d (node_buckets moment points)) [] per_node))"

definition post_wireguard_traffic ::
  "digest \<Rightarrow> int \<Rightarrow> bool \<times> bool \<Rightarrow> (string \<Rightarrow> rat option) \<Rightarrow> string option \<Rightarrow> traffic_sample \<Rightarrow> (traffic_world, int \<times> int \<times> int) eff" where
  "post_wireguard_traffic h now redis moment authorization x =
     reading (\<lambda>w. seq (lift_res (require_agent h now authorization (tw_db w))) (\<lambda>p.
       seq (lift_res (ensure_self p (tm_node_id x))) (\<lambda>_.
       seq (record_sample redis moment x) (\<lambda>_. ret (tm_rx x, tm_tx x, tm_peers x)))))"

section \<open>The newest buckets\<close>

text \<open>Bucket numbers from the newest on, without repetition.\<close>

definition newest_first :: "int list \<Rightarrow> int list" where
  "newest_first bs = rev (sort (remdups bs))"

fun insert_desc :: "int \<Rightarrow> int list \<Rightarrow> int list" where
  "insert_desc b [] = [b]"
| "insert_desc b (x # xs) = (if x < b then b # x # xs else if x = b then x # xs else x # insert_desc b xs)"

lemma set_insert_desc [simp]: "set (insert_desc b xs) = insert b (set xs)"
  by (induction xs) auto

lemma sorted_insert_desc: "sorted_wrt (>) xs \<Longrightarrow> sorted_wrt (>) (insert_desc b xs)"
  by (induction xs) auto

lemma take_insert_desc: "take k (insert_desc b (take k xs)) = take k (insert_desc b xs)"
proof (induction xs arbitrary: k)
  case (Cons x xs)
  then show ?case by (cases k) (simp_all add: take_cons_take)
qed (cases k; simp)

lemma insert_desc_present: "sorted_wrt (>) xs \<Longrightarrow> b \<in> set xs \<Longrightarrow> insert_desc b xs = xs"
  by (induction xs) auto

lemma newest_props: "sorted_wrt (>) (newest_first bs)" "set (newest_first bs) = set bs"
proof -
  have "sorted_wrt (<) (sort (remdups bs))" by (simp add: strict_sorted_iff)
  then show "sorted_wrt (>) (newest_first bs)" by (simp add: newest_first_def sorted_wrt_rev)
qed (simp add: newest_first_def)

lemma desc_unique:
  assumes "sorted_wrt (>) (xs :: int list)" "sorted_wrt (>) ys" "set xs = set ys"
  shows "xs = ys"
proof -
  have "sorted_wrt (<) (rev xs)" "sorted_wrt (<) (rev ys)" using assms by (simp_all add: sorted_wrt_rev)
  then have "rev xs = rev ys" using strict_sorted_equal [of "rev ys" "rev xs"] assms(3) by simp
  then show ?thesis by simp
qed

lemma newest_Cons: "newest_first (b # bs) = insert_desc b (newest_first bs)"
  by (rule desc_unique) (simp_all add: newest_props sorted_insert_desc)

lemma newest_distinct: "distinct bs \<Longrightarrow> rev (sort bs) = newest_first bs"
  by (simp add: newest_first_def distinct_remdups_id)

end
