(* ===== verification/Traffic_Archive.thy ===== *)
theory Traffic_Archive
  imports Traffic "HOL-Library.Multiset"
begin

text \<open>
  The traffic archive after any sequence of samples, stated over the list of the rates that were credited: a node's
  rows are its newest 288 buckets with exactly the sums and counts of their rates.
\<close>

section \<open>Rates that count\<close>

type_synonym credit = "string \<times> int \<times> rat \<times> rat"

definition credit_of :: "(string \<Rightarrow> rat option) \<Rightarrow> bool \<times> bool \<Rightarrow> traffic_sample \<Rightarrow> traffic_world \<Rightarrow> credit option" where
  "credit_of moment redis x w =
     (case traffic_rate moment (previous_entry redis x w) (entry_of_sample x) of
        None \<Rightarrow> None
      | Some (rx, tx) \<Rightarrow>
          (case moment (tm_captured_at x) of None \<Rightarrow> None | Some ts \<Rightarrow> Some (tm_node_id x, bucket_of ts, rx, tx)))"

fun sample_step ::
  "(string \<Rightarrow> rat option) \<Rightarrow> credit list \<times> traffic_world \<Rightarrow> (bool \<times> bool) \<times> traffic_sample \<Rightarrow> credit list \<times> traffic_world" where
  "sample_step moment (acc, w) (redis, x) =
     (case record_sample redis moment x w of
        (Inl _, w') \<Rightarrow> (acc, w')
      | (Inr _, w') \<Rightarrow> (case credit_of moment redis x w of None \<Rightarrow> (acc, w') | Some c \<Rightarrow> (c # acc, w')))"

definition buckets :: "string \<Rightarrow> credit list \<Rightarrow> int list" where
  "buckets n acc = map (\<lambda>c. fst (snd c)) (filter (\<lambda>c. fst c = n) acc)"

definition credited :: "string \<Rightarrow> int \<Rightarrow> credit list \<Rightarrow> (rat \<times> rat) list" where
  "credited n b acc = map (\<lambda>c. snd (snd c)) (filter (\<lambda>c. fst c = n \<and> fst (snd c) = b) acc)"

definition bucket_row :: "string \<Rightarrow> int \<Rightarrow> credit list \<Rightarrow> rollup_row" where
  "bucket_row n b acc =
     \<lparr>ro_node_id = n, ro_bucket = b, ro_rx_sum = sum_list (map fst (credited n b acc)),
      ro_tx_sum = sum_list (map snd (credited n b acc)), ro_count = int (length (credited n b acc))\<rparr>"

definition kept :: "string \<Rightarrow> credit list \<Rightarrow> int list" where
  "kept n acc = take ROLLUP_KEEP (newest_first (buckets n acc))"

section \<open>The table\<close>

definition cell :: "string \<Rightarrow> int \<Rightarrow> control \<Rightarrow> rollup_row option" where
  "cell n b s = row_get rollup_key (n, b) (ct_rollups s)"

definition archive_ok :: "credit list \<Rightarrow> control \<Rightarrow> bool" where
  "archive_ok acc s \<longleftrightarrow> distinct (map rollup_key (ct_rollups s)) \<and>
     (\<forall>n b. cell n b s = (if b \<in> set (kept n acc) then Some (bucket_row n b acc) else None))"

lemma row_get_filter:
  assumes "distinct (map key rs)"
  shows "row_get key k (filter P rs) = (case row_get key k rs of None \<Rightarrow> None | Some r \<Rightarrow> if P r then Some r else None)"
  using assms
proof (induction rs)
  case (Cons x xs)
  have "row_get key k (filter P xs) = None" if "key x = k"
  proof -
    have "\<not> (\<exists>y\<in>set (filter P xs). key y = k)" using Cons.prems that by (metis distinct.simps(2) filter_is_subset image_eqI list.simps(9) set_map subsetD)
    then show ?thesis by (simp add: row_get_def find_None_iff)
  qed
  then show ?case using Cons by (auto simp: row_get_def)
qed (simp add: row_get_def)

lemma row_get_Some_iff:
  assumes "distinct (map key rs)"
  shows "row_get key k rs = Some r \<longleftrightarrow> r \<in> set rs \<and> key r = k"
  using assms by (induction rs) (auto simp: row_get_def)

lemma own_buckets:
  assumes "distinct (map rollup_key rs)"
  shows "set (map ro_bucket (filter (\<lambda>r. ro_node_id r = n) rs)) = {b. row_get rollup_key (n, b) rs \<noteq> None}"
    "distinct (map ro_bucket (filter (\<lambda>r. ro_node_id r = n) rs))"
proof -
  show "set (map ro_bucket (filter (\<lambda>r. ro_node_id r = n) rs)) = {b. row_get rollup_key (n, b) rs \<noteq> None}"
    by (auto simp: row_get_def find_None_iff rollup_key_def)
  show "distinct (map ro_bucket (filter (\<lambda>r. ro_node_id r = n) rs))"
  proof -
    have "distinct (map rollup_key (filter (\<lambda>r. ro_node_id r = n) rs))" using assms by (rule distinct_map_filter)
    then show ?thesis by (auto simp: distinct_map inj_on_def rollup_key_def)
  qed
qed

lemma trim_cell:
  assumes "distinct (map rollup_key (ct_rollups s))" "sorted_wrt (>) L" "set L = {b. cell n b s \<noteq> None}"
  shows "cell m b (trim_rollup n s) = (if m = n \<and> b \<notin> set (take ROLLUP_KEEP L) then None else cell m b s)"
    "distinct (map rollup_key (ct_rollups (trim_rollup n s)))"
proof -
  let ?bs = "map ro_bucket (filter (\<lambda>r. ro_node_id r = n) (ct_rollups s))"
  have "rev (sort ?bs) = L"
    using own_buckets [OF assms(1), of n] assms(2,3) newest_props [of ?bs]
    by (auto simp: newest_distinct cell_def intro: desc_unique)
  then have t: "ct_rollups (trim_rollup n s) =
      filter (\<lambda>r. \<not> (ro_node_id r = n \<and> ro_bucket r \<notin> set (take ROLLUP_KEEP L))) (ct_rollups s)"
    by (simp add: trim_rollup_def Let_def)
  show "distinct (map rollup_key (ct_rollups (trim_rollup n s)))"
    unfolding t using assms(1) by (simp add: distinct_map_filter)
  show "cell m b (trim_rollup n s) = (if m = n \<and> b \<notin> set (take ROLLUP_KEEP L) then None else cell m b s)"
  proof (cases "row_get rollup_key (m, b) (ct_rollups s)")
    case None
    then show ?thesis by (simp add: cell_def t row_get_filter [OF assms(1)])
  next
    case (Some r)
    then have "ro_node_id r = m" "ro_bucket r = b" using row_get_Some_iff [OF assms(1)] by (auto simp: rollup_key_def)
    then show ?thesis using Some by (simp add: cell_def t row_get_filter [OF assms(1)])
  qed
qed

section \<open>One sample\<close>

lemma bucket_row_step:
  "bucket_row n b ((n, b, rx, tx) # acc) =
     (bucket_row n b acc)\<lparr>ro_rx_sum := ro_rx_sum (bucket_row n b acc) + rx, ro_tx_sum := ro_tx_sum (bucket_row n b acc) + tx,
        ro_count := ro_count (bucket_row n b acc) + 1\<rparr>"
  by (simp add: bucket_row_def credited_def)

lemma bucket_row_other: "(m, c) \<noteq> (n, b) \<Longrightarrow> bucket_row m c ((n, b, rx, tx) # acc) = bucket_row m c acc"
  by (auto simp: bucket_row_def credited_def)

lemma bucket_row_fresh: "b \<notin> set (buckets n acc) \<Longrightarrow>
  bucket_row n b acc = \<lparr>ro_node_id = n, ro_bucket = b, ro_rx_sum = 0, ro_tx_sum = 0, ro_count = 0\<rparr>"
proof -
  assume "b \<notin> set (buckets n acc)"
  then have "credited n b acc = []" by (auto simp: buckets_def credited_def filter_empty_conv)
  then show ?thesis by (simp add: bucket_row_def)
qed

lemma kept_step:
  "kept m ((n, b, c) # acc) = (if m = n then take ROLLUP_KEEP (insert_desc b (kept n acc)) else kept m acc)"
  by (simp add: kept_def buckets_def newest_Cons take_insert_desc)

lemma kept_buckets: "set (kept n acc) \<subseteq> set (buckets n acc)"
  using newest_props(2) set_take_subset unfolding kept_def by metis

lemma kept_sorted: "sorted_wrt (>) (kept n acc)"
  unfolding kept_def by (rule sorted_wrt_take) (rule newest_props)

text \<open>A bucket that was trimmed stays out.\<close>

lemma trimmed_stays_out:
  assumes "b \<in> set (buckets n acc)" "b \<notin> set (kept n acc)"
  shows "b \<notin> set (kept n ((n, b, c) # acc))"
proof -
  have "insert_desc b (newest_first (buckets n acc)) = newest_first (buckets n acc)"
    by (rule insert_desc_present) (simp_all add: newest_props assms(1))
  then have "kept n ((n, b, c) # acc) = kept n acc" by (simp add: kept_def buckets_def newest_Cons)
  then show ?thesis using assms(2) by simp
qed

lemma rollup_step:
  assumes "archive_ok acc s" "moment stamp = Some ts"
  shows "record_rollup moment n stamp (rx, tx) s =
      (if get_node n s = None then (Inl (IntegrityError ''node_traffic_rollup.node_id''), s)
       else (Inr (), snd (record_rollup moment n stamp (rx, tx) s)))"
    "get_node n s \<noteq> None \<Longrightarrow> archive_ok ((n, bucket_of ts, rx, tx) # acc) (snd (record_rollup moment n stamp (rx, tx) s))"
proof -
  show "record_rollup moment n stamp (rx, tx) s =
      (if get_node n s = None then (Inl (IntegrityError ''node_traffic_rollup.node_id''), s)
       else (Inr (), snd (record_rollup moment n stamp (rx, tx) s)))"
    using assms(2) by (simp add: record_rollup_def transaction_def Let_def)
  assume known: "get_node n s \<noteq> None"
  let ?b = "bucket_of ts"
  let ?old = "case cell n ?b s of None \<Rightarrow> \<lparr>ro_node_id = n, ro_bucket = ?b, ro_rx_sum = 0, ro_tx_sum = 0, ro_count = 0\<rparr>
              | Some r \<Rightarrow> r"
  define row where "row = ?old\<lparr>ro_rx_sum := ro_rx_sum ?old + rx, ro_tx_sum := ro_tx_sum ?old + tx, ro_count := ro_count ?old + 1\<rparr>"
  define s1 where "s1 = s\<lparr>ct_rollups := row_put rollup_key row (ct_rollups s)\<rparr>"
  have res: "snd (record_rollup moment n stamp (rx, tx) s) = trim_rollup n s1"
    using assms(2) known by (auto simp: record_rollup_def transaction_def Let_def cell_def row_def s1_def)
  have d: "distinct (map rollup_key (ct_rollups s))"
    and c: "\<And>n b. cell n b s = (if b \<in> set (kept n acc) then Some (bucket_row n b acc) else None)"
    using assms(1) by (auto simp: archive_ok_def)
  have key: "rollup_key row = (n, ?b)" by (simp add: row_def rollup_key_def c bucket_row_def)
  have d': "distinct (map rollup_key (ct_rollups s1))" using distinct_row_put [OF d] by (simp add: s1_def)
  have c': "cell m b s1 = (if (m, b) = (n, ?b) then Some row else cell m b s)" for m b
    using key by (auto simp: cell_def table_simps s1_def)
  have L: "sorted_wrt (>) (insert_desc ?b (kept n acc))" "set (insert_desc ?b (kept n acc)) = {b. cell n b s1 \<noteq> None}"
    by (rule sorted_insert_desc [OF kept_sorted]) (auto simp: c' c)
  note trim = trim_cell [OF d' L]
  have row: "row = bucket_row n ?b ((n, ?b, rx, tx) # acc)" if "?b \<in> set (kept n ((n, ?b, rx, tx) # acc))"
  proof (cases "?b \<in> set (kept n acc)")
    case True
    then show ?thesis by (simp add: row_def c bucket_row_step)
  next
    case False
    then have "?b \<notin> set (buckets n acc)" using that trimmed_stays_out by metis
    then show ?thesis using False by (simp add: row_def c bucket_row_step bucket_row_fresh)
  qed
  have "cell m b (trim_rollup n s1) =
      (if b \<in> set (kept m ((n, ?b, rx, tx) # acc)) then Some (bucket_row m b ((n, ?b, rx, tx) # acc)) else None)" for m b
  proof (cases "m = n")
    case False
    then show ?thesis by (simp add: trim(1) c' c kept_step bucket_row_other)
  next
    case m: True
    show ?thesis
    proof (cases "b = ?b")
      case True
      then show ?thesis using row m by (simp add: trim(1) c' kept_step)
    next
      case False
      then show ?thesis using m
        by (auto simp: trim(1) c' c kept_step bucket_row_other dest: in_set_takeD)
    qed
  qed
  then show "archive_ok ((n, ?b, rx, tx) # acc) (snd (record_rollup moment n stamp (rx, tx) s))"
    using trim(2) by (simp add: archive_ok_def res)
qed

section \<open>Any sequence of samples\<close>

lemma with_db_run: "with_db m w = (fst (m (tw_db w)), w\<lparr>tw_db := snd (m (tw_db w))\<rparr>)"
  by (simp add: with_db_def split: prod.split)

lemma sample_step_ok:
  assumes "archive_ok (fst aw) (tw_db (snd aw))"
  shows "archive_ok (fst (sample_step moment aw rx)) (tw_db (snd (sample_step moment aw rx)))"
proof -
  obtain acc w where aw: "aw = (acc, w)" by (cases aw)
  obtain redis x where rx: "rx = (redis, x)" by (cases rx)
  define w1 where "w1 = (if snd redis then push_entry x w else w)"
  have w1: "tw_db w1 = tw_db w" by (simp add: w1_def push_entry_def)
  have run: "record_sample redis moment x w =
      (case traffic_rate moment (previous_entry redis x w) (entry_of_sample x) of
         None \<Rightarrow> (Inr (), w1)
       | Some rate \<Rightarrow> with_db (record_rollup moment (tm_node_id x) (tm_captured_at x) rate) w1)"
    by (simp add: record_sample_def seq_def w1_def split: option.split)
  show ?thesis
  proof (cases "traffic_rate moment (previous_entry redis x w) (entry_of_sample x)")
    case None
    then show ?thesis using assms aw rx run w1 by (simp add: credit_of_def)
  next
    case (Some rate)
    obtain p q where rate: "rate = (p, q)" by (cases rate)
    obtain ts where ts: "moment (tm_captured_at x) = Some ts"
      using Some by (auto simp: traffic_rate_def entry_of_sample_def split: option.splits)
    have ok: "archive_ok acc (tw_db w1)" using assms aw w1 by simp
    note step = rollup_step [where moment = moment and stamp = "tm_captured_at x" and n = "tm_node_id x" and rx = p and tx = q, OF ok ts]
    show ?thesis
    proof (cases "get_node (tm_node_id x) (tw_db w1) = None")
      case True
      then show ?thesis using aw rx run Some rate step(1) ok by (simp add: with_db_run)
    next
      case False
      then have "fst (record_rollup moment (tm_node_id x) (tm_captured_at x) (p, q) (tw_db w1)) = Inr ()"
        by (subst step(1)) simp
      then show ?thesis using aw rx run Some rate step(2) [OF False] ts
        by (simp add: with_db_run credit_of_def)
    qed
  qed
qed

interpretation archive: invariant_machine "sample_step moment" "\<lambda>aw. archive_ok (fst aw) (tw_db (snd aw))" for moment
  by unfold_locales (rule sample_step_ok)

lemma map_sort_key: "map f (sort_key f xs) = sort (map f xs)"
  by (rule sym, rule properties_for_sort) simp_all

lemma kept_rows:
  assumes "archive_ok acc s"
  shows "sort_key ro_bucket (filter (\<lambda>r. ro_node_id r = n) (ct_rollups s)) =
    map (\<lambda>b. bucket_row n b acc) (rev (kept n acc))"
proof -
  let ?own = "filter (\<lambda>r. ro_node_id r = n) (ct_rollups s)"
  have d: "distinct (map rollup_key (ct_rollups s))"
    and c: "\<And>b. cell n b s = (if b \<in> set (kept n acc) then Some (bucket_row n b acc) else None)"
    using assms by (auto simp: archive_ok_def)
  have "rev (sort (map ro_bucket ?own)) = newest_first (map ro_bucket ?own)"
    by (rule newest_distinct) (rule own_buckets(2) [OF d])
  also have "\<dots> = kept n acc"
    by (rule desc_unique [OF newest_props(1) kept_sorted])
       (use own_buckets(1) [OF d, of n] c in \<open>simp only: newest_props(2) cell_def, auto split: if_splits\<close>)
  finally have "rev (sort (map ro_bucket ?own)) = kept n acc" .
  then have b: "map ro_bucket (sort_key ro_bucket ?own) = rev (kept n acc)"
    using map_sort_key [of ro_bucket ?own] by (metis rev_rev_ident)
  have "r = bucket_row n (ro_bucket r) acc" if "r \<in> set ?own" for r
    using that c [of "ro_bucket r"] row_get_Some_iff [OF d, of "(n, ro_bucket r)" r]
    by (auto simp: cell_def rollup_key_def split: if_splits)
  then have "sort_key ro_bucket ?own = map (\<lambda>r. bucket_row n (ro_bucket r) acc) (sort_key ro_bucket ?own)"
    using map_idI [of "sort_key ro_bucket ?own" "\<lambda>r. bucket_row n (ro_bucket r) acc"] by (metis set_sort_key)
  also have "\<dots> = map (\<lambda>b. bucket_row n b acc) (map ro_bucket (sort_key ro_bucket ?own))" by simp
  finally show ?thesis using b by simp
qed

text \<open>C17: After any sequence of samples of any nodes, with Redis answering or not, the archive of a node reads as
  one point for each of its newest 288 buckets, in ascending order, whose rates are the averages of exactly the
  rates that were credited to that bucket: nothing of a kept bucket is lost or counted twice, and a late sample
  for a bucket that was dropped does not bring it back.\<close>

theorem archive_is_newest_day:
  assumes "ct_rollups (tw_db w0) = []" "foldl (sample_step moment) ([], w0) samples = (acc, w)"
  shows "rollup_series show_time n (tw_db w) =
    map (\<lambda>b. \<lparr>rp_at = show_time b,
              rp_rx = sum_list (map fst (credited n b acc)) / rat_of_int (int (length (credited n b acc))),
              rp_tx = sum_list (map snd (credited n b acc)) / rat_of_int (int (length (credited n b acc)))\<rparr>)
      (rev (take ROLLUP_KEEP (newest_first (buckets n acc))))"
proof -
  have "archive_ok [] (tw_db w0)"
    using assms(1) by (simp add: archive_ok_def cell_def row_get_def kept_def buckets_def newest_first_def)
  then have ok: "archive_ok acc (tw_db w)" using archive.run_inv [of "([], w0)" moment samples] assms(2) by simp
  have "credited n b acc \<noteq> []" if "b \<in> set (kept n acc)" for b
    using that kept_buckets [of n acc] by (auto simp: buckets_def credited_def filter_empty_conv)
  then have "filter (\<lambda>r. ro_count r \<noteq> 0) (map (\<lambda>b. bucket_row n b acc) (rev (kept n acc))) =
      map (\<lambda>b. bucket_row n b acc) (rev (kept n acc))"
    by (auto simp: filter_id_conv bucket_row_def)
  then show ?thesis by (simp add: rollup_series_def kept_rows [OF ok]) (simp add: bucket_row_def kept_def)
qed

section \<open>The hot window\<close>

interpretation window: bounded_history "\<lambda>w. list_range_json (window_key n) (tw_windows w)" "\<lambda>w x. push_entry x w"
  entry_of_sample "\<lambda>x. tm_node_id x = n" "\<lambda>_. True" HOT_CAP for n
  by unfold_locales (simp_all add: push_entry_def list_push_capped_def list_range_json_def window_key_def HOT_CAP_def Let_def)

lemma window_is_newest:
  "list_range_json (window_key n) (tw_windows w) = [] \<Longrightarrow>
   list_range_json (window_key n) (tw_windows (foldl (\<lambda>w x. push_entry x w) w xs)) =
     take HOT_CAP (rev (map entry_of_sample (filter (\<lambda>x. tm_node_id x = n) xs)))"
  using window.entries_pushes [where l = w and n = n and xs = xs] by simp

text \<open>Without Redis nothing is ever archived: the rate is taken between the sample and the head of the window.\<close>

lemma no_archive_without_redis: "\<not> fst redis \<Longrightarrow> tw_db (snd (record_sample redis moment x w)) = tw_db w"
  by (simp add: record_sample_def previous_entry_def traffic_rate_def seq_def push_entry_def)

text \<open>The agent's parser raises on a field that is digits after two minus signs.\<close>

lemma double_minus_raises: "parse_wg_transfer ''wg0 key --5 7'' = Inl (ValueError (''invalid literal for int() with base 10: '' @ repr_str ''--5''))"
  by code_simp

section \<open>An example\<close>

definition sample_clock :: "string \<Rightarrow> rat option" where
  "sample_clock s = (if isdigit s then Some (rat_of_int (int_of_digits s)) else None)"

definition sample_world :: traffic_world where
  "sample_world = \<lparr>tw_db =
     \<lparr>ct_nodes = [\<lparr>nr_node_id = ''hk1'', nr_site = None, nr_asn = 4242421234, nr_router_id = ''172.20.1.1'', nr_loopback_ipv4 = None,
                   nr_loopback_ipv6 = None, nr_link_local = None, nr_ipv4_prefixes = [], nr_ipv6_prefixes = [],
                   nr_base_template = \<lparr>bt_node = None, bt_runtime = None, bt_bird = ds_bird example_state\<rparr>, nr_generation = 4,
                   nr_lifecycle = ''active'', nr_dns_group_id = None, nr_public_key = None, nr_escrow = None\<rparr>],
      ct_generations = [], ct_peerings = [], ct_wg = [], ct_bgp = [], ct_dns_groups = [],
      ct_dns_zones = [], ct_dns_records = [], ct_tokens = [], ct_tickets = [], ct_pending = [],
      ct_next_pending = 1, ct_status = [], ct_events = [], ct_next_event = 1, ct_rollups = [],
              ct_next_peering = 1, ct_next_wg = 1, ct_next_bgp = 1, ct_next_group = 1, ct_next_zone = 1, ct_next_record = 1\<rparr>, tw_windows = []\<rparr>"

definition sample_traffic :: "((bool \<times> bool) \<times> traffic_sample) list" where
  "sample_traffic = map (\<lambda>(stamp, rx, tx). ((True, True), \<lparr>tm_node_id = ''hk1'', tm_captured_at = stamp, tm_rx = rx, tm_tx = tx, tm_peers = 1\<rparr>))
     [(''600'', 0, 0), (''630'', 300, 60), (''660'', 900, 120), (''960'', 900, 420)]"

lemma sample_credits:
  "fst (foldl (sample_step sample_clock) ([], sample_world) sample_traffic) =
     [(''hk1'', 900, 0, 1), (''hk1'', 600, 20, 2), (''hk1'', 600, 10, 2)]"
  by code_simp

theorem archive_is_newest_day_witness:
  "rollup_series str_int ''hk1'' (tw_db (snd (foldl (sample_step sample_clock) ([], sample_world) sample_traffic))) =
     [\<lparr>rp_at = ''600'', rp_rx = 15, rp_tx = 2\<rparr>, \<lparr>rp_at = ''900'', rp_rx = 0, rp_tx = 1\<rparr>]"
proof -
  let ?run = "foldl (sample_step sample_clock) ([], sample_world) sample_traffic"
  have "newest_first [900, 600, 600] = [900, 600]" "str_int 600 = ''600''" "str_int 900 = ''900''" by code_simp+
  moreover have "ct_rollups (tw_db sample_world) = []" by (simp add: sample_world_def)
  ultimately show ?thesis
    using archive_is_newest_day [OF _ prod.collapse [of ?run, symmetric], of str_int "''hk1''"]
    by (simp add: sample_credits buckets_def credited_def ROLLUP_KEEP_def)
qed

end
