(* ===== verification/Served_Configuration.thy ===== *)
theory Served_Configuration
  imports Generation_Log
begin

text \<open>
  What a node is served and what its tables say.  A handler of the configuration API edits rows of some nodes and
  publishes those nodes again; the lemmas here say which nodes an edit concerns and that publishing brings them up to
  date, so that no handler that publishes leaves a node with a state its tables have moved away from.
\<close>

section \<open>Tables that are numbered by a sequence\<close>

definition keyed :: "('r \<Rightarrow> int) \<Rightarrow> int \<Rightarrow> 'r list \<Rightarrow> bool" where
  "keyed key next rows \<longleftrightarrow> distinct (map key rows) \<and> (\<forall>r\<in>set rows. key r < next)"

lemma keyed_put: "keyed key k rows \<Longrightarrow> key r < k \<Longrightarrow> keyed key k (row_put key r rows)"
  using set_row_put [of key r rows] by (auto simp: keyed_def distinct_row_put)

lemma keyed_filter: "keyed key k rows \<Longrightarrow> keyed key k (filter P rows)"
  by (simp add: keyed_def distinct_map_filter)

lemma keyed_del: "keyed key k rows \<Longrightarrow> keyed key k (row_del key i rows)"
  by (simp add: row_del_def keyed_filter)

lemma keyed_map: "keyed key k rows \<Longrightarrow> (\<And>r. key (f r) = key r) \<Longrightarrow> keyed key k (map f rows)"
  by (simp add: keyed_def comp_def)

lemma keyed_next: "keyed key k rows \<Longrightarrow> keyed key (k + 1) rows"
  by (force simp: keyed_def)

lemma keyed_get: "keyed key k rows \<Longrightarrow> r \<in> set rows \<Longrightarrow> row_get key (key r) rows = Some r"
  by (induction rows) (auto simp: keyed_def row_get_def)

lemma keyed_new: "keyed key k rows \<Longrightarrow> row_get key k rows = None"
  by (auto simp: keyed_def row_get_def find_None_iff)

lemma filter_row_put:
  assumes "\<not> P r" "\<And>old. row_get key (key r) rows = Some old \<Longrightarrow> \<not> P old"
  shows "filter P (row_put key r rows) = filter P rows"
  using assms by (induction key r rows rule: row_put.induct) (auto simp: row_get_def split: if_splits)

lemma map_row_put: "row_get key (key r) rows = Some old \<Longrightarrow> f r = f old \<Longrightarrow> map f (row_put key r rows) = map f rows"
  by (induction key r rows rule: row_put.induct) (auto simp: row_get_def split: if_splits)

lemma map_filter_row_put:
  assumes "row_get key (key r) rows = Some old" "f r = f old" "P r = P old"
  shows "map f (filter P (row_put key r rows)) = map f (filter P rows)"
  using assms by (induction key r rows rule: row_put.induct) (auto simp: row_get_def split: if_splits)

lemma row_put_new: "row_get key (key r) rows = None \<Longrightarrow> row_put key r rows = rows @ [r]"
  by (induction key r rows rule: row_put.induct) (auto simp: row_get_def split: if_splits)

lemma filter_row_del:
  assumes "\<And>old. old \<in> set rows \<Longrightarrow> key old = i \<Longrightarrow> \<not> P old"
  shows "filter P (row_del key i rows) = filter P rows"
  using assms by (induction rows) (auto simp: row_del_def)

section \<open>What the configuration tables keep\<close>

text \<open>Rows have their own numbers below the sequence; interfaces and sessions belong to a node that
  is there and hang on peerings of it;
  no node is assigned a group that is yet to come.\<close>

definition hangs_on :: "control \<Rightarrow> string \<Rightarrow> int option \<Rightarrow> bool" where
  "hangs_on s n pid \<longleftrightarrow> (\<forall>i. pid = Some i \<longrightarrow> (\<exists>p. get_peering_row i s = Some p \<and> pe_local_node_id p = n))"

definition at_home :: "control \<Rightarrow> string \<Rightarrow> int option \<Rightarrow> bool" where
  "at_home s n pid \<longleftrightarrow> get_node n s \<noteq> None \<and> hangs_on s n pid"

lemmas home_defs = at_home_def hangs_on_def

definition config_inv :: "control \<Rightarrow> bool" where
  "config_inv s \<longleftrightarrow>
     keyed wg_id (ct_next_wg s) (ct_wg s) \<and> keyed bg_id (ct_next_bgp s) (ct_bgp s) \<and>
     keyed pe_id (ct_next_peering s) (ct_peerings s) \<and> keyed gr_id (ct_next_group s) (ct_dns_groups s) \<and>
     keyed gz_id (ct_next_zone s) (ct_dns_zones s) \<and> keyed gc_id (ct_next_record s) (ct_dns_records s) \<and>
     (\<forall>r\<in>set (ct_wg s). at_home s (wg_node_id r) (wg_peering_id r)) \<and>
     (\<forall>r\<in>set (ct_bgp s). at_home s (bg_node_id r) (bg_peering_id r)) \<and>
     (\<forall>node\<in>set (ct_nodes s). \<forall>g. nr_dns_group_id node = Some g \<longrightarrow> g < ct_next_group s)"

section \<open>What a node's state is assembled from\<close>

text \<open>The keys that are set: those of nodes without one are never looked up.\<close>

definition node_keys :: "control \<Rightarrow> (string \<times> string option) list" where
  "node_keys s = map (\<lambda>n. (nr_node_id n, nr_public_key n)) (filter (\<lambda>n. truthy (nr_public_key n)) (ct_nodes s))"

definition group_view :: "int \<Rightarrow> control \<Rightarrow> dns_group_row option \<times> (dns_zone_row \<times> dns_record_row list) list" where
  "group_view g s =
     (get_group_row g s,
      map (\<lambda>z. (z, filter (\<lambda>r. gc_zone_id r = gz_id z) (ct_dns_records s))) (filter (\<lambda>z. gz_group_id z = g) (ct_dns_zones s)))"

text \<open>The generation number and the state the tables would give, as a function of the number.\<close>

definition view :: "string \<Rightarrow> control \<Rightarrow> (int \<times> (int \<Rightarrow> desired_state res)) option" where
  "view n s = map_option (\<lambda>node. (nr_generation node, assembled s node)) (get_node n s)"

lemma load_peer_public_keys_alt:
  "load_peer_public_keys s rows =
     (let remote_ids = concat (map (\<lambda>r. case remote_of s r of None \<Rightarrow> [] | Some n \<Rightarrow> [n]) rows) in
      concat (map (\<lambda>(n, k). if n \<in> set remote_ids \<and> truthy k then [(n, the k)] else []) (node_keys s)))"
proof -
  have "concat (map (\<lambda>n. if nr_node_id n \<in> A \<and> truthy (nr_public_key n) then [(nr_node_id n, the (nr_public_key n))] else []) ns) =
      concat (map (\<lambda>(n, k). if n \<in> A \<and> truthy k then [(n, the k)] else [])
        (map (\<lambda>n. (nr_node_id n, nr_public_key n)) (filter (\<lambda>n. truthy (nr_public_key n)) ns)))" for A ns
    by (induction ns) simp_all
  then show ?thesis by (simp only: load_peer_public_keys_def node_keys_def Let_def)
qed

lemma remote_of_cong: "peering_of t r = peering_of s r \<Longrightarrow> remote_of t r = remote_of s r"
  by (simp add: remote_of_def)

lemma load_dns_group_cong:
  assumes "\<And>g. nr_dns_group_id node = Some g \<Longrightarrow> group_view g t = group_view g s"
  shows "load_dns_group t node = load_dns_group s node"
proof (cases "nr_dns_group_id node")
  case (Some g)
  note v = assms [OF Some, unfolded group_view_def prod.inject]
  have row: "find (\<lambda>r. gr_id r = g) (ct_dns_groups t) = find (\<lambda>r. gr_id r = g) (ct_dns_groups s)"
    using v by (simp add: get_group_row_def row_get_def)
  have zones: "filter (\<lambda>z. gz_group_id z = g) (ct_dns_zones t) = filter (\<lambda>z. gz_group_id z = g) (ct_dns_zones s)"
    using arg_cong [OF v [THEN conjunct2], of "map fst"] by (simp add: comp_def)
  have records: "filter (\<lambda>r. gc_zone_id r = gz_id z) (ct_dns_records t) = filter (\<lambda>r. gc_zone_id r = gz_id z) (ct_dns_records s)"
    if "z \<in> set (ct_dns_zones s)" "gz_group_id z = g" for z
    using v [THEN conjunct2] zones that by (auto simp: map_eq_conv)
  have zr: "zone_records t z = zone_records s z" if z: "z \<in> set (ct_dns_zones s)" "gz_group_id z = g" for z
    using arg_cong [OF records [OF z], of "filter gc_enabled"] by (simp add: zone_records_def conj_commute)
  have enabled: "filter (\<lambda>z. gz_group_id z = g \<and> gz_enabled z) (ct_dns_zones t) =
      filter (\<lambda>z. gz_group_id z = g \<and> gz_enabled z) (ct_dns_zones s)"
    using arg_cong [OF zones, of "filter gz_enabled"] by (simp add: conj_commute)
  have id: "gr_id x = g" if "find (\<lambda>r. gr_id r = g) (ct_dns_groups s) = Some x" for x
    using that by (auto simp: find_Some_iff)
  have out: "map (\<lambda>z. case zone_records t z of [] \<Rightarrow> [] | rs \<Rightarrow> [zone_spec z rs])
        (sort_key f (filter (\<lambda>z. gz_group_id z = g \<and> gz_enabled z) (ct_dns_zones s))) =
      map (\<lambda>z. case zone_records s z of [] \<Rightarrow> [] | rs \<Rightarrow> [zone_spec z rs])
        (sort_key f (filter (\<lambda>z. gz_group_id z = g \<and> gz_enabled z) (ct_dns_zones s)))" for f :: "dns_zone_row \<Rightarrow> string \<times> int"
    by (rule map_cong) (simp_all add: zr)
  show ?thesis
  proof (cases "find (\<lambda>r. gr_id r = g) (ct_dns_groups s)")
    case None
    then show ?thesis using Some row by (simp add: load_dns_group_def)
  next
    case hit: (Some x)
    show ?thesis by (simp only: load_dns_group_def Let_def Some option.case row hit id [OF hit] enabled out)
  qed
qed (simp add: load_dns_group_def)

lemma assembled_cong:
  assumes "nr_node_id node = n" "node_keys t = node_keys s"
    and "load_interfaces n t = load_interfaces n s" "load_sessions n t = load_sessions n s"
    and "\<And>r. r \<in> set (load_interfaces n s) \<Longrightarrow> peering_of t r = peering_of s r"
    and "\<And>g. nr_dns_group_id node = Some g \<Longrightarrow> group_view g t = group_view g s"
  shows "assembled t node = assembled s node"
proof
  fix g
  have dns: "load_dns_group t node = load_dns_group s node"
    by (rule load_dns_group_cong) (rule assms(6))
  have remote: "map (\<lambda>r. case remote_of t r of None \<Rightarrow> [] | Some n \<Rightarrow> [n]) (load_interfaces n s) =
      map (\<lambda>r. case remote_of s r of None \<Rightarrow> [] | Some n \<Rightarrow> [n]) (load_interfaces n s)"
    by (rule map_cong) (simp_all add: remote_of_cong [OF assms(5)])
  have keys: "load_peer_public_keys t (load_interfaces n s) = load_peer_public_keys s (load_interfaces n s)"
    unfolding load_peer_public_keys_alt remote assms(2) ..
  have payload: "interface_payload t k l r = interface_payload s k l r" if "r \<in> set (load_interfaces n s)" for k l r
    using assms(5) [OF that] by (simp add: interface_payload_def remote_of_cong [OF assms(5) [OF that]])
  then show "assembled t node g = assembled s node g"
    using assms(1,3,4) dns keys
    by (auto simp: assembled_def assemble_snapshot_def Let_def split: option.split intro!: arg_cong2 [where f = rbind])
qed

lemma assembled_generation_free [simp]: "assembled s (node\<lparr>nr_generation := k\<rparr>) = assembled s node"
  by (rule ext) (simp add: assembled_def assemble_snapshot_def load_dns_group_def node_payload_def Let_def cong: option.case_cong)

lemma view_cong:
  assumes "get_node n t = get_node n s" "node_keys t = node_keys s"
    and "load_interfaces n t = load_interfaces n s" "load_sessions n t = load_sessions n s"
    and "\<And>r. r \<in> set (load_interfaces n s) \<Longrightarrow> peering_of t r = peering_of s r"
    and "\<And>node g. get_node n s = Some node \<Longrightarrow> nr_dns_group_id node = Some g \<Longrightarrow> group_view g t = group_view g s"
  shows "view n t = view n s"
proof (cases "get_node n s")
  case (Some node)
  have "assembled t node = assembled s node"
    by (rule assembled_cong [OF get_node_key [OF Some] assms(2-5) assms(6) [OF Some]])
  then show ?thesis using Some assms(1) by (simp add: view_def)
qed (use assms(1) in \<open>simp add: view_def\<close>)

section \<open>Edits\<close>

text \<open>An edit that concerns the nodes \<open>N\<close> keeps the invariant and the stored generations, and what every other node's
  tables say.\<close>

definition edits :: "string set \<Rightarrow> control \<Rightarrow> control \<Rightarrow> bool" where
  "edits N s t \<longleftrightarrow>
     (config_inv s \<longrightarrow>
        config_inv t \<and> ct_generations t = ct_generations s \<and> (\<forall>m. m \<notin> N \<longrightarrow> view m t = view m s))"

interpretation edits: step_order "edits N" for N
  by unfold_locales (auto simp: edits_def)

lemma edits_mono: "edits N s t \<Longrightarrow> N \<subseteq> M \<Longrightarrow> edits M s t"
  by (auto simp: edits_def)

lemma edits_inv: "edits N s t \<Longrightarrow> config_inv s \<Longrightarrow> config_inv t"
  by (simp add: edits_def)

lemma get_peering_find: "find (\<lambda>p. pe_id p = i) (ct_peerings s) = get_peering_row i s"
  by (simp add: get_peering_row_def row_get_def)

lemma peering_of_alt: "peering_of s r = (case wg_peering_id r of None \<Rightarrow> None | Some i \<Rightarrow> get_peering_row i s)"
  by (simp add: peering_of_def get_peering_find cong: option.case_cong)

lemma view_same:
  assumes "ct_nodes t = ct_nodes s" "ct_wg t = ct_wg s" "ct_bgp t = ct_bgp s" "ct_peerings t = ct_peerings s"
    "ct_dns_groups t = ct_dns_groups s" "ct_dns_zones t = ct_dns_zones s" "ct_dns_records t = ct_dns_records s"
  shows "view m t = view m s"
  by (rule view_cong)
     (use assms in \<open>simp_all add: get_node_def node_keys_def load_interfaces_def load_sessions_def peering_of_def
        group_view_def get_group_row_def cong: option.case_cong\<close>)

lemma at_home_simps [simp]:
  "at_home (ct_wg_update f2 s) = at_home s"
  "at_home (ct_bgp_update f3 s) = at_home s"
  "at_home (ct_dns_groups_update f4 s) = at_home s"
  "at_home (ct_dns_zones_update f5 s) = at_home s"
  "at_home (ct_dns_records_update f6 s) = at_home s"
  "at_home (ct_next_wg_update f7 s) = at_home s"
  "at_home (ct_next_bgp_update f8 s) = at_home s"
  "at_home (ct_next_peering_update f9 s) = at_home s"
  "at_home (ct_next_group_update f10 s) = at_home s"
  "at_home (ct_next_zone_update f11 s) = at_home s"
  "at_home (ct_next_record_update f12 s) = at_home s"
  "at_home (ct_generations_update f13 s) = at_home s"
  by (simp_all add: fun_eq_iff home_defs get_peering_row_def get_node_def)

lemma at_home_put_node: "at_home s m pid \<Longrightarrow> at_home (put_node r s) m pid"
  by (simp add: home_defs nodes.get_put get_peering_row_def put_node_def [THEN arg_cong [where f = ct_peerings]])

lemma config_inv_next:
  assumes "config_inv s"
  shows "config_inv (s\<lparr>ct_next_wg := ct_next_wg s + 1\<rparr>)" "config_inv (s\<lparr>ct_next_bgp := ct_next_bgp s + 1\<rparr>)"
    "config_inv (s\<lparr>ct_next_peering := ct_next_peering s + 1\<rparr>)" "config_inv (s\<lparr>ct_next_group := ct_next_group s + 1\<rparr>)"
    "config_inv (s\<lparr>ct_next_zone := ct_next_zone s + 1\<rparr>)" "config_inv (s\<lparr>ct_next_record := ct_next_record s + 1\<rparr>)"
proof -
  have "\<forall>node\<in>set (ct_nodes s). \<forall>g. nr_dns_group_id node = Some g \<longrightarrow> g < ct_next_group s + 1"
    using assms unfolding config_inv_def by fastforce
  then show "config_inv (s\<lparr>ct_next_wg := ct_next_wg s + 1\<rparr>)" "config_inv (s\<lparr>ct_next_bgp := ct_next_bgp s + 1\<rparr>)"
    "config_inv (s\<lparr>ct_next_peering := ct_next_peering s + 1\<rparr>)" "config_inv (s\<lparr>ct_next_group := ct_next_group s + 1\<rparr>)"
    "config_inv (s\<lparr>ct_next_zone := ct_next_zone s + 1\<rparr>)" "config_inv (s\<lparr>ct_next_record := ct_next_record s + 1\<rparr>)"
    using assms unfolding config_inv_def by (simp_all add: keyed_next)
qed

lemma edit_next:
  "edits N s (s\<lparr>ct_next_wg := ct_next_wg s + 1\<rparr>)" "edits N s (s\<lparr>ct_next_bgp := ct_next_bgp s + 1\<rparr>)"
  "edits N s (s\<lparr>ct_next_peering := ct_next_peering s + 1\<rparr>)" "edits N s (s\<lparr>ct_next_group := ct_next_group s + 1\<rparr>)"
  "edits N s (s\<lparr>ct_next_zone := ct_next_zone s + 1\<rparr>)" "edits N s (s\<lparr>ct_next_record := ct_next_record s + 1\<rparr>)"
  unfolding edits_def by (intro impI conjI allI config_inv_next view_same; simp)+

lemma edit_wg:
  assumes "at_home s n (wg_peering_id r)" "wg_node_id r = n" "wg_id r < ct_next_wg s"
    and "\<And>old. get_wg (wg_id r) s = Some old \<Longrightarrow> wg_node_id old = n"
  shows "edits {n} s (s\<lparr>ct_wg := row_put wg_id r (ct_wg s)\<rparr>)"
  unfolding edits_def
proof (intro impI conjI allI)
  let ?t = "s\<lparr>ct_wg := row_put wg_id r (ct_wg s)\<rparr>"
  assume inv: "config_inv s"
  show "config_inv ?t"
    using inv assms(1-3) set_row_put [of wg_id r "ct_wg s"]
    by (auto simp: config_inv_def keyed_put)
  show "ct_generations ?t = ct_generations s" by simp
  show "view m ?t = view m s" if "m \<notin> {n}" for m
  proof (rule view_cong)
    show "load_interfaces m ?t = load_interfaces m s"
      using filter_row_put [of "\<lambda>x. wg_node_id x = m" r wg_id "ct_wg s"] that assms(2,4)
      by (auto simp: load_interfaces_def get_wg_def)
  qed (simp_all add: get_node_def node_keys_def load_sessions_def peering_of_alt get_peering_row_def group_view_def
      get_group_row_def cong: option.case_cong)
qed

lemma edit_bgp:
  assumes "at_home s n (bg_peering_id r)" "bg_node_id r = n" "bg_id r < ct_next_bgp s"
    and "\<And>old. get_bgp (bg_id r) s = Some old \<Longrightarrow> bg_node_id old = n"
  shows "edits {n} s (s\<lparr>ct_bgp := row_put bg_id r (ct_bgp s)\<rparr>)"
  unfolding edits_def
proof (intro impI conjI allI)
  let ?t = "s\<lparr>ct_bgp := row_put bg_id r (ct_bgp s)\<rparr>"
  assume inv: "config_inv s"
  show "config_inv ?t"
    using inv assms(1-3) set_row_put [of bg_id r "ct_bgp s"]
    by (auto simp: config_inv_def keyed_put)
  show "ct_generations ?t = ct_generations s" by simp
  show "view m ?t = view m s" if "m \<notin> {n}" for m
  proof (rule view_cong)
    show "load_sessions m ?t = load_sessions m s"
      using filter_row_put [of "\<lambda>x. bg_node_id x = m" r bg_id "ct_bgp s"] that assms(2,4)
      by (auto simp: load_sessions_def get_bgp_def)
  qed (simp_all add: get_node_def node_keys_def load_interfaces_def peering_of_alt get_peering_row_def group_view_def
      get_group_row_def cong: option.case_cong)
qed

lemma edit_filter_wg:
  assumes "\<And>r. r \<in> set (ct_wg s) \<Longrightarrow> \<not> P r \<Longrightarrow> wg_node_id r \<in> N"
  shows "edits N s (s\<lparr>ct_wg := filter P (ct_wg s)\<rparr>)"
  unfolding edits_def
proof (intro impI conjI allI)
  let ?t = "s\<lparr>ct_wg := filter P (ct_wg s)\<rparr>"
  assume inv: "config_inv s"
  then show "config_inv ?t" by (simp add: config_inv_def keyed_filter)
  show "ct_generations ?t = ct_generations s" by simp
  show "view m ?t = view m s" if "m \<notin> N" for m
  proof (rule view_cong)
    show "load_interfaces m ?t = load_interfaces m s"
      using assms that by (auto simp: load_interfaces_def intro!: arg_cong [where f = "sort_key _"] filter_cong)
  qed (simp_all add: get_node_def node_keys_def load_sessions_def peering_of_alt get_peering_row_def group_view_def
      get_group_row_def cong: option.case_cong)
qed

lemma edit_filter_bgp:
  assumes "\<And>r. r \<in> set (ct_bgp s) \<Longrightarrow> \<not> P r \<Longrightarrow> bg_node_id r \<in> N"
  shows "edits N s (s\<lparr>ct_bgp := filter P (ct_bgp s)\<rparr>)"
  unfolding edits_def
proof (intro impI conjI allI)
  let ?t = "s\<lparr>ct_bgp := filter P (ct_bgp s)\<rparr>"
  assume inv: "config_inv s"
  then show "config_inv ?t" by (simp add: config_inv_def keyed_filter)
  show "ct_generations ?t = ct_generations s" by simp
  show "view m ?t = view m s" if "m \<notin> N" for m
  proof (rule view_cong)
    show "load_sessions m ?t = load_sessions m s"
      using assms that by (auto simp: load_sessions_def intro!: arg_cong [where f = "sort_key _"] filter_cong)
  qed (simp_all add: get_node_def node_keys_def load_interfaces_def peering_of_alt get_peering_row_def group_view_def
      get_group_row_def cong: option.case_cong)
qed

text \<open>Writing a peering of a node: the rows of other nodes do not hang on it.\<close>

lemma edit_peering:
  assumes "pe_local_node_id r = n" "pe_id r < ct_next_peering s"
    and "\<And>old. get_peering_row (pe_id r) s = Some old \<Longrightarrow> pe_local_node_id old = n"
  shows "edits {n} s (s\<lparr>ct_peerings := row_put pe_id r (ct_peerings s)\<rparr>)"
  unfolding edits_def
proof (intro impI conjI allI)
  let ?t = "s\<lparr>ct_peerings := row_put pe_id r (ct_peerings s)\<rparr>"
  assume inv: "config_inv s"
  have get: "get_peering_row i ?t = (if i = pe_id r then Some r else get_peering_row i s)" for i
    by (simp add: get_peering_row_def row_get_put)
  have home: "at_home s m pid \<Longrightarrow> at_home ?t m pid" for m pid
    using assms(1,3) by (auto simp: home_defs get get_node_def)
  then show "config_inv ?t" using inv assms(2) by (simp add: config_inv_def keyed_put)
  show "ct_generations ?t = ct_generations s" by simp
  show "view m ?t = view m s" if "m \<notin> {n}" for m
  proof (rule view_cong)
    fix x assume "x \<in> set (load_interfaces m s)"
    then have x: "x \<in> set (ct_wg s)" "wg_node_id x = m" by (auto simp: load_interfaces_def)
    have "pe_id r \<noteq> i" if i: "wg_peering_id x = Some i" for i
    proof
      assume eq: "pe_id r = i"
      obtain p where "get_peering_row i s = Some p" "pe_local_node_id p = m"
        using inv x i unfolding config_inv_def home_defs by blast
      then show False using assms(3) eq \<open>m \<notin> {n}\<close> by simp
    qed
    then show "peering_of ?t x = peering_of s x" by (auto simp: peering_of_alt get split: option.split)
  qed (simp_all add: get_node_def node_keys_def load_interfaces_def load_sessions_def group_view_def get_group_row_def)
qed

section \<open>Edits of shared DNS groups\<close>

lemma member_of_group:
  "get_node m s = Some node \<Longrightarrow> nr_dns_group_id node = Some g \<Longrightarrow> m \<in> set (member_ids g s)"
  by (auto simp: member_ids_def get_node_def dest!: row_get_SomeD)

lemma edit_dns:
  assumes "t = s\<lparr>ct_dns_groups := groups, ct_dns_zones := zones, ct_dns_records := records\<rparr>"
    and "config_inv s \<Longrightarrow> keyed gr_id (ct_next_group s) groups"
    and "config_inv s \<Longrightarrow> keyed gz_id (ct_next_zone s) zones"
    and "config_inv s \<Longrightarrow> keyed gc_id (ct_next_record s) records"
    and "\<And>h. config_inv s \<Longrightarrow> h \<noteq> g \<Longrightarrow> group_view h t = group_view h s"
  shows "edits (set (member_ids g s)) s t"
  unfolding edits_def
proof (intro impI conjI allI)
  assume inv: "config_inv s"
  then show "config_inv t" using assms(2-4) by (simp add: config_inv_def assms(1))
  show "ct_generations t = ct_generations s" by (simp add: assms(1))
  show "view m t = view m s" if m: "m \<notin> set (member_ids g s)" for m
  proof (rule view_cong)
    show "group_view h t = group_view h s" if "get_node m s = Some node" "nr_dns_group_id node = Some h" for node h
      using assms(5) [OF inv, of h] member_of_group [OF that] m by (cases "h = g") simp_all
  qed (simp_all add: assms(1) get_node_def node_keys_def load_interfaces_def load_sessions_def peering_of_alt
      get_peering_row_def cong: option.case_cong)
qed

lemma zone_apart:
  assumes "config_inv s" "get_zone_row z s = Some zr" "gz_group_id zr = g" "x \<in> set (ct_dns_zones s)" "gz_group_id x \<noteq> g"
  shows "gz_id x \<noteq> z"
proof
  assume "gz_id x = z"
  then have "get_zone_row z s = Some x" using keyed_get [of gz_id _ "ct_dns_zones s" x] assms(1,4)
    unfolding config_inv_def get_zone_row_def by blast
  then show False using assms(2,3,5) by simp
qed

lemma edit_group:
  assumes "gr_id r = g" "g < ct_next_group s"
  shows "edits (set (member_ids g s)) s (s\<lparr>ct_dns_groups := row_put gr_id r (ct_dns_groups s)\<rparr>)"
  by (rule edit_dns [where groups = "row_put gr_id r (ct_dns_groups s)" and zones = "ct_dns_zones s" and records = "ct_dns_records s"])
     (use assms in \<open>simp_all add: config_inv_def keyed_put group_view_def get_group_row_def row_get_put\<close>)

lemma edit_zone:
  assumes "gz_group_id r = g" "gz_id r < ct_next_zone s"
    and "\<And>old. get_zone_row (gz_id r) s = Some old \<Longrightarrow> gz_group_id old = g"
  shows "edits (set (member_ids g s)) s (s\<lparr>ct_dns_zones := row_put gz_id r (ct_dns_zones s)\<rparr>)"
proof (rule edit_dns [where groups = "ct_dns_groups s" and zones = "row_put gz_id r (ct_dns_zones s)" and records = "ct_dns_records s"])
  show "group_view h (s\<lparr>ct_dns_zones := row_put gz_id r (ct_dns_zones s)\<rparr>) = group_view h s" if "h \<noteq> g" for h
    using filter_row_put [of "\<lambda>z. gz_group_id z = h" r gz_id "ct_dns_zones s"] that assms(1,3)
    by (auto simp: group_view_def get_group_row_def get_zone_row_def)
qed (use assms in \<open>simp_all add: config_inv_def keyed_put\<close>)

lemma edit_drop_zone:
  assumes "get_zone_row z s = Some zr" "gz_group_id zr = g"
  shows "edits (set (member_ids g s)) s
    (s\<lparr>ct_dns_zones := row_del gz_id z (ct_dns_zones s), ct_dns_records := filter (\<lambda>x. gc_zone_id x \<noteq> z) (ct_dns_records s)\<rparr>)"
proof (rule edit_dns [where groups = "ct_dns_groups s" and zones = "row_del gz_id z (ct_dns_zones s)" and records = "filter (\<lambda>x. gc_zone_id x \<noteq> z) (ct_dns_records s)"])
  let ?t = "s\<lparr>ct_dns_zones := row_del gz_id z (ct_dns_zones s), ct_dns_records := filter (\<lambda>x. gc_zone_id x \<noteq> z) (ct_dns_records s)\<rparr>"
  show "group_view h ?t = group_view h s" if inv: "config_inv s" and h: "h \<noteq> g" for h
  proof -
    have apart: "\<forall>x\<in>set (ct_dns_zones s). gz_group_id x = h \<longrightarrow> gz_id x \<noteq> z"
      using zone_apart [OF inv assms] h by blast
    have "filter (\<lambda>x. gz_group_id x = h) (row_del gz_id z (ct_dns_zones s)) = filter (\<lambda>x. gz_group_id x = h) (ct_dns_zones s)"
      by (rule filter_row_del) (use apart in blast)
    then show ?thesis
      using apart by (auto simp: group_view_def get_group_row_def intro!: filter_cong)
  qed
qed (simp_all add: config_inv_def keyed_filter keyed_del)

lemma edit_records:
  assumes "get_zone_row z s = Some zr" "gz_group_id zr = g" "config_inv s \<Longrightarrow> keyed gc_id (ct_next_record s) records"
    and "\<And>k. k \<noteq> z \<Longrightarrow> config_inv s \<Longrightarrow>
      filter (\<lambda>r. gc_zone_id r = k) records = filter (\<lambda>r. gc_zone_id r = k) (ct_dns_records s)"
  shows "edits (set (member_ids g s)) s (s\<lparr>ct_dns_records := records\<rparr>)"
proof (rule edit_dns [where groups = "ct_dns_groups s" and zones = "ct_dns_zones s" and records = records])
  show "group_view h (s\<lparr>ct_dns_records := records\<rparr>) = group_view h s" if inv: "config_inv s" and h: "h \<noteq> g" for h
  proof -
    have "gz_id x \<noteq> z" if "x \<in> set (ct_dns_zones s)" "gz_group_id x = h" for x
      using zone_apart [OF inv assms(1,2) that(1)] that(2) h by simp
    then show ?thesis using assms(4) inv by (auto simp: group_view_def get_group_row_def)
  qed
qed (use assms(3) in \<open>simp_all add: config_inv_def\<close>)

section \<open>Edits of a node's row\<close>

text \<open>Writing the row of a node, an old one with its key or a new one without, concerns only that node.\<close>

lemma edit_node:
  assumes id: "nr_node_id r = n" and gid: "\<And>g. nr_dns_group_id r = Some g \<Longrightarrow> config_inv s \<Longrightarrow> g < ct_next_group s"
    and key: "case get_node n s of None \<Rightarrow> nr_public_key r = None | Some node \<Rightarrow> nr_public_key r = nr_public_key node"
  shows "edits {n} s (put_node r s)"
  unfolding edits_def
proof (intro impI conjI allI)
  let ?t = "put_node r s"
  assume inv: "config_inv s"
  then show "config_inv ?t"
    using gid set_row_put [of nr_node_id r "ct_nodes s"] at_home_put_node [of s _ _ r]
    by (auto simp: config_inv_def put_node_def)
  show "ct_generations ?t = ct_generations s" by (simp add: put_node_def)
  show "view m ?t = view m s" if "m \<notin> {n}" for m
  proof (rule view_cong)
    show "get_node m ?t = get_node m s" using that id by (simp add: nodes.get_put)
    show "node_keys ?t = node_keys s"
    proof (cases "get_node n s")
      case None
      then have "row_put nr_node_id r (ct_nodes s) = ct_nodes s @ [r]"
        using id by (intro row_put_new) (simp add: get_node_def)
      then show ?thesis using key None by (simp add: node_keys_def put_node_def truthy_def)
    next
      case (Some node)
      then show ?thesis
        using id key map_filter_row_put [of nr_node_id r "ct_nodes s" node "\<lambda>n. (nr_node_id n, nr_public_key n)"
            "\<lambda>n. truthy (nr_public_key n)"] get_node_key [OF Some]
        by (simp add: node_keys_def put_node_def get_node_def)
    qed
  qed (simp_all add: put_node_def load_interfaces_def load_sessions_def peering_of_alt get_peering_row_def group_view_def
      get_group_row_def cong: option.case_cong)
qed

lemma edit_assign:
  assumes "get_node n s = Some node" "\<And>g. gid = Some g \<Longrightarrow> config_inv s \<Longrightarrow> g < ct_next_group s"
  shows "edits {n} s (put_node (node\<lparr>nr_dns_group_id := gid\<rparr>) s)"
  by (rule edit_node) (use assms get_node_key [OF assms(1)] in simp_all)

lemma edit_unassign: "edits {n} s (unassign n s)"
  using edit_assign [of n s _ None] edits.refl by (auto simp: unassign_def split: option.split)

lemma edit_unassign_all: "set ns \<subseteq> N \<Longrightarrow> edits N s (foldl (\<lambda>s n. unassign n s) s ns)"
proof (induction ns arbitrary: s)
  case (Cons n ns)
  then have "edits N s (unassign n s)" using edits_mono [OF edit_unassign] by simp
  then show ?case using Cons edits.trans by simp
qed (simp add: edits.refl)

lemma members_unassign: "set (member_ids g (unassign n s)) \<subseteq> set (member_ids g s)"
proof (cases "get_node n s")
  case (Some r)
  then show ?thesis
    using set_row_put [of nr_node_id "r\<lparr>nr_dns_group_id := None\<rparr>" "ct_nodes s"]
    by (auto simp: unassign_def member_ids_def put_node_def)
qed (simp add: unassign_def)

lemma members_unassign_all: "set (member_ids g (foldl (\<lambda>s n. unassign n s) s ns)) \<subseteq> set (member_ids g s)"
  by (induction ns arbitrary: s) (use members_unassign in \<open>auto, blast\<close>)

lemma edit_drop_group: "edits (set (member_ids g s)) s (drop_group g s)"
proof (rule edit_dns)
  let ?zones = "filter (\<lambda>z. gz_group_id z \<noteq> g) (ct_dns_zones s)"
  let ?dead = "map gz_id (filter (\<lambda>z. gz_group_id z = g) (ct_dns_zones s))"
  show "drop_group g s = s\<lparr>ct_dns_groups := row_del gr_id g (ct_dns_groups s), ct_dns_zones := ?zones,
      ct_dns_records := filter (\<lambda>r. gc_zone_id r \<notin> set ?dead) (ct_dns_records s)\<rparr>"
    by (simp add: drop_group_def Let_def)
  show "group_view h (drop_group g s) = group_view h s" if inv: "config_inv s" and h: "h \<noteq> g" for h
  proof -
    have "\<forall>x\<in>set (ct_dns_zones s). gz_group_id x = h \<longrightarrow>
        (\<forall>y\<in>set (ct_dns_zones s). gz_group_id y = g \<longrightarrow> gz_id y \<noteq> gz_id x)"
    proof (intro ballI impI)
      fix x y
      assume x: "x \<in> set (ct_dns_zones s)" "gz_group_id x = h" and y: "y \<in> set (ct_dns_zones s)" "gz_group_id y = g"
      have "get_zone_row (gz_id y) s = Some y"
        using keyed_get [of gz_id _ "ct_dns_zones s" y] inv y(1) unfolding config_inv_def get_zone_row_def by metis
      from zone_apart [OF inv this y(2) x(1)] show "gz_id y \<noteq> gz_id x" using x(2) h by simp
    qed
    then show ?thesis
      using h by (auto simp: drop_group_def Let_def group_view_def get_group_row_def row_get_del conj_commute
          intro!: map_cong filter_cong)
  qed
qed (simp_all add: config_inv_def keyed_filter keyed_del)

section \<open>Publishing\<close>

text \<open>The newest stored state of the node is what its tables give.\<close>

definition served_current :: "string \<Rightarrow> control \<Rightarrow> bool" where
  "served_current n s \<longleftrightarrow>
     (\<exists>node row. get_node n s = Some node \<and> get_generation n (nr_generation node) s = Some row \<and>
        rbind (assembled s node (nr_generation node)) model_validate_state = Inr (gn_snapshot row))"

lemma served_current_view:
  "served_current n s \<longleftrightarrow>
     (\<exists>g f row. view n s = Some (g, f) \<and> get_generation n g s = Some row \<and>
        rbind (f g) model_validate_state = Inr (gn_snapshot row))"
  by (auto simp: served_current_def view_def)

lemma edits_current: "edits N s t \<Longrightarrow> config_inv s \<Longrightarrow> served_current n s \<Longrightarrow> n \<notin> N \<Longrightarrow> served_current n t"
  by (simp add: edits_def served_current_view get_generation_def)

lemma publish_effects:
  assumes "get_node n s = Some node" "publish_generation node g d reason DEFAULT_GENERATION_RETENTION s = (Inr (), t)"
  shows "ct_nodes t = row_put nr_node_id (node\<lparr>nr_generation := g\<rparr>) (ct_nodes s)"
    "t = s\<lparr>ct_nodes := ct_nodes t, ct_generations := ct_generations t\<rparr>"
    "get_generation n g t = Some (appended_row n g d reason)"
    "m \<noteq> n \<Longrightarrow> get_generation m k t = get_generation m k s"
proof -
  have id: "nr_node_id node = n" using get_node_key [OF assms(1)] .
  have fresh: "get_generation n g s = None"
    using assms(2) id by (auto simp: publish_generation_def split: if_splits)
  define u where "u = published_state node g d reason s"
  have t: "t = (if 0 < g - DEFAULT_GENERATION_RETENTION
      then u\<lparr>ct_generations := filter (\<lambda>r. \<not> (gn_node_id r = n \<and> gn_generation r \<le> g - DEFAULT_GENERATION_RETENTION)) (ct_generations u)\<rparr>
      else u)"
    using publish_generation_eq [of node g s d reason] fresh id assms(2) by (simp add: Let_def u_def)
  show "ct_nodes t = row_put nr_node_id (node\<lparr>nr_generation := g\<rparr>) (ct_nodes s)"
    by (simp add: t u_def published_state_def put_node_def)
  show "t = s\<lparr>ct_nodes := ct_nodes t, ct_generations := ct_generations t\<rparr>" by (rule publish_frame [OF assms(2)])
  have u: "get_generation m k u = (if m = n \<and> k = g then Some (appended_row n g d reason) else get_generation m k s)" for m k
    using get_generation_appended [of n g s m k "node\<lparr>nr_generation := g\<rparr>" d reason] fresh id
    by (simp add: u_def published_state_def)
  have kept: "get_generation m k (u\<lparr>ct_generations := filter (\<lambda>r. \<not> (gn_node_id r = n \<and> gn_generation r \<le> b)) (ct_generations u)\<rparr>) =
      get_generation m k u" if "m \<noteq> n \<or> b < k" for m k b
    by (rule get_generation_filter) (use that in auto)
  show "get_generation n g t = Some (appended_row n g d reason)"
    using kept [of n "g - DEFAULT_GENERATION_RETENTION" g] u [of n g] unfolding t by (auto simp: DEFAULT_GENERATION_RETENTION_def)
  show "get_generation m k t = get_generation m k s" if "m \<noteq> n"
    using kept [of m "g - DEFAULT_GENERATION_RETENTION" k] u [of m k] that unfolding t by auto
qed

lemma publish_views:
  assumes node: "get_node n s = Some node"
    and p: "publish_generation node g d reason DEFAULT_GENERATION_RETENTION s = (Inr (), t)"
  shows "node_keys t = node_keys s" "assembled t = assembled s" "m \<noteq> n \<Longrightarrow> view m t = view m s"
    "member_ids h t = member_ids h s" "config_inv s \<Longrightarrow> config_inv t"
proof -
  note e = publish_effects [OF assms]
  have id: "nr_node_id node = n" using get_node_key [OF node] .
  have hit: "row_get nr_node_id (nr_node_id (node\<lparr>nr_generation := g\<rparr>)) (ct_nodes s) = Some node"
    using node id by (simp add: get_node_def)
  show keys: "node_keys t = node_keys s" unfolding node_keys_def e(1) by (rule map_filter_row_put [OF hit]) simp_all
  have tables: "ct_wg t = ct_wg s" "ct_bgp t = ct_bgp s" "ct_peerings t = ct_peerings s" "ct_dns_groups t = ct_dns_groups s"
    "ct_dns_zones t = ct_dns_zones s" "ct_dns_records t = ct_dns_records s"
    by (subst e(2), simp)+
  show asm: "assembled t = assembled s"
    by (rule ext, rule assembled_cong [OF _ keys])
       (simp_all add: tables load_interfaces_def load_sessions_def peering_of_def group_view_def get_group_row_def
          cong: option.case_cong)
  show "view m t = view m s" if "m \<noteq> n"
    using get_node_after_publish [OF p, of m] id that by (simp add: view_def asm)
  have "map (\<lambda>x. (nr_node_id x, nr_dns_group_id x)) (ct_nodes t) = map (\<lambda>x. (nr_node_id x, nr_dns_group_id x)) (ct_nodes s)"
    unfolding e(1) by (rule map_row_put [OF hit]) simp
  then have "map fst (filter (\<lambda>x. snd x = Some h) (map (\<lambda>x. (nr_node_id x, nr_dns_group_id x)) (ct_nodes t))) =
      map fst (filter (\<lambda>x. snd x = Some h) (map (\<lambda>x. (nr_node_id x, nr_dns_group_id x)) (ct_nodes s)))" for h
    by simp
  then show "member_ids h t = member_ids h s" by (simp add: member_ids_def filter_map comp_def)
  show "config_inv t" if inv: "config_inv s"
  proof -
    have "node \<in> set (ct_nodes s)" using node by (auto simp: get_node_def dest: row_get_SomeD)
    moreover have "set (ct_nodes t) \<subseteq> insert (node\<lparr>nr_generation := g\<rparr>) (set (ct_nodes s))"
      unfolding e(1) by (rule set_row_put)
    moreover have seqs: "ct_next_wg t = ct_next_wg s" "ct_next_bgp t = ct_next_bgp s"
      "ct_next_peering t = ct_next_peering s" "ct_next_group t = ct_next_group s" "ct_next_zone t = ct_next_zone s"
      "ct_next_record t = ct_next_record s"
      by (subst e(2), simp)+
    ultimately have "\<forall>x\<in>set (ct_nodes t). \<forall>g. nr_dns_group_id x = Some g \<longrightarrow> g < ct_next_group t"
      using inv unfolding config_inv_def by auto
    moreover have "at_home t m pid" if "at_home s m pid" for m pid
    proof -
      have "get_node m t \<noteq> None \<longleftrightarrow> get_node m s \<noteq> None" using node id by (simp add: get_node_def e(1) row_get_put)
      then show ?thesis using that by (simp add: home_defs get_peering_row_def tables)
    qed
    ultimately show ?thesis using inv unfolding config_inv_def tables seqs by simp
  qed
qed

lemma materialize_current:
  assumes "materialize n reason DEFAULT_GENERATION_RETENTION s = (Inr (Some d), t)"
  shows "served_current n t" "served_current m s \<Longrightarrow> served_current m t" "config_inv s \<Longrightarrow> config_inv t"
    "member_ids h t = member_ids h s"
proof -
  obtain node where node: "get_node n s = Some node" using assms by (auto simp: materialize_def split: option.splits)
  define g where "g = nr_generation node + 1"
  obtain why where p: "rbind (assembled s node g) model_validate_state = Inr d"
    "publish_generation node g d why DEFAULT_GENERATION_RETENTION s = (Inr (), t)"
    using assms node by (fastforce simp: materialize_def seq_Inr Let_def g_def)
  note e = publish_effects [OF node p(2)] and v = publish_views [OF node p(2)]
  have id: "nr_node_id node = n" using get_node_key [OF node] .
  show n: "served_current n t"
    unfolding served_current_def
    using get_node_after_publish [OF p(2), of n] id e(3) p(1) v(2) by (simp add: appended_row_def)
  show "served_current m t" if "served_current m s"
    using n that v(3) [of m] e(4) [of m] by (cases "m = n") (auto simp: served_current_view)
  show "config_inv s \<Longrightarrow> config_inv t" by (rule v(5))
  show "member_ids h t = member_ids h s" by (rule v(4))
qed

lemma materialize_change_Inr:
  "materialize_change n reason s = (Inr d, t) \<Longrightarrow>
     materialize n (Some reason) DEFAULT_GENERATION_RETENTION s = (Inr (Some d), t)"
  by (auto simp: materialize_change_def seq_Inr catching_def split: prod.splits sum.splits option.splits)

lemma rematerialize_current:
  assumes "rematerialize ns reason s = (Inr ps, t)"
  shows "map fst ps = ns \<and> (\<forall>n. served_current n s \<or> n \<in> set ns \<longrightarrow> served_current n t) \<and> (config_inv s \<longrightarrow> config_inv t)"
  using assms
proof (induction ns arbitrary: s ps)
  case (Cons n ns)
  obtain d u rest where u: "materialize_change n reason s = (Inr d, u)" "rematerialize ns reason u = (Inr rest, t)"
    "ps = (n, d) # rest"
    using Cons.prems by (auto simp: seq_Inr)
  note m = materialize_current [OF materialize_change_Inr [OF u(1)]]
  show ?case using Cons.IH [OF u(2)] m(1-3) u(3) by auto
qed simp

lemma published_rematerialize:
  "published out n reason s = (Inr (x, ps, why), t) \<longleftrightarrow>
     x = out \<and> why = reason \<and> rematerialize [n] reason s = (Inr ps, t)"
  by (auto simp: published_def seq_Inr)

lemma publish_members_rematerialize:
  "publish_members out g reason s = (Inr (x, ps, why), t) \<longleftrightarrow>
     x = out \<and> why = reason \<and> rematerialize (member_ids g s) reason s = (Inr ps, t)"
  by (auto simp: publish_members_def seq_Inr)

end
