(* ===== verification/Config_Handlers.thy ===== *)
theory Config_Handlers
  imports Served_Configuration
begin

text \<open>
  Every handler of the configuration API that publishes brings up to date every node that its edits concern.
\<close>

section \<open>Checks and single rows\<close>

named_theorems handler_Inr \<open>what a part of a handler did when it returned\<close>

definition republished :: "string list \<Rightarrow> string \<Rightarrow> control \<Rightarrow> (string \<times> desired_state) list \<Rightarrow> control \<Rightarrow> bool" where
  "republished ns reason u ps t \<longleftrightarrow> rematerialize ns reason u = (Inr ps, t)"

lemmas [handler_Inr] = seq_Inr transaction_Inr Let_def published_rematerialize [folded republished_def]
  publish_members_rematerialize [folded republished_def]

lemma optional_spec_Inr [handler_Inr]:
  "(case v of None \<Rightarrow> ret None | Some x \<Rightarrow> seq (lift_res (f x)) (\<lambda>x. ret (Some x))) s = (Inr y, t) \<longleftrightarrow>
     t = s \<and> (case v of None \<Rightarrow> y = None | Some x \<Rightarrow> \<exists>z. f x = Inr z \<and> y = Some z)"
  by (auto simp: seq_Inr split: option.split)

lemma stored_spec_Inr [handler_Inr]:
  "(case v of None \<Rightarrow> lift_res a | Some x \<Rightarrow> ret x) s = (Inr y, t) \<longleftrightarrow>
     t = s \<and> (case v of None \<Rightarrow> a = Inr y | Some x \<Rightarrow> y = x)"
  by (auto split: option.split)

lemma require_node_Inr [handler_Inr]: "require_node n s = (Inr x, t) \<longleftrightarrow> t = s \<and> get_node n s \<noteq> None"
  by (auto simp: require_node_def)

lemma require_peering_Inr [handler_Inr]: "require_peering n pid s = (Inr x, t) \<longleftrightarrow> t = s \<and> hangs_on s n pid"
  by (auto simp: require_peering_def hangs_on_def split: option.splits)

lemma unless_Inr [handler_Inr]:
  "(if c then ret () else require_peering n pid) s = (Inr x, t) \<longleftrightarrow> t = s \<and> (\<not> c \<longrightarrow> hangs_on s n pid)"
  by (simp add: require_peering_Inr) auto

lemma require_remote_Inr [handler_Inr]:
  "require_remote remote s = (Inr x, t) \<longleftrightarrow> t = s \<and> (\<forall>n. remote = Some n \<longrightarrow> get_node n s \<noteq> None)"
  by (auto simp: require_remote_def split: option.splits)

lemma policy_Inr: "validate_wireguard_port_policy n spec e current s = (Inr x, t) \<Longrightarrow> t = s"
  by (auto simp: validate_wireguard_port_policy_def with_node_def seq_Inr Let_def split: option.splits if_splits)

definition policy_holds :: "string \<Rightarrow> interface_spec \<Rightarrow> bool \<Rightarrow> int option \<Rightarrow> control \<Rightarrow> bool" where
  "policy_holds n spec e current s \<longleftrightarrow> fst (validate_wireguard_port_policy n spec e current s) = Inr ()"

lemma policy_steps [handler_Inr]:
  "validate_wireguard_port_policy n spec e current s = (Inr x, t) \<longleftrightarrow> t = s \<and> policy_holds n spec e current s"
  using policy_Inr [of n spec e current s x t] policy_Inr [of n spec e current s "()"]
  by (cases "validate_wireguard_port_policy n spec e current s") (auto simp: policy_holds_def)

lemma save_Inr [handler_Inr]:
  "save_wg r1 e s = (Inr x, t) \<longleftrightarrow> \<not> wg_clash r1 s \<and> t = s\<lparr>ct_wg := row_put wg_id r1 (ct_wg s)\<rparr>"
  "save_bgp r2 e s = (Inr x, t) \<longleftrightarrow> \<not> bgp_clash r2 s \<and> t = s\<lparr>ct_bgp := row_put bg_id r2 (ct_bgp s)\<rparr>"
  "save_peering r3 e s = (Inr x, t) \<longleftrightarrow>
     \<not> peering_clash r3 s \<and> t = s\<lparr>ct_peerings := row_put pe_id r3 (ct_peerings s)\<rparr>"
  by (auto simp: save_wg_def save_bgp_def save_peering_def)

lemma next_Inr [handler_Inr]:
  "next_wg s = (Inr i, t) \<longleftrightarrow> i = ct_next_wg s \<and> t = s\<lparr>ct_next_wg := ct_next_wg s + 1\<rparr>"
  "next_bgp s = (Inr i, t) \<longleftrightarrow> i = ct_next_bgp s \<and> t = s\<lparr>ct_next_bgp := ct_next_bgp s + 1\<rparr>"
  "next_peering s = (Inr i, t) \<longleftrightarrow> i = ct_next_peering s \<and> t = s\<lparr>ct_next_peering := ct_next_peering s + 1\<rparr>"
  by (auto simp: next_wg_def next_bgp_def next_peering_def seq_def)

section \<open>What a handler brings about\<close>

definition brought :: "control \<Rightarrow> (string \<times> desired_state) list \<Rightarrow> control \<Rightarrow> bool" where
  "brought s ps t \<longleftrightarrow>
     (\<exists>N u reason. edits N s u \<and> N \<subseteq> set (map fst ps) \<and> rematerialize (map fst ps) reason u = (Inr ps, t))"

lemma broughtI:
  assumes "edits N s u" "republished ns reason u ps t" "N \<subseteq> set ns"
  shows "brought s ps t"
  using assms rematerialize_current unfolding brought_def republished_def by metis

lemma brought_served:
  assumes "brought s ps t" "config_inv s"
  shows "config_inv t" "served_current n s \<or> n \<in> fst ` set ps \<Longrightarrow> served_current n t"
proof -
  obtain N u reason where b: "edits N s u" "N \<subseteq> set (map fst ps)" "rematerialize (map fst ps) reason u = (Inr ps, t)"
    using assms(1) unfolding brought_def by blast
  note r = rematerialize_current [OF b(3)]
  show "config_inv t" using r edits_inv [OF b(1) assms(2)] by blast
  show "served_current n s \<or> n \<in> fst ` set ps \<Longrightarrow> served_current n t"
    using r edits_current [OF b(1) assms(2), of n] b(2) by auto
qed

section \<open>Interfaces and sessions\<close>

lemma new_wg:
  assumes "config_inv s" "at_home s n (wg_peering_id r)" "wg_node_id r = n" "wg_id r = ct_next_wg s"
  shows "edits {n} s (s\<lparr>ct_next_wg := ct_next_wg s + 1, ct_wg := row_put wg_id r (ct_wg s)\<rparr>)"
proof -
  let ?u = "s\<lparr>ct_next_wg := ct_next_wg s + 1\<rparr>"
  have "get_wg (wg_id r) ?u = None"
    using assms(1,4) keyed_new [of wg_id "ct_next_wg s" "ct_wg s"] by (simp add: get_wg_def config_inv_def)
  then have "edits {n} ?u (?u\<lparr>ct_wg := row_put wg_id r (ct_wg ?u)\<rparr>)"
    by (intro edit_wg) (use assms in simp_all)
  then show ?thesis using edits.trans [OF edit_next(1)] by simp
qed

lemma new_bgp:
  assumes "config_inv s" "at_home s n (bg_peering_id r)" "bg_node_id r = n" "bg_id r = ct_next_bgp s"
  shows "edits {n} s (s\<lparr>ct_next_bgp := ct_next_bgp s + 1, ct_bgp := row_put bg_id r (ct_bgp s)\<rparr>)"
proof -
  let ?u = "s\<lparr>ct_next_bgp := ct_next_bgp s + 1\<rparr>"
  have "get_bgp (bg_id r) ?u = None"
    using assms(1,4) keyed_new [of bg_id "ct_next_bgp s" "ct_bgp s"] by (simp add: get_bgp_def config_inv_def)
  then have "edits {n} ?u (?u\<lparr>ct_bgp := row_put bg_id r (ct_bgp ?u)\<rparr>)"
    by (intro edit_bgp) (use assms in simp_all)
  then show ?thesis using edits.trans [OF edit_next(2)] by simp
qed

lemma old_wg:
  assumes "config_inv s" "get_wg i s = Some old" "wg_id r = i" "wg_node_id r = wg_node_id old"
    "at_home s (wg_node_id old) (wg_peering_id r)"
  shows "edits {wg_node_id old} s (s\<lparr>ct_wg := row_put wg_id r (ct_wg s)\<rparr>)"
proof (rule edit_wg)
  have "old \<in> set (ct_wg s)" "wg_id old = i" using assms(2) row_get_SomeD unfolding get_wg_def by fast+
  then show "wg_id r < ct_next_wg s" using assms(1,3) by (auto simp: config_inv_def keyed_def)
qed (use assms in simp_all)

lemma old_bgp:
  assumes "config_inv s" "get_bgp i s = Some old" "bg_id r = i" "bg_node_id r = bg_node_id old"
    "at_home s (bg_node_id old) (bg_peering_id r)"
  shows "edits {bg_node_id old} s (s\<lparr>ct_bgp := row_put bg_id r (ct_bgp s)\<rparr>)"
proof (rule edit_bgp)
  have "old \<in> set (ct_bgp s)" "bg_id old = i" using assms(2) row_get_SomeD unfolding get_bgp_def by fast+
  then show "bg_id r < ct_next_bgp s" using assms(1,3) by (auto simp: config_inv_def keyed_def)
qed (use assms in simp_all)

lemma row_home:
  assumes "config_inv s"
  shows "get_wg i s = Some r \<Longrightarrow> at_home s (wg_node_id r) (wg_peering_id r) \<and> wg_id r = i"
    "get_bgp i s = Some b \<Longrightarrow> at_home s (bg_node_id b) (bg_peering_id b) \<and> bg_id b = i"
  using assms unfolding config_inv_def get_wg_def get_bgp_def by (blast dest: row_get_SomeD)+

lemma at_home_moved:
  assumes "at_home s n old" "\<not> clear \<longrightarrow> hangs_on s n new"
  shows "at_home s n (moved_peering clear new old)"
  using assms by (auto simp: moved_peering_def home_defs split: option.splits)

lemma create_interface_brought:
  assumes "config_inv s" "create_interface n p s = (Inr (x, ps, why), t)"
  shows "brought s ps t"
proof -
  obtain spec where spec: "at_home s n (ii_peering_id p)"
    "republished [n] why (s\<lparr>ct_next_wg := ct_next_wg s + 1,
       ct_wg := row_put wg_id \<lparr>wg_id = ct_next_wg s, wg_node_id = n, wg_peering_id = ii_peering_id p,
         wg_enabled = ii_enabled p, wg_spec = spec, wg_sort_order = ii_sort_order p\<rparr> (ct_wg s)\<rparr>) ps t"
    using assms(2) by (auto simp: create_interface_def handler_Inr at_home_def)
  show ?thesis by (rule broughtI [OF new_wg spec(2)]) (use assms(1) spec(1) in simp_all)
qed

lemma update_interface_brought:
  assumes "config_inv s" "update_interface i p s = (Inr (x, ps, why), t)"
  shows "brought s ps t"
proof -
  obtain r where r: "get_wg i s = Some r" using assms(2) by (auto simp: update_interface_def handler_Inr split: option.splits)
  then obtain new_spec where home: "\<not> ip_clear_peering p \<longrightarrow> hangs_on s (wg_node_id r) (ip_peering_id p)"
    and rep: "republished [wg_node_id r] why (s\<lparr>ct_wg := row_put wg_id
       (r\<lparr>wg_peering_id := moved_peering (ip_clear_peering p) (ip_peering_id p) (wg_peering_id r),
          wg_spec := or_default (wg_spec r) new_spec, wg_enabled := or_default (wg_enabled r) (ip_enabled p),
          wg_sort_order := or_default (wg_sort_order r) (ip_sort_order p)\<rparr>) (ct_wg s)\<rparr>) ps t"
    using assms(2) by (auto simp: update_interface_def handler_Inr)
  have h: "at_home s (wg_node_id r) (wg_peering_id r)" "wg_id r = i" using row_home(1) [OF assms(1) r] by auto
  show ?thesis
    by (rule broughtI [OF old_wg [OF assms(1) r] rep]) (use h home at_home_moved in simp_all)
qed

lemma delete_interface_brought:
  assumes "delete_interface i s = (Inr (x, ps, why), t)" "config_inv s"
  shows "brought s ps t"
proof -
  obtain r where r: "get_wg i s = Some r"
    "republished [wg_node_id r] why (s\<lparr>ct_wg := row_del wg_id i (ct_wg s)\<rparr>) ps t"
    using assms(1) by (auto simp: delete_interface_def handler_Inr split: option.splits)
  have "edits {wg_node_id r} s (s\<lparr>ct_wg := row_del wg_id i (ct_wg s)\<rparr>)"
    unfolding row_del_def
  proof (rule edit_filter_wg)
    fix x assume "x \<in> set (ct_wg s)" "\<not> wg_id x \<noteq> i"
    then have "get_wg i s = Some x"
      using assms(2) keyed_get [of wg_id _ "ct_wg s" x] unfolding config_inv_def get_wg_def by auto
    then show "wg_node_id x \<in> {wg_node_id r}" using r(1) by simp
  qed
  then show ?thesis by (rule broughtI [OF _ r(2)]) simp
qed

lemma create_session_brought:
  assumes "config_inv s" "create_session n p s = (Inr (x, ps, why), t)"
  shows "brought s ps t"
proof -
  obtain spec where spec: "at_home s n (si_peering_id p)"
    "republished [n] why (s\<lparr>ct_next_bgp := ct_next_bgp s + 1,
       ct_bgp := row_put bg_id \<lparr>bg_id = ct_next_bgp s, bg_node_id = n, bg_peering_id = si_peering_id p,
         bg_enabled = bgp_enabled spec, bg_spec = spec, bg_sort_order = si_sort_order p\<rparr> (ct_bgp s)\<rparr>) ps t"
    using assms(2) by (auto simp: create_session_def handler_Inr at_home_def)
  show ?thesis by (rule broughtI [OF new_bgp spec(2)]) (use assms(1) spec(1) in simp_all)
qed

definition session_row :: "session_patch \<Rightarrow> bgp_session option \<Rightarrow> bgp_row \<Rightarrow> bgp_row" where
  "session_row p new_spec r =
     (let moved = r\<lparr>bg_peering_id := moved_peering (sp_clear_peering p) (sp_peering_id p) (bg_peering_id r),
                    bg_sort_order := or_default (bg_sort_order r) (sp_sort_order p)\<rparr> in
      case new_spec of None \<Rightarrow> moved | Some x \<Rightarrow> apply_bgp_spec x moved)"

lemma session_row_frame:
  "bg_id (session_row p x r) = bg_id r" "bg_node_id (session_row p x r) = bg_node_id r"
  "bg_peering_id (session_row p x r) = moved_peering (sp_clear_peering p) (sp_peering_id p) (bg_peering_id r)"
  by (simp_all add: session_row_def Let_def apply_bgp_spec_def split: option.split)

lemma update_session_brought:
  assumes "config_inv s" "update_session i p s = (Inr (x, ps, why), t)"
  shows "brought s ps t"
proof -
  obtain r where r: "get_bgp i s = Some r" using assms(2) by (auto simp: update_session_def handler_Inr split: option.splits)
  then obtain new_spec where home: "\<not> sp_clear_peering p \<longrightarrow> hangs_on s (bg_node_id r) (sp_peering_id p)"
    and rep: "republished [bg_node_id r] why (s\<lparr>ct_bgp := row_put bg_id (session_row p new_spec r) (ct_bgp s)\<rparr>) ps t"
    using assms(2) by (auto simp: update_session_def handler_Inr session_row_def)
  have h: "at_home s (bg_node_id r) (bg_peering_id r)" "bg_id r = i" using row_home(2) [OF assms(1) r] by auto
  show ?thesis
    by (rule broughtI [OF old_bgp [OF assms(1) r] rep]) (use h home at_home_moved in \<open>simp_all add: session_row_frame\<close>)
qed

lemma delete_session_brought:
  assumes "delete_session i s = (Inr (x, ps, why), t)" "config_inv s"
  shows "brought s ps t"
proof -
  obtain r where r: "get_bgp i s = Some r"
    "republished [bg_node_id r] why (s\<lparr>ct_bgp := row_del bg_id i (ct_bgp s)\<rparr>) ps t"
    using assms(1) by (auto simp: delete_session_def handler_Inr split: option.splits)
  have "edits {bg_node_id r} s (s\<lparr>ct_bgp := row_del bg_id i (ct_bgp s)\<rparr>)"
    unfolding row_del_def
  proof (rule edit_filter_bgp)
    fix x assume "x \<in> set (ct_bgp s)" "\<not> bg_id x \<noteq> i"
    then have "get_bgp i s = Some x"
      using assms(2) keyed_get [of bg_id _ "ct_bgp s" x] unfolding config_inv_def get_bgp_def by auto
    then show "bg_node_id x \<in> {bg_node_id r}" using r(1) by simp
  qed
  then show ?thesis by (rule broughtI [OF _ r(2)]) simp
qed

section \<open>Peerings\<close>

text \<open>Every part of a peering's replacement edits only its node and leaves the peering on it.\<close>

definition part_of :: "string \<Rightarrow> int \<Rightarrow> control \<Rightarrow> control \<Rightarrow> bool" where
  "part_of n pid s t \<longleftrightarrow> edits {n} s t \<and> config_inv t \<and> at_home t n (Some pid)"

lemma part_edits: "part_of n pid s t \<Longrightarrow> edits {n} t u \<Longrightarrow> at_home u = at_home t \<Longrightarrow> part_of n pid s u"
  using edits.trans edits_inv unfolding part_of_def by metis

lemma put_peering_row:
  assumes "config_inv s" "pe_local_node_id r = n" "pe_id r < ct_next_peering s"
    and "\<And>old. get_peering_row (pe_id r) s = Some old \<Longrightarrow> pe_local_node_id old = n" "get_node n s \<noteq> None"
  shows "part_of n (pe_id r) s (s\<lparr>ct_peerings := row_put pe_id r (ct_peerings s)\<rparr>)"
  using edit_peering [of r n s, OF assms(2-4)] edits_inv assms(1,2,5)
  by (auto simp: part_of_def home_defs get_peering_row_def row_get_put get_node_def)

lemma insert_peering_part:
  assumes "config_inv s" "insert_peering n p s = (Inr r, t)" "get_node n s \<noteq> None"
  shows "part_of n (pe_id r) s t" "r = new_peering (ct_next_peering s) n p"
proof -
  have r: "r = new_peering (ct_next_peering s) n p"
    "t = s\<lparr>ct_next_peering := ct_next_peering s + 1, ct_peerings := row_put pe_id r (ct_peerings s)\<rparr>"
    using assms(2) by (auto simp: insert_peering_def handler_Inr)
  let ?u = "s\<lparr>ct_next_peering := ct_next_peering s + 1\<rparr>"
  have "get_peering_row (ct_next_peering s) ?u = None"
    using assms(1) keyed_new [of pe_id "ct_next_peering s" "ct_peerings s"] by (simp add: get_peering_row_def config_inv_def)
  then have "part_of n (pe_id r) ?u t"
    using put_peering_row [of ?u r n] config_inv_next(3) [OF assms(1)] r assms(3) by (simp add: new_peering_def get_node_def)
  then show "part_of n (pe_id r) s t" "r = new_peering (ct_next_peering s) n p"
    using edits.trans [OF edit_next(3)] r(1) by (auto simp: part_of_def)
qed

lemma upsert_peering_part:
  assumes "config_inv s" "upsert_peering n p s = (Inr pid, t)" "get_node n s \<noteq> None"
  shows "part_of n pid s t"
proof (cases "named_peering n (pi_name p) s")
  case None
  let ?u = "s\<lparr>ct_next_peering := ct_next_peering s + 1\<rparr>"
  have t: "pid = ct_next_peering s" "t = ?u\<lparr>ct_peerings := row_put pe_id (new_peering pid n p) (ct_peerings ?u)\<rparr>"
    using assms(2) None by (auto simp: upsert_peering_def handler_Inr)
  have "get_peering_row pid ?u = None"
    using assms(1) keyed_new [of pe_id "ct_next_peering s" "ct_peerings s"] t(1)
    by (simp add: get_peering_row_def config_inv_def)
  then have "part_of n pid ?u t"
    using put_peering_row [of ?u "new_peering pid n p" n] config_inv_next(3) [OF assms(1)] t assms(3)
    by (simp add: new_peering_def get_node_def)
  then show ?thesis using edits.trans [OF edit_next(3)] by (auto simp: part_of_def)
next
  case (Some r)
  then have r: "r \<in> set (ct_peerings s)" "pe_local_node_id r = n" by (auto simp: named_peering_def find_Some_iff)
  have t: "pid = pe_id r" "t = s\<lparr>ct_peerings := row_put pe_id (new_peering pid n p) (ct_peerings s)\<rparr>"
    using assms(2) Some by (auto simp: upsert_peering_def handler_Inr)
  have "get_peering_row pid s = Some r" "pid < ct_next_peering s"
    using assms(1) r(1) t(1) keyed_get [of pe_id _ "ct_peerings s" r]
    by (auto simp: get_peering_row_def config_inv_def keyed_def)
  then show ?thesis
    using put_peering_row [of s "new_peering pid n p" n] assms(1,3) r(2) t by (simp add: new_peering_def)
qed

lemma wg_part:
  assumes "part_of n pid s t" "wg_node_id r = n" "wg_peering_id r = Some pid"
  shows "wg_id r = ct_next_wg t \<Longrightarrow> part_of n pid s (t\<lparr>ct_next_wg := ct_next_wg t + 1, ct_wg := row_put wg_id r (ct_wg t)\<rparr>)"
    "get_wg (wg_id r) t = Some old \<Longrightarrow> wg_node_id old = n \<Longrightarrow> part_of n pid s (t\<lparr>ct_wg := row_put wg_id r (ct_wg t)\<rparr>)"
proof -
  have t: "config_inv t" "at_home t n (wg_peering_id r)" using assms by (simp_all add: part_of_def)
  show "part_of n pid s (t\<lparr>ct_next_wg := ct_next_wg t + 1, ct_wg := row_put wg_id r (ct_wg t)\<rparr>)" if "wg_id r = ct_next_wg t"
    by (rule part_edits [OF assms(1) new_wg [OF t assms(2) that]]) simp
  show "part_of n pid s (t\<lparr>ct_wg := row_put wg_id r (ct_wg t)\<rparr>)" if "get_wg (wg_id r) t = Some old" "wg_node_id old = n"
    using part_edits [OF assms(1)] old_wg [OF t(1) that(1), of r] that(2) t(2) assms(2) by simp
qed

lemma bgp_part:
  assumes "part_of n pid s t" "bg_node_id r = n" "bg_peering_id r = Some pid"
  shows "bg_id r = ct_next_bgp t \<Longrightarrow> part_of n pid s (t\<lparr>ct_next_bgp := ct_next_bgp t + 1, ct_bgp := row_put bg_id r (ct_bgp t)\<rparr>)"
    "get_bgp (bg_id r) t = Some old \<Longrightarrow> bg_node_id old = n \<Longrightarrow> part_of n pid s (t\<lparr>ct_bgp := row_put bg_id r (ct_bgp t)\<rparr>)"
proof -
  have t: "config_inv t" "at_home t n (bg_peering_id r)" using assms by (simp_all add: part_of_def)
  show "part_of n pid s (t\<lparr>ct_next_bgp := ct_next_bgp t + 1, ct_bgp := row_put bg_id r (ct_bgp t)\<rparr>)" if "bg_id r = ct_next_bgp t"
    by (rule part_edits [OF assms(1) new_bgp [OF t assms(2) that]]) simp
  show "part_of n pid s (t\<lparr>ct_bgp := row_put bg_id r (ct_bgp t)\<rparr>)" if "get_bgp (bg_id r) t = Some old" "bg_node_id old = n"
    using part_edits [OF assms(1)] old_bgp [OF t(1) that(1), of r] that(2) t(2) assms(2) by simp
qed

lemma each_keeps:
  assumes "each f xs s = (Inr (), t)" "P s" "\<And>x t u. P t \<Longrightarrow> f x t = (Inr (), u) \<Longrightarrow> P u"
  shows "P t"
  using assms(1,2)
  by (induction xs arbitrary: s) (auto split: prod.splits sum.splits intro: assms(3))

lemma named_rows:
  assumes "config_inv s"
  shows "named_wg n k s = Some r \<Longrightarrow> get_wg (wg_id r) s = Some r \<and> wg_node_id r = n"
    "named_bgp n k s = Some b \<Longrightarrow> get_bgp (bg_id b) s = Some b \<and> bg_node_id b = n"
  using assms keyed_get unfolding config_inv_def named_wg_def named_bgp_def get_wg_def get_bgp_def find_Some_iff
  by (metis nth_mem)+

lemma put_interface_part:
  assumes "part_of n pid s t" "put_interface n pid e t = (Inr x, u)"
  shows "part_of n pid s u"
proof -
  have inv: "config_inv t" using assms(1) by (simp add: part_of_def)
  show ?thesis
  proof (cases "named_wg n (if_name (fi_spec e)) t")
    case None
    then show ?thesis using assms(2) wg_part(1) [OF assms(1)] by (auto simp: put_interface_def write_interface_def handler_Inr)
  next
    case (Some r)
    then show ?thesis
      using assms(2) named_rows(1) [OF inv Some] wg_part(2) [OF assms(1)]
      by (auto simp: put_interface_def write_interface_def handler_Inr)
  qed
qed

lemma write_session_part:
  assumes "part_of n pid s t" "write_session n pid e t = (Inr x, u)"
  shows "part_of n pid s u"
proof -
  have inv: "config_inv t" using assms(1) by (simp add: part_of_def)
  show ?thesis
  proof (cases "named_bgp n (bgp_name (fb_spec e)) t")
    case None
    then show ?thesis
      using assms(2) bgp_part(1) [OF assms(1)] by (auto simp: write_session_def handler_Inr apply_bgp_spec_def)
  next
    case (Some r)
    then show ?thesis
      using assms(2) named_rows(2) [OF inv Some] bgp_part(2) [OF assms(1)]
      by (auto simp: write_session_def handler_Inr apply_bgp_spec_def)
  qed
qed

lemma prune_parts:
  assumes "part_of n pid s t"
  shows "part_of n pid s (prune_interfaces pid names t)" "part_of n pid s (prune_sessions pid names t)"
proof -
  have inv: "config_inv t" and pid: "\<exists>p. get_peering_row pid t = Some p \<and> pe_local_node_id p = n"
    using assms by (auto simp: part_of_def home_defs)
  have "wg_node_id r = n" if "r \<in> set (ct_wg t)" "wg_peering_id r = Some pid" for r
    using inv pid that by (fastforce simp: config_inv_def home_defs)
  then have "edits {n} t (prune_interfaces pid names t)" unfolding prune_interfaces_def by (intro edit_filter_wg) auto
  then show "part_of n pid s (prune_interfaces pid names t)"
    by (rule part_edits [OF assms]) (simp add: prune_interfaces_def)
  have "bg_node_id r = n" if "r \<in> set (ct_bgp t)" "bg_peering_id r = Some pid" for r
    using inv pid that by (fastforce simp: config_inv_def home_defs)
  then have "edits {n} t (prune_sessions pid names t)" unfolding prune_sessions_def by (intro edit_filter_bgp) auto
  then show "part_of n pid s (prune_sessions pid names t)"
    by (rule part_edits [OF assms]) (simp add: prune_sessions_def)
qed

lemma part_brought: "part_of n pid s u \<Longrightarrow> republished [n] why u ps t \<Longrightarrow> brought s ps t"
  using broughtI [of "{n}" s u "[n]" why ps t] by (simp add: part_of_def)

lemma put_peering_full_brought:
  assumes "config_inv s" "put_peering_full n p s = (Inr (x, ps, why), t)"
  shows "brought s ps t"
proof -
  obtain pid u1 ifaces names u2 sessions names' u3 where u:
    "upsert_peering n (fu_peering p) s = (Inr pid, u1)"
    "each (put_interface n pid) ifaces (prune_interfaces pid names u1) = (Inr (), u2)"
    "each (write_session n pid) sessions (prune_sessions pid names' u2) = (Inr (), u3)"
    "republished [n] why u3 ps t" "get_node n s \<noteq> None"
    using assms(2) by (auto simp: put_peering_full_def handler_Inr)
  note p1 = prune_parts(1) [OF upsert_peering_part [OF assms(1) u(1,5)]]
  have p2: "part_of n pid s u2" by (rule each_keeps [where P = "part_of n pid s", OF u(2) p1 put_interface_part])
  have "part_of n pid s u3" by (rule each_keeps [where P = "part_of n pid s", OF u(3) prune_parts(2) [OF p2] write_session_part])
  then show ?thesis by (rule part_brought [OF _ u(4)])
qed

text \<open>A row of the peering is written under the next number.\<close>

definition adds_wg :: "string \<Rightarrow> int \<Rightarrow> control \<Rightarrow> control \<Rightarrow> bool" where
  "adds_wg n pid s t \<longleftrightarrow>
     (\<exists>r. wg_node_id r = n \<and> wg_peering_id r = Some pid \<and> wg_id r = ct_next_wg s \<and>
        t = s\<lparr>ct_next_wg := ct_next_wg s + 1, ct_wg := row_put wg_id r (ct_wg s)\<rparr>)"

definition adds_bgp :: "string \<Rightarrow> int \<Rightarrow> control \<Rightarrow> control \<Rightarrow> bool" where
  "adds_bgp n pid s t \<longleftrightarrow>
     (\<exists>r. bg_node_id r = n \<and> bg_peering_id r = Some pid \<and> bg_id r = ct_next_bgp s \<and>
        t = s\<lparr>ct_next_bgp := ct_next_bgp s + 1, ct_bgp := row_put bg_id r (ct_bgp s)\<rparr>)"

lemma adds_wgI:
  "wg_node_id r = n \<Longrightarrow> wg_peering_id r = Some pid \<Longrightarrow> wg_id r = ct_next_wg s \<Longrightarrow>
     adds_wg n pid s (s\<lparr>ct_next_wg := ct_next_wg s + 1, ct_wg := row_put wg_id r (ct_wg s)\<rparr>)"
  "bg_node_id b = n \<Longrightarrow> bg_peering_id b = Some pid \<Longrightarrow> bg_id b = ct_next_bgp s \<Longrightarrow>
     adds_bgp n pid s (s\<lparr>ct_next_bgp := ct_next_bgp s + 1, ct_bgp := row_put bg_id b (ct_bgp s)\<rparr>)"
  unfolding adds_wg_def adds_bgp_def by blast+

lemma adds_part:
  "part_of n pid s t \<Longrightarrow> adds_wg n pid t u \<Longrightarrow> part_of n pid s u"
  "part_of n pid s t \<Longrightarrow> adds_bgp n pid t u' \<Longrightarrow> part_of n pid s u'"
  unfolding adds_wg_def adds_bgp_def using wg_part(1) bgp_part(1) by blast+

lemma provision_peering_brought:
  assumes "config_inv s" "provision_peering n p s = (Inr (x, ps, why), t)"
  shows "brought s ps t"
proof (cases "vi_bgp_spec p")
  case None
  have node: "get_node n s \<noteq> None" using assms(2) by (auto simp: provision_peering_def handler_Inr)
  obtain r u1 spec where u: "insert_peering n (vi_peering p) s = (Inr r, u1)" "republished [n] why (u1\<lparr>ct_next_wg := ct_next_wg u1 + 1, ct_wg := row_put wg_id \<lparr>wg_id = ct_next_wg u1, wg_node_id = n,
       wg_peering_id = Some (pe_id r), wg_enabled = vi_interface_enabled p, wg_spec = spec,
       wg_sort_order = vi_interface_sort_order p\<rparr> (ct_wg u1)\<rparr>) ps t"
    using assms(2) None by (auto simp: provision_peering_def handler_Inr)
  have "adds_wg n (pe_id r) u1 (u1\<lparr>ct_next_wg := ct_next_wg u1 + 1, ct_wg := row_put wg_id \<lparr>wg_id = ct_next_wg u1, wg_node_id = n,
       wg_peering_id = Some (pe_id r), wg_enabled = vi_interface_enabled p, wg_spec = spec,
       wg_sort_order = vi_interface_sort_order p\<rparr> (ct_wg u1)\<rparr>)" by (rule adds_wgI) simp_all
  then show ?thesis by (rule part_brought [OF adds_part(1) [OF insert_peering_part(1) [OF assms(1) u(1) node]] u(2)])
next
  case (Some b)
  have node: "get_node n s \<noteq> None" using assms(2) by (auto simp: provision_peering_def handler_Inr)
  obtain r u1 spec u2 b where u: "insert_peering n (vi_peering p) s = (Inr r, u1)" "u2 = u1\<lparr>ct_next_wg := ct_next_wg u1 + 1, ct_wg := row_put wg_id \<lparr>wg_id = ct_next_wg u1, wg_node_id = n,
       wg_peering_id = Some (pe_id r), wg_enabled = vi_interface_enabled p, wg_spec = spec,
       wg_sort_order = vi_interface_sort_order p\<rparr> (ct_wg u1)\<rparr>"
    "republished [n] why (u2\<lparr>ct_next_bgp := ct_next_bgp u2 + 1, ct_bgp := row_put bg_id \<lparr>bg_id = ct_next_bgp u2, bg_node_id = n,
       bg_peering_id = Some (pe_id r), bg_enabled = bgp_enabled b, bg_spec = b, bg_sort_order = vi_bgp_sort_order p\<rparr> (ct_bgp u2)\<rparr>) ps t"
    using assms(2) Some by (auto simp: provision_peering_def handler_Inr)
  have w: "adds_wg n (pe_id r) u1 u2" unfolding u(2) by (rule adds_wgI) simp_all
  show ?thesis
    by (rule part_brought [OF adds_part(2) [OF adds_part(1) [OF insert_peering_part(1) [OF assms(1) u(1) node] w] adds_wgI(2)] u(3)])
       simp_all
qed

section \<open>Provisioning\<close>

text \<open>Rows are written for the node that is provisioned only.\<close>

definition on_node :: "string \<Rightarrow> control \<Rightarrow> control \<Rightarrow> bool" where
  "on_node n s t \<longleftrightarrow> edits {n} s t \<and> config_inv t \<and> get_node n t \<noteq> None"

lemma on_node_step: "on_node n s t \<Longrightarrow> edits {n} t u \<Longrightarrow> get_node n u = get_node n t \<Longrightarrow> on_node n s u"
  using edits.trans edits_inv unfolding on_node_def by metis

lemma put_provisioned_cases:
  assumes "put_provisioned d s = (Inr x, t)"
  obtains "get_node (nd_node_id (ds_node d)) s = None" "t = put_node (new_provisioned_row d) s"
  | r where "get_node (nd_node_id (ds_node d)) s = Some r"
      "t = delete_children (nd_node_id (ds_node d)) (put_node (provisioned_row d r) s)"
  using assms by (auto simp: put_provisioned_def Let_def seq_def split: option.splits)

lemma put_provisioned_edits:
  assumes "put_provisioned d s = (Inr x, t)" "config_inv s"
  shows "on_node (nd_node_id (ds_node d)) s t"
  using assms(1)
proof (cases rule: put_provisioned_cases)
  case 1
  have "edits {nd_node_id (ds_node d)} s t"
    unfolding 1(2) by (rule edit_node) (simp_all add: new_provisioned_row_def Let_def 1(1))
  then show ?thesis using edits_inv assms(2) by (simp add: on_node_def 1(2) nodes.get_put new_provisioned_row_def Let_def)
next
  case (2 r)
  let ?n = "nd_node_id (ds_node d)" and ?u = "put_node (provisioned_row d r) s"
  have below: "g < ct_next_group s" if "nr_dns_group_id r = Some g" for g
    using assms(2) 2(1) that row_get_SomeD [of nr_node_id ?n "ct_nodes s" r] by (auto simp: config_inv_def get_node_def)
  have "edits {?n} s ?u"
    by (rule edit_node) (use below get_node_key [OF 2(1)] 2(1) in \<open>simp_all add: provisioned_row_def Let_def\<close>)
  then have "on_node ?n s ?u"
    using edits_inv assms(2) get_node_key [OF 2(1)] by (simp add: on_node_def nodes.get_put provisioned_row_def Let_def)
  then have "on_node ?n s (?u\<lparr>ct_wg := filter (\<lambda>r. wg_node_id r \<noteq> ?n) (ct_wg ?u)\<rparr>)" (is "on_node _ _ ?v")
    by (rule on_node_step) (rule edit_filter_wg, simp_all add: get_node_def)
  then have "on_node ?n s (?v\<lparr>ct_bgp := filter (\<lambda>r. bg_node_id r \<noteq> ?n) (ct_bgp ?v)\<rparr>)"
    by (rule on_node_step) (rule edit_filter_bgp, simp_all add: get_node_def)
  then show ?thesis by (simp add: 2(2) delete_children_def)
qed

lemma add_interface_Inr [handler_Inr]:
  "add_interface n x s = (Inr y, t) \<longleftrightarrow>
     (let r = \<lparr>wg_id = ct_next_wg s, wg_node_id = n, wg_peering_id = None, wg_enabled = True, wg_spec = snd x,
               wg_sort_order = int (fst x)\<rparr> in
      \<not> wg_clash r (s\<lparr>ct_next_wg := ct_next_wg s + 1\<rparr>) \<and>
      t = s\<lparr>ct_next_wg := ct_next_wg s + 1, ct_wg := row_put wg_id r (ct_wg s)\<rparr>)"
  by (auto simp: add_interface_def handler_Inr)

lemma add_session_Inr [handler_Inr]:
  "add_session n x s = (Inr y, t) \<longleftrightarrow>
     (let r = \<lparr>bg_id = ct_next_bgp s, bg_node_id = n, bg_peering_id = None, bg_enabled = bgp_enabled (snd x),
               bg_spec = snd x, bg_sort_order = int (fst x)\<rparr> in
      \<not> bgp_clash r (s\<lparr>ct_next_bgp := ct_next_bgp s + 1\<rparr>) \<and>
      t = s\<lparr>ct_next_bgp := ct_next_bgp s + 1, ct_bgp := row_put bg_id r (ct_bgp s)\<rparr>)"
  by (auto simp: add_session_def handler_Inr apply_bgp_spec_def)

lemma add_child_edits:
  assumes "on_node n s t"
  shows "add_interface n x t = (Inr y, u) \<Longrightarrow> on_node n s u" "add_session n z t = (Inr y', u') \<Longrightarrow> on_node n s u'"
proof -
  have inv: "config_inv t" and home: "at_home t n None" using assms by (simp_all add: on_node_def home_defs)
  show "on_node n s u" if "add_interface n x t = (Inr y, u)"
    using that by (auto simp: handler_Inr intro!: on_node_step [OF assms] new_wg [OF inv] simp: home get_node_def)
  show "on_node n s u'" if "add_session n z t = (Inr y', u')"
    using that by (auto simp: handler_Inr intro!: on_node_step [OF assms] new_bgp [OF inv] simp: home get_node_def)
qed

lemma add_children_edits:
  assumes "add_children d t = (Inr y, u)" "on_node (nd_node_id (ds_node d)) s t"
  shows "on_node (nd_node_id (ds_node d)) s u"
proof -
  let ?P = "on_node (nd_node_id (ds_node d)) s"
  obtain v where v: "each (add_interface (nd_node_id (ds_node d))) (enumerate 0 (ds_interfaces d)) t = (Inr (), v)"
    "each (add_session (nd_node_id (ds_node d))) (enumerate 0 (ds_bgp_sessions d)) v = (Inr (), u)"
    using assms(1) by (auto simp: add_children_def seq_Inr Let_def)
  have "?P v" by (rule each_keeps [where P = ?P, OF v(1) assms(2) add_child_edits(1)])
  then show ?thesis by (rule each_keeps [where P = ?P, OF v(2) _ add_child_edits(2)])
qed

lemma provision_node_Inr:
  assumes "provision_node h raw None s = (Inr (x, ps, why), t)"
  obtains d u v where "model_validate_state raw = Inr d" "put_provisioned d s = (Inr (), u)" "add_children d u = (Inr (), v)"
    "ps = [(nd_node_id (ds_node d), x)]" "republished [nd_node_id (ds_node d)] ''admin provision'' v ps t"
proof -
  obtain d u v where d: "model_validate_state raw = Inr d" "put_provisioned d s = (Inr (), u)" "add_children d u = (Inr (), v)"
    "materialize (nd_node_id (ds_node d)) (Some ''admin provision'') DEFAULT_GENERATION_RETENTION v = (Inr (Some x), t)"
    "ps = [(nd_node_id (ds_node d), x)]"
    using assms
    by (auto simp: provision_node_def provision_node_from_state_def bind_agent_token_def as_422_def handler_Inr truthy_def
        split: sum.splits option.splits if_splits)
  have "materialize_change (nd_node_id (ds_node d)) ''admin provision'' v = (Inr x, t)"
    using d(4) by (simp add: materialize_change_def catching_def seq_def)
  then show thesis using that [OF d(1-3,5)] d(5) by (simp add: republished_def seq_Inr)
qed

lemma provision_node_brought:
  assumes "config_inv s" "provision_node h raw None s = (Inr (x, ps, why), t)"
  shows "brought s ps t"
proof -
  obtain d u v where d: "put_provisioned d s = (Inr (), u)" "add_children d u = (Inr (), v)"
    "republished [nd_node_id (ds_node d)] ''admin provision'' v ps t"
    using provision_node_Inr [OF assms(2)] by metis
  have "on_node (nd_node_id (ds_node d)) s v" by (rule add_children_edits [OF d(2) put_provisioned_edits [OF d(1) assms(1)]])
  then have "edits {nd_node_id (ds_node d)} s v" by (simp add: on_node_def)
  then show ?thesis by (rule broughtI [OF _ d(3)]) simp
qed

section \<open>Groups, zones and records\<close>

lemma with_Inr [handler_Inr]:
  "with_group g f1 s = (Inr x, t) \<longleftrightarrow> (\<exists>r. get_group_row g s = Some r \<and> f1 r s = (Inr x, t))"
  "with_zone g z f2 s = (Inr x, t) \<longleftrightarrow> (\<exists>r. get_zone_row z s = Some r \<and> gz_group_id r = g \<and> f2 r s = (Inr x, t))"
  "with_record z i f3 s = (Inr x, t) \<longleftrightarrow> (\<exists>r. get_record_row i s = Some r \<and> gc_zone_id r = z \<and> f3 r s = (Inr x, t))"
  by (auto simp: with_group_def with_zone_def with_record_def split: option.splits)

lemma with_node_Inr [handler_Inr]:
  "with_node n f s = (Inr x, t) \<longleftrightarrow> (\<exists>r. get_node n s = Some r \<and> f r s = (Inr x, t))"
  by (auto simp: with_node_def split: option.splits)

lemma save_dns_Inr [handler_Inr]:
  "save_group r1 s = (Inr x, t) \<longleftrightarrow>
     \<not> list_ex (\<lambda>x. gr_id x \<noteq> gr_id r1 \<and> gr_name x = gr_name r1) (ct_dns_groups s) \<and>
     t = s\<lparr>ct_dns_groups := row_put gr_id r1 (ct_dns_groups s)\<rparr>"
  "save_zone r2 s = (Inr x, t) \<longleftrightarrow>
     \<not> list_ex (\<lambda>x. gz_id x \<noteq> gz_id r2 \<and> gz_group_id x = gz_group_id r2 \<and> gz_zone x = gz_zone r2) (ct_dns_zones s) \<and>
     t = s\<lparr>ct_dns_zones := row_put gz_id r2 (ct_dns_zones s)\<rparr>"
  "save_record r3 s = (Inr x, t) \<longleftrightarrow> t = s\<lparr>ct_dns_records := row_put gc_id r3 (ct_dns_records s)\<rparr>"
  by (auto simp: save_group_def save_zone_def save_record_def)

lemma member_ids_simps [simp]:
  "member_ids g (ct_dns_groups_update f1 s) = member_ids g s" "member_ids g (ct_dns_zones_update f2 s) = member_ids g s"
  "member_ids g (ct_dns_records_update f3 s) = member_ids g s" "member_ids g (ct_next_zone_update f4 s) = member_ids g s"
  "member_ids g (ct_next_record_update f5 s) = member_ids g s" "member_ids g (ct_next_group_update f6 s) = member_ids g s"
  by (simp_all add: member_ids_def)

lemma group_brought:
  assumes "edits (set (member_ids g s)) s u" "republished (member_ids g u) why u ps t" "member_ids g u = member_ids g s"
  shows "brought s ps t"
  by (rule broughtI [OF assms(1,2)]) (simp add: assms(3))

lemma dns_rows_below:
  assumes "config_inv s"
  shows "get_group_row g s = Some r1 \<Longrightarrow> gr_id r1 = g \<and> g < ct_next_group s"
    "get_zone_row z s = Some r2 \<Longrightarrow> gz_id r2 = z \<and> z < ct_next_zone s"
    "get_record_row i s = Some r3 \<Longrightarrow> gc_id r3 = i \<and> i < ct_next_record s"
  using assms row_get_SomeD unfolding config_inv_def keyed_def get_group_row_def get_zone_row_def get_record_row_def by fast+

lemma update_group_brought:
  assumes "config_inv s" "update_group g p s = (Inr (x, ps, why), t)"
  shows "brought s ps t"
proof -
  obtain r where r: "get_group_row g s = Some r" using assms(2) by (auto simp: update_group_def handler_Inr)
  let ?row = "\<lambda>cfg. r\<lparr>gr_name := or_default (gr_name r) (gp_name p), gr_bind_addresses := dns_bind_addresses cfg,
    gr_cache_ttl_seconds := dns_cache_ttl_seconds cfg, gr_forwards := dns_forwards cfg,
    gr_enabled := or_default (gr_enabled r) (gp_enabled p)\<rparr>"
  obtain cfg where "validate_group_config (or_default (gr_bind_addresses r) (gp_bind_addresses p))
      (or_default (gr_cache_ttl_seconds r) (gp_cache_ttl_seconds p)) (or_default (gr_forwards r) (gp_forwards p)) = Inr cfg"
    "republished (member_ids g s) why (s\<lparr>ct_dns_groups := row_put gr_id (?row cfg) (ct_dns_groups s)\<rparr>) ps t"
    using assms(2) r by (auto simp: update_group_def handler_Inr)
  then show ?thesis
    using group_brought [OF edit_group [of "?row cfg" g s]] dns_rows_below(1) [OF assms(1) r] by simp
qed

lemma create_zone_brought:
  assumes "config_inv s" "create_zone g p s = (Inr (x, ps, why), t)"
  shows "brought s ps t"
proof -
  let ?u = "s\<lparr>ct_next_zone := ct_next_zone s + 1\<rparr>"
  let ?row = "\<lambda>name. \<lparr>gz_id = ct_next_zone s, gz_group_id = g, gz_zone = name, gz_primary_ns = zi_primary_ns p,
    gz_admin_email = zi_admin_email p, gz_soa_refresh = zi_soa_refresh p, gz_soa_retry = zi_soa_retry p,
    gz_soa_expire = zi_soa_expire p, gz_soa_minimum = zi_soa_minimum p, gz_default_ttl = zi_default_ttl p,
    gz_enabled = zi_enabled p\<rparr>"
  obtain name where rep: "republished (member_ids g s) why (?u\<lparr>ct_dns_zones := row_put gz_id (?row name) (ct_dns_zones s)\<rparr>) ps t"
    using assms(2) by (auto simp: create_zone_def handler_Inr)
  define row where "row = ?row name"
  note row = row_def [THEN arg_cong [where f = gz_id], simplified] row_def [THEN arg_cong [where f = gz_group_id], simplified]
    rep [folded row_def]
  have "get_zone_row (gz_id row) ?u = None"
    using assms(1) keyed_new [of gz_id "ct_next_zone s" "ct_dns_zones s"] row(1) by (simp add: get_zone_row_def config_inv_def)
  then have "edits (set (member_ids g ?u)) ?u (?u\<lparr>ct_dns_zones := row_put gz_id row (ct_dns_zones ?u)\<rparr>)"
    using row by (intro edit_zone) simp_all
  then show ?thesis using group_brought [OF edits.trans [OF edit_next(5)]] row(3) by simp
qed

lemma zone_name_Inr:
  "(case v of None \<Rightarrow> ret old | Some name \<Rightarrow> lift_res (validate_zone_name name)) s = (Inr name, t) \<longleftrightarrow>
     t = s \<and> (case v of None \<Rightarrow> Inr old | Some n \<Rightarrow> validate_zone_name n) = Inr name"
  by (auto split: option.split)

lemma update_zone_brought:
  assumes "config_inv s" "update_zone g z p s = (Inr (x, ps, why), t)"
  shows "brought s ps t"
proof -
  obtain r where r: "get_zone_row z s = Some r" "gz_group_id r = g" using assms(2) by (auto simp: update_zone_def handler_Inr)
  let ?row = "\<lambda>name. r\<lparr>gz_zone := name, gz_primary_ns := or_keep (gz_primary_ns r) (zp_primary_ns p),
     gz_admin_email := or_keep (gz_admin_email r) (zp_admin_email p),
     gz_soa_refresh := or_keep (gz_soa_refresh r) (zp_soa_refresh p), gz_soa_retry := or_keep (gz_soa_retry r) (zp_soa_retry p),
     gz_soa_expire := or_keep (gz_soa_expire r) (zp_soa_expire p), gz_soa_minimum := or_keep (gz_soa_minimum r) (zp_soa_minimum p),
     gz_default_ttl := or_keep (gz_default_ttl r) (zp_default_ttl p), gz_enabled := or_default (gz_enabled r) (zp_enabled p)\<rparr>"
  obtain name where "(case zp_zone p of None \<Rightarrow> ret (gz_zone r) | Some name \<Rightarrow> lift_res (validate_zone_name name)) s = (Inr name, s)"
    "republished (member_ids g s) why (s\<lparr>ct_dns_zones := row_put gz_id (?row name) (ct_dns_zones s)\<rparr>) ps t"
    using assms(2) r by (auto simp: update_zone_def handler_Inr zone_name_Inr)
  then show ?thesis
    using group_brought [OF edit_zone [of "?row name" g s]] dns_rows_below(2) [OF assms(1) r(1)] r by simp
qed

lemma delete_zone_brought:
  assumes "delete_zone g z s = (Inr (x, ps, why), t)"
  shows "brought s ps t"
proof -
  obtain r where r: "get_zone_row z s = Some r" "gz_group_id r = g"
    "republished (member_ids g s) why
       (s\<lparr>ct_dns_zones := row_del gz_id z (ct_dns_zones s), ct_dns_records := filter (\<lambda>x. gc_zone_id x \<noteq> z) (ct_dns_records s)\<rparr>) ps t"
    using assms by (auto simp: delete_zone_def handler_Inr)
  then show ?thesis using group_brought [OF edit_drop_zone [OF r(1,2)]] by simp
qed

text \<open>The zone of the path is a zone of the group of the path.\<close>

definition zone_in_group :: "int \<Rightarrow> int \<Rightarrow> control \<Rightarrow> bool" where
  "zone_in_group g z s \<longleftrightarrow> map_option gz_group_id (get_zone_row z s) = Some g"

lemma edit_put_record:
  assumes "zone_in_group g z s" "gc_zone_id r = z" "gc_id r < ct_next_record s"
    and "\<And>old. get_record_row (gc_id r) s = Some old \<Longrightarrow> gc_zone_id old = z"
  shows "edits (set (member_ids g s)) s (s\<lparr>ct_dns_records := row_put gc_id r (ct_dns_records s)\<rparr>)"
proof -
  obtain zr where zr: "get_zone_row z s = Some zr" "gz_group_id zr = g" using assms(1) by (auto simp: zone_in_group_def)
  show ?thesis
  proof (rule edit_records [OF zr])
    show "config_inv s \<Longrightarrow> keyed gc_id (ct_next_record s) (row_put gc_id r (ct_dns_records s))"
      using assms(3) by (simp add: config_inv_def keyed_put)
    show "filter (\<lambda>r. gc_zone_id r = k) (row_put gc_id r (ct_dns_records s)) = filter (\<lambda>r. gc_zone_id r = k) (ct_dns_records s)"
      if "k \<noteq> z" for k
      by (rule filter_row_put) (use assms(2,4) that in \<open>auto simp: get_record_row_def\<close>)
  qed
qed

lemma create_record_brought:
  assumes "config_inv s" "create_record g z p s = (Inr (x, ps, why), t)"
  shows "brought s ps t"
proof -
  let ?u = "s\<lparr>ct_next_record := ct_next_record s + 1\<rparr>"
  obtain r where r: "get_zone_row z s = Some r" "gz_group_id r = g" using assms(2) by (auto simp: create_record_def handler_Inr)
  let ?row = "\<lambda>spec. \<lparr>gc_id = ct_next_record s, gc_zone_id = z, gc_name = dr_name spec, gc_type = dr_type spec,
    gc_content = ci_content p, gc_ttl = ci_ttl p, gc_enabled = ci_enabled p, gc_sort_order = ci_sort_order p\<rparr>"
  obtain spec where "validate_record (ci_name p) (ci_type p) (ci_content p) (ci_ttl p) = Inr spec"
    and rep: "republished (member_ids g s) why (?u\<lparr>ct_dns_records := row_put gc_id (?row spec) (ct_dns_records s)\<rparr>) ps t"
    using assms(2) by (auto simp: create_record_def handler_Inr)
  define row where "row = ?row spec"
  note row = row_def [THEN arg_cong [where f = gc_id], simplified] row_def [THEN arg_cong [where f = gc_zone_id], simplified]
    rep [folded row_def]
  have "get_record_row (gc_id row) ?u = None"
    using assms(1) keyed_new [of gc_id "ct_next_record s" "ct_dns_records s"] row(1) by (simp add: get_record_row_def config_inv_def)
  moreover have "zone_in_group g z ?u" using r by (simp add: zone_in_group_def get_zone_row_def)
  ultimately have "edits (set (member_ids g ?u)) ?u (?u\<lparr>ct_dns_records := row_put gc_id row (ct_dns_records ?u)\<rparr>)"
    using row by (intro edit_put_record) simp_all
  then show ?thesis using group_brought [OF edits.trans [OF edit_next(6)]] row(3) by simp
qed

lemma update_record_row:
  assumes "update_record g z i p s = (Inr (x, ps, why), t)"
  obtains r row where "get_record_row i s = Some r" "gc_zone_id r = z" "gc_id row = gc_id r" "gc_zone_id row = z"
    "republished (member_ids g s) why (s\<lparr>ct_dns_records := row_put gc_id row (ct_dns_records s)\<rparr>) ps t"
proof -
  obtain r where r: "get_record_row i s = Some r" "gc_zone_id r = z" using assms by (auto simp: update_record_def handler_Inr)
  let ?row = "\<lambda>spec. r\<lparr>gc_name := dr_name spec, gc_type := dr_type spec, gc_content := or_default (gc_content r) (cp_content p),
    gc_ttl := or_keep (gc_ttl r) (cp_ttl p), gc_enabled := or_default (gc_enabled r) (cp_enabled p),
    gc_sort_order := or_default (gc_sort_order r) (cp_sort_order p)\<rparr>"
  obtain spec where "validate_record (or_default (gc_name r) (cp_name p)) (or_default (gc_type r) (cp_type p))
      (or_default (gc_content r) (cp_content p)) (or_keep (gc_ttl r) (cp_ttl p)) = Inr spec"
    and rep: "republished (member_ids g s) why (s\<lparr>ct_dns_records := row_put gc_id (?row spec) (ct_dns_records s)\<rparr>) ps t"
    using assms r by (auto simp: update_record_def handler_Inr)
  define row where "row = ?row spec"
  have row: "gc_id row = gc_id r" "gc_zone_id row = z" using r by (simp_all add: row_def)
  note rep = rep [folded row_def]
  show thesis by (rule that [OF r row rep])
qed

lemma update_record_brought:
  assumes "config_inv s" "zone_in_group g z s" "update_record g z i p s = (Inr (x, ps, why), t)"
  shows "brought s ps t"
proof -
  obtain r row where r: "get_record_row i s = Some r" "gc_zone_id r = z" and row: "gc_id row = gc_id r" "gc_zone_id row = z"
    and rep: "republished (member_ids g s) why (s\<lparr>ct_dns_records := row_put gc_id row (ct_dns_records s)\<rparr>) ps t"
    using update_record_row [OF assms(3)] by metis
  have "edits (set (member_ids g s)) s (s\<lparr>ct_dns_records := row_put gc_id row (ct_dns_records s)\<rparr>)"
    by (rule edit_put_record [OF assms(2) row(2)]) (use dns_rows_below(3) [OF assms(1) r(1)] r row(1) in simp_all)
  then show ?thesis using group_brought rep by simp
qed

lemma delete_record_brought:
  assumes "config_inv s" "zone_in_group g z s" "delete_record g z i s = (Inr (x, ps, why), t)"
  shows "brought s ps t"
proof -
  obtain r where r: "get_record_row i s = Some r" "gc_zone_id r = z"
    "republished (member_ids g s) why (s\<lparr>ct_dns_records := row_del gc_id i (ct_dns_records s)\<rparr>) ps t"
    using assms(3) by (auto simp: delete_record_def handler_Inr)
  obtain zr where zr: "get_zone_row z s = Some zr" "gz_group_id zr = g" using assms(2) by (auto simp: zone_in_group_def)
  have "gc_zone_id x = z" if "x \<in> set (ct_dns_records s)" "gc_id x = i" for x
    using assms(1) keyed_get [of gc_id _ "ct_dns_records s" x] that r(1,2) unfolding config_inv_def get_record_row_def by auto
  then have "edits (set (member_ids g s)) s (s\<lparr>ct_dns_records := row_del gc_id i (ct_dns_records s)\<rparr>)"
    by (intro edit_records [OF zr] filter_row_del) (auto simp: config_inv_def keyed_del)
  then show ?thesis using group_brought r(3) by simp
qed

lemma delete_group_brought:
  assumes "delete_group g s = (Inr (x, ps, why), t)"
  shows "brought s ps t"
proof -
  let ?u = "foldl (\<lambda>s n. unassign n s) s (member_ids g s)"
  have rep: "republished (member_ids g s) why (drop_group g ?u) ps t"
    using assms by (auto simp: delete_group_def handler_Inr republished_def)
  have "edits (set (member_ids g s)) ?u (drop_group g ?u)"
    by (rule edits_mono [OF edit_drop_group members_unassign_all])
  then have "edits (set (member_ids g s)) s (drop_group g ?u)"
    using edits.trans [OF edit_unassign_all [of "member_ids g s"]] by simp
  then show ?thesis by (rule broughtI [OF _ rep]) simp
qed

lemma assign_brought:
  assumes "config_inv s" "assign_node_group n gid s = (Inr (x, ps, why), t)"
  shows "brought s ps t"
proof -
  obtain node where node: "get_node n s = Some node" using assms(2) by (auto simp: assign_node_group_def handler_Inr)
  then have rep: "republished [n] why (put_node (node\<lparr>nr_dns_group_id := gid\<rparr>) s) ps t"
    and "\<And>g. gid = Some g \<Longrightarrow> \<exists>r. get_group_row g s = Some r"
    using assms(2) by (auto simp: assign_node_group_def handler_Inr split: option.splits)
  then have "edits {n} s (put_node (node\<lparr>nr_dns_group_id := gid\<rparr>) s)"
    using dns_rows_below(1) [OF assms(1)] by (intro edit_assign [OF node]) blast
  then show ?thesis by (rule broughtI [OF _ rep]) simp
qed

section \<open>Handlers that publish nothing\<close>

lemma edit_fresh_peering:
  assumes "get_peering_row (pe_id r) s = None" "pe_id r < ct_next_peering s"
  shows "edits {} s (s\<lparr>ct_peerings := row_put pe_id r (ct_peerings s)\<rparr>)"
  unfolding edits_def
proof (intro impI conjI allI)
  let ?t = "s\<lparr>ct_peerings := row_put pe_id r (ct_peerings s)\<rparr>"
  assume inv: "config_inv s"
  have get: "get_peering_row i ?t = (if i = pe_id r then Some r else get_peering_row i s)" for i
    by (simp add: get_peering_row_def row_get_put)
  have home: "at_home s m pid \<Longrightarrow> at_home ?t m pid" for m pid
    using assms(1) by (auto simp: home_defs get get_node_def)
  then show "config_inv ?t" using inv assms(2) by (simp add: config_inv_def keyed_put)
  show "ct_generations ?t = ct_generations s" by simp
  show "view m ?t = view m s" for m
  proof (rule view_cong)
    fix x assume "x \<in> set (load_interfaces m s)"
    then have x: "at_home s (wg_node_id x) (wg_peering_id x)" using inv by (auto simp: load_interfaces_def config_inv_def)
    then show "peering_of ?t x = peering_of s x"
      using assms(1) by (auto simp: peering_of_alt get home_defs split: option.split)
  qed (simp_all add: get_node_def node_keys_def load_interfaces_def load_sessions_def group_view_def get_group_row_def)
qed

lemma create_peering_edits:
  assumes "config_inv s" "create_peering n p s = (Inr x, t)"
  shows "edits {} s t"
proof -
  let ?u = "s\<lparr>ct_next_peering := ct_next_peering s + 1\<rparr>"
  let ?row = "new_peering (ct_next_peering s) n p"
  have t: "t = ?u\<lparr>ct_peerings := row_put pe_id ?row (ct_peerings ?u)\<rparr>"
    using assms(2) by (auto simp: create_peering_def insert_peering_def handler_Inr)
  have "get_peering_row (pe_id ?row) ?u = None"
    using assms(1) keyed_new [of pe_id "ct_next_peering s" "ct_peerings s"]
    by (simp add: get_peering_row_def config_inv_def new_peering_def)
  then have "edits {} ?u t" unfolding t by (rule edit_fresh_peering) (simp add: new_peering_def)
  then show ?thesis using edits.trans [OF edit_next(3)] by blast
qed

lemma create_group_edits:
  assumes "config_inv s" "create_group p s = (Inr x, t)"
  shows "edits {} s t"
proof -
  let ?u = "s\<lparr>ct_next_group := ct_next_group s + 1\<rparr>"
  have t: "gr_id x = ct_next_group s" "t = ?u\<lparr>ct_dns_groups := row_put gr_id x (ct_dns_groups ?u)\<rparr>"
    using assms(2) by (auto simp: create_group_def handler_Inr)
  have "nr_dns_group_id node \<noteq> Some (ct_next_group s)" if "node \<in> set (ct_nodes s)" for node
    using assms(1) that unfolding config_inv_def by fastforce
  then have "member_ids (ct_next_group s) ?u = []" by (simp add: member_ids_def filter_empty_conv)
  then have "edits {} ?u t" using edit_group [of x "ct_next_group s" ?u] t by simp
  then show ?thesis using edits.trans [OF edit_next(4)] by blast
qed

lemma set_peering_field_frame:
  "set_peering_field r f = Inr r' \<Longrightarrow> pe_id r' = pe_id r \<and> pe_local_node_id r' = pe_local_node_id r"
  by (cases "(r, f)" rule: set_peering_field.cases) (auto split: option.splits)

lemma set_peering_fields_frame:
  assumes "rfold set_peering_field r fs = Inr r'"
  shows "pe_id r' = pe_id r \<and> pe_local_node_id r' = pe_local_node_id r"
  by (rule rfold_inv [OF assms]) (auto dest: set_peering_field_frame)

lemma with_peering_Inr [handler_Inr]:
  "with_peering i f s = (Inr x, t) \<longleftrightarrow> (\<exists>r. get_peering_row i s = Some r \<and> f r s = (Inr x, t))"
  by (auto simp: with_peering_def split: option.splits)

lemma patch_checks_state:
  "each (\<lambda>f. case f of P_Remote_Node v \<Rightarrow> require_remote v | _ \<Rightarrow> ret ()) fs s = (Inr x, t) \<Longrightarrow> t = s"
proof (induction fs)
  case (Cons f fs)
  have "(case f of P_Remote_Node v \<Rightarrow> require_remote v | _ \<Rightarrow> ret ()) s = (Inr y, u) \<Longrightarrow> u = s" for y u
    by (cases f) (simp_all add: require_remote_Inr)
  then show ?case using Cons by (auto split: prod.splits sum.splits)
qed simp

lemma peering_row_below:
  "config_inv s \<Longrightarrow> get_peering_row i s = Some r \<Longrightarrow> pe_id r = i \<and> i < ct_next_peering s"
  using row_get_SomeD unfolding config_inv_def keyed_def get_peering_row_def by fast

lemma update_peering_edits:
  assumes "config_inv s" "update_peering i patch s = (Inr x, t)"
  shows "\<exists>n. edits {n} s t"
proof -
  obtain r row where r: "get_peering_row i s = Some r" "rfold set_peering_field r patch = Inr row"
    "t = s\<lparr>ct_peerings := row_put pe_id row (ct_peerings s)\<rparr>"
    using assms(2) by (auto simp: update_peering_def handler_Inr dest!: patch_checks_state)
  have "edits {pe_local_node_id r} s t"
    unfolding r(3)
    by (rule edit_peering)
       (use set_peering_fields_frame [OF r(2)] peering_row_below [OF assms(1) r(1)] r(1) in simp_all)
  then show ?thesis by blast
qed

lemma delete_peering_eq:
  "delete_peering i s = (Inr x, t) \<longleftrightarrow>
     get_peering_row i s \<noteq> None \<and>
     t = s\<lparr>ct_peerings := row_del pe_id i (ct_peerings s), ct_wg := filter (\<lambda>x. wg_peering_id x \<noteq> Some i) (ct_wg s),
           ct_bgp := filter (\<lambda>x. bg_peering_id x \<noteq> Some i) (ct_bgp s)\<rparr>"
  by (auto simp: delete_peering_def handler_Inr)

lemma delete_peering_inv:
  assumes "config_inv s" "delete_peering i s = (Inr x, t)"
  shows "config_inv t"
proof -
  have t: "t = s\<lparr>ct_peerings := row_del pe_id i (ct_peerings s), ct_wg := filter (\<lambda>x. wg_peering_id x \<noteq> Some i) (ct_wg s),
           ct_bgp := filter (\<lambda>x. bg_peering_id x \<noteq> Some i) (ct_bgp s)\<rparr>"
    using assms(2) delete_peering_eq by blast
  have "at_home t m pid" if "at_home s m pid" "pid \<noteq> Some i" for m pid
    using that by (auto simp: home_defs t get_peering_row_def row_get_del get_node_def)
  then show ?thesis using assms(1) by (simp add: config_inv_def t keyed_filter keyed_del)
qed

section \<open>The backfill\<close>

text \<open>The rows a plan claims are the node's.\<close>

definition owned :: "string \<Rightarrow> control \<Rightarrow> planned_peering \<Rightarrow> bool" where
  "owned n s p \<longleftrightarrow>
     (\<forall>r\<in>set (ct_wg s). wg_id r \<in> set (pp_interface_ids p) \<longrightarrow> wg_node_id r = n) \<and>
     (\<forall>r\<in>set (ct_bgp s). bg_id r \<in> set (pp_session_ids p) \<longrightarrow> bg_node_id r = n)"

lemma edit_claim:
  assumes "owned n s p" "at_home s n (Some pid)"
  shows "edits {n} s (claim_children pid p s)"
  unfolding edits_def
proof (intro impI conjI allI)
  let ?t = "claim_children pid p s"
  let ?f = "\<lambda>r. if wg_id r \<in> set (pp_interface_ids p) then r\<lparr>wg_peering_id := Some pid\<rparr> else r"
  let ?g = "\<lambda>r. if bg_id r \<in> set (pp_session_ids p) then r\<lparr>bg_peering_id := Some pid\<rparr> else r"
  assume inv: "config_inv s"
  show "config_inv ?t"
    using inv assms by (auto simp: config_inv_def claim_children_def keyed_map owned_def)
  show "ct_generations ?t = ct_generations s" by (simp add: claim_children_def)
  show "view m ?t = view m s" if "m \<notin> {n}" for m
  proof (rule view_cong)
    have "filter (\<lambda>r. wg_node_id r = m) (map ?f rows) = filter (\<lambda>r. wg_node_id r = m) rows"
      if "set rows \<subseteq> set (ct_wg s)" for rows
      using that assms(1) \<open>m \<notin> {n}\<close> by (induction rows) (auto simp: owned_def)
    then show "load_interfaces m ?t = load_interfaces m s" by (simp add: load_interfaces_def claim_children_def)
    have "filter (\<lambda>r. bg_node_id r = m) (map ?g rows) = filter (\<lambda>r. bg_node_id r = m) rows"
      if "set rows \<subseteq> set (ct_bgp s)" for rows
      using that assms(1) \<open>m \<notin> {n}\<close> by (induction rows) (auto simp: owned_def)
    then show "load_sessions m ?t = load_sessions m s" by (simp add: load_sessions_def claim_children_def)
  qed (simp_all add: get_node_def node_keys_def peering_of_alt get_peering_row_def group_view_def get_group_row_def
      claim_children_def cong: option.case_cong)
qed

lemma apply_plans_edits:
  assumes "apply_plans n ps s = (Inr x, t)" "config_inv s" "\<forall>p\<in>set ps. owned n s p" "get_node n s \<noteq> None"
  shows "edits {n} s t"
  using assms
proof (induction ps arbitrary: s x)
  case Nil
  then show ?case by (simp add: edits.refl)
next
  case (Cons p ps)
  let ?u = "s\<lparr>ct_next_peering := ct_next_peering s + 1\<rparr>"
  let ?row = "new_peering (ct_next_peering s) n (planned_row n p)"
  define v where "v = ?u\<lparr>ct_peerings := row_put pe_id ?row (ct_peerings ?u)\<rparr>"
  define w where "w = claim_children (ct_next_peering s) p v"
  obtain y where rest: "apply_plans n ps w = (Inr y, t)"
    using Cons.prems(1) by (auto simp: handler_Inr v_def w_def)
  have "get_peering_row (pe_id ?row) ?u = None"
    using Cons.prems(2) keyed_new [of pe_id "ct_next_peering s" "ct_peerings s"]
    by (simp add: get_peering_row_def config_inv_def new_peering_def)
  then have "part_of n (pe_id ?row) ?u v"
    unfolding v_def
    by (intro put_peering_row config_inv_next(3) Cons.prems(2)) (use Cons.prems(4) in \<open>simp_all add: new_peering_def get_node_def\<close>)
  then have v: "edits {n} s v" "at_home v n (Some (ct_next_peering s))" "config_inv v"
    using edits.trans [OF edit_next(3)] by (auto simp: part_of_def new_peering_def)
  have node: "get_node n w \<noteq> None" using Cons.prems(4) by (simp add: w_def v_def claim_children_def get_node_def)
  have "owned n v p" using Cons.prems(3) by (simp add: owned_def v_def)
  then have w: "edits {n} v w" unfolding w_def by (rule edit_claim [OF _ v(2)])
  have "owned n w q" if "q \<in> set ps" for q
  proof -
    have "owned n s q" using Cons.prems(3) that by simp
    then show ?thesis by (auto simp: owned_def w_def v_def claim_children_def)
  qed
  then show ?case
    using Cons.IH [OF rest edits_inv [OF w v(3)]] edits.trans [OF v(1) w] edits.trans node by blast
qed

lemma plan_groups_mem:
  "p \<in> set (plan_groups s node taken gs) \<Longrightarrow>
     \<exists>g\<in>set gs. pp_interface_ids p = fst (snd (snd g)) \<and> pp_session_ids p = map (\<lambda>(r, _). bg_id r) (snd (snd (snd g)))"
proof (induction s node taken gs rule: plan_groups.induct)
  case (2 s node taken base asn interfaces grp gs)
  let ?plan = "plan_group s node base asn interfaces grp taken"
  consider "p = ?plan" | "p \<in> set (plan_groups s node (taken @ [pp_name ?plan]) gs)"
    using 2(2) by (auto simp: Let_def)
  then show ?case by cases (simp add: plan_group_def, use 2(1) in auto)
qed simp

lemma dput_values: "(k, v) \<in> set (dput a b d) \<Longrightarrow> v = b \<or> (k, v) \<in> set d"
  by (induction d) (auto split: if_splits)

lemma asn_groups_mem:
  "(asn, grp) \<in> set (asn_groups ifaces sessions) \<Longrightarrow> set grp \<subseteq> set sessions"
  unfolding asn_groups_def
proof (induction sessions arbitrary: asn grp rule: rev_induct)
  case (snoc y sessions)
  let ?d = "foldl (\<lambda>d (r, x). if anchor_interface x ifaces \<noteq> None then d
      else dput (bgp_remote_asn x) ((case map_of d (bgp_remote_asn x) of None \<Rightarrow> [] | Some l \<Rightarrow> l) @ [(r, x)]) d) [] sessions"
  obtain r x where y: "y = (r, x)" by fastforce
  have old: "set l \<subseteq> set sessions" if "map_of ?d k = Some l" for k l
    using snoc.IH map_of_SomeD [OF that] by blast
  have "(asn, grp) \<in> set ?d \<or> grp = (case map_of ?d (bgp_remote_asn x) of None \<Rightarrow> [] | Some l \<Rightarrow> l) @ [(r, x)]"
    using snoc.prems dput_values by (fastforce simp: y split: if_splits)
  then show ?case using snoc.IH [of asn grp] old [of "bgp_remote_asn x"] y by (auto split: option.splits)
qed simp

lemma backfill_groups_mem:
  assumes "(base, asn, interfaces, grp) \<in> set (backfill_groups n s)"
  shows "set interfaces \<subseteq> (\<lambda>(r, _). wg_id r) ` set (parsed_interfaces n s)" "set grp \<subseteq> set (parsed_sessions n s)"
  using assms asn_groups_mem
  by (fastforce simp: backfill_groups_def Let_def anchored_to_def split: if_splits)+

lemma parse_keeps: "parse_interface r = Inr (a, x) \<Longrightarrow> a = r" "parse_session b = Inr (c, y) \<Longrightarrow> c = b"
  by (auto simp: parse_interface_def parse_session_def split: sum.splits if_splits)

lemma parsed_rows:
  "(r, x) \<in> set (parsed_interfaces n s) \<Longrightarrow> r \<in> set (ct_wg s) \<and> wg_node_id r = n"
  "(b, y) \<in> set (parsed_sessions n s) \<Longrightarrow> b \<in> set (ct_bgp s) \<and> bg_node_id b = n"
  by (auto simp: parsed_interfaces_def parsed_sessions_def orphan_interfaces_def orphan_sessions_def load_interfaces_def
      load_sessions_def dest!: parse_keeps [OF sym] split: sum.splits)

lemma plan_owned:
  assumes "config_inv s" "p \<in> set (backfill_plan node s)"
  shows "owned (nr_node_id node) s p"
proof -
  let ?n = "nr_node_id node"
  obtain base asn interfaces grp where g: "(base, asn, interfaces, grp) \<in> set (backfill_groups ?n s)"
    "pp_interface_ids p = interfaces" "pp_session_ids p = map (\<lambda>(r, _). bg_id r) grp"
    using plan_groups_mem assms(2) unfolding backfill_plan_def by (metis prod.collapse)
  note m = backfill_groups_mem [OF g(1)]
  have same: "wg_id a = wg_id b \<Longrightarrow> a \<in> set (ct_wg s) \<Longrightarrow> b \<in> set (ct_wg s) \<Longrightarrow> a = b"
    "bg_id c = bg_id d \<Longrightarrow> c \<in> set (ct_bgp s) \<Longrightarrow> d \<in> set (ct_bgp s) \<Longrightarrow> c = d" for a b c d
    using assms(1) unfolding config_inv_def keyed_def by (metis distinct_map inj_onD)+
  show ?thesis
    unfolding owned_def g(2,3)
  proof (intro conjI ballI impI)
    fix r assume r: "r \<in> set (ct_wg s)" "wg_id r \<in> set interfaces"
    then obtain a x where "(a, x) \<in> set (parsed_interfaces ?n s)" "wg_id r = wg_id a" using m(1) by fastforce
    then show "wg_node_id r = ?n" using parsed_rows(1) same(1) r(1) by metis
  next
    fix r assume r: "r \<in> set (ct_bgp s)" "bg_id r \<in> set (map (\<lambda>(r, _). bg_id r) grp)"
    then obtain a x where "(a, x) \<in> set (parsed_sessions ?n s)" "bg_id r = bg_id a" using m(2) by fastforce
    then show "bg_node_id r = ?n" using parsed_rows(2) same(2) r(1) by metis
  qed
qed

lemma backfill_edits:
  assumes "config_inv s" "backfill_node_peerings n dry s = (Inr x, t)"
  shows "if dry then t = s else edits {n} s t"
proof -
  obtain node where node: "get_node n s = Some node"
    using assms(2) by (auto simp: backfill_node_peerings_def backfill_peerings_def handler_Inr split: option.splits)
  show ?thesis
  proof (cases dry)
    case True
    then show ?thesis
      using assms(2) node by (auto simp: backfill_node_peerings_def backfill_peerings_def handler_Inr)
  next
    case False
    then obtain y where "apply_plans n (backfill_plan node s) s = (Inr y, t)"
      using assms(2) node by (auto simp: backfill_node_peerings_def backfill_peerings_def handler_Inr)
    then have "edits {n} s t"
      using apply_plans_edits plan_owned assms(1) get_node_key [OF node] node by blast
    then show ?thesis using False by simp
  qed
qed

section \<open>All operations\<close>

text \<open>Whatever escapes from an operation, the tables are as they were: the checks before the transaction touch nothing.\<close>

definition atomic :: "('s, 'a) eff \<Rightarrow> bool" where
  "atomic m \<longleftrightarrow> (\<forall>s e t. m s = (Inl e, t) \<longrightarrow> t = s)"

definition silent :: "('s, 'a) eff \<Rightarrow> bool" where
  "silent m \<longleftrightarrow> (\<forall>s. snd (m s) = s)"

lemma atomic_seq: "silent m \<Longrightarrow> (\<And>x. atomic (f x)) \<Longrightarrow> atomic (seq m f)"
  by (auto simp: atomic_def silent_def seq_def split: prod.splits sum.splits) (metis snd_conv)+

lemma atomic_then: "atomic m \<Longrightarrow> atomic (seq m (\<lambda>x. ret (f x)))"
  by (auto simp: atomic_def seq_def split: prod.splits sum.splits)

lemma atomic_transaction: "atomic (transaction m)"
  by (auto simp: atomic_def dest: transaction_Inl)

lemma silent_checks: "silent (lift_res r)" "silent (ret x)"
  "silent (case v of None \<Rightarrow> ret None | Some x \<Rightarrow> seq (lift_res (f x)) (\<lambda>x. ret (Some x)))"
  by (auto simp: silent_def seq_def split: option.split sum.split)

lemma atomic_published: "atomic m \<Longrightarrow> atomic (published_by m)" "atomic m' \<Longrightarrow> atomic (unpublished m')"
  unfolding published_by_def unpublished_def split_def by (rule atomic_then, assumption)+

lemma config_run_atomic: "atomic (config_run op)"
  by (cases op)
     (simp_all add: create_interface_def update_interface_def delete_interface_def create_session_def update_session_def
        delete_session_def create_peering_def update_peering_def delete_peering_def provision_peering_def
        put_peering_full_def backfill_node_peerings_def create_group_def update_group_def delete_group_def create_zone_def
        update_zone_def delete_zone_def create_record_def update_record_def delete_record_def assign_node_group_def
        provision_node_def atomic_then
        atomic_published atomic_transaction atomic_seq silent_checks)

text \<open>The operations that publish what they change, and those that change nothing a node is served.\<close>

fun announces :: "config_op \<Rightarrow> control \<Rightarrow> bool" where
  "announces (Update_Peering i patch) s = False"
| "announces (Delete_Peering i) s = False"
| "announces (Backfill n dry) s = dry"
| "announces (Update_Record g z i p) s = zone_in_group g z s"
| "announces (Delete_Record g z i) s = zone_in_group g z s"
| "announces _ s = True"

lemma published_by_Inr:
  "published_by m s = (Inr (u, ps, why), t) \<longleftrightarrow> (\<exists>x. m s = (Inr (x, ps, why), t))"
  "unpublished m' s = (Inr (u, ps, why), t) \<longleftrightarrow> ps = [] \<and> why = [] \<and> (\<exists>x. m' s = (Inr x, t))"
  by (auto simp: published_by_def unpublished_def seq_Inr)

lemma edits_brought: "edits {} s t \<Longrightarrow> brought s [] t"
  by (rule broughtI [where u = t and ns = "[]" and reason = "[]"]) (simp_all add: republished_def)

lemmas handler_brought = create_interface_brought update_interface_brought delete_interface_brought create_session_brought
  update_session_brought delete_session_brought provision_peering_brought put_peering_full_brought update_group_brought
  delete_group_brought create_zone_brought update_zone_brought delete_zone_brought create_record_brought
  update_record_brought delete_record_brought assign_brought provision_node_brought

lemma config_run_brought:
  assumes "config_inv s" "announces op s" "config_run op s = (Inr (u, ps, why), t)"
  shows "brought s ps t"
proof (cases op)
  case (Backfill n dry)
  then show ?thesis
    using assms backfill_edits [OF assms(1), of n dry] edits_brought [OF edits.refl] by (auto simp: published_by_Inr)
next
  case (Create_Peering n p)
  then show ?thesis using assms edits_brought create_peering_edits by (fastforce simp: published_by_Inr)
next
  case (Create_Group p)
  then show ?thesis using assms edits_brought create_group_edits by (fastforce simp: published_by_Inr)
qed (use assms in \<open>auto simp: published_by_Inr intro: handler_brought\<close>)

end
