(* ===== verification/Configuration.thy ===== *)
theory Configuration
  imports Config_Handlers Node_Lifecycle
begin

text \<open>
  What the configuration API promises over any sequence of requests: rows keep their own numbers and hang on peerings
  of their own node, and what a node is served stays what its tables give.
\<close>

section \<open>The tables keep their invariant\<close>

definition keeps_config :: "control \<Rightarrow> control \<Rightarrow> bool" where
  "keeps_config s t \<longleftrightarrow> (config_inv s \<longrightarrow> config_inv t)"

lemma config_inv_put_node:
  assumes "config_inv s" "\<And>g. nr_dns_group_id row = Some g \<Longrightarrow> g < ct_next_group s"
  shows "config_inv (put_node row s)"
  using assms set_row_put [of nr_node_id row "ct_nodes s"] at_home_put_node [of s _ _ row]
  by (auto simp: config_inv_def put_node_def)

lemma config_inv_publish:
  assumes "config_inv s" "get_node n s = Some node"
  shows "config_inv (snd (publish_generation node g d reason DEFAULT_GENERATION_RETENTION s))"
proof (cases "publish_generation node g d reason DEFAULT_GENERATION_RETENTION s")
  case (Pair r t)
  show ?thesis
  proof (cases r)
    case (Inl e)
    then have "t = s" using Pair by (auto simp: publish_generation_def split: if_splits)
    then show ?thesis using Pair assms(1) by simp
  next
    case (Inr u)
    then show ?thesis using publish_views(5) [OF assms(2)] Pair assms(1) by simp
  qed
qed

interpretation configs: node_path keeps_config UNIV
proof
  fix s t u :: control and n row node d0 d reason
  show "keeps_config s s" "keeps_config s t \<Longrightarrow> keeps_config t u \<Longrightarrow> keeps_config s u"
    by (simp_all add: keeps_config_def)
  show "get_node n s = Some node \<Longrightarrow>
    keeps_config s (snd (publish_generation node (nr_generation node + 1) d reason DEFAULT_GENERATION_RETENTION s))"
    by (simp add: keeps_config_def config_inv_publish)
  show "keeps_config s (put_node row s)" if "get_node (nr_node_id row) s = Some node" "nr_dns_group_id row = nr_dns_group_id node"
  proof -
    have "node \<in> set (ct_nodes s)" using that(1) by (auto simp: get_node_def dest: row_get_SomeD)
    then show ?thesis using that(2) by (auto simp: keeps_config_def config_inv_def intro!: config_inv_put_node [unfolded config_inv_def])
  qed
  show "nr_dns_group_id row = None \<Longrightarrow> keeps_config s (put_node row s)"
    by (auto simp: keeps_config_def intro!: config_inv_put_node)
qed

lemma config_inv_delete:
  assumes "config_inv s"
  shows "config_inv (delete_cascade n s)"
proof -
  let ?t = "delete_cascade n s"
  let ?f = "\<lambda>p. if pe_remote_node_id p = Some n then p\<lparr>pe_remote_node_id := None\<rparr> else p"
  have pe: "keyed pe_id (ct_next_peering s) (ct_peerings s)" using assms by (simp add: config_inv_def)
  have peerings: "ct_peerings ?t = map ?f (filter (\<lambda>p. pe_local_node_id p \<noteq> n) (ct_peerings s))"
    by (simp add: delete_cascade_def Let_def)
  have keyed: "keyed pe_id (ct_next_peering s) (ct_peerings ?t)"
    unfolding peerings by (intro keyed_map keyed_filter pe) simp
  have home: "at_home ?t m pid" if hm: "at_home s m pid" "m \<noteq> n" for m pid
    unfolding home_defs
  proof (intro conjI allI impI)
    show "get_node m ?t \<noteq> None"
      using hm nodes.get_del [of m n s] by (simp add: home_defs delete_cascade_def Let_def get_node_def)
  next
    fix i assume "pid = Some i"
    then obtain p where p: "get_peering_row i s = Some p" "pe_local_node_id p = m" using hm(1) by (auto simp: home_defs)
    then have "p \<in> set (ct_peerings s)" "pe_id p = i" by (auto simp: get_peering_row_def dest: row_get_SomeD)
    then have "?f p \<in> set (ct_peerings ?t)" "pe_id (?f p) = i" "pe_local_node_id (?f p) = m"
      using p(2) hm(2) by (auto simp: peerings)
    then show "\<exists>p. get_peering_row i ?t = Some p \<and> pe_local_node_id p = m"
      using keyed_get [OF keyed] unfolding get_peering_row_def by metis
  qed
  have nodes: "set (ct_nodes ?t) \<subseteq> set (ct_nodes s)" by (auto simp: delete_cascade_def Let_def del_node_def set_row_del)
  have rest: "ct_wg ?t = filter (\<lambda>r. wg_node_id r \<noteq> n \<and> \<not> (case wg_peering_id r of None \<Rightarrow> False
       | Some k \<Rightarrow> k \<in> set (map pe_id (filter (\<lambda>p. pe_local_node_id p = n) (ct_peerings s))))) (ct_wg s)"
    "ct_bgp ?t = filter (\<lambda>r. bg_node_id r \<noteq> n \<and> \<not> (case bg_peering_id r of None \<Rightarrow> False
       | Some k \<Rightarrow> k \<in> set (map pe_id (filter (\<lambda>p. pe_local_node_id p = n) (ct_peerings s))))) (ct_bgp s)"
    "ct_next_wg ?t = ct_next_wg s" "ct_next_bgp ?t = ct_next_bgp s" "ct_next_peering ?t = ct_next_peering s"
    "ct_next_group ?t = ct_next_group s" "ct_next_zone ?t = ct_next_zone s" "ct_next_record ?t = ct_next_record s"
    "ct_dns_groups ?t = ct_dns_groups s" "ct_dns_zones ?t = ct_dns_zones s" "ct_dns_records ?t = ct_dns_records s"
    by (simp_all add: delete_cascade_def Let_def del_node_def)
  show ?thesis
    using assms home nodes keyed unfolding config_inv_def rest by (auto simp: keyed_filter)
qed

lemma record_edits_inv:
  assumes "config_inv s"
  shows "update_record g z i p s = (Inr (x, ps, why), t) \<Longrightarrow> config_inv t"
    "delete_record g z i s = (Inr (y, ps, why), t) \<Longrightarrow> config_inv t"
proof -
  have step: "config_inv t" if "keyed gc_id (ct_next_record s) rows" "republished ns why (s\<lparr>ct_dns_records := rows\<rparr>) ps t" for rows ns
  proof -
    have "config_inv (s\<lparr>ct_dns_records := rows\<rparr>)" using assms that(1) by (simp add: config_inv_def)
    then show ?thesis using rematerialize_current that(2) unfolding republished_def by blast
  qed
  have k: "keyed gc_id (ct_next_record s) (ct_dns_records s)" using assms by (simp add: config_inv_def)
  show "config_inv t" if "update_record g z i p s = (Inr (x, ps, why), t)"
    using update_record_row [OF that] step [OF keyed_put [OF k]] dns_rows_below(3) [OF assms] by metis
  show "config_inv t" if "delete_record g z i s = (Inr (y, ps, why), t)"
    using that step [OF keyed_del [OF k]] by (auto simp: delete_record_def handler_Inr)
qed

lemma config_run_inv:
  assumes "config_inv s" "config_run op s = (Inr (u, ps, why), t)"
  shows "config_inv t"
proof (cases "announces op s")
  case True
  then show ?thesis using config_run_brought brought_served(1) assms by blast
next
  case False
  then show ?thesis
  proof (cases op)
    case (Update_Peering i patch)
    then show ?thesis using assms update_peering_edits edits_inv by (fastforce simp: published_by_Inr)
  next
    case (Delete_Peering i)
    then show ?thesis using assms delete_peering_inv by (auto simp: published_by_Inr)
  next
    case (Backfill n dry)
    then show ?thesis using assms backfill_edits [OF assms(1), of n dry] edits_inv False by (fastforce simp: published_by_Inr)
  next
    case (Update_Record g z i p)
    then show ?thesis using assms record_edits_inv(1) by (auto simp: published_by_Inr)
  next
    case (Delete_Record g z i)
    then show ?thesis using assms record_edits_inv(2) by auto
  qed simp_all
qed

lemma config_runs: "runs keeps_config (config_run op)"
proof (rule runsI)
  fix s r t
  assume run: "config_run op s = (r, t)"
  show "keeps_config s t"
    unfolding keeps_config_def
  proof
    assume inv: "config_inv s"
    show "config_inv t"
    proof (cases r)
      case (Inl e)
      then have "t = s" using run config_run_atomic [of op] unfolding atomic_def by blast
      then show ?thesis using inv by simp
    next
      case (Inr x)
      then show ?thesis using run inv config_run_inv by (cases x) auto
    qed
  qed
qed

interpretation configured: invariant_machine admin_step config_inv
proof
  fix s op
  assume "config_inv s"
  moreover have "runs keeps_config (admin_run op)"
    by (rule configs.runs_node_op) (simp_all add: config_runs keeps_config_def config_inv_delete)
  ultimately show "config_inv (admin_step s op)" by (simp add: admin_step_def runs_def keeps_config_def)
qed

lemma no_data_config: "config_inv no_data"
  by (simp add: config_inv_def no_data_def keyed_def)

text \<open>C4: what a node is served is what its tables say.  Take the database after any sequence of requests and an
  operation of the configuration API that announces its change: when it succeeds, every node it announces, and every
  node that was served what its tables give, is served what its tables give now.  When it raises, nothing has changed.\<close>

theorem configuration_is_served:
  assumes "announces op (foldl admin_step no_data ops)" "config_run op (foldl admin_step no_data ops) = (r, t)"
  shows "case r of
      Inl e \<Rightarrow> t = foldl admin_step no_data ops
    | Inr (u, ps, why) \<Rightarrow>
        \<forall>n. n \<in> fst ` set ps \<or> served_current n (foldl admin_step no_data ops) \<longrightarrow> served_current n t"
proof (cases r)
  case (Inl e)
  then show ?thesis using assms(2) config_run_atomic [of op] by (simp add: atomic_def)
next
  case (Inr x)
  obtain ps why where x: "x = ((), ps, why)" by (cases x) auto
  have inv: "config_inv (foldl admin_step no_data ops)" by (rule configured.run_inv [OF no_data_config])
  have "brought (foldl admin_step no_data ops) ps t"
    by (rule config_run_brought [OF inv assms(1)]) (use assms(2) Inr x in simp)
  then show ?thesis using brought_served(2) [OF _ inv] Inr x by auto
qed

end
