(* ===== verification/Provision_Rows.thy ===== *)
theory Provision_Rows
  imports Config_Handlers
begin

text \<open>
  The rows that provisioning a node writes: the interfaces and sessions of the state, in order, under the next numbers,
  and no others of the node.
\<close>

section \<open>Rows under the next numbers\<close>

fun interface_rows :: "string \<Rightarrow> int \<Rightarrow> (nat \<times> interface_spec) list \<Rightarrow> wg_row list" where
  "interface_rows n i [] = []"
| "interface_rows n i (x # xs) =
     \<lparr>wg_id = i, wg_node_id = n, wg_peering_id = None, wg_enabled = True, wg_spec = snd x, wg_sort_order = int (fst x)\<rparr>
     # interface_rows n (i + 1) xs"

fun session_rows :: "string \<Rightarrow> int \<Rightarrow> (nat \<times> bgp_session) list \<Rightarrow> bgp_row list" where
  "session_rows n i [] = []"
| "session_rows n i (x # xs) =
     \<lparr>bg_id = i, bg_node_id = n, bg_peering_id = None, bg_enabled = bgp_enabled (snd x), bg_spec = snd x,
      bg_sort_order = int (fst x)\<rparr>
     # session_rows n (i + 1) xs"

lemma keyed_snoc: "keyed key k rows \<Longrightarrow> key r = k \<Longrightarrow> row_put key r rows = rows @ [r] \<and> keyed key (k + 1) (rows @ [r])"
  using row_put_new [of key r rows] by (auto simp: keyed_new) (force simp: keyed_def)

text \<open>The additions succeed when no name is taken, and what they do when they succeed.\<close>

lemma add_interfaces:
  assumes "keyed wg_id (ct_next_wg s) (ct_wg s)"
  shows "each (add_interface n) xs s = (Inr (), t) \<Longrightarrow>
      t = s\<lparr>ct_next_wg := ct_next_wg s + int (length xs), ct_wg := ct_wg s @ interface_rows n (ct_next_wg s) xs\<rparr>"
    "distinct (map (\<lambda>x. if_name (snd x)) xs) \<Longrightarrow>
     \<forall>r\<in>set (ct_wg s). wg_node_id r = n \<longrightarrow> if_name (wg_spec r) \<notin> (\<lambda>x. if_name (snd x)) ` set xs \<Longrightarrow>
       \<exists>u. each (add_interface n) xs s = (Inr (), u)"
proof -
  let ?row = "\<lambda>s x. \<lparr>wg_id = ct_next_wg s, wg_node_id = n, wg_peering_id = None, wg_enabled = True, wg_spec = snd x,
    wg_sort_order = int (fst x)\<rparr>"
  let ?next = "\<lambda>s x. s\<lparr>ct_next_wg := ct_next_wg s + 1, ct_wg := ct_wg s @ [?row s x]\<rparr>"
  have keyed: "keyed wg_id (ct_next_wg (?next s x)) (ct_wg (?next s x))" if "keyed wg_id (ct_next_wg s) (ct_wg s)"
    for s :: control and x :: "nat \<times> interface_spec"
    using keyed_snoc [OF that, of "?row s x"] by simp
  have put: "row_put wg_id (?row s x) (ct_wg s) = ct_wg s @ [?row s x]" if "keyed wg_id (ct_next_wg s) (ct_wg s)"
    for s :: control and x :: "nat \<times> interface_spec"
    using keyed_snoc [OF that, of "?row s x"] by simp
  show "t = s\<lparr>ct_next_wg := ct_next_wg s + int (length xs), ct_wg := ct_wg s @ interface_rows n (ct_next_wg s) xs\<rparr>"
    if "each (add_interface n) xs s = (Inr (), t)"
    using assms that
  proof (induction xs arbitrary: s)
    case (Cons x xs)
    have "each (add_interface n) xs (?next s x) = (Inr (), t)"
      using Cons.prems put [of s x] by (auto simp: add_interface_Inr Let_def split: prod.splits sum.splits)
    then show ?case using Cons.IH [OF keyed [OF Cons.prems(1)]] by (simp add: ac_simps)
  qed simp
  show "\<exists>u. each (add_interface n) xs s = (Inr (), u)"
    if "distinct (map (\<lambda>x. if_name (snd x)) xs)"
      "\<forall>r\<in>set (ct_wg s). wg_node_id r = n \<longrightarrow> if_name (wg_spec r) \<notin> (\<lambda>x. if_name (snd x)) ` set xs"
    using assms that
  proof (induction xs arbitrary: s)
    case (Cons x xs)
    have "add_interface n x s = (Inr (), ?next s x)"
      using Cons.prems put [of s x] by (auto simp: add_interface_Inr Let_def wg_clash_def list_ex_iff)
    moreover have "\<exists>u. each (add_interface n) xs (?next s x) = (Inr (), u)"
      by (rule Cons.IH [OF keyed [OF Cons.prems(1)]]) (use Cons.prems in auto)
    ultimately show ?case by simp
  qed simp
qed

lemma add_sessions:
  assumes "keyed bg_id (ct_next_bgp s) (ct_bgp s)"
  shows "each (add_session n) xs s = (Inr (), t) \<Longrightarrow>
      t = s\<lparr>ct_next_bgp := ct_next_bgp s + int (length xs), ct_bgp := ct_bgp s @ session_rows n (ct_next_bgp s) xs\<rparr>"
    "distinct (map (\<lambda>x. bgp_name (snd x)) xs) \<Longrightarrow>
     \<forall>r\<in>set (ct_bgp s). bg_node_id r = n \<longrightarrow> bgp_name (bg_spec r) \<notin> (\<lambda>x. bgp_name (snd x)) ` set xs \<Longrightarrow>
       \<exists>u. each (add_session n) xs s = (Inr (), u)"
proof -
  let ?row = "\<lambda>s x. \<lparr>bg_id = ct_next_bgp s, bg_node_id = n, bg_peering_id = None, bg_enabled = bgp_enabled (snd x),
    bg_spec = snd x, bg_sort_order = int (fst x)\<rparr>"
  let ?next = "\<lambda>s x. s\<lparr>ct_next_bgp := ct_next_bgp s + 1, ct_bgp := ct_bgp s @ [?row s x]\<rparr>"
  have keyed: "keyed bg_id (ct_next_bgp (?next s x)) (ct_bgp (?next s x))" if "keyed bg_id (ct_next_bgp s) (ct_bgp s)"
    for s :: control and x :: "nat \<times> bgp_session"
    using keyed_snoc [OF that, of "?row s x"] by simp
  have put: "row_put bg_id (?row s x) (ct_bgp s) = ct_bgp s @ [?row s x]" if "keyed bg_id (ct_next_bgp s) (ct_bgp s)"
    for s :: control and x :: "nat \<times> bgp_session"
    using keyed_snoc [OF that, of "?row s x"] by simp
  show "t = s\<lparr>ct_next_bgp := ct_next_bgp s + int (length xs), ct_bgp := ct_bgp s @ session_rows n (ct_next_bgp s) xs\<rparr>"
    if "each (add_session n) xs s = (Inr (), t)"
    using assms that
  proof (induction xs arbitrary: s)
    case (Cons x xs)
    have "each (add_session n) xs (?next s x) = (Inr (), t)"
      using Cons.prems put [of s x] by (auto simp: add_session_Inr Let_def split: prod.splits sum.splits)
    then show ?case using Cons.IH [OF keyed [OF Cons.prems(1)]] by (simp add: ac_simps)
  qed simp
  show "\<exists>u. each (add_session n) xs s = (Inr (), u)"
    if "distinct (map (\<lambda>x. bgp_name (snd x)) xs)"
      "\<forall>r\<in>set (ct_bgp s). bg_node_id r = n \<longrightarrow> bgp_name (bg_spec r) \<notin> (\<lambda>x. bgp_name (snd x)) ` set xs"
    using assms that
  proof (induction xs arbitrary: s)
    case (Cons x xs)
    have "add_session n x s = (Inr (), ?next s x)"
      using Cons.prems put [of s x] by (auto simp: add_session_Inr Let_def bgp_clash_def list_ex_iff)
    moreover have "\<exists>u. each (add_session n) xs (?next s x) = (Inr (), u)"
      by (rule Cons.IH [OF keyed [OF Cons.prems(1)]]) (use Cons.prems in auto)
    ultimately show ?case by simp
  qed simp
qed

section \<open>The state of the tables\<close>

lemma provisioned_empty:
  assumes "config_inv s" "put_provisioned d s = (Inr x, t)"
  shows "\<forall>r\<in>set (ct_wg t). wg_node_id r \<noteq> nd_node_id (ds_node d)" "\<forall>r\<in>set (ct_bgp t). bg_node_id r \<noteq> nd_node_id (ds_node d)"
    "set (ct_wg t) \<subseteq> set (ct_wg s)"
  using assms(2)
proof (atomize (full), cases rule: put_provisioned_cases)
  case 1
  then show "(\<forall>r\<in>set (ct_wg t). wg_node_id r \<noteq> nd_node_id (ds_node d)) \<and>
      (\<forall>r\<in>set (ct_bgp t). bg_node_id r \<noteq> nd_node_id (ds_node d)) \<and> set (ct_wg t) \<subseteq> set (ct_wg s)"
    using assms(1) by (auto simp: put_node_def config_inv_def at_home_def)
next
  case (2 r)
  then show "(\<forall>r\<in>set (ct_wg t). wg_node_id r \<noteq> nd_node_id (ds_node d)) \<and>
      (\<forall>r\<in>set (ct_bgp t). bg_node_id r \<noteq> nd_node_id (ds_node d)) \<and> set (ct_wg t) \<subseteq> set (ct_wg s)"
    by (auto simp: put_node_def delete_children_def)
qed

lemma add_children_rows:
  assumes "config_inv s"
  shows "add_children d s = (Inr (), t) \<Longrightarrow>
      t = s\<lparr>ct_next_wg := ct_next_wg s + int (length (ds_interfaces d)),
            ct_wg := ct_wg s @ interface_rows (nd_node_id (ds_node d)) (ct_next_wg s) (enumerate 0 (ds_interfaces d)),
            ct_next_bgp := ct_next_bgp s + int (length (ds_bgp_sessions d)),
            ct_bgp := ct_bgp s @ session_rows (nd_node_id (ds_node d)) (ct_next_bgp s) (enumerate 0 (ds_bgp_sessions d))\<rparr>"
    "distinct (map if_name (ds_interfaces d)) \<Longrightarrow> distinct (map bgp_name (ds_bgp_sessions d)) \<Longrightarrow>
     \<forall>r\<in>set (ct_wg s). wg_node_id r \<noteq> nd_node_id (ds_node d) \<Longrightarrow>
     \<forall>r\<in>set (ct_bgp s). bg_node_id r \<noteq> nd_node_id (ds_node d) \<Longrightarrow> \<exists>u. add_children d s = (Inr (), u)"
proof -
  let ?n = "nd_node_id (ds_node d)" and ?is = "enumerate 0 (ds_interfaces d)" and ?bs = "enumerate 0 (ds_bgp_sessions d)"
  have k: "keyed wg_id (ct_next_wg s) (ct_wg s)" "keyed bg_id (ct_next_bgp s) (ct_bgp s)"
    using assms by (simp_all add: config_inv_def)
  let ?u = "s\<lparr>ct_next_wg := ct_next_wg s + int (length ?is), ct_wg := ct_wg s @ interface_rows ?n (ct_next_wg s) ?is\<rparr>"
  have k': "keyed bg_id (ct_next_bgp ?u) (ct_bgp ?u)" using k(2) by simp
  show "t = s\<lparr>ct_next_wg := ct_next_wg s + int (length (ds_interfaces d)),
            ct_wg := ct_wg s @ interface_rows ?n (ct_next_wg s) ?is,
            ct_next_bgp := ct_next_bgp s + int (length (ds_bgp_sessions d)),
            ct_bgp := ct_bgp s @ session_rows ?n (ct_next_bgp s) ?bs\<rparr>"
    if run: "add_children d s = (Inr (), t)"
  proof -
    obtain u where u: "each (add_interface ?n) ?is s = (Inr (), u)" "each (add_session ?n) ?bs u = (Inr (), t)"
      using run by (auto simp: add_children_def Let_def seq_Inr)
    have "u = ?u" by (rule add_interfaces(1) [OF k(1) u(1)])
    then show ?thesis using add_sessions(1) [OF k' u(2) [unfolded \<open>u = ?u\<close>]] by simp
  qed
  show "\<exists>u. add_children d s = (Inr (), u)"
    if free: "distinct (map if_name (ds_interfaces d))" "distinct (map bgp_name (ds_bgp_sessions d))"
      "\<forall>r\<in>set (ct_wg s). wg_node_id r \<noteq> ?n" "\<forall>r\<in>set (ct_bgp s). bg_node_id r \<noteq> ?n"
  proof -
    have names: "map (\<lambda>x. if_name (snd x)) ?is = map if_name (ds_interfaces d)"
      "map (\<lambda>x. bgp_name (snd x)) ?bs = map bgp_name (ds_bgp_sessions d)"
      by (simp_all add: map_map [of _ snd, unfolded comp_def, symmetric] del: map_map)
    obtain u where u: "each (add_interface ?n) ?is s = (Inr (), u)"
      using add_interfaces(2) [OF k(1), of ?is ?n] free(1,3) names(1) by auto
    have "u = ?u" by (rule add_interfaces(1) [OF k(1) u])
    moreover have "\<exists>v. each (add_session ?n) ?bs ?u = (Inr (), v)"
      using add_sessions(2) [OF k', of ?bs ?n] free(2,4) names(2) by auto
    ultimately show ?thesis using u by (auto simp: add_children_def Let_def seq_def)
  qed
qed

end
