(* ===== verification/Listen_Ports.thy ===== *)
theory Listen_Ports
  imports Configuration Provision_Rows
begin

text \<open>
  No two enabled WireGuard interfaces of a node listen on the same port: the port policy is checked wherever an
  interface is written, against the row that is about to be replaced.
\<close>

section \<open>The invariant\<close>

text \<open>The port an enabled WireGuard interface listens on.\<close>

definition listens :: "wg_row \<Rightarrow> int option" where
  "listens r =
     (if wg_enabled r
      then case validate_interface (wg_spec r) of
          Inl _ \<Rightarrow> None | Inr x \<Rightarrow> if if_kind x = WIREGUARD then if_listen_port x else None
      else None)"

definition listen_once :: "control \<Rightarrow> bool" where
  "listen_once s \<longleftrightarrow>
     (\<forall>a\<in>set (ct_wg s). \<forall>b\<in>set (ct_wg s).
        wg_node_id a = wg_node_id b \<and> listens a = listens b \<and> listens a \<noteq> None \<longrightarrow> wg_id a = wg_id b)"

lemma listen_once_cong: "ct_wg t = ct_wg s \<Longrightarrow> listen_once s \<Longrightarrow> listen_once t"
  by (simp add: listen_once_def)

lemma listen_once_subset: "set (ct_wg t) \<subseteq> set (ct_wg s) \<Longrightarrow> listen_once s \<Longrightarrow> listen_once t"
  unfolding listen_once_def by blast

lemma validated_interface: "validate_interface x = Inr y \<Longrightarrow> y = x"
  by (simp only: validate_interface_def checks_Inr)

lemma validated_spec: "validate_iface_spec x = Inr y \<Longrightarrow> y = x \<and> validate_interface y = Inr y"
  using validated_interface by (auto simp: validate_iface_spec_def as_422_def split: sum.splits)

lemma policy_free:
  assumes "policy_holds n spec e current s" "validate_interface spec = Inr spec" "wg_spec r = spec" "wg_enabled r = e"
    and "b \<in> set (ct_wg s)" "wg_node_id b = n" "current \<noteq> Some (wg_id b)" "listens r \<noteq> None"
  shows "listens b \<noteq> listens r"
proof -
  obtain port where r: "e" "if_kind spec = WIREGUARD" "if_listen_port spec = Some port" "listens r = Some port"
    using assms(2-4,8) by (auto simp: listens_def split: if_splits)
  have "find (port_taken n (Some port) current) (ct_wg s) = None"
    using assms(1) r
    by (auto simp: policy_holds_def validate_wireguard_port_policy_def with_node_def seq_def
        split: option.splits sum.splits prod.splits)
  then have "\<not> port_taken n (Some port) current b" using assms(5) by (auto simp: find_None_iff)
  then show ?thesis using assms(6,7) r(4) by (auto simp: port_taken_def listens_def split: sum.splits if_splits)
qed

lemma listen_put:
  assumes "listen_once s" "policy_holds (wg_node_id r) (wg_spec r) (wg_enabled r) current s"
    and "validate_interface (wg_spec r) = Inr (wg_spec r)" "current = Some (wg_id r) \<or> current = None"
  shows "listen_once (s\<lparr>ct_wg := row_put wg_id r (ct_wg s)\<rparr>)"
proof -
  have free: "listens b \<noteq> listens r"
    if "b \<in> set (ct_wg s)" "wg_node_id b = wg_node_id r" "wg_id b \<noteq> wg_id r" "listens r \<noteq> None" for b
    using policy_free [OF assms(2,3) _ _ that(1,2) _ that(4)] assms(4) that(3) by auto
  show ?thesis
    unfolding listen_once_def
  proof (intro ballI impI)
    fix a b
    assume "a \<in> set (ct_wg (s\<lparr>ct_wg := row_put wg_id r (ct_wg s)\<rparr>))" "b \<in> set (ct_wg (s\<lparr>ct_wg := row_put wg_id r (ct_wg s)\<rparr>))"
      and eq: "wg_node_id a = wg_node_id b \<and> listens a = listens b \<and> listens a \<noteq> None"
    then have "a = r \<or> a \<in> set (ct_wg s)" "b = r \<or> b \<in> set (ct_wg s)"
      using set_row_put [of wg_id r "ct_wg s"] by auto
    then show "wg_id a = wg_id b"
      using assms(1) eq free [of a] free [of b] unfolding listen_once_def by metis
  qed
qed

section \<open>Publishing and the other tables\<close>

lemma rematerialize_wg: "rematerialize ns reason s = (Inr ps, t) \<Longrightarrow> ct_wg t = ct_wg s"
proof (induction ns arbitrary: s ps)
  case (Cons n ns)
  obtain d u rest where u: "materialize_change n reason s = (Inr d, u)" "rematerialize ns reason u = (Inr rest, t)"
    using Cons.prems by (auto simp: seq_Inr)
  obtain node g why where "get_node n s = Some node"
    "publish_generation node g d why DEFAULT_GENERATION_RETENTION s = (Inr (), u)"
    using materialize_change_Inr [OF u(1)] by (fastforce simp: materialize_def seq_Inr Let_def split: option.splits)
  then have "u = s\<lparr>ct_nodes := ct_nodes u, ct_generations := ct_generations u\<rparr>" by (rule publish_effects(2))
  then have "ct_wg u = ct_wg s" by (metis control.select_convs(4) control.surjective control.update_convs(1,2))
  then show ?case using Cons.IH [OF u(2)] by simp
qed simp

lemma republished_wg: "republished ns reason u ps t \<Longrightarrow> ct_wg t = ct_wg u"
  unfolding republished_def by (rule rematerialize_wg)

lemma unassign_wg: "ct_wg (foldl (\<lambda>s n. unassign n s) s ns) = ct_wg s"
  by (induction ns arbitrary: s) (auto simp: unassign_def put_node_def split: option.split)

lemma other_tables_wg:
  "create_session n p1 s = (Inr (x1, ps, why), t) \<Longrightarrow> ct_wg t = ct_wg s"
  "delete_session i s = (Inr (x3, ps, why), t) \<Longrightarrow> ct_wg t = ct_wg s"
  "create_peering n p4 s = (Inr x4, t) \<Longrightarrow> ct_wg t = ct_wg s"
  "create_group p5 s = (Inr x5, t) \<Longrightarrow> ct_wg t = ct_wg s"
  "update_group g p6 s = (Inr (x6, ps, why), t) \<Longrightarrow> ct_wg t = ct_wg s"
  "delete_group g s = (Inr (x7, ps, why), t) \<Longrightarrow> ct_wg t = ct_wg s"
  "create_zone g p8 s = (Inr (x8, ps, why), t) \<Longrightarrow> ct_wg t = ct_wg s"
  "update_zone g z p9 s = (Inr (x9, ps, why), t) \<Longrightarrow> ct_wg t = ct_wg s"
  "delete_zone g z s = (Inr (x10, ps, why), t) \<Longrightarrow> ct_wg t = ct_wg s"
  "create_record g z p11 s = (Inr (x11, ps, why), t) \<Longrightarrow> ct_wg t = ct_wg s"
  "delete_record g z i s = (Inr (x13, ps, why), t) \<Longrightarrow> ct_wg t = ct_wg s"
  by (auto simp: create_session_def delete_session_def create_peering_def insert_peering_def create_group_def update_group_def
      delete_group_def create_zone_def update_zone_def delete_zone_def create_record_def delete_record_def handler_Inr
      zone_name_Inr unassign_wg drop_group_def republished_def [symmetric] dest!: republished_wg split: option.splits)

section \<open>Handlers that write interfaces\<close>

lemma create_interface_listen:
  assumes "listen_once s" "create_interface n p s = (Inr (x, ps, why), t)"
  shows "listen_once t"
proof -
  let ?row = "\<lambda>spec. \<lparr>wg_id = ct_next_wg s, wg_node_id = n, wg_peering_id = ii_peering_id p,
    wg_enabled = ii_enabled p, wg_spec = spec, wg_sort_order = ii_sort_order p\<rparr>"
  obtain spec where spec: "validate_iface_spec (ii_spec p) = Inr spec" "policy_holds n spec (ii_enabled p) None s"
    "republished [n] why (s\<lparr>ct_next_wg := ct_next_wg s + 1, ct_wg := row_put wg_id (?row spec) (ct_wg s)\<rparr>) ps t"
    using assms(2) by (auto simp: create_interface_def handler_Inr)
  have "listen_once (s\<lparr>ct_wg := row_put wg_id (?row spec) (ct_wg s)\<rparr>)"
    by (rule listen_put [OF assms(1), where current = None]) (use spec(1,2) validated_spec in auto)
  then show ?thesis by (rule listen_once_cong [rotated]) (use republished_wg [OF spec(3)] in simp)
qed

lemma update_interface_listen:
  assumes "listen_once s" "update_interface i p s = (Inr (x, ps, why), t)"
  shows "listen_once t"
proof -
  obtain r where r: "get_wg i s = Some r" using assms(2) by (auto simp: update_interface_def handler_Inr split: option.splits)
  have i: "wg_id r = i" using r by (auto simp: get_wg_def dest: row_get_SomeD)
  let ?row = "\<lambda>new_spec. r\<lparr>wg_peering_id := moved_peering (ip_clear_peering p) (ip_peering_id p) (wg_peering_id r),
    wg_spec := or_default (wg_spec r) new_spec, wg_enabled := or_default (wg_enabled r) (ip_enabled p),
    wg_sort_order := or_default (wg_sort_order r) (ip_sort_order p)\<rparr>"
  obtain new_spec spec where spec: "case ip_spec p of None \<Rightarrow> new_spec = None | Some x \<Rightarrow> \<exists>z. validate_iface_spec x = Inr z \<and> new_spec = Some z"
    "case new_spec of None \<Rightarrow> validate_interface (wg_spec r) = Inr spec | Some x \<Rightarrow> spec = x"
    "policy_holds (wg_node_id r) spec (or_default (wg_enabled r) (ip_enabled p)) (Some i) s"
    "republished [wg_node_id r] why (s\<lparr>ct_wg := row_put wg_id (?row new_spec) (ct_wg s)\<rparr>) ps t"
    using assms(2) r by (auto simp: update_interface_def handler_Inr)
  have v: "or_default (wg_spec r) new_spec = spec" "validate_interface spec = Inr spec"
    using spec(1,2) validated_spec validated_interface
    by (auto simp: or_default_def split: option.splits)
  have "listen_once (s\<lparr>ct_wg := row_put wg_id (?row new_spec) (ct_wg s)\<rparr>)"
    by (rule listen_put [OF assms(1), where current = "Some i"]) (use spec(3) v i in simp_all)
  then show ?thesis by (rule listen_once_cong [rotated]) (use republished_wg [OF spec(4)] in simp)
qed

lemma delete_interface_listen:
  assumes "listen_once s" "delete_interface i s = (Inr (x, ps, why), t)"
  shows "listen_once t"
  by (rule listen_once_subset [OF _ assms(1)])
     (use assms(2) in \<open>auto simp: delete_interface_def handler_Inr set_row_del dest!: republished_wg split: option.splits\<close>)

lemma put_interface_listen:
  assumes "listen_once s" "validate_interface (fi_spec e) = Inr (fi_spec e)" "put_interface n pid e s = (Inr x, t)"
  shows "listen_once t"
proof (cases "named_wg n (if_name (fi_spec e)) s")
  case None
  let ?row = "\<lparr>wg_id = ct_next_wg s, wg_node_id = n, wg_peering_id = Some pid, wg_enabled = fi_enabled e,
    wg_spec = fi_spec e, wg_sort_order = fi_sort_order e\<rparr>"
  have t: "policy_holds n (fi_spec e) (fi_enabled e) None s" "ct_wg t = row_put wg_id ?row (ct_wg s)"
    using assms(3) None by (auto simp: put_interface_def write_interface_def handler_Inr)
  have "listen_once (s\<lparr>ct_wg := row_put wg_id ?row (ct_wg s)\<rparr>)"
    by (rule listen_put [OF assms(1), where current = None]) (use t assms(2) in simp_all)
  then show ?thesis by (rule listen_once_cong [rotated]) (simp add: t)
next
  case (Some r)
  let ?row = "r\<lparr>wg_peering_id := Some pid, wg_spec := fi_spec e, wg_enabled := fi_enabled e,
    wg_sort_order := fi_sort_order e\<rparr>"
  have t: "policy_holds n (fi_spec e) (fi_enabled e) (Some (wg_id r)) s" "ct_wg t = row_put wg_id ?row (ct_wg s)"
    using assms(3) Some by (auto simp: put_interface_def write_interface_def handler_Inr)
  have "wg_node_id r = n" using Some by (auto simp: named_wg_def find_Some_iff)
  then have "listen_once (s\<lparr>ct_wg := row_put wg_id ?row (ct_wg s)\<rparr>)"
    by (intro listen_put [OF assms(1), where current = "Some (wg_id r)"]) (use t assms(2) in simp_all)
  then show ?thesis by (rule listen_once_cong [rotated]) (simp add: t)
qed

lemma each_keeps_in:
  assumes "each f xs s = (Inr (), t)" "P s" "\<And>x t u. x \<in> set xs \<Longrightarrow> P t \<Longrightarrow> f x t = (Inr (), u) \<Longrightarrow> P u"
  shows "P t"
  using assms
proof (induction xs arbitrary: s)
  case (Cons x xs)
  obtain u where u: "f x s = (Inr (), u)" "each f xs u = (Inr (), t)"
    using Cons.prems(1) by (auto split: prod.splits sum.splits)
  have "P u" by (rule Cons.prems(3) [OF _ Cons.prems(2) u(1)]) simp
  then show ?case by (rule Cons.IH [OF u(2)]) (use Cons.prems(3) in auto)
qed simp

lemma upsert_peering_wg: "upsert_peering n p s = (Inr pid, t) \<Longrightarrow> ct_wg t = ct_wg s"
  by (auto simp: upsert_peering_def handler_Inr split: option.splits)

lemma insert_peering_wg: "insert_peering n p s = (Inr r, t) \<Longrightarrow> ct_wg t = ct_wg s \<and> get_node m t = get_node m s"
  by (auto simp: insert_peering_def handler_Inr get_node_def)

lemma write_session_wg: "write_session n pid e s = (Inr x, t) \<Longrightarrow> ct_wg t = ct_wg s"
  by (auto simp: write_session_def handler_Inr split: option.splits)

lemma validated_entries:
  assumes "rmap (\<lambda>i. rbind (validate_iface_spec (fi_spec i)) (\<lambda>x. Inr (i\<lparr>fi_spec := x\<rparr>))) xs = Inr ys" "e \<in> set ys"
  shows "validate_interface (fi_spec e) = Inr (fi_spec e)"
  using assms
  by (induction xs arbitrary: ys) (auto simp: rbind_Inr_iff dest!: validated_spec)

lemma put_peering_full_listen:
  assumes "listen_once s" "put_peering_full n p s = (Inr (x, ps, why), t)"
  shows "listen_once t"
proof -
  obtain ifaces pid u1 names u2 sessions names' u3 where u:
    "rmap (\<lambda>i. rbind (validate_iface_spec (fi_spec i)) (\<lambda>x. Inr (i\<lparr>fi_spec := x\<rparr>))) (fu_interfaces p) = Inr ifaces"
    "upsert_peering n (fu_peering p) s = (Inr pid, u1)"
    "each (put_interface n pid) ifaces (prune_interfaces pid names u1) = (Inr (), u2)"
    "each (write_session n pid) sessions (prune_sessions pid names' u2) = (Inr (), u3)"
    "republished [n] why u3 ps t"
    using assms(2) by (auto simp: put_peering_full_def handler_Inr)
  have "listen_once (prune_interfaces pid names u1)"
    by (rule listen_once_subset [OF _ assms(1)]) (use upsert_peering_wg [OF u(2)] in \<open>auto simp: prune_interfaces_def\<close>)
  then have "listen_once u2"
    using each_keeps_in [where P = listen_once, OF u(3)] put_interface_listen validated_entries [OF u(1)] by blast
  moreover have "ct_wg u3 = ct_wg u2"
    by (rule each_keeps [where P = "\<lambda>v. ct_wg v = ct_wg u2", OF u(4)])
       (simp_all add: prune_sessions_def write_session_wg)
  ultimately show ?thesis using republished_wg [OF u(5)] listen_once_cong by metis
qed

lemma provision_peering_listen:
  assumes "listen_once s" "provision_peering n p s = (Inr (x, ps, why), t)"
  shows "listen_once t"
proof -
  let ?row = "\<lambda>u r spec. \<lparr>wg_id = ct_next_wg u, wg_node_id = n, wg_peering_id = Some (pe_id r), wg_enabled = vi_interface_enabled p,
    wg_spec = spec, wg_sort_order = vi_interface_sort_order p\<rparr>"
  have "\<exists>spec r u. validate_iface_spec (vi_interface_spec p) = Inr spec \<and> insert_peering n (vi_peering p) s = (Inr r, u) \<and>
      policy_holds n spec (vi_interface_enabled p) None u \<and> ct_wg t = row_put wg_id (?row u r spec) (ct_wg u)"
    using assms(2)
    by (cases "vi_bgp_spec p") (fastforce simp: provision_peering_def handler_Inr dest!: republished_wg)+
  then obtain spec r u where u: "validate_iface_spec (vi_interface_spec p) = Inr spec" "insert_peering n (vi_peering p) s = (Inr r, u)"
    "policy_holds n spec (vi_interface_enabled p) None u" "ct_wg t = row_put wg_id (?row u r spec) (ct_wg u)"
    by metis
  have "listen_once u" by (rule listen_once_cong [OF _ assms(1)]) (use insert_peering_wg [OF u(2)] in simp)
  then have "listen_once (u\<lparr>ct_wg := row_put wg_id (?row u r spec) (ct_wg u)\<rparr>)"
    by (rule listen_put [where current = None]) (use u(1,3) validated_spec in auto)
  then show ?thesis by (rule listen_once_cong [rotated]) (simp add: u(4))
qed

text \<open>Claiming rows for a peering moves nothing that listens.\<close>

lemma listen_map:
  assumes "\<And>r. listens (f r) = listens r" "\<And>r. wg_node_id (f r) = wg_node_id r" "\<And>r. wg_id (f r) = wg_id r"
    and "listen_once s" "ct_wg t = map f (ct_wg s)"
  shows "listen_once t"
  using assms unfolding listen_once_def by auto

lemma claim_listen: "listen_once s \<Longrightarrow> listen_once (claim_children pid p s)"
  by (erule listen_map [rotated 3, where f = "\<lambda>r. if wg_id r \<in> set (pp_interface_ids p) then r\<lparr>wg_peering_id := Some pid\<rparr> else r"])
     (simp_all add: listens_def claim_children_def)

lemma apply_plans_listen: "apply_plans n ps s = (Inr x, t) \<Longrightarrow> listen_once s \<Longrightarrow> listen_once t"
proof (induction ps arbitrary: s x)
  case (Cons p ps)
  let ?u = "s\<lparr>ct_next_peering := ct_next_peering s + 1, ct_peerings :=
    row_put pe_id (new_peering (ct_next_peering s) n (planned_row n p)) (ct_peerings s)\<rparr>"
  obtain y where rest: "apply_plans n ps (claim_children (ct_next_peering s) p ?u) = (Inr y, t)"
    using Cons.prems(1) by (auto simp: handler_Inr)
  have "listen_once ?u" by (rule listen_once_cong [OF _ Cons.prems(2)]) simp
  then show ?case using Cons.IH [OF rest] claim_listen by blast
qed simp

lemma backfill_listen:
  assumes "listen_once s" "backfill_node_peerings n dry s = (Inr x, t)"
  shows "listen_once t"
  using assms apply_plans_listen
  by (cases dry) (auto simp: backfill_node_peerings_def backfill_peerings_def handler_Inr split: option.splits)

text \<open>A validated state has each port once, and provisioning leaves no other interface on the node.\<close>

lemma interface_rows_listen:
  assumes "r \<in> set (interface_rows n i xs)" "listens r = Some p"
  shows "p \<in> fst ` set (wireguard_ports (map snd xs))"
proof -
  have "wg_spec r \<in> set (map snd xs)"
    using assms(1) by (induction n i xs rule: interface_rows.induct) auto
  then have "set (wireguard_ports [wg_spec r]) \<subseteq> set (wireguard_ports (map snd xs))" by (auto simp: wireguard_ports_def)
  moreover have "p \<in> fst ` set (wireguard_ports [wg_spec r])"
    using assms(2) by (auto simp: listens_def wireguard_ports_def dest!: validated_interface split: sum.splits if_splits)
  ultimately show ?thesis by blast
qed

lemma interface_rows_once:
  assumes "distinct (map fst (wireguard_ports (map snd xs)))" "a \<in> set (interface_rows n i xs)" "b \<in> set (interface_rows n i xs)"
    and "listens a = Some p" "listens b = Some p"
  shows "wg_id a = wg_id b"
  using assms
proof (induction n i xs rule: interface_rows.induct)
  case (2 n i x xs)
  let ?r = "\<lparr>wg_id = i, wg_node_id = n, wg_peering_id = None, wg_enabled = True, wg_spec = snd x, wg_sort_order = int (fst x)\<rparr>"
  have split: "wireguard_ports (map snd (x # xs)) = wireguard_ports [snd x] @ wireguard_ports (map snd xs)"
    by (simp add: wireguard_ports_def)
  have one: "p \<in> fst ` set (wireguard_ports [snd x])" if "listens ?r = Some p"
    using interface_rows_listen [of ?r n i "[x]" p] that by simp
  have apart: "p \<notin> fst ` set (wireguard_ports (map snd xs))" if "listens ?r = Some p"
    using one [OF that] 2(2) unfolding split by auto
  have tail: "distinct (map fst (wireguard_ports (map snd xs)))" using 2(2) unfolding split by simp
  show ?case
    using 2(1) [OF tail] 2(3-6) apart interface_rows_listen [of _ n "i + 1" xs p] by (metis interface_rows.simps(2) set_ConsD)
qed simp

lemma interface_rows_node: "r \<in> set (interface_rows n i xs) \<Longrightarrow> wg_node_id r = n"
  by (induction n i xs rule: interface_rows.induct) auto

lemma provision_node_listen:
  assumes "config_inv s" "listen_once s" "provision_node h raw None s = (Inr (x, ps, why), t)"
  shows "listen_once t"
proof -
  obtain d u v where d: "model_validate_state raw = Inr d" "put_provisioned d s = (Inr (), u)" "add_children d u = (Inr (), v)"
    "republished [nd_node_id (ds_node d)] ''admin provision'' v ps t"
    using provision_node_Inr [OF assms(3)] by metis
  let ?n = "nd_node_id (ds_node d)"
  note e = provisioned_empty [OF assms(1) d(2)]
  have inv: "config_inv u" using put_provisioned_edits [OF d(2) assms(1)] by (simp add: on_node_def)
  let ?new = "interface_rows ?n (ct_next_wg u) (enumerate 0 (ds_interfaces d))"
  have wg: "ct_wg t = ct_wg u @ ?new"
    using republished_wg [OF d(4)] add_children_rows(1) [OF inv d(3)] by simp
  have "ports_ok d" using model_validate_wf [OF d(1)] by (simp add: wf_state_def)
  then have ports: "distinct (map fst (wireguard_ports (map snd (enumerate 0 (ds_interfaces d)))))"
    by (simp add: ports_ok_def)
  have old: "listen_once u" by (rule listen_once_subset [OF e(3) assms(2)])
  show ?thesis
    unfolding listen_once_def wg
  proof (intro ballI impI)
    fix a b
    assume ab: "a \<in> set (ct_wg u @ ?new)" "b \<in> set (ct_wg u @ ?new)"
      "wg_node_id a = wg_node_id b \<and> listens a = listens b \<and> listens a \<noteq> None"
    then obtain p where "listens a = Some p" by blast
    then have p: "listens a = Some p" "listens b = Some p" using ab(3) by simp_all
    consider "a \<in> set (ct_wg u)" "b \<in> set (ct_wg u)" | "a \<in> set ?new" "b \<in> set ?new"
      using ab e(1) interface_rows_node by (metis Un_iff set_append)
    then show "wg_id a = wg_id b"
    proof cases
      case 1
      then show ?thesis using old ab(3) unfolding listen_once_def by blast
    next
      case 2
      then show ?thesis by (rule interface_rows_once [OF ports _ _ p])
    qed
  qed
qed

lemma config_run_listen:
  assumes "config_inv s" "listen_once s" "config_run op s = (Inr (u, ps, why), t)"
  shows "listen_once t"
proof (cases op)
  case (Update_Session i p)
  then have run: "\<exists>x. update_session i p s = (Inr (x, ps, why), t)" using assms(3) by (simp add: published_by_Inr)
  have "ct_wg t = ct_wg s"
    using run by (auto simp: update_session_def handler_Inr dest!: republished_wg split: option.splits)
  then show ?thesis by (rule listen_once_cong [OF _ assms(2)])
next
  case (Update_Peering i patch)
  then have "ct_wg t = ct_wg s"
    using assms(3) by (auto simp: published_by_Inr update_peering_def handler_Inr dest!: patch_checks_state)
  then show ?thesis by (rule listen_once_cong [OF _ assms(2)])
next
  case (Delete_Peering i)
  then have "set (ct_wg t) \<subseteq> set (ct_wg s)" using assms(3) by (auto simp: published_by_Inr delete_peering_eq)
  then show ?thesis by (rule listen_once_subset [OF _ assms(2)])
next
  case (Update_Record g z i p)
  then obtain x where "update_record g z i p s = (Inr (x, ps, why), t)" using assms(3) by (auto simp: published_by_Inr)
  then obtain row where "republished (member_ids g s) why (s\<lparr>ct_dns_records := row_put gc_id row (ct_dns_records s)\<rparr>) ps t"
    by (metis update_record_row)
  then have "ct_wg t = ct_wg s" by (auto dest: republished_wg)
  then show ?thesis by (rule listen_once_cong [OF _ assms(2)])
next
  case (Assign_Group n gid)
  then have "ct_wg t = ct_wg s"
    using assms(3)
    by (auto simp: published_by_Inr assign_node_group_def handler_Inr put_node_def dest!: republished_wg split: option.splits)
  then show ?thesis by (rule listen_once_cong [OF _ assms(2)])
next
  case (Provision_State d)
  then show ?thesis using assms provision_node_listen by (auto simp: published_by_Inr)
qed (use assms(2,3) in \<open>auto simp: published_by_Inr intro: create_interface_listen update_interface_listen delete_interface_listen
      provision_peering_listen put_peering_full_listen backfill_listen dest!: other_tables_wg intro: listen_once_cong\<close>)

section \<open>All requests\<close>

definition keeps_listen :: "control \<Rightarrow> control \<Rightarrow> bool" where
  "keeps_listen s t \<longleftrightarrow> (listen_once s \<longrightarrow> listen_once t)"

lemma publish_listen: "keeps_listen s (snd (publish_generation node g d reason keep s))"
  unfolding keeps_listen_def
  by (auto simp: publish_generation_def Let_def put_node_def elim!: listen_once_cong [rotated] split: if_splits)

interpretation listening: node_path keeps_listen UNIV
proof
  fix s t u :: control and n row node d0 d reason
  show "keeps_listen s s" "keeps_listen s t \<Longrightarrow> keeps_listen t u \<Longrightarrow> keeps_listen s u"
    by (simp_all add: keeps_listen_def)
  show "keeps_listen s (snd (publish_generation node (nr_generation node + 1) d reason DEFAULT_GENERATION_RETENTION s))"
    by (rule publish_listen)
  show "keeps_listen s (put_node row s)" "keeps_listen s (put_node row s)"
    by (auto simp: keeps_listen_def put_node_def elim: listen_once_cong [rotated])
qed

lemma delete_listen: "keeps_listen s (delete_cascade n s)"
  unfolding keeps_listen_def by (auto simp: delete_cascade_def Let_def elim!: listen_once_subset [rotated])

definition ports_inv :: "control \<Rightarrow> bool" where
  "ports_inv s \<longleftrightarrow> config_inv s \<and> listen_once s"

interpretation ports: invariant_machine admin_step ports_inv
proof
  fix s op
  assume inv: "ports_inv s"
  have "listen_once (snd (admin_run op s))"
  proof (cases "\<exists>c. op = Configure c")
    case True
    then obtain c where c: "op = Configure c" by blast
    obtain r t where run: "config_run c s = (r, t)" by fastforce
    have "listen_once t"
    proof (cases r)
      case (Inl e)
      then have "t = s" using run config_run_atomic [of c] unfolding atomic_def by blast
      then show ?thesis using inv by (simp add: ports_inv_def)
    next
      case (Inr x)
      then show ?thesis using run inv config_run_listen by (cases x) (auto simp: ports_inv_def)
    qed
    then show ?thesis using run by (cases r) (simp_all add: c unit_of_def seq_def)
  next
    case False
    have "runs keeps_listen (admin_run op)"
      by (rule listening.runs_node_op) (use False delete_listen in auto)
    then show ?thesis using inv by (simp add: runs_def keeps_listen_def ports_inv_def)
  qed
  then show "ports_inv (admin_step s op)"
    using configured.step_inv [of s op] inv by (simp add: ports_inv_def admin_step_def)
qed

text \<open>C8: listen ports are never shared.  After any sequence of requests, two enabled WireGuard interfaces of one node
  that listen on the same port are the same row, whichever handler wrote them.\<close>

theorem listen_ports_unique:
  assumes "a \<in> set (ct_wg (foldl admin_step no_data ops))" "b \<in> set (ct_wg (foldl admin_step no_data ops))"
    and "wg_node_id a = wg_node_id b" "listens a = Some port" "listens b = Some port"
  shows "a = b"
proof -
  let ?s = "foldl admin_step no_data ops"
  have "ports_inv no_data" using no_data_config by (simp add: ports_inv_def listen_once_def no_data_def)
  then have inv: "ports_inv ?s" by (rule ports.run_inv)
  then have "wg_id a = wg_id b" using assms unfolding ports_inv_def listen_once_def by (metis option.distinct(1))
  then show ?thesis
    using inv assms(1,2) unfolding ports_inv_def config_inv_def keyed_def by (metis distinct_map inj_onD)
qed

end
