(* ===== verification/Full_Replacement.thy ===== *)
theory Full_Replacement
  imports Listen_Ports
begin

text \<open>
  \<open>put\_peering\_full\<close> makes the peering exactly what the request says: its own row, its interfaces and its sessions,
  whatever was there before.
\<close>

section \<open>Upserts in a table with a second, unique key\<close>

text \<open>Exactly one row has the name, and it is as wanted.\<close>

definition upserted :: "('r \<Rightarrow> 'k option) \<Rightarrow> ('r \<Rightarrow> bool) \<Rightarrow> 'k \<Rightarrow> 'r list \<Rightarrow> bool" where
  "upserted nm ok k rows \<longleftrightarrow> (\<exists>x\<in>set rows. nm x = Some k \<and> ok x) \<and> (\<forall>x\<in>set rows. nm x = Some k \<longrightarrow> ok x)"

lemma row_put_keeps: "x \<in> set rows \<Longrightarrow> key x \<noteq> key r \<Longrightarrow> x \<in> set (row_put key r rows)"
  by (induction key r rows rule: row_put.induct) auto

lemma upsert_settles:
  assumes "distinct (map key (row_put key r rows))" "nm r = Some k" "ok r"
    and "\<And>x. x \<in> set rows \<Longrightarrow> key x \<noteq> key r \<Longrightarrow> nm x \<noteq> nm r"
  shows "upserted nm ok k (row_put key r rows)"
proof -
  have "x = r" if x: "x \<in> set (row_put key r rows)" "nm x = Some k" for x
  proof (rule ccontr)
    assume "x \<noteq> r"
    then have "x \<in> set rows" using x(1) set_row_put [of key r rows] by auto
    then have "key x = key r" using assms(2,4) x(2) by metis
    then show False using assms(1) x(1) row_put_mem [of r key rows] \<open>x \<noteq> r\<close> by (metis distinct_map inj_onD)
  qed
  then show ?thesis using assms(2,3) row_put_mem [of r key rows] by (auto simp: upserted_def)
qed

lemma upsert_keeps_settled:
  assumes "upserted nm ok k rows" "nm r \<noteq> Some k" "\<And>x. x \<in> set rows \<Longrightarrow> key x = key r \<Longrightarrow> nm x = nm r"
  shows "upserted nm ok k (row_put key r rows)"
proof -
  obtain x where x: "x \<in> set rows" "nm x = Some k" "ok x" using assms(1) by (auto simp: upserted_def)
  then have "x \<in> set (row_put key r rows)" using row_put_keeps assms(2,3) by metis
  moreover have "y \<in> set rows" if "y \<in> set (row_put key r rows)" "nm y = Some k" for y
    using that assms(2) set_row_put [of key r rows] by auto
  ultimately show ?thesis using assms(1) x unfolding upserted_def by blast
qed

section \<open>The children of a peering\<close>

definition wg_name :: "string \<Rightarrow> wg_row \<Rightarrow> string option" where
  "wg_name n r = (if wg_node_id r = n then Some (if_name (wg_spec r)) else None)"

definition bgp_row_name :: "string \<Rightarrow> bgp_row \<Rightarrow> string option" where
  "bgp_row_name n r = (if bg_node_id r = n then Some (bgp_name (bg_spec r)) else None)"

definition wg_matches :: "int \<Rightarrow> full_iface \<Rightarrow> wg_row \<Rightarrow> bool" where
  "wg_matches pid e r \<longleftrightarrow>
     wg_peering_id r = Some pid \<and> wg_spec r = fi_spec e \<and> wg_enabled r = fi_enabled e \<and> wg_sort_order r = fi_sort_order e"

definition bgp_matches :: "int \<Rightarrow> full_bgp \<Rightarrow> bgp_row \<Rightarrow> bool" where
  "bgp_matches pid e r \<longleftrightarrow>
     bg_peering_id r = Some pid \<and> bg_spec r = fb_spec e \<and> bg_enabled r = bgp_enabled (fb_spec e) \<and>
     bg_sort_order r = fb_sort_order e"

text \<open>The row that is written has the name of the entry; it takes the number of the row that had it, or a new one.\<close>

lemma put_interface_row:
  assumes "config_inv s" "put_interface n pid e s = (Inr x, t)"
  obtains r where "ct_wg t = row_put wg_id r (ct_wg s)" "wg_name n r = Some (if_name (fi_spec e))" "wg_matches pid e r"
    "\<And>y. y \<in> set (ct_wg s) \<Longrightarrow> wg_id y = wg_id r \<longleftrightarrow> wg_name n y = wg_name n r"
    "ct_peerings t = ct_peerings s"
proof (cases "named_wg n (if_name (fi_spec e)) s")
  case None
  let ?row = "\<lparr>wg_id = ct_next_wg s, wg_node_id = n, wg_peering_id = Some pid, wg_enabled = fi_enabled e,
    wg_spec = fi_spec e, wg_sort_order = fi_sort_order e\<rparr>"
  have t: "ct_wg t = row_put wg_id ?row (ct_wg s)" "ct_peerings t = ct_peerings s"
    using assms(2) None by (auto simp: put_interface_def write_interface_def handler_Inr)
  have "wg_name n y \<noteq> wg_name n ?row \<and> wg_id y \<noteq> wg_id ?row" if "y \<in> set (ct_wg s)" for y
    using None assms(1) that by (auto simp: named_wg_def find_None_iff wg_name_def config_inv_def keyed_def)
  then show thesis by (intro that [of ?row] t) (auto simp: wg_name_def wg_matches_def)
next
  case (Some r)
  let ?row = "r\<lparr>wg_peering_id := Some pid, wg_spec := fi_spec e, wg_enabled := fi_enabled e, wg_sort_order := fi_sort_order e\<rparr>"
  have t: "ct_wg t = row_put wg_id ?row (ct_wg s)" "ct_peerings t = ct_peerings s" "\<not> wg_clash ?row s"
    using assms(2) Some by (auto simp: put_interface_def write_interface_def handler_Inr)
  have r: "r \<in> set (ct_wg s)" "wg_node_id r = n" "if_name (wg_spec r) = if_name (fi_spec e)"
    using Some by (auto simp: named_wg_def find_Some_iff)
  have inj: "inj_on wg_id (set (ct_wg s))" using assms(1) by (simp add: config_inv_def keyed_def distinct_map)
  have "wg_id y = wg_id ?row \<longleftrightarrow> wg_name n y = wg_name n ?row" if y: "y \<in> set (ct_wg s)" for y
  proof
    assume "wg_id y = wg_id ?row"
    then have "y = r" using inj_onD [OF inj _ y r(1)] by simp
    then show "wg_name n y = wg_name n ?row" using r by (simp add: wg_name_def)
  next
    assume "wg_name n y = wg_name n ?row"
    then show "wg_id y = wg_id ?row" using t(3) y r by (auto simp: wg_name_def wg_clash_def list_ex_iff split: if_splits)
  qed
  then show thesis by (intro that [of ?row] t) (use r in \<open>auto simp: wg_name_def wg_matches_def\<close>)
qed

lemma write_session_row:
  assumes "config_inv s" "write_session n pid e s = (Inr x, t)"
  obtains r where "ct_bgp t = row_put bg_id r (ct_bgp s)" "bgp_row_name n r = Some (bgp_name (fb_spec e))" "bgp_matches pid e r"
    "\<And>y. y \<in> set (ct_bgp s) \<Longrightarrow> bg_id y = bg_id r \<longleftrightarrow> bgp_row_name n y = bgp_row_name n r"
    "ct_peerings t = ct_peerings s"
proof (cases "named_bgp n (bgp_name (fb_spec e)) s")
  case None
  let ?row = "\<lparr>bg_id = ct_next_bgp s, bg_node_id = n, bg_peering_id = Some pid, bg_enabled = bgp_enabled (fb_spec e),
    bg_spec = fb_spec e, bg_sort_order = fb_sort_order e\<rparr>"
  have t: "ct_bgp t = row_put bg_id ?row (ct_bgp s)" "ct_peerings t = ct_peerings s"
    using assms(2) None by (auto simp: write_session_def apply_bgp_spec_def handler_Inr)
  have "bgp_row_name n y \<noteq> bgp_row_name n ?row \<and> bg_id y \<noteq> bg_id ?row" if "y \<in> set (ct_bgp s)" for y
    using None assms(1) that by (auto simp: named_bgp_def find_None_iff bgp_row_name_def config_inv_def keyed_def)
  then show thesis by (intro that [of ?row] t) (auto simp: bgp_row_name_def bgp_matches_def)
next
  case (Some r)
  let ?row = "r\<lparr>bg_spec := fb_spec e, bg_enabled := bgp_enabled (fb_spec e), bg_peering_id := Some pid,
    bg_sort_order := fb_sort_order e\<rparr>"
  have t: "ct_bgp t = row_put bg_id ?row (ct_bgp s)" "ct_peerings t = ct_peerings s" "\<not> bgp_clash ?row s"
    using assms(2) Some by (auto simp: write_session_def apply_bgp_spec_def handler_Inr)
  have r: "r \<in> set (ct_bgp s)" "bg_node_id r = n" "bgp_name (bg_spec r) = bgp_name (fb_spec e)"
    using Some by (auto simp: named_bgp_def find_Some_iff)
  have inj: "inj_on bg_id (set (ct_bgp s))" using assms(1) by (simp add: config_inv_def keyed_def distinct_map)
  have "bg_id y = bg_id ?row \<longleftrightarrow> bgp_row_name n y = bgp_row_name n ?row" if y: "y \<in> set (ct_bgp s)" for y
  proof
    assume "bg_id y = bg_id ?row"
    then have "y = r" using inj_onD [OF inj _ y r(1)] by simp
    then show "bgp_row_name n y = bgp_row_name n ?row" using r by (simp add: bgp_row_name_def)
  next
    assume "bgp_row_name n y = bgp_row_name n ?row"
    then show "bg_id y = bg_id ?row" using t(3) y r by (auto simp: bgp_row_name_def bgp_clash_def list_ex_iff split: if_splits)
  qed
  then show thesis by (intro that [of ?row] t) (use r in \<open>auto simp: bgp_row_name_def bgp_matches_def\<close>)
qed

section \<open>All entries\<close>

lemma put_interfaces_settle:
  assumes "each (put_interface n pid) es s = (Inr (), t)" "part_of n pid s0 s" "distinct (map (\<lambda>e. if_name (fi_spec e)) es)"
  shows "(\<forall>e\<in>set es. upserted (wg_name n) (wg_matches pid e) (if_name (fi_spec e)) (ct_wg t)) \<and>
    (\<forall>k ok. k \<notin> (\<lambda>e. if_name (fi_spec e)) ` set es \<longrightarrow> upserted (wg_name n) ok k (ct_wg s) \<longrightarrow> upserted (wg_name n) ok k (ct_wg t)) \<and>
    (\<forall>r\<in>set (ct_wg t). r \<in> set (ct_wg s) \<or> if_name (wg_spec r) \<in> (\<lambda>e. if_name (fi_spec e)) ` set es) \<and>
    ct_peerings t = ct_peerings s \<and> part_of n pid s0 t"
  using assms
proof (induction es arbitrary: s)
  case (Cons e es)
  obtain u where u: "put_interface n pid e s = (Inr (), u)" "each (put_interface n pid) es u = (Inr (), t)"
    using Cons.prems(1) by (auto split: prod.splits sum.splits)
  have part: "part_of n pid s0 u" by (rule put_interface_part [OF Cons.prems(2) u(1)])
  have inv: "config_inv s" "config_inv u" using Cons.prems(2) part by (simp_all add: part_of_def)
  obtain r where r: "ct_wg u = row_put wg_id r (ct_wg s)" "wg_name n r = Some (if_name (fi_spec e))" "wg_matches pid e r"
    "\<And>y. y \<in> set (ct_wg s) \<Longrightarrow> wg_id y = wg_id r \<longleftrightarrow> wg_name n y = wg_name n r" "ct_peerings u = ct_peerings s"
    using put_interface_row [OF inv(1) u(1)] by metis
  have d: "distinct (map wg_id (row_put wg_id r (ct_wg s)))" using inv(2) r(1) by (simp add: config_inv_def keyed_def)
  note d' = Cons.prems(3) [unfolded list.map distinct.simps list.set_map]
  note IH = Cons.IH [OF u(2) part d' [THEN conjunct2]]
  have e: "upserted (wg_name n) (wg_matches pid e) (if_name (fi_spec e)) (ct_wg u)"
    unfolding r(1) by (rule upsert_settles [where key = wg_id, OF d]) (use r(2-4) in auto)
  have keep: "upserted (wg_name n) ok k (ct_wg u)"
    if "upserted (wg_name n) ok k (ct_wg s)" "k \<noteq> if_name (fi_spec e)" for ok k
    unfolding r(1) by (rule upsert_keeps_settled [OF that(1)]) (use that(2) r(2,4) in auto)
  have new: "x \<in> set (ct_wg s) \<or> if_name (wg_spec x) = if_name (fi_spec e)" if "x \<in> set (ct_wg u)" for x
    using that r(1,3) set_row_put [of wg_id r "ct_wg s"] by (auto simp: wg_matches_def)
  show ?case
  proof (intro conjI)
    show "\<forall>d\<in>set (e # es). upserted (wg_name n) (wg_matches pid d) (if_name (fi_spec d)) (ct_wg t)"
      using IH [THEN conjunct1] IH [THEN conjunct2, THEN conjunct1] e d' [THEN conjunct1] by simp
    show "\<forall>k ok. k \<notin> (\<lambda>e. if_name (fi_spec e)) ` set (e # es) \<longrightarrow> upserted (wg_name n) ok k (ct_wg s) \<longrightarrow> upserted (wg_name n) ok k (ct_wg t)"
      using IH [THEN conjunct2, THEN conjunct1] keep by simp
    show "\<forall>r\<in>set (ct_wg t). r \<in> set (ct_wg s) \<or> if_name (wg_spec r) \<in> (\<lambda>e. if_name (fi_spec e)) ` set (e # es)"
      using IH [THEN conjunct2, THEN conjunct2, THEN conjunct1] new by auto
  qed (use IH r(5) in simp_all)
qed simp

lemma write_sessions_settle:
  assumes "each (write_session n pid) es s = (Inr (), t)" "part_of n pid s0 s" "distinct (map (\<lambda>e. bgp_name (fb_spec e)) es)"
  shows "(\<forall>e\<in>set es. upserted (bgp_row_name n) (bgp_matches pid e) (bgp_name (fb_spec e)) (ct_bgp t)) \<and>
    (\<forall>k ok. k \<notin> (\<lambda>e. bgp_name (fb_spec e)) ` set es \<longrightarrow> upserted (bgp_row_name n) ok k (ct_bgp s) \<longrightarrow>
       upserted (bgp_row_name n) ok k (ct_bgp t)) \<and>
    (\<forall>r\<in>set (ct_bgp t). r \<in> set (ct_bgp s) \<or> bgp_name (bg_spec r) \<in> (\<lambda>e. bgp_name (fb_spec e)) ` set es) \<and>
    ct_peerings t = ct_peerings s \<and> part_of n pid s0 t"
  using assms
proof (induction es arbitrary: s)
  case (Cons e es)
  obtain u where u: "write_session n pid e s = (Inr (), u)" "each (write_session n pid) es u = (Inr (), t)"
    using Cons.prems(1) by (auto split: prod.splits sum.splits)
  have part: "part_of n pid s0 u" by (rule write_session_part [OF Cons.prems(2) u(1)])
  have inv: "config_inv s" "config_inv u" using Cons.prems(2) part by (simp_all add: part_of_def)
  obtain r where r: "ct_bgp u = row_put bg_id r (ct_bgp s)" "bgp_row_name n r = Some (bgp_name (fb_spec e))" "bgp_matches pid e r"
    "\<And>y. y \<in> set (ct_bgp s) \<Longrightarrow> bg_id y = bg_id r \<longleftrightarrow> bgp_row_name n y = bgp_row_name n r" "ct_peerings u = ct_peerings s"
    using write_session_row [OF inv(1) u(1)] by metis
  have d: "distinct (map bg_id (row_put bg_id r (ct_bgp s)))" using inv(2) r(1) by (simp add: config_inv_def keyed_def)
  note d' = Cons.prems(3) [unfolded list.map distinct.simps list.set_map]
  note IH = Cons.IH [OF u(2) part d' [THEN conjunct2]]
  have e: "upserted (bgp_row_name n) (bgp_matches pid e) (bgp_name (fb_spec e)) (ct_bgp u)"
    unfolding r(1) by (rule upsert_settles [where key = bg_id, OF d]) (use r(2-4) in auto)
  have keep: "upserted (bgp_row_name n) ok k (ct_bgp u)"
    if "upserted (bgp_row_name n) ok k (ct_bgp s)" "k \<noteq> bgp_name (fb_spec e)" for ok k
    unfolding r(1) by (rule upsert_keeps_settled [OF that(1)]) (use that(2) r(2,4) in auto)
  have new: "x \<in> set (ct_bgp s) \<or> bgp_name (bg_spec x) = bgp_name (fb_spec e)" if "x \<in> set (ct_bgp u)" for x
    using that r(1,3) set_row_put [of bg_id r "ct_bgp s"] by (auto simp: bgp_matches_def)
  show ?case
  proof (intro conjI)
    show "\<forall>d\<in>set (e # es). upserted (bgp_row_name n) (bgp_matches pid d) (bgp_name (fb_spec d)) (ct_bgp t)"
      using IH [THEN conjunct1] IH [THEN conjunct2, THEN conjunct1] e d' [THEN conjunct1] by simp
    show "\<forall>k ok. k \<notin> (\<lambda>e. bgp_name (fb_spec e)) ` set (e # es) \<longrightarrow> upserted (bgp_row_name n) ok k (ct_bgp s) \<longrightarrow> upserted (bgp_row_name n) ok k (ct_bgp t)"
      using IH [THEN conjunct2, THEN conjunct1] keep by simp
    show "\<forall>r\<in>set (ct_bgp t). r \<in> set (ct_bgp s) \<or> bgp_name (bg_spec r) \<in> (\<lambda>e. bgp_name (fb_spec e)) ` set (e # es)"
      using IH [THEN conjunct2, THEN conjunct2, THEN conjunct1] new by auto
  qed (use IH r(5) in simp_all)
qed simp

section \<open>The result\<close>

lemma rematerialize_frame:
  "rematerialize ns reason s = (Inr ps, t) \<Longrightarrow> t = s\<lparr>ct_nodes := ct_nodes t, ct_generations := ct_generations t\<rparr>"
proof (induction ns arbitrary: s ps)
  case (Cons n ns)
  obtain d u rest where u: "materialize_change n reason s = (Inr d, u)" "rematerialize ns reason u = (Inr rest, t)"
    using Cons.prems by (auto simp: seq_Inr)
  obtain node g why where "get_node n s = Some node"
    "publish_generation node g d why DEFAULT_GENERATION_RETENTION s = (Inr (), u)"
    using materialize_change_Inr [OF u(1)] by (fastforce simp: materialize_def seq_Inr Let_def split: option.splits)
  then have "u = s\<lparr>ct_nodes := ct_nodes u, ct_generations := ct_generations u\<rparr>" by (rule publish_effects(2))
  moreover have "t = u\<lparr>ct_nodes := ct_nodes t, ct_generations := ct_generations t\<rparr>" by (rule Cons.IH [OF u(2)])
  ultimately show ?case by (metis (no_types, lifting) control.surjective control.update_convs(1,2))
qed simp

lemma republished_tables:
  assumes "republished ns reason u ps t"
  shows "ct_wg t = ct_wg u" "ct_bgp t = ct_bgp u" "ct_peerings t = ct_peerings u"
  using rematerialize_frame [of ns reason u ps t] assms unfolding republished_def
  by (metis (no_types, lifting) control.select_convs(3,4,5) control.surjective control.update_convs(1,2))+

lemma validated_bgp: "validate_bgp_spec x = Inr y \<Longrightarrow> y = x"
proof -
  assume "validate_bgp_spec x = Inr y"
  then have "validate_bgp_session x = Inr y" by (simp add: validate_bgp_spec_def as_422_def split: sum.splits)
  then show "y = x"
    by (auto simp: validate_bgp_session_def validate_neighbor_def Let_def rbind_Inr_iff checks_Inr
        simp del: checks.simps split: prod.splits)
qed

lemma validated_payload:
  "rmap (\<lambda>i. rbind (validate_iface_spec (fi_spec i)) (\<lambda>x. Inr (i\<lparr>fi_spec := x\<rparr>))) xs = Inr ys \<Longrightarrow> ys = xs"
  "rmap (\<lambda>b. rbind (validate_bgp_spec (fb_spec b)) (\<lambda>x. Inr (b\<lparr>fb_spec := x\<rparr>))) bs = Inr cs \<Longrightarrow> cs = bs"
  by (induction xs arbitrary: ys, auto simp: rbind_Inr_iff dest!: validated_spec)
     (induction bs arbitrary: cs, auto simp: rbind_Inr_iff dest!: validated_bgp)

lemma upsert_peering_row:
  assumes "upsert_peering n p s = (Inr pid, t)"
  shows "get_peering_row pid t = Some (new_peering pid n p)"
  using assms
  by (auto simp: upsert_peering_def handler_Inr get_peering_row_def row_get_put new_peering_def split: option.splits)

lemma part_home:
  assumes "part_of n pid s t"
  shows "r \<in> set (ct_wg t) \<Longrightarrow> wg_peering_id r = Some pid \<Longrightarrow> wg_node_id r = n"
    "b \<in> set (ct_bgp t) \<Longrightarrow> bg_peering_id b = Some pid \<Longrightarrow> bg_node_id b = n"
  using assms by (fastforce simp: part_of_def config_inv_def home_defs)+

lemma wg_children:
  assumes "part_of n pid s t" "\<forall>e\<in>set es. upserted (wg_name n) (wg_matches pid e) (if_name (fi_spec e)) (ct_wg t)"
    and "\<forall>r\<in>set (ct_wg t). wg_peering_id r = Some pid \<longrightarrow> if_name (wg_spec r) \<in> (\<lambda>e. if_name (fi_spec e)) ` set es"
  shows "(\<lambda>r. (wg_node_id r, wg_spec r, wg_enabled r, wg_sort_order r)) ` {r \<in> set (ct_wg t). wg_peering_id r = Some pid} =
         (\<lambda>e. (n, fi_spec e, fi_enabled e, fi_sort_order e)) ` set es"
proof (intro set_eqI iffI)
  fix y assume "y \<in> (\<lambda>r. (wg_node_id r, wg_spec r, wg_enabled r, wg_sort_order r)) ` {r \<in> set (ct_wg t). wg_peering_id r = Some pid}"
  then obtain r where r: "r \<in> set (ct_wg t)" "wg_peering_id r = Some pid"
    "y = (wg_node_id r, wg_spec r, wg_enabled r, wg_sort_order r)" by auto
  then obtain e where e: "e \<in> set es" "if_name (wg_spec r) = if_name (fi_spec e)" using assms(3) by auto
  have n: "wg_node_id r = n" by (rule part_home(1) [OF assms(1) r(1,2)])
  then have "wg_matches pid e r" using assms(2) e r(1) by (auto simp: upserted_def wg_name_def)
  then show "y \<in> (\<lambda>e. (n, fi_spec e, fi_enabled e, fi_sort_order e)) ` set es" using e(1) r(3) n by (auto simp: wg_matches_def)
next
  fix y assume "y \<in> (\<lambda>e. (n, fi_spec e, fi_enabled e, fi_sort_order e)) ` set es"
  then obtain e where e: "e \<in> set es" "y = (n, fi_spec e, fi_enabled e, fi_sort_order e)" by auto
  then obtain r where r: "r \<in> set (ct_wg t)" "wg_matches pid e r" using assms(2) by (auto simp: upserted_def)
  have "wg_node_id r = n" using part_home(1) [OF assms(1) r(1)] r(2) by (simp add: wg_matches_def)
  then show "y \<in> (\<lambda>r. (wg_node_id r, wg_spec r, wg_enabled r, wg_sort_order r)) ` {r \<in> set (ct_wg t). wg_peering_id r = Some pid}"
    using e(2) r by (force simp: wg_matches_def)
qed

lemma bgp_children:
  assumes "part_of n pid s t" "\<forall>e\<in>set es. upserted (bgp_row_name n) (bgp_matches pid e) (bgp_name (fb_spec e)) (ct_bgp t)"
    and "\<forall>r\<in>set (ct_bgp t). bg_peering_id r = Some pid \<longrightarrow> bgp_name (bg_spec r) \<in> (\<lambda>e. bgp_name (fb_spec e)) ` set es"
  shows "(\<lambda>r. (bg_node_id r, bg_spec r, bg_enabled r, bg_sort_order r)) ` {r \<in> set (ct_bgp t). bg_peering_id r = Some pid} =
         (\<lambda>e. (n, fb_spec e, bgp_enabled (fb_spec e), fb_sort_order e)) ` set es"
proof (intro set_eqI iffI)
  fix y assume "y \<in> (\<lambda>r. (bg_node_id r, bg_spec r, bg_enabled r, bg_sort_order r)) ` {r \<in> set (ct_bgp t). bg_peering_id r = Some pid}"
  then obtain r where r: "r \<in> set (ct_bgp t)" "bg_peering_id r = Some pid"
    "y = (bg_node_id r, bg_spec r, bg_enabled r, bg_sort_order r)" by auto
  then obtain e where e: "e \<in> set es" "bgp_name (bg_spec r) = bgp_name (fb_spec e)" using assms(3) by auto
  have n: "bg_node_id r = n" by (rule part_home(2) [OF assms(1) r(1,2)])
  then have "bgp_matches pid e r" using assms(2) e r(1) by (auto simp: upserted_def bgp_row_name_def)
  then show "y \<in> (\<lambda>e. (n, fb_spec e, bgp_enabled (fb_spec e), fb_sort_order e)) ` set es"
    using e(1) r(3) n by (auto simp: bgp_matches_def)
next
  fix y assume "y \<in> (\<lambda>e. (n, fb_spec e, bgp_enabled (fb_spec e), fb_sort_order e)) ` set es"
  then obtain e where e: "e \<in> set es" "y = (n, fb_spec e, bgp_enabled (fb_spec e), fb_sort_order e)" by auto
  then obtain r where r: "r \<in> set (ct_bgp t)" "bgp_matches pid e r" using assms(2) by (auto simp: upserted_def)
  have "bg_node_id r = n" using part_home(2) [OF assms(1) r(1)] r(2) by (simp add: bgp_matches_def)
  then show "y \<in> (\<lambda>r. (bg_node_id r, bg_spec r, bg_enabled r, bg_sort_order r)) ` {r \<in> set (ct_bgp t). bg_peering_id r = Some pid}"
    using e(2) r by (force simp: bgp_matches_def)
qed

lemma prune_frame:
  "ct_peerings (prune_interfaces pid names s) = ct_peerings s" "ct_peerings (prune_sessions pid names s) = ct_peerings s"
  "ct_wg (prune_sessions pid names s) = ct_wg s"
  "r \<in> set (ct_wg (prune_interfaces pid names s)) \<Longrightarrow> wg_peering_id r = Some pid \<Longrightarrow> if_name (wg_spec r) \<in> set names"
  "b \<in> set (ct_bgp (prune_sessions pid names s)) \<Longrightarrow> bg_peering_id b = Some pid \<Longrightarrow> bgp_name (bg_spec b) \<in> set names"
  by (auto simp: prune_interfaces_def prune_sessions_def)

text \<open>C9: the full replacement leaves exactly what was asked for.  After any sequence of requests, when the replacement of
  a peering succeeds for a payload without duplicate names, the peering has the payload's fields, and the interfaces and
  the sessions that hang on it are those of the payload, field by field, on the node, and no others.\<close>

theorem full_replacement_exact:
  assumes "put_peering_full n p (foldl admin_step no_data ops) = (Inr (pid, ps, why), t)"
    and "distinct (map (\<lambda>e. if_name (fi_spec e)) (fu_interfaces p))" "distinct (map (\<lambda>e. bgp_name (fb_spec e)) (fu_sessions p))"
  shows "get_peering_row pid t = Some (new_peering pid n (fu_peering p)) \<and>
    (\<lambda>r. (wg_node_id r, wg_spec r, wg_enabled r, wg_sort_order r)) ` {r \<in> set (ct_wg t). wg_peering_id r = Some pid} =
      (\<lambda>e. (n, fi_spec e, fi_enabled e, fi_sort_order e)) ` set (fu_interfaces p) \<and>
    (\<lambda>r. (bg_node_id r, bg_spec r, bg_enabled r, bg_sort_order r)) ` {r \<in> set (ct_bgp t). bg_peering_id r = Some pid} =
      (\<lambda>e. (n, fb_spec e, bgp_enabled (fb_spec e), fb_sort_order e)) ` set (fu_sessions p)"
proof -
  let ?s = "foldl admin_step no_data ops"
  have inv: "config_inv ?s" by (rule configured.run_inv [OF no_data_config])
  let ?in = "map (\<lambda>i. if_name (fi_spec i))" and ?bn = "map (\<lambda>b. bgp_name (fb_spec b))"
  obtain ifaces sessions u1 u2 u3 where u:
    "rmap (\<lambda>i. rbind (validate_iface_spec (fi_spec i)) (\<lambda>x. Inr (i\<lparr>fi_spec := x\<rparr>))) (fu_interfaces p) = Inr ifaces"
    "rmap (\<lambda>b. rbind (validate_bgp_spec (fb_spec b)) (\<lambda>x. Inr (b\<lparr>fb_spec := x\<rparr>))) (fu_sessions p) = Inr sessions"
    "upsert_peering n (fu_peering p) ?s = (Inr pid, u1)"
    "each (put_interface n pid) ifaces (prune_interfaces pid (?in ifaces) u1) = (Inr (), u2)"
    "each (write_session n pid) sessions (prune_sessions pid (?bn sessions) u2) = (Inr (), u3)"
    "republished [n] why u3 ps t" "get_node n ?s \<noteq> None"
    using assms(1) by (auto simp: put_peering_full_def handler_Inr)
  have payload: "ifaces = fu_interfaces p" "sessions = fu_sessions p"
    using validated_payload(1) [OF u(1)] validated_payload(2) [OF u(2)] by auto
  have p1: "part_of n pid ?s u1" by (rule upsert_peering_part [OF inv u(3,7)])
  note w = put_interfaces_settle [OF u(4) prune_parts(1) [OF p1], unfolded payload, OF assms(2)]
  then have p2: "part_of n pid ?s u2" by blast
  note b = write_sessions_settle [OF u(5) prune_parts(2) [OF p2], unfolded payload, OF assms(3)]
  then have p3: "part_of n pid ?s u3" by blast
  have wg3: "ct_wg u3 = ct_wg u2"
    by (rule each_keeps [where P = "\<lambda>v. ct_wg v = ct_wg u2", OF u(5)]) (simp_all add: prune_frame(3) write_session_wg)
  have names: "\<forall>r\<in>set (ct_wg u2). wg_peering_id r = Some pid \<longrightarrow> if_name (wg_spec r) \<in> (\<lambda>e. if_name (fi_spec e)) ` set (fu_interfaces p)"
  proof (intro ballI impI)
    fix r assume r: "r \<in> set (ct_wg u2)" "wg_peering_id r = Some pid"
    from w [THEN conjunct2, THEN conjunct2, THEN conjunct1] r(1)
    show "if_name (wg_spec r) \<in> (\<lambda>e. if_name (fi_spec e)) ` set (fu_interfaces p)"
      using prune_frame(4) [OF _ r(2), where names = "?in (fu_interfaces p)" and s = u1] by auto
  qed
  have bnames: "\<forall>r\<in>set (ct_bgp u3). bg_peering_id r = Some pid \<longrightarrow> bgp_name (bg_spec r) \<in> (\<lambda>e. bgp_name (fb_spec e)) ` set (fu_sessions p)"
  proof (intro ballI impI)
    fix r assume r: "r \<in> set (ct_bgp u3)" "bg_peering_id r = Some pid"
    from b [THEN conjunct2, THEN conjunct2, THEN conjunct1] r(1)
    show "bgp_name (bg_spec r) \<in> (\<lambda>e. bgp_name (fb_spec e)) ` set (fu_sessions p)"
      using prune_frame(5) [OF _ r(2), where names = "?bn (fu_sessions p)" and s = u2] by auto
  qed
  have pe: "ct_peerings t = ct_peerings u1" using w b republished_tables(3) [OF u(6)] prune_frame(1,2) by simp
  show ?thesis
    unfolding republished_tables(1,2) [OF u(6)] wg3
    using upsert_peering_row [OF u(3)] pe wg_children [OF p2 w [THEN conjunct1] names] bgp_children [OF p3 b [THEN conjunct1] bnames]
    by (simp add: get_peering_row_def)
qed

end
