(* ===== verification/Backfill_Runs.thy ===== *)
theory Backfill_Runs
  imports Configuration
begin

text \<open>
  The peering backfill as a whole: the dry run shows what a run does, a run cannot fail on a name, and a second run
  finds nothing left to do.
\<close>

section \<open>Names\<close>

lemma plan_names:
  "distinct (map pp_name (plan_groups s node taken gs)) \<and>
     (\<forall>p\<in>set (plan_groups s node taken gs). pp_name p \<notin> set taken)"
proof (induction s node taken gs rule: plan_groups.induct)
  case (2 s node taken base asn interfaces grp gs)
  let ?plan = "plan_group s node base asn interfaces grp taken"
  have "pp_name ?plan \<notin> set taken" by (simp add: plan_group_def unique_name_new)
  then show ?case using 2 by (fastforce simp: Let_def)
qed simp

definition unnumbered :: "planned_peering \<Rightarrow> planned_peering" where
  "unnumbered p = p\<lparr>pp_peering_id := None\<rparr>"

lemma unnumbered_set: "unnumbered (p\<lparr>pp_peering_id := i\<rparr>) = unnumbered p"
  by (simp add: unnumbered_def)

lemma taken_after:
  "set (taken_names n (claim_children pid p
     (s\<lparr>ct_next_peering := k, ct_peerings := row_put pe_id (new_peering i m q) (ct_peerings s)\<rparr>))) \<subseteq>
   insert (pi_name q) (set (taken_names n s))"
  using set_row_put [of pe_id "new_peering i m q" "ct_peerings s"]
  by (auto simp: taken_names_def claim_children_def new_peering_def)

lemma apply_plans_total:
  assumes "distinct (map pp_name ps)" "\<forall>p\<in>set ps. pp_name p \<notin> set (taken_names n s)"
  shows "\<exists>x t. apply_plans n ps s = (Inr x, t) \<and> map unnumbered x = map unnumbered ps"
  using assms
proof (induction ps arbitrary: s)
  case (Cons p ps)
  let ?row = "new_peering (ct_next_peering s) n (planned_row n p)"
  let ?u = "s\<lparr>ct_next_peering := ct_next_peering s + 1\<rparr>"
  define w where "w = claim_children (ct_next_peering s) p
    (s\<lparr>ct_next_peering := ct_next_peering s + 1, ct_peerings := row_put pe_id ?row (ct_peerings s)\<rparr>)"
  have "pe_name y \<in> set (taken_names n s)" if "y \<in> set (ct_peerings s)" "pe_local_node_id y = n" for y
    using that by (auto simp: taken_names_def)
  then have free: "\<not> peering_clash ?row ?u"
    using Cons.prems(2) by (fastforce simp: peering_clash_def new_peering_def planned_row_def list_ex_iff)
  have taken: "set (taken_names n w) \<subseteq> insert (pp_name p) (set (taken_names n s))"
    using taken_after unfolding w_def by (fastforce simp: planned_row_def)
  have "\<forall>q\<in>set ps. pp_name q \<notin> set (taken_names n w)"
  proof
    fix q assume q: "q \<in> set ps"
    have "pp_name q \<noteq> pp_name p" using Cons.prems(1) q by (metis distinct.simps(2) image_eqI list.set_map list.simps(9))
    then show "pp_name q \<notin> set (taken_names n w)" using Cons.prems(2) q taken by auto
  qed
  then obtain y t where rest: "apply_plans n ps w = (Inr y, t)" "map unnumbered y = map unnumbered ps"
    using Cons.IH [of w] Cons.prems(1) by auto
  have "apply_plans n (p # ps) s = (Inr (p\<lparr>pp_peering_id := Some (ct_next_peering s)\<rparr> # y), t)"
    using free rest(1) by (simp add: next_peering_def save_peering_def seq_def w_def)
  moreover have "map unnumbered (p\<lparr>pp_peering_id := Some (ct_next_peering s)\<rparr> # y) = map unnumbered (p # ps)"
    using rest(2) by (simp add: unnumbered_set)
  ultimately show ?case by blast
qed simp

section \<open>Every session finds its group\<close>

lemma asn_groups_cover:
  "(r, x) \<in> set sessions \<Longrightarrow> anchor_interface x ifaces = None \<Longrightarrow>
     \<exists>l. map_of (asn_groups ifaces sessions) (bgp_remote_asn x) = Some l \<and> (r, x) \<in> set l"
  unfolding asn_groups_def
proof (induction sessions rule: rev_induct)
  case (snoc y sessions)
  obtain r' x' where y: "y = (r', x')" by fastforce
  show ?case
  proof (cases "(r, x) = y")
    case True
    then show ?thesis using y snoc.prems(2) by simp
  next
    case False
    then obtain l where "map_of (foldl (\<lambda>d (r, x). if anchor_interface x ifaces \<noteq> None then d
        else dput (bgp_remote_asn x) ((case map_of d (bgp_remote_asn x) of None \<Rightarrow> [] | Some l \<Rightarrow> l) @ [(r, x)]) d) [] sessions)
        (bgp_remote_asn x) = Some l" "(r, x) \<in> set l"
      using snoc by auto
    then show ?thesis using y by auto
  qed
qed simp

lemma anchor_in: "anchor_interface x ifaces = Some w \<Longrightarrow> \<exists>spec. (w, spec) \<in> set ifaces"
  by (auto simp: anchor_interface_def find_Some_iff split: option.splits if_splits) (metis nth_mem)+

lemma backfill_groups_cover:
  assumes "(r, x) \<in> set (parsed_sessions n s)"
  shows "\<exists>g\<in>set (backfill_groups n s). (r, x) \<in> set (snd (snd (snd g)))"
proof (cases "anchor_interface x (parsed_interfaces n s)")
  case None
  then obtain l where "map_of (asn_groups (parsed_interfaces n s) (parsed_sessions n s)) (bgp_remote_asn x) = Some l"
    "(r, x) \<in> set l"
    using asn_groups_cover assms by metis
  then show ?thesis by (force simp: backfill_groups_def Let_def dest: map_of_SomeD)
next
  case (Some w)
  then obtain spec where w: "(w, spec) \<in> set (parsed_interfaces n s)" using anchor_in by metis
  define grp where "grp = anchored_to (parsed_interfaces n s) w (parsed_sessions n s)"
  have r: "(r, x) \<in> set grp" using assms Some by (simp add: anchored_to_def grp_def)
  let ?part = "\<lambda>(r, _). let grp = anchored_to (parsed_interfaces n s) r (parsed_sessions n s) in
    if grp = [] then [] else [(if_name (wg_spec r), dominant_asn (map snd grp), [wg_id r], grp)]"
  have "(if_name (wg_spec w), dominant_asn (map snd grp), [wg_id w], grp) \<in> set (?part (w, spec))"
    using r by (auto simp: grp_def Let_def)
  then have "(if_name (wg_spec w), dominant_asn (map snd grp), [wg_id w], grp) \<in> set (concat (map ?part (parsed_interfaces n s)))"
    unfolding set_concat set_map using w by blast
  then have "(if_name (wg_spec w), dominant_asn (map snd grp), [wg_id w], grp) \<in> set (backfill_groups n s)"
    unfolding backfill_groups_def Let_def by simp
  then show ?thesis using r by force
qed

lemma plan_groups_cover:
  "g \<in> set gs \<Longrightarrow> \<exists>p\<in>set (plan_groups s node taken gs). pp_session_ids p = map (\<lambda>(r, _). bg_id r) (snd (snd (snd g)))"
  by (induction s node taken gs rule: plan_groups.induct) (auto simp: Let_def plan_group_def)

lemma parsed_is_planned:
  assumes "(r, x) \<in> set (parsed_sessions (nr_node_id node) s)"
  shows "\<exists>p\<in>set (backfill_plan node s). bg_id r \<in> set (pp_session_ids p)"
proof -
  obtain g where g: "g \<in> set (backfill_groups (nr_node_id node) s)" "(r, x) \<in> set (snd (snd (snd g)))"
    using backfill_groups_cover [OF assms] by blast
  then show ?thesis
    using plan_groups_cover [OF g(1)] unfolding backfill_plan_def by force
qed

lemma parsed_sessions_iff:
  "(r, y) \<in> set (parsed_sessions n s) \<longleftrightarrow>
     r \<in> set (ct_bgp s) \<and> bg_node_id r = n \<and> bg_peering_id r = None \<and> parse_session r = Inr (r, y)"
proof -
  have "set (case v of Inr x \<Rightarrow> [x] | Inl _ \<Rightarrow> []) = {x. v = Inr x}" for v :: "string + (bgp_row \<times> bgp_session)"
    by (cases v) auto
  then show ?thesis
    by (auto simp: parsed_sessions_def orphan_sessions_def load_sessions_def dest: parse_keeps)
qed

section \<open>A run leaves no session without a peering\<close>

lemma apply_plans_claims:
  assumes "apply_plans n ps s = (Inr x, t)"
  shows "\<forall>r\<in>set (ct_bgp t). bg_peering_id r = None \<longrightarrow> r \<in> set (ct_bgp s) \<and> (\<forall>p\<in>set ps. bg_id r \<notin> set (pp_session_ids p))"
  using assms
proof (induction ps arbitrary: s x)
  case (Cons p ps)
  let ?w = "claim_children (ct_next_peering s) p (s\<lparr>ct_next_peering := ct_next_peering s + 1, ct_peerings :=
    row_put pe_id (new_peering (ct_next_peering s) n (planned_row n p)) (ct_peerings s)\<rparr>)"
  obtain y where rest: "apply_plans n ps ?w = (Inr y, t)" using Cons.prems by (auto simp: handler_Inr)
  have "r \<in> set (ct_bgp s) \<and> bg_id r \<notin> set (pp_session_ids p)" if "r \<in> set (ct_bgp ?w)" "bg_peering_id r = None" for r
    using that by (auto simp: claim_children_def split: if_splits)
  then show ?case using Cons.IH [OF rest] by auto
qed simp

lemma no_sessions_no_plan:
  assumes "parsed_sessions (nr_node_id node) s = []"
  shows "backfill_plan node s = []"
proof -
  have "backfill_groups (nr_node_id node) s = []"
    using assms by (simp add: backfill_groups_def Let_def anchored_to_def asn_groups_def)
  then show ?thesis by (simp add: backfill_plan_def)
qed

lemma no_orphan_after_run:
  assumes "apply_plans (nr_node_id node) (backfill_plan node s) s = (Inr x, t)"
  shows "parsed_sessions (nr_node_id node) t = []"
proof -
  have "(r, y) \<notin> set (parsed_sessions (nr_node_id node) t)" for r y
  proof
    assume p: "(r, y) \<in> set (parsed_sessions (nr_node_id node) t)"
    then have old: "r \<in> set (ct_bgp s)" "\<forall>p\<in>set (backfill_plan node s). bg_id r \<notin> set (pp_session_ids p)"
      using apply_plans_claims [OF assms] by (auto simp: parsed_sessions_iff)
    then have "(r, y) \<in> set (parsed_sessions (nr_node_id node) s)" using p by (simp add: parsed_sessions_iff)
    then show False using parsed_is_planned old(2) by blast
  qed
  then show ?thesis
    by (metis list.set_intros(1) neq_Nil_conv surj_pair)
qed

lemma apply_plans_nodes: "apply_plans n ps s = (Inr x, t) \<Longrightarrow> ct_nodes t = ct_nodes s"
proof (induction ps arbitrary: s x)
  case (Cons p ps)
  then show ?case by (fastforce simp: handler_Inr claim_children_def)
qed simp

section \<open>What a run writes\<close>

text \<open>The peering a row ends with: that of the planned peering that lists it, the last one if several do, else its own.\<close>

definition adopted :: "(planned_peering \<Rightarrow> int list) \<Rightarrow> planned_peering list \<Rightarrow> int \<Rightarrow> int option \<Rightarrow> int option" where
  "adopted ids ps i own = (case find (\<lambda>p. i \<in> set (ids p)) (rev ps) of None \<Rightarrow> own | Some p \<Rightarrow> pp_peering_id p)"

lemma adopted_Nil: "adopted ids [] i own = own"
  by (simp add: adopted_def)

lemma adopted_Cons:
  "adopted ids (p # ps) i own = adopted ids ps i (if i \<in> set (ids p) then pp_peering_id p else own)"
  by (auto simp: adopted_def find_append split: option.split)

definition peering_of_plan :: "string \<Rightarrow> planned_peering \<Rightarrow> peering_row" where
  "peering_of_plan n p =
     \<lparr>pe_id = the (pp_peering_id p), pe_local_node_id = n, pe_remote_node_id = pp_remote_node_id p, pe_name = pp_name p,
      pe_remote_asn = pp_remote_asn p, pe_remote_label = None, pe_is_internal = pp_is_internal p, pe_enabled = True\<rparr>"

lemma peering_of_plan_new: "new_peering i n (planned_row n p) = peering_of_plan n (p\<lparr>pp_peering_id := Some i\<rparr>)"
  by (simp add: new_peering_def planned_row_def peering_of_plan_def)

lemma numbered_from:
  "map (\<lambda>i. Some (k + int i)) [0..<Suc m] = Some k # map (\<lambda>i. Some (k + 1 + int i)) [0..<m]"
  by (simp add: upt_conv_Cons map_Suc_upt [symmetric] algebra_simps del: upt_Suc)

lemma apply_plans_writes:
  assumes "apply_plans n ps s = (Inr x, t)" "keyed pe_id (ct_next_peering s) (ct_peerings s)"
  shows "map pp_peering_id x = map (\<lambda>i. Some (ct_next_peering s + int i)) [0..<length x] \<and>
    t = s\<lparr>ct_next_peering := ct_next_peering s + int (length x),
          ct_peerings := ct_peerings s @ map (peering_of_plan n) x,
          ct_wg := map (\<lambda>r. r\<lparr>wg_peering_id := adopted pp_interface_ids x (wg_id r) (wg_peering_id r)\<rparr>) (ct_wg s),
          ct_bgp := map (\<lambda>r. r\<lparr>bg_peering_id := adopted pp_session_ids x (bg_id r) (bg_peering_id r)\<rparr>) (ct_bgp s)\<rparr>"
  using assms
proof (induction ps arbitrary: s x)
  case Nil
  then show ?case by (simp add: adopted_Nil)
next
  case (Cons p ps)
  define k where "k = ct_next_peering s"
  define q where "q = p\<lparr>pp_peering_id := Some k\<rparr>"
  define w where "w = claim_children k p (s\<lparr>ct_next_peering := k + 1, ct_peerings := ct_peerings s @ [peering_of_plan n q]\<rparr>)"
  have key: "pe_id (peering_of_plan n q) = k" by (simp add: peering_of_plan_def q_def)
  have free: "row_get pe_id (pe_id (peering_of_plan n q)) (ct_peerings s) = None"
    unfolding key k_def using Cons.prems(2) by (rule keyed_new)
  have put: "row_put pe_id (peering_of_plan n q) (ct_peerings s) = ct_peerings s @ [peering_of_plan n q]"
    using row_put_new [OF free] .
  obtain y where rest: "apply_plans n ps w = (Inr y, t)" and x: "x = q # y"
    using Cons.prems(1) by (auto simp: handler_Inr peering_of_plan_new put [unfolded q_def k_def] w_def k_def q_def)
  have "keyed pe_id (ct_next_peering w) (ct_peerings w)"
    using Cons.prems(2) key by (auto simp: w_def claim_children_def keyed_def k_def)
  note IH = Cons.IH [OF rest this]
  have ids: "pp_interface_ids q = pp_interface_ids p" "pp_session_ids q = pp_session_ids p" "pp_peering_id q = Some k"
    by (simp_all add: q_def)
  have "map pp_peering_id x = map (\<lambda>i. Some (k + int i)) [0..<length x]"
    using IH x ids numbered_from [of k "length y"] by (simp add: w_def claim_children_def del: upt_Suc)
  moreover have "t = s\<lparr>ct_next_peering := k + int (length x), ct_peerings := ct_peerings s @ map (peering_of_plan n) x,
      ct_wg := map (\<lambda>r. r\<lparr>wg_peering_id := adopted pp_interface_ids x (wg_id r) (wg_peering_id r)\<rparr>) (ct_wg s),
      ct_bgp := map (\<lambda>r. r\<lparr>bg_peering_id := adopted pp_session_ids x (bg_id r) (bg_peering_id r)\<rparr>) (ct_bgp s)\<rparr>"
    unfolding IH [THEN conjunct2] x by (auto simp: w_def claim_children_def adopted_Cons ids)
  ultimately show ?case by (simp add: k_def)
qed

text \<open>C20: the backfill does what its dry run shows, once.  For a node that exists, with peering ids below the counter, the
  dry run returns a plan and changes nothing; the run succeeds, whatever names are taken, and returns the planned
  peerings, numbered on from the counter.  The database it leaves is the old one with exactly one peering row appended for
  each of them, and the interfaces and sessions they list moved to them; no other row or table changes.  No session of
  the node that parses is left without a peering; a second run plans nothing and changes nothing.\<close>

theorem backfill_runs_once:
  assumes "get_node n s \<noteq> None" "keyed pe_id (ct_next_peering s) (ct_peerings s)"
  shows "\<exists>r0 r1 t r2.
     backfill_node_peerings n True s = (Inr r0, s) \<and> backfill_node_peerings n False s = (Inr r1, t) \<and>
     map unnumbered (bf_created r1) = bf_created r0 \<and> bf_skipped_interfaces r1 = bf_skipped_interfaces r0 \<and>
     bf_skipped_sessions r1 = bf_skipped_sessions r0 \<and>
     map pp_peering_id (bf_created r1) = map (\<lambda>i. Some (ct_next_peering s + int i)) [0..<length (bf_created r1)] \<and>
     t = s\<lparr>ct_next_peering := ct_next_peering s + int (length (bf_created r1)),
           ct_peerings := ct_peerings s @ map (peering_of_plan n) (bf_created r1),
           ct_wg := map (\<lambda>r. r\<lparr>wg_peering_id := adopted pp_interface_ids (bf_created r1) (wg_id r) (wg_peering_id r)\<rparr>) (ct_wg s),
           ct_bgp := map (\<lambda>r. r\<lparr>bg_peering_id := adopted pp_session_ids (bf_created r1) (bg_id r) (bg_peering_id r)\<rparr>) (ct_bgp s)\<rparr> \<and>
     parsed_sessions n t = [] \<and> backfill_node_peerings n False t = (Inr r2, t) \<and> bf_created r2 = []"
proof -
  obtain node where node: "get_node n s = Some node" using assms by blast
  note id = get_node_key [OF node]
  have un: "unnumbered p = p" if "p \<in> set (backfill_plan node s)" for p
  proof -
    have "p \<in> set (plan_groups s node taken gs) \<Longrightarrow> unnumbered p = p" for taken gs
      by (induction s node taken gs rule: plan_groups.induct) (auto simp: Let_def plan_group_def unnumbered_def)
    then show ?thesis using that by (simp add: backfill_plan_def)
  qed
  obtain x t where run: "apply_plans n (backfill_plan node s) s = (Inr x, t)" "map unnumbered x = map unnumbered (backfill_plan node s)"
    using apply_plans_total [of "backfill_plan node s" n s] plan_names id unfolding backfill_plan_def by metis
  have same: "map unnumbered (backfill_plan node s) = backfill_plan node s" using un by (simp add: map_idI)
  have t: "get_node n t = Some node" using apply_plans_nodes [OF run(1)] node by (simp add: get_node_def)
  have none: "parsed_sessions n t = []" using no_orphan_after_run [of node s x t] run(1) id by simp
  then have "backfill_plan node t = []" using no_sessions_no_plan [of node t] id by simp
  then have again: "\<exists>r2. backfill_node_peerings n False t = (Inr r2, t) \<and> bf_created r2 = []"
    using t by (simp add: backfill_node_peerings_def backfill_peerings_def transaction_def seq_def)
  then obtain r2 where r2: "backfill_node_peerings n False t = (Inr r2, t)" "bf_created r2 = []" by blast
  note writes = apply_plans_writes [OF run(1) assms(2)]
  let ?r = "\<lambda>d ps. \<lparr>bf_dry_run = d, bf_created = ps, bf_skipped_interfaces = skipped_interfaces n s,
    bf_skipped_sessions = skipped_sessions n s\<rparr>"
  have dry: "backfill_node_peerings n True s = (Inr (?r True (backfill_plan node s)), s)"
    using node by (simp add: backfill_node_peerings_def backfill_peerings_def transaction_def seq_def)
  have wet: "backfill_node_peerings n False s = (Inr (?r False x), t)"
    using node run(1) by (simp add: backfill_node_peerings_def backfill_peerings_def transaction_def seq_def)
  show ?thesis
    by (rule exI [of _ "?r True (backfill_plan node s)"], rule exI [of _ "?r False x"], rule exI [of _ t], rule exI [of _ r2])
      (intro conjI, use dry wet run(2) same writes none r2 in simp_all)
qed

end
