(* ===== verification/Configuration_Examples.thy ===== *)
theory Configuration_Examples
  imports Full_Replacement Backfill_Runs
begin

text \<open>
  A node with one peering, written by one full replacement, and a session that belongs to no peering yet: the inputs on
  which the properties of the configuration API are exercised.
\<close>

definition sample_link :: interface_spec where
  "sample_link = example_link\<lparr>if_listen_port := Some 51820\<rparr>"

definition sample_full :: full_in where
  "sample_full =
     \<lparr>fu_peering = \<lparr>pi_name = ''as1'', pi_remote_asn = 4242421111, pi_remote_node_id = None, pi_remote_label = None,
        pi_is_internal = False, pi_enabled = True\<rparr>,
      fu_interfaces = [\<lparr>fi_spec = sample_link, fi_enabled = True, fi_sort_order = 0\<rparr>], fu_sessions = []\<rparr>"

definition sample_node :: control where
  "sample_node = foldl admin_step no_data [Create (example_node_in ''hk1'')]"

definition sample_put :: "int change res \<times> control" where
  "sample_put = put_peering_full ''hk1'' sample_full sample_node"

lemma sample_put_facts:
  "(case fst sample_put of Inr (pid, ps, why) \<Rightarrow> pid = 1 \<and> map fst ps = [''hk1''] | Inl e \<Rightarrow> False) \<and>
   map (\<lambda>r. (wg_node_id r, listens r)) (ct_wg (snd sample_put)) = [(''hk1'', Some 51820)]"
  by code_simp

lemma sample_put_run:
  obtains ps why where "put_peering_full ''hk1'' sample_full (foldl admin_step no_data [Create (example_node_in ''hk1'')]) =
      (Inr (1, ps, why), snd sample_put)" "map fst ps = [''hk1'']"
proof -
  obtain r where "fst sample_put = Inr r" "case r of (pid, ps, why) \<Rightarrow> pid = 1 \<and> map fst ps = [''hk1'']"
    using sample_put_facts by (auto split: sum.splits)
  then obtain ps why where "fst sample_put = Inr (1, ps, why)" "map fst ps = [''hk1'']" by (cases r) auto
  moreover have "put_peering_full ''hk1'' sample_full (foldl admin_step no_data [Create (example_node_in ''hk1'')]) = sample_put"
    by (simp only: sample_put_def sample_node_def)
  ultimately show thesis using that [of ps why] prod.collapse [of sample_put] by (simp only:)
qed

theorem configuration_is_served_witness: "served_current ''hk1'' (snd sample_put)"
proof -
  obtain ps why where run: "put_peering_full ''hk1'' sample_full (foldl admin_step no_data [Create (example_node_in ''hk1'')]) =
      (Inr (1, ps, why), snd sample_put)" "map fst ps = [''hk1'']"
    by (rule sample_put_run)
  then have "config_run (Put_Full ''hk1'' sample_full) (foldl admin_step no_data [Create (example_node_in ''hk1'')]) =
      (Inr ((), ps, why), snd sample_put)"
    by (simp only: config_run.simps published_by_Inr) blast
  from configuration_is_served [OF _ this] have "n \<in> fst ` set ps \<longrightarrow> served_current n (snd sample_put)" for n by simp
  then show ?thesis using run(2) by (metis list.set_intros(1) list.set_map)
qed

definition sample_configured :: control where
  "sample_configured = foldl admin_step no_data [Create (example_node_in ''hk1''), Configure (Put_Full ''hk1'' sample_full)]"

lemma sample_configured_eq: "sample_configured = snd sample_put"
proof -
  obtain ps why where run: "put_peering_full ''hk1'' sample_full sample_node = (Inr (1, ps, why), snd sample_put)"
    using sample_put_run unfolding sample_node_def by metis
  have "sample_configured = admin_step sample_node (Configure (Put_Full ''hk1'' sample_full))"
    by (simp add: sample_configured_def sample_node_def)
  then show ?thesis using run by (simp add: admin_step_def unit_of_def published_by_def seq_def)
qed

theorem listen_ports_unique_witness:
  "\<exists>!a. a \<in> set (ct_wg sample_configured) \<and> wg_node_id a = ''hk1'' \<and> listens a = Some 51820"
proof -
  have "map (\<lambda>r. (wg_node_id r, listens r)) (ct_wg sample_configured) = [(''hk1'', Some 51820)]"
    unfolding sample_configured_eq using sample_put_facts by blast
  then obtain a where "a \<in> set (ct_wg sample_configured)" "wg_node_id a = ''hk1''" "listens a = Some 51820" by auto
  then show ?thesis using listen_ports_unique unfolding sample_configured_def by metis
qed

theorem full_replacement_exact_witness:
  "(\<lambda>r. (wg_node_id r, wg_spec r, wg_enabled r, wg_sort_order r)) ` {r \<in> set (ct_wg (snd sample_put)). wg_peering_id r = Some 1} =
     {(''hk1'', sample_link, True, 0)}"
proof -
  obtain ps why where run: "put_peering_full ''hk1'' sample_full (foldl admin_step no_data [Create (example_node_in ''hk1'')]) =
      (Inr (1, ps, why), snd sample_put)"
    using sample_put_run by metis
  show ?thesis
    using full_replacement_exact [OF run, THEN conjunct2, THEN conjunct1] by (simp add: sample_full_def)
qed

section \<open>A session without a peering\<close>

definition sample_session :: bgp_session where
  "sample_session =
     \<lparr>bgp_name = ''as1v6'', bgp_remote_asn = 4242421111, bgp_neighbor = ''fd00::2'', bgp_source_address = ''fd00::1'',
      bgp_address_family = IPV6, bgp_interface = None, bgp_policy = ''ebgp'', bgp_import_mode = ''all'', bgp_export_mode = ''all'',
      bgp_protocol_suffix = [], bgp_extended_next_hop = False, bgp_bfd = None, bgp_route_reflector_client = False,
      bgp_import_limit = None, bgp_import_limit_action = None, bgp_local_pref = None, bgp_link_latency = None, bgp_enabled = True\<rparr>"

definition sample_orphan :: control where
  "sample_orphan = sample_node\<lparr>ct_next_bgp := 2, ct_bgp := [\<lparr>bg_id = 1, bg_node_id = ''hk1'', bg_peering_id = None,
     bg_enabled = True, bg_spec = sample_session, bg_sort_order = 0\<rparr>]\<rparr>"

lemma sample_plan:
  "get_node ''hk1'' sample_orphan \<noteq> None \<and>
   (case fst (backfill_node_peerings ''hk1'' True sample_orphan) of
      Inr r \<Rightarrow> map (\<lambda>p. (pp_name p, pp_session_ids p)) (bf_created r) = [(''as4242421111'', [1])] | Inl e \<Rightarrow> False)"
  by code_simp

lemma sample_keyed: "keyed pe_id (ct_next_peering sample_orphan) (ct_peerings sample_orphan) \<and> ct_peerings sample_orphan = []"
  by code_simp

theorem backfill_runs_once_witness:
  "\<exists>r0 r1 t.
     backfill_node_peerings ''hk1'' True sample_orphan = (Inr r0, sample_orphan) \<and>
     map pp_session_ids (bf_created r0) = [[1]] \<and>
     backfill_node_peerings ''hk1'' False sample_orphan = (Inr r1, t) \<and> length (ct_peerings t) = 1 \<and> parsed_sessions ''hk1'' t = []"
proof -
  obtain r0 r1 t where r: "backfill_node_peerings ''hk1'' True sample_orphan = (Inr r0, sample_orphan)"
    "backfill_node_peerings ''hk1'' False sample_orphan = (Inr r1, t)" "map unnumbered (bf_created r1) = bf_created r0"
    "ct_peerings t = ct_peerings sample_orphan @ map (peering_of_plan ''hk1'') (bf_created r1)" "parsed_sessions ''hk1'' t = []"
    using backfill_runs_once [OF sample_plan [THEN conjunct1] sample_keyed [THEN conjunct1]] by auto
  have "map (\<lambda>p. (pp_name p, pp_session_ids p)) (bf_created r0) = [(''as4242421111'', [1])]"
    using sample_plan r(1) by simp
  then have "map snd (map (\<lambda>p. (pp_name p, pp_session_ids p)) (bf_created r0)) = [[1]]" by simp
  then have one: "map pp_session_ids (bf_created r0) = [[1]]" by (simp add: comp_def)
  then have "length (ct_peerings t) = 1"
    using r(3,4) sample_keyed by (metis append_Nil length_map length_Cons list.size(3) One_nat_def)
  with r(1,2,5) one show ?thesis by (intro exI conjI)
qed

end
