(* ===== verification/Provision_Roundtrip.thy ===== *)
theory Provision_Roundtrip
  imports Listen_Ports
begin

text \<open>
  Taking a desired state apart into rows and materializing the rows again gives the state back, under the node's next
  generation number.
\<close>

section \<open>Validation does not look at the number\<close>

lemma generation_free:
  "reference_checks (d\<lparr>ds_generation := k\<rparr>) = reference_checks d" "ports_ok (d\<lparr>ds_generation := k\<rparr>) = ports_ok d"
  "socket_ok (d\<lparr>ds_generation := k\<rparr>) = socket_ok d" "dns_ok (d\<lparr>ds_generation := k\<rparr>) = dns_ok d"
  by (simp_all add: reference_checks_def interface_asns_def ports_ok_def socket_ok_def dns_ok_def dns_active_def cong: option.case_cong)

lemma anycast_generation_free:
  assumes "normalize_dns_anycast d = Inr d"
  shows "normalize_dns_anycast (d\<lparr>ds_generation := k\<rparr>) = Inr (d\<lparr>ds_generation := k\<rparr>)"
proof -
  let ?d = "d\<lparr>ds_generation := k\<rparr>"
  have same: "anycast_of ?d = anycast_of d" "other_interfaces ?d = other_interfaces d" "managed_dummies ?d = managed_dummies d"
    by (simp_all add: anycast_of_def anycast_addresses_def other_interfaces_def managed_dummies_def cong: option.case_cong)
  obtain ms where ms: "anycast_of d = Inr ms" "d = d\<lparr>ds_interfaces := other_interfaces d @ ms,
      ds_bird := (if set (managed_dummies d) = set (b2_dummy_interfaces (ds_bird d)) then ds_bird d
                  else (ds_bird d)\<lparr>b2_dummy_interfaces := managed_dummies d\<rparr>)\<rparr>"
    using assms by (auto simp: normalize_dns_anycast_alt rbind_Inr_iff)
  have "other_interfaces d @ ms = ds_interfaces d"
    "(if set (managed_dummies d) = set (b2_dummy_interfaces (ds_bird d)) then ds_bird d
      else (ds_bird d)\<lparr>b2_dummy_interfaces := managed_dummies d\<rparr>) = ds_bird d"
    using ms(2) [THEN arg_cong [where f = ds_interfaces]] ms(2) [THEN arg_cong [where f = ds_bird]] by simp_all
  note same_parts = this
  have bird: "ds_bird ?d = ds_bird d" by simp
  have "?d\<lparr>ds_interfaces := other_interfaces d @ ms, ds_bird := (if set (managed_dummies d) = set (b2_dummy_interfaces (ds_bird d))
      then ds_bird d else (ds_bird d)\<lparr>b2_dummy_interfaces := managed_dummies d\<rparr>)\<rparr> = ?d"
    unfolding same_parts by simp
  then show ?thesis by (simp only: normalize_dns_anycast_alt same ms(1) rbind_def sum.case bird)
qed

lemma validate_again:
  assumes "model_validate_state d = Inr d" "1 \<le> k"
  shows "model_validate_state (d\<lparr>ds_generation := k\<rparr>) = Inr (d\<lparr>ds_generation := k\<rparr>)"
proof -
  let ?d = "d\<lparr>ds_generation := k\<rparr>"
  have v: "parsed_dns (ds_dns d) = Inr (ds_dns d)" "checks (field_checks d) d = Inr d" "validate_references d = Inr d"
  proof -
    obtain dns where d: "parsed_dns (ds_dns d) = Inr dns" "checks (field_checks (d\<lparr>ds_dns := dns\<rparr>)) (d\<lparr>ds_dns := dns\<rparr>) = Inr (d\<lparr>ds_dns := dns\<rparr>)"
      "validate_references (d\<lparr>ds_dns := dns\<rparr>) = Inr d"
      using assms(1) unfolding model_validate_state_def rbind_Inr_iff checks_Inr by blast
    have "dns = ds_dns d" using validate_references_frame(3) [OF d(3)] by simp
    then show "parsed_dns (ds_dns d) = Inr (ds_dns d)" "checks (field_checks d) d = Inr d" "validate_references d = Inr d"
      using d by simp_all
  qed
  have "checks (field_checks ?d) ?d = Inr ?d" using v(2) assms(2) unfolding checks_Inr field_checks_def by simp
  moreover have "validate_references ?d = Inr ?d"
  proof -
    note w = validate_references_wf [OF v(3)]
    obtain s1 where s1: "checks (reference_checks d) d = Inr d" "normalize_dns_anycast s1 = Inr d"
      by (rule validate_references_steps [OF v(3)])
    then have "checks (reference_checks ?d) ?d = Inr ?d" by (simp only: checks_Inr generation_free)
    then show ?thesis
      using w generation_free [where d = d and k = k] ports_stable socket_stable dns_stable anycast_generation_free [OF anycast_idem [OF s1(2)]]
      by (simp add: validate_references_def)
  qed
  ultimately show ?thesis using v(1) by (simp add: model_validate_state_def)
qed

section \<open>The rows give the state back\<close>

text \<open>A node on which nothing but the state decides what is served.\<close>

definition plain_node :: "node_row \<Rightarrow> bool" where
  "plain_node r \<longleftrightarrow> nr_lifecycle r \<noteq> ''decommissioned'' \<and> nr_dns_group_id r = None \<and> nr_link_local r = None"

lemma interface_rows_sorted:
  "sorted (map (\<lambda>r. (wg_sort_order r, wg_id r)) (interface_rows n i (enumerate k xs)))"
  "\<forall>r\<in>set (interface_rows n i (enumerate k xs)). int k \<le> wg_sort_order r \<and> wg_peering_id r = None \<and> wg_enabled r"
  by (induction xs arbitrary: i k) (force simp: less_prod_def)+

lemma session_rows_sorted:
  "sorted (map (\<lambda>r. (bg_sort_order r, bg_id r)) (session_rows n i (enumerate k xs)))"
  "\<forall>r\<in>set (session_rows n i (enumerate k xs)). int k \<le> bg_sort_order r"
  by (induction xs arbitrary: i k) (force simp: less_prod_def)+

lemma session_rows_node: "r \<in> set (session_rows n i xs) \<Longrightarrow> bg_node_id r = n"
  by (induction n i xs rule: session_rows.induct) auto

lemma loaded_rows:
  assumes "\<forall>r\<in>set (ct_wg u). wg_node_id r \<noteq> n" "\<forall>r\<in>set (ct_bgp u). bg_node_id r \<noteq> n"
    and "ct_wg v = ct_wg u @ interface_rows n i (enumerate 0 ifs)" "ct_bgp v = ct_bgp u @ session_rows n j (enumerate 0 bs)"
  shows "load_interfaces n v = interface_rows n i (enumerate 0 ifs)" "load_sessions n v = session_rows n j (enumerate 0 bs)"
proof -
  have none: "filter (\<lambda>r. wg_node_id r = n) (ct_wg u) = []" "filter (\<lambda>r. bg_node_id r = n) (ct_bgp u) = []"
    using assms(1,2) by (simp_all add: filter_empty_conv)
  have "filter (\<lambda>r. wg_node_id r = n) (interface_rows n i (enumerate 0 ifs)) = interface_rows n i (enumerate 0 ifs)"
    "filter (\<lambda>r. bg_node_id r = n) (session_rows n j (enumerate 0 bs)) = session_rows n j (enumerate 0 bs)"
    using interface_rows_node session_rows_node by (metis (mono_tags, lifting) filter_True)+
  then show "load_interfaces n v = interface_rows n i (enumerate 0 ifs)" "load_sessions n v = session_rows n j (enumerate 0 bs)"
    using none interface_rows_sorted(1) [of n i 0 ifs] session_rows_sorted(1) [of n j 0 bs]
    by (simp_all add: load_interfaces_def load_sessions_def assms(3,4) sort_key_id_if_sorted)
qed

lemma interface_payloads:
  "map (interface_payload s keys l) (filter wg_enabled (interface_rows n i xs)) = map snd xs"
  by (induction n i xs rule: interface_rows.induct)
     (simp_all add: interface_payload_def remote_of_def peering_of_def Let_def)

lemma session_payloads: "map bgp_payload (session_rows n i xs) = map snd xs"
  by (induction n i xs rule: session_rows.induct) (simp_all add: bgp_payload_def)

lemma put_provisioned_node:
  assumes "put_provisioned d s = (Inr x, t)" "nd_link_local (ds_node d) = None"
    and "case get_node (nd_node_id (ds_node d)) s of None \<Rightarrow> True | Some r \<Rightarrow> plain_node r"
  obtains row where "get_node (nd_node_id (ds_node d)) t = Some row" "plain_node row" "node_payload row = Inr (ds_node d)"
    "nr_base_template row = split_base_template d"
    "nr_generation row = (case get_node (nd_node_id (ds_node d)) s of None \<Rightarrow> 0 | Some r \<Rightarrow> nr_generation r)"
  using assms(1)
proof (cases rule: put_provisioned_cases)
  case 1
  show thesis
    by (rule that [of "new_provisioned_row d"])
       (use 1 assms(2) in \<open>simp_all add: nodes.get_put new_provisioned_row_def Let_def plain_node_def node_payload_def
          split_base_template_def\<close>)
next
  case (2 r)
  have "get_node (nd_node_id (ds_node d)) t = Some (provisioned_row d r)"
    using get_node_key [OF 2(1)] by (simp add: 2(2) delete_children_def get_node_def put_node_def row_get_put provisioned_row_def Let_def)
  then show thesis
    by (rule that)
       (use 2(1) assms(2,3) get_node_key [OF 2(1)] in \<open>simp_all add: provisioned_row_def Let_def plain_node_def node_payload_def
          split_base_template_def\<close>)
qed

lemma assembled_again:
  assumes "plain_node row" "nr_node_id row = nd_node_id (ds_node d)" "node_payload row = Inr (ds_node d)"
    and "nr_base_template row = split_base_template d" "ds_dns d = None"
    and "load_interfaces (nr_node_id row) v = interface_rows n i (enumerate 0 (ds_interfaces d))"
    and "load_sessions (nr_node_id row) v = session_rows n j (enumerate 0 (ds_bgp_sessions d))"
  shows "assembled v row g = Inr (d\<lparr>ds_generation := g\<rparr>)"
proof -
  have "load_dns_group v row = None" using assms(1) by (simp add: load_dns_group_def plain_node_def)
  then show ?thesis
    using assms by (simp add: assembled_def assemble_snapshot_def Let_def rbind_def split_base_template_def plain_node_def
      interface_payloads session_payloads)
qed

section \<open>The round trip\<close>

text \<open>The optional \<open>agent_token\<close> can be bound: no other row has its hash.\<close>

definition token_writable :: "digest \<Rightarrow> string option \<Rightarrow> agent_token list \<Rightarrow> bool" where
  "token_writable h token rows \<longleftrightarrow>
     (case token of
        None \<Rightarrow> True
      | Some t \<Rightarrow> list_all (\<lambda>r. at_hash r = h t \<longrightarrow> at_token r = literal_token_id h t) rows)"

lemma bind_writable:
  assumes "token_writable h token (ct_tokens s)" "get_node n s \<noteq> None"
  obtains toks where "bind_agent_token h n token s = (Inr (), s\<lparr>ct_tokens := toks\<rparr>)"
proof (cases token)
  case None
  then have "bind_agent_token h n token s = (Inr (), s\<lparr>ct_tokens := ct_tokens s\<rparr>)" by (simp add: bind_agent_token_def)
  then show thesis by (rule that)
next
  case (Some t)
  show thesis
  proof (cases "get_token (literal_token_id h t) s")
    case None
    have "\<not> list_ex (\<lambda>x. at_hash x = h t \<and> at_token x \<noteq> literal_token_id h t) (ct_tokens s)"
      using assms(1) by (auto simp: token_writable_def Some list_all_iff list_ex_iff)
    then show thesis
      using assms(2) None that by (auto simp: bind_agent_token_def write_token_def Some put_token_def)
  next
    case (Some r)
    then have "bind_agent_token h n token s = (Inr (), s\<lparr>ct_tokens := ct_tokens s\<rparr>)"
      by (simp add: bind_agent_token_def \<open>token = Some t\<close>)
    then show thesis by (rule that)
  qed
qed

lemma provision_runs:
  assumes "config_inv s" "refines L s" "model_validate_state d = Inr d" "ds_dns d = None" "nd_link_local (ds_node d) = None"
    and "case get_node (nd_node_id (ds_node d)) s of None \<Rightarrow> True | Some r \<Rightarrow> plain_node r"
    and "token_writable h token (ct_tokens s)"
  obtains x L' t where "provision_node h d token s = (Inr (x, [(nd_node_id (ds_node d), x)], ''admin provision''), t)"
    "x = d\<lparr>ds_generation := (case get_node (nd_node_id (ds_node d)) s of None \<Rightarrow> 0 | Some r \<Rightarrow> nr_generation r) + 1\<rparr>"
    "model_validate_state x = Inr x" "refines L' t" "\<exists>log. L' (nd_node_id (ds_node d)) = Some (log @ [x])"
proof -
  let ?n = "nd_node_id (ds_node d)"
  obtain u where u: "put_provisioned d s = (Inr (), u)"
    by (cases "get_node ?n s") (simp_all add: put_provisioned_def Let_def seq_def)
  have on: "on_node ?n s u" by (rule put_provisioned_edits [OF u assms(1)])
  then have inv: "config_inv u" by (simp add: on_node_def)
  note e = provisioned_empty [OF assms(1) u]
  have wf: "distinct (map if_name (ds_interfaces d))" "distinct (map bgp_name (ds_bgp_sessions d))"
    using model_validate_wf [OF assms(3)] by (simp_all add: wf_state_def)
  obtain v0 where v: "add_children d u = (Inr (), v0)" using add_children_rows(2) [OF inv wf e(1,2)] by blast
  note v0_rows = add_children_rows(1) [OF inv v]
  obtain row where row: "get_node ?n u = Some row" "plain_node row" "node_payload row = Inr (ds_node d)"
    "nr_base_template row = split_base_template d"
    "nr_generation row = (case get_node ?n s of None \<Rightarrow> 0 | Some r \<Rightarrow> nr_generation r)"
    by (rule put_provisioned_node [OF u assms(5,6)])
  have row_v0: "get_node ?n v0 = Some row" using row(1) by (simp add: v0_rows get_node_def)
  have "ct_tokens u = ct_tokens s"
    using u by (auto simp: put_provisioned_def Let_def seq_def put_node_def delete_children_def split: option.splits)
  moreover have "ct_tokens v0 = ct_tokens u"
    using runsD [OF tables_children(1) v] by (simp add: config_only_def credentials_def)
  ultimately have "token_writable h token (ct_tokens v0)" using assms(7) by simp
  then obtain toks where b: "bind_agent_token h ?n token v0 = (Inr (), v0\<lparr>ct_tokens := toks\<rparr>)"
    using bind_writable [of h token v0 ?n] row_v0 by blast
  define v where "v = v0\<lparr>ct_tokens := toks\<rparr>"
  have v_rows: "ct_wg v = ct_wg v0" "ct_bgp v = ct_bgp v0" by (simp_all add: v_def)
  have row_v: "get_node ?n v = Some row" using row_v0 by (simp add: v_def get_node_def)
  have id: "nr_node_id row = ?n" by (rule get_node_key [OF row_v])
  note loaded = loaded_rows [where i = "ct_next_wg u" and j = "ct_next_bgp u" and v = v and ifs = "ds_interfaces d"
      and bs = "ds_bgp_sessions d", OF e(1,2)]
  have asm: "assembled v row g = Inr (d\<lparr>ds_generation := g\<rparr>)" for g
    by (rule assembled_again [OF row(2) id row(3,4) assms(4), where i = "ct_next_wg u" and j = "ct_next_bgp u" and n = ?n])
       (use loaded v_rows v0_rows id in simp_all)
  let ?op = "Configure (Provision_State d)"
  have "runs (op_moves ?op) (put_provisioned d)" by (rule logs.runs_put_provisioned) simp
  moreover have "runs (op_moves ?op) (add_children d)" by (rule logs.runs_tables [OF tables_children(1) [of d]])
  ultimately have "op_moves ?op s u" "op_moves ?op u v0" using u v unfolding runs_def by (metis snd_conv)+
  then obtain L1 where "refines L1 v0" using assms(2) unfolding op_moves_def by blast
  then have L1: "refines L1 v" by (rule refines_cong [THEN iffD2, rotated 2]) (simp_all add: v_def get_node_def)
  define x where "x = d\<lparr>ds_generation := nr_generation row + 1\<rparr>"
  obtain log t where t: "L1 ?n = Some log" "nr_generation row = int (length log)"
    "publish_generation row (nr_generation row + 1) x (Some ''admin provision'') DEFAULT_GENERATION_RETENTION v = (Inr (), t)"
    "refines (L1(?n \<mapsto> log @ [x])) t"
    by (rule publishes_next [OF L1 row_v, of x "Some ''admin provision''"]) (simp_all add: x_def)
  have valid: "model_validate_state x = Inr x" unfolding x_def by (rule validate_again [OF assms(3)]) (simp add: t(2))
  have "materialize ?n (Some ''admin provision'') DEFAULT_GENERATION_RETENTION v = (Inr (Some x), t)"
    using row_v asm valid t(3) by (simp add: materialize_def Let_def seq_def rbind_def truthy_def x_def [symmetric])
  then have run: "provision_node h d token s = (Inr (x, [(?n, x)], ''admin provision''), t)"
    using u v b assms(3)
    by (simp add: provision_node_def as_422_def seq_def transaction_def provision_node_from_state_def Let_def truthy_def v_def)
  show thesis by (rule that [OF run _ valid t(4)]) (simp_all add: x_def row(5))
qed

text \<open>What is read when the cache has nothing else under the node's number.\<close>

lemma desired_state_get_last:
  assumes "refines L db" "L n = Some (past @ [x])" "model_validate_state x = Inr x" "ds_generation x = int (length past) + 1"
    and "fst redis \<longrightarrow> map_of c (ds_cache_key n (ds_generation x)) \<in> {None, Some x}"
  shows "fst (desired_state_get redis n \<lparr>sr_db = db, sr_cache = c\<rparr>) = Inr (Some x)"
proof -
  have off: "fst (desired_state_get (False, wr) n \<lparr>sr_db = db, sr_cache = c\<rparr>) = Inr (Some x)" for wr
    using desired_state_get_db [OF assms(1), of wr n c] assms(2,3) by (simp add: rbind_def)
  obtain node where node: "get_node n db = Some node" "nr_generation node = int (length past) + 1"
  proof (cases "get_node n db")
    case None
    then show thesis using refines_unknown [OF assms(1), of n] assms(2) by simp
  next
    case (Some node)
    obtain h where h: "L n = Some h" "nr_generation node = int (length h)" using refines_log [OF assms(1) Some] .
    have "h = past @ [x]" using h(1) assms(2) by simp
    then show thesis using that [OF Some] h(2) by simp
  qed
  obtain rd wr where r: "redis = (rd, wr)" by (cases redis)
  show ?thesis
  proof (cases "rd \<and> map_of c (ds_cache_key n (ds_generation x)) = Some x")
    case True
    then show ?thesis using node assms(3,4) by (simp add: r desired_state_get_def Let_def seq_def)
  next
    case False
    then have none: "rd \<Longrightarrow> map_of c (ds_cache_key n (nr_generation node)) = None"
      using assms(4,5) node(2) by (auto simp: r)
    have "desired_state_get (rd, wr) n \<lparr>sr_db = db, sr_cache = c\<rparr>
        = desired_state_get (False, wr) n \<lparr>sr_db = db, sr_cache = c\<rparr>"
      using node(1) none by (cases rd) (simp_all add: desired_state_get_def Let_def split: option.split)
    then show ?thesis using off by (simp add: r)
  qed
qed

text \<open>C10: provisioning is a round trip.  Take the database after any sequence of requests, with any rows in
  its token table, and a state in the form the schema leaves it in, without DNS and link-local address, for a node
  that is new or that has neither a DNS group nor a link-local address and is not decommissioned; and no
  \<open>agent_token\<close>, or one whose hash no other token row has.  Provisioning it succeeds, announces the state under
  the node's next number, and this is what the node's agent then fetches, every interface, every session and every
  other field: without Redis, or with Redis when nothing else is cached under that node and number.  The last
  condition is needed: the entries of a deleted node stay in the cache, and a node created again under its name is
  served them (\<open>recreated_node_served_old_state\<close>).\<close>

theorem provision_roundtrip:
  fixes ops :: "admin_op list" and toks :: "agent_token list"
  defines "s \<equiv> (foldl admin_step no_data ops)\<lparr>ct_tokens := toks\<rparr>"
  assumes "model_validate_state d = Inr d" "ds_dns d = None" "nd_link_local (ds_node d) = None"
    and "case get_node (nd_node_id (ds_node d)) s of None \<Rightarrow> True | Some r \<Rightarrow> plain_node r"
    and "token_writable h token toks"
  shows "\<exists>x t.
    provision_node h d token s = (Inr (x, [(nd_node_id (ds_node d), x)], ''admin provision''), t) \<and>
    x = d\<lparr>ds_generation :=
      (case get_node (nd_node_id (ds_node d)) s of None \<Rightarrow> 0 | Some r \<Rightarrow> nr_generation r) + 1\<rparr> \<and>
    (\<forall>redis c. (fst redis \<longrightarrow> map_of c (ds_cache_key (nd_node_id (ds_node d)) (ds_generation x)) \<in> {None, Some x}) \<longrightarrow>
       fst (desired_state_get redis (nd_node_id (ds_node d)) \<lparr>sr_db = t, sr_cache = c\<rparr>) = Inr (Some x))"
proof -
  let ?s0 = "foldl admin_step no_data ops" and ?n = "nd_node_id (ds_node d)"
  have inv: "config_inv s" using configured.run_inv [OF no_data_config, of ops] 
    by (simp add: s_def config_inv_def at_home_def hangs_on_def get_node_def get_peering_row_def)
  obtain L where "refines L ?s0" using database_steps [OF no_data_refines] by blast
  then have L: "refines L s" unfolding s_def by (rule refines_cong [THEN iffD2, rotated 2]) (simp_all add: get_node_def)
  have w: "token_writable h token (ct_tokens s)" using assms(6) by (simp add: s_def)
  obtain x L' t log where x: "provision_node h d token s = (Inr (x, [(?n, x)], ''admin provision''), t)"
    "x = d\<lparr>ds_generation := (case get_node ?n s of None \<Rightarrow> 0 | Some r \<Rightarrow> nr_generation r) + 1\<rparr>"
    "model_validate_state x = Inr x" "refines L' t" "L' ?n = Some (log @ [x])"
    using provision_runs [OF inv L assms(2-5) w] by metis
  have "numbered L'" using x(4) by (simp add: refines_def)
  then have "ds_generation ((log @ [x]) ! length log) = int (length log) + 1"
    using x(5) unfolding numbered_def by (metis length_append_singleton lessI)
  then have g: "ds_generation x = int (length log) + 1" by simp
  show ?thesis using x(1,2) desired_state_get_last [OF x(4,5,3) g] by blast
qed

section \<open>An instance\<close>

definition example_payload :: desired_state where
  "example_payload =
     (case model_validate_state (example_state\<lparr>ds_dns := None, ds_interfaces := [example_link]\<rparr>) of
        Inr d \<Rightarrow> d | Inl _ \<Rightarrow> example_state)"

lemma example_payload_facts:
  "model_validate_state example_payload = Inr example_payload \<and> ds_dns example_payload = None \<and>
   nd_link_local (ds_node example_payload) = None \<and> map if_name (ds_interfaces example_payload) = [''wg-a'']"
  by code_simp

theorem provision_roundtrip_witness:
  "\<exists>x t. snd (provision_node (\<lambda>_. []) example_payload (Some ''secret'') no_data) = t \<and>
     fst (desired_state_get (True, False) (nd_node_id (ds_node example_payload)) \<lparr>sr_db = t, sr_cache = []\<rparr>) = Inr (Some x) \<and>
     map if_name (ds_interfaces x) = [''wg-a''] \<and> ds_generation x = 1"
proof -
  let ?n = "nd_node_id (ds_node example_payload)"
  have none: "get_node m no_data = None" for m by (simp add: no_data_def get_node_def row_get_def)
  have s: "(foldl admin_step no_data [])\<lparr>ct_tokens := []\<rparr> = no_data" by (simp add: no_data_def)
  have r: "\<exists>x t. provision_node (\<lambda>_. []) example_payload (Some ''secret'') no_data = (Inr (x, [(?n, x)], ''admin provision''), t) \<and>
      x = example_payload\<lparr>ds_generation := (case get_node ?n no_data of None \<Rightarrow> 0 | Some r \<Rightarrow> nr_generation r) + 1\<rparr> \<and>
      (\<forall>redis c. (fst redis \<longrightarrow> map_of c (ds_cache_key ?n (ds_generation x)) \<in> {None, Some x}) \<longrightarrow>
         fst (desired_state_get redis ?n \<lparr>sr_db = t, sr_cache = c\<rparr>) = Inr (Some x))"
    by (rule provision_roundtrip [where ops = "[]" and toks = "[]", unfolded s])
       (use example_payload_facts in \<open>simp_all add: none token_writable_def\<close>)
  then obtain x t where x: "provision_node (\<lambda>_. []) example_payload (Some ''secret'') no_data = (Inr (x, [(?n, x)], ''admin provision''), t)"
    "x = example_payload\<lparr>ds_generation := 1\<rparr>"
    "\<And>redis c. (fst redis \<longrightarrow> map_of c (ds_cache_key ?n (ds_generation x)) \<in> {None, Some x}) \<Longrightarrow>
         fst (desired_state_get redis ?n \<lparr>sr_db = t, sr_cache = c\<rparr>) = Inr (Some x)"
    by (auto simp: none)
  have "map if_name (ds_interfaces x) = [''wg-a'']" "ds_generation x = 1"
    using example_payload_facts by (simp_all add: x(2))
  moreover have "fst (desired_state_get (True, False) ?n \<lparr>sr_db = t, sr_cache = []\<rparr>) = Inr (Some x)"
    by (rule x(3)) simp
  ultimately show ?thesis using x(1) by auto
qed

end
