(* ===== verification/Routing_Aggregate.thy ===== *)
theory Routing_Aggregate
  imports Routing_Table Agent_Report
begin

text \<open>
  The figures the server computes from a routing table, \<open>services/routing\_aggregate.py\<close>.  A counter is a
  dictionary from keys to counts in the order of first occurrence.
\<close>

section \<open>Best routes\<close>

definition family_of :: "string \<Rightarrow> string" where
  "family_of prefix = (if CHR '':'' \<in> set prefix then ''6'' else ''4'')"

definition best_step :: "(string \<times> observed_route) list \<Rightarrow> observed_route \<Rightarrow> (string \<times> observed_route) list" where
  "best_step best r = (if map_of best (or_prefix r) = None \<or> or_primary r then dput (or_prefix r) r best else best)"

definition best_by_prefix :: "observed_route list \<Rightarrow> observed_route list" where
  "best_by_prefix routes = map snd (foldl best_step [] routes)"

definition best_prefix_set :: "observed_route list \<Rightarrow> string set" where
  "best_prefix_set routes = set (map or_prefix (best_by_prefix routes))"

definition diff_prefix_sets :: "string set \<Rightarrow> string set \<Rightarrow> int \<times> int" where
  "diff_prefix_sets old new = (int (card (new - old)), int (card (old - new)))"

section \<open>Counters\<close>

definition count_key :: "'k \<Rightarrow> ('k \<times> int) list \<Rightarrow> ('k \<times> int) list" where
  "count_key k d = dput k (get_or 0 k d + 1) d"

definition most_common :: "('k \<times> int) list \<Rightarrow> ('k \<times> int) list" where
  "most_common d = sort_desc snd d"

definition rpki_bucket :: "string option \<Rightarrow> rpki_verdict option" where
  "rpki_bucket v =
     (if v = Some ''valid'' then Some Rpki_Valid else if v = Some ''invalid'' then Some Rpki_Invalid
      else if v = Some ''not-found'' then Some Rpki_Not_Found else None)"

text \<open>The number after the slash, 0 where there is none.\<close>

definition length_of_prefix :: "string \<Rightarrow> int" where
  "length_of_prefix prefix =
     (case dropWhile (\<lambda>c. c \<noteq> CHR ''/'') prefix of
        [] \<Rightarrow> 0
      | _ # digits \<Rightarrow> (case safe_int digits of None \<Rightarrow> 0 | Some n \<Rightarrow> n))"

record route_counts =
  tc_v4 :: int
  tc_v6 :: int
  tc_local :: int
  tc_non_local :: int
  tc_valid :: int
  tc_invalid :: int
  tc_not_found :: int
  tc_origins :: "(int \<times> int) list"
  tc_lengths_v4 :: "(int \<times> int) list"
  tc_lengths_v6 :: "(int \<times> int) list"
  tc_as_paths :: "(int \<times> int) list"
  tc_peers :: "(string \<times> int) list"

definition no_counts :: route_counts where
  "no_counts =
     \<lparr>tc_v4 = 0, tc_v6 = 0, tc_local = 0, tc_non_local = 0, tc_valid = 0, tc_invalid = 0, tc_not_found = 0,
      tc_origins = [], tc_lengths_v4 = [], tc_lengths_v6 = [], tc_as_paths = [], tc_peers = []\<rparr>"

definition count_family :: "observed_route \<Rightarrow> route_counts \<Rightarrow> route_counts" where
  "count_family r c =
     (if family_of (or_prefix r) = ''6''
      then c\<lparr>tc_v6 := tc_v6 c + 1, tc_lengths_v6 := count_key (length_of_prefix (or_prefix r)) (tc_lengths_v6 c)\<rparr>
      else c\<lparr>tc_v4 := tc_v4 c + 1, tc_lengths_v4 := count_key (length_of_prefix (or_prefix r)) (tc_lengths_v4 c)\<rparr>)"

text \<open>Local routes take no part in the RPKI figures.\<close>

definition count_rpki :: "observed_route \<Rightarrow> route_counts \<Rightarrow> route_counts" where
  "count_rpki r c =
     (if or_local r then c\<lparr>tc_local := tc_local c + 1\<rparr>
      else let c = c\<lparr>tc_non_local := tc_non_local c + 1\<rparr> in
        (case rpki_bucket (or_rpki r) of
           None \<Rightarrow> c
         | Some Rpki_Valid \<Rightarrow> c\<lparr>tc_valid := tc_valid c + 1\<rparr>
         | Some Rpki_Invalid \<Rightarrow> c\<lparr>tc_invalid := tc_invalid c + 1\<rparr>
         | Some Rpki_Not_Found \<Rightarrow> c\<lparr>tc_not_found := tc_not_found c + 1\<rparr>))"

definition count_route :: "route_counts \<Rightarrow> observed_route \<Rightarrow> route_counts" where
  "count_route c r =
     (let c = count_rpki r (count_family r c);
          c = (case or_origin_asn r of None \<Rightarrow> c | Some a \<Rightarrow> c\<lparr>tc_origins := count_key a (tc_origins c)\<rparr>);
          c = c\<lparr>tc_as_paths := count_key (int (length (or_as_path r))) (tc_as_paths c)\<rparr> in
      case or_protocol r of
        None \<Rightarrow> c
      | Some p \<Rightarrow> if p \<noteq> [] then c\<lparr>tc_peers := count_key p (tc_peers c)\<rparr> else c)"

record route_aggregates =
  ra_count :: int
  ra_v4 :: int
  ra_v6 :: int
  ra_local :: int
  ra_valid :: int
  ra_invalid :: int
  ra_not_found :: int
  ra_rpki_observed :: bool
  ra_origins :: "(int \<times> int) list"
  ra_peers :: "(string \<times> int) list"
  ra_lengths_v4 :: "(string \<times> int) list"
  ra_lengths_v6 :: "(string \<times> int) list"
  ra_as_paths :: "(string \<times> int) list"

definition by_number :: "(int \<times> int) list \<Rightarrow> (string \<times> int) list" where
  "by_number d = map (\<lambda>(k, v). (str_int k, v)) (sort_key fst d)"

definition aggregate_routes :: "observed_route list \<Rightarrow> route_aggregates" where
  "aggregate_routes routes =
     (let c = foldl count_route no_counts (best_by_prefix routes) in
      \<lparr>ra_count = tc_v4 c + tc_v6 c, ra_v4 = tc_v4 c, ra_v6 = tc_v6 c, ra_local = tc_local c,
       ra_valid = tc_valid c, ra_invalid = tc_invalid c, ra_not_found = tc_not_found c,
       ra_rpki_observed = (\<not> (0 < tc_non_local c \<and> tc_valid c + tc_invalid c + tc_not_found c = 0)),
       ra_origins = most_common (tc_origins c), ra_peers = most_common (tc_peers c),
       ra_lengths_v4 = by_number (tc_lengths_v4 c), ra_lengths_v6 = by_number (tc_lengths_v6 c),
       ra_as_paths = by_number (tc_as_paths c)\<rparr>)"

section \<open>What a best route is\<close>

text \<open>The last primary route of the prefix, or its first route when none is primary.\<close>

definition best_of :: "observed_route list \<Rightarrow> observed_route option" where
  "best_of own =
     (if own = [] then None
      else if filter or_primary own = [] then Some (hd own) else Some (last (filter or_primary own)))"

definition best_route :: "string \<Rightarrow> observed_route list \<Rightarrow> observed_route option" where
  "best_route p routes = best_of (filter (\<lambda>r. or_prefix r = p) routes)"

lemma best_of_snoc: "best_of (own @ [x]) = (if own = [] \<or> or_primary x then Some x else best_of own)"
  by (simp add: best_of_def)

lemma best_of_None: "best_of own = None \<longleftrightarrow> own = []"
  by (simp add: best_of_def)

lemma best_of_mem: "best_of own = Some r \<Longrightarrow> r \<in> set own"
  using last_in_set [of "filter or_primary own"] by (auto simp: best_of_def split: if_splits)

lemma set_dput: "set (dput k v d) \<subseteq> insert (k, v) (set d)"
  by (induction k v d rule: dput.induct) auto

definition keyed :: "(string \<times> observed_route) list \<Rightarrow> bool" where
  "keyed d \<longleftrightarrow> distinct (map fst d) \<and> (\<forall>(q, r)\<in>set d. or_prefix r = q)"

lemma keyed_step: "keyed d \<Longrightarrow> keyed (best_step d x)"
proof -
  assume k: "keyed d"
  have "(q, r) = (or_prefix x, x) \<or> (q, r) \<in> set d" if "(q, r) \<in> set (dput (or_prefix x) x d)" for q r
    using that set_dput [of "or_prefix x" x d] by blast
  then show ?thesis using k by (fastforce simp: keyed_def best_step_def distinct_dput)
qed

lemma keyed_fold: "keyed d \<Longrightarrow> keyed (foldl best_step d routes)"
  by (induction routes arbitrary: d) (simp_all add: keyed_step)

lemma best_keyed:
  "distinct (map fst (foldl best_step [] routes))"
  "(q, r) \<in> set (foldl best_step [] routes) \<Longrightarrow> or_prefix r = q"
  using keyed_fold [of "[]" routes] by (auto simp: keyed_def)

lemma best_map: "map_of (foldl best_step [] routes) p = best_route p routes"
proof (induction routes rule: rev_induct)
  case (snoc x routes)
  have "map_of (best_step d x) p =
      (if p = or_prefix x \<and> (map_of d p = None \<or> or_primary x) then Some x else map_of d p)" for d
    by (auto simp: best_step_def)
  then show ?case using snoc.IH by (auto simp: best_route_def best_of_snoc best_of_None)
qed (simp add: best_route_def best_of_def)

lemma best_props:
  "distinct (map or_prefix (best_by_prefix routes))"
  "r \<in> set (best_by_prefix routes) \<longleftrightarrow> best_route (or_prefix r) routes = Some r"
proof -
  let ?d = "foldl best_step [] routes"
  have f: "\<And>p. map_of ?d p = best_route p routes" "\<And>q r. (q, r) \<in> set ?d \<Longrightarrow> or_prefix r = q" "distinct (map fst ?d)"
    using best_map best_keyed by blast+
  have "map or_prefix (best_by_prefix routes) = map fst ?d"
    unfolding best_by_prefix_def map_map by (rule map_cong) (use f(2) in auto)
  then show "distinct (map or_prefix (best_by_prefix routes))" using f(3) by simp
  have "r \<in> set (best_by_prefix routes) \<longleftrightarrow> (or_prefix r, r) \<in> set ?d"
  proof
    assume "r \<in> set (best_by_prefix routes)"
    then obtain q where "(q, r) \<in> set ?d" by (auto simp: best_by_prefix_def)
    then show "(or_prefix r, r) \<in> set ?d" using f(2) by blast
  next
    assume "(or_prefix r, r) \<in> set ?d"
    then have "snd (or_prefix r, r) \<in> snd ` set ?d" by (rule imageI)
    then show "r \<in> set (best_by_prefix routes)" by (simp add: best_by_prefix_def)
  qed
  also have "\<dots> \<longleftrightarrow> best_route (or_prefix r) routes = Some r"
    unfolding f(1) [symmetric] using map_of_eq_Some_iff [OF f(3), of "or_prefix r" r] by blast
  finally show "r \<in> set (best_by_prefix routes) \<longleftrightarrow> best_route (or_prefix r) routes = Some r" .
qed

lemma best_route_found: "best_route p routes = None \<longleftrightarrow> p \<notin> or_prefix ` set routes"
  by (auto simp: best_route_def best_of_None filter_empty_conv)

lemma best_route_prefix: "best_route p routes = Some r \<Longrightarrow> or_prefix r = p"
  using best_of_mem [of "filter (\<lambda>r. or_prefix r = p) routes" r] by (simp add: best_route_def)

lemma best_prefix_set_eq: "best_prefix_set routes = or_prefix ` set routes"
proof -
  have "p \<in> best_prefix_set routes \<longleftrightarrow> best_route p routes \<noteq> None" for p
  proof
    assume "p \<in> best_prefix_set routes"
    then show "best_route p routes \<noteq> None" using best_props(2) by (auto simp: best_prefix_set_def)
  next
    assume "best_route p routes \<noteq> None"
    then obtain r where r: "best_route p routes = Some r" by blast
    then have "r \<in> set (best_by_prefix routes)" using best_props(2) best_route_prefix [OF r] by simp
    then show "p \<in> best_prefix_set routes" using best_route_prefix [OF r] by (auto simp: best_prefix_set_def)
  qed
  then show ?thesis using best_route_found by blast
qed

section \<open>What a counter holds\<close>

definition tally_keys :: "'k list \<Rightarrow> ('k \<times> int) list" where
  "tally_keys ks = foldl (\<lambda>d k. count_key k d) [] ks"

lemma tally_facts:
  "distinct (map fst (tally_keys ks))"
  "(k, c) \<in> set (tally_keys ks) \<longleftrightarrow> 0 < c \<and> c = int (count_list ks k)"
proof -
  have *: "distinct (map fst (tally_keys ks)) \<and>
     map_of (tally_keys ks) k = (if k \<in> set ks then Some (int (count_list ks k)) else None)" for k
    by (induction ks rule: rev_induct)
       (auto simp: tally_keys_def count_key_def get_or_def distinct_dput count_list_append)
  then show d: "distinct (map fst (tally_keys ks))" by blast
  show "(k, c) \<in> set (tally_keys ks) \<longleftrightarrow> 0 < c \<and> c = int (count_list ks k)"
    unfolding map_of_eq_Some_iff [OF d, symmetric] using * [of k] count_list_0_iff [of ks k] by auto
qed

lemma count_route_fields:
  "tc_v4 (count_route c r) = tc_v4 c + (if family_of (or_prefix r) = ''6'' then 0 else 1)"
  "tc_v6 (count_route c r) = tc_v6 c + (if family_of (or_prefix r) = ''6'' then 1 else 0)"
  "tc_local (count_route c r) = tc_local c + (if or_local r then 1 else 0)"
  "tc_non_local (count_route c r) = tc_non_local c + (if or_local r then 0 else 1)"
  "tc_valid (count_route c r) = tc_valid c + (if \<not> or_local r \<and> or_rpki r = Some ''valid'' then 1 else 0)"
  "tc_invalid (count_route c r) = tc_invalid c + (if \<not> or_local r \<and> or_rpki r = Some ''invalid'' then 1 else 0)"
  "tc_not_found (count_route c r) = tc_not_found c + (if \<not> or_local r \<and> or_rpki r = Some ''not-found'' then 1 else 0)"
  "tc_origins (count_route c r) = (case or_origin_asn r of None \<Rightarrow> tc_origins c | Some a \<Rightarrow> count_key a (tc_origins c))"
  "tc_peers (count_route c r) =
     (case or_protocol r of None \<Rightarrow> tc_peers c | Some p \<Rightarrow> if p \<noteq> [] then count_key p (tc_peers c) else tc_peers c)"
  "tc_lengths_v4 (count_route c r) =
     (if family_of (or_prefix r) = ''6'' then tc_lengths_v4 c else count_key (length_of_prefix (or_prefix r)) (tc_lengths_v4 c))"
  "tc_lengths_v6 (count_route c r) =
     (if family_of (or_prefix r) = ''6'' then count_key (length_of_prefix (or_prefix r)) (tc_lengths_v6 c) else tc_lengths_v6 c)"
  "tc_as_paths (count_route c r) = count_key (int (length (or_as_path r))) (tc_as_paths c)"
  by (simp_all add: count_route_def count_family_def count_rpki_def rpki_bucket_def Let_def split: option.split)

lemma counted:
  "tc_v4 (foldl count_route c rs) = tc_v4 c + int (length (filter (\<lambda>r. family_of (or_prefix r) \<noteq> ''6'') rs))"
  "tc_v6 (foldl count_route c rs) = tc_v6 c + int (length (filter (\<lambda>r. family_of (or_prefix r) = ''6'') rs))"
  "tc_local (foldl count_route c rs) = tc_local c + int (length (filter or_local rs))"
  "tc_non_local (foldl count_route c rs) = tc_non_local c + int (length (filter (\<lambda>r. \<not> or_local r) rs))"
  "tc_valid (foldl count_route c rs) =
     tc_valid c + int (length (filter (\<lambda>r. \<not> or_local r \<and> or_rpki r = Some ''valid'') rs))"
  "tc_invalid (foldl count_route c rs) =
     tc_invalid c + int (length (filter (\<lambda>r. \<not> or_local r \<and> or_rpki r = Some ''invalid'') rs))"
  "tc_not_found (foldl count_route c rs) =
     tc_not_found c + int (length (filter (\<lambda>r. \<not> or_local r \<and> or_rpki r = Some ''not-found'') rs))"
  by (induction rs arbitrary: c) (auto simp: count_route_fields)

text \<open>The keys a counter is fed with.\<close>

definition origin_keys :: "observed_route list \<Rightarrow> int list" where
  "origin_keys rs = List.map_filter or_origin_asn rs"

definition peer_keys :: "observed_route list \<Rightarrow> string list" where
  "peer_keys rs = List.map_filter (\<lambda>r. if or_protocol r = Some [] then None else or_protocol r) rs"

definition length_keys :: "(string \<Rightarrow> bool) \<Rightarrow> observed_route list \<Rightarrow> int list" where
  "length_keys P rs = map (\<lambda>r. length_of_prefix (or_prefix r)) (filter (\<lambda>r. P (family_of (or_prefix r))) rs)"

lemma fed:
  "tc_origins (foldl count_route c rs) = foldl (\<lambda>d k. count_key k d) (tc_origins c) (origin_keys rs)"
  "tc_peers (foldl count_route c rs) = foldl (\<lambda>d k. count_key k d) (tc_peers c) (peer_keys rs)"
  "tc_lengths_v4 (foldl count_route c rs) = foldl (\<lambda>d k. count_key k d) (tc_lengths_v4 c) (length_keys (\<lambda>f. f \<noteq> ''6'') rs)"
  "tc_lengths_v6 (foldl count_route c rs) = foldl (\<lambda>d k. count_key k d) (tc_lengths_v6 c) (length_keys (\<lambda>f. f = ''6'') rs)"
  "tc_as_paths (foldl count_route c rs) =
     foldl (\<lambda>d k. count_key k d) (tc_as_paths c) (map (\<lambda>r. int (length (or_as_path r))) rs)"
  by (induction rs arbitrary: c)
     (auto simp: count_route_fields origin_keys_def peer_keys_def length_keys_def List.map_filter_simps split: option.split)

lemma tallied:
  "tc_origins (foldl count_route no_counts rs) = tally_keys (origin_keys rs)"
  "tc_peers (foldl count_route no_counts rs) = tally_keys (peer_keys rs)"
  "tc_lengths_v4 (foldl count_route no_counts rs) = tally_keys (length_keys (\<lambda>f. f \<noteq> ''6'') rs)"
  "tc_lengths_v6 (foldl count_route no_counts rs) = tally_keys (length_keys (\<lambda>f. f = ''6'') rs)"
  "tc_as_paths (foldl count_route no_counts rs) = tally_keys (map (\<lambda>r. int (length (or_as_path r))) rs)"
  by (simp_all add: fed tally_keys_def no_counts_def)

lemma count_keys:
  "int (count_list (origin_keys rs) a) = int (length (filter (\<lambda>r. or_origin_asn r = Some a) rs))"
  "int (count_list (peer_keys rs) p) = int (length (filter (\<lambda>r. p \<noteq> [] \<and> or_protocol r = Some p) rs))"
  by (induction rs) (auto simp: origin_keys_def peer_keys_def List.map_filter_simps split: option.split)

lemma sum_count_key: "sum_list (map snd (count_key k d)) = sum_list (map snd d) + 1"
  by (induction d) (auto simp: count_key_def get_or_def)

lemma sum_tally: "sum_list (map snd (tally_keys ks)) = int (length ks)"
  by (induction ks rule: rev_induct) (simp_all add: tally_keys_def sum_count_key)

lemma sum_by_number: "sum_list (map snd (by_number d)) = sum_list (map snd d)"
proof -
  have "map snd (by_number d) = map snd (sort_key fst d)" by (simp add: by_number_def split_def)
  then show ?thesis by (metis mset_map mset_sort sum_mset_sum_list)
qed

lemma most_common_facts:
  "set (most_common d) = set d" "distinct (map fst d) \<Longrightarrow> distinct (map fst (most_common d))"
  "sorted (rev (map snd (most_common d)))"
proof -
  have m: "mset (most_common d) = mset d" by (simp add: most_common_def sort_desc_facts(1))
  then show "set (most_common d) = set d" by (metis set_mset_mset)
  show "distinct (map fst (most_common d))" if "distinct (map fst d)"
    using that m by (metis mset_eq_imp_distinct_iff mset_map)
  show "sorted (rev (map snd (most_common d)))" by (simp add: most_common_def sort_desc_facts(2) del: rev_map)
qed

lemma best_sizes:
  "card (or_prefix ` set routes) = length (best_by_prefix routes)"
  "length (filter (\<lambda>r. family_of (or_prefix r) \<noteq> ''6'') (best_by_prefix routes)) +
     length (filter (\<lambda>r. family_of (or_prefix r) = ''6'') (best_by_prefix routes)) = length (best_by_prefix routes)"
  "length (filter or_local (best_by_prefix routes)) + length (filter (\<lambda>r. \<not> or_local r) (best_by_prefix routes)) =
     length (best_by_prefix routes)"
  using distinct_card [OF best_props(1) [of routes]] best_prefix_set_eq [of routes]
    sum_length_filter_compl [of "\<lambda>r. family_of (or_prefix r) = ''6''" "best_by_prefix routes"]
    sum_length_filter_compl [of or_local "best_by_prefix routes"]
  by (simp_all add: best_prefix_set_def)

lemma aggregate_fields:
  fixes routes defines "n \<equiv> (\<lambda>P. int (length (filter P (best_by_prefix routes))))"
  shows "ra_count (aggregate_routes routes) = int (length (best_by_prefix routes))"
    "ra_v4 (aggregate_routes routes) = n (\<lambda>r. family_of (or_prefix r) \<noteq> ''6'')"
    "ra_v6 (aggregate_routes routes) = n (\<lambda>r. family_of (or_prefix r) = ''6'')"
    "ra_local (aggregate_routes routes) = n or_local"
    "ra_valid (aggregate_routes routes) = n (\<lambda>r. \<not> or_local r \<and> or_rpki r = Some ''valid'')"
    "ra_invalid (aggregate_routes routes) = n (\<lambda>r. \<not> or_local r \<and> or_rpki r = Some ''invalid'')"
    "ra_not_found (aggregate_routes routes) = n (\<lambda>r. \<not> or_local r \<and> or_rpki r = Some ''not-found'')"
    "ra_origins (aggregate_routes routes) = most_common (tally_keys (origin_keys (best_by_prefix routes)))"
    "ra_peers (aggregate_routes routes) = most_common (tally_keys (peer_keys (best_by_prefix routes)))"
    "ra_lengths_v4 (aggregate_routes routes) = by_number (tally_keys (length_keys (\<lambda>f. f \<noteq> ''6'') (best_by_prefix routes)))"
    "ra_lengths_v6 (aggregate_routes routes) = by_number (tally_keys (length_keys (\<lambda>f. f = ''6'') (best_by_prefix routes)))"
    "ra_as_paths (aggregate_routes routes) =
       by_number (tally_keys (map (\<lambda>r. int (length (or_as_path r))) (best_by_prefix routes)))"
    "ra_rpki_observed (aggregate_routes routes) \<longleftrightarrow>
       \<not> (0 < n (\<lambda>r. \<not> or_local r) \<and> ra_valid (aggregate_routes routes) + ra_invalid (aggregate_routes routes) +
            ra_not_found (aggregate_routes routes) = 0)"
proof -
  note agg = aggregate_routes_def Let_def counted tallied n_def
  have zero: "tc_v4 no_counts = 0" "tc_v6 no_counts = 0" "tc_local no_counts = 0" "tc_non_local no_counts = 0"
    "tc_valid no_counts = 0" "tc_invalid no_counts = 0" "tc_not_found no_counts = 0" by (simp_all add: no_counts_def)
  show "ra_count (aggregate_routes routes) = int (length (best_by_prefix routes))"
    using best_sizes(2) [of routes] by (simp add: agg zero)
  show "ra_rpki_observed (aggregate_routes routes) \<longleftrightarrow>
     \<not> (0 < n (\<lambda>r. \<not> or_local r) \<and> ra_valid (aggregate_routes routes) + ra_invalid (aggregate_routes routes) +
          ra_not_found (aggregate_routes routes) = 0)"
    by (simp only: agg zero route_aggregates.simps add_0)
qed (simp_all add: aggregate_routes_def Let_def counted tallied n_def, simp_all add: no_counts_def)

lemma aggregate_observed:
  "ra_rpki_observed (aggregate_routes routes) \<longleftrightarrow>
     ra_local (aggregate_routes routes) = ra_count (aggregate_routes routes) \<or>
     0 < ra_valid (aggregate_routes routes) + ra_invalid (aggregate_routes routes) + ra_not_found (aggregate_routes routes)"
proof -
  have "0 \<le> ra_valid (aggregate_routes routes) + ra_invalid (aggregate_routes routes) + ra_not_found (aggregate_routes routes)"
    by (simp add: aggregate_fields)
  moreover have "0 < int (length (filter (\<lambda>r. \<not> or_local r) (best_by_prefix routes))) \<longleftrightarrow>
      ra_local (aggregate_routes routes) \<noteq> ra_count (aggregate_routes routes)"
    unfolding aggregate_fields using best_sizes(3) [of routes] by linarith
  ultimately show ?thesis unfolding aggregate_fields(13) by linarith
qed

text \<open>C18: The figures of a routing table are those of its best routes.  A prefix has one best route, its last primary
  one or else its first; the table's size is the number of prefixes; versions, local routes and RPKI verdicts are
  counted over the best routes, the verdicts without the local ones; the two rankings list every origin and every
  protocol that occurs, once, with the number of its best routes, in descending order; and the distributions add up
  to the routes they are about.\<close>

theorem routing_aggregates_exact:
  "let a = aggregate_routes routes; n = (\<lambda>P. int (length (filter P (best_by_prefix routes)))) in
     (r \<in> set (best_by_prefix routes) \<longleftrightarrow> best_route (or_prefix r) routes = Some r) \<and>
     ra_count a = int (card (or_prefix ` set routes)) \<and>
     ra_v6 a = n (\<lambda>r. family_of (or_prefix r) = ''6'') \<and> ra_v4 a + ra_v6 a = ra_count a \<and> ra_local a = n or_local \<and>
     ra_valid a = n (\<lambda>r. \<not> or_local r \<and> or_rpki r = Some ''valid'') \<and>
     ra_invalid a = n (\<lambda>r. \<not> or_local r \<and> or_rpki r = Some ''invalid'') \<and>
     ra_not_found a = n (\<lambda>r. \<not> or_local r \<and> or_rpki r = Some ''not-found'') \<and>
     (ra_rpki_observed a \<longleftrightarrow> ra_local a = ra_count a \<or> 0 < ra_valid a + ra_invalid a + ra_not_found a) \<and>
     ((asn, c) \<in> set (ra_origins a) \<longleftrightarrow> 0 < c \<and> c = n (\<lambda>r. or_origin_asn r = Some asn)) \<and>
     distinct (map fst (ra_origins a)) \<and> sorted (rev (map snd (ra_origins a))) \<and>
     ((p, c) \<in> set (ra_peers a) \<longleftrightarrow> 0 < c \<and> c = n (\<lambda>r. p \<noteq> [] \<and> or_protocol r = Some p)) \<and>
     distinct (map fst (ra_peers a)) \<and> sorted (rev (map snd (ra_peers a))) \<and>
     sum_list (map snd (ra_lengths_v4 a)) = ra_v4 a \<and> sum_list (map snd (ra_lengths_v6 a)) = ra_v6 a \<and>
     sum_list (map snd (ra_as_paths a)) = ra_count a"
proof -
  note simps = best_sizes(1) [of routes] aggregate_fields(1-12) best_props(2) most_common_facts tally_facts count_keys
    sum_by_number sum_tally aggregate_observed
  show ?thesis using best_sizes [of routes] by (simp add: Let_def simps length_keys_def)
qed

end
