(* ===== verification/Routing_Store.thy ===== *)
theory Routing_Store
  imports Routing_Aggregate Status_Log
begin

text \<open>
  The routing tables the agents report, \<open>services/routing.py\<close> over \<open>db/models/routing.py\<close>: per node one row with the
  figures of its latest table, one entry per route, and a bounded series of figures with the prefixes that came and
  went.  \<open>h\<close> is the digest of the canonical form of a list of routes, \<open>moment\<close> is \<open>datetime.fromisoformat\<close> as a
  moment in seconds.  Entries stand in the order of their numbers.  The columns that are filled from the server's clock
  are left out, and with them the trend of \<open>get\_fleet\_overview\<close>.
\<close>

section \<open>Tables\<close>

record 'h routing_row =
  ng_node_id :: string
  ng_observation :: observation_status
  ng_captured_at :: "rat option"
  ng_count :: int
  ng_v4 :: int
  ng_v6 :: int
  ng_valid :: int
  ng_invalid :: int
  ng_not_found :: int
  ng_aggregates :: "(route_aggregates \<times> prefilter_rpki option \<times> 'h) option"

record route_entry =
  ne_node_id :: string
  ne_prefix :: string
  ne_is_v6 :: bool
  ne_local :: bool
  ne_primary :: bool
  ne_origin_asn :: "int option"
  ne_protocol :: "string option"
  ne_rpki :: "string option"
  ne_next_hop :: "string option"
  ne_as_path :: "int list"
  ne_communities :: "string list"
  ne_large_communities :: "string list"

record routing_event =
  ev_node_id :: string
  ev_captured_at :: "rat option"
  ev_count :: int
  ev_v4 :: int
  ev_v6 :: int
  ev_valid :: int
  ev_invalid :: int
  ev_not_found :: int
  ev_announced :: int
  ev_withdrawn :: int

record routing_summary =
  su_node_id :: string
  su_observation :: observation_status
  su_captured_at :: "rat option"
  su_count :: int
  su_v4 :: int
  su_v6 :: int
  su_rpki :: "int \<times> int \<times> int"
  su_aggregates :: "(route_aggregates \<times> prefilter_rpki option) option"

text \<open>What the fleet view shows: the sums, then each node's row.  As many nodes report as there are rows.\<close>

record routing_fleet =
  fl_count :: int
  fl_v4 :: int
  fl_v6 :: int
  fl_rpki :: "int \<times> int \<times> int"
  fl_nodes :: "(string \<times> observation_status \<times> rat option \<times> int \<times> int \<times> int \<times> int \<times> int \<times> int) list"

record 'h routing_world =
  rt_db :: control
  rt_rows :: "'h routing_row list"
  rt_entries :: "route_entry list"
  rt_events :: "(int \<times> routing_event) list"
  rt_next_event :: int
  rt_summaries :: "(string \<times> int \<times> routing_summary) list"
  rt_fleet :: "(int \<times> routing_fleet) option"

definition ROUTING_HISTORY_KEEP :: nat where
  "ROUTING_HISTORY_KEEP = 500"

definition ROUTING_TTL :: int where
  "ROUTING_TTL = 30"

type_synonym posted_table = "string \<times> routing_snapshot"

definition posted_node :: "posted_table \<Rightarrow> string" where
  "posted_node p = routing_snapshot.rs_node_id (snd p)"

definition routing_row_of :: "string \<Rightarrow> 'h routing_world \<Rightarrow> 'h routing_row option" where
  "routing_row_of n w = row_get ng_node_id n (rt_rows w)"

definition fresh_routing :: "string \<Rightarrow> 'h routing_row" where
  "fresh_routing n =
     \<lparr>ng_node_id = n, ng_observation = NOT_OBSERVED, ng_captured_at = None, ng_count = 0, ng_v4 = 0, ng_v6 = 0,
      ng_valid = 0, ng_invalid = 0, ng_not_found = 0, ng_aggregates = None\<rparr>"

definition get_or_create_routing :: "string \<Rightarrow> 'h routing_world \<Rightarrow> 'h routing_row" where
  "get_or_create_routing n w = or_default (fresh_routing n) (routing_row_of n w)"

definition route_to_entry :: "string \<Rightarrow> observed_route \<Rightarrow> route_entry" where
  "route_to_entry n r =
     \<lparr>ne_node_id = n, ne_prefix = or_prefix r, ne_is_v6 = (CHR '':'' \<in> set (or_prefix r)), ne_local = or_local r,
      ne_primary = or_primary r, ne_origin_asn = or_origin_asn r, ne_protocol = or_protocol r, ne_rpki = or_rpki r,
      ne_next_hop = or_next_hop r, ne_as_path = or_as_path r, ne_communities = or_communities r,
      ne_large_communities = or_large_communities r\<rparr>"

definition entry_to_dict :: "route_entry \<Rightarrow> observed_route" where
  "entry_to_dict e =
     \<lparr>or_prefix = ne_prefix e, or_origin_asn = ne_origin_asn e, or_as_path = ne_as_path e, or_next_hop = ne_next_hop e,
      or_protocol = ne_protocol e, or_primary = ne_primary e, or_local = ne_local e, or_communities = ne_communities e,
      or_large_communities = ne_large_communities e, or_rpki = ne_rpki e\<rparr>"

section \<open>Recording a table\<close>

definition existing_prefixes :: "string \<Rightarrow> 'h routing_world \<Rightarrow> string set" where
  "existing_prefixes n w = set (map ne_prefix (filter (\<lambda>e. ne_node_id e = n) (rt_entries w)))"

definition own_event :: "string \<Rightarrow> int \<times> routing_event \<Rightarrow> bool" where
  "own_event n e \<longleftrightarrow> ev_node_id (snd e) = n"

definition trim_routing_history :: "string \<Rightarrow> 'h routing_world \<Rightarrow> 'h routing_world" where
  "trim_routing_history n w =
     (let keep = take ROUTING_HISTORY_KEEP (rev (sort (map fst (filter (own_event n) (rt_events w))))) in
      w\<lparr>rt_events := filter (\<lambda>e. \<not> (own_event n e \<and> fst e \<notin> set keep)) (rt_events w)\<rparr>)"

definition add_routing_event :: "routing_event \<Rightarrow> 'h routing_world \<Rightarrow> 'h routing_world" where
  "add_routing_event e w =
     w\<lparr>rt_events := rt_events w @ [(rt_next_event w, e)], rt_next_event := rt_next_event w + 1\<rparr>"

text \<open>The row after a table was observed, and the event that is written with it.\<close>

definition with_table :: "(observed_route list \<Rightarrow> 'h) \<Rightarrow> routing_snapshot \<Rightarrow> 'h routing_row \<Rightarrow> 'h routing_row" where
  "with_table h x row =
     (let a = aggregate_routes (rs_routes x) in
      row\<lparr>ng_aggregates := Some (a, rs_prefilter x, h (rs_routes x)), ng_count := ra_count a, ng_v4 := ra_v4 a, ng_v6 := ra_v6 a,
          ng_valid := ra_valid a, ng_invalid := ra_invalid a, ng_not_found := ra_not_found a\<rparr>)"

definition table_event :: "'h routing_row \<Rightarrow> rat option \<Rightarrow> int \<times> int \<Rightarrow> routing_event" where
  "table_event row captured churn =
     \<lparr>ev_node_id = ng_node_id row, ev_captured_at = captured, ev_count = ng_count row, ev_v4 = ng_v4 row, ev_v6 = ng_v6 row,
      ev_valid = ng_valid row, ev_invalid = ng_invalid row, ev_not_found = ng_not_found row,
      ev_announced = fst churn, ev_withdrawn = snd churn\<rparr>"

definition rewrite_entries :: "string \<Rightarrow> observed_route list \<Rightarrow> 'h routing_world \<Rightarrow> 'h routing_world" where
  "rewrite_entries n routes w =
     w\<lparr>rt_entries := filter (\<lambda>e. ne_node_id e \<noteq> n) (rt_entries w) @ map (route_to_entry n) routes\<rparr>"

definition put_routing_row :: "'h routing_row \<Rightarrow> 'h routing_world \<Rightarrow> 'h routing_world" where
  "put_routing_row row w = w\<lparr>rt_rows := row_put ng_node_id row (rt_rows w)\<rparr>"

text \<open>The transaction; the result says whether a table was observed.  The row refers to the node.\<close>

definition store_table ::
  "(observed_route list \<Rightarrow> 'h) \<Rightarrow> (string \<Rightarrow> rat option) \<Rightarrow> posted_table \<Rightarrow> ('h routing_world, bool) eff" where
  "store_table h moment p =
     transaction (reading (\<lambda>w.
       let n = posted_node p; x = snd p; captured = moment (fst p);
           old = get_or_create_routing n w;
           row = old\<lparr>ng_observation := rs_observation x,
                     ng_captured_at := (case captured of None \<Rightarrow> ng_captured_at old | Some t \<Rightarrow> Some t)\<rparr> in
       if get_node n (rt_db w) = None then lift_res (Inl (IntegrityError ''node_routing.node_id''))
       else if rs_observation x \<noteq> OBSERVED then seq (modify (put_routing_row row)) (\<lambda>_. ret False)
       else
         let new_row = with_table h x row;
             old_hash = map_option (\<lambda>(_, _, d). d) (ng_aggregates row);
             changed = (Some (h (rs_routes x)) \<noteq> old_hash);
             churn = (if changed then diff_prefix_sets (existing_prefixes n w) (best_prefix_set (rs_routes x)) else (0, 0)) in
         seq (modify (put_routing_row new_row)) (\<lambda>_.
         seq (modify (if changed then rewrite_entries n (rs_routes x) else (\<lambda>w. w))) (\<lambda>_.
         seq (modify (\<lambda>w. trim_routing_history n (add_routing_event (table_event new_row captured churn) w))) (\<lambda>_.
           ret True)))))"

definition bust_routing :: "string \<Rightarrow> 'h routing_world \<Rightarrow> 'h routing_world" where
  "bust_routing n w = w\<lparr>rt_summaries := ddel n (rt_summaries w), rt_fleet := None\<rparr>"

text \<open>The caches are cleared after the transaction, but not when the code has already returned from it.\<close>

definition record_table ::
  "(observed_route list \<Rightarrow> 'h) \<Rightarrow> (string \<Rightarrow> rat option) \<Rightarrow> posted_table \<Rightarrow> ('h routing_world, unit) eff" where
  "record_table h moment p =
     seq (store_table h moment p) (\<lambda>observed. if observed then modify (bust_routing (posted_node p)) else ret ())"

definition post_routing_table ::
  "digest \<Rightarrow> int \<Rightarrow> (observed_route list \<Rightarrow> 'h) \<Rightarrow> (string \<Rightarrow> rat option) \<Rightarrow> string option \<Rightarrow> posted_table \<Rightarrow>
   ('h routing_world, observation_status \<times> nat) eff" where
  "post_routing_table hash now h moment authorization p =
     reading (\<lambda>w. seq (lift_res (require_agent hash now authorization (rt_db w))) (\<lambda>principal.
       seq (lift_res (ensure_self principal (posted_node p))) (\<lambda>_.
       seq (record_table h moment p) (\<lambda>_. ret (rs_observation (snd p), length (rs_routes (snd p)))))))"

section \<open>Reading\<close>

definition summary_dict :: "'h routing_row \<Rightarrow> routing_summary" where
  "summary_dict r =
     \<lparr>su_node_id = ng_node_id r, su_observation = ng_observation r, su_captured_at = ng_captured_at r, su_count = ng_count r,
      su_v4 = ng_v4 r, su_v6 = ng_v6 r, su_rpki = (ng_valid r, ng_invalid r, ng_not_found r),
      su_aggregates = map_option (\<lambda>(a, p, _). (a, p)) (ng_aggregates r)\<rparr>"

definition get_summary :: "int \<Rightarrow> string \<Rightarrow> 'h routing_world \<Rightarrow> routing_summary option \<times> 'h routing_world" where
  "get_summary now n w =
     (case live now (map_of (rt_summaries w) n) of
        Some cached \<Rightarrow> (Some cached, w)
      | None \<Rightarrow>
          (case routing_row_of n w of
             None \<Rightarrow> (None, w)
           | Some r \<Rightarrow> (Some (summary_dict r), w\<lparr>rt_summaries := dput n (now + ROUTING_TTL, summary_dict r) (rt_summaries w)\<rparr>)))"

definition fleet_of :: "'h routing_row list \<Rightarrow> routing_fleet" where
  "fleet_of rows =
     foldl (\<lambda>f r. f\<lparr>fl_count := fl_count f + ng_count r, fl_v4 := fl_v4 f + ng_v4 r, fl_v6 := fl_v6 f + ng_v6 r,
         fl_rpki := (case fl_rpki f of (v, i, k) \<Rightarrow> (v + ng_valid r, i + ng_invalid r, k + ng_not_found r)),
         fl_nodes := fl_nodes f @ [(ng_node_id r, ng_observation r, ng_captured_at r, ng_count r, ng_v4 r, ng_v6 r,
                                    ng_valid r, ng_invalid r, ng_not_found r)]\<rparr>)
       \<lparr>fl_count = 0, fl_v4 = 0, fl_v6 = 0, fl_rpki = (0, 0, 0), fl_nodes = []\<rparr> rows"

definition get_fleet :: "int \<Rightarrow> 'h routing_world \<Rightarrow> routing_fleet \<times> 'h routing_world" where
  "get_fleet now w =
     (case live now (rt_fleet w) of
        Some cached \<Rightarrow> (cached, w)
      | None \<Rightarrow> (let f = fleet_of (sort_key ng_node_id (rt_rows w)) in (f, w\<lparr>rt_fleet := Some (now + ROUTING_TTL, f)\<rparr>)))"

definition origins_dict :: "nat \<Rightarrow> 'h routing_row \<Rightarrow> nat \<times> (int \<times> int) list" where
  "origins_dict limit r =
     (let origins = (case ng_aggregates r of None \<Rightarrow> [] | Some (a, _) \<Rightarrow> ra_origins a) in (length origins, take limit origins))"

definition get_origins :: "string \<Rightarrow> nat \<Rightarrow> 'h routing_world \<Rightarrow> (nat \<times> (int \<times> int) list) option" where
  "get_origins n limit w = map_option (origins_dict limit) (routing_row_of n w)"

definition timeline_dict :: "string \<Rightarrow> nat \<Rightarrow> 'h routing_world \<Rightarrow> (int \<times> routing_event) list" where
  "timeline_dict n limit w = rev (take limit (rev (sort_key fst (filter (own_event n) (rt_events w)))))"

definition get_timeline :: "string \<Rightarrow> nat \<Rightarrow> 'h routing_world \<Rightarrow> (int \<times> routing_event) list" where
  "get_timeline n limit w = timeline_dict n limit w"

definition get_dashboard ::
  "string \<Rightarrow> nat \<Rightarrow> nat \<Rightarrow> 'h routing_world \<Rightarrow>
   (routing_summary \<times> (nat \<times> (int \<times> int) list) \<times> (int \<times> routing_event) list) option" where
  "get_dashboard n origins_limit timeline_limit w =
     (case routing_row_of n w of
        None \<Rightarrow> None
      | Some r \<Rightarrow> Some (summary_dict r, origins_dict origins_limit r, timeline_dict n timeline_limit w))"

text \<open>\<open>like\<close> is the database's pattern match on a column; a comparison with NULL does not hold.\<close>

definition searched :: "(string \<Rightarrow> string \<Rightarrow> bool) \<Rightarrow> string \<Rightarrow> route_entry \<Rightarrow> bool" where
  "searched like query e \<longleftrightarrow>
     (let pattern = ''%'' @ lower (strip query) @ ''%'' in
      like pattern (lower (ne_prefix e)) \<or>
      (case ne_protocol e of None \<Rightarrow> False | Some p \<Rightarrow> like pattern (lower p)) \<or>
      (case ne_origin_asn e of None \<Rightarrow> False | Some a \<Rightarrow> like pattern (str_int a)))"

definition get_prefixes ::
  "(string \<Rightarrow> string \<Rightarrow> bool) \<Rightarrow> string \<Rightarrow> string option \<Rightarrow> bool option \<Rightarrow> string option \<Rightarrow> nat \<Rightarrow> nat \<Rightarrow> 'h routing_world \<Rightarrow>
   (nat \<times> observed_route list) option" where
  "get_prefixes like n family local query limit offset w =
     (if routing_row_of n w = None then None
      else
        let found = filter (\<lambda>e. ne_node_id e = n \<and>
              (case family of None \<Rightarrow> True | Some f \<Rightarrow> f \<in> {''4'', ''6''} \<longrightarrow> ne_is_v6 e = (f = ''6'')) \<and>
              (case local of None \<Rightarrow> True | Some b \<Rightarrow> ne_local e = b) \<and>
              (if truthy query then searched like (the query) e else True)) (rt_entries w) in
        Some (length found, map entry_to_dict (take limit (drop offset found))))"

end
