(* ===== verification/Routing_Log.thy ===== *)
theory Routing_Log
  imports Routing_Store
begin

text \<open>
  What the server holds of the routing tables after any sequence of reports, stated over the list of the reports that
  were accepted, newest first.
\<close>

section \<open>The specification\<close>

definition own_tables :: "string \<Rightarrow> posted_table list \<Rightarrow> posted_table list" where
  "own_tables n acc = filter (\<lambda>p. posted_node p = n) acc"

definition observed_tables :: "string \<Rightarrow> posted_table list \<Rightarrow> posted_table list" where
  "observed_tables n acc = filter (\<lambda>p. rs_observation (snd p) = OBSERVED) (own_tables n acc)"

definition latest_routes :: "posted_table list \<Rightarrow> observed_route list" where
  "latest_routes tables = (case tables of [] \<Rightarrow> [] | p # _ \<Rightarrow> rs_routes (snd p))"

fun first_time :: "(string \<Rightarrow> rat option) \<Rightarrow> posted_table list \<Rightarrow> rat option" where
  "first_time moment [] = None"
| "first_time moment (p # ps) = (case moment (fst p) of None \<Rightarrow> first_time moment ps | Some t \<Rightarrow> Some t)"

text \<open>The state of the latest report, the last capture time that could be read, the figures of the last table.\<close>

definition row_spec :: "(observed_route list \<Rightarrow> 'h) \<Rightarrow> (string \<Rightarrow> rat option) \<Rightarrow> string \<Rightarrow> posted_table list \<Rightarrow> 'h routing_row option" where
  "row_spec h moment n acc =
     (case own_tables n acc of
        [] \<Rightarrow> None
      | p # ps \<Rightarrow>
          let base = (fresh_routing n)\<lparr>ng_observation := rs_observation (snd p), ng_captured_at := first_time moment (p # ps)\<rparr> in
          Some (case observed_tables n acc of [] \<Rightarrow> base | t # _ \<Rightarrow> with_table h (snd t) base))"

definition event_spec :: "(string \<Rightarrow> rat option) \<Rightarrow> string \<Rightarrow> posted_table \<Rightarrow> observed_route list \<Rightarrow> routing_event" where
  "event_spec moment n p previous =
     (let a = aggregate_routes (rs_routes (snd p)); old = or_prefix ` set previous; new = or_prefix ` set (rs_routes (snd p)) in
      \<lparr>ev_node_id = n, ev_captured_at = moment (fst p), ev_count = ra_count a, ev_v4 = ra_v4 a, ev_v6 = ra_v6 a,
       ev_valid = ra_valid a, ev_invalid = ra_invalid a, ev_not_found = ra_not_found a,
       ev_announced = int (card (new - old)), ev_withdrawn = int (card (old - new))\<rparr>)"

fun series :: "(string \<Rightarrow> rat option) \<Rightarrow> string \<Rightarrow> posted_table list \<Rightarrow> routing_event list" where
  "series moment n [] = []"
| "series moment n (p # ps) = event_spec moment n p (latest_routes ps) # series moment n ps"

text \<open>Each size is the size before plus what came minus what went.\<close>

fun adds_up :: "routing_event list \<Rightarrow> bool" where
  "adds_up [] = True"
| "adds_up [e] = (ev_count e = ev_announced e - ev_withdrawn e)"
| "adds_up (e # f # es) = (ev_count e = ev_count f + ev_announced e - ev_withdrawn e \<and> adds_up (f # es))"

lemma size_change:
  assumes "finite A" "finite B"
  shows "int (card B) = int (card A) + int (card (B - A)) - int (card (A - B))"
proof -
  have "card A = card (A \<inter> B) + card (A - B)" "card B = card (A \<inter> B) + card (B - A)"
    using assms card_Int_Diff [of A B] card_Int_Diff [of B A] by (simp_all add: Int_commute)
  then show ?thesis by simp
qed

lemma ra_count_card: "ra_count (aggregate_routes routes) = int (card (or_prefix ` set routes))"
  by (simp add: aggregate_fields(1) best_sizes(1))

lemma event_size:
  "ev_count (event_spec moment n p previous) = int (card (or_prefix ` set previous)) +
     ev_announced (event_spec moment n p previous) - ev_withdrawn (event_spec moment n p previous)"
  using size_change [of "or_prefix ` set previous" "or_prefix ` set (rs_routes (snd p))"]
  by (simp add: event_spec_def Let_def ra_count_card)

lemma event_count: "ev_count (event_spec moment n p previous) = int (card (or_prefix ` set (rs_routes (snd p))))"
  by (simp add: event_spec_def Let_def ra_count_card)

lemma series_adds_up: "adds_up (series moment n ps)"
proof (induction ps)
  case (Cons p ps)
  show ?case
  proof (cases ps)
    case Nil
    then show ?thesis using event_size [of moment n p "[]"] by (simp add: latest_routes_def)
  next
    case (Cons q qs)
    then show ?thesis using Cons.IH event_size [of moment n p "rs_routes (snd q)"]
      by (simp add: latest_routes_def event_count [of moment n q])
  qed
qed simp

section \<open>One report\<close>

definition new_row :: "(string \<Rightarrow> rat option) \<Rightarrow> posted_table \<Rightarrow> 'h routing_world \<Rightarrow> 'h routing_row" where
  "new_row moment p w =
     (let old = get_or_create_routing (posted_node p) w in
      old\<lparr>ng_observation := rs_observation (snd p),
          ng_captured_at := (case moment (fst p) of None \<Rightarrow> ng_captured_at old | Some t \<Rightarrow> Some t)\<rparr>)"

definition unchanged :: "(observed_route list \<Rightarrow> 'h) \<Rightarrow> posted_table \<Rightarrow> 'h routing_world \<Rightarrow> bool" where
  "unchanged h p w \<longleftrightarrow>
     Some (h (rs_routes (snd p))) = map_option (\<lambda>(_, _, d). d) (ng_aggregates (get_or_create_routing (posted_node p) w))"

definition stored_event :: "(observed_route list \<Rightarrow> 'h) \<Rightarrow> (string \<Rightarrow> rat option) \<Rightarrow> posted_table \<Rightarrow> 'h routing_world \<Rightarrow> routing_event" where
  "stored_event h moment p w =
     table_event (with_table h (snd p) (new_row moment p w)) (moment (fst p))
       (if unchanged h p w then (0, 0)
        else diff_prefix_sets (existing_prefixes (posted_node p) w) (best_prefix_set (rs_routes (snd p))))"

definition file_event :: "routing_event \<Rightarrow> 'h routing_world \<Rightarrow> 'h routing_world" where
  "file_event e w = trim_routing_history (ev_node_id e) (add_routing_event e w)"

definition stored :: "(observed_route list \<Rightarrow> 'h) \<Rightarrow> (string \<Rightarrow> rat option) \<Rightarrow> posted_table \<Rightarrow> 'h routing_world \<Rightarrow> 'h routing_world" where
  "stored h moment p w =
     (let w1 = put_routing_row (with_table h (snd p) (new_row moment p w)) w;
          w2 = (if unchanged h p w then w1 else rewrite_entries (posted_node p) (rs_routes (snd p)) w1) in
      bust_routing (posted_node p) (file_event (stored_event h moment p w) w2))"

lemma row_nodes [simp]:
  "ng_node_id (get_or_create_routing n w) = n" "ng_node_id (new_row moment p w) = posted_node p"
  "ng_node_id (with_table h x r) = ng_node_id r" "ev_node_id (stored_event h moment p w) = posted_node p"
proof -
  show a: "ng_node_id (get_or_create_routing n w) = n" for n
    by (auto simp: get_or_create_routing_def or_default_def routing_row_of_def fresh_routing_def
        dest: row_get_SomeD split: option.split)
  show b: "ng_node_id (new_row moment p w) = posted_node p" using a by (simp add: new_row_def Let_def)
  show c: "ng_node_id (with_table h x r) = ng_node_id r" for x r by (simp add: with_table_def Let_def)
  show "ev_node_id (stored_event h moment p w) = posted_node p" using b c by (simp add: stored_event_def table_event_def)
qed

lemma record_table_exact:
  "get_node (posted_node p) (rt_db w) = None \<Longrightarrow>
     record_table h moment p w = (Inl (IntegrityError ''node_routing.node_id''), w)"
  "get_node (posted_node p) (rt_db w) \<noteq> None \<Longrightarrow> rs_observation (snd p) \<noteq> OBSERVED \<Longrightarrow>
     record_table h moment p w = (Inr (), put_routing_row (new_row moment p w) w)"
  "get_node (posted_node p) (rt_db w) \<noteq> None \<Longrightarrow> rs_observation (snd p) = OBSERVED \<Longrightarrow>
     record_table h moment p w = (Inr (), stored h moment p w)"
proof -
  note run = record_table_def store_table_def transaction_def seq_def reading_def lift_res_def ret_def modify_def
  show "get_node (posted_node p) (rt_db w) = None \<Longrightarrow>
     record_table h moment p w = (Inl (IntegrityError ''node_routing.node_id''), w)"
    by (simp add: run Let_def)
  show "get_node (posted_node p) (rt_db w) \<noteq> None \<Longrightarrow> rs_observation (snd p) \<noteq> OBSERVED \<Longrightarrow>
     record_table h moment p w = (Inr (), put_routing_row (new_row moment p w) w)"
    by (simp add: run Let_def new_row_def)
  have node: "ev_node_id (table_event r c x) = ng_node_id r" for r c x by (simp add: table_event_def)
  show "get_node (posted_node p) (rt_db w) \<noteq> None \<Longrightarrow> rs_observation (snd p) = OBSERVED \<Longrightarrow>
     record_table h moment p w = (Inr (), stored h moment p w)"
    by (simp add: run Let_def stored_def stored_event_def new_row_def unchanged_def file_event_def node)
qed

section \<open>The timeline\<close>

definition log_valid :: "'h routing_world \<Rightarrow> bool" where
  "log_valid w \<longleftrightarrow> sorted_wrt (<) (map fst (rt_events w)) \<and> (\<forall>e\<in>set (rt_events w). fst e < rt_next_event w)"

definition timeline_of :: "string \<Rightarrow> 'h routing_world \<Rightarrow> routing_event list" where
  "timeline_of n w = map snd (rev (filter (own_event n) (rt_events w)))"

lemma trimmed_timeline:
  assumes "log_valid w"
  shows "timeline_of m (trim_routing_history n w) =
    (if m = n then take ROUTING_HISTORY_KEEP (timeline_of m w) else timeline_of m w)"
proof (cases "m = n")
  case True
  then show ?thesis
    using assms kept_newest [of fst "rt_events w" "own_event n" ROUTING_HISTORY_KEEP]
    by (simp add: log_valid_def timeline_of_def trim_routing_history_def Let_def take_map del: filter_filter)
next
  case False
  then have "filter (own_event m) (rt_events (trim_routing_history n w)) = filter (own_event m) (rt_events w)"
    by (auto simp: trim_routing_history_def Let_def own_event_def intro!: filter_cong)
  then show ?thesis using False by (simp add: timeline_of_def)
qed

lemma added_timeline:
  "timeline_of m (add_routing_event e w) = (if m = ev_node_id e then e # timeline_of m w else timeline_of m w)"
  by (simp add: timeline_of_def add_routing_event_def own_event_def)

lemma added_log_valid: "log_valid w \<Longrightarrow> log_valid (add_routing_event e w)"
  by (auto simp: log_valid_def add_routing_event_def sorted_wrt_append less_Suc_eq)

lemma trimmed_log_valid: "log_valid w \<Longrightarrow> log_valid (trim_routing_history n w)"
  by (auto simp: log_valid_def trim_routing_history_def Let_def intro: filter_sorted_wrt)

interpretation timeline: bounded_history "timeline_of n" "\<lambda>w e. file_event e w" "\<lambda>e. e" "\<lambda>e. ev_node_id e = n"
  log_valid ROUTING_HISTORY_KEEP for n
  by unfold_locales
     (auto simp: file_event_def trimmed_timeline added_log_valid added_timeline intro: trimmed_log_valid)

lemma file_event_frame [simp]:
  "rt_rows (file_event e w) = rt_rows w" "rt_entries (file_event e w) = rt_entries w" "rt_db (file_event e w) = rt_db w"
  by (simp_all add: file_event_def trim_routing_history_def add_routing_event_def Let_def)

lemma timeline_frame:
  "rt_events w' = rt_events w \<Longrightarrow> timeline_of n w' = timeline_of n w"
  "rt_events w' = rt_events w \<Longrightarrow> rt_next_event w' = rt_next_event w \<Longrightarrow> log_valid w' = log_valid w"
  by (simp_all add: timeline_of_def log_valid_def)

lemma busted [simp]: "timeline_of n (bust_routing m w) = timeline_of n w" "log_valid (bust_routing m w) = log_valid w"
  by (simp_all add: bust_routing_def timeline_of_def log_valid_def)

lemma event_spec_node [simp]: "ev_node_id (event_spec moment n p previous) = n"
  by (simp add: event_spec_def Let_def)

lemma timeline_dict_newest:
  assumes "log_valid w"
  shows "map snd (timeline_dict n k w) = rev (take k (timeline_of n w))"
proof -
  have "sorted (map fst (filter (own_event n) (rt_events w)))"
    using assms sorted_strict [OF filter_sorted_wrt, of fst "rt_events w" "own_event n"] by (simp add: log_valid_def)
  then have "sort_key fst (filter (own_event n) (rt_events w)) = filter (own_event n) (rt_events w)"
    by (rule sort_key_id_if_sorted)
  then show ?thesis by (simp add: timeline_dict_def timeline_of_def rev_map take_map)
qed

section \<open>Any sequence of reports\<close>

definition routing_step ::
  "(observed_route list \<Rightarrow> 'h) \<Rightarrow> (string \<Rightarrow> rat option) \<Rightarrow> posted_table list \<times> 'h routing_world \<Rightarrow> posted_table \<Rightarrow>
   posted_table list \<times> 'h routing_world" where
  "routing_step h moment aw p =
     (case record_table h moment p (snd aw) of (Inl _, w) \<Rightarrow> (fst aw, w) | (Inr _, w) \<Rightarrow> (p # fst aw, w))"

definition mirrors ::
  "(observed_route list \<Rightarrow> 'h) \<Rightarrow> (string \<Rightarrow> rat option) \<Rightarrow> posted_table list \<Rightarrow> 'h routing_world \<Rightarrow> bool" where
  "mirrors h moment acc w \<longleftrightarrow> log_valid w \<and> (\<forall>n. routing_row_of n w = row_spec h moment n acc) \<and>
     (\<forall>n. filter (\<lambda>e. ne_node_id e = n) (rt_entries w) = map (route_to_entry n) (latest_routes (observed_tables n acc))) \<and>
     (\<forall>n. timeline_of n w = take ROUTING_HISTORY_KEEP (series moment n (observed_tables n acc)))"

lemma with_table_cong:
  "ng_node_id r = ng_node_id r' \<Longrightarrow> ng_observation r = ng_observation r' \<Longrightarrow> ng_captured_at r = ng_captured_at r' \<Longrightarrow>
   with_table h x r = with_table h x r'"
  by (simp add: with_table_def Let_def)

lemma with_table_fields [simp]:
  "ng_observation (with_table h x r) = ng_observation r" "ng_captured_at (with_table h x r) = ng_captured_at r"
  "ng_aggregates (with_table h x r) = Some (aggregate_routes (rs_routes x), rs_prefilter x, h (rs_routes x))"
  by (simp_all add: with_table_def Let_def)

lemma fresh_node [simp]: "ng_node_id (fresh_routing n) = n"
  by (simp add: fresh_routing_def)

lemma routing_row_put:
  "routing_row_of m (put_routing_row r w) = (if m = ng_node_id r then Some r else routing_row_of m w)"
  by (simp add: routing_row_of_def put_routing_row_def row_get_put)

lemma own_Cons:
  "own_tables n (p # acc) = (if posted_node p = n then p # own_tables n acc else own_tables n acc)"
  "observed_tables n (p # acc) =
     (if posted_node p = n \<and> rs_observation (snd p) = OBSERVED then p # observed_tables n acc else observed_tables n acc)"
  by (simp_all add: own_tables_def observed_tables_def)

lemma observed_own: "own_tables n acc = [] \<Longrightarrow> observed_tables n acc = []"
  by (simp add: observed_tables_def)

lemma row_spec_other:
  assumes "posted_node p \<noteq> n"
  shows "row_spec h moment n (p # acc) = row_spec h moment n acc"
proof -
  have "own_tables n (p # acc) = own_tables n acc" "observed_tables n (p # acc) = observed_tables n acc"
    using assms by (simp_all add: own_Cons)
  then show ?thesis by (simp only: row_spec_def)
qed

lemma current_row:
  assumes "routing_row_of n w = row_spec h moment n acc"
  shows "ng_captured_at (get_or_create_routing n w) = first_time moment (own_tables n acc)"
    "ng_aggregates (get_or_create_routing n w) =
       (case observed_tables n acc of [] \<Rightarrow> None
        | t # _ \<Rightarrow> Some (aggregate_routes (rs_routes (snd t)), rs_prefilter (snd t), h (rs_routes (snd t))))"
  using assms observed_own [of n acc]
  by (auto simp: get_or_create_routing_def or_default_def row_spec_def fresh_routing_def Let_def split: list.split)

lemma new_row_spec:
  assumes "routing_row_of (posted_node p) w = row_spec h moment (posted_node p) acc"
  shows "new_row moment p w =
    (let base = (fresh_routing (posted_node p))\<lparr>ng_observation := rs_observation (snd p),
                  ng_captured_at := first_time moment (own_tables (posted_node p) (p # acc))\<rparr> in
     case observed_tables (posted_node p) acc of [] \<Rightarrow> base | t # _ \<Rightarrow> with_table h (snd t) base)"
proof (cases "own_tables (posted_node p) acc")
  case Nil
  then show ?thesis using assms observed_own [OF Nil]
    by (simp add: new_row_def get_or_create_routing_def or_default_def row_spec_def Let_def own_Cons fresh_routing_def
        split: option.split)
next
  case (Cons q qs)
  then show ?thesis using assms current_row(1) [OF assms]
    by (simp add: new_row_def get_or_create_routing_def or_default_def row_spec_def Let_def own_Cons with_table_def fresh_routing_def
        split: option.split list.split)
qed

lemma latest_known:
  assumes "mirrors h moment acc w" "inj_on h ((\<lambda>p. rs_routes (snd p)) ` set (p # acc))" "unchanged h p w"
  shows "latest_routes (observed_tables (posted_node p) acc) = rs_routes (snd p)"
proof -
  let ?n = "posted_node p"
  have "routing_row_of ?n w = row_spec h moment ?n acc" using assms(1) by (simp add: mirrors_def)
  note u = assms(3) [unfolded unchanged_def current_row(2) [OF this]]
  then obtain t ts where t: "observed_tables ?n acc = t # ts" "h (rs_routes (snd p)) = h (rs_routes (snd t))"
    by (cases "observed_tables ?n acc") auto
  have "t \<in> set (observed_tables ?n acc)" using t(1) by simp
  then have "t \<in> set acc" by (auto simp: observed_tables_def own_tables_def)
  then show ?thesis using assms(2) t by (auto simp: latest_routes_def inj_on_def)
qed

lemma stored_event_spec:
  assumes "mirrors h moment acc w" "inj_on h ((\<lambda>p. rs_routes (snd p)) ` set (p # acc))"
  shows "stored_event h moment p w = event_spec moment (posted_node p) p (latest_routes (observed_tables (posted_node p) acc))"
proof -
  let ?n = "posted_node p"
  have "filter (\<lambda>e. ne_node_id e = ?n) (rt_entries w) = map (route_to_entry ?n) (latest_routes (observed_tables ?n acc))"
    using assms(1) by (simp add: mirrors_def)
  then have old: "existing_prefixes ?n w = or_prefix ` set (latest_routes (observed_tables ?n acc))"
    by (simp add: existing_prefixes_def route_to_entry_def image_image)
  show ?thesis
    using latest_known [OF assms]
    by (simp add: stored_event_def event_spec_def table_event_def with_table_def Let_def diff_prefix_sets_def old
        best_prefix_set_eq)
qed

lemma mirrors_observed:
  assumes ok: "mirrors h moment acc w" and inj: "inj_on h ((\<lambda>p. rs_routes (snd p)) ` set (p # acc))"
    and observed: "rs_observation (snd p) = OBSERVED"
  shows "mirrors h moment (p # acc) (stored h moment p w)"
proof -
  let ?n = "posted_node p"
  define w1 where "w1 = put_routing_row (with_table h (snd p) (new_row moment p w)) w"
  define w2 where "w2 = (if unchanged h p w then w1 else rewrite_entries ?n (rs_routes (snd p)) w1)"
  have st: "stored h moment p w = bust_routing ?n (file_event (stored_event h moment p w) w2)"
    by (simp add: stored_def Let_def w1_def w2_def)
  have w2: "rt_rows w2 = row_put ng_node_id (with_table h (snd p) (new_row moment p w)) (rt_rows w)"
    "rt_events w2 = rt_events w" "rt_next_event w2 = rt_next_event w"
    by (simp_all add: w2_def w1_def put_routing_row_def rewrite_entries_def)
  have rows: "routing_row_of m w = row_spec h moment m acc" for m using ok by (simp add: mirrors_def)
  have entries: "filter (\<lambda>e. ne_node_id e = m) (rt_entries w) = map (route_to_entry m) (latest_routes (observed_tables m acc))" for m
    using ok by (simp add: mirrors_def)
  have valid: "log_valid w2" using ok timeline_frame(2) [OF w2(2,3)] by (simp add: mirrors_def)
  have "routing_row_of m (stored h moment p w) = row_spec h moment m (p # acc)" for m
  proof (cases "m = ?n")
    case True
    have "with_table h (snd p) (new_row moment p w) = with_table h (snd p)
        ((fresh_routing ?n)\<lparr>ng_observation := rs_observation (snd p), ng_captured_at := first_time moment (own_tables ?n (p # acc))\<rparr>)"
      by (rule with_table_cong) (simp_all add: new_row_spec [OF rows] Let_def fresh_routing_def split: list.split)
    then show ?thesis using True observed
      by (simp add: st routing_row_of_def bust_routing_def w2(1) row_get_put row_spec_def own_Cons Let_def)
  next
    case False
    then show ?thesis using rows [of m]
      by (simp add: st routing_row_of_def bust_routing_def w2(1) row_get_put row_spec_other)
  qed
  moreover have "filter (\<lambda>e. ne_node_id e = m) (rt_entries (stored h moment p w)) =
      map (route_to_entry m) (latest_routes (observed_tables m (p # acc)))" for m
  proof (cases "unchanged h p w")
    case True
    then show ?thesis using entries [of m] latest_known [OF ok inj True] observed
      by (auto simp: st bust_routing_def w2_def w1_def put_routing_row_def own_Cons latest_routes_def)
  next
    case False
    have "filter (\<lambda>e. ne_node_id e = m) (map (route_to_entry ?n) rs) = (if m = ?n then map (route_to_entry ?n) rs else [])" for rs
      by (auto simp: filter_empty_conv filter_id_conv route_to_entry_def)
    then show ?thesis using False entries [of m] observed
      by (auto simp: st bust_routing_def w2_def w1_def put_routing_row_def rewrite_entries_def own_Cons latest_routes_def
          conj_commute cong: conj_cong)
  qed
  moreover have "timeline_of m (stored h moment p w) = take ROUTING_HISTORY_KEEP (series moment m (observed_tables m (p # acc)))" for m
  proof -
    have "timeline_of m w = take ROUTING_HISTORY_KEEP (series moment m (observed_tables m acc))" using ok by (simp add: mirrors_def)
    then show ?thesis using observed
      by (simp add: st timeline.entries_push [OF valid] timeline_frame(1) [OF w2(2)] stored_event_spec [OF ok inj] own_Cons
          take_cons_take)
  qed
  moreover have "log_valid (stored h moment p w)"
    using timeline.valid_push [OF valid] by (simp add: st)
  ultimately show ?thesis by (simp add: mirrors_def)
qed

lemma mirrors_unobserved:
  assumes ok: "mirrors h moment acc w" and unobserved: "rs_observation (snd p) \<noteq> OBSERVED"
  shows "mirrors h moment (p # acc) (put_routing_row (new_row moment p w) w)"
proof -
  let ?n = "posted_node p"
  have rows: "routing_row_of m w = row_spec h moment m acc" for m using ok by (simp add: mirrors_def)
  have "routing_row_of m (put_routing_row (new_row moment p w) w) = row_spec h moment m (p # acc)" for m
  proof (cases "m = ?n")
    case True
    then have "routing_row_of m (put_routing_row (new_row moment p w) w) = Some (new_row moment p w)"
      by (simp add: routing_row_put)
    also have "\<dots> = row_spec h moment m (p # acc)"
      unfolding new_row_spec [OF rows] using True unobserved by (simp add: row_spec_def own_Cons Let_def)
    finally show ?thesis .
  next
    case False
    then show ?thesis using rows [of m] by (simp add: routing_row_put row_spec_other)
  qed
  then show ?thesis using ok unobserved
    by (simp add: mirrors_def put_routing_row_def own_Cons timeline_of_def log_valid_def)
qed

lemma routing_run:
  assumes "inj_on h ((\<lambda>p. rs_routes (snd p)) ` set posts)" "mirrors h moment [] w0"
    "foldl (routing_step h moment) ([], w0) posts = (acc, w)"
  shows "mirrors h moment acc w \<and> set acc \<subseteq> set posts"
  using assms
proof (induction posts arbitrary: acc w rule: rev_induct)
  case (snoc p posts)
  obtain acc' w' where before: "foldl (routing_step h moment) ([], w0) posts = (acc', w')" by fastforce
  have ok: "mirrors h moment acc' w'" "set acc' \<subseteq> set posts"
    using snoc.IH [OF _ snoc.prems(2) before] snoc.prems(1) by (auto intro: inj_on_subset)
  have now: "routing_step h moment (acc', w') p = (acc, w)" using snoc.prems(3) before by simp
  have inj: "inj_on h ((\<lambda>p. rs_routes (snd p)) ` set (p # acc'))"
    by (rule inj_on_subset [OF snoc.prems(1)]) (use ok(2) in auto)
  show ?case
  proof (cases "get_node (posted_node p) (rt_db w')")
    case None
    then show ?thesis using now ok by (auto simp: routing_step_def record_table_exact(1))
  next
    case (Some node)
    then show ?thesis
      using now ok mirrors_observed [OF ok(1) inj] mirrors_unobserved [OF ok(1), of p]
        record_table_exact(2,3) [of p w' h moment]
      by (cases "rs_observation (snd p) = OBSERVED") (auto simp: routing_step_def)
  qed
qed simp

lemma entry_roundtrip [simp]: "entry_to_dict (route_to_entry n r) = r"
  by (simp add: entry_to_dict_def route_to_entry_def)

text \<open>C14: The routing store shows the tables that were reported.  After any sequence of reports, refused ones included,
  as long as no two different tables among them have the same digest: the row of a node has the state of its latest
  report and the figures of its latest observed table, a failed collection keeping them; the listing without filters is
  that table, route by route; and the timeline is, oldest first, the newest five hundred observed tables of the node,
  each with its figures and the numbers of prefixes that came and went since the one before, which add up to its
  size.\<close>

theorem routing_store_mirrors:
  assumes "rt_rows w0 = []" "rt_entries w0 = []" "rt_events w0 = []"
    "inj_on h ((\<lambda>p. rs_routes (snd p)) ` set posts)"
    "foldl (routing_step h moment) ([], w0) posts = (acc, w)"
  shows "routing_row_of n w = row_spec h moment n acc \<and>
    get_prefixes like n None None None k j w =
      (if own_tables n acc = [] then None
       else let routes = latest_routes (observed_tables n acc) in Some (length routes, take k (drop j routes))) \<and>
    map snd (timeline_dict n k w) =
      rev (take k (take ROUTING_HISTORY_KEEP (series moment n (observed_tables n acc)))) \<and>
    adds_up (series moment n (observed_tables n acc))"
proof -
  have "mirrors h moment [] w0"
    using assms(1-3) by (simp add: mirrors_def log_valid_def routing_row_of_def row_get_def row_spec_def own_tables_def
        observed_tables_def latest_routes_def timeline_of_def)
  then have ok: "mirrors h moment acc w" using routing_run [OF assms(4) _ assms(5)] by blast
  then have rows: "routing_row_of n w = row_spec h moment n acc"
    and entries: "filter (\<lambda>e. ne_node_id e = n) (rt_entries w) = map (route_to_entry n) (latest_routes (observed_tables n acc))"
    and log: "log_valid w" "timeline_of n w = take ROUTING_HISTORY_KEEP (series moment n (observed_tables n acc))"
    by (simp_all add: mirrors_def)
  have "row_spec h moment n acc = None \<longleftrightarrow> own_tables n acc = []" by (simp add: row_spec_def Let_def split: list.split)
  then show ?thesis
    using rows timeline_dict_newest [OF log(1), of n k]
    by (simp add: get_prefixes_def entries log(2) series_adds_up truthy_def take_map drop_map o_def Let_def)
qed

text \<open>A failed collection is stored, but the answer that is cached is not dropped: for up to half a minute the summary
  still shows the state before.\<close>

lemma failed_collection_stays_cached:
  assumes "get_node (posted_node p) (rt_db w) \<noteq> None" "rs_observation (snd p) \<noteq> OBSERVED"
    "map_of (rt_summaries w) (posted_node p) = Some (t, x)" "now < t"
  shows "fst (get_summary now (posted_node p) (snd (record_table h moment p w))) = Some x"
  using assms record_table_exact(2) [OF assms(1,2), of h moment]
  by (simp add: get_summary_def live_def put_routing_row_def)

section \<open>An example\<close>

definition sample_route :: "string \<Rightarrow> int \<Rightarrow> observed_route" where
  "sample_route prefix asn =
     \<lparr>or_prefix = prefix, or_origin_asn = Some asn, or_as_path = [4242420001, asn], or_next_hop = None,
      or_protocol = Some ''peer1'', or_primary = True, or_local = False, or_communities = [], or_large_communities = [],
      or_rpki = Some ''valid''\<rparr>"

definition sample_table :: "string \<Rightarrow> observation_status \<Rightarrow> observed_route list \<Rightarrow> posted_table" where
  "sample_table time obs routes =
     (time, \<lparr>routing_snapshot.rs_node_id = ''hk1'', rs_observation = obs, rs_routes = routes, rs_prefilter = None\<rparr>)"

definition sample_tables_posted :: "posted_table list" where
  "sample_tables_posted =
     [sample_table ''1'' OBSERVED [sample_route ''172.20.0.0/24'' 4242420002, sample_route ''172.20.1.0/24'' 4242420003],
      sample_table ''2'' UNAVAILABLE [],
      sample_table ''3'' OBSERVED [sample_route ''172.20.1.0/24'' 4242420003, sample_route ''fd00::/48'' 4242420004]]"

definition sample_routing_world :: "observed_route list routing_world" where
  "sample_routing_world =
     \<lparr>rt_db = sample_tables, rt_rows = [], rt_entries = [], rt_events = [], rt_next_event = 1, rt_summaries = [], rt_fleet = None\<rparr>"

definition sample_reports :: "posted_table list \<times> observed_route list routing_world" where
  "sample_reports =
     foldl (routing_step (\<lambda>routes. routes) (\<lambda>_. None)) ([], sample_routing_world) sample_tables_posted"

lemma sample_series:
  "map (\<lambda>e. (ev_count e, ev_announced e, ev_withdrawn e)) (series (\<lambda>_. None) ''hk1'' (observed_tables ''hk1'' (fst sample_reports))) =
     [(2, 1, 1), (2, 2, 0)] \<and>
   map or_prefix (latest_routes (observed_tables ''hk1'' (fst sample_reports))) = [''172.20.1.0/24'', ''fd00::/48''] \<and>
   length (own_tables ''hk1'' (fst sample_reports)) = 3"
  by code_simp

theorem routing_store_mirrors_witness:
  "map (\<lambda>e. (ev_count e, ev_announced e, ev_withdrawn e)) (map snd (timeline_dict ''hk1'' 10 (snd sample_reports))) =
     [(2, 2, 0), (2, 1, 1)]"
proof -
  have "map snd (timeline_dict ''hk1'' 10 (snd sample_reports)) =
      rev (take 10 (take ROUTING_HISTORY_KEEP (series (\<lambda>_. None) ''hk1'' (observed_tables ''hk1'' (fst sample_reports)))))"
    using routing_store_mirrors [of sample_routing_world "\<lambda>routes. routes" sample_tables_posted "\<lambda>_. None"
        "fst sample_reports" "snd sample_reports" "''hk1''" "\<lambda>_ _. True" 10 0]
    by (simp add: sample_routing_world_def sample_reports_def)
  then show ?thesis using sample_series by (simp add: rev_map [symmetric] take_map [symmetric] ROUTING_HISTORY_KEEP_def del: map_map)
qed

end
