(* ===== verification/Spec2Isabelle.thy ===== *)
theory Spec2Isabelle
  imports Prelude Effects Ipaddress File_Plan Validators Runtime_Schema Desired_State Container_Definition
    Container_Plan Convergence_Plan Docker_Deploy Agent_Report Agent_Session Orchestrator Run_Frame L3_Heal Watch
    Bird_Socket Regex_Match Routing_Table Reresolve Control_State Materializer Publication Provision
    Interface_Admin Peering_Admin Peering_Backfill Dns_Admin Config_Ops Write_Path Generation_Log
    Node_Lifecycle Credentials Registration Enrollment Agent_Server Event_Channel Event_Line
    Node_Status Status_Log Traffic Traffic_Archive Served_Configuration Config_Handlers Configuration
    Listen_Ports Full_Replacement Backfill_Runs Configuration_Examples
    Provision_Rows Provision_Roundtrip Routing_Aggregate Routing_Store Routing_Log
begin

text \<open>
  A model of the DN42 control plane: the control server (\<open>src/apps/control-server\<close>), the node agent
  (\<open>src/apps/node-agent\<close>) and the Python packages they share (\<open>src/packages\<close>).

  1. The program.  The control server keeps, per DN42 router node, configuration rows in a database (the node, its
  peerings, interfaces, BGP sessions and the DNS groups it subscribes to).  A change of configuration is one
  transaction: edit rows, assemble the node's desired state from all of them, validate it with the shared schema, store
  it as the next generation and move the node's pointer; after the transaction the change is announced on an event
  bus.  An agent on each node registers (with the global bootstrap token or a one-time ticket, and an approval), gets a
  bearer token, and is told of new generations over a web socket.  A reconcile run fetches the state, renders files,
  plans against what is on disk and in Docker, applies the plan, reports, and records the generation as applied.
  Between runs the agent heals missing interfaces, re-resolves endpoints of stale tunnels and collects routes and
  traffic.

  2. Conventions.  A pure function of the code is a function with the code's name.  Code that may raise returns
  \<open>'a res\<close>, a sum of an exception and a value (\<open>Prelude\<close>); code that changes a state is \<open>('s, 'a) eff\<close>, which
  keeps what was done before an exception (\<open>Effects\<close>); \<open>transaction\<close> undoes it.  Classes are records, enumerations
  datatypes, dictionaries association lists in insertion order, tables lists of rows in the order of insertion, JSON
  columns the record they decode to.  Python integers are \<open>int\<close>, strings are \<open>char list\<close>; no modelled code depends on
  machine integers.  Floating-point seconds are rationals.  A text file is read with universal newlines and written as it
  is (\<open>universal_newlines\<close>); the digest of the plan is taken of what is read.  Every executable definition computes, and the witnesses
  evaluate them in the kernel.

  3. Arguments.  What is not in the repository or cannot be decided by it is an argument of the definitions: the
  Docker engine and \<open>docker exec\<close> (its listing of networks too, which filters names by substring), file-system faults,
  a failing write of the identity at the end of a run, the templates (\<open>outside\<close> in \<open>Orchestrator\<close>), the control server
  as the agent's HTTP client sees it, Redis answering or not, the clock, SHA-256, what \<open>secrets\<close> draws, the format of a
  date, BIRD's answers.  A theorem ranges over all of them unless a hypothesis says otherwise.

  4. Theories and sources.

  Shared: \<open>Prelude\<close> (results, strings, dictionaries, tables keyed by a number; locales \<open>invariant_machine\<close> and
  \<open>keyed_table\<close>), \<open>Effects\<close> (effects; locale \<open>step_order\<close>: a reflexive and transitive relation between states that
  computations move along), \<open>Ipaddress\<close> (Python's ipaddress module and \<open>validators/ip.py\<close>), \<open>Regex_Match\<close> (the
  fragment of \<open>re\<close> in use).

  Schema and validators: \<open>Validators\<close> (\<open>dn42_common/validators\<close>), \<open>Runtime_Schema\<close> (\<open>dn42_schemas/runtime.py\<close>,
  \<open>enums.py\<close>), \<open>Desired_State\<close> (\<open>network.py\<close>, \<open>routing.py\<close>, \<open>dns.py\<close>, \<open>desired_state.py\<close> with its normalisations).

  The agent, in the order of a run: \<open>File_Plan\<close> (\<open>dn42_runtime\<close>: plan and atomic writer), \<open>Container_Definition\<close>
  and \<open>Container_Plan\<close> (\<open>planner/definition.py\<close>, \<open>container_plan.py\<close>), \<open>Convergence_Plan\<close>
  (\<open>planner/convergence_plan.py\<close>, \<open>reconcile_plan.py\<close>, \<open>apply/convergence.py\<close>), \<open>Docker_Deploy\<close>
  (\<open>apply/docker_api.py\<close>), \<open>Agent_Report\<close> (\<open>collectors\<close>, \<open>health/reconcile.py\<close>), \<open>Agent_Session\<close>
  (\<open>session.py\<close>, \<open>core/identity.py\<close>), \<open>Orchestrator\<close> (\<open>orchestrator.py\<close>) and \<open>Run_Frame\<close> (what a whole run may
  change), \<open>L3_Heal\<close> (\<open>l3_heal.py\<close>), \<open>Reresolve\<close> (\<open>reresolve.py\<close>), \<open>Watch\<close> (\<open>watch.py\<close>), \<open>Bird_Socket\<close>
  and \<open>Routing_Table\<close> (\<open>collectors/bird_socket.py\<close>, \<open>collectors/routing.py\<close>), the sample of \<open>Traffic\<close>
  (\<open>agent/traffic.py\<close>).

  The control server: \<open>Control_State\<close> (\<open>db/models\<close>, \<open>db/engine.py\<close>), \<open>Materializer\<close>
  (\<open>services/materializer.py\<close>, \<open>generations.py\<close>, \<open>wireguard_keys.py\<close>), \<open>Publication\<close>
  (\<open>api/v1/admin/nodes.py\<close>, \<open>_helpers.py\<close>, \<open>services/desired_state.py\<close>), \<open>Interface_Admin\<close>,
  \<open>Peering_Admin\<close>, \<open>Dns_Admin\<close> (\<open>api/v1/admin/interfaces.py\<close>, \<open>bgp_sessions.py\<close>, \<open>peerings.py\<close>,
  \<open>dns_groups.py\<close>), \<open>Peering_Backfill\<close> (\<open>services/peering_backfill.py\<close>), \<open>Provision\<close>
  (\<open>db/provision.py\<close>, \<open>api/v1/admin/provision.py\<close>), \<open>Credentials\<close>
  (\<open>services/tokens.py\<close>, \<open>enrollment.py\<close>), \<open>Registration\<close> (\<open>services/pending_registrations.py\<close>, \<open>api/deps.py\<close>,
  \<open>api/v1/agent_http.py\<close>), \<open>Event_Channel\<close> (\<open>core/events.py\<close>, \<open>api/v1/agent_ws.py\<close>), \<open>Node_Status\<close>
  (\<open>services/node_status.py\<close>), \<open>Traffic\<close> (\<open>services/traffic.py\<close>), \<open>Routing_Aggregate\<close> and
  \<open>Routing_Store\<close> (\<open>services/routing_aggregate.py\<close>, \<open>routing.py\<close>, \<open>db/models/routing.py\<close>).

  Properties over any sequence of requests: \<open>Config_Ops\<close> (the configuration handlers as one type), \<open>Write_Path\<close>
  (the interface every publishing operation respects), \<open>Generation_Log\<close>, \<open>Node_Lifecycle\<close>, \<open>Served_Configuration\<close>,
  \<open>Config_Handlers\<close>, \<open>Configuration\<close>, \<open>Listen_Ports\<close>, \<open>Full_Replacement\<close>, \<open>Backfill_Runs\<close>,
  \<open>Configuration_Examples\<close>, \<open>Provision_Rows\<close>, \<open>Provision_Roundtrip\<close>, \<open>Enrollment\<close>, \<open>Status_Log\<close>, \<open>Traffic_Archive\<close>, \<open>Routing_Log\<close>; of server and agent together:
  \<open>Agent_Server\<close> and \<open>Event_Line\<close>.
\<close>

text \<open>
  5. What is shown.

  Publishing.  The abstract specification of the database is one append-only log of states per node
  (\<open>Generation_Log\<close>); the tables are a window of at most a hundred generations onto it, and every operation of the
  administrator and of agents moves the logs.  One request appends to the logs; only a creation or a provisioning adds the log of its own node, only a deletion
  removes that of its own (\<open>log_moves\<close>, one after another in \<open>log_path\<close>).  The locale \<open>node_path\<close> states what a relation between databases has to satisfy so that every node handler
  moves along it, the registration of a node being confined to the numbers \<open>ids\<close> of an interpretation, and \<open>write_path\<close> extends it with changes of the other tables and of a node's group, for the
  configuration handlers; the refinement, the typing of stored snapshots, the permanence of keys, the credentials, the
  configuration invariant and the listen ports are interpretations of these.  Above it stands that a successful
  announcing handler leaves every node it concerns served what its tables give (\<open>Configuration\<close>).

  Configuration.  Listen ports are not shared by enabled interfaces of a node; the full replacement leaves the payload
  and nothing else on the peering; the backfill does what its dry run shows and nothing the second time; a complete state
  that is provisioned is what the node is served.

  Credentials.  The registration gate is exact for a registration with nothing in between its transactions
  (\<open>register_agent\<close>).  The histories of \<open>Enrollment\<close> are finer: a registration stops between its database
  transactions (\<open>register_step\<close>; \<open>register_steps_alone\<close> shows that the steps, taken together, are the handler), any
  number of them interleave with each other and with the other calls, and a provisioning may bring a token of its own
  (\<open>Provision_With\<close>).  Over these, only tokens that were issued or provisioned resolve, and a ticket buys one token
  apart from registrations that overlap with the one that spends it, whose race a lemma of \<open>Agent_Server\<close> shows.

  Agent.  Planning and applying files converges and touches nothing else, under every fault; the container plan is
  exactly the closure of what changed, and the deployment carries it out in phases and in dependency order; a
  generation counts as applied only after it was reported; a rejected token is replaced; healing reports and circuit
  signals are true.  Where a statement needs rendered text without carriage returns, or an identity that could be
  written, it says so, and a lemma beside it shows what happens otherwise.

  The line between them.  \<open>Event_Line\<close> is the transition system of commits, announcements, the bounded queue, the
  connection and the agent's doorbell, with every interleaving: when it is quiet the agent has asked for the newest
  state, unless a queue was full or a reconcile gave up before it was answered and none has asked since.

  Observation.  Status rows and histories refine the list of accepted posts, the traffic archive the list of credited
  rates, the routing tables the list of accepted tables (a report whose collection failed leaves the last good table);
  the figures of a table are those of its best routes, and the index of the route validation is the linear scan of
  RFC 6811.  The bounded histories are interpretations of one locale, \<open>bounded_history\<close>.

  6. Bounds and termination.  All loops of the code are total functions here, by structural recursion or with a
  measure: the rebuild propagation by the services that are not yet marked, the deployment order by the services that
  are left, the search for a free peering name by the taken names that remain.  A repetition of a regular expression
  is unrolled at most as often as characters are left, which is enough since its body consumes.  The endless loops of
  the agent are step relations.  Bounds of the code are kept as they are: a hundred generations and history entries,
  five hundred entries of the routing timeline, 288 buckets, the queue of the event bus, the limits of the lists of refused routes.

  7. Not modelled.  Rendering (the templates are not Python; what is relied on of their result is its paths and
  contents), cryptography (key generation and sealing call a library), the demonstration seed, the token that a
  provisioning request may bring along outside \<open>Enrollment\<close> and \<open>Provision_Roundtrip\<close> (in the sequences of
  configuration requests provisioning stands without it), the audit log, the views
  that combine stored rows for display (\<open>services/observability.py\<close>, \<open>internal_topology.py\<close>, the trend of
  \<open>get_fleet_overview\<close>, which is bucketed by the server's clock), settings, logging,
  metrics, the command lines, the web interface, scripts, migrations and test data.  Symbolic links, file modes other
  than by their effect on writing, and columns that no modelled operation reads (timestamps, notes, inventory) are left
  out.  Database transactions are served one after another: SQLAlchemy's isolation of concurrent transactions is not
  modelled, and only registration (\<open>Enrollment\<close>) and the doorbell line stop between them; every other request is one
  piece.  The writes of the identity file other than that at the end of a run do not fail.
\<close>

end
